(* ===== verification/Js_Prelude.thy ===== *)
theory Js_Prelude
  imports Main "HOL-Library.AList" "HOL-Library.Monad_Syntax"
begin

text \<open>
  The shared vocabulary of the development: the parts of the JavaScript language and of its
  standard library that the modelled scripts use (strings and arrays as lists, \<open>split\<close>,
  \<open>join\<close>, \<open>indexOf\<close>, \<open>lastIndexOf\<close>, \<open>slice\<close>, \<open>splice\<close>, \<open>toLowerCase\<close>, objects as insertion-ordered
  association lists), the fact collections \<open>js_simps\<close> and \<open>inv_intros\<close>, and two interface
  locales: \<open>js_object\<close> (what a property store promises) and \<open>step_system\<close> (what a state
  machine needs for its invariant to hold in every run).
\<close>

named_theorems js_simps \<open>defining equations of the modelled library functions\<close>
named_theorems inv_intros \<open>operations that keep a component's invariant\<close>

subsection \<open>Strings and arrays\<close>

text \<open>
  \<open>js_split c s\<close> is \<open>s.split(c)\<close> for a one-character separator and \<open>js_join sep ws\<close> is
  \<open>ws.join(sep)\<close>. Both work on lists of any element type, so they serve character strings
  and strings of 16-bit code units alike.
\<close>

fun js_split :: "'a \<Rightarrow> 'a list \<Rightarrow> 'a list list" where
  "js_split c [] = [[]]"
| "js_split c (x # xs) =
     (if x = c then [] # js_split c xs
      else (case js_split c xs of [] \<Rightarrow> [[x]] | w # ws \<Rightarrow> (x # w) # ws))"

fun js_join :: "'a list \<Rightarrow> 'a list list \<Rightarrow> 'a list" where
  "js_join sep [] = []"
| "js_join sep [w] = w"
| "js_join sep (w # v # ws) = w @ sep @ js_join sep (v # ws)"

text \<open>\<open>xs.splice(i, n, ...ys)\<close> for an index inside the array, and \<open>xs.slice(0, n)\<close>.\<close>

definition js_splice :: "nat \<Rightarrow> nat \<Rightarrow> 'a list \<Rightarrow> 'a list \<Rightarrow> 'a list" where
  "js_splice i n ys xs = take i xs @ ys @ drop (i + n) xs"

text \<open>An array read \<open>xs[i]\<close>: \<open>undefined\<close> (here \<open>None\<close>) outside the array.\<close>

definition js_nth :: "'a list \<Rightarrow> nat \<Rightarrow> 'a option" where
  "js_nth xs i = (if i < length xs then Some (xs ! i) else None)"

fun is_prefix_of :: "'a list \<Rightarrow> 'a list \<Rightarrow> bool" where
  "is_prefix_of [] ys = True"
| "is_prefix_of (x # xs) [] = False"
| "is_prefix_of (x # xs) (y # ys) = (x = y \<and> is_prefix_of xs ys)"

text \<open>
  \<open>index_of p s\<close> is \<open>s.indexOf(p)\<close> and \<open>last_index_of p s\<close> is \<open>s.lastIndexOf(p)\<close>; JavaScript's
  \<open>-1\<close> is \<open>None\<close>.
\<close>

fun index_of :: "'a list \<Rightarrow> 'a list \<Rightarrow> nat option" where
  "index_of p [] = (if p = [] then Some 0 else None)"
| "index_of p (x # xs) =
     (if is_prefix_of p (x # xs) then Some 0 else map_option Suc (index_of p xs))"

fun last_index_of :: "'a list \<Rightarrow> 'a list \<Rightarrow> nat option" where
  "last_index_of p [] = (if p = [] then Some 0 else None)"
| "last_index_of p (x # xs) =
     (case last_index_of p xs of
        Some i \<Rightarrow> Some (Suc i)
      | None \<Rightarrow> if is_prefix_of p (x # xs) then Some 0 else None)"

text \<open>\<open>s.toLowerCase()\<close> on the ASCII letters.\<close>

definition lower_char :: "char \<Rightarrow> char" where
  "lower_char c =
     (if 65 \<le> (of_char c :: nat) \<and> (of_char c :: nat) \<le> 90
      then char_of ((of_char c :: nat) + 32) else c)"

definition to_lower :: "string \<Rightarrow> string" where
  "to_lower s = map lower_char s"

text \<open>The decimal spelling of a non-negative integer and of an integer (\<open>String(n)\<close>).\<close>

fun nat_digits :: "nat \<Rightarrow> nat list" where
  "nat_digits n = (if n < 10 then [n] else nat_digits (n div 10) @ [n mod 10])"

declare nat_digits.simps [simp del]

definition digit_char :: "nat \<Rightarrow> char" where
  "digit_char d = char_of (48 + d)"

definition nat_str :: "nat \<Rightarrow> string" where
  "nat_str n = map digit_char (nat_digits n)"

definition int_str :: "int \<Rightarrow> string" where
  "int_str i = (if i < 0 then ''-'' @ nat_str (nat (- i)) else nat_str (nat i))"

subsection \<open>Objects\<close>

text \<open>
  An object used as a dictionary is an association list in insertion order, which is the order
  \<open>for (k in obj)\<close> visits. \<open>obj[k] = v\<close> is \<^const>\<open>AList.update\<close> (in place, or at the end for a
  new key), \<open>delete obj[k]\<close> is \<^const>\<open>AList.delete\<close>, and \<open>obj[k]\<close> is \<^const>\<open>map_of\<close>.
\<close>

type_synonym 'v obj = "(string \<times> 'v) list"

abbreviation own_prop :: "'v obj \<Rightarrow> string \<Rightarrow> bool" where
  "own_prop ob k \<equiv> map_of ob k \<noteq> None"

text \<open>\<open>$.extend(a, b)\<close>, one level deep: the properties of \<open>b\<close> overwrite those of \<open>a\<close>.\<close>

definition js_extend :: "'v obj \<Rightarrow> 'v obj \<Rightarrow> 'v obj" where
  "js_extend a b = fold (\<lambda>(k, v) acc. AList.update k v acc) b a"

subsection \<open>Lemmas: strings\<close>

lemma js_split_nonempty [simp]: "js_split c s \<noteq> []"
  by (induction s) (auto split: list.splits)

lemma js_join_Cons: "ws \<noteq> [] \<Longrightarrow> js_join sep (w # ws) = w @ sep @ js_join sep ws"
  by (cases ws) auto

lemma js_join_append: "ws \<noteq> [] \<Longrightarrow> vs \<noteq> [] \<Longrightarrow> js_join sep (ws @ vs) = js_join sep ws @ sep @ js_join sep vs"
proof (induction ws)
  case (Cons w ws)
  then show ?case by (cases "ws = []") (simp_all add: js_join_Cons)
qed simp

lemma js_join_split: "js_join [c] (js_split c s) = s"
proof (induction s)
  case Nil
  then show ?case by simp
next
  case (Cons x xs)
  show ?case
  proof (cases "x = c")
    case True
    with Cons show ?thesis by (simp add: js_join_Cons)
  next
    case False
    obtain w ws where w: "js_split c xs = w # ws"
      by (cases "js_split c xs") auto
    with Cons have "js_join [c] (w # ws) = xs" by simp
    then have "js_join [c] ((x # w) # ws) = x # xs" by (cases ws) auto
    with False w show ?thesis by simp
  qed
qed

lemma js_split_no_sep: "c \<notin> set w \<Longrightarrow> js_split c w = [w]"
  by (induction w) auto

lemma js_split_append:
  "c \<notin> set w \<Longrightarrow> js_split c (w @ c # s) = w # js_split c s"
  by (induction w) auto

lemma js_split_join:
  "ws \<noteq> [] \<Longrightarrow> (\<And>w. w \<in> set ws \<Longrightarrow> c \<notin> set w) \<Longrightarrow> js_split c (js_join [c] ws) = ws"
  by (induction "[c]" ws rule: js_join.induct) (auto simp: js_split_no_sep js_split_append)

lemma js_split_parts_no_sep: "w \<in> set (js_split c s) \<Longrightarrow> c \<notin> set w"
  by (induction s arbitrary: w) (auto split: if_splits list.splits)

lemma is_prefix_of_iff: "is_prefix_of p s \<longleftrightarrow> (\<exists>t. s = p @ t)"
  by (induction p s rule: is_prefix_of.induct) auto

lemma is_prefix_of_append [simp]: "is_prefix_of p (p @ t)"
  by (simp add: is_prefix_of_iff)

lemma index_of_Some:
  "index_of p s = Some i \<Longrightarrow> i + length p \<le> length s \<and> take (length p) (drop i s) = p"
proof (induction p s arbitrary: i rule: index_of.induct)
  case (1 p)
  then show ?case by (auto split: if_splits)
next
  case (2 p x xs)
  show ?case
  proof (cases "is_prefix_of p (x # xs)")
    case True
    then obtain t where "x # xs = p @ t" by (auto simp: is_prefix_of_iff)
    with True 2 show ?thesis
      by (metis add_0 append_eq_conv_conj drop0 index_of.simps(2) le_add1 length_append option.inject)
  next
    case False
    with 2 show ?thesis by auto
  qed
qed

lemma index_of_append_front: "index_of p (a @ p @ b) \<noteq> None"
proof (induction a)
  case Nil
  have "is_prefix_of p (p @ b)" by simp
  then show ?case by (cases "p @ b") auto
next
  case (Cons x a)
  then show ?case by auto
qed

lemma index_of_None_iff: "index_of p s = None \<longleftrightarrow> \<not> (\<exists>a b. s = a @ p @ b)"
proof
  assume "index_of p s = None"
  then show "\<not> (\<exists>a b. s = a @ p @ b)" using index_of_append_front by metis
next
  assume none: "\<not> (\<exists>a b. s = a @ p @ b)"
  show "index_of p s = None"
  proof (rule ccontr)
    assume "index_of p s \<noteq> None"
    then obtain i where "index_of p s = Some i" by auto
    then have "take (length p) (drop i s) = p" using index_of_Some by blast
    then have "s = take i s @ p @ drop (length p) (drop i s)"
      by (metis append_take_drop_id)
    with none show False by blast
  qed
qed

lemma lower_char_idem [simp]: "lower_char (lower_char c) = lower_char c"
  by (auto simp: lower_char_def)

lemma to_lower_idem [simp]: "to_lower (to_lower s) = to_lower s"
  by (simp add: to_lower_def)

lemma to_lower_append [simp]: "to_lower (a @ b) = to_lower a @ to_lower b"
  by (simp add: to_lower_def)

lemma length_js_splice: "i + n \<le> length xs \<Longrightarrow> length (js_splice i n ys xs) = length xs - n + length ys"
  by (simp add: js_splice_def)

lemma js_nth_Some_iff: "js_nth xs i = Some x \<longleftrightarrow> i < length xs \<and> xs ! i = x"
  by (auto simp: js_nth_def)

lemma js_nth_append_length [simp]: "js_nth (xs @ y # ys) (length xs) = Some y"
  by (simp add: js_nth_def)

lemma nat_digits_nonempty [simp]: "nat_digits n \<noteq> []"
  by (subst nat_digits.simps) simp

lemma nat_digits_small: "d \<in> set (nat_digits n) \<Longrightarrow> d < 10"
proof (induction n arbitrary: d rule: nat_digits.induct)
  case (1 n)
  then show ?case
    by (subst (asm) (2) nat_digits.simps) (auto split: if_splits)
qed

lemma filter_upt_only: "a < n \<Longrightarrow> (\<And>i. i < n \<Longrightarrow> P i = (i = a)) \<Longrightarrow> filter P [0..<n] = [a]"
proof -
  assume a: "a < n" and P: "\<And>i. i < n \<Longrightarrow> P i = (i = a)"
  have "filter P [0..<n] = filter (\<lambda>i. i = a) [0..<n]" by (rule filter_cong) (auto simp: P)
  moreover have "[0..<n] = [0..<a] @ a # [Suc a..<n]"
    using a by (metis add.left_neutral less_imp_le_nat upt_add_eq_append upt_conv_Cons zero_le le_Suc_ex)
  ultimately show ?thesis by (simp add: filter_empty_conv)
qed

text \<open>A property that holds at one position, or at most at one, of a list.\<close>

lemma length_filter_only: "a < length xs \<Longrightarrow> (\<And>i. i < length xs \<Longrightarrow> P (xs ! i) = (i = a)) \<Longrightarrow> length (filter P xs) = 1"
proof -
  assume "a < length xs" "\<And>i. i < length xs \<Longrightarrow> P (xs ! i) = (i = a)"
  then have "{i. i < length xs \<and> P (xs ! i)} = {a}" by auto
  then show ?thesis by (simp add: length_filter_conv_card)
qed

lemma length_filter_unique:
  "(\<And>i j. i < length xs \<Longrightarrow> j < length xs \<Longrightarrow> P (xs ! i) \<Longrightarrow> P (xs ! j) \<Longrightarrow> i = j) \<Longrightarrow> length (filter P xs) \<le> 1"
proof -
  assume "\<And>i j. i < length xs \<Longrightarrow> j < length xs \<Longrightarrow> P (xs ! i) \<Longrightarrow> P (xs ! j) \<Longrightarrow> i = j"
  then have "card {i. i < length xs \<and> P (xs ! i)} \<le> 1"
    by (subst card_le_Suc0_iff_eq [simplified One_nat_def [symmetric]]) auto
  then show ?thesis by (simp add: length_filter_conv_card)
qed

subsection \<open>The interface of a property store\<close>

text \<open>
  What the scripts rely on when they use an object as a dictionary. The laws are stated for any
  representation with a well-formedness predicate; they are discharged below for the
  association lists that the model uses.
\<close>

locale js_object =
  fixes emp :: "'m"
    and get :: "'m \<Rightarrow> 'k \<Rightarrow> 'v option"
    and put :: "'k \<Rightarrow> 'v \<Rightarrow> 'm \<Rightarrow> 'm"
    and del :: "'k \<Rightarrow> 'm \<Rightarrow> 'm"
    and keys :: "'m \<Rightarrow> 'k list"
    and wf :: "'m \<Rightarrow> bool"
  assumes get_emp: "get emp k = None"
    and get_put: "get (put k v m) k' = (if k' = k then Some v else get m k')"
    and get_del: "get (del k m) k' = (if k' = k then None else get m k')"
    and keys_get: "k \<in> set (keys m) \<longleftrightarrow> get m k \<noteq> None"
    and wf_emp: "wf emp"
    and wf_put: "wf m \<Longrightarrow> wf (put k v m)"
    and wf_del: "wf m \<Longrightarrow> wf (del k m)"
    and wf_keys: "wf m \<Longrightarrow> distinct (keys m)"
begin

lemma get_put_same [simp]: "get (put k v m) k = Some v"
  by (simp add: get_put)

lemma put_put_get: "get (put k v (put k w m)) = get (put k v m)"
  by (simp add: get_put fun_eq_iff)

lemma put_commute_get: "k \<noteq> k' \<Longrightarrow> get (put k v (put k' v' m)) = get (put k' v' (put k v m))"
  by (auto simp add: get_put fun_eq_iff)

lemma del_put_get: "get m k = None \<Longrightarrow> get (del k (put k v m)) = get m"
  by (auto simp add: get_put get_del fun_eq_iff split: if_splits)

lemma keys_put: "set (keys (put k v m)) = insert k (set (keys m))"
  by (auto simp: keys_get get_put split: if_splits)

lemma keys_del: "set (keys (del k m)) = set (keys m) - {k}"
  by (auto simp: keys_get get_del split: if_splits)

lemma del_length_less:
  "wf m \<Longrightarrow> get m k \<noteq> None \<Longrightarrow> length (keys (del k m)) < length (keys m)"
proof -
  assume wf: "wf m" and k: "get m k \<noteq> None"
  have "distinct (keys (del k m))" by (rule wf_keys [OF wf_del [OF wf]])
  then have "length (keys (del k m)) = card (set (keys m) - {k})"
    using distinct_card keys_del [of k m] by metis
  also have "\<dots> < card (set (keys m))"
  proof (rule psubset_card_mono)
    have "k \<in> set (keys m)" using k by (simp add: keys_get)
    then show "set (keys m) - {k} \<subset> set (keys m)" by blast
  qed simp
  also have "\<dots> = length (keys m)"
    using wf wf_keys by (simp add: distinct_card)
  finally show ?thesis .
qed

end

interpretation obj: js_object "[] :: ('k \<times> 'v) list" map_of AList.update AList.delete "map fst"
  "\<lambda>m. distinct (map fst m)"
proof (unfold_locales, goal_cases)
  case (2 k v m k')
  then show ?case by (simp add: update_conv')
next
  case (3 k m k')
  then show ?case by (simp add: delete_conv')
next
  case (4 k m)
  then show ?case by (metis map_of_eq_None_iff list.set_map)
next
  case (6 m k v)
  then show ?case by (simp add: distinct_update)
next
  case (7 m k)
  then show ?case by (simp add: distinct_delete)
qed auto

lemmas obj_get [simp] = obj.get_put obj.get_del

lemma js_extend_get:
  "map_of (js_extend a b) k = (case map_of (rev b) k of Some v \<Rightarrow> Some v | None \<Rightarrow> map_of a k)"
proof (induction b arbitrary: a)
  case Nil
  then show ?case by (simp add: js_extend_def)
next
  case (Cons p b)
  have step: "js_extend a (p # b) = js_extend (AList.update (fst p) (snd p) a) b"
    by (simp add: js_extend_def split_beta)
  show ?case
    unfolding step Cons by (cases p) (auto simp: map_add_def split: option.splits)
qed

lemma map_of_rev_distinct: "distinct (map fst b) \<Longrightarrow> map_of (rev b) = map_of b"
  by (rule map_of_eqI) (auto simp: rev_map [symmetric] map_of_eq_Some_iff)

lemma js_extend_override:
  "distinct (map fst b) \<Longrightarrow> map_of (js_extend a b) k = (map_of a ++ map_of b) k"
  by (simp add: js_extend_get map_add_def map_of_rev_distinct)

lemma js_extend_distinct: "distinct (map fst a) \<Longrightarrow> distinct (map fst (js_extend a b))"
  unfolding js_extend_def
  by (induction b arbitrary: a) (auto simp: distinct_update split_beta)

subsection \<open>State machines\<close>

text \<open>
  A component with state is a step function over its events. What it needs for a property to
  hold in every run is an invariant that its steps keep; the runs are folded once here.
\<close>

locale step_system =
  fixes step :: "'s \<Rightarrow> 'e \<Rightarrow> 's"
    and ok :: "'s \<Rightarrow> bool"
  assumes step_ok: "ok s \<Longrightarrow> ok (step s e)"
begin

lemma run_ok: "ok s \<Longrightarrow> ok (foldl step s es)"
  by (induction es arbitrary: s) (auto simp: step_ok)

lemma run_prefix_ok: "ok s \<Longrightarrow> ok (foldl step s (take n es))"
  by (rule run_ok)

end

end
