(* ===== verification/Amd_Paths.thy ===== *)
theory Amd_Paths
  imports Js_Prelude
begin

text \<open>
  What both module loaders (\<open>fuelux/lib/almond.js\<close> and \<open>js/require.js\<close>) promise about relative
  module names. \<open>resolve\<close> is the reference: walk the segments with a stack, drop \<open>.\<close>, pop at
  \<open>..\<close>, fail when the stack is empty. The locale \<open>dot_trimmer\<close> is the contract of a loader's
  in-place trimming loop; the lemmas proved in it hold for both loaders.
\<close>

fun resolve :: "string list \<Rightarrow> string list \<Rightarrow> string list option" where
  "resolve st [] = Some (rev st)"
| "resolve st (p # ps) =
     (if p = ''.'' then resolve st ps
      else if p = ''..'' then (case st of [] \<Rightarrow> None | _ # st' \<Rightarrow> resolve st' ps)
      else resolve (p # st) ps)"

definition plain_segment :: "string \<Rightarrow> bool" where
  "plain_segment p \<longleftrightarrow> p \<noteq> ''.'' \<and> p \<noteq> ''..''"

lemma resolve_plain: "list_all plain_segment ps \<Longrightarrow> resolve st ps = Some (rev st @ ps)"
  by (induction ps arbitrary: st) (auto simp: plain_segment_def)

lemma resolve_append_plain:
  "list_all plain_segment ps \<Longrightarrow> resolve st (ps @ qs) = resolve (rev ps @ st) qs"
  by (induction ps arbitrary: st) (auto simp: plain_segment_def)

lemma resolve_result_plain:
  "resolve st ps = Some r \<Longrightarrow> list_all plain_segment st \<Longrightarrow> list_all plain_segment r"
proof (induction st ps arbitrary: r rule: resolve.induct)
  case (1 st)
  then show ?case by (auto simp: list_all_iff)
next
  case (2 st p ps)
  then show ?case by (auto simp: plain_segment_def split: if_splits list.splits)
qed

lemma resolve_set: "resolve st ps = Some r \<Longrightarrow> set r \<subseteq> set st \<union> set ps"
proof (induction st ps arbitrary: r rule: resolve.induct)
  case (1 st)
  then show ?case by auto
next
  case (2 st p ps)
  then show ?case by (fastforce split: if_splits list.splits)
qed

text \<open>
  The state of a trimming loop at index \<open>i\<close> is the array: the first \<open>i\<close> segments are already
  clean (the stack of the reference, upside down) and the rest is still to be read.
\<close>

definition trim_state :: "string list \<Rightarrow> string list \<Rightarrow> string list" where
  "trim_state st ps = rev st @ ps"

lemma trim_state_drop_dot: "js_splice (length st) 1 [] (trim_state st (p # ps)) = trim_state st ps"
  by (simp add: js_splice_def trim_state_def)

lemma trim_state_pop:
  "js_splice (length (s # st) - 1) 2 [] (trim_state (s # st) (p # ps)) = trim_state st ps"
  by (simp add: js_splice_def trim_state_def)

lemma trim_state_push: "trim_state st (p # ps) = trim_state (p # st) ps"
  by (simp add: trim_state_def)

lemma trim_state_read [simp]:
  "length st < length (trim_state st (p # ps))" "trim_state st (p # ps) ! length st = p"
  by (simp_all add: trim_state_def nth_append)

lemma trim_state_end [simp]: "length (trim_state st []) = length st"
  by (simp add: trim_state_def)

text \<open>The guard that ends the loop early never fires on a path the reference resolves.\<close>

definition stuck_at_root :: "string list \<Rightarrow> nat \<Rightarrow> bool" where
  "stuck_at_root ary i \<longleftrightarrow>
     i = 1 \<and> (js_nth ary 2 = Some ''..'' \<or> js_nth ary 0 = Some ''..'')"

lemma not_stuck_when_resolvable:
  assumes "resolve st (''..'' # ps) = Some r" and "list_all plain_segment st"
  shows "\<not> stuck_at_root (trim_state st (''..'' # ps)) (length st)"
proof
  assume "stuck_at_root (trim_state st (''..'' # ps)) (length st)"
  then obtain s where st: "st = [s]"
    and dots: "js_nth (s # ''..'' # ps) 2 = Some ''..'' \<or> s = ''..''"
    by (cases st) (auto simp: stuck_at_root_def trim_state_def js_nth_Some_iff)
  from assms(2) st have "s \<noteq> ''..''" by (simp add: plain_segment_def)
  with dots obtain qs where "ps = ''..'' # qs"
    by (cases ps) (auto simp: js_nth_Some_iff)
  with assms(1) st show False by simp
qed

text \<open>
  A counting-down search \<open>for (j = n; j > 0; j -= 1)\<close> that stops at the first hit, and the
  truthy read of a string-valued property (a missing key and the empty string are falsy).
\<close>

fun search_down :: "(nat \<Rightarrow> 'a option) \<Rightarrow> nat \<Rightarrow> 'a option" where
  "search_down f 0 = None"
| "search_down f (Suc n) = (case f (Suc n) of Some x \<Rightarrow> Some x | None \<Rightarrow> search_down f n)"

definition truthy_get :: "string obj \<Rightarrow> string \<Rightarrow> string option" where
  "truthy_get ob k = (case map_of ob k of None \<Rightarrow> None | Some v \<Rightarrow> if v = [] then None else Some v)"

definition truthy_str :: "string option \<Rightarrow> string option" where
  "truthy_str s = (case s of None \<Rightarrow> None | Some v \<Rightarrow> if v = [] then None else Some v)"

definition path_split :: "string \<Rightarrow> string list" where
  "path_split s = js_split (CHR ''/'') s"

definition path_join :: "string list \<Rightarrow> string" where
  "path_join ws = js_join ''/'' ws"

lemma search_down_Some:
  "search_down f n = Some x \<longleftrightarrow>
     (\<exists>j. 0 < j \<and> j \<le> n \<and> f j = Some x \<and> (\<forall>k. j < k \<and> k \<le> n \<longrightarrow> f k = None))"
proof (induction n)
  case 0
  then show ?case by simp
next
  case (Suc n)
  show ?case
  proof (cases "f (Suc n)")
    case None
    then show ?thesis
      by (simp add: Suc) (metis (no_types, lifting) le_Suc_eq option.distinct(1))
  next
    case (Some y)
    then have last: "j = Suc n"
      if "j \<le> Suc n" "\<forall>k. j < k \<and> k \<le> Suc n \<longrightarrow> f k = None" for j
      using that by (cases "j = Suc n") auto
    show ?thesis
    proof
      assume "search_down f (Suc n) = Some x"
      with Some show "\<exists>j. 0 < j \<and> j \<le> Suc n \<and> f j = Some x \<and> (\<forall>k. j < k \<and> k \<le> Suc n \<longrightarrow> f k = None)"
        by (intro exI [of _ "Suc n"]) auto
    next
      assume "\<exists>j. 0 < j \<and> j \<le> Suc n \<and> f j = Some x \<and> (\<forall>k. j < k \<and> k \<le> Suc n \<longrightarrow> f k = None)"
      with last have "f (Suc n) = Some x" by blast
      then show "search_down f (Suc n) = Some x" by simp
    qed
  qed
qed

lemma search_down_None: "search_down f n = None \<longleftrightarrow> (\<forall>j. 0 < j \<and> j \<le> n \<longrightarrow> f j = None)"
proof (induction n)
  case 0
  then show ?case by simp
next
  case (Suc n)
  then show ?case
    by (auto split: option.splits) (metis le_Suc_eq option.distinct(1) zero_less_Suc)+
qed

lemma path_join_split [simp]: "path_join (path_split s) = s"
  by (simp add: path_join_def path_split_def js_join_split)

lemma path_split_join:
  "ws \<noteq> [] \<Longrightarrow> (\<And>w. w \<in> set ws \<Longrightarrow> CHR ''/'' \<notin> set w) \<Longrightarrow> path_split (path_join ws) = ws"
  unfolding path_join_def path_split_def by (rule js_split_join)

lemma path_split_nonempty [simp]: "path_split s \<noteq> []"
  by (simp add: path_split_def)

lemma path_split_parts: "w \<in> set (path_split s) \<Longrightarrow> CHR ''/'' \<notin> set w"
  unfolding path_split_def by (rule js_split_parts_no_sep)

locale dot_trimmer =
  fixes trim :: "string list \<Rightarrow> string list"
    and accepts :: "string list \<Rightarrow> bool"
  assumes trim_resolves: "accepts ps \<Longrightarrow> resolve [] ps = Some r \<Longrightarrow> trim ps = r"
    and accepts_subset: "accepts ps \<Longrightarrow> set qs \<subseteq> set ps \<Longrightarrow> accepts qs"
begin

lemma trim_no_dots:
  "accepts ps \<Longrightarrow> resolve [] ps = Some r \<Longrightarrow> p \<in> set (trim ps) \<Longrightarrow> p \<noteq> ''.'' \<and> p \<noteq> ''..''"
proof -
  assume ok: "accepts ps" and r: "resolve [] ps = Some r" and p: "p \<in> set (trim ps)"
  have "list_all plain_segment r" using resolve_result_plain [OF r] by simp
  then show ?thesis using p trim_resolves [OF ok r] by (auto simp: list_all_iff plain_segment_def)
qed

lemma trim_idem:
  "accepts ps \<Longrightarrow> resolve [] ps = Some r \<Longrightarrow> trim (trim ps) = trim ps"
proof -
  assume ok: "accepts ps" and r: "resolve [] ps = Some r"
  have tr: "trim ps = r" by (rule trim_resolves [OF ok r])
  have "list_all plain_segment r" using resolve_result_plain [OF r] by simp
  then have "resolve [] r = Some r" using resolve_plain by fastforce
  moreover have "accepts r" using accepts_subset [OF ok] resolve_set [OF r] by simp
  ultimately show ?thesis using tr trim_resolves by simp
qed

lemma trim_plain: "accepts ps \<Longrightarrow> list_all plain_segment ps \<Longrightarrow> trim ps = ps"
  using trim_resolves [of ps ps] resolve_plain [of ps "[]"] by simp

lemma trim_sibling:
  "accepts (dir @ [''.'', f]) \<Longrightarrow> list_all plain_segment dir \<Longrightarrow> plain_segment f \<Longrightarrow>
   trim (dir @ [''.'', f]) = dir @ [f]"
  by (rule trim_resolves) (auto simp: resolve_append_plain plain_segment_def)

lemma trim_parent:
  "accepts (dir @ [d, ''..'', f]) \<Longrightarrow> list_all plain_segment (dir @ [d]) \<Longrightarrow> plain_segment f \<Longrightarrow>
   trim (dir @ [d, ''..'', f]) = dir @ [f]"
  by (rule trim_resolves) (auto simp: resolve_append_plain plain_segment_def)

end

end
