(* ===== verification/Almond.thy ===== *)
theory Almond
  imports Amd_Paths
begin

text \<open>
  The AMD loader that \<open>fuelux/dist/loader.js\<close> embeds (\<open>fuelux/lib/almond.js\<close>): name
  normalisation, the tables \<open>defined\<close>, \<open>waiting\<close>, \<open>defining\<close> and \<open>config\<close>, and the
  synchronous execution of waiting modules (\<open>callDep\<close>, \<open>makeMap\<close>, \<open>main\<close>, \<open>req\<close>, \<open>define\<close>).

  Module values are opaque: \<open>Undef\<close>, a falsy primitive, or an object with an identity; the
  loader only tests them for truth and identity. A factory is code the loader calls: it is a
  \<^emph>\<open>finite interaction\<close> (\<open>fact\<close>) that may call the \<open>require\<close> function it was given,
  assign \<open>module.exports\<close>, throw, or return. Loader plugins are parameters (\<open>plugins\<close>).
\<close>

subsection \<open>Values, factories, state\<close>

datatype mval = Undef | Falsy nat | Obj nat | ReqFun "string option" | ModObj string

datatype err =
    NoModule string             \<comment> \<open>\<open>new Error('No ' + name)\<close>\<close>
  | Missing string string       \<comment> \<open>\<open>new Error(name + ' missing ' + depName)\<close>\<close>
  | TypeErr string              \<comment> \<open>a method call on a value that lacks it\<close>
  | Thrown nat                  \<comment> \<open>an exception of a factory\<close>
  | OutOfFuel                   \<comment> \<open>never reached with enough fuel: \<open>call_dep_enough_fuel\<close>\<close>

text \<open>
  \<open>Require rel name k\<close>: the factory calls the require function made for \<open>rel\<close> with a string and
  continues with the value. \<open>RequireAsync rel deps cb k\<close>: it calls it with an array and a
  callback (number of formal parameters, body). \<open>SetExports v k\<close>: \<open>module.exports = v\<close>.
\<close>

datatype fact =
    Return mval
  | Throw nat
  | SetExports mval fact
  | Require "string option" string "mval \<Rightarrow> fact"
  | RequireAsync "string option" "string list" nat "mval list \<Rightarrow> fact" fact

datatype callback = Factory nat "mval list \<Rightarrow> fact" | Literal mval

record almond_config =
  cfg_map :: "string obj obj option"
  cfg_config :: "mval obj option"

record plugin =
  plug_normalize :: "((string \<Rightarrow> string) \<Rightarrow> string \<Rightarrow> string) option"
  plug_load :: "(string \<Rightarrow> mval option) option"

text \<open>\<open>timers\<close> holds the \<open>main\<close> calls that \<open>setTimeout(..., 15)\<close> has postponed, oldest first.\<close>

record almond =
  defined :: "mval obj"
  waiting :: "(string list \<times> callback) obj"
  config :: almond_config
  defining :: "bool obj"
  fresh :: nat
  timers :: "(string list option \<times> callback \<times> string option) list"

type_synonym 'a result = "(err + 'a) \<times> almond"

definition initial :: almond where
  "initial = \<lparr>defined = [], waiting = [], config = \<lparr>cfg_map = None, cfg_config = None\<rparr>,
     defining = [], fresh = 0, timers = []\<rparr>"

fun truthy :: "mval \<Rightarrow> bool" where
  "truthy Undef = False"
| "truthy (Falsy _) = False"
| "truthy _ = True"

definition get_val :: "mval obj \<Rightarrow> string \<Rightarrow> mval" where
  "get_val ob k = (case map_of ob k of None \<Rightarrow> Undef | Some v \<Rightarrow> v)"

text \<open>A property key made from an identifier that may be \<open>undefined\<close>.\<close>

definition key_of :: "string option \<Rightarrow> string" where
  "key_of n = (case n of None \<Rightarrow> ''undefined'' | Some s \<Rightarrow> s)"

subsection \<open>Names\<close>

function almond_trim_loop :: "nat \<Rightarrow> string list \<Rightarrow> string list" where
  "almond_trim_loop i ary =
     (if i < length ary then
        if ary ! i = ''.'' then almond_trim_loop i (js_splice i 1 [] ary)
        else if ary ! i = ''..'' then
          if stuck_at_root ary i then ary
          else if i > 0 then almond_trim_loop (i - 1) (js_splice (i - 1) 2 [] ary)
          else almond_trim_loop (i + 1) ary
        else almond_trim_loop (i + 1) ary
      else ary)"
  by pat_completeness auto
termination
  by (relation "measure (\<lambda>(i, ary). length ary - i)") (auto simp: js_splice_def)

declare almond_trim_loop.simps [simp del]

definition almond_trim :: "string list \<Rightarrow> string list" where
  "almond_trim ary = almond_trim_loop 0 ary"

text \<open>The map entry of the longest base-name prefix that has one for this name segment.\<close>

definition base_map_value :: "string obj obj \<Rightarrow> string list \<Rightarrow> string \<Rightarrow> string option" where
  "base_map_value m baseParts nameSegment =
     search_down (\<lambda>j. case map_of m (path_join (take j baseParts)) of
         None \<Rightarrow> None | Some mapValue \<Rightarrow> truthy_get mapValue nameSegment) (length baseParts)"

fun almond_map_loop ::
  "string obj obj \<Rightarrow> string list option \<Rightarrow> string list \<Rightarrow> nat \<Rightarrow> (string \<times> nat) option \<Rightarrow>
   (string \<times> nat) option" where
  "almond_map_loop m baseParts nameParts 0 star = star"
| "almond_map_loop m baseParts nameParts (Suc i) star =
     (let nameSegment = path_join (take (Suc i) nameParts);
          starMap = (case map_of m ''*'' of None \<Rightarrow> [] | Some sm \<Rightarrow> sm)
      in case (case baseParts of None \<Rightarrow> None | Some bp \<Rightarrow> base_map_value m bp nameSegment) of
           Some v \<Rightarrow> Some (v, Suc i)
         | None \<Rightarrow> almond_map_loop m baseParts nameParts i
             (case star of
                Some sv \<Rightarrow> Some sv
              | None \<Rightarrow> map_option (\<lambda>v. (v, Suc i)) (truthy_get starMap nameSegment)))"

definition almond_apply_map :: "string obj obj \<Rightarrow> string list option \<Rightarrow> string \<Rightarrow> string" where
  "almond_apply_map m baseParts name =
     (let nameParts = path_split name
      in case almond_map_loop m baseParts nameParts (length nameParts) None of
           None \<Rightarrow> name
         | Some (foundMap, foundI) \<Rightarrow> path_join (js_splice 0 foundI [foundMap] nameParts))"

definition almond_normalize :: "almond_config \<Rightarrow> string \<Rightarrow> string option \<Rightarrow> string" where
  "almond_normalize cfg name baseName =
     (let baseParts = map_option path_split (truthy_str baseName);
          relative = (name \<noteq> [] \<and> hd name = CHR ''.'' \<and> baseParts \<noteq> None);
          baseParts' = (if relative then map_option butlast baseParts else baseParts);
          name' = (if relative then path_join (almond_trim (the baseParts' @ path_split name)) else name)
      in case cfg_map cfg of
           None \<Rightarrow> name'
         | Some m \<Rightarrow> almond_apply_map m baseParts' name')"

subsection \<open>Executing modules\<close>

text \<open>
  \<open>callDep\<close>, \<open>makeMap\<close> and \<open>main\<close> call each other. The steps below take \<open>callDep\<close> as the argument
  \<open>cd\<close>; \<open>call_dep\<close> ties the knot with a fuel that bounds the nesting of module executions.
\<close>

record name_map =
  nm_f :: string
  nm_n :: string
  nm_p :: mval

type_synonym dep_caller = "almond \<Rightarrow> string \<Rightarrow> mval result"

definition make_map ::
  "(nat \<Rightarrow> plugin option) \<Rightarrow> dep_caller \<Rightarrow> almond \<Rightarrow> string \<Rightarrow> string option \<Rightarrow> name_map result" where
  "make_map plugins cd s name relName =
     (case index_of ''!'' name of
        None \<Rightarrow>
          (let n = almond_normalize (config s) name relName
           in (Inr \<lparr>nm_f = n, nm_n = n, nm_p = Undef\<rparr>, s))
      | Some index \<Rightarrow>
          (let prefix = almond_normalize (config s) (take index name) relName;
               rest = drop (index + 1) name
           in case cd s prefix of
                (Inl e, s') \<Rightarrow> (Inl e, s')
              | (Inr plugin, s') \<Rightarrow>
                  (let own = (case plugin of
                          Obj a \<Rightarrow> (case plugins a of None \<Rightarrow> None | Some p \<Rightarrow> plug_normalize p)
                        | _ \<Rightarrow> None);
                       n = (case own of
                              Some f \<Rightarrow> f (\<lambda>x. almond_normalize (config s') x relName) rest
                            | None \<Rightarrow> almond_normalize (config s') rest relName)
                   in (Inr \<lparr>nm_f = (if prefix = [] then n else prefix @ ''!'' @ n),
                            nm_n = n, nm_p = plugin\<rparr>, s'))))"

text \<open>
  One dependency of \<open>main\<close>: the argument it contributes, and what it does to the local
  variables \<open>usingExports\<close> and \<open>cjsModule\<close> (its \<open>exports\<close> field when present).
\<close>

record locals =
  args :: "mval list"
  usingExports :: bool
  cjsExports :: "mval option"

definition dep_arg ::
  "(nat \<Rightarrow> plugin option) \<Rightarrow> dep_caller \<Rightarrow> string option \<Rightarrow> string option \<Rightarrow> string \<Rightarrow>
   locals \<Rightarrow> almond \<Rightarrow> locals result" where
  "dep_arg plugins cd name relName dep l s =
     (case make_map plugins cd s dep relName of
        (Inl e, s') \<Rightarrow> (Inl e, s')
      | (Inr mp, s') \<Rightarrow>
          (let depName = nm_f mp
           in if depName = ''require'' then (Inr (l\<lparr>args := args l @ [ReqFun name]\<rparr>), s')
              else if depName = ''exports'' then
                (Inr (l\<lparr>args := args l @ [Obj (fresh s')], usingExports := True\<rparr>),
                 s'\<lparr>defined := AList.update (key_of name) (Obj (fresh s')) (defined s'),
                    fresh := fresh s' + 1\<rparr>)
              else if depName = ''module'' then
                (Inr (l\<lparr>args := args l @ [ModObj (key_of name)],
                        cjsExports := Some (get_val (defined s') (key_of name))\<rparr>), s')
              else if own_prop (defined s') depName \<or> own_prop (waiting s') depName then
                (case cd s' depName of
                   (Inl e, s'') \<Rightarrow> (Inl e, s'')
                 | (Inr v, s'') \<Rightarrow> (Inr (l\<lparr>args := args l @ [v]\<rparr>), s''))
              else if truthy (nm_p mp) then
                (case (case nm_p mp of
                         Obj a \<Rightarrow> (case plugins a of None \<Rightarrow> None | Some p \<Rightarrow> plug_load p)
                       | _ \<Rightarrow> None) of
                   None \<Rightarrow> (Inl (TypeErr ''load''), s')
                 | Some load \<Rightarrow>
                     (let s'' = (case load (nm_n mp) of
                                   None \<Rightarrow> s'
                                 | Some v \<Rightarrow> s'\<lparr>defined := AList.update depName v (defined s')\<rparr>)
                      in (Inr (l\<lparr>args := args l @ [get_val (defined s'') depName]\<rparr>), s'')))
              else if map_of (defining s') depName \<noteq> Some True then
                (Inl (Missing (key_of name) depName), s')
              else (Inr (l\<lparr>args := args l @ [Undef]\<rparr>), s')))"

fun dep_args ::
  "(nat \<Rightarrow> plugin option) \<Rightarrow> dep_caller \<Rightarrow> string option \<Rightarrow> string option \<Rightarrow> string list \<Rightarrow>
   locals \<Rightarrow> almond \<Rightarrow> locals result" where
  "dep_args plugins cd name relName [] l s = (Inr l, s)"
| "dep_args plugins cd name relName (d # ds) l s =
     (case dep_arg plugins cd name relName d l s of
        (Inl e, s') \<Rightarrow> (Inl e, s')
      | (Inr l', s') \<Rightarrow> dep_args plugins cd name relName ds l' s')"

text \<open>
  Running a factory. \<open>require(name)\<close> is \<open>callDep(makeMap(name, rel).f)\<close>; \<open>require(deps, cb)\<close>
  postpones \<open>main(undefined, deps, cb, rel)\<close>. The result carries \<open>module.exports\<close> as last set.
\<close>

primrec run_fact ::
  "(nat \<Rightarrow> plugin option) \<Rightarrow> dep_caller \<Rightarrow> fact \<Rightarrow> mval option \<Rightarrow> almond \<Rightarrow>
   (mval \<times> mval option) result" where
  "run_fact plugins cd (Return v) ex s = (Inr (v, ex), s)"
| "run_fact plugins cd (Throw n) ex s = (Inl (Thrown n), s)"
| "run_fact plugins cd (SetExports v k) ex s =
     run_fact plugins cd k (case ex of None \<Rightarrow> None | Some _ \<Rightarrow> Some v) s"
| "run_fact plugins cd (Require rel name k) ex s =
     (case make_map plugins cd s name rel of
        (Inl e, s') \<Rightarrow> (Inl e, s')
      | (Inr mp, s') \<Rightarrow>
          (case cd s' (nm_f mp) of
             (Inl e, s'') \<Rightarrow> (Inl e, s'')
           | (Inr v, s'') \<Rightarrow> run_fact plugins cd (k v) ex s''))"
| "run_fact plugins cd (RequireAsync rel deps n cb k) ex s =
     run_fact plugins cd k ex (s\<lparr>timers := timers s @ [(Some deps, Factory n cb, rel)]\<rparr>)"

text \<open>\<open>main(name, deps, callback, relName)\<close>.\<close>

definition main_with ::
  "(nat \<Rightarrow> plugin option) \<Rightarrow> dep_caller \<Rightarrow> string option \<Rightarrow> string list option \<Rightarrow> callback \<Rightarrow>
   string option \<Rightarrow> almond \<Rightarrow> unit result" where
  "main_with plugins cd name deps cb relName s =
     (let relName' = (case truthy_str relName of None \<Rightarrow> name | Some r \<Rightarrow> Some r)
      in case cb of
           Factory n body \<Rightarrow>
             (case deps of
                None \<Rightarrow> (Inl (TypeErr ''length''), s)
              | Some ds \<Rightarrow>
                  (let ds' = (if ds = [] \<and> n \<noteq> 0 then [''require'', ''exports'', ''module''] else ds)
                   in case dep_args plugins cd name relName' ds'
                             \<lparr>args = [], usingExports = False, cjsExports = None\<rparr> s of
                        (Inl e, s1) \<Rightarrow> (Inl e, s1)
                      | (Inr l, s1) \<Rightarrow>
                          (case run_fact plugins cd (body (args l)) (cjsExports l) s1 of
                             (Inl e, s2) \<Rightarrow> (Inl e, s2)
                           | (Inr (ret, ex), s2) \<Rightarrow>
                               (case truthy_str name of
                                  None \<Rightarrow> (Inr (), s2)
                                | Some nm \<Rightarrow>
                                    (Inr (),
                                     if ex \<noteq> None \<and> ex \<noteq> Some Undef \<and> ex \<noteq> Some (get_val (defined s2) nm)
                                     then s2\<lparr>defined := AList.update nm (the ex) (defined s2)\<rparr>
                                     else if ret \<noteq> Undef \<or> \<not> usingExports l
                                     then s2\<lparr>defined := AList.update nm ret (defined s2)\<rparr>
                                     else s2)))))
         | Literal v \<Rightarrow>
             (case truthy_str name of
                None \<Rightarrow> (Inr (), s)
              | Some nm \<Rightarrow> (Inr (), s\<lparr>defined := AList.update nm v (defined s)\<rparr>)))"

definition finish_dep :: "string \<Rightarrow> unit result \<Rightarrow> mval result" where
  "finish_dep name r =
     (case r of
        (Inl e, s) \<Rightarrow> (Inl e, s)
      | (Inr _, s) \<Rightarrow>
          (case map_of (defined s) name of
             None \<Rightarrow> (Inl (NoModule name), s)
           | Some v \<Rightarrow> (Inr v, s)))"

primrec call_dep :: "(nat \<Rightarrow> plugin option) \<Rightarrow> nat \<Rightarrow> almond \<Rightarrow> string \<Rightarrow> mval result" where
  "call_dep plugins 0 s name = (Inl OutOfFuel, s)"
| "call_dep plugins (Suc fuel) s name =
     finish_dep name
       (case map_of (waiting s) name of
          None \<Rightarrow> (Inr (), s)
        | Some (deps, cb) \<Rightarrow>
            main_with plugins (call_dep plugins fuel) (Some name) (Some deps) cb None
              (s\<lparr>waiting := AList.delete name (waiting s),
                 defining := AList.update name True (defining s)\<rparr>))"

text \<open>Every nested execution removes one waiting module, so this much fuel is always enough.\<close>

definition enough :: "almond \<Rightarrow> nat" where
  "enough s = Suc (length (waiting s))"

definition callDep :: "(nat \<Rightarrow> plugin option) \<Rightarrow> almond \<Rightarrow> string \<Rightarrow> mval result" where
  "callDep plugins s name = call_dep plugins (enough s) s name"

definition main ::
  "(nat \<Rightarrow> plugin option) \<Rightarrow> string option \<Rightarrow> string list option \<Rightarrow> callback \<Rightarrow> string option \<Rightarrow>
   almond \<Rightarrow> unit result" where
  "main plugins name deps cb relName s =
     main_with plugins (call_dep plugins (enough s)) name deps cb relName s"

subsection \<open>The public functions\<close>

definition make_config :: "almond \<Rightarrow> string \<Rightarrow> mval option" where
  "make_config s name =
     (case cfg_config (config s) of
        None \<Rightarrow> None
      | Some c \<Rightarrow> if truthy (get_val c name) then Some (get_val c name) else None)"

datatype arg =
    AUndef | AStr string | AArr "string list" | AFun nat "mval list \<Rightarrow> fact"
  | ACfg almond_config | ABool bool

fun truthy_arg :: "arg \<Rightarrow> bool" where
  "truthy_arg AUndef = False"
| "truthy_arg (AStr s) = (s \<noteq> [])"
| "truthy_arg (ABool b) = b"
| "truthy_arg _ = True"

fun arg_name :: "arg \<Rightarrow> string option" where
  "arg_name (AStr s) = Some s"
| "arg_name _ = None"

fun arg_callback :: "arg \<Rightarrow> callback" where
  "arg_callback (AFun n f) = Factory n f"
| "arg_callback a = (if truthy_arg a then Literal (Obj 0) else Factory 0 (\<lambda>_. Return Undef))"

text \<open>Anything that is neither a string nor an array is taken as the configuration; a function or a
  boolean has none of the properties the loader reads from it.\<close>

fun as_config :: "arg \<Rightarrow> almond_config" where
  "as_config (ACfg c) = c"
| "as_config _ = \<lparr>cfg_map = None, cfg_config = None\<rparr>"

datatype returned = RValue mval | RReq

text \<open>The tail of \<open>req\<close>: an array of dependencies (or \<open>undefined\<close>), run now or postponed.\<close>

definition req_array ::
  "(nat \<Rightarrow> plugin option) \<Rightarrow> string list option \<Rightarrow> arg \<Rightarrow> arg \<Rightarrow> arg \<Rightarrow> arg \<Rightarrow> almond \<Rightarrow>
   returned result" where
  "req_array plugins deps cb relName forceSync alt s =
     (let isErrback = (case relName of AFun _ _ \<Rightarrow> True | _ \<Rightarrow> False);
          rel = (if isErrback then forceSync else relName);
          sync = (if isErrback then alt else forceSync)
      in if truthy_arg sync then
           (case main plugins None deps (arg_callback cb) (arg_name rel) s of
              (Inl e, s') \<Rightarrow> (Inl e, s') | (Inr _, s') \<Rightarrow> (Inr RReq, s'))
         else (Inr RReq, s\<lparr>timers := timers s @ [(deps, arg_callback cb, arg_name rel)]\<rparr>))"

definition req ::
  "(nat \<Rightarrow> plugin option) \<Rightarrow> arg \<Rightarrow> arg \<Rightarrow> arg \<Rightarrow> arg \<Rightarrow> arg \<Rightarrow> almond \<Rightarrow> returned result" where
  "req plugins deps cb relName forceSync alt s =
     (case deps of
        AStr name \<Rightarrow>
          (case make_map plugins (callDep plugins) s name (arg_name cb) of
             (Inl e, s') \<Rightarrow> (Inl e, s')
           | (Inr mp, s') \<Rightarrow>
               (case callDep plugins s' (nm_f mp) of
                  (Inl e, s'') \<Rightarrow> (Inl e, s'')
                | (Inr v, s'') \<Rightarrow> (Inr (RValue v), s'')))
      | AArr ds \<Rightarrow> req_array plugins (Some ds) cb relName forceSync alt s
      | AUndef \<Rightarrow> (Inl (TypeErr ''splice''), s)
      | _ \<Rightarrow>
          (let s1 = s\<lparr>config := as_config deps\<rparr>
           in case cb of
                AUndef \<Rightarrow> (Inl (TypeErr ''splice''), s1)
              | AArr ds \<Rightarrow> req_array plugins (Some ds) relName AUndef forceSync alt s1
              | _ \<Rightarrow> req_array plugins None cb relName forceSync alt s1))"

definition req_config :: "almond_config \<Rightarrow> almond \<Rightarrow> almond" where
  "req_config cfg s = s\<lparr>config := cfg\<rparr>"

text \<open>\<open>define(name, deps, callback)\<close>: without an array of dependencies the second argument is the
  mval or factory of the module.\<close>

definition almond_define :: "string \<Rightarrow> string list + callback \<Rightarrow> callback \<Rightarrow> almond \<Rightarrow> almond" where
  "almond_define name deps cb s =
     (case deps of
        Inl ds \<Rightarrow> s\<lparr>waiting := AList.update name (ds, cb) (waiting s)\<rparr>
      | Inr f \<Rightarrow> s\<lparr>waiting := AList.update name ([], f) (waiting s)\<rparr>)"

text \<open>One timer fires: the oldest postponed \<open>main\<close> runs.\<close>

definition fire_timer :: "(nat \<Rightarrow> plugin option) \<Rightarrow> almond \<Rightarrow> unit result" where
  "fire_timer plugins s =
     (case timers s of
        [] \<Rightarrow> (Inr (), s)
      | (deps, cb, rel) # rest \<Rightarrow> main plugins None deps cb rel (s\<lparr>timers := rest\<rparr>))"

subsection \<open>Names: the loop implements the reference\<close>

lemma almond_trim_loop_resolves:
  "resolve st ps = Some r \<Longrightarrow> list_all plain_segment st \<Longrightarrow>
   almond_trim_loop (length st) (trim_state st ps) = r"
proof (induction st ps arbitrary: r rule: resolve.induct)
  case (1 st)
  then have r: "r = rev st" by simp
  show ?case unfolding r by (subst almond_trim_loop.simps) (simp add: trim_state_def)
next
  case (2 st p ps)
  show ?case
  proof (cases "p = ''.''")
    case True
    with 2 show ?thesis
      by (subst almond_trim_loop.simps) (simp add: trim_state_drop_dot del: One_nat_def)
  next
    case dot: False
    show ?thesis
    proof (cases "p = ''..''")
      case True
      with 2 dot obtain t st' where st: "st = t # st'" by (cases st) auto
      have "\<not> stuck_at_root (trim_state st (p # ps)) (length st)"
        using not_stuck_when_resolvable 2 True by blast
      moreover have "almond_trim_loop (length st') (trim_state st' ps) = r"
        using 2 True dot st by simp
      ultimately show ?thesis
        using True st trim_state_pop [of t st' p ps] trim_state_read [of "t # st'" p ps]
        by (subst almond_trim_loop.simps) simp
    next
      case False
      with 2 dot have "almond_trim_loop (length (p # st)) (trim_state (p # st) ps) = r"
        by (simp add: plain_segment_def)
      then have "almond_trim_loop (length st + 1) (trim_state st (p # ps)) = r"
        by (simp flip: trim_state_push)
      with dot False show ?thesis
        by (subst almond_trim_loop.simps) simp
    qed
  qed
qed

interpretation almond_trim: dot_trimmer almond_trim "\<lambda>_. True"
proof unfold_locales
  fix ps r
  assume "resolve [] ps = Some r"
  then show "almond_trim ps = r"
    using almond_trim_loop_resolves [of "[]" ps r] by (simp add: almond_trim_def trim_state_def)
qed simp

lemma almond_normalize_relative:
  assumes "cfg_map cfg = None" and "base \<noteq> []" and "name \<noteq> []" and "hd name = CHR ''.''"
    and "resolve [] (butlast (path_split base) @ path_split name) = Some r"
  shows "almond_normalize cfg name (Some base) = path_join r"
  using assms almond_trim.trim_resolves [OF TrueI assms(5)]
  by (simp add: almond_normalize_def truthy_str_def)

lemma almond_normalize_absolute:
  "cfg_map cfg = None \<Longrightarrow> name = [] \<or> hd name \<noteq> CHR ''.'' \<Longrightarrow> almond_normalize cfg name base = name"
  by (auto simp: almond_normalize_def)

text \<open>The map search: a match under the base name at any name length beats every star match; among
  star matches the longest name segment wins.\<close>

definition base_hit :: "string obj obj \<Rightarrow> string list option \<Rightarrow> string list \<Rightarrow> nat \<Rightarrow> (string \<times> nat) option" where
  "base_hit m baseParts nameParts i =
     (case baseParts of None \<Rightarrow> None
      | Some bp \<Rightarrow> map_option (\<lambda>v. (v, i)) (base_map_value m bp (path_join (take i nameParts))))"

definition star_hit :: "string obj obj \<Rightarrow> string list \<Rightarrow> nat \<Rightarrow> (string \<times> nat) option" where
  "star_hit m nameParts i =
     (case map_of m ''*'' of None \<Rightarrow> None
      | Some sm \<Rightarrow> map_option (\<lambda>v. (v, i)) (truthy_get sm (path_join (take i nameParts))))"

lemma almond_map_loop_spec:
  "almond_map_loop m bp np n star =
     (case search_down (base_hit m bp np) n of
        Some hit \<Rightarrow> Some hit
      | None \<Rightarrow> (case star of Some sv \<Rightarrow> Some sv | None \<Rightarrow> search_down (star_hit m np) n))"
proof (induction n arbitrary: star)
  case 0
  then show ?case by (simp split: option.splits)
next
  case (Suc n)
  have empty: "truthy_get [] k = None" for k by (simp add: truthy_get_def)
  show ?case
    by (auto simp: Suc base_hit_def [of m bp np "Suc n"] star_hit_def [of m np "Suc n"] Let_def empty
        split: option.splits)
qed

subsection \<open>Executions only move forward\<close>

text \<open>
  What any execution of loader code leaves behind: the configuration is untouched, waiting
  modules only disappear, defined and defining modules stay, object identities are not
  reused, timers are only appended.
\<close>

definition progress :: "almond \<Rightarrow> almond \<Rightarrow> bool" where
  "progress s s' \<longleftrightarrow>
     config s' = config s \<and>
     (\<exists>D. waiting s' = filter (\<lambda>p. fst p \<notin> D) (waiting s)) \<and>
     (\<forall>k. own_prop (defined s) k \<longrightarrow> own_prop (defined s') k) \<and>
     (\<forall>k. map_of (defining s) k = Some True \<longrightarrow> map_of (defining s') k = Some True) \<and>
     fresh s \<le> fresh s' \<and>
     (\<exists>ts. timers s' = timers s @ ts)"

lemma progress_refl [simp, intro!]: "progress s s"
  unfolding progress_def by (auto intro!: exI [of _ "{}"])

lemma progress_trans [trans]: "progress s t \<Longrightarrow> progress t u \<Longrightarrow> progress s u"
proof -
  assume st: "progress s t" and tu: "progress t u"
  from st obtain D where "waiting t = filter (\<lambda>p. fst p \<notin> D) (waiting s)"
    by (auto simp: progress_def)
  moreover from tu obtain E where "waiting u = filter (\<lambda>p. fst p \<notin> E) (waiting t)"
    by (auto simp: progress_def)
  ultimately have "waiting u = filter (\<lambda>p. fst p \<notin> D \<union> E) (waiting s)"
    by (simp add: conj_commute)
  then have "\<exists>D. waiting u = filter (\<lambda>p. fst p \<notin> D) (waiting s)" by blast
  with st tu show ?thesis unfolding progress_def by auto
qed

lemma progress_length: "progress s s' \<Longrightarrow> length (waiting s') \<le> length (waiting s)"
  by (auto simp: progress_def)

lemma map_of_filter_fst: "map_of (filter (\<lambda>p. fst p \<notin> D) xs) k = (if k \<in> D then None else map_of xs k)"
  by (induction xs) auto

lemma progress_waiting_None:
  "progress s s' \<Longrightarrow> map_of (waiting s) k = None \<Longrightarrow> map_of (waiting s') k = None"
  by (auto simp: progress_def map_of_filter_fst)

lemma progress_defined_update [intro]:
  "progress s (s\<lparr>defined := AList.update k v (defined s)\<rparr>)"
  unfolding progress_def by (auto intro!: exI [of _ "{}"])

lemma progress_exports [intro]:
  "progress s (s\<lparr>defined := AList.update k v (defined s), fresh := Suc (fresh s)\<rparr>)"
  unfolding progress_def by (auto intro!: exI [of _ "{}"])

lemma progress_timers [intro]: "progress s (s\<lparr>timers := timers s @ ts\<rparr>)"
  unfolding progress_def by (auto intro!: exI [of _ "{}"])

lemma progress_take_waiting [intro]:
  "progress s (s\<lparr>waiting := AList.delete n (waiting s), defining := AList.update n True (defining s)\<rparr>)"
proof -
  have "AList.delete n xs = filter (\<lambda>p. fst p \<notin> {n}) xs" for xs :: "(string list \<times> callback) obj"
    by (auto simp: AList.delete_eq intro!: filter_cong)
  then have "\<exists>D. AList.delete n (waiting s) = filter (\<lambda>p. fst p \<notin> D) (waiting s)" by blast
  then show ?thesis unfolding progress_def by auto
qed

text \<open>
  The contract between \<open>callDep\<close> and the code that calls it: it only moves the loader forward.
  Everything \<open>main\<close> does with such a caller moves forward too.
\<close>

locale loader_calls =
  fixes plugins :: "nat \<Rightarrow> plugin option"
    and cd :: dep_caller
  assumes cd_progress: "cd s n = (r, s') \<Longrightarrow> progress s s'"
begin

lemma make_map_progress: "make_map plugins cd s n rel = (r, s') \<Longrightarrow> progress s s'"
  by (auto simp: make_map_def Let_def split: option.splits prod.splits sum.splits dest: cd_progress)

lemma dep_arg_progress:
  assumes "dep_arg plugins cd name rel d l s = (r, s')"
  shows "progress s s'"
proof -
  obtain mr t where m: "make_map plugins cd s d rel = (mr, t)" by fastforce
  note st = make_map_progress [OF m]
  have "progress t s'"
    using assms m
    by (auto simp: dep_arg_def Let_def split: sum.splits if_splits prod.splits option.splits mval.splits
        dest: cd_progress)
  with st show ?thesis by (rule progress_trans)
qed

lemma dep_args_progress: "dep_args plugins cd name rel ds l s = (r, s') \<Longrightarrow> progress s s'"
proof (induction ds arbitrary: l s)
  case Nil
  then show ?case by simp
next
  case (Cons d ds)
  obtain r1 t where d: "dep_arg plugins cd name rel d l s = (r1, t)" by fastforce
  have "progress t s'" using Cons d by (auto split: sum.splits)
  with dep_arg_progress [OF d] show ?case by (rule progress_trans)
qed

lemma run_fact_progress: "run_fact plugins cd f ex s = (r, s') \<Longrightarrow> progress s s'"
proof (induction f arbitrary: ex s)
  case (Require rel n k)
  obtain mr t where m: "make_map plugins cd s n rel = (mr, t)" by fastforce
  have "progress t s'"
  proof (cases mr)
    case (Inl e)
    with m Require.prems show ?thesis by simp
  next
    case (Inr mp)
    obtain vr u where v: "cd t (nm_f mp) = (vr, u)" by fastforce
    have "progress u s'"
    proof (cases vr)
      case (Inl e)
      with m v Inr Require.prems show ?thesis by simp
    next
      case val: (Inr x)
      with m v Inr Require.prems have "run_fact plugins cd (k x) ex u = (r, s')" by simp
      then show ?thesis by (rule Require.IH [OF rangeI])
    qed
    with cd_progress [OF v] show ?thesis by (rule progress_trans)
  qed
  with make_map_progress [OF m] show ?case by (rule progress_trans)
next
  case (RequireAsync rel deps n cb k)
  then have "progress (s\<lparr>timers := timers s @ [(Some deps, Factory n cb, rel)]\<rparr>) s'" by simp
  with progress_timers show ?case by (rule progress_trans)
qed auto

lemma main_progress:
  assumes "main_with plugins cd name deps cb rel s = (r, s')"
  shows "progress s s'"
proof (cases "\<exists>n body ds. cb = Factory n body \<and> deps = Some ds")
  case True
  then obtain n body ds where cb: "cb = Factory n body" "deps = Some ds" by blast
  define ds' where "ds' = (if ds = [] \<and> n \<noteq> 0 then [''require'', ''exports'', ''module''] else ds)"
  define rel' where "rel' = (case truthy_str rel of None \<Rightarrow> name | Some x \<Rightarrow> Some x)"
  obtain lr t where d: "dep_args plugins cd name rel' ds'
      \<lparr>args = [], usingExports = False, cjsExports = None\<rparr> s = (lr, t)" by fastforce
  have "progress t s'"
  proof (cases lr)
    case (Inl e)
    with assms cb d show ?thesis by (simp add: main_with_def ds'_def rel'_def Let_def)
  next
    case (Inr l)
    obtain fr u where f: "run_fact plugins cd (body (args l)) (cjsExports l) t = (fr, u)" by fastforce
    have "progress u s'"
      using assms cb d Inr f
      by (auto simp: main_with_def ds'_def rel'_def Let_def split: sum.splits option.splits if_splits)
    with run_fact_progress [OF f] show ?thesis by (rule progress_trans)
  qed
  with dep_args_progress [OF d] show ?thesis by (rule progress_trans)
next
  case False
  with assms show ?thesis
    by (auto simp: main_with_def Let_def split: callback.splits option.splits)
qed

end

lemma finish_dep_state: "snd (finish_dep n r) = snd r"
  by (auto simp: finish_dep_def split: prod.splits sum.splits option.splits)

lemma call_dep_contract: "loader_calls (call_dep plugins fuel)"
proof (induction fuel)
  case 0
  then show ?case by unfold_locales auto
next
  case (Suc fuel)
  show ?case
  proof
    fix s n r s'
    assume c: "call_dep plugins (Suc fuel) s n = (r, s')"
    show "progress s s'"
    proof (cases "map_of (waiting s) n")
      case None
      with c show ?thesis by (auto simp: finish_dep_def split: option.splits)
    next
      case (Some dc)
      then obtain deps cb where dc: "map_of (waiting s) n = Some (deps, cb)" by (cases dc) auto
      let ?s = "s\<lparr>waiting := AList.delete n (waiting s), defining := AList.update n True (defining s)\<rparr>"
      obtain mr t where m: "main_with plugins (call_dep plugins fuel) (Some n) (Some deps) cb None ?s = (mr, t)"
        by fastforce
      from c dc m have "s' = t" by (auto simp: finish_dep_def split: sum.splits option.splits)
      with loader_calls.main_progress [OF Suc m] progress_take_waiting show ?thesis
        by (blast intro: progress_trans)
    qed
  qed
qed

interpretation dep_calls: loader_calls plugins "call_dep plugins fuel" for plugins fuel
  by (rule call_dep_contract)

subsection \<open>Enough fuel\<close>

text \<open>A caller that never runs out of fuel while fewer than \<open>n\<close> modules wait.\<close>

locale fuelled_calls = loader_calls +
  fixes n :: nat
  assumes cd_fuel: "length (waiting s) < n \<Longrightarrow> cd s name \<noteq> (Inl OutOfFuel, s')"
begin

lemma make_map_fuel: "length (waiting s) < n \<Longrightarrow> make_map plugins cd s name rel \<noteq> (Inl OutOfFuel, s')"
  by (auto simp: make_map_def Let_def cd_fuel split: option.splits prod.splits sum.splits)

lemma dep_arg_fuel:
  assumes "length (waiting s) < n"
  shows "dep_arg plugins cd name rel d l s \<noteq> (Inl OutOfFuel, s')"
proof -
  obtain mr t where m: "make_map plugins cd s d rel = (mr, t)" by fastforce
  have t: "length (waiting t) < n"
    using progress_length [OF make_map_progress [OF m]] assms by simp
  then show ?thesis
    using m make_map_fuel [OF assms] cd_fuel [OF t]
    by (auto simp: dep_arg_def Let_def split: sum.splits prod.splits option.splits mval.splits)
qed

lemma dep_args_fuel:
  "length (waiting s) < n \<Longrightarrow> dep_args plugins cd name rel ds l s \<noteq> (Inl OutOfFuel, s')"
proof (induction ds arbitrary: l s)
  case Nil
  then show ?case by simp
next
  case (Cons d ds)
  obtain r1 t where d: "dep_arg plugins cd name rel d l s = (r1, t)" by fastforce
  have "length (waiting t) < n"
    using progress_length [OF dep_arg_progress [OF d]] Cons.prems by simp
  then show ?case using d Cons dep_arg_fuel [OF Cons.prems] by (auto split: sum.splits)
qed

lemma run_fact_fuel:
  "length (waiting s) < n \<Longrightarrow> run_fact plugins cd f ex s \<noteq> (Inl OutOfFuel, s')"
proof (induction f arbitrary: ex s)
  case (Require rel nm k)
  obtain mr t where m: "make_map plugins cd s nm rel = (mr, t)" by fastforce
  have t: "length (waiting t) < n"
    using progress_length [OF make_map_progress [OF m]] Require.prems by simp
  show ?case
  proof (cases mr)
    case (Inl e)
    with m make_map_fuel [OF Require.prems] show ?thesis by auto
  next
    case (Inr mp)
    obtain vr u where v: "cd t (nm_f mp) = (vr, u)" by fastforce
    have "length (waiting u) < n" using progress_length [OF cd_progress [OF v]] t by simp
    then show ?thesis
      using m v Inr cd_fuel [OF t] Require.IH [OF rangeI] by (auto split: sum.splits)
  qed
qed auto

lemma main_fuel:
  assumes "length (waiting s) < n"
  shows "main_with plugins cd name deps cb rel s \<noteq> (Inl OutOfFuel, s')"
proof (cases "\<exists>k body ds. cb = Factory k body \<and> deps = Some ds")
  case True
  then obtain k body ds where cb: "cb = Factory k body" "deps = Some ds" by blast
  define ds' where "ds' = (if ds = [] \<and> k \<noteq> 0 then [''require'', ''exports'', ''module''] else ds)"
  define rel' where "rel' = (case truthy_str rel of None \<Rightarrow> name | Some x \<Rightarrow> Some x)"
  obtain lr t where d: "dep_args plugins cd name rel' ds'
      \<lparr>args = [], usingExports = False, cjsExports = None\<rparr> s = (lr, t)" by fastforce
  have t: "length (waiting t) < n" using progress_length [OF dep_args_progress [OF d]] assms by simp
  have "lr \<noteq> Inl OutOfFuel" using d dep_args_fuel [OF assms] by metis
  then show ?thesis
    using cb d run_fact_fuel [OF t]
    by (auto simp: main_with_def ds'_def rel'_def Let_def
        split: sum.splits option.splits if_splits prod.splits)
next
  case False
  then show ?thesis by (auto simp: main_with_def Let_def split: callback.splits option.splits)
qed

end

lemma length_delete_waiting:
  "map_of xs k \<noteq> None \<Longrightarrow> length (AList.delete k xs) < length xs"
proof (induction xs)
  case Nil
  then show ?case by simp
next
  case (Cons p xs)
  have "length (AList.delete k xs) \<le> length xs" by (simp add: AList.delete_eq)
  with Cons show ?case by (cases p) (auto split: if_splits)
qed

lemma call_dep_fuelled: "fuelled_calls (call_dep plugins fuel) fuel"
proof (induction fuel)
  case 0
  then show ?case by unfold_locales auto
next
  case (Suc fuel)
  show ?case
  proof
    fix s :: almond and name s'
    assume len: "length (waiting s) < Suc fuel"
    show "call_dep plugins (Suc fuel) s name \<noteq> (Inl OutOfFuel, s')"
    proof (cases "map_of (waiting s) name")
      case None
      then show ?thesis by (auto simp: finish_dep_def split: option.splits)
    next
      case (Some dc)
      let ?s = "s\<lparr>waiting := AList.delete name (waiting s), defining := AList.update name True (defining s)\<rparr>"
      have "length (waiting ?s) < fuel" using Some len length_delete_waiting [of "waiting s" name] by simp
      then have no: "main_with plugins (call_dep plugins fuel) (Some name) (Some (fst dc)) (snd dc) None ?s
          \<noteq> (Inl OutOfFuel, u)" for u
        using fuelled_calls.main_fuel [OF Suc] by blast
      obtain mr u where m: "main_with plugins (call_dep plugins fuel) (Some name) (Some (fst dc))
          (snd dc) None ?s = (mr, u)" by fastforce
      with no have "mr \<noteq> Inl OutOfFuel" by blast
      with Some m show ?thesis
        by (auto simp: finish_dep_def split: prod.splits sum.splits option.splits)
    qed
  qed
qed

interpretation fuelled: fuelled_calls plugins "call_dep plugins fuel" fuel for plugins fuel
  by (rule call_dep_fuelled)

text \<open>Two callers that agree while fewer than \<open>n\<close> modules wait run every module alike.\<close>

locale agreeing_calls = loader_calls plugins cd for plugins cd +
  fixes cd' :: dep_caller and n :: nat
  assumes agree: "length (waiting s) < n \<Longrightarrow> cd' s name = cd s name"
begin

lemma make_map_agree:
  "length (waiting s) < n \<Longrightarrow> make_map plugins cd' s name rel = make_map plugins cd s name rel"
  by (auto simp: make_map_def agree Let_def split: option.splits)

lemma dep_arg_agree:
  assumes "length (waiting s) < n"
  shows "dep_arg plugins cd' name rel d l s = dep_arg plugins cd name rel d l s"
proof -
  obtain mr t where m: "make_map plugins cd s d rel = (mr, t)" by fastforce
  have "length (waiting t) < n" using progress_length [OF make_map_progress [OF m]] assms by simp
  then have "cd' t nm = cd t nm" for nm by (rule agree)
  with m show ?thesis by (cases mr) (simp_all add: dep_arg_def make_map_agree [OF assms] Let_def)
qed

lemma dep_args_agree:
  "length (waiting s) < n \<Longrightarrow> dep_args plugins cd' name rel ds l s = dep_args plugins cd name rel ds l s"
proof (induction ds arbitrary: l s)
  case Nil
  then show ?case by simp
next
  case (Cons d ds)
  obtain r1 t where d: "dep_arg plugins cd name rel d l s = (r1, t)" by fastforce
  have "length (waiting t) < n" using progress_length [OF dep_arg_progress [OF d]] Cons.prems by simp
  with Cons d show ?case by (simp add: dep_arg_agree split: sum.splits)
qed

lemma run_fact_agree:
  "length (waiting s) < n \<Longrightarrow> run_fact plugins cd' f ex s = run_fact plugins cd f ex s"
proof (induction f arbitrary: ex s)
  case (Require rel nm k)
  obtain mr t where m: "make_map plugins cd s nm rel = (mr, t)" by fastforce
  have t: "length (waiting t) < n" using progress_length [OF make_map_progress [OF m]] Require.prems by simp
  show ?case
  proof (cases mr)
    case (Inl e)
    with m Require.prems show ?thesis by (simp add: make_map_agree)
  next
    case (Inr mp)
    obtain vr u where v: "cd t (nm_f mp) = (vr, u)" by fastforce
    have "length (waiting u) < n" using progress_length [OF cd_progress [OF v]] t by simp
    with Require.IH [OF rangeI] have "run_fact plugins cd' (k x) ex u = run_fact plugins cd (k x) ex u" for x
      by blast
    with m v Inr t Require.prems show ?thesis by (simp add: make_map_agree agree split: sum.splits)
  qed
qed auto

lemma main_agree:
  assumes "length (waiting s) < n"
  shows "main_with plugins cd' name deps cb rel s = main_with plugins cd name deps cb rel s"
proof (cases "\<exists>k body ds. cb = Factory k body \<and> deps = Some ds")
  case True
  then obtain k body ds where cb: "cb = Factory k body" "deps = Some ds" by blast
  define ds' where "ds' = (if ds = [] \<and> k \<noteq> 0 then [''require'', ''exports'', ''module''] else ds)"
  define rel' where "rel' = (case truthy_str rel of None \<Rightarrow> name | Some x \<Rightarrow> Some x)"
  obtain lr t where d: "dep_args plugins cd name rel' ds'
      \<lparr>args = [], usingExports = False, cjsExports = None\<rparr> s = (lr, t)" by fastforce
  have "length (waiting t) < n" using progress_length [OF dep_args_progress [OF d]] assms by simp
  then have "run_fact plugins cd' f ex t = run_fact plugins cd f ex t" for f ex
    by (rule run_fact_agree)
  with cb d show ?thesis
    by (cases lr) (simp_all add: main_with_def Let_def dep_args_agree [OF assms] ds'_def rel'_def)
next
  case False
  then show ?thesis by (cases cb; cases deps) (auto simp: main_with_def Let_def)
qed

end

lemma call_dep_agree: "m \<le> m' \<Longrightarrow> agreeing_calls (call_dep plugins m) (call_dep plugins m') m"
proof (induction m arbitrary: m')
  case 0
  show ?case
    by (intro agreeing_calls.intro agreeing_calls_axioms.intro call_dep_contract) simp
next
  case (Suc m)
  then obtain k where k: "m' = Suc k" "m \<le> k" by (cases m') auto
  have "call_dep plugins m' s name = call_dep plugins (Suc m) s name" if "length (waiting s) < Suc m" for s :: almond and name
  proof (cases "map_of (waiting s) name")
    case None
    with k show ?thesis by simp
  next
    case (Some dc)
    let ?s = "s\<lparr>waiting := AList.delete name (waiting s), defining := AList.update name True (defining s)\<rparr>"
    have "length (waiting ?s) < m" using Some that length_delete_waiting [of "waiting s" name] by simp
    then have "main_with plugins (call_dep plugins k) nm ds cb rel ?s =
        main_with plugins (call_dep plugins m) nm ds cb rel ?s" for nm ds cb rel
      using agreeing_calls.main_agree [OF Suc.IH [OF k(2)]] by blast
    with Some k show ?thesis by (simp split: prod.splits)
  qed
  then show ?case
    by (intro agreeing_calls.intro agreeing_calls_axioms.intro call_dep_contract)
qed

interpretation more_fuel: agreeing_calls plugins "call_dep plugins m" "call_dep plugins (m + k)" m
  for plugins m k
  by (rule call_dep_agree) simp

lemma call_dep_fuel_irrelevant:
  "length (waiting s) < fuel \<Longrightarrow> call_dep plugins fuel s name = callDep plugins s name"
  using agreeing_calls.agree [OF call_dep_agree [of "enough s" fuel plugins], of s name]
  by (simp add: callDep_def enough_def)

subsection \<open>Plain dependencies\<close>

text \<open>
  A plain dependency names no plugin, is none of the three CommonJS names, and is already in
  normal form for the module that asks for it.
\<close>

definition plain_dep :: "almond_config \<Rightarrow> string option \<Rightarrow> string \<Rightarrow> bool" where
  "plain_dep cfg rel d \<longleftrightarrow>
     index_of ''!'' d = None \<and> almond_normalize cfg d rel = d \<and>
     d \<noteq> ''require'' \<and> d \<noteq> ''exports'' \<and> d \<noteq> ''module''"

lemma make_map_plain:
  "plain_dep (config s) rel d \<Longrightarrow>
   make_map plugins cd s d rel = (Inr \<lparr>nm_f = d, nm_n = d, nm_p = Undef\<rparr>, s)"
  by (simp add: make_map_def plain_dep_def)

lemma call_dep_defined:
  "map_of (waiting s) d = None \<Longrightarrow> map_of (defined s) d = Some v \<Longrightarrow>
   call_dep plugins (Suc fuel) s d = (Inr v, s)"
  by (simp add: finish_dep_def)

lemma dep_args_defined:
  "(\<And>d. d \<in> set ds \<Longrightarrow> plain_dep (config s) rel d \<and> map_of (waiting s) d = None \<and> own_prop (defined s) d) \<Longrightarrow>
   dep_args plugins (call_dep plugins (Suc fuel)) name rel ds l s =
     (Inr (l\<lparr>args := args l @ map (get_val (defined s)) ds\<rparr>), s)"
proof (induction ds arbitrary: l)
  case Nil
  then show ?case by simp
next
  case (Cons d ds)
  then have d: "plain_dep (config s) rel d" "map_of (waiting s) d = None" "own_prop (defined s) d"
    by auto
  then obtain v where v: "map_of (defined s) d = Some v" by auto
  have "dep_arg plugins (call_dep plugins (Suc fuel)) name rel d l s = (Inr (l\<lparr>args := args l @ [v]\<rparr>), s)"
    using d v call_dep_defined [OF d(2) v]
    by (simp add: dep_arg_def make_map_plain Let_def plain_dep_def del: call_dep.simps)
  with Cons v show ?case by (simp add: get_val_def del: call_dep.simps)
qed

lemma callDep_waiting:
  assumes "map_of (waiting s) name = Some (deps, cb)"
  shows "callDep plugins s name = finish_dep name
    (main_with plugins (call_dep plugins (length (waiting s))) (Some name) (Some deps) cb None
      (s\<lparr>waiting := AList.delete name (waiting s), defining := AList.update name True (defining s)\<rparr>))"
  using assms by (simp add: callDep_def enough_def)

lemma callDep_removes: "callDep plugins s name = (Inr v, s') \<Longrightarrow>
    map_of (waiting s') name = None \<and> map_of (defined s') name = Some v"
proof -
  assume c: "callDep plugins s name = (Inr v, s')"
  then have dv: "map_of (defined s') name = Some v"
    by (auto simp: callDep_def enough_def finish_dep_def split: prod.splits sum.splits option.splits)
  have "map_of (waiting s') name = None"
  proof (cases "map_of (waiting s) name")
    case None
    moreover have "progress s s'" using c unfolding callDep_def by (rule dep_calls.cd_progress)
    ultimately show ?thesis by (blast intro: progress_waiting_None)
  next
    case (Some dc)
    then obtain deps cb where dc: "map_of (waiting s) name = Some (deps, cb)" by (cases dc) auto
    let ?s = "s\<lparr>waiting := AList.delete name (waiting s), defining := AList.update name True (defining s)\<rparr>"
    obtain mr t where m: "main_with plugins (call_dep plugins (length (waiting s))) (Some name)
        (Some deps) cb None ?s = (mr, t)" by fastforce
    have "t = s'" using c callDep_waiting [OF dc] m by (auto simp: finish_dep_def split: sum.splits option.splits)
    moreover have "map_of (waiting ?s) name = None" by simp
    ultimately show ?thesis using dep_calls.main_progress [OF m] progress_waiting_None by blast
  qed
  with dv show ?thesis by simp
qed

subsection \<open>Properties\<close>

text \<open>A relative module name is resolved against the directory of the module that asks for it,
  exactly as the stack-based reference does, and no dot segment is left in the result.\<close>

lemma almond_normalize_resolves:
  assumes "cfg_map cfg = None" and "base \<noteq> []" and "name \<noteq> []" and "hd name = CHR ''.''"
    and "resolve [] (butlast (path_split base) @ path_split name) = Some r"
  shows "almond_normalize cfg name (Some base) = path_join r \<and>
    (r \<noteq> [] \<longrightarrow> path_split (almond_normalize cfg name (Some base)) = r \<and> list_all plain_segment r)"
proof -
  have eq: "almond_normalize cfg name (Some base) = path_join r"
    using assms by (rule almond_normalize_relative)
  have "set r \<subseteq> set (path_split base) \<union> set (path_split name)"
    using resolve_set [OF assms(5)] by (auto dest: in_set_butlastD)
  then have "CHR ''/'' \<notin> set w" if "w \<in> set r" for w using that path_split_parts by blast
  then have "path_split (path_join r) = r" if "r \<noteq> []" using that by (rule path_split_join [rotated])
  then show ?thesis using eq resolve_result_plain [OF assms(5)] by simp
qed

lemma almond_normalize_resolves_example:
  "almond_normalize \<lparr>cfg_map = None, cfg_config = None\<rparr> ''./util'' (Some ''fuelux/select'') = ''fuelux/util''"
  using almond_normalize_resolves [of "\<lparr>cfg_map = None, cfg_config = None\<rparr>" "''fuelux/select''" "''./util''"
      "[''fuelux'', ''util'']"]
  by (simp add: path_split_def path_join_def)

text \<open>A module map entry under the base name wins over every star entry, whatever the length of
  the name segment it matches; among several, the longest name segment wins. Without any match the
  name is unchanged.\<close>

lemma almond_apply_map_choice:
  "almond_apply_map m baseParts name =
     (let parts = path_split name;
          hit = (case search_down (base_hit m baseParts parts) (length parts) of
                   Some h \<Rightarrow> Some h | None \<Rightarrow> search_down (star_hit m parts) (length parts))
      in case hit of None \<Rightarrow> name | Some (target, i) \<Rightarrow> path_join (target # drop i parts))"
  by (auto simp: almond_apply_map_def almond_map_loop_spec Let_def js_splice_def split: option.splits)


text \<open>C1: a module runs at most once: after a successful request it no longer waits, its value is in
  the table, and asking again returns that value and changes nothing.\<close>

theorem callDep_once:
  assumes "callDep plugins s name = (Inr v, s')"
  shows "map_of (waiting s') name = None \<and> map_of (defined s') name = Some v \<and>
    callDep plugins s' name = (Inr v, s')"
proof -
  note r = callDep_removes [OF assms]
  then have "callDep plugins s' name = (Inr v, s')"
    unfolding callDep_def enough_def by (blast intro: call_dep_defined)
  with r show ?thesis by simp
qed

definition almond_ex :: almond where
  "almond_ex = almond_define ''a'' (Inr (Literal (Obj 7))) (Literal Undef) initial"

theorem callDep_once_witness:
  "fst (callDep (\<lambda>_. None) (snd (callDep (\<lambda>_. None) almond_ex ''a'')) ''a'') = Inr (Obj 7)"
proof -
  have run: "callDep (\<lambda>_. None) almond_ex ''a'' = (Inr (Obj 7), snd (callDep (\<lambda>_. None) almond_ex ''a''))"
    by (simp add: almond_ex_def almond_define_def initial_def callDep_def enough_def finish_dep_def
        main_with_def truthy_str_def)
  show ?thesis using callDep_once [OF run] by simp
qed

text \<open>A module whose dependencies are all defined gets exactly their values, in the order it lists
  them, and its return value becomes the value of the module.\<close>

lemma define_injects_dependencies:
  assumes "name \<noteq> []" and "ds \<noteq> [] \<or> n = 0"
    and "\<And>d. d \<in> set ds \<Longrightarrow>
      d \<noteq> name \<and> plain_dep (config s) (Some name) d \<and> map_of (waiting s) d = None \<and> own_prop (defined s) d"
  shows "fst (callDep plugins
      (almond_define name (Inl ds) (Factory n (\<lambda>vs. Return (f vs))) s) name) =
    Inr (f (map (get_val (defined s)) ds))"
proof -
  let ?t = "almond_define name (Inl ds) (Factory n (\<lambda>vs. Return (f vs))) s"
  let ?u = "?t\<lparr>waiting := AList.delete name (waiting ?t), defining := AList.update name True (defining ?t)\<rparr>"
  have w: "map_of (waiting ?t) name = Some (ds, Factory n (\<lambda>vs. Return (f vs)))"
    by (simp add: almond_define_def)
  have "waiting ?t \<noteq> []" using w by auto
  then obtain fuel where fuel: "length (waiting ?t) = Suc fuel" by (cases "waiting ?t") auto
  have cfg: "config ?u = config s" "defined ?u = defined s" by (simp_all add: almond_define_def)
  have "plain_dep (config ?u) (Some name) d \<and> map_of (waiting ?u) d = None \<and> own_prop (defined ?u) d"
    if "d \<in> set ds" for d
    using assms(3) [OF that] by (simp add: almond_define_def)
  note deps = dep_args_defined [of ds ?u "Some name", OF this]
  show ?thesis
    using assms(1,2) cfg
    by (auto simp: callDep_waiting [OF w] fuel main_with_def truthy_str_def Let_def deps finish_dep_def
        simp del: call_dep.simps)
qed

lemma define_injects_dependencies_example:
  "fst (callDep (\<lambda>_. None)
     (almond_define ''m'' (Inl [''b'', ''a'']) (Factory 2 (\<lambda>vs. Return (hd vs)))
       (initial\<lparr>defined := [(''a'', Obj 1), (''b'', Obj 2)]\<rparr>)) ''m'') = Inr (Obj 2)"
proof -
  let ?s = "initial\<lparr>defined := [(''a'', Obj 1), (''b'', Obj 2)]\<rparr>"
  have deps: "d \<noteq> ''m'' \<and> plain_dep (config ?s) (Some ''m'') d \<and> map_of (waiting ?s) d = None \<and>
      own_prop (defined ?s) d" if "d \<in> set [''b'', ''a'']" for d
    using that by (auto simp: plain_dep_def almond_normalize_def truthy_str_def initial_def)
  show ?thesis
    using define_injects_dependencies [of "''m''" "[''b'', ''a'']" 2 ?s "\<lambda>_. None" hd, OF _ _ deps]
    by (simp add: get_val_def)
qed

text \<open>A plain dependency that is neither defined nor waiting is an error exactly when it is not
  being defined; inside a cycle it is passed as \<open>undefined\<close>. Nothing else changes.\<close>

lemma dependency_cycle_or_missing:
  assumes "plain_dep (config s) rel d" and "map_of (defined s) d = None" and "map_of (waiting s) d = None"
  shows "dep_arg plugins cd name rel d l s =
    (if map_of (defining s) d = Some True then Inr (l\<lparr>args := args l @ [Undef]\<rparr>)
     else Inl (Missing (key_of name) d), s)"
  using assms by (auto simp: dep_arg_def make_map_plain Let_def plain_dep_def)

lemma dependency_cycle_or_missing_witness:
  "dep_arg (\<lambda>_. None) (callDep (\<lambda>_. None)) (Some ''m'') (Some ''m'') ''x''
     \<lparr>args = [], usingExports = False, cjsExports = None\<rparr> initial = (Inl (Missing ''m'' ''x''), initial)"
  using dependency_cycle_or_missing [of initial "Some ''m''" "''x''" "\<lambda>_. None" "callDep (\<lambda>_. None)"
      "Some ''m''" "\<lparr>args = [], usingExports = False, cjsExports = None\<rparr>"]
  by (simp add: plain_dep_def almond_normalize_def initial_def truthy_str_def key_of_def)

text \<open>\<open>requirejs(config)\<close> with the configuration alone throws, after it has stored the
  configuration; with a callback but no dependency array the call is accepted and fails when its
  timer fires.\<close>

lemma config_call_fails:
  "req plugins (ACfg c) AUndef rel sync alt s = (Inl (TypeErr ''splice''), s\<lparr>config := c\<rparr>) \<and>
   (timers s = [] \<longrightarrow>
    (\<exists>s1. req plugins (ACfg c) (AFun n f) AUndef AUndef AUndef s = (Inr RReq, s1) \<and>
      fst (fire_timer plugins s1) = Inl (TypeErr ''length'')))"
  by (auto simp: req_def req_array_def Let_def fire_timer_def main_def main_with_def truthy_str_def)

lemma config_call_fails_witness:
  "\<exists>s1. req (\<lambda>_. None) (ACfg \<lparr>cfg_map = None, cfg_config = None\<rparr>) (AFun 0 (\<lambda>_. Return Undef))
      AUndef AUndef AUndef initial = (Inr RReq, s1) \<and> fst (fire_timer (\<lambda>_. None) s1) = Inl (TypeErr ''length'')"
  using config_call_fails [of "\<lambda>_. None" "\<lparr>cfg_map = None, cfg_config = None\<rparr>" AUndef AUndef AUndef
      initial 0 "\<lambda>_. Return Undef"]
  by (simp add: initial_def)

end
