(* ===== verification/Require_Names.thy ===== *)
theory Require_Names
  imports Amd_Paths
begin

text \<open>
  The pure half of \<open>js/require.js\<close> (RequireJS 2.0.2): the configuration of a context and its merging
  (\<open>configure\<close>, \<open>mixin\<close>), the normalisation of module names (\<open>trimDots\<close>, \<open>normalize\<close>), the translation of names to
  URLs (\<open>nameToUrl\<close>, \<open>toUrl\<close>), the \<open>data-main\<close> attribute, the queues of \<open>define\<close> calls (\<open>define\<close>,
  \<open>takeGlobalQueue\<close>) and the scan of a CommonJS factory for its \<open>require\<close> calls.
\<close>

subsection \<open>Configuration\<close>

text \<open>An entry of \<open>paths\<close> is a string or an array of fallbacks. A shim's \<open>exports\<close> is a global name or a function;
  \<open>makeShimExports\<close> keeps the name, for the check of scripts that do not call \<open>define\<close>.\<close>

datatype path_entry = PathStr string | PathArr "string list"

record pkg =
  pkg_name :: string
  pkg_location :: string
  pkg_main :: string

datatype shim_exports = ExpGlobal string | ExpFun nat

record shim =
  sh_deps :: "string list option"
  sh_exports :: "shim_exports option"

record rconfig =
  waitSeconds :: nat
  baseUrl :: string
  paths :: "path_entry obj"
  pkgs :: "pkg obj"
  shims :: "shim obj"
  map_config :: "string obj obj option"
  urlArgs :: "string option"
  enforceDefine :: bool

definition default_config :: rconfig where
  "default_config = \<lparr>waitSeconds = 7, baseUrl = ''./'', paths = [], pkgs = [], shims = [],
     map_config = None, urlArgs = None, enforceDefine = False\<rparr>"

text \<open>The configuration object that a page passes in; every property may be missing.\<close>

datatype pkg_spec = PkgName string | PkgObj string "string option" "string option"

record cfg_object =
  c_waitSeconds :: "nat option"
  c_baseUrl :: "string option"
  c_paths :: "path_entry obj option"
  c_shim :: "(string list + shim) obj option"
  c_map :: "string obj obj option"
  c_packages :: "pkg_spec list option"
  c_urlArgs :: "string option"
  c_enforceDefine :: "bool option"
  c_deps :: "string list option"

definition empty_cfg :: cfg_object where
  "empty_cfg = \<lparr>c_waitSeconds = None, c_baseUrl = None, c_paths = None, c_shim = None, c_map = None,
     c_packages = None, c_urlArgs = None, c_enforceDefine = None, c_deps = None\<rparr>"

definition some_or :: "'a option \<Rightarrow> 'a \<Rightarrow> 'a" where
  "some_or x d = (case x of None \<Rightarrow> d | Some v \<Rightarrow> v)"

text \<open>\<open>mixin(target, source, force)\<close> on flat objects and, for \<open>config.map\<close>, two levels deep
  (\<open>deepStringMixin\<close>).\<close>

definition mixin :: "bool \<Rightarrow> 'v obj \<Rightarrow> 'v obj \<Rightarrow> 'v obj" where
  "mixin force target source =
     fold (\<lambda>(k, v) t. if force \<or> \<not> own_prop t k then AList.update k v t else t) source target"

definition mixin_deep :: "'v obj obj \<Rightarrow> 'v obj obj \<Rightarrow> 'v obj obj" where
  "mixin_deep target source =
     fold (\<lambda>(k, v) t. AList.update k (mixin True (some_or (map_of t k) []) v) t) source target"

definition end_slash :: "string \<Rightarrow> string" where
  "end_slash u = (if u \<noteq> [] \<and> last u \<noteq> CHR ''/'' then u @ ''/'' else u)"

text \<open>\<open>s.replace(/^\./, ...)\<close> of the two regular expressions that clean a package's main module.\<close>

definition drop_curr_dir :: "string \<Rightarrow> string" where
  "drop_curr_dir s = (if is_prefix_of ''./'' s then drop 2 s else s)"

definition ends_with :: "string \<Rightarrow> string \<Rightarrow> bool" where
  "ends_with e s \<longleftrightarrow> is_prefix_of (rev e) (rev s)"

definition drop_js_suffix :: "string \<Rightarrow> string" where
  "drop_js_suffix s = (if ends_with ''.js'' s then take (length s - 3) s else s)"

fun make_pkg :: "pkg_spec \<Rightarrow> pkg" where
  "make_pkg (PkgName n) = \<lparr>pkg_name = n, pkg_location = n, pkg_main = ''main''\<rparr>"
| "make_pkg (PkgObj n location mn) =
     \<lparr>pkg_name = n, pkg_location = some_or (truthy_str location) n,
      pkg_main = drop_js_suffix (drop_curr_dir (some_or (truthy_str mn) ''main''))\<rparr>"

definition add_pkg :: "pkg_spec \<Rightarrow> pkg obj \<Rightarrow> pkg obj" where
  "add_pkg p m = (let q = make_pkg p in AList.update (pkg_name q) q m)"

definition make_shim :: "string list + shim \<Rightarrow> shim" where
  "make_shim v = (case v of Inl deps \<Rightarrow> \<lparr>sh_deps = Some deps, sh_exports = None\<rparr> | Inr sh \<Rightarrow> sh)"

text \<open>The part of \<open>configure\<close> that updates the configuration: later values win, but \<open>paths\<close>, \<open>map\<close>, \<open>shim\<close> and
  packages are merged into what was configured before.\<close>

definition merge_config :: "cfg_object \<Rightarrow> rconfig \<Rightarrow> rconfig" where
  "merge_config cfg c =
     \<lparr>waitSeconds = some_or (c_waitSeconds cfg) (waitSeconds c),
      baseUrl = (case c_baseUrl cfg of None \<Rightarrow> baseUrl c | Some u \<Rightarrow> end_slash u),
      paths = mixin True (paths c) (some_or (c_paths cfg) []),
      pkgs = fold add_pkg (some_or (c_packages cfg) []) (pkgs c),
      shims = fold (\<lambda>(k, v) m. AList.update k (make_shim v) m) (some_or (c_shim cfg) []) (shims c),
      map_config = (case c_map cfg of
          None \<Rightarrow> map_config c
        | Some m \<Rightarrow> Some (mixin_deep (some_or (map_config c) []) m)),
      urlArgs = (case c_urlArgs cfg of None \<Rightarrow> urlArgs c | Some a \<Rightarrow> Some a),
      enforceDefine = some_or (c_enforceDefine cfg) (enforceDefine c)\<rparr>"

text \<open>The first script, from the last one back, with a \<open>data-main\<close> attribute adds its file to the dependencies and,
  unless the page configured one, sets the base URL to its directory.\<close>

definition apply_data_main :: "string \<Rightarrow> cfg_object \<Rightarrow> cfg_object" where
  "apply_data_main dataMain cfg =
     (let src = path_split dataMain;
          mainScript = last src;
          subPath = (if butlast src \<noteq> [] then path_join (butlast src) @ ''/'' else ''./'');
          main = drop_js_suffix mainScript
      in cfg\<lparr>c_baseUrl := (case truthy_str (c_baseUrl cfg) of None \<Rightarrow> Some subPath | Some u \<Rightarrow> Some u),
             c_deps := Some (some_or (c_deps cfg) [] @ [main])\<rparr>)"

definition data_main :: "string option list \<Rightarrow> cfg_object \<Rightarrow> cfg_object" where
  "data_main scripts cfg =
     (case List.find (\<lambda>a. truthy_str a \<noteq> None) (rev scripts) of
        Some (Some a) \<Rightarrow> apply_data_main a cfg
      | _ \<Rightarrow> cfg)"

subsection \<open>Names\<close>

text \<open>The loop \<open>for (i = 0; ary[i]; i += 1)\<close> also ends at an empty segment, which is falsy.\<close>

function trimDots_loop :: "nat \<Rightarrow> string list \<Rightarrow> string list" where
  "trimDots_loop i ary =
     (if i < length ary \<and> ary ! i \<noteq> [] then
        if ary ! i = ''.'' then trimDots_loop i (js_splice i 1 [] ary)
        else if ary ! i = ''..'' then
          if stuck_at_root ary i then ary
          else if i > 0 then trimDots_loop (i - 1) (js_splice (i - 1) 2 [] ary)
          else trimDots_loop (i + 1) ary
        else trimDots_loop (i + 1) ary
      else ary)"
  by pat_completeness auto
termination
  by (relation "measure (\<lambda>(i, ary). length ary - i)") (auto simp: js_splice_def)

declare trimDots_loop.simps [simp del]

definition trimDots :: "string list \<Rightarrow> string list" where
  "trimDots ary = trimDots_loop 0 ary"

text \<open>The map entry for one name segment: that of the longest prefix of the base name, else that of \<open>*\<close>.\<close>

definition segment_map :: "string obj obj \<Rightarrow> string list option \<Rightarrow> string \<Rightarrow> string option" where
  "segment_map m baseParts nameSegment =
     (case (case baseParts of
              None \<Rightarrow> None
            | Some bp \<Rightarrow>
                search_down (\<lambda>j. case map_of m (path_join (take j bp)) of
                    None \<Rightarrow> None | Some mv \<Rightarrow> truthy_get mv nameSegment) (length bp)) of
        Some v \<Rightarrow> Some v
      | None \<Rightarrow> (case map_of m ''*'' of None \<Rightarrow> None | Some sm \<Rightarrow> truthy_get sm nameSegment))"

definition apply_map :: "string obj obj \<Rightarrow> string list option \<Rightarrow> string \<Rightarrow> string" where
  "apply_map m baseParts name =
     (let nameParts = path_split name
      in case search_down (\<lambda>i. map_option (\<lambda>v. (v, i)) (segment_map m baseParts (path_join (take i nameParts))))
                (length nameParts) of
           None \<Rightarrow> name
         | Some (foundMap, i) \<Rightarrow> path_join (js_splice 0 i [foundMap] nameParts))"

text \<open>A relative path that names a package's main module stands for the package.\<close>

definition main_to_pkg :: "pkg obj \<Rightarrow> string list \<Rightarrow> string" where
  "main_to_pkg ps parts =
     (case parts of
        [] \<Rightarrow> []
      | pkgName # _ \<Rightarrow>
          (case map_of ps pkgName of
             None \<Rightarrow> path_join parts
           | Some p \<Rightarrow> if path_join parts = pkgName @ ''/'' @ pkg_main p then pkgName else path_join parts))"

definition normalize :: "rconfig \<Rightarrow> string \<Rightarrow> string option \<Rightarrow> bool \<Rightarrow> string" where
  "normalize c name baseName applyMap =
     (let base = truthy_str baseName;
          relative = (name \<noteq> [] \<and> hd name = CHR ''.'');
          baseParts = (case base of
              None \<Rightarrow> None
            | Some b \<Rightarrow>
                Some (if relative then (if own_prop (pkgs c) b then [b] else butlast (path_split b))
                      else path_split b));
          name' = (if relative then
                     (case baseParts of
                        Some bp \<Rightarrow> main_to_pkg (pkgs c) (trimDots (bp @ path_split name))
                      | None \<Rightarrow> drop_curr_dir name)
                   else name)
      in case map_config c of
           None \<Rightarrow> name'
         | Some m \<Rightarrow>
             if applyMap \<and> (baseParts \<noteq> None \<or> own_prop m ''*'') then apply_map m baseParts name' else name')"

subsection \<open>URLs\<close>

text \<open>\<open>req.jsExtRegExp\<close>, \<open>/^\/|:|\?|\.js$/\<close>: the name is a URL already.\<close>

definition is_plain_url :: "string \<Rightarrow> bool" where
  "is_plain_url s \<longleftrightarrow> is_prefix_of ''/'' s \<or> CHR '':'' \<in> set s \<or> CHR ''?'' \<in> set s \<or> ends_with ''.js'' s"

definition is_word_char :: "char \<Rightarrow> bool" where
  "is_word_char ch \<longleftrightarrow>
     (let n = (of_char ch :: nat) in 48 \<le> n \<and> n \<le> 57 \<or> 65 \<le> n \<and> n \<le> 90 \<or> 97 \<le> n \<and> n \<le> 122 \<or> n = 95)"

text \<open>\<open>url.match(/^[\w\+\.\-]+:/)\<close>\<close>

definition has_protocol :: "string \<Rightarrow> bool" where
  "has_protocol u =
     (let w = takeWhile (\<lambda>ch. is_word_char ch \<or> ch \<in> set ''+.-'') u
      in w \<noteq> [] \<and> is_prefix_of '':'' (drop (length w) u))"

text \<open>What replaces the first \<open>i\<close> segments: a path (the first fallback of an array) or a package's location.\<close>

fun path_text :: "path_entry \<Rightarrow> string" where
  "path_text (PathStr s) = s"
| "path_text (PathArr ss) = (case ss of [] \<Rightarrow> [] | s # _ \<Rightarrow> s)"

definition prefix_path :: "rconfig \<Rightarrow> string \<Rightarrow> string \<Rightarrow> string option" where
  "prefix_path c moduleName parentModule =
     (case map_of (paths c) parentModule of
        Some p \<Rightarrow>
          if p \<noteq> PathStr [] then Some (path_text p)
          else map_option (\<lambda>k. if moduleName = pkg_name k then pkg_location k @ ''/'' @ pkg_main k else pkg_location k)
                 (map_of (pkgs c) parentModule)
      | None \<Rightarrow>
          map_option (\<lambda>k. if moduleName = pkg_name k then pkg_location k @ ''/'' @ pkg_main k else pkg_location k)
            (map_of (pkgs c) parentModule))"

definition map_path :: "rconfig \<Rightarrow> string \<Rightarrow> string" where
  "map_path c moduleName =
     (let syms = path_split moduleName
      in case search_down (\<lambda>i. map_option (\<lambda>p. (p, i)) (prefix_path c moduleName (path_join (take i syms))))
                (length syms) of
           None \<Rightarrow> path_join syms
         | Some (p, i) \<Rightarrow> path_join (js_splice 0 i [p] syms))"

definition add_url_args :: "rconfig \<Rightarrow> string \<Rightarrow> string" where
  "add_url_args c url =
     (case truthy_str (urlArgs c) of
        None \<Rightarrow> url
      | Some a \<Rightarrow> url @ (if CHR ''?'' \<in> set url then ''&'' else ''?'') @ a)"

definition nameToUrl :: "rconfig \<Rightarrow> string \<Rightarrow> string option \<Rightarrow> string option \<Rightarrow> string" where
  "nameToUrl c name ext relId =
     (let moduleName = normalize c name relId True;
          url = (if is_plain_url moduleName then moduleName @ some_or ext []
                 else (let u = map_path c moduleName @ some_or (truthy_str ext) ''.js''
                       in (if is_prefix_of ''/'' u \<or> has_protocol u then [] else baseUrl c) @ u))
      in add_url_args c url)"

definition toUrl :: "rconfig \<Rightarrow> string \<Rightarrow> string option \<Rightarrow> string" where
  "toUrl c moduleNamePlusExt relId =
     (case last_index_of ''.'' moduleNamePlusExt of
        None \<Rightarrow> nameToUrl c moduleNamePlusExt None relId
      | Some i \<Rightarrow> nameToUrl c (take i moduleNamePlusExt) (Some (drop i moduleNamePlusExt)) relId)"

subsection \<open>Define calls\<close>

text \<open>
  A factory as \<open>define\<close> sees it: its number of formal parameters and its source text (\<open>toString()\<close>). \<open>fn\<close> stands
  for what it does, which only the execution of modules looks at.
\<close>

datatype ('f, 'v) defn = DFun nat string 'f | DValue 'v

datatype ('f, 'v) define_arg = ArgName string | ArgDeps "string list" | ArgDefn "('f, 'v) defn" | ArgMissing

definition is_js_space :: "char \<Rightarrow> bool" where
  "is_js_space ch \<longleftrightarrow> (let n = (of_char ch :: nat) in 9 \<le> n \<and> n \<le> 13 \<or> n = 32 \<or> n = 160)"

definition is_line_end :: "char \<Rightarrow> bool" where
  "is_line_end ch \<longleftrightarrow> (of_char ch :: nat) \<in> {10, 13}"

text \<open>The text after the first \<open>*/\<close>.\<close>

fun after_block :: "string \<Rightarrow> string option" where
  "after_block [] = None"
| "after_block (x # xs) = (if is_prefix_of ''*/'' (x # xs) then Some (tl xs) else after_block xs)"

lemma after_block_shorter: "after_block s = Some r \<Longrightarrow> length r < length s"
  by (induction s arbitrary: r) (auto split: if_splits intro: less_SucI le_less_trans [OF diff_le_self])

text \<open>One match of \<open>commentRegExp\<close>, \<open>/(\/\*([\s\S]*?)\*\/|([^:]|^)\/\/(.*)$)/mg\<close>, at the front of a text: what
  follows it. \<open>bol\<close> says that the position is at the beginning of a line. The character in front of \<open>//\<close> belongs to
  the match.\<close>

definition comment_at :: "bool \<Rightarrow> string \<Rightarrow> string option" where
  "comment_at bol s =
     (case (if is_prefix_of ''/*'' s then after_block (drop 2 s) else None) of
        Some r \<Rightarrow> Some r
      | None \<Rightarrow>
          if s \<noteq> [] \<and> hd s \<noteq> CHR '':'' \<and> is_prefix_of ''//'' (tl s)
          then Some (dropWhile (\<lambda>ch. \<not> is_line_end ch) (drop 3 s))
          else if bol \<and> is_prefix_of ''//'' s
          then Some (dropWhile (\<lambda>ch. \<not> is_line_end ch) (drop 2 s))
          else None)"

lemma comment_at_shorter:
  assumes "comment_at bol s = Some r"
  shows "length r < length s"
proof -
  have d: "length (dropWhile P (drop k s)) < length s" if "0 < k" "s \<noteq> []" for P and k :: nat
    using that length_dropWhile_le [of P "drop k s"] by (cases s) (auto intro: le_less_trans)
  have b: "length r < length s" if "after_block (drop 2 s) = Some r"
    using after_block_shorter [OF that] by simp
  show ?thesis
    using assms b d [of 3] d [of 2] unfolding comment_at_def by (cases s) (auto split: option.splits if_splits)
qed

function (sequential) strip_comments :: "bool \<Rightarrow> string \<Rightarrow> string" where
  "strip_comments bol [] = []"
| "strip_comments bol (x # xs) =
     (case comment_at bol (x # xs) of
        Some r \<Rightarrow> strip_comments False r
      | None \<Rightarrow> x # strip_comments (is_line_end x) xs)"
  by pat_completeness auto
termination
  by (relation "measure (\<lambda>(b, s). length s)") (auto dest: comment_at_shorter)

text \<open>One match of \<open>cjsRequireRegExp\<close>, \<open>/require\s*\(\s*["']([^'"\s]+)["']\s*\)/g\<close>: the name and what follows.\<close>

definition is_quote :: "char \<Rightarrow> bool" where
  "is_quote ch \<longleftrightarrow> ch = CHR 0x22 \<or> ch = CHR 0x27"

definition require_at :: "string \<Rightarrow> (string \<times> string) option" where
  "require_at s =
     (let s1 = dropWhile is_js_space (drop 7 s);
          s2 = dropWhile is_js_space (tl s1);
          name = takeWhile (\<lambda>ch. \<not> is_quote ch \<and> \<not> is_js_space ch) (tl s2);
          s3 = drop (length name) (tl s2);
          s4 = dropWhile is_js_space (tl s3)
      in if is_prefix_of ''require'' s \<and> is_prefix_of ''('' s1 \<and> s2 \<noteq> [] \<and> is_quote (hd s2) \<and> name \<noteq> [] \<and>
            s3 \<noteq> [] \<and> is_quote (hd s3) \<and> is_prefix_of '')'' s4
         then Some (name, tl s4) else None)"

lemma require_at_shorter: "require_at s = Some (n, r) \<Longrightarrow> length r < length s"
proof -
  assume a: "require_at s = Some (n, r)"
  define s1 where "s1 = dropWhile is_js_space (drop 7 s)"
  define s2 where "s2 = dropWhile is_js_space (tl s1)"
  define s3 where "s3 = drop (length n) (tl s2)"
  have s: "is_prefix_of ''require'' s" and r: "r = tl (dropWhile is_js_space (tl s3))"
    using a by (auto simp: require_at_def Let_def s1_def s2_def s3_def split: if_splits)
  have "length r \<le> length s3" unfolding r using length_dropWhile_le [of is_js_space "tl s3"] by simp
  also have "\<dots> \<le> length s2" by (simp add: s3_def)
  also have "\<dots> \<le> length s1" unfolding s2_def using length_dropWhile_le [of is_js_space "tl s1"] by simp
  also have "\<dots> \<le> length (drop 7 s)" unfolding s1_def by (rule length_dropWhile_le)
  also have "\<dots> < length s" using s by (cases s) auto
  finally show ?thesis .
qed

function (sequential) scan_requires :: "string \<Rightarrow> string list" where
  "scan_requires [] = []"
| "scan_requires (x # xs) =
     (case require_at (x # xs) of
        Some (dep, r) \<Rightarrow> dep # scan_requires r
      | None \<Rightarrow> scan_requires xs)"
  by pat_completeness auto
termination
  by (relation "measure length") (auto dest: require_at_shorter)

definition cjs_deps :: "nat \<Rightarrow> string \<Rightarrow> string list" where
  "cjs_deps arity text =
     (if arity = 1 then [''require''] else [''require'', ''exports'', ''module'']) @
     scan_requires (strip_comments True text)"

text \<open>One queued call: name (\<open>null\<close> when anonymous), dependencies, factory or value.\<close>

type_synonym ('f, 'v) queued = "string option \<times> string list \<times> ('f, 'v) defn option"

definition is_name :: "('f, 'v) define_arg \<Rightarrow> bool" where
  "is_name a = (case a of ArgName _ \<Rightarrow> True | _ \<Rightarrow> False)"

fun arg_defn :: "('f, 'v) define_arg \<Rightarrow> ('f, 'v) defn option" where
  "arg_defn (ArgDefn d) = Some d"
| "arg_defn _ = None"

text \<open>\<open>define(name, deps, callback)\<close>; \<open>script\<close> is the module name of the script that old versions of IE report as
  running, used for an anonymous module there.\<close>

definition define_call ::
  "string option \<Rightarrow> ('f, 'v) define_arg \<Rightarrow> ('f, 'v) define_arg \<Rightarrow> ('f, 'v) define_arg \<Rightarrow> ('f, 'v) queued" where
  "define_call script a1 a2 a3 =
     (let name = (case a1 of ArgName n \<Rightarrow> Some n | _ \<Rightarrow> None);
          d1 = (if name = None then a1 else a2);
          c1 = (if name = None then a2 else a3);
          deps = (case d1 of ArgDeps ds \<Rightarrow> ds | _ \<Rightarrow> []);
          cb = arg_defn (case d1 of ArgDeps _ \<Rightarrow> c1 | _ \<Rightarrow> d1);
          deps' = (case cb of
              Some (DFun n text _) \<Rightarrow> if deps = [] \<and> n \<noteq> 0 then cjs_deps n text else deps
            | _ \<Rightarrow> deps)
      in (if truthy_str name = None \<and> script \<noteq> None then script else name, deps', cb))"

text \<open>
  \<open>apsp.apply(defQueue, [defQueue.length - 1, 0].concat(globalDefQueue))\<close>: the queued calls are inserted \<^emph>\<open>before\<close>
  the last element (at the front of an empty queue, where the index is -1).
\<close>

definition takeGlobalQueue :: "'q list \<Rightarrow> 'q list \<Rightarrow> 'q list" where
  "takeGlobalQueue defQueue globalDefQueue =
     (if globalDefQueue = [] then defQueue
      else js_splice (length defQueue - 1) 0 globalDefQueue defQueue)"

subsection \<open>Lemmas: names\<close>

lemma trimDots_loop_resolves:
  "resolve st ps = Some r \<Longrightarrow> list_all plain_segment st \<Longrightarrow> [] \<notin> set ps \<Longrightarrow>
   trimDots_loop (length st) (trim_state st ps) = r"
proof (induction st ps arbitrary: r rule: resolve.induct)
  case (1 st)
  then have r: "r = rev st" by simp
  show ?case unfolding r by (subst trimDots_loop.simps) (simp add: trim_state_def)
next
  case (2 st p ps)
  have p: "p \<noteq> []" using 2 by auto
  consider "p = ''.''" | "p = ''..''" | "plain_segment p" by (auto simp: plain_segment_def)
  then show ?case
  proof cases
    case 1
    with 2 show ?thesis
      by (subst trimDots_loop.simps) (simp add: trim_state_drop_dot del: One_nat_def)
  next
    case dots: 2
    with 2 obtain t st' where st: "st = t # st'" by (cases st) auto
    have "\<not> stuck_at_root (trim_state st (p # ps)) (length st)"
      using not_stuck_when_resolvable 2 dots by blast
    moreover have "trimDots_loop (length st') (trim_state st' ps) = r" using 2 dots st by simp
    ultimately show ?thesis
      using dots st trim_state_pop [of t st' p ps] trim_state_read [of "t # st'" p ps]
      by (subst trimDots_loop.simps) simp
  next
    case 3
    with 2 have "trimDots_loop (length (p # st)) (trim_state (p # st) ps) = r"
      by (simp add: plain_segment_def)
    then have "trimDots_loop (length st + 1) (trim_state st (p # ps)) = r" by (simp flip: trim_state_push)
    with 3 p show ?thesis by (subst trimDots_loop.simps) (simp add: plain_segment_def)
  qed
qed

interpretation trim_dots: dot_trimmer trimDots "\<lambda>ps. [] \<notin> set ps"
proof unfold_locales
  fix ps r
  assume "[] \<notin> set ps" "resolve [] ps = Some r"
  then show "trimDots ps = r"
    using trimDots_loop_resolves [of "[]" ps r] by (simp add: trimDots_def trim_state_def)
qed auto

lemma normalize_relative:
  assumes "map_config c = None" and "base \<noteq> []" and "name \<noteq> []" and "hd name = CHR ''.''"
    and "map_of (pkgs c) base = None" and "[] \<notin> set (butlast (path_split base) @ path_split name)"
    and "resolve [] (butlast (path_split base) @ path_split name) = Some r"
  shows "normalize c name (Some base) am = main_to_pkg (pkgs c) r"
  using assms trim_dots.trim_resolves [OF assms(6,7)]
  by (simp add: normalize_def truthy_str_def)

lemma main_to_pkg_none: "pkgs c = [] \<Longrightarrow> main_to_pkg (pkgs c) r = path_join r"
  by (cases r) (simp_all add: main_to_pkg_def path_join_def)

lemma normalize_absolute:
  "map_config c = None \<Longrightarrow> name = [] \<or> hd name \<noteq> CHR ''.'' \<Longrightarrow> normalize c name base am = name"
  by (auto simp: normalize_def)

subsection \<open>Lemmas: URLs\<close>

lemma no_protocol: "CHR '':'' \<notin> set u \<Longrightarrow> \<not> has_protocol u"
proof
  assume no: "CHR '':'' \<notin> set u" and "has_protocol u"
  then obtain k where "is_prefix_of '':'' (drop k u)" by (auto simp: has_protocol_def Let_def)
  then have "CHR '':'' \<in> set (drop k u)" by (auto simp: is_prefix_of_iff)
  with no set_drop_subset show False by fastforce
qed

lemma plain_urlD:
  "\<not> is_plain_url s \<Longrightarrow> CHR '':'' \<notin> set s \<and> CHR ''?'' \<notin> set s \<and> \<not> is_prefix_of ''/'' s"
  by (simp add: is_plain_url_def)

lemma prefix_slash_append: "\<not> is_prefix_of ''/'' s \<Longrightarrow> \<not> is_prefix_of ''/'' (s @ ''.js'')"
  by (cases s) auto

definition rooted :: "rconfig \<Rightarrow> string \<Rightarrow> string" where
  "rooted c u = (if is_prefix_of ''/'' u \<or> has_protocol u then [] else baseUrl c) @ u"

lemma nameToUrl_module:
  "map_config c = None \<Longrightarrow> urlArgs c = None \<Longrightarrow> name = [] \<or> hd name \<noteq> CHR ''.'' \<Longrightarrow> \<not> is_plain_url name \<Longrightarrow>
   nameToUrl c name None rel = rooted c (map_path c name @ ''.js'')"
  by (simp add: nameToUrl_def normalize_absolute add_url_args_def truthy_str_def some_or_def rooted_def Let_def)

lemma map_path_hit:
  assumes "0 < i" "i \<le> length (path_split name)"
    and "prefix_path c name (path_join (take i (path_split name))) = Some p"
    and "\<forall>k. i < k \<and> k \<le> length (path_split name) \<longrightarrow> prefix_path c name (path_join (take k (path_split name))) = None"
  shows "map_path c name = path_join (p # drop i (path_split name))"
proof -
  let ?f = "\<lambda>i. map_option (\<lambda>p. (p, i)) (prefix_path c name (path_join (take i (path_split name))))"
  have "search_down ?f (length (path_split name)) = Some (p, i)"
    unfolding search_down_Some using assms by (intro exI [of _ i]) simp
  then show ?thesis by (simp add: map_path_def Let_def js_splice_def)
qed

lemma map_path_miss:
  assumes "\<forall>k. 0 < k \<and> k \<le> length (path_split name) \<longrightarrow> prefix_path c name (path_join (take k (path_split name))) = None"
  shows "map_path c name = name"
proof -
  let ?f = "\<lambda>i. map_option (\<lambda>p. (p, i)) (prefix_path c name (path_join (take i (path_split name))))"
  have "search_down ?f (length (path_split name)) = None" unfolding search_down_None using assms by simp
  then show ?thesis by (simp add: map_path_def Let_def)
qed

lemma rooted_module:
  "\<not> is_plain_url name \<Longrightarrow> rooted c (name @ ''.js'') = baseUrl c @ name @ ''.js''"
  using plain_urlD [of name] prefix_slash_append [of name] no_protocol [of "name @ ''.js''"]
  by (simp add: rooted_def)

subsection \<open>Lemmas: configuration\<close>

lemma mixin_force: "mixin True a b = js_extend a b"
  unfolding mixin_def js_extend_def by simp

lemma end_slash_last: "end_slash u = [] \<or> last (end_slash u) = CHR ''/''"
  by (auto simp: end_slash_def)

lemma fold_update_get:
  "map_of (fold (\<lambda>(k, v) m. AList.update k (g v) m) xs m) k =
   (case map_of (rev xs) k of Some v \<Rightarrow> Some (g v) | None \<Rightarrow> map_of m k)"
proof (induction xs arbitrary: m)
  case (Cons x xs)
  then show ?case by (cases x) (auto simp: map_add_def split: option.splits)
qed simp

definition map_entry :: "string obj obj \<Rightarrow> string \<Rightarrow> string \<Rightarrow> string option" where
  "map_entry m k n = (case map_of m k of None \<Rightarrow> None | Some x \<Rightarrow> map_of x n)"

lemma mixin_deep_get:
  "distinct (map fst s) \<Longrightarrow>
   map_entry (mixin_deep t s) k n =
     (case map_of s k of
        None \<Rightarrow> map_entry t k n
      | Some m \<Rightarrow> (case map_of (rev m) n of Some v \<Rightarrow> Some v | None \<Rightarrow> map_entry t k n))"
proof (induction s arbitrary: t)
  case Nil
  then show ?case by (simp add: mixin_deep_def)
next
  case (Cons x s)
  obtain k' v where x: "x = (k', v)" by (cases x)
  let ?t = "AList.update k' (mixin True (some_or (map_of t k') []) v) t"
  have step: "mixin_deep t (x # s) = mixin_deep ?t s" by (simp add: mixin_deep_def x)
  have new: "k' = k \<Longrightarrow> map_of s k = None" using Cons.prems x by (auto simp: map_of_eq_None_iff)
  have "map_entry ?t k n = (if k' = k then (case map_of (rev v) n of Some v \<Rightarrow> Some v | None \<Rightarrow> map_entry t k n)
      else map_entry t k n)"
    by (auto simp: map_entry_def some_or_def mixin_force js_extend_get split: option.splits)
  with new show ?case
    unfolding step using Cons.IH [of ?t] Cons.prems by (cases "k' = k") (simp_all add: x split: option.split)
qed

lemma config_paths:
  "map_of (paths (merge_config cfg c)) k =
   (case map_of (rev (some_or (c_paths cfg) [])) k of Some p \<Rightarrow> Some p | None \<Rightarrow> map_of (paths c) k)"
  by (simp add: merge_config_def mixin_force js_extend_get)

lemma config_shims:
  "map_of (shims (merge_config cfg c)) k =
   (case map_of (rev (some_or (c_shim cfg) [])) k of Some v \<Rightarrow> Some (make_shim v) | None \<Rightarrow> map_of (shims c) k)"
  by (simp add: merge_config_def fold_update_get)

subsection \<open>Lemmas: the scan of a CommonJS factory\<close>

definition require_call :: "string \<Rightarrow> string" where
  "require_call d = ''require('' @ [CHR 0x27] @ d @ [CHR 0x27] @ '')''"

definition dep_text :: "string \<Rightarrow> bool" where
  "dep_text d \<longleftrightarrow> d \<noteq> [] \<and> list_all (\<lambda>ch. \<not> is_quote ch \<and> \<not> is_js_space ch) d"

lemma require_at_call: "dep_text d \<Longrightarrow> require_at (require_call d @ rest) = Some (d, rest)"
proof -
  assume d: "dep_text d"
  have q: "is_quote (CHR 0x27)" "\<not> is_js_space (CHR 0x27)" "\<not> is_js_space (CHR ''('')" "\<not> is_js_space (CHR '')'')"
    by (simp_all add: is_quote_def is_js_space_def)
  have t: "takeWhile (\<lambda>ch. \<not> is_quote ch \<and> \<not> is_js_space ch) (d @ CHR 0x27 # r) = d" for r
    using d q by (subst takeWhile_append2) (auto simp: dep_text_def list_all_iff)
  show ?thesis
    using d q by (simp add: require_at_def require_call_def t dep_text_def Let_def numeral_eq_Suc)
qed

lemma require_call_Cons: "require_call d @ rest = CHR ''r'' # (''equire('' @ [CHR 0x27] @ d @ [CHR 0x27] @ '')'' @ rest)"
  by (simp add: require_call_def)

lemma scan_call: "dep_text d \<Longrightarrow> scan_requires (require_call d @ rest) = d # scan_requires rest"
  using require_at_call [of d rest] by (simp add: require_call_Cons)

lemma scan_gap: "CHR ''r'' \<notin> set g \<Longrightarrow> scan_requires (g @ rest) = scan_requires rest"
proof (induction g)
  case (Cons x g)
  have "require_at (x # g @ rest) = None" using Cons.prems by (auto simp: require_at_def Let_def)
  with Cons show ?case by simp
qed simp

lemma scan_program:
  "list_all (\<lambda>(g, d). CHR ''r'' \<notin> set g \<and> dep_text d) ps \<Longrightarrow> CHR ''r'' \<notin> set rest \<Longrightarrow>
   scan_requires (concat (map (\<lambda>(g, d). g @ require_call d) ps) @ rest) = map snd ps"
proof (induction ps)
  case Nil
  then show ?case using scan_gap [of rest "[]"] by simp
next
  case (Cons p ps)
  then show ?case by (cases p) (simp add: scan_gap scan_call)
qed

lemma no_comment_start: "CHR ''/'' \<notin> set s \<Longrightarrow> comment_at b s = None"
proof -
  assume a: "CHR ''/'' \<notin> set s"
  have "\<not> is_prefix_of (CHR ''/'' # p) t" if "set t \<subseteq> set s" for p t
    using that a by (auto simp: is_prefix_of_iff)
  moreover have "set (tl s) \<subseteq> set s" by (cases s) auto
  ultimately show ?thesis by (simp add: comment_at_def)
qed

lemma strip_no_comments: "CHR ''/'' \<notin> set s \<Longrightarrow> strip_comments b s = s"
proof (induction s arbitrary: b)
  case (Cons x s)
  then show ?case using no_comment_start [of "x # s" b] by simp
qed simp

subsection \<open>Properties\<close>

text \<open>C25: a module name becomes a URL through the longest configured prefix of its path: that prefix is replaced by its
  path or package location and the rest is kept; the base URL goes in front unless the result is rooted or carries a
  protocol. With no configured prefix the URL is the base URL, the name and \<open>.js\<close>.\<close>

theorem nameToUrl_longest_prefix:
  assumes "map_config c = None" and "urlArgs c = None" and "name \<noteq> [] \<and> hd name \<noteq> CHR ''.''"
    and "\<not> is_plain_url name"
  shows "(\<forall>i p. 0 < i \<and> i \<le> length (path_split name) \<and>
        prefix_path c name (path_join (take i (path_split name))) = Some p \<and>
        (\<forall>k. i < k \<and> k \<le> length (path_split name) \<longrightarrow> prefix_path c name (path_join (take k (path_split name))) = None)
      \<longrightarrow> nameToUrl c name None rel = rooted c (path_join (p # drop i (path_split name)) @ ''.js'')) \<and>
    ((\<forall>k. 0 < k \<and> k \<le> length (path_split name) \<longrightarrow> prefix_path c name (path_join (take k (path_split name))) = None)
      \<longrightarrow> nameToUrl c name None rel = baseUrl c @ name @ ''.js'')"
proof (intro conjI allI impI, elim conjE)
  have url: "nameToUrl c name None rel = rooted c (map_path c name @ ''.js'')"
    using assms by (simp add: nameToUrl_module)
  show "nameToUrl c name None rel = rooted c (path_join (p # drop i (path_split name)) @ ''.js'')"
    if "0 < i" "i \<le> length (path_split name)" "prefix_path c name (path_join (take i (path_split name))) = Some p"
      "\<forall>k. i < k \<and> k \<le> length (path_split name) \<longrightarrow> prefix_path c name (path_join (take k (path_split name))) = None"
    for i p
    unfolding url map_path_hit [OF that] ..
  show "nameToUrl c name None rel = baseUrl c @ name @ ''.js''"
    if "\<forall>k. 0 < k \<and> k \<le> length (path_split name) \<longrightarrow> prefix_path c name (path_join (take k (path_split name))) = None"
    unfolding url map_path_miss [OF that] by (rule rooted_module [OF assms(4)])
qed

definition ex_rconfig :: rconfig where
  "ex_rconfig = default_config\<lparr>baseUrl := ''js/'', paths := [(''a'', PathStr ''x''), (''a/b'', PathArr [''y'', ''z''])]\<rparr>"

theorem nameToUrl_longest_prefix_witness:
  "nameToUrl ex_rconfig ''a/b/c'' None None = ''js/y/c.js'' \<and> nameToUrl ex_rconfig ''q/r'' None None = ''js/q/r.js''"
proof
  have eq: "path_split ''a/b/c'' = [''a'', ''b'', ''c'']" "path_split ''q/r'' = [''q'', ''r'']"
    by (simp_all add: path_split_def)
  have no: "prefix_path ex_rconfig ''a/b/c'' (path_join [''a'', ''b'', ''c'']) = None"
    "prefix_path ex_rconfig ''a/b/c'' (path_join [''a'', ''b'']) = Some ''y''"
    by (simp_all add: prefix_path_def ex_rconfig_def default_config_def path_join_def)
  have l: "k = 3" if "2 < k" "k \<le> 3" for k :: nat using that by simp
  have "nameToUrl ex_rconfig ''a/b/c'' None None = rooted ex_rconfig (path_join [''y'', ''c''] @ ''.js'')"
    using nameToUrl_longest_prefix [of ex_rconfig "''a/b/c''" None] no l
    by (auto simp: eq ex_rconfig_def default_config_def is_plain_url_def ends_with_def numeral_eq_Suc
        dest!: spec [of _ 2] spec [of _ "''y''"])
  then show "nameToUrl ex_rconfig ''a/b/c'' None None = ''js/y/c.js''"
    by (simp add: rooted_def path_join_def ex_rconfig_def has_protocol_def is_word_char_def)
  have "prefix_path ex_rconfig ''q/r'' (path_join (take k [''q'', ''r''])) = None" if "0 < k \<and> k \<le> 2" for k
    using that by (cases "k = 1")
      (auto simp: prefix_path_def ex_rconfig_def default_config_def path_join_def numeral_eq_Suc le_Suc_eq)
  then show "nameToUrl ex_rconfig ''q/r'' None None = ''js/q/r.js''"
    using nameToUrl_longest_prefix [of ex_rconfig "''q/r''" None]
    by (simp add: eq ex_rconfig_def default_config_def is_plain_url_def ends_with_def)
qed

text \<open>Configuring twice is additive: paths, shims and map entries of the later call win and all others of the
  earlier one stay; a base URL, when one is given, ends in a slash.\<close>

lemma configure_additive:
  assumes "distinct (map fst (some_or (c_map cfg) []))"
  shows "map_of (paths (merge_config cfg c)) k =
      (case map_of (rev (some_or (c_paths cfg) [])) k of Some p \<Rightarrow> Some p | None \<Rightarrow> map_of (paths c) k) \<and>
    map_of (shims (merge_config cfg c)) k =
      (case map_of (rev (some_or (c_shim cfg) [])) k of Some v \<Rightarrow> Some (make_shim v) | None \<Rightarrow> map_of (shims c) k) \<and>
    map_entry (some_or (map_config (merge_config cfg c)) []) k n =
      (case map_of (some_or (c_map cfg) []) k of
         None \<Rightarrow> map_entry (some_or (map_config c) []) k n
       | Some m \<Rightarrow> (case map_of (rev m) n of Some v \<Rightarrow> Some v | None \<Rightarrow> map_entry (some_or (map_config c) []) k n)) \<and>
    (\<forall>u. c_baseUrl cfg = Some u \<and> u \<noteq> [] \<longrightarrow> last (baseUrl (merge_config cfg c)) = CHR ''/'')"
proof (intro conjI)
  show "map_entry (some_or (map_config (merge_config cfg c)) []) k n =
      (case map_of (some_or (c_map cfg) []) k of
         None \<Rightarrow> map_entry (some_or (map_config c) []) k n
       | Some m \<Rightarrow> (case map_of (rev m) n of Some v \<Rightarrow> Some v | None \<Rightarrow> map_entry (some_or (map_config c) []) k n))"
    using mixin_deep_get [of "some_or (c_map cfg) []" "some_or (map_config c) []" k n] assms
    by (cases "c_map cfg"; cases "map_config c") (simp_all add: merge_config_def some_or_def)
  show "\<forall>u. c_baseUrl cfg = Some u \<and> u \<noteq> [] \<longrightarrow> last (baseUrl (merge_config cfg c)) = CHR ''/''"
    by (auto simp: merge_config_def end_slash_def)
qed (simp_all add: config_paths config_shims)

lemma configure_additive_witness:
  "map_of (paths (merge_config (empty_cfg\<lparr>c_paths := Some [(''b'', PathStr ''y'')]\<rparr>) ex_rconfig)) ''a'' = Some (PathStr ''x'') \<and>
   last (baseUrl (merge_config (empty_cfg\<lparr>c_baseUrl := Some ''lib''\<rparr>) ex_rconfig)) = CHR ''/''"
  using configure_additive [of "empty_cfg\<lparr>c_paths := Some [(''b'', PathStr ''y'')]\<rparr>" ex_rconfig "''a''"]
    configure_additive [of "empty_cfg\<lparr>c_baseUrl := Some ''lib''\<rparr>" ex_rconfig "''a''"]
  by (simp add: empty_cfg_def some_or_def ex_rconfig_def default_config_def)

text \<open>An anonymous \<open>define\<close> of a CommonJS factory finds its dependencies: every \<open>require('d')\<close> of the factory's
  source becomes a dependency, in the order of the text, after the CommonJS names that the arity asks for.\<close>

lemma define_finds_requires:
  assumes "list_all (\<lambda>(g, d). CHR ''r'' \<notin> set g \<and> dep_text d) ps" and "CHR ''r'' \<notin> set rest" and "n \<noteq> 0"
    and "CHR ''/'' \<notin> set (concat (map (\<lambda>(g, d). g @ require_call d) ps) @ rest)"
  shows "define_call None (ArgDefn (DFun n (concat (map (\<lambda>(g, d). g @ require_call d) ps) @ rest) fn)) ArgMissing ArgMissing =
    (None, (if n = 1 then [''require''] else [''require'', ''exports'', ''module'']) @ map snd ps,
     Some (DFun n (concat (map (\<lambda>(g, d). g @ require_call d) ps) @ rest) fn))"
  using assms scan_program [OF assms(1,2)] strip_no_comments [OF assms(4), of True]
  by (simp add: define_call_def cjs_deps_def truthy_str_def)

lemma define_finds_requires_example:
  "define_call None (ArgDefn (DFun 1 (''function (q) { use('' @ require_call ''util'' @ '') }'') () :: (unit, unit) defn)) ArgMissing ArgMissing =
    (None, [''require'', ''util''], Some (DFun 1 (''function (q) { use('' @ require_call ''util'' @ '') }'') ()))"
  using define_finds_requires [of "[(''function (q) { use('', ''util'')]" "'') }''" 1 "()"]
  by (simp add: dep_text_def is_quote_def is_js_space_def require_call_def)

text \<open>\<open>takeGlobalQueue\<close> keeps the order of the \<open>define\<close> calls exactly when one of the queues is empty: otherwise
  the queued calls overtake the last call that was already there.\<close>

lemma takeGlobalQueue_order:
  "takeGlobalQueue q g = (if g = [] then q else butlast q @ g @ (if q = [] then [] else [last q])) \<and>
   (distinct (q @ g) \<longrightarrow> (takeGlobalQueue q g = q @ g \<longleftrightarrow> q = [] \<or> g = []))"
proof
  show eq: "takeGlobalQueue q g = (if g = [] then q else butlast q @ g @ (if q = [] then [] else [last q]))"
  proof (cases q rule: rev_cases)
    case (snoc ys y)
    then show ?thesis by (simp add: takeGlobalQueue_def js_splice_def)
  qed (simp add: takeGlobalQueue_def js_splice_def)
  show "distinct (q @ g) \<longrightarrow> (takeGlobalQueue q g = q @ g \<longleftrightarrow> q = [] \<or> g = [])"
  proof
    assume d: "distinct (q @ g)"
    show "takeGlobalQueue q g = q @ g \<longleftrightarrow> q = [] \<or> g = []"
      unfolding eq using d by (cases q rule: rev_cases; cases g) auto
  qed
qed

lemma takeGlobalQueue_order_example: "takeGlobalQueue [1, 2 :: nat] [3, 4] \<noteq> [1, 2] @ [3, 4]"
  using takeGlobalQueue_order [of "[1, 2 :: nat]" "[3, 4]"] by simp

end
