(* ===== verification/Require_State.thy ===== *)
theory Require_State
  imports Require_Names
begin

text \<open>
  The state of a RequireJS context (\<open>newContext\<close> of \<open>js/require.js\<close>) and its elementary operations. Modules,
  their event objects and their listener arrays are JavaScript objects that closures keep alive after they left the
  registry, so they live in stores and are addressed by numbers. The closures that the loader registers as listeners
  are the constructors of \<open>listener\<close>.

  Computations are functions from a state to a result, an exception or a value, and a state; the combinators below
  are the sequencing, the exceptions and the loops of the script.
\<close>

subsection \<open>Values and code outside the loader\<close>

text \<open>
  Module values are opaque except for what the loader tests. A factory is a finite interaction: it calls \<open>require\<close> with
  a name or with dependencies, calls \<open>define\<close>, assigns \<open>module.exports\<close>, throws or returns. \<open>FLoadModule a p\<close> is the
  loader's own callback of a shimmed module: load module \<open>a\<close>, through its plugin when \<open>p\<close>.
\<close>

datatype rval = RUndef | RFalsy nat | RObj nat | RBool bool | RReq "(string \<times> string) option" | RMod nat

datatype rfact =
    FReturn rval
  | FThrow nat
  | FSetExports rval rfact
  | FRequire "(string \<times> string) option" string "rval \<Rightarrow> rfact"
  | FRequireDeps "(string \<times> string) option" "string list" "(rval list \<Rightarrow> rfact) option" "nat option" rfact
  | FDefine "string option \<times> string list \<times> (rval list \<Rightarrow> rfact, rval) defn option" rfact
  | FLoadModule nat bool

type_synonym factory = "(rval list \<Rightarrow> rfact, rval) defn option"
type_synonym define_entry = "(rval list \<Rightarrow> rfact, rval) queued"

text \<open>Exceptions: errors made by \<open>makeError\<close> (type and modules), exceptions of factories, failed method calls, and the
  end of the fuel.\<close>

datatype rerr = RErr string "string list" | RRaised nat | RTypeError | RFuel

datatype plugin_action = LoadValue rval | LoadError nat | LoadText string "define_entry list"

record rplugin =
  rp_normalize :: "((string \<Rightarrow> string) \<Rightarrow> string \<Rightarrow> string) option"
  rp_load :: "(string \<Rightarrow> plugin_action list) option"

text \<open>What the loader finds in the page: loader plugins by the object that implements them, the global variables that
  shims export, and the functions given as shim exports.\<close>

record page =
  pg_plugin :: "nat \<Rightarrow> rplugin option"
  pg_global :: "string \<Rightarrow> rval"
  pg_shim :: "nat \<Rightarrow> rval list \<Rightarrow> rfact"

fun rtruthy :: "rval \<Rightarrow> bool" where
  "rtruthy RUndef = False"
| "rtruthy (RFalsy _) = False"
| "rtruthy (RBool b) = b"
| "rtruthy _ = True"

definition plugin_of :: "page \<Rightarrow> rval \<Rightarrow> rplugin option" where
  "plugin_of pg v = (case v of RObj a \<Rightarrow> pg_plugin pg a | _ \<Rightarrow> None)"

subsection \<open>Module maps and modules\<close>

text \<open>\<open>mm_parent\<close> holds the name and the id of the parent's map, which is all that is read of it.\<close>

record mmap =
  mm_prefix :: "string option"
  mm_name :: string
  mm_parent :: "(string \<times> string) option"
  mm_unnormalized :: bool
  mm_url :: "string option"
  mm_isDefine :: bool
  mm_id :: string

definition map_ref :: "mmap \<Rightarrow> string \<times> string" where
  "map_ref m = (mm_name m, mm_id m)"

datatype dep = DName string | DMap mmap

datatype listener = LDep nat nat | LPlugin nat | LNormalized nat | LErr nat | LUser nat

text \<open>An event object: the addresses of its listener arrays.\<close>

record events =
  ev_defined :: "nat option"
  ev_error :: "nat option"

record rmod =
  m_events :: nat
  m_map :: mmap
  m_shim :: "shim option"
  m_depExports :: "rval list"
  m_depMaps :: "dep list"
  m_skipMap :: bool
  m_depMatched :: "nat list"
  m_pluginMaps :: "mmap obj"
  m_depCount :: int
  m_exports :: rval
  m_factory :: factory
  m_errback :: "listener option"
  m_module :: "rval option"
  m_error :: "rerr option"
  m_inited :: bool
  m_enabled :: bool
  m_enabling :: bool
  m_fetched :: bool
  m_defining :: bool
  m_defined :: bool
  m_defineEmitted :: bool
  m_defineEmitComplete :: bool
  m_ignore :: bool
  m_waitPushed :: bool
  m_usingExports :: bool

text \<open>
  The context. \<open>x_runs\<close> records the modules whose factory was called, with the arguments; \<open>x_errors\<close> the calls of error
  callbacks of the page. \<open>x_traced\<close> and \<open>x_uninited\<close> are the two objects that \<open>forceExec\<close> passes along.
\<close>

record rctx =
  x_config :: rconfig
  x_registry :: "nat obj"
  x_mods :: "rmod list"
  x_events :: "events list"
  x_lists :: "listener list list"
  x_undefEvents :: "nat obj"
  x_defQueue :: "define_entry list"
  x_globalQueue :: "define_entry list"
  x_defined :: "rval obj"
  x_urlFetched :: "unit obj"
  x_requireCounter :: nat
  x_unnormalizedCounter :: nat
  x_waitAry :: "nat list"
  x_waitCount :: int
  x_inCheckLoaded :: bool
  x_timeout :: bool
  x_scripts :: "(string \<times> string) list"
  x_startTime :: nat
  x_now :: nat
  x_fresh :: nat
  x_traced :: "nat obj"
  x_uninited :: "unit obj"
  x_runs :: "(nat \<times> rval list) list"
  x_errors :: "(nat \<times> rerr) list"

definition newContext :: rctx where
  "newContext = \<lparr>x_config = default_config, x_registry = [], x_mods = [], x_events = [], x_lists = [],
     x_undefEvents = [], x_defQueue = [], x_globalQueue = [], x_defined = [], x_urlFetched = [],
     x_requireCounter = 1, x_unnormalizedCounter = 1, x_waitAry = [], x_waitCount = 0, x_inCheckLoaded = False,
     x_timeout = False, x_scripts = [], x_startTime = 0, x_now = 0, x_fresh = 0, x_traced = [], x_uninited = [],
     x_runs = [], x_errors = []\<rparr>"

subsection \<open>Computations\<close>

type_synonym 'a comp = "rctx \<Rightarrow> (rerr + 'a) \<times> rctx"

definition ret :: "'a \<Rightarrow> 'a comp" where
  "ret v s = (Inr v, s)"

definition throw :: "rerr \<Rightarrow> 'a comp" where
  "throw e s = (Inl e, s)"

definition bindS :: "'a comp \<Rightarrow> ('a \<Rightarrow> 'b comp) \<Rightarrow> 'b comp" where
  "bindS c k s = (case c s of (Inl e, s') \<Rightarrow> (Inl e, s') | (Inr v, s') \<Rightarrow> k v s')"

definition getS :: "(rctx \<Rightarrow> 'a) \<Rightarrow> 'a comp" where
  "getS f s = (Inr (f s), s)"

definition modS :: "(rctx \<Rightarrow> rctx) \<Rightarrow> unit comp" where
  "modS f s = (Inr (), f s)"

definition doS :: "'a comp \<Rightarrow> unit comp" where
  "doS c = bindS c (\<lambda>_. ret ())"

primrec seqS :: "unit comp list \<Rightarrow> unit comp" where
  "seqS [] = ret ()"
| "seqS (c # cs) = bindS c (\<lambda>_. seqS cs)"

text \<open>\<open>forS f xs\<close> runs \<open>f\<close> on each element, \<open>foldS f\<close> also threads the local variables of the loop.\<close>

primrec forS :: "('a \<Rightarrow> unit comp) \<Rightarrow> 'a list \<Rightarrow> unit comp" where
  "forS f [] = ret ()"
| "forS f (x # xs) = bindS (f x) (\<lambda>_. forS f xs)"

primrec foldS :: "('b \<Rightarrow> 'a \<Rightarrow> 'b comp) \<Rightarrow> 'b \<Rightarrow> 'a list \<Rightarrow> 'b comp" where
  "foldS f acc [] = ret acc"
| "foldS f acc (x # xs) = bindS (f acc x) (\<lambda>acc'. foldS f acc' xs)"

text \<open>\<open>readS\<close> gives a computation the current state.\<close>

definition readS :: "(rctx \<Rightarrow> 'a comp) \<Rightarrow> 'a comp" where
  "readS f s = f s s"

text \<open>\<open>try { ... } catch (e) { ... }\<close>: the exception as a value. The end of the fuel is not an exception of the script.\<close>

definition tryS :: "'a comp \<Rightarrow> (rerr + 'a) comp" where
  "tryS c s = (case c s of (Inl RFuel, s') \<Rightarrow> (Inl RFuel, s') | (r, s') \<Rightarrow> (Inr r, s'))"

definition whenS :: "bool \<Rightarrow> unit comp \<Rightarrow> unit comp" where
  "whenS b c = (if b then c else ret ())"

subsection \<open>Stores\<close>

text \<open>The loader only holds addresses that \<open>new Module\<close> returned; the read of any other address is given a value, a
  module on which every operation is without effect.\<close>

definition inert :: rmod where
  "inert = \<lparr>m_events = 0, m_map = \<lparr>mm_prefix = None, mm_name = [], mm_parent = None, mm_unnormalized = False,
       mm_url = None, mm_isDefine = False, mm_id = []\<rparr>, m_shim = None,
     m_depExports = [], m_depMaps = [], m_skipMap = False, m_depMatched = [], m_pluginMaps = [], m_depCount = 0,
     m_exports = RUndef, m_factory = None, m_errback = None, m_module = None, m_error = None, m_inited = False,
     m_enabled = False, m_enabling = False, m_fetched = False, m_defining = False, m_defined = False,
     m_defineEmitted = False, m_defineEmitComplete = False, m_ignore = False, m_waitPushed = False,
     m_usingExports = False\<rparr>"

definition mod_at :: "nat \<Rightarrow> rctx \<Rightarrow> rmod" where
  "mod_at a s = (if a < length (x_mods s) then x_mods s ! a else inert)"

definition upd_mod :: "nat \<Rightarrow> (rmod \<Rightarrow> rmod) \<Rightarrow> rctx \<Rightarrow> rctx" where
  "upd_mod a f s = s\<lparr>x_mods := (x_mods s)[a := f (x_mods s ! a)]\<rparr>"

definition events_of :: "nat \<Rightarrow> rctx \<Rightarrow> events" where
  "events_of a s = x_events s ! m_events (mod_at a s)"

definition registered :: "string \<Rightarrow> rctx \<Rightarrow> nat option" where
  "registered i s = map_of (x_registry s) i"

definition def_value :: "string \<Rightarrow> rctx \<Rightarrow> rval" where
  "def_value i s = (case map_of (x_defined s) i of None \<Rightarrow> RUndef | Some v \<Rightarrow> v)"

text \<open>An array write \<open>xs[i] = v\<close>, which extends the array with holes (read as \<open>undefined\<close>).\<close>

definition arr_put :: "nat \<Rightarrow> rval \<Rightarrow> rval list \<Rightarrow> rval list" where
  "arr_put i v xs = (if i < length xs then xs[i := v] else xs @ replicate (i - length xs) RUndef @ [v])"

subsection \<open>Module maps\<close>

text \<open>\<open>makeModuleMap(name, parentModuleMap, isNormalized, applyMap)\<close>; a missing or empty name makes the internal name of a
  \<open>require\<close> call.\<close>

definition split_plugin :: "string \<Rightarrow> string option \<times> string" where
  "split_plugin name =
     (case index_of ''!'' name of
        None \<Rightarrow> (None, name)
      | Some i \<Rightarrow> (truthy_str (Some (take i name)), drop (i + 1) name))"

definition makeModuleMap ::
  "page \<Rightarrow> string option \<Rightarrow> (string \<times> string) option \<Rightarrow> bool \<Rightarrow> bool \<Rightarrow> mmap comp" where
  "makeModuleMap pg name0 parent isNormalized applyMap s =
     (let isDefine = (truthy_str name0 \<noteq> None);
          s1 = (if isDefine then s else s\<lparr>x_requireCounter := x_requireCounter s + 1\<rparr>);
          full = (case truthy_str name0 of Some n \<Rightarrow> n | None \<Rightarrow> ''_@r'' @ nat_str (x_requireCounter s1));
          (prefix0, name) = split_plugin full;
          c = x_config s;
          parentName = map_option fst parent;
          norm = (\<lambda>n. normalize c n parentName applyMap);
          prefix = map_option norm prefix0;
          pluginModule = (case prefix of None \<Rightarrow> RUndef | Some p \<Rightarrow> def_value p s);
          normalizedName =
            (if name = [] then []
             else (case (if prefix = None then None else Option.bind (plugin_of pg pluginModule) rp_normalize) of
                     Some f \<Rightarrow> f norm name
                   | None \<Rightarrow> norm name));
          url = (if name \<noteq> [] \<and> prefix = None then Some (nameToUrl c name None (map_option snd parent)) else None);
          stamp = (prefix \<noteq> None \<and> \<not> rtruthy pluginModule \<and> \<not> isNormalized);
          s2 = (if stamp then s1\<lparr>x_unnormalizedCounter := x_unnormalizedCounter s1 + 1\<rparr> else s1);
          suffix = (if stamp then ''_unnormalized'' @ nat_str (x_unnormalizedCounter s2) else [])
      in (Inr \<lparr>mm_prefix = prefix, mm_name = normalizedName, mm_parent = parent, mm_unnormalized = stamp,
               mm_url = url, mm_isDefine = isDefine,
               mm_id = (case prefix of None \<Rightarrow> normalizedName | Some p \<Rightarrow> p @ ''!'' @ normalizedName) @ suffix\<rparr>, s2))"

subsection \<open>Modules\<close>

text \<open>\<open>new Module(map)\<close>: a module for an id that was undefined gets the old event object back.\<close>

definition fresh_module :: "rctx \<Rightarrow> mmap \<Rightarrow> nat \<Rightarrow> rmod" where
  "fresh_module s mp ev =
     inert\<lparr>m_events := ev, m_map := mp, m_shim := map_of (shims (x_config s)) (mm_id mp)\<rparr>"

definition new_module :: "mmap \<Rightarrow> nat comp" where
  "new_module mp s =
     (let a = length (x_mods s)
      in case map_of (x_undefEvents s) (mm_id mp) of
           Some ev \<Rightarrow> (Inr a, s\<lparr>x_mods := x_mods s @ [fresh_module s mp ev]\<rparr>)
         | None \<Rightarrow>
             (Inr a, s\<lparr>x_mods := x_mods s @ [fresh_module s mp (length (x_events s))],
                       x_events := x_events s @ [\<lparr>ev_defined = None, ev_error = None\<rparr>]\<rparr>))"

definition getModule :: "mmap \<Rightarrow> nat comp" where
  "getModule mp =
     bindS (getS (registered (mm_id mp)))
       (\<lambda>r. case r of
          Some a \<Rightarrow> ret a
        | None \<Rightarrow>
            bindS (new_module mp)
              (\<lambda>a. bindS (modS (\<lambda>s. s\<lparr>x_registry := AList.update (mm_id mp) a (x_registry s)\<rparr>)) (\<lambda>_. ret a)))"

datatype event_name = Defined | Error

fun ev_get :: "event_name \<Rightarrow> events \<Rightarrow> nat option" where
  "ev_get Defined e = ev_defined e"
| "ev_get Error e = ev_error e"

fun ev_put :: "event_name \<Rightarrow> nat option \<Rightarrow> events \<Rightarrow> events" where
  "ev_put Defined r e = e\<lparr>ev_defined := r\<rparr>"
| "ev_put Error r e = e\<lparr>ev_error := r\<rparr>"

definition set_events :: "nat \<Rightarrow> event_name \<Rightarrow> nat option \<Rightarrow> rctx \<Rightarrow> rctx" where
  "set_events ev n r s = s\<lparr>x_events := (x_events s)[ev := ev_put n r (x_events s ! ev)]\<rparr>"

text \<open>\<open>Module.prototype.on\<close>.\<close>

definition mod_on :: "nat \<Rightarrow> event_name \<Rightarrow> listener \<Rightarrow> unit comp" where
  "mod_on a n cb =
     bindS (getS (\<lambda>s. ev_get n (events_of a s)))
       (\<lambda>r. case r of
          Some l \<Rightarrow> modS (\<lambda>s. s\<lparr>x_lists := (x_lists s)[l := x_lists s ! l @ [cb]]\<rparr>)
        | None \<Rightarrow>
            modS (\<lambda>s. (set_events (m_events (mod_at a s)) n (Some (length (x_lists s))) s)
                       \<lparr>x_lists := x_lists s @ [[cb]]\<rparr>))"

text \<open>\<open>defineDep\<close> and \<open>defineDepById\<close>. The id that \<open>forceExec\<close> passes to the latter is
  taken from the same array, so the search succeeds; \<open>defineDep(undefined, v)\<close> would still count a dependency as matched.\<close>

definition defineDep :: "nat \<Rightarrow> nat \<Rightarrow> rval \<Rightarrow> unit comp" where
  "defineDep a i v =
     modS (upd_mod a (\<lambda>m.
       if i \<in> set (m_depMatched m) then m
       else m\<lparr>m_depMatched := i # m_depMatched m, m_depCount := m_depCount m - 1,
              m_depExports := arr_put i v (m_depExports m)\<rparr>))"

fun dep_index :: "string \<Rightarrow> dep list \<Rightarrow> nat option" where
  "dep_index i [] = None"
| "dep_index i (DMap mp # ds) = (if mm_id mp = i then Some 0 else map_option Suc (dep_index i ds))"
| "dep_index i (DName _ # ds) = map_option Suc (dep_index i ds)"

definition defineDepById :: "nat \<Rightarrow> string \<Rightarrow> rval \<Rightarrow> unit comp" where
  "defineDepById a i v =
     bindS (getS (\<lambda>s. dep_index i (m_depMaps (mod_at a s))))
       (\<lambda>r. case r of Some k \<Rightarrow> defineDep a k v
           | None \<Rightarrow> modS (upd_mod a (\<lambda>m. m\<lparr>m_depCount := m_depCount m - 1\<rparr>)))"

text \<open>\<open>removeWaiting(id)\<close>.\<close>

definition removeWaiting :: "string \<Rightarrow> rctx \<Rightarrow> rctx" where
  "removeWaiting i s =
     (let s1 = s\<lparr>x_registry := AList.delete i (x_registry s)\<rparr>
      in case List.find (\<lambda>a. mm_id (m_map (mod_at a s1)) = i) (x_waitAry s1) of
           None \<Rightarrow> s1
         | Some a \<Rightarrow>
             s1\<lparr>x_waitAry := remove1 a (x_waitAry s1),
                x_waitCount := x_waitCount s1 - (if m_defined (mod_at a s1) then 0 else 1)\<rparr>)"

text \<open>\<open>removeScript(name)\<close> and the script node that \<open>req.load\<close> appends.\<close>

fun remove_first :: "('a \<Rightarrow> bool) \<Rightarrow> 'a list \<Rightarrow> 'a list" where
  "remove_first p [] = []"
| "remove_first p (x # xs) = (if p x then xs else x # remove_first p xs)"

definition removeScript :: "string \<Rightarrow> rctx \<Rightarrow> rctx" where
  "removeScript i s = s\<lparr>x_scripts := remove_first (\<lambda>(j, _). j = i) (x_scripts s)\<rparr>"

definition add_script :: "string \<Rightarrow> string \<Rightarrow> rctx \<Rightarrow> rctx" where
  "add_script i url s = s\<lparr>x_scripts := x_scripts s @ [(i, url)]\<rparr>"

text \<open>\<open>Module.prototype.load\<close>: a URL is requested once.\<close>

definition url_key :: "string option \<Rightarrow> string" where
  "url_key u = (case u of None \<Rightarrow> ''undefined'' | Some v \<Rightarrow> v)"

definition mod_load :: "nat \<Rightarrow> rctx \<Rightarrow> rctx" where
  "mod_load a s =
     (let mp = m_map (mod_at a s); url = url_key (mm_url mp)
      in if own_prop (x_urlFetched s) url then s
         else add_script (mm_id mp) url (s\<lparr>x_urlFetched := AList.update url () (x_urlFetched s)\<rparr>))"

text \<open>\<open>undef(id)\<close>.\<close>

definition undef_module :: "page \<Rightarrow> string \<Rightarrow> unit comp" where
  "undef_module pg i =
     bindS (makeModuleMap pg (Some i) None True False)
       (\<lambda>mp. modS (\<lambda>s.
          (let s1 = s\<lparr>x_defined := AList.delete i (x_defined s),
                      x_urlFetched := AList.delete (url_key (mm_url mp)) (x_urlFetched s),
                      x_undefEvents := AList.delete i (x_undefEvents s)\<rparr>
           in case registered i s of
                None \<Rightarrow> s1
              | Some a \<Rightarrow>
                  removeWaiting i
                    (if ev_defined (events_of a s1) \<noteq> None
                     then s1\<lparr>x_undefEvents := AList.update i (m_events (mod_at a s1)) (x_undefEvents s1)\<rparr>
                     else s1))))"

subsection \<open>Cycles\<close>

definition handlers :: "string list" where
  "handlers = [''require'', ''exports'', ''module'']"

text \<open>
  \<open>findCycle(mod, traced)\<close>. Every level adds the module's id to \<open>traced\<close>, so the recursion is no deeper than there
  are modules in the registry; \<open>fuel\<close> counts the levels.
\<close>

fun findCycle :: "nat \<Rightarrow> rctx \<Rightarrow> nat \<Rightarrow> string list \<Rightarrow> nat option"
  and findCycle_deps :: "nat \<Rightarrow> rctx \<Rightarrow> dep list \<Rightarrow> string list \<Rightarrow> nat option" where
  "findCycle 0 s a traced = None"
| "findCycle (Suc fuel) s a traced =
     (let m = mod_at a s; i = mm_id (m_map m)
      in if \<not> m_inited m then None
         else if i \<in> set traced then Some a
         else findCycle_deps fuel s (m_depMaps m) (i # traced))"
| "findCycle_deps fuel s [] traced = None"
| "findCycle_deps fuel s (DName _ # ds) traced = findCycle_deps fuel s ds traced"
| "findCycle_deps fuel s (DMap mp # ds) traced =
     (case registered (mm_id mp) s of
        None \<Rightarrow> findCycle_deps fuel s ds traced
      | Some b \<Rightarrow>
          if \<not> m_inited (mod_at b s) \<or> \<not> m_enabled (mod_at b s) then None
          else (case findCycle fuel s b traced of
                  Some c \<Rightarrow> Some c
                | None \<Rightarrow> findCycle_deps fuel s ds traced))"

definition cycle_fuel :: "rctx \<Rightarrow> nat" where
  "cycle_fuel s = length (x_registry s) + 3"

end
