(* ===== verification/Require_Loader.thy ===== *)
theory Require_Loader
  imports Require_State
begin

text \<open>
  The execution of modules in a RequireJS context: \<open>Module.prototype\<close> (\<open>init\<close>, \<open>fetch\<close>, \<open>check\<close>, \<open>callPlugin\<close>,
  \<open>enable\<close>, \<open>emit\<close>), the context's \<open>on\<close>, \<open>onError\<close>, \<open>checkLoaded\<close>, \<open>forceExec\<close>, \<open>require\<close>, \<open>completeLoad\<close> and
  \<open>configure\<close>, and the events of the page.

  These functions call each other in every direction, through listeners and factories too. Each is a definition that
  takes the other functions as the argument \<open>rec\<close>; \<open>call\<close> names a function with its arguments, and \<open>run\<close> ties the knot
  with a fuel that bounds the nesting of calls.
\<close>

datatype emission = EVal rval | EErr rerr

datatype call =
    KCheck nat bool
  | KEnable nat
  | KInit nat "string list" bool factory "listener option" bool bool
  | KEmit nat event_name emission
  | KEmitFrom nat nat emission
  | KFire listener emission
  | KFetch nat
  | KCallPlugin nat
  | KRequireName string "(string \<times> string) option"
  | KRequire "string list" bool factory "listener option" "(string \<times> string) option"
  | KIntake
  | KLoadQueue string bool
  | KCompleteLoad string
  | KCheckLoaded
  | KWaits nat
  | KForceExec nat

type_synonym caller = "call \<Rightarrow> rval comp"

subsection \<open>Events\<close>

text \<open>\<open>on(depMap, name, fn)\<close>: at once when the value is there and its listeners have been told, else by the module.\<close>

definition on_dep :: "caller \<Rightarrow> mmap \<Rightarrow> event_name \<Rightarrow> listener \<Rightarrow> unit comp" where
  "on_dep rec mp n cb =
     readS (\<lambda>s.
       if own_prop (x_defined s) (mm_id mp) \<and>
          (case registered (mm_id mp) s of None \<Rightarrow> True | Some a \<Rightarrow> m_defineEmitComplete (mod_at a s))
       then whenS (n = Defined) (doS (rec (KFire cb (EVal (def_value (mm_id mp) s)))))
       else bindS (getModule mp) (\<lambda>a. mod_on a n cb))"

text \<open>\<open>emit\<close> walks the listener array by index, so that it reaches listeners added on the way.\<close>

definition emit_from :: "caller \<Rightarrow> nat \<Rightarrow> nat \<Rightarrow> emission \<Rightarrow> unit comp" where
  "emit_from rec l i e =
     readS (\<lambda>s.
       if i < length (x_lists s ! l)
       then seqS [doS (rec (KFire (x_lists s ! l ! i) e)), doS (rec (KEmitFrom l (i + 1) e))]
       else ret ())"

definition mod_emit :: "caller \<Rightarrow> nat \<Rightarrow> event_name \<Rightarrow> emission \<Rightarrow> unit comp" where
  "mod_emit rec a n e =
     seqS [readS (\<lambda>s. case ev_get n (events_of a s) of None \<Rightarrow> ret () | Some l \<Rightarrow> doS (rec (KEmitFrom l 0 e))),
           whenS (n = Error) (modS (\<lambda>s. set_events (m_events (mod_at a s)) Error None s))]"

fun err_modules :: "rerr \<Rightarrow> string list" where
  "err_modules (RErr _ ids) = ids"
| "err_modules _ = []"

text \<open>The loop of \<open>onError\<close> over the modules of an error; the result says whether a listener was notified.\<close>

definition notify_module :: "caller \<Rightarrow> rerr \<Rightarrow> bool \<Rightarrow> string \<Rightarrow> bool comp" where
  "notify_module rec err notified i =
     readS (\<lambda>s.
       case (if i = [] then None else registered i s) of
         None \<Rightarrow> ret notified
       | Some a \<Rightarrow>
           bindS (modS (upd_mod a (\<lambda>m. m\<lparr>m_error := Some err\<rparr>)))
             (\<lambda>_. if ev_error (events_of a s) \<noteq> None
                  then bindS (rec (KEmit a Error (EErr err))) (\<lambda>_. ret True) else ret notified))"

definition onError :: "caller \<Rightarrow> rerr \<Rightarrow> listener option \<Rightarrow> unit comp" where
  "onError rec err errback =
     (case errback of
        Some cb \<Rightarrow> doS (rec (KFire cb (EErr err)))
      | None \<Rightarrow>
          bindS (foldS (notify_module rec err) False (err_modules err))
            (\<lambda>notified. if notified then ret () else throw err))"

subsection \<open>Factories\<close>

primrec run_fact :: "caller \<Rightarrow> nat \<Rightarrow> rfact \<Rightarrow> rval comp" where
  "run_fact rec a (FReturn v) = ret v"
| "run_fact rec a (FThrow n) = throw (RRaised n)"
| "run_fact rec a (FSetExports v k) =
     bindS (modS (upd_mod a (\<lambda>m. m\<lparr>m_module := map_option (\<lambda>_. v) (m_module m)\<rparr>))) (\<lambda>_. run_fact rec a k)"
| "run_fact rec a (FRequire rel name k) = bindS (rec (KRequireName name rel)) (\<lambda>v. run_fact rec a (k v))"
| "run_fact rec a (FRequireDeps rel deps cb errb k) =
     bindS (rec (KRequire deps False (map_option (DFun 0 []) cb) (map_option LUser errb) rel)) (\<lambda>_. run_fact rec a k)"
| "run_fact rec a (FDefine q k) =
     bindS (modS (\<lambda>s. s\<lparr>x_globalQueue := x_globalQueue s @ [q]\<rparr>)) (\<lambda>_. run_fact rec a k)"
| "run_fact rec a (FLoadModule b p) =
     (if p then rec (KCallPlugin b) else bindS (modS (mod_load b)) (\<lambda>_. ret RUndef))"

text \<open>\<open>handlers\<close>: the values of the dependencies \<open>require\<close>, \<open>exports\<close> and \<open>module\<close>.\<close>

definition run_handler :: "string \<Rightarrow> nat \<Rightarrow> rval comp" where
  "run_handler i a =
     readS (\<lambda>s.
       let m = mod_at a s; mi = mm_id (m_map m)
       in if i = ''require'' then ret (RReq (Some (map_ref (m_map m))))
          else if i = ''exports'' then
            bindS (modS (upd_mod a (\<lambda>m. m\<lparr>m_usingExports := True\<rparr>)))
              (\<lambda>_. if mm_isDefine (m_map m)
                   then bindS (modS (\<lambda>s. upd_mod a (\<lambda>m. m\<lparr>m_exports := RObj (x_fresh s)\<rparr>)
                          (s\<lparr>x_defined := AList.update mi (RObj (x_fresh s)) (x_defined s), x_fresh := x_fresh s + 1\<rparr>)))
                          (\<lambda>_. ret (RObj (x_fresh s)))
                   else ret RUndef)
          else bindS (modS (upd_mod a (\<lambda>m. m\<lparr>m_module := Some (def_value mi s)\<rparr>))) (\<lambda>_. ret (RMod a)))"

subsection \<open>Module.prototype.check\<close>

text \<open>The value of a module after its factory ran: \<open>module.exports\<close>, the returned value, or the \<open>exports\<close> object.\<close>

definition pick_exports :: "rmod \<Rightarrow> rval \<Rightarrow> rval" where
  "pick_exports m v =
     (if mm_isDefine (m_map m) then
        (case m_module m of
           Some ex \<Rightarrow> if ex \<noteq> RUndef \<and> ex \<noteq> m_exports m then ex
                      else if v = RUndef \<and> m_usingExports m then m_exports m else v
         | None \<Rightarrow> if v = RUndef \<and> m_usingExports m then m_exports m else v)
      else v)"

text \<open>\<open>Some v\<close> is the new value of \<open>exports\<close>; \<open>None\<close> is the early return after an error of the factory.\<close>

definition exec_factory :: "caller \<Rightarrow> nat \<Rightarrow> string \<Rightarrow> rval option comp" where
  "exec_factory rec a i =
     readS (\<lambda>s.
       let m = mod_at a s
       in case m_factory m of
            Some (DFun _ _ f) \<Rightarrow>
              bindS (modS (\<lambda>s. s\<lparr>x_runs := x_runs s @ [(a, m_depExports m)]\<rparr>)) (\<lambda>_.
              bindS (if ev_error (events_of a s) \<noteq> None then tryS (run_fact rec a (f (m_depExports m)))
                     else bindS (run_fact rec a (f (m_depExports m))) (\<lambda>v. ret (Inr v)))
                (\<lambda>r. case r of
                   Inr v \<Rightarrow> getS (\<lambda>s. Some (pick_exports (mod_at a s) v))
                 | Inl _ \<Rightarrow>
                     bindS (seqS [modS (upd_mod a (\<lambda>m. m\<lparr>m_error := Some (RErr ''define'' [i])\<rparr>)),
                           onError rec (RErr ''define'' [i]) None]) (\<lambda>_. ret None)))
          | Some (DValue v) \<Rightarrow> ret (Some v)
          | None \<Rightarrow> ret (Some RUndef))"

text \<open>The defining stage of \<open>check\<close>; the result says whether to go on.\<close>

definition store_module :: "nat \<Rightarrow> string \<Rightarrow> rval \<Rightarrow> rctx \<Rightarrow> rctx" where
  "store_module a i v s =
     (let m = mod_at a s;
          s1 = upd_mod a (\<lambda>m. m\<lparr>m_exports := v, m_defined := True\<rparr>) s;
          s2 = (if mm_isDefine (m_map m) \<and> \<not> m_ignore m then s1\<lparr>x_defined := AList.update i v (x_defined s1)\<rparr> else s1);
          n = x_waitCount s2 - 1
      in s2\<lparr>x_registry := AList.delete i (x_registry s2), x_waitCount := n,
            x_waitAry := (if n = 0 then [] else x_waitAry s2)\<rparr>)"

definition define_module :: "caller \<Rightarrow> nat \<Rightarrow> string \<Rightarrow> bool comp" where
  "define_module rec a i =
     bindS (exec_factory rec a i)
       (\<lambda>r. case r of
          None \<Rightarrow> ret False
        | Some v \<Rightarrow> bindS (modS (store_module a i v)) (\<lambda>_. ret True))"

definition emit_defined :: "caller \<Rightarrow> nat \<Rightarrow> unit comp" where
  "emit_defined rec a =
     readS (\<lambda>s.
       if m_defined (mod_at a s) \<and> \<not> m_defineEmitted (mod_at a s)
       then seqS [modS (upd_mod a (\<lambda>m. m\<lparr>m_defineEmitted := True\<rparr>)),
                  doS (rec (KEmit a Defined (EVal (m_exports (mod_at a s))))),
                  modS (upd_mod a (\<lambda>m. m\<lparr>m_defineEmitComplete := True\<rparr>))]
       else ret ())"

definition mod_check :: "caller \<Rightarrow> nat \<Rightarrow> bool \<Rightarrow> unit comp" where
  "mod_check rec a silent =
     readS (\<lambda>s.
       let m = mod_at a s
       in if \<not> m_enabled m \<or> m_enabling m then ret ()
          else if \<not> m_inited m then doS (rec (KFetch a))
          else case m_error m of
            Some e \<Rightarrow> doS (rec (KEmit a Error (EErr e)))
          | None \<Rightarrow>
              if m_defining m then ret ()
              else bindS (modS (upd_mod a (\<lambda>m. m\<lparr>m_defining := True\<rparr>))) (\<lambda>_.
                   bindS (if m_depCount m < 1 \<and> \<not> m_defined m then define_module rec a (mm_id (m_map m)) else ret True)
                     (\<lambda>go. whenS go
                        (seqS [modS (upd_mod a (\<lambda>m. m\<lparr>m_defining := False\<rparr>)),
                               whenS (\<not> silent) (emit_defined rec a)]))))"

subsection \<open>Fetching\<close>

definition mod_fetch :: "caller \<Rightarrow> nat \<Rightarrow> unit comp" where
  "mod_fetch rec a =
     readS (\<lambda>s.
       let m = mod_at a s; p = (mm_prefix (m_map m) \<noteq> None)
       in if m_fetched m then ret ()
          else seqS [modS (upd_mod a (\<lambda>m. m\<lparr>m_fetched := True\<rparr>)),
                     modS (\<lambda>s. s\<lparr>x_startTime := x_now s\<rparr>),
                     (case m_shim m of
                        Some sh \<Rightarrow>
                          doS (rec (KRequire (some_or (sh_deps sh) []) False
                            (Some (DFun 0 [] (\<lambda>_. FLoadModule a p))) None (Some (map_ref (m_map m)))))
                      | None \<Rightarrow> if p then doS (rec (KCallPlugin a)) else modS (mod_load a))])"

definition enable_dep_module :: "caller \<Rightarrow> mmap \<Rightarrow> unit comp" where
  "enable_dep_module rec mp =
     readS (\<lambda>s. case registered (mm_id mp) s of None \<Rightarrow> ret () | Some b \<Rightarrow> doS (rec (KEnable b)))"

definition mod_callPlugin :: "page \<Rightarrow> caller \<Rightarrow> nat \<Rightarrow> unit comp" where
  "mod_callPlugin pg rec a =
     bindS (getS (\<lambda>s. mm_prefix (m_map (mod_at a s)))) (\<lambda>prefix.
     bindS (makeModuleMap pg prefix None False True) (\<lambda>pluginMap.
       seqS [on_dep rec pluginMap Defined (LPlugin a),
             enable_dep_module rec pluginMap,
             modS (upd_mod a (\<lambda>m. m\<lparr>m_pluginMaps := AList.update (mm_id pluginMap) pluginMap (m_pluginMaps m)\<rparr>))]))"

definition const_factory :: "rval \<Rightarrow> factory" where
  "const_factory v = Some (DFun 0 [] (\<lambda>_. FReturn v))"

text \<open>The callbacks that a plugin's \<open>load\<close> gets: \<open>load\<close>, \<open>load.error\<close> and \<open>load.fromText\<close>.\<close>

definition drop_unnormalized :: "string \<Rightarrow> rctx \<Rightarrow> rctx" where
  "drop_unnormalized i s =
     fold (\<lambda>(k, a) s. if is_prefix_of (i @ ''_unnormalized'') (mm_id (m_map (mod_at a s)))
                      then removeWaiting (mm_id (m_map (mod_at a s))) s else s) (x_registry s) s"

definition plugin_action :: "page \<Rightarrow> caller \<Rightarrow> nat \<Rightarrow> string \<Rightarrow> plugin_action \<Rightarrow> unit comp" where
  "plugin_action pg rec a i act =
     (case act of
        LoadValue v \<Rightarrow> doS (rec (KInit a [] False (const_factory v) None True False))
      | LoadError n \<Rightarrow>
          seqS [modS (upd_mod a (\<lambda>m. m\<lparr>m_inited := True, m_error := Some (RErr ''load'' [i])\<rparr>)),
                modS (drop_unnormalized i),
                onError rec (RErr ''load'' [i]) None]
      | LoadText n ds \<Rightarrow>
          seqS [doS (bindS (makeModuleMap pg (Some n) None False False) getModule),
                modS (\<lambda>s. s\<lparr>x_globalQueue := x_globalQueue s @ ds\<rparr>),
                doS (rec (KCompleteLoad n))])"

text \<open>The plugin is defined: an unnormalized resource waits for the normalized one, any other is loaded by the plugin.\<close>

definition plugin_normalized :: "page \<Rightarrow> caller \<Rightarrow> nat \<Rightarrow> rval \<Rightarrow> unit comp" where
  "plugin_normalized pg rec a plugin =
     readS (\<lambda>s.
       let mp = m_map (mod_at a s);
           norm = (\<lambda>n. normalize (x_config s) n (map_option fst (mm_parent mp)) True);
           name = (case Option.bind (plugin_of pg plugin) rp_normalize of
                     Some f \<Rightarrow> f norm (mm_name mp) | None \<Rightarrow> mm_name mp)
       in bindS (makeModuleMap pg (Some (some_or (mm_prefix mp) ''null'' @ ''!'' @ name)) (mm_parent mp) False True)
            (\<lambda>nm. seqS [on_dep rec nm Defined (LNormalized a),
               readS (\<lambda>s. case registered (mm_id nm) s of
                   None \<Rightarrow> ret ()
                 | Some b \<Rightarrow>
                     seqS [whenS (ev_error (events_of a s) \<noteq> None) (mod_on b Error (LErr a)), doS (rec (KEnable b))])]))"

definition plugin_defined :: "page \<Rightarrow> caller \<Rightarrow> nat \<Rightarrow> rval \<Rightarrow> unit comp" where
  "plugin_defined pg rec a plugin =
     readS (\<lambda>s.
       let mp = m_map (mod_at a s)
       in if plugin = RUndef then throw RTypeError
          else if mm_unnormalized mp then plugin_normalized pg rec a plugin
          else case Option.bind (plugin_of pg plugin) rp_load of
            None \<Rightarrow> throw RTypeError
          | Some load \<Rightarrow> forS (plugin_action pg rec a (mm_id mp)) (load (mm_name mp)))"

text \<open>What the closures registered as listeners do.\<close>

definition fire :: "page \<Rightarrow> caller \<Rightarrow> listener \<Rightarrow> emission \<Rightarrow> unit comp" where
  "fire pg rec cb e =
     (case (cb, e) of
        (LDep a i, EVal v) \<Rightarrow> bindS (defineDep a i v) (\<lambda>_. doS (rec (KCheck a False)))
      | (LPlugin a, EVal v) \<Rightarrow> plugin_defined pg rec a v
      | (LNormalized a, EVal v) \<Rightarrow> doS (rec (KInit a [] False (const_factory v) None True True))
      | (LErr a, EErr x) \<Rightarrow> doS (rec (KEmit a Error (EErr x)))
      | (LUser n, EErr x) \<Rightarrow> modS (\<lambda>s. s\<lparr>x_errors := x_errors s @ [(n, x)]\<rparr>)
      | _ \<Rightarrow> ret ())"

subsection \<open>Module.prototype.enable and init\<close>

definition enable_new :: "caller \<Rightarrow> mmap \<Rightarrow> unit comp" where
  "enable_new rec mp =
     readS (\<lambda>s.
       case registered (mm_id mp) s of
         None \<Rightarrow> ret ()
       | Some b \<Rightarrow> whenS (mm_id mp \<notin> set handlers \<and> \<not> m_enabled (mod_at b s)) (doS (rec (KEnable b))))"

definition enable_dep :: "page \<Rightarrow> caller \<Rightarrow> nat \<Rightarrow> nat \<Rightarrow> unit comp" where
  "enable_dep pg rec a i =
     readS (\<lambda>s.
       let m = mod_at a s
       in case m_depMaps m ! i of
            DMap mp \<Rightarrow> enable_new rec mp
          | DName n \<Rightarrow>
              if n = [] then ret ()
              else bindS (makeModuleMap pg (Some n)
                       (if mm_isDefine (m_map m) then Some (map_ref (m_map m)) else mm_parent (m_map m))
                       False (\<not> m_skipMap m))
                (\<lambda>mp. bindS (modS (upd_mod a (\<lambda>m. m\<lparr>m_depMaps := (m_depMaps m)[i := DMap mp]\<rparr>))) (\<lambda>_.
                   if mm_id mp \<in> set handlers
                   then bindS (run_handler (mm_id mp) a)
                          (\<lambda>v. modS (upd_mod a (\<lambda>m. m\<lparr>m_depExports := arr_put i v (m_depExports m)\<rparr>)))
                   else seqS [modS (upd_mod a (\<lambda>m. m\<lparr>m_depCount := m_depCount m + 1\<rparr>)),
                              on_dep rec mp Defined (LDep a i),
                              (case m_errback m of None \<Rightarrow> ret () | Some cb \<Rightarrow> on_dep rec mp Error cb),
                              enable_new rec mp])))"

definition enable_plugin :: "caller \<Rightarrow> string \<times> mmap \<Rightarrow> unit comp" where
  "enable_plugin rec km =
     readS (\<lambda>s.
       case registered (mm_id (snd km)) s of
         None \<Rightarrow> ret ()
       | Some b \<Rightarrow> whenS (\<not> m_enabled (mod_at b s)) (doS (rec (KEnable b))))"

definition mod_enable :: "page \<Rightarrow> caller \<Rightarrow> nat \<Rightarrow> unit comp" where
  "mod_enable pg rec a =
     seqS [modS (upd_mod a (\<lambda>m. m\<lparr>m_enabled := True\<rparr>)),
           readS (\<lambda>s. whenS (\<not> m_waitPushed (mod_at a s))
             (modS (\<lambda>s. upd_mod a (\<lambda>m. m\<lparr>m_waitPushed := True\<rparr>)
                (s\<lparr>x_waitAry := x_waitAry s @ [a], x_waitCount := x_waitCount s + 1\<rparr>)))),
           modS (upd_mod a (\<lambda>m. m\<lparr>m_enabling := True\<rparr>)),
           readS (\<lambda>s. forS (enable_dep pg rec a) [0..<length (m_depMaps (mod_at a s))]),
           readS (\<lambda>s. forS (enable_plugin rec) (m_pluginMaps (mod_at a s))),
           modS (upd_mod a (\<lambda>m. m\<lparr>m_enabling := False\<rparr>)),
           doS (rec (KCheck a False))]"

definition mod_init ::
  "caller \<Rightarrow> nat \<Rightarrow> string list \<Rightarrow> bool \<Rightarrow> factory \<Rightarrow> listener option \<Rightarrow> bool \<Rightarrow> bool \<Rightarrow> unit comp" where
  "mod_init rec a deps skipMap fac errback enabled ignore =
     readS (\<lambda>s.
       if m_inited (mod_at a s) then ret ()
       else seqS [
         (case errback of Some cb \<Rightarrow> mod_on a Error cb | None \<Rightarrow> ret ()),
         modS (upd_mod a (\<lambda>m. m\<lparr>m_factory := fac, m_depMaps := map DName deps, m_skipMap := skipMap,
           m_errback := (case errback of Some cb \<Rightarrow> Some cb
             | None \<Rightarrow> if ev_error (events_of a s) \<noteq> None then Some (LErr a) else None),
           m_inited := True, m_ignore := ignore\<rparr>)),
         doS (rec (if enabled \<or> m_enabled (mod_at a s) then KEnable a else KCheck a False))])"

subsection \<open>The context\<close>

definition callGetModule :: "page \<Rightarrow> caller \<Rightarrow> string \<Rightarrow> string list \<Rightarrow> factory \<Rightarrow> unit comp" where
  "callGetModule pg rec name deps fac =
     bindS (makeModuleMap pg (Some name) None True False) (\<lambda>mp.
     bindS (getModule mp) (\<lambda>a. doS (rec (KInit a deps False fac None False False))))"

definition take_queue :: "rctx \<Rightarrow> rctx" where
  "take_queue s = s\<lparr>x_defQueue := takeGlobalQueue (x_defQueue s) (x_globalQueue s), x_globalQueue := []\<rparr>"

definition shift_queue :: "rctx \<Rightarrow> rctx" where
  "shift_queue s = s\<lparr>x_defQueue := tl (x_defQueue s)\<rparr>"

text \<open>The loop of \<open>require\<close> over the queued definitions; an anonymous one is an error there.\<close>

definition intake :: "page \<Rightarrow> caller \<Rightarrow> unit comp" where
  "intake pg rec =
     readS (\<lambda>s.
       case x_defQueue s of
         [] \<Rightarrow> ret ()
       | (name, deps, fac) # _ \<Rightarrow>
           bindS (modS shift_queue) (\<lambda>_.
             case name of
               None \<Rightarrow> onError rec (RErr ''mismatch'' []) None
             | Some n \<Rightarrow> seqS [callGetModule pg rec n deps fac, doS (rec KIntake)]))"

definition require_deps ::
  "page \<Rightarrow> caller \<Rightarrow> string list \<Rightarrow> bool \<Rightarrow> factory \<Rightarrow> listener option \<Rightarrow> (string \<times> string) option \<Rightarrow> unit comp" where
  "require_deps pg rec deps skipMap fac errback rel =
     seqS [modS take_queue,
           doS (rec KIntake),
           bindS (makeModuleMap pg None rel False False) (\<lambda>mp.
           bindS (getModule mp) (\<lambda>a. doS (rec (KInit a deps skipMap fac errback True False)))),
           doS (rec KCheckLoaded)]"

text \<open>\<open>require(name)\<close> with a string.\<close>

definition require_name :: "page \<Rightarrow> caller \<Rightarrow> string \<Rightarrow> (string \<times> string) option \<Rightarrow> rval comp" where
  "require_name pg rec name rel =
     bindS (makeModuleMap pg (Some name) rel False True) (\<lambda>mp.
     readS (\<lambda>s.
       case map_of (x_defined s) (mm_id mp) of
         Some v \<Rightarrow> ret v
       | None \<Rightarrow> bindS (onError rec (RErr ''notloaded'' []) None) (\<lambda>_. ret RUndef)))"

definition requireDefined :: "page \<Rightarrow> string \<Rightarrow> (string \<times> string) option \<Rightarrow> bool comp" where
  "requireDefined pg name rel =
     bindS (makeModuleMap pg (Some name) rel False True) (\<lambda>mp. getS (\<lambda>s. own_prop (x_defined s) (mm_id mp)))"

definition requireSpecified :: "page \<Rightarrow> string \<Rightarrow> (string \<times> string) option \<Rightarrow> bool comp" where
  "requireSpecified pg name rel =
     bindS (makeModuleMap pg (Some name) rel False True)
       (\<lambda>mp. getS (\<lambda>s. own_prop (x_defined s) (mm_id mp) \<or> own_prop (x_registry s) (mm_id mp)))"

text \<open>A failed script is retried with the next entry of its path array.\<close>

definition shift_path :: "string \<Rightarrow> rctx \<Rightarrow> rctx" where
  "shift_path i s =
     (let c = x_config s
      in case map_of (paths c) i of
           Some (PathArr (p # ps)) \<Rightarrow> s\<lparr>x_config := c\<lparr>paths := AList.update i (PathArr ps) (paths c)\<rparr>\<rparr>
         | _ \<Rightarrow> s)"

definition hasPathFallback :: "page \<Rightarrow> caller \<Rightarrow> string \<Rightarrow> bool comp" where
  "hasPathFallback pg rec i =
     readS (\<lambda>s.
       case map_of (paths (x_config s)) i of
         Some (PathArr ps) \<Rightarrow>
           if length ps > 1
           then bindS (seqS [modS (removeScript i), modS (shift_path i), undef_module pg i,
                             doS (rec (KRequire [i] False None None None))]) (\<lambda>_. ret True)
           else ret False
       | _ \<Rightarrow> ret False)"

text \<open>The loop of \<open>completeLoad\<close>: the first anonymous definition gets the name of the script; at a second one the loop
  ends, and the call that was taken from the queue is lost.\<close>

definition load_queue :: "page \<Rightarrow> caller \<Rightarrow> string \<Rightarrow> bool \<Rightarrow> rval comp" where
  "load_queue pg rec moduleName found =
     readS (\<lambda>s.
       case x_defQueue s of
         [] \<Rightarrow> ret (RBool found)
       | (name, deps, fac) # _ \<Rightarrow>
           bindS (modS shift_queue) (\<lambda>_.
             if name = None \<and> found then ret (RBool found)
             else bindS (callGetModule pg rec (some_or name moduleName) deps fac)
                    (\<lambda>_. rec (KLoadQueue moduleName (found \<or> name = None \<or> name = Some moduleName)))))"

definition shim_factory :: "page \<Rightarrow> shim_exports option \<Rightarrow> factory" where
  "shim_factory pg ex =
     (case ex of
        None \<Rightarrow> None
      | Some (ExpGlobal g) \<Rightarrow> Some (DFun 0 [] (\<lambda>_. FReturn (pg_global pg g)))
      | Some (ExpFun n) \<Rightarrow> Some (DFun 0 [] (pg_shim pg n)))"

definition shim_global :: "page \<Rightarrow> shim_exports option \<Rightarrow> bool" where
  "shim_global pg ex = (case ex of Some (ExpGlobal g) \<Rightarrow> g \<noteq> [] \<and> rtruthy (pg_global pg g) | _ \<Rightarrow> False)"

definition completeLoad :: "page \<Rightarrow> caller \<Rightarrow> string \<Rightarrow> unit comp" where
  "completeLoad pg rec moduleName =
     bindS (modS take_queue) (\<lambda>_.
     bindS (rec (KLoadQueue moduleName False)) (\<lambda>found.
     readS (\<lambda>s.
       let sh = some_or (map_of (shims (x_config s)) moduleName) \<lparr>sh_deps = None, sh_exports = None\<rparr>;
           undefined_script = (\<not> rtruthy found \<and> \<not> rtruthy (def_value moduleName s) \<and>
             (case registered moduleName s of None \<Rightarrow> False | Some a \<Rightarrow> \<not> m_inited (mod_at a s)))
       in if undefined_script \<and> enforceDefine (x_config s) \<and> \<not> shim_global pg (sh_exports sh)
          then bindS (hasPathFallback pg rec moduleName)
                 (\<lambda>b. if b then ret () else onError rec (RErr ''nodefine'' [moduleName]) None)
          else seqS [whenS undefined_script
                       (callGetModule pg rec moduleName (some_or (sh_deps sh) []) (shim_factory pg (sh_exports sh))),
                     doS (rec KCheckLoaded)])))"

subsection \<open>checkLoaded\<close>

text \<open>\<open>forceExec\<close> gives the modules of a cycle the values that their dependencies have so far.\<close>

definition force_dep :: "caller \<Rightarrow> nat \<Rightarrow> string \<Rightarrow> dep \<Rightarrow> unit comp" where
  "force_dep rec a i d =
     readS (\<lambda>s.
       case d of
         DName _ \<Rightarrow> ret ()
       | DMap mp \<Rightarrow>
           (case (if mm_id mp \<in> set handlers then None else registered (mm_id mp) s) of
              None \<Rightarrow> ret ()
            | Some b \<Rightarrow>
                if \<not> m_inited (mod_at b s) \<or> \<not> m_enabled (mod_at b s)
                then modS (\<lambda>s. s\<lparr>x_uninited := AList.update i () (x_uninited s)\<rparr>)
                else bindS (rec (KForceExec b))
                       (\<lambda>v. readS (\<lambda>s. whenS (\<not> own_prop (x_uninited s) (mm_id mp)) (defineDepById a (mm_id mp) v)))))"

definition forceExec :: "caller \<Rightarrow> nat \<Rightarrow> rval comp" where
  "forceExec rec a =
     readS (\<lambda>s.
       let m = mod_at a s; i = mm_id (m_map m)
       in if \<not> m_inited m \<or> \<not> mm_isDefine (m_map m) then ret RUndef
          else if own_prop (x_traced s) i then ret (def_value i s)
          else bindS (seqS [modS (\<lambda>s. s\<lparr>x_traced := AList.update i a (x_traced s)\<rparr>),
                            forS (force_dep rec a i) (m_depMaps m),
                            doS (rec (KCheck a True))])
                 (\<lambda>_. getS (def_value i)))"

text \<open>One round of the loop over \<open>waitAry\<close>.\<close>

definition break_cycle :: "caller \<Rightarrow> nat \<Rightarrow> unit comp" where
  "break_cycle rec a =
     readS (\<lambda>s.
       case (if m_defined (mod_at a s) then None else findCycle (cycle_fuel s) s a []) of
         None \<Rightarrow> ret ()
       | Some c \<Rightarrow>
           seqS [modS (\<lambda>s. s\<lparr>x_traced := [], x_uninited := []\<rparr>),
                 doS (rec (KForceExec c)),
                 readS (\<lambda>s. forS (\<lambda>(k, b). doS (rec (KCheck b False))) (x_traced s))])"

definition break_cycles :: "caller \<Rightarrow> nat \<Rightarrow> unit comp" where
  "break_cycles rec i =
     readS (\<lambda>s.
       if i < length (x_waitAry s) then seqS [break_cycle rec (x_waitAry s ! i), doS (rec (KWaits (i + 1)))]
       else ret ())"

record scan =
  noLoads :: "string list"
  stillLoading :: bool
  needCycleCheck :: bool
  usingPathFallback :: bool

definition scan_module :: "page \<Rightarrow> caller \<Rightarrow> bool \<Rightarrow> scan \<Rightarrow> string \<Rightarrow> scan comp" where
  "scan_module pg rec expired acc k =
     readS (\<lambda>s.
       case registered k s of
         None \<Rightarrow> ret acc
       | Some a \<Rightarrow>
           (let m = mod_at a s; modId = mm_id (m_map m)
            in if \<not> m_enabled m \<or> m_error m \<noteq> None then ret acc
               else if \<not> m_inited m \<and> expired then
                 bindS (hasPathFallback pg rec modId)
                   (\<lambda>b. if b then ret (acc\<lparr>usingPathFallback := True, stillLoading := True\<rparr>)
                        else bindS (modS (removeScript modId)) (\<lambda>_. ret (acc\<lparr>noLoads := noLoads acc @ [modId]\<rparr>)))
               else if \<not> m_inited m \<and> m_fetched m \<and> mm_isDefine (m_map m) then
                 ret (acc\<lparr>stillLoading := True,
                          needCycleCheck := (needCycleCheck acc \<and> mm_prefix (m_map m) \<noteq> None)\<rparr>)
               else ret acc))"

definition expired :: "rctx \<Rightarrow> bool" where
  "expired s \<longleftrightarrow> waitSeconds (x_config s) \<noteq> 0 \<and> x_startTime s + waitSeconds (x_config s) * 1000 < x_now s"

definition check_registered :: "caller \<Rightarrow> string \<Rightarrow> unit comp" where
  "check_registered rec k =
     readS (\<lambda>s. case registered k s of None \<Rightarrow> ret () | Some a \<Rightarrow> doS (rec (KCheck a False)))"

definition checkLoaded :: "page \<Rightarrow> caller \<Rightarrow> unit comp" where
  "checkLoaded pg rec =
     readS (\<lambda>s.
       if x_inCheckLoaded s then ret ()
       else bindS (modS (\<lambda>s. s\<lparr>x_inCheckLoaded := True\<rparr>)) (\<lambda>_.
            bindS (foldS (scan_module pg rec (expired s))
                     \<lparr>noLoads = [], stillLoading = False, needCycleCheck = True, usingPathFallback = False\<rparr>
                     (map fst (x_registry s)))
              (\<lambda>r. if expired s \<and> noLoads r \<noteq> [] then onError rec (RErr ''timeout'' (noLoads r)) None
                   else seqS [whenS (needCycleCheck r)
                                (seqS [doS (rec (KWaits 0)),
                                       readS (\<lambda>s. forS (check_registered rec) (map fst (x_registry s)))]),
                              modS (\<lambda>s'. s'\<lparr>x_timeout := (x_timeout s' \<or>
                                (\<not> expired s \<or> usingPathFallback r) \<and> stillLoading r), x_inCheckLoaded := False\<rparr>)])))"

subsection \<open>Configuration and the events of the page\<close>

definition remap_module :: "page \<Rightarrow> string \<times> nat \<Rightarrow> unit comp" where
  "remap_module pg ka =
     bindS (makeModuleMap pg (Some (fst ka)) None False False)
       (\<lambda>mp. modS (upd_mod (snd ka) (\<lambda>m. m\<lparr>m_map := mp\<rparr>)))"

definition configure :: "page \<Rightarrow> caller \<Rightarrow> cfg_object \<Rightarrow> factory \<Rightarrow> unit comp" where
  "configure pg rec cfg cb =
     seqS [modS (\<lambda>s. s\<lparr>x_config := merge_config cfg (x_config s)\<rparr>),
           readS (\<lambda>s. forS (remap_module pg) (x_registry s)),
           whenS (c_deps cfg \<noteq> None \<or> cb \<noteq> None)
             (doS (rec (KRequire (some_or (c_deps cfg) []) False cb None None)))]"

text \<open>One function call, with the others as \<open>rec\<close>.\<close>

definition as_value :: "unit comp \<Rightarrow> rval comp" where
  "as_value c = bindS c (\<lambda>_. ret RUndef)"

definition dispatch :: "page \<Rightarrow> caller \<Rightarrow> caller" where
  "dispatch pg rec c =
     (case c of
        KCheck a silent \<Rightarrow> as_value (mod_check rec a silent)
      | KEnable a \<Rightarrow> as_value (mod_enable pg rec a)
      | KInit a deps skip fac errb en ig \<Rightarrow> as_value (mod_init rec a deps skip fac errb en ig)
      | KEmit a n e \<Rightarrow> as_value (mod_emit rec a n e)
      | KEmitFrom l i e \<Rightarrow> as_value (emit_from rec l i e)
      | KFire cb e \<Rightarrow> as_value (fire pg rec cb e)
      | KFetch a \<Rightarrow> as_value (mod_fetch rec a)
      | KCallPlugin a \<Rightarrow> as_value (mod_callPlugin pg rec a)
      | KRequireName n rel \<Rightarrow> require_name pg rec n rel
      | KRequire deps skip fac errb rel \<Rightarrow> as_value (require_deps pg rec deps skip fac errb rel)
      | KIntake \<Rightarrow> as_value (intake pg rec)
      | KLoadQueue n found \<Rightarrow> load_queue pg rec n found
      | KCompleteLoad n \<Rightarrow> as_value (completeLoad pg rec n)
      | KCheckLoaded \<Rightarrow> as_value (checkLoaded pg rec)
      | KWaits i \<Rightarrow> as_value (break_cycles rec i)
      | KForceExec a \<Rightarrow> forceExec rec a)"

primrec run :: "page \<Rightarrow> nat \<Rightarrow> caller" where
  "run pg 0 c = throw RFuel"
| "run pg (Suc fuel) c = dispatch pg (run pg fuel) c"

text \<open>
  The events: a call of \<open>requirejs(cfg, deps, callback)\<close>, a \<open>define\<close> outside of a script, a script that ran (the
  \<open>define\<close> calls it made) and reported \<open>load\<close>, a script error, the 50 ms timer of \<open>checkLoaded\<close>, and time passing.
\<close>

datatype page_event =
    PageRequire "cfg_object option" "string list" factory "nat option"
  | PageDefine define_entry
  | ScriptLoad string "define_entry list"
  | ScriptError string
  | Timer
  | Elapse nat

definition req_call :: "page \<Rightarrow> caller \<Rightarrow> cfg_object option \<Rightarrow> string list \<Rightarrow> factory \<Rightarrow> nat option \<Rightarrow> unit comp" where
  "req_call pg rec cfg deps fac errb =
     seqS [(case cfg of None \<Rightarrow> ret () | Some c \<Rightarrow> configure pg rec c None),
           doS (rec (KRequire deps False fac (map_option LUser errb) None))]"

definition onScriptLoad :: "page \<Rightarrow> caller \<Rightarrow> string \<Rightarrow> unit comp" where
  "onScriptLoad pg rec i = doS (rec (KCompleteLoad i))"

definition onScriptError :: "page \<Rightarrow> caller \<Rightarrow> string \<Rightarrow> unit comp" where
  "onScriptError pg rec i =
     bindS (hasPathFallback pg rec i)
       (\<lambda>b. if b then ret () else onError rec (RErr ''scripterror'' [i]) None)"

definition handle_event :: "page \<Rightarrow> caller \<Rightarrow> page_event \<Rightarrow> unit comp" where
  "handle_event pg rec ev =
     (case ev of
        PageRequire cfg deps fac errb \<Rightarrow> req_call pg rec cfg deps fac errb
      | PageDefine q \<Rightarrow> modS (\<lambda>s. s\<lparr>x_globalQueue := x_globalQueue s @ [q]\<rparr>)
      | ScriptLoad i qs \<Rightarrow> seqS [modS (\<lambda>s. s\<lparr>x_globalQueue := x_globalQueue s @ qs\<rparr>), onScriptLoad pg rec i]
      | ScriptError i \<Rightarrow> onScriptError pg rec i
      | Timer \<Rightarrow>
          readS (\<lambda>s. whenS (x_timeout s) (seqS [modS (\<lambda>s. s\<lparr>x_timeout := False\<rparr>), doS (rec KCheckLoaded)]))
      | Elapse t \<Rightarrow> modS (\<lambda>s. s\<lparr>x_now := x_now s + t\<rparr>))"

text \<open>The state after an event; an exception that reaches the browser leaves the state as it is.\<close>

definition page_step :: "page \<Rightarrow> nat \<Rightarrow> rctx \<Rightarrow> page_event \<Rightarrow> rctx" where
  "page_step pg fuel s ev = snd (handle_event pg (run pg fuel) ev s)"

end
