(* ===== verification/Require_Safety.thy ===== *)
theory Require_Safety
  imports Require_Loader
begin

text \<open>
  What no run of a RequireJS context can do: \<open>evo\<close> relates a state to the states that the loader may reach from it
  (modules stay in the store, a defined module stays defined, a module being defined is left alone by everything it
  calls) and carries the invariant \<open>ok_runs\<close>, that a factory which ran belongs to a module that is defined or being
  defined, and ran once. The locale \<open>loader_rec\<close> is the contract of the recursive calls; every function of
  \<open>Require_Loader\<close> is shown to fulfil it in turn.
\<close>

subsection \<open>Evolution\<close>

definition ran :: "rctx \<Rightarrow> nat list" where
  "ran s = map fst (x_runs s)"

definition ok_runs :: "rctx \<Rightarrow> bool" where
  "ok_runs s \<longleftrightarrow> distinct (ran s) \<and>
     (\<forall>a\<in>set (ran s). a < length (x_mods s) \<and> (m_defined (mod_at a s) \<or> m_defining (mod_at a s)))"

definition evo :: "rctx \<Rightarrow> rctx \<Rightarrow> bool" where
  "evo s t \<longleftrightarrow> (ok_runs s \<longrightarrow> ok_runs t \<and> length (x_mods s) \<le> length (x_mods t) \<and>
     (\<forall>a < length (x_mods s). (m_defined (mod_at a s) \<longrightarrow> m_defined (mod_at a t)) \<and>
                              (m_defining (mod_at a s) \<longrightarrow> m_defining (mod_at a t))) \<and>
     (\<exists>r. x_runs t = x_runs s @ r) \<and> (x_inCheckLoaded s \<longrightarrow> x_inCheckLoaded t))"

lemma evo_refl: "evo s s"
  by (simp add: evo_def)

lemma evo_trans:
  assumes st: "evo s t" and tu: "evo t u"
  shows "evo s u"
proof (cases "ok_runs s")
  case True
  have t: "ok_runs t" "length (x_mods s) \<le> length (x_mods t)" using st True by (simp_all add: evo_def)
  obtain r q where "x_runs t = x_runs s @ r" "x_runs u = x_runs t @ q" using st tu True t by (auto simp: evo_def)
  then have "\<exists>r. x_runs u = x_runs s @ r" by simp
  with st tu True t show ?thesis unfolding evo_def by simp
qed (simp add: evo_def)

lemma mod_at_upd:
  "mod_at b (upd_mod a f s) = (if b = a \<and> a < length (x_mods s) then f (mod_at a s) else mod_at b s)"
  by (auto simp: mod_at_def upd_mod_def)

lemma upd_mod_fields [simp]:
  "length (x_mods (upd_mod a f s)) = length (x_mods s)" "x_runs (upd_mod a f s) = x_runs s"
  "x_registry (upd_mod a f s) = x_registry s" "x_defined (upd_mod a f s) = x_defined s"
  "x_events (upd_mod a f s) = x_events s" "x_lists (upd_mod a f s) = x_lists s"
  "x_config (upd_mod a f s) = x_config s" "x_inCheckLoaded (upd_mod a f s) = x_inCheckLoaded s"
  by (simp_all add: upd_mod_def)

lemma evo_same:
  "x_mods t = x_mods s \<Longrightarrow> x_runs t = x_runs s \<Longrightarrow> x_inCheckLoaded t = x_inCheckLoaded s \<Longrightarrow> evo s t"
  by (simp add: evo_def mod_at_def ok_runs_def ran_def)

lemma evo_upd:
  assumes "\<And>m. (m_defined m \<longrightarrow> m_defined (f m)) \<and> (m_defining m \<longrightarrow> m_defining (f m))"
  shows "evo s (upd_mod a f s)"
  using assms by (auto simp: evo_def mod_at_upd ok_runs_def ran_def)

lemma evo_new:
  "x_mods t = x_mods s @ ms \<Longrightarrow> x_runs t = x_runs s \<Longrightarrow> x_inCheckLoaded t = x_inCheckLoaded s \<Longrightarrow> evo s t"
  by (auto simp: evo_def mod_at_def ok_runs_def ran_def nth_append)

lemma evo_clear_defining:
  assumes "evo s t" and "\<not> m_defining (mod_at a s)"
    and "ok_runs t \<Longrightarrow> a \<in> set (ran t) \<Longrightarrow> m_defined (mod_at a t)"
  shows "evo s (upd_mod a (\<lambda>m. m\<lparr>m_defining := False\<rparr>) t)"
  using assms by (auto simp: evo_def mod_at_upd ok_runs_def ran_def)

subsection \<open>Computations that evolve\<close>

definition keeps :: "'a comp \<Rightarrow> bool" where
  "keeps c \<longleftrightarrow> (\<forall>s. evo s (snd (c s)))"

named_theorems keeps_intros

lemma keeps_ret [keeps_intros]: "keeps (ret v)"
  by (simp add: keeps_def ret_def evo_refl)

lemma keeps_throw [keeps_intros]: "keeps (throw e)"
  by (simp add: keeps_def throw_def evo_refl)

lemma keeps_getS [keeps_intros]: "keeps (getS f)"
  by (simp add: keeps_def getS_def evo_refl)

lemma keeps_bindS [keeps_intros]:
  assumes "keeps c" and "\<And>v. keeps (k v)"
  shows "keeps (bindS c k)"
  unfolding keeps_def
proof
  fix s
  obtain r t where c: "c s = (r, t)" by (cases "c s")
  have "evo s t" using assms(1) c unfolding keeps_def by (metis snd_conv)
  moreover have "evo t (snd (k v t))" for v using assms(2) by (simp add: keeps_def)
  ultimately show "evo s (snd (bindS c k s))" by (cases r) (auto simp: bindS_def c intro: evo_trans)
qed

lemma snd_bind_ret: "snd (bindS c (\<lambda>_. ret v) s) = snd (c s)" "snd (bindS c ret s) = snd (c s)"
  by (auto simp: bindS_def ret_def split: prod.split sum.split)

lemma seq_mod: "snd (seqS [c, modS f] s) = (case c s of (r, t) \<Rightarrow> case r of Inl _ \<Rightarrow> t | Inr _ \<Rightarrow> f t)"
  by (simp add: bindS_def modS_def ret_def split: prod.split sum.split)

lemma keeps_modS [keeps_intros]: "(\<And>s. evo s (f s)) \<Longrightarrow> keeps (modS f)"
  by (simp add: keeps_def modS_def)

lemma keeps_readS [keeps_intros]: "(\<And>s. keeps (f s)) \<Longrightarrow> keeps (readS f)"
  by (simp add: keeps_def readS_def)

lemma keeps_doS [keeps_intros]: "keeps c \<Longrightarrow> keeps (doS c)"
  unfolding doS_def by (intro keeps_bindS keeps_ret)

lemma keeps_seq_Nil [keeps_intros]: "keeps (seqS [])"
  by (simp add: keeps_ret)

lemma keeps_seq_Cons [keeps_intros]: "keeps c \<Longrightarrow> keeps (seqS cs) \<Longrightarrow> keeps (seqS (c # cs))"
  by (simp add: keeps_bindS)

lemma keeps_forS [keeps_intros]: "(\<And>x. keeps (f x)) \<Longrightarrow> keeps (forS f xs)"
  by (induction xs) (simp_all add: keeps_ret keeps_bindS)

lemma keeps_foldS [keeps_intros]: "(\<And>acc x. keeps (f acc x)) \<Longrightarrow> keeps (foldS f acc xs)"
  by (induction xs arbitrary: acc) (simp_all add: keeps_ret keeps_bindS)

lemma keeps_tryS [keeps_intros]: "keeps c \<Longrightarrow> keeps (tryS c)"
  unfolding keeps_def
proof
  fix s
  assume c: "\<forall>s. evo s (snd (c s))"
  obtain r t where ct: "c s = (r, t)" by (cases "c s")
  have "snd (tryS c s) = t" by (cases r; cases "projl r") (auto simp: tryS_def ct)
  then show "evo s (snd (tryS c s))" using c ct by (metis snd_conv)
qed

lemma keeps_whenS [keeps_intros]: "keeps c \<Longrightarrow> keeps (whenS b c)"
  by (simp add: whenS_def keeps_ret)

lemma keeps_if [keeps_intros]: "keeps c \<Longrightarrow> keeps d \<Longrightarrow> keeps (if b then c else d)"
  by simp

lemma keeps_Let [keeps_intros]: "(\<And>x. keeps (f x)) \<Longrightarrow> keeps (Let v f)"
  by simp

lemma keeps_option [keeps_intros]: "keeps c \<Longrightarrow> (\<And>x. keeps (f x)) \<Longrightarrow> keeps (case v of None \<Rightarrow> c | Some x \<Rightarrow> f x)"
  by (cases v) simp_all

lemma keeps_sum [keeps_intros]:
  "(\<And>x. keeps (f x)) \<Longrightarrow> (\<And>x. keeps (g x)) \<Longrightarrow> keeps (case v of Inl x \<Rightarrow> f x | Inr x \<Rightarrow> g x)"
  by (cases v) simp_all

lemma keeps_prod [keeps_intros]: "(\<And>x y. keeps (f x y)) \<Longrightarrow> keeps (case v of (x, y) \<Rightarrow> f x y)"
  by (cases v) simp

lemma keeps_list [keeps_intros]:
  "keeps c \<Longrightarrow> (\<And>x xs. keeps (f x xs)) \<Longrightarrow> keeps (case v of [] \<Rightarrow> c | x # xs \<Rightarrow> f x xs)"
  by (cases v) simp_all

lemma keeps_dep [keeps_intros]:
  "(\<And>n. keeps (f n)) \<Longrightarrow> (\<And>mp. keeps (g mp)) \<Longrightarrow> keeps (case d of DName n \<Rightarrow> f n | DMap mp \<Rightarrow> g mp)"
  by (cases d) simp_all

lemma keeps_act [keeps_intros]:
  "(\<And>v. keeps (f v)) \<Longrightarrow> (\<And>n. keeps (g n)) \<Longrightarrow> (\<And>n ds. keeps (h n ds)) \<Longrightarrow>
   keeps (case act of LoadValue v \<Rightarrow> f v | LoadError n \<Rightarrow> g n | LoadText n ds \<Rightarrow> h n ds)"
  by (cases act) simp_all

lemma keeps_path [keeps_intros]:
  "(\<And>n. keeps (f n)) \<Longrightarrow> (\<And>ps. keeps (g ps)) \<Longrightarrow> keeps (case d of PathStr n \<Rightarrow> f n | PathArr ps \<Rightarrow> g ps)"
  by (cases d) simp_all

text \<open>The elementary operations.\<close>

lemma keeps_makeModuleMap [keeps_intros]: "keeps (makeModuleMap pg n p i am)"
  unfolding keeps_def makeModuleMap_def by (auto simp: Let_def split_beta intro!: evo_same)

lemma keeps_new_module: "keeps (new_module mp)"
  unfolding keeps_def new_module_def by (auto simp: Let_def split: option.split intro!: evo_new)

lemma keeps_getModule [keeps_intros]: "keeps (getModule mp)"
  unfolding getModule_def by (intro keeps_intros keeps_new_module evo_same) simp_all

lemma keeps_mod_on [keeps_intros]: "keeps (mod_on a n cb)"
  unfolding mod_on_def set_events_def by (intro keeps_intros evo_same) simp_all

lemma keeps_defineDep [keeps_intros]: "keeps (defineDep a i v)"
  unfolding defineDep_def by (intro keeps_intros evo_upd) simp

lemma keeps_defineDepById [keeps_intros]: "keeps (defineDepById a i v)"
  unfolding defineDepById_def by (intro keeps_intros evo_upd) simp

lemma removeWaiting_fields [simp]:
  "x_mods (removeWaiting i s) = x_mods s" "x_runs (removeWaiting i s) = x_runs s"
  "x_inCheckLoaded (removeWaiting i s) = x_inCheckLoaded s"
  by (simp_all add: removeWaiting_def Let_def split: option.split)

lemma evo_removeWaiting: "evo s (removeWaiting i s)"
  by (rule evo_same) simp_all

lemma evo_removeScript: "evo s (removeScript i s)"
  by (auto simp: removeScript_def intro!: evo_same)

lemma evo_mod_load: "evo s (mod_load a s)"
  by (auto simp: mod_load_def add_script_def Let_def intro!: evo_same)

lemma evo_shift_path: "evo s (shift_path i s)"
  by (auto simp: shift_path_def Let_def split: option.split path_entry.split list.split intro!: evo_same)

lemma keeps_undef [keeps_intros]: "keeps (undef_module pg i)"
  unfolding undef_module_def
proof (intro keeps_intros)
  fix mp s
  show "evo s (let s1 = s\<lparr>x_defined := AList.delete i (x_defined s),
      x_urlFetched := AList.delete (url_key (mm_url mp)) (x_urlFetched s),
      x_undefEvents := AList.delete i (x_undefEvents s)\<rparr>
    in case registered i s of None \<Rightarrow> s1
       | Some a \<Rightarrow> removeWaiting i (if ev_defined (events_of a s1) \<noteq> None
           then s1\<lparr>x_undefEvents := AList.update i (m_events (mod_at a s1)) (x_undefEvents s1)\<rparr> else s1))"
    by (rule evo_same) (simp_all add: Let_def split: option.split)
qed

subsection \<open>The functions of the loader\<close>

text \<open>What a function of the loader relies on: that the functions it calls evolve the state.\<close>

locale loader_rec =
  fixes pg :: page and rec :: caller
  assumes rec_keeps: "keeps (rec c)"
begin

lemma on_dep_keeps: "keeps (on_dep rec mp n cb)"
  unfolding on_dep_def by (intro keeps_intros rec_keeps)

lemma emit_from_keeps: "keeps (emit_from rec l i e)"
  unfolding emit_from_def by (intro keeps_intros rec_keeps)

lemma mod_emit_keeps: "keeps (mod_emit rec a n e)"
  unfolding mod_emit_def set_events_def by (intro keeps_intros rec_keeps evo_same) simp_all

lemma notify_module_keeps: "keeps (notify_module rec err notified i)"
  unfolding notify_module_def by (intro keeps_intros rec_keeps evo_upd) simp

lemma onError_keeps: "keeps (onError rec err errback)"
  unfolding onError_def by (intro keeps_intros rec_keeps notify_module_keeps)

lemma run_fact_keeps: "keeps (run_fact rec a f)"
proof (induction f)
  case (FSetExports v k)
  then show ?case by (simp, intro keeps_intros evo_upd) simp_all
next
  case (FDefine q k)
  then show ?case by (simp, intro keeps_intros evo_same) simp_all
next
  case (FLoadModule b p)
  then show ?case by (simp, intro conjI impI keeps_intros rec_keeps evo_mod_load)
qed (simp_all add: keeps_intros rec_keeps)

lemma run_handler_keeps: "keeps (run_handler i a)"
  unfolding run_handler_def
  by (intro keeps_intros evo_upd evo_trans [OF evo_same evo_upd]) simp_all

lemma emit_defined_keeps: "keeps (emit_defined rec a)"
  unfolding emit_defined_def by (intro keeps_intros rec_keeps evo_upd) simp_all

text \<open>The defining stage of \<open>check\<close>, from the state where the module is marked as being defined.\<close>

lemma store_module_evo: "evo s (store_module a i v s)"
proof -
  let ?u = "upd_mod a (\<lambda>m. m\<lparr>m_exports := v, m_defined := True\<rparr>) s"
  have "evo s ?u" by (rule evo_upd) simp
  moreover have "evo ?u (store_module a i v s)"
    by (rule evo_same) (simp_all add: store_module_def Let_def)
  ultimately show ?thesis by (rule evo_trans)
qed

lemma store_module_defined: "a < length (x_mods s) \<Longrightarrow> m_defined (mod_at a (store_module a i v s))"
  by (simp add: store_module_def Let_def upd_mod_def mod_at_def)

lemma evo_log_run:
  assumes "a < length (x_mods s)" and "m_defining (mod_at a s)" and "ok_runs s \<Longrightarrow> a \<notin> set (ran s)"
  shows "evo s (s\<lparr>x_runs := x_runs s @ [(a, vs)]\<rparr>)"
  using assms by (auto simp: evo_def ok_runs_def ran_def mod_at_def)

lemma exec_factory_evo:
  assumes "a < length (x_mods s)" and "m_defining (mod_at a s)" and "ok_runs s \<Longrightarrow> a \<notin> set (ran s)"
  shows "evo s (snd (exec_factory rec a i s))"
proof (cases "m_factory (mod_at a s)")
  case None
  then show ?thesis by (simp add: exec_factory_def readS_def ret_def evo_refl)
next
  case (Some d)
  show ?thesis
  proof (cases d)
    case (DValue v)
    with Some show ?thesis by (simp add: exec_factory_def readS_def ret_def evo_refl)
  next
    case (DFun n src f)
    let ?vs = "m_depExports (mod_at a s)"
    let ?B = "bindS (if ev_error (events_of a s) \<noteq> None then tryS (run_fact rec a (f ?vs))
                     else bindS (run_fact rec a (f ?vs)) (\<lambda>v. ret (Inr v)))
                (\<lambda>r. case r of
                   Inr v \<Rightarrow> getS (\<lambda>s. Some (pick_exports (mod_at a s) v))
                 | Inl _ \<Rightarrow>
                     bindS (seqS [modS (upd_mod a (\<lambda>m. m\<lparr>m_error := Some (RErr ''define'' [i])\<rparr>)),
                           onError rec (RErr ''define'' [i]) None]) (\<lambda>_. ret None))"
    have "keeps ?B" by (intro keeps_intros run_fact_keeps onError_keeps evo_upd) simp
    then have "evo (s\<lparr>x_runs := x_runs s @ [(a, ?vs)]\<rparr>) (snd (?B (s\<lparr>x_runs := x_runs s @ [(a, ?vs)]\<rparr>)))"
      unfolding keeps_def by blast
    from evo_trans [OF evo_log_run [OF assms] this] show ?thesis
      using Some DFun by (simp only: exec_factory_def readS_def Let_def option.case defn.case bindS_def [of "modS _"]
          modS_def prod.case sum.case)
  qed
qed

lemma define_module_evo:
  assumes "a < length (x_mods s)" and "m_defining (mod_at a s)" and "ok_runs s \<Longrightarrow> a \<notin> set (ran s)" and "ok_runs s"
  shows "evo s (snd (define_module rec a i s)) \<and>
    (fst (define_module rec a i s) = Inr True \<longrightarrow> m_defined (mod_at a (snd (define_module rec a i s))))"
proof -
  obtain r t where e: "exec_factory rec a i s = (r, t)" by (cases "exec_factory rec a i s")
  have evo: "evo s t" using exec_factory_evo [OF assms(1-3), of i] e by simp
  then have a: "a < length (x_mods t)" using assms(1,4) by (simp add: evo_def)
  consider x where "r = Inl x" | "r = Inr None" | v where "r = Inr (Some v)" by (cases r; cases "projr r") auto
  then show ?thesis
  proof cases
    case 3
    then show ?thesis
      using evo evo_trans [OF evo store_module_evo] store_module_defined [OF a]
      by (simp add: define_module_def bindS_def e modS_def ret_def)
  qed (use evo in \<open>simp_all add: define_module_def bindS_def e ret_def\<close>)
qed

lemma mod_check_keeps: "keeps (mod_check rec a silent)"
  unfolding keeps_def
proof
  fix s
  let ?m = "mod_at a s"
  let ?s1 = "upd_mod a (\<lambda>m. m\<lparr>m_defining := True\<rparr>) s"
  have rec: "evo s (snd (doS (rec c) s))" for c using keeps_doS [OF rec_keeps, of c] by (simp add: keeps_def)
  show "evo s (snd (mod_check rec a silent s))"
  proof (cases "\<not> m_enabled ?m \<or> m_enabling ?m \<or> \<not> m_inited ?m \<or> m_error ?m \<noteq> None \<or> m_defining ?m")
    case True
    then show ?thesis
      using rec by (auto simp: mod_check_def readS_def Let_def ret_def evo_refl split: option.split)
  next
    case False
    then have len: "a < length (x_mods s)" by (auto simp: mod_at_def inert_def split: if_splits)
    have s1: "evo s ?s1" by (rule evo_upd) simp
    let ?D = "if m_depCount ?m < 1 \<and> \<not> m_defined ?m then define_module rec a (mm_id (m_map ?m)) else ret True"
    obtain r t where D: "?D ?s1 = (r, t)" by (cases "?D ?s1")
    have ran: "ok_runs s \<Longrightarrow> a \<in> set (ran s) \<Longrightarrow> m_defined ?m" using False by (auto simp: ok_runs_def)
    have t: "evo s t \<and> (ok_runs s \<longrightarrow> r = Inr True \<longrightarrow> a \<in> set (ran t) \<longrightarrow> m_defined (mod_at a t))"
    proof (cases "ok_runs s \<and> m_depCount ?m < 1 \<and> \<not> m_defined ?m")
      case True
      have "evo ?s1 (snd (define_module rec a (mm_id (m_map ?m)) ?s1)) \<and>
        (fst (define_module rec a (mm_id (m_map ?m)) ?s1) = Inr True \<longrightarrow>
          m_defined (mod_at a (snd (define_module rec a (mm_id (m_map ?m)) ?s1))))"
        by (rule define_module_evo) (use len ran True s1 in \<open>auto simp: mod_at_upd ran_def evo_def\<close>)
      with True D s1 evo_trans show ?thesis by auto
    next
      case no: False
      show ?thesis
      proof (cases "ok_runs s")
        case True
        with no have "t = ?s1" using D by (auto simp: ret_def)
        with s1 ran True len show ?thesis by (auto simp: mod_at_upd ran_def)
      qed (simp add: evo_def)
    qed
    have check: "mod_check rec a silent s =
        bindS ?D (\<lambda>go. whenS go (seqS [modS (upd_mod a (\<lambda>m. m\<lparr>m_defining := False\<rparr>)),
          whenS (\<not> silent) (emit_defined rec a)])) ?s1"
      using False by (simp add: mod_check_def readS_def Let_def bindS_def [of "modS _"] modS_def)
    show ?thesis
    proof (cases "r = Inr True")
      case True
      let ?u = "upd_mod a (\<lambda>m. m\<lparr>m_defining := False\<rparr>) t"
      have "evo s ?u" if "ok_runs s"
        using t True that False by (intro evo_clear_defining) auto
      then have u: "evo s ?u" by (auto simp: evo_def)
      moreover have "evo ?u (snd (whenS (\<not> silent) (emit_defined rec a) ?u))"
        using keeps_whenS [OF emit_defined_keeps] unfolding keeps_def by blast
      ultimately have "evo s (snd (whenS (\<not> silent) (emit_defined rec a) ?u))" by (rule evo_trans)
      then show ?thesis
        unfolding check by (simp add: bindS_def [of ?D] D True whenS_def [of True] bindS_def [of "modS _"] modS_def snd_bind_ret)
    next
      case r: False
      then show ?thesis using t
        by (cases r) (auto simp: check bindS_def D whenS_def ret_def)
    qed
  qed
qed

lemma mod_fetch_keeps: "keeps (mod_fetch rec a)"
  unfolding mod_fetch_def
  by (intro keeps_intros rec_keeps evo_mod_load evo_upd evo_same) simp_all

lemma enable_dep_module_keeps: "keeps (enable_dep_module rec mp)"
  unfolding enable_dep_module_def by (intro keeps_intros rec_keeps)

lemma mod_callPlugin_keeps: "keeps (mod_callPlugin pg rec a)"
  unfolding mod_callPlugin_def
  by (intro keeps_intros on_dep_keeps enable_dep_module_keeps evo_upd) simp_all

lemma drop_unnormalized_evo: "evo s (drop_unnormalized i s)"
proof -
  let ?f = "\<lambda>(k, a) s. if is_prefix_of (i @ ''_unnormalized'') (mm_id (m_map (mod_at a s)))
    then removeWaiting (mm_id (m_map (mod_at a s))) s else s"
  have "x_mods (fold ?f xs t) = x_mods t \<and> x_runs (fold ?f xs t) = x_runs t \<and>
      x_inCheckLoaded (fold ?f xs t) = x_inCheckLoaded t" for xs t
    by (induction xs arbitrary: t) (simp_all add: split_beta)
  from this [of "x_registry s" s] show ?thesis unfolding drop_unnormalized_def by (elim conjE) (rule evo_same)
qed

lemma plugin_action_keeps: "keeps (plugin_action pg rec a i act)"
  unfolding plugin_action_def
  by (intro keeps_intros rec_keeps onError_keeps drop_unnormalized_evo evo_upd evo_same) simp_all

lemma plugin_normalized_keeps: "keeps (plugin_normalized pg rec a v)"
  unfolding plugin_normalized_def by (intro keeps_intros rec_keeps on_dep_keeps)

lemma plugin_defined_keeps: "keeps (plugin_defined pg rec a v)"
  unfolding plugin_defined_def by (intro keeps_intros plugin_normalized_keeps plugin_action_keeps)

lemma fire_keeps: "keeps (fire pg rec cb e)"
proof -
  have log: "keeps (modS (\<lambda>s. s\<lparr>x_errors := x_errors s @ [x]\<rparr>))" for x
    by (intro keeps_intros evo_same) simp_all
  show ?thesis
    by (cases cb; cases e) (simp_all add: fire_def keeps_intros rec_keeps plugin_defined_keeps log)
qed

lemma enable_new_keeps: "keeps (enable_new rec mp)"
  unfolding enable_new_def by (intro keeps_intros rec_keeps)

lemma enable_plugin_keeps: "keeps (enable_plugin rec km)"
  unfolding enable_plugin_def by (intro keeps_intros rec_keeps)

lemma enable_dep_keeps: "keeps (enable_dep pg rec a i)"
  unfolding enable_dep_def
  by (intro keeps_intros run_handler_keeps on_dep_keeps enable_new_keeps evo_upd) simp_all

lemma mod_enable_keeps: "keeps (mod_enable pg rec a)"
  unfolding mod_enable_def
  by (intro keeps_intros rec_keeps enable_dep_keeps enable_plugin_keeps evo_trans [OF evo_same evo_upd] evo_upd) simp_all

lemma mod_init_keeps: "keeps (mod_init rec a deps skip fac errb en ig)"
  unfolding mod_init_def by (intro keeps_intros rec_keeps evo_upd) simp_all

lemma callGetModule_keeps: "keeps (callGetModule pg rec n deps fac)"
  unfolding callGetModule_def by (intro keeps_intros rec_keeps)

lemma queue_evo: "evo s (take_queue s)" "evo s (shift_queue s)"
  by (simp_all add: take_queue_def shift_queue_def evo_same)

lemma intake_keeps: "keeps (intake pg rec)"
  unfolding intake_def by (intro keeps_intros rec_keeps queue_evo onError_keeps callGetModule_keeps)

lemma require_deps_keeps: "keeps (require_deps pg rec deps skip fac errb rel)"
  unfolding require_deps_def by (intro keeps_intros rec_keeps queue_evo)

lemma require_name_keeps: "keeps (require_name pg rec n rel)"
  unfolding require_name_def by (intro keeps_intros onError_keeps)

lemma hasPathFallback_keeps: "keeps (hasPathFallback pg rec i)"
  unfolding hasPathFallback_def by (intro keeps_intros rec_keeps evo_removeScript evo_shift_path)

lemma load_queue_keeps: "keeps (load_queue pg rec n found)"
  unfolding load_queue_def by (intro keeps_intros rec_keeps queue_evo callGetModule_keeps)

lemma completeLoad_keeps: "keeps (completeLoad pg rec n)"
  unfolding completeLoad_def
  by (intro keeps_intros rec_keeps queue_evo hasPathFallback_keeps onError_keeps callGetModule_keeps)

lemma force_dep_keeps: "keeps (force_dep rec a i d)"
  unfolding force_dep_def by (intro keeps_intros rec_keeps evo_same) simp_all

lemma forceExec_keeps: "keeps (forceExec rec a)"
  unfolding forceExec_def by (intro keeps_intros rec_keeps force_dep_keeps evo_same) simp_all

lemma break_cycle_keeps: "keeps (break_cycle rec a)"
  unfolding break_cycle_def by (intro keeps_intros rec_keeps evo_same) simp_all

lemma break_cycles_keeps: "keeps (break_cycles rec i)"
  unfolding break_cycles_def by (intro keeps_intros rec_keeps break_cycle_keeps)

lemma scan_module_keeps: "keeps (scan_module pg rec ex acc k)"
  unfolding scan_module_def by (intro keeps_intros hasPathFallback_keeps evo_removeScript)

lemma check_registered_keeps: "keeps (check_registered rec k)"
  unfolding check_registered_def by (intro keeps_intros rec_keeps)

text \<open>\<open>checkLoaded\<close> sets its flag and resets it, unless it leaves early; it does nothing when the flag is set.\<close>

lemma evo_unflag:
  assumes "\<not> x_inCheckLoaded s" and "evo (s\<lparr>x_inCheckLoaded := True\<rparr>) t" and "x_mods u = x_mods t" and "x_runs u = x_runs t"
  shows "evo s u"
proof -
  have "mod_at b u = mod_at b t" "mod_at b (s\<lparr>x_inCheckLoaded := True\<rparr>) = mod_at b s" for b
    using assms(3) by (simp_all add: mod_at_def)
  moreover have "ok_runs u = ok_runs t" "ok_runs (s\<lparr>x_inCheckLoaded := True\<rparr>) = ok_runs s"
    using assms(3,4) calculation by (simp_all add: ok_runs_def ran_def)
  ultimately show ?thesis using assms by (simp add: evo_def)
qed

lemma checkLoaded_keeps: "keeps (checkLoaded pg rec)"
  unfolding keeps_def
proof
  fix s :: rctx
  let ?s1 = "s\<lparr>x_inCheckLoaded := True\<rparr>"
  let ?S = "foldS (scan_module pg rec (expired s))
      \<lparr>noLoads = [], stillLoading = False, needCycleCheck = True, usingPathFallback = False\<rparr> (map fst (x_registry s))"
  let ?C = "\<lambda>r. whenS (needCycleCheck r)
      (seqS [doS (rec (KWaits 0)), readS (\<lambda>s. forS (check_registered rec) (map fst (x_registry s)))])"
  let ?F = "\<lambda>r s'. s'\<lparr>x_timeout := (x_timeout s' \<or> (\<not> expired s \<or> usingPathFallback r) \<and> stillLoading r),
      x_inCheckLoaded := False\<rparr>"
  have S: "keeps ?S" by (intro keeps_intros scan_module_keeps)
  have C: "keeps (?C r)" for r by (intro keeps_intros rec_keeps check_registered_keeps)
  show "evo s (snd (checkLoaded pg rec s))"
  proof (cases "x_inCheckLoaded s")
    case True
    then show ?thesis by (simp add: checkLoaded_def readS_def ret_def evo_refl)
  next
    case False
    obtain q t where q: "?S ?s1 = (q, t)" by (cases "?S ?s1")
    have t: "evo ?s1 t" using S q unfolding keeps_def by (metis snd_conv)
    have run: "checkLoaded pg rec s =
        bindS ?S (\<lambda>r. if expired s \<and> noLoads r \<noteq> [] then onError rec (RErr ''timeout'' (noLoads r)) None
          else seqS [?C r, modS (?F r)]) ?s1"
      using False by (simp add: checkLoaded_def readS_def bindS_def [of "modS _"] modS_def)
    show ?thesis
    proof (cases q)
      case (Inl e)
      then show ?thesis using evo_unflag [OF False t refl refl] by (simp add: run bindS_def q)
    next
      case (Inr r)
      have run_r: "checkLoaded pg rec s =
          (if expired s \<and> noLoads r \<noteq> [] then onError rec (RErr ''timeout'' (noLoads r)) None else seqS [?C r, modS (?F r)]) t"
        unfolding run bindS_def [of ?S] q Inr by (simp only: prod.case sum.case)
      show ?thesis
      proof (cases "expired s \<and> noLoads r \<noteq> []")
        case True
        have "evo t (snd (onError rec (RErr ''timeout'' (noLoads r)) None t))"
          using onError_keeps unfolding keeps_def by blast
        from evo_unflag [OF False evo_trans [OF t this] refl refl] True show ?thesis
          by (simp add: run_r)
      next
        case no: False
        obtain c u where u: "?C r t = (c, u)" by (cases "?C r t")
        have "evo t u" using C [of r] u unfolding keeps_def by (metis snd_conv)
        note U = evo_trans [OF t this]
        have "snd (checkLoaded pg rec s) = (case c of Inl _ \<Rightarrow> u | Inr _ \<Rightarrow> ?F r u)"
          unfolding run_r seq_mod if_not_P [OF no] u by simp
        then show ?thesis using evo_unflag [OF False U] by (cases c) simp_all
      qed
    qed
  qed
qed

lemma configure_keeps: "keeps (configure pg rec cfg cb)"
  unfolding configure_def remap_module_def by (intro keeps_intros rec_keeps evo_upd evo_same) simp_all

lemma dispatch_keeps: "keeps (dispatch pg rec c)"
  by (cases c)
    (simp_all add: dispatch_def as_value_def keeps_bindS keeps_ret mod_check_keeps mod_enable_keeps mod_init_keeps
      mod_emit_keeps emit_from_keeps fire_keeps mod_fetch_keeps mod_callPlugin_keeps require_name_keeps
      require_deps_keeps intake_keeps load_queue_keeps completeLoad_keeps checkLoaded_keeps break_cycles_keeps
      forceExec_keeps)

lemma handle_event_keeps: "keeps (handle_event pg rec ev)"
proof (cases ev)
  case (PageRequire cfg deps fac errb)
  then show ?thesis
    unfolding handle_event_def req_call_def page_event.case
    by (simp, intro keeps_intros rec_keeps configure_keeps)
next
  case (PageDefine q)
  then show ?thesis unfolding handle_event_def by (simp, intro keeps_intros evo_same) simp_all
next
  case (ScriptLoad i qs)
  then show ?thesis
    unfolding handle_event_def onScriptLoad_def by (simp, intro keeps_intros rec_keeps evo_same) simp_all
next
  case (ScriptError i)
  then show ?thesis
    unfolding handle_event_def onScriptError_def by (simp, intro keeps_intros hasPathFallback_keeps onError_keeps)
next
  case Timer
  then show ?thesis unfolding handle_event_def by (simp, intro keeps_intros rec_keeps evo_same) simp_all
next
  case (Elapse t)
  then show ?thesis unfolding handle_event_def by (simp, intro keeps_intros evo_same) simp_all
qed

end

text \<open>The recursion keeps the contract for any amount of fuel.\<close>

lemma run_keeps: "keeps (run pg fuel c)"
proof (induction fuel arbitrary: c)
  case 0
  then show ?case by (simp add: keeps_throw)
next
  case (Suc fuel)
  then show ?case by (simp add: loader_rec.dispatch_keeps [OF loader_rec.intro])
qed

interpretation loader: loader_rec pg "run pg fuel" for pg fuel
  by unfold_locales (rule run_keeps)

lemma page_step_evo: "evo s (page_step pg fuel s ev)"
  using loader.handle_event_keeps [of pg fuel ev] by (simp add: keeps_def page_step_def)

interpretation loader_runs: step_system "page_step pg fuel" ok_runs for pg fuel
  by unfold_locales (use page_step_evo in \<open>auto simp: evo_def\<close>)

end
