(* ===== verification/Require_Properties.thy ===== *)
theory Require_Properties
  imports Require_Safety
begin

text \<open>
  The properties of a RequireJS context: the search for dependency cycles (it ends, and what it finds lies on a cycle),
  the call of a \<open>require\<close> callback whose dependencies are there, and what holds in every run of a page.
\<close>

subsection \<open>Cycles\<close>

abbreviation id_of :: "nat \<Rightarrow> rctx \<Rightarrow> string" where
  "id_of a s \<equiv> mm_id (m_map (mod_at a s))"

definition dep_edge :: "rctx \<Rightarrow> (nat \<times> nat) set" where
  "dep_edge s = {(a, b). \<exists>mp. DMap mp \<in> set (m_depMaps (mod_at a s)) \<and> registered (mm_id mp) s = Some b}"

definition reg_wf :: "rctx \<Rightarrow> bool" where
  "reg_wf s \<longleftrightarrow> (\<forall>i a. registered i s = Some a \<longrightarrow> id_of a s = i)"

lemma findCycle_sound_step:
  assumes wf: "reg_wf s"
  shows "findCycle n s a (map (\<lambda>p. id_of p s) ps) = Some c \<Longrightarrow> registered (id_of a s) s = Some a \<Longrightarrow>
      \<forall>p\<in>set ps. registered (id_of p s) s = Some p \<and> (p, a) \<in> (dep_edge s)\<^sup>+ \<Longrightarrow>
      (c, c) \<in> (dep_edge s)\<^sup>+ \<and> (a, c) \<in> (dep_edge s)\<^sup>*"
proof (induction n arbitrary: a ps)
  case (Suc n)
  let ?tr = "map (\<lambda>p. id_of p s) ps"
  have deps: "(c, c) \<in> (dep_edge s)\<^sup>+ \<and> (a, c) \<in> (dep_edge s)\<^sup>*"
    if "findCycle_deps n s ds (map (\<lambda>p. id_of p s) (a # ps)) = Some c" "set ds \<subseteq> set (m_depMaps (mod_at a s))" for ds
    using that
  proof (induction ds)
    case (Cons d ds)
    show ?case
    proof (cases "\<exists>mp b. d = DMap mp \<and> registered (mm_id mp) s = Some b")
      case False
      with Cons show ?thesis by (cases d) (auto split: option.splits)
    next
      case True
      then obtain mp b where d: "d = DMap mp" "registered (mm_id mp) s = Some b" by blast
      have e: "(a, b) \<in> dep_edge s" using Cons.prems(2) d by (auto simp: dep_edge_def)
      have b: "registered (id_of b s) s = Some b" using d(2) wf by (simp add: reg_wf_def)
      show ?thesis
      proof (cases "findCycle n s b (map (\<lambda>p. id_of p s) (a # ps))")
        case None
        then show ?thesis using Cons d by (auto split: if_splits)
      next
        case (Some c')
        then have c: "c' = c" using Cons.prems(1) d by (simp split: if_splits)
        have "\<forall>p\<in>set (a # ps). registered (id_of p s) s = Some p \<and> (p, b) \<in> (dep_edge s)\<^sup>+"
          using Suc.prems(2,3) e by (auto intro: trancl_into_trancl)
        from Suc.IH [OF Some [unfolded c] b this] show ?thesis
          using e by (meson converse_rtrancl_into_rtrancl)
      qed
    qed
  qed simp
  show ?case
  proof (cases "id_of a s \<in> set ?tr")
    case True
    then obtain p where p: "p \<in> set ps" "id_of p s = id_of a s" by auto
    then have "p = a" "(p, a) \<in> (dep_edge s)\<^sup>+" using Suc.prems(2,3) by (metis option.inject, blast)
    moreover have "c = a" using Suc.prems(1) True by (simp add: Let_def split: if_splits)
    ultimately show ?thesis by simp
  next
    case False
    then show ?thesis using deps [of "m_depMaps (mod_at a s)"] Suc.prems(1) by (simp add: Let_def split: if_splits)
  qed
qed simp

text \<open>Every level of the search adds an id of the registry to \<open>traced\<close>.\<close>

lemma findCycle_fuel_step:
  assumes wf: "reg_wf s"
  shows "registered (id_of a s) s = Some a \<Longrightarrow> card (fst ` set (x_registry s) - set tr) < n \<Longrightarrow>
      findCycle (n + k) s a tr = findCycle n s a tr"
proof (induction n arbitrary: a tr)
  case (Suc n)
  let ?K = "fst ` set (x_registry s)"
  have key: "i \<in> ?K" if "registered i s = Some b" for i b
    using that by (force simp: registered_def dest: map_of_SomeD)
  show ?case
  proof (cases "id_of a s \<in> set tr")
    case False
    have eq: "?K - set (id_of a s # tr) = (?K - set tr) - {id_of a s}" by auto
    have "Suc (card (?K - set tr - {id_of a s})) = card (?K - set tr)"
      by (rule card_Suc_Diff1) (use False key [OF Suc.prems(1)] in simp_all)
    then have less: "card (?K - set (id_of a s # tr)) < n" using Suc.prems(2) eq by simp
    have "findCycle_deps (n + k) s ds (id_of a s # tr) = findCycle_deps n s ds (id_of a s # tr)" for ds
    proof (induction ds)
      case (Cons d ds)
      show ?case
      proof (cases d)
        case (DMap mp)
        have "findCycle (n + k) s b (id_of a s # tr) = findCycle n s b (id_of a s # tr)" if "registered (mm_id mp) s = Some b" for b
          using Suc.IH [OF _ less, of b] that wf by (simp add: reg_wf_def)
        with Cons DMap show ?thesis by (simp split: option.split)
      qed (use Cons in simp)
    qed simp
    with False show ?thesis by (simp add: Let_def)
  qed (simp add: Let_def)
qed simp

subsection \<open>A require call whose dependencies are defined\<close>

text \<open>\<open>plain_name\<close>: a dependency that names a module directly (no plugin, no relative path, none of the special names);
  \<open>settled\<close>: its value is there and its module has left the registry.\<close>

definition plain_name :: "string \<Rightarrow> bool" where
  "plain_name d \<longleftrightarrow> d \<noteq> [] \<and> hd d \<noteq> CHR ''.'' \<and> CHR ''!'' \<notin> set d \<and> d \<notin> set handlers"

definition settled :: "rctx \<Rightarrow> string \<Rightarrow> rval \<Rightarrow> bool" where
  "settled s d v \<longleftrightarrow> plain_name d \<and> map_of (x_defined s) d = Some v \<and> registered d s = None"

lemma no_bang: "CHR ''!'' \<notin> set d \<Longrightarrow> index_of ''!'' d = None"
  by (auto simp: index_of_None_iff)

definition plain_map :: "rconfig \<Rightarrow> (string \<times> string) option \<Rightarrow> bool \<Rightarrow> string \<Rightarrow> mmap" where
  "plain_map c parent isDef d = \<lparr>mm_prefix = None, mm_name = d, mm_parent = parent, mm_unnormalized = False,
     mm_url = Some (nameToUrl c d None (map_option snd parent)), mm_isDefine = isDef, mm_id = d\<rparr>"

lemma makeModuleMap_plain:
  assumes "map_config (x_config s) = None" and "d \<noteq> []" and "hd d \<noteq> CHR ''.''" and "CHR ''!'' \<notin> set d"
  shows "makeModuleMap pg (Some d) parent isN am s = (Inr (plain_map (x_config s) parent True d), s)"
  using assms by (simp add: makeModuleMap_def split_plugin_def no_bang truthy_str_def normalize_absolute plain_map_def Let_def)

definition require_id :: "rctx \<Rightarrow> string" where
  "require_id s = ''_@r'' @ nat_str (x_requireCounter s + 1)"

lemma bang_not_digit: "CHR ''!'' \<notin> set (nat_str n)"
proof
  assume "CHR ''!'' \<in> set (nat_str n)"
  then obtain d where "d \<in> set (nat_digits n)" and d: "CHR ''!'' = digit_char d" by (auto simp: nat_str_def)
  then have "d < 10" using nat_digits_small by blast
  then have "(of_char (digit_char d) :: nat) = 48 + d" by (simp add: digit_char_def)
  moreover have "(of_char (CHR ''!'') :: nat) = 33" by simp
  ultimately show False using d by simp
qed

lemma makeModuleMap_require:
  assumes "map_config (x_config s) = None"
  shows "makeModuleMap pg None rel isN am s =
    (Inr (plain_map (x_config s) rel False (require_id s)), s\<lparr>x_requireCounter := x_requireCounter s + 1\<rparr>)"
  using assms bang_not_digit [of "x_requireCounter s + 1"]
  by (simp add: makeModuleMap_def split_plugin_def no_bang truthy_str_def normalize_absolute plain_map_def require_id_def Let_def)

text \<open>One dependency: the listener is called at once and the value is recorded; the module is still being enabled, so the
  nested \<open>check\<close> returns.\<close>

definition wire :: "nat \<Rightarrow> mmap \<Rightarrow> rval \<Rightarrow> rmod \<Rightarrow> rmod" where
  "wire i mp v m = m\<lparr>m_depMaps := (m_depMaps m)[i := DMap mp], m_depMatched := i # m_depMatched m,
     m_depExports := arr_put i v (m_depExports m)\<rparr>"

lemma upd_mod_upd_mod: "upd_mod a f (upd_mod a g s) = upd_mod a (f \<circ> g) s"
  by (cases "a < length (x_mods s)") (simp_all add: upd_mod_def list_update_beyond)

lemma upd_mod_reads [simp]:
  "registered i (upd_mod a f s) = registered i s" "def_value i (upd_mod a f s) = def_value i s"
  by (simp_all add: registered_def def_value_def)

lemma fire_dep_enabling:
  assumes "a < length (x_mods s)" and "m_enabling (mod_at a s)" and "i \<notin> set (m_depMatched (mod_at a s))"
  shows "run pg (Suc (Suc n)) (KFire (LDep a i) (EVal v)) s =
    (Inr RUndef, upd_mod a (\<lambda>m. m\<lparr>m_depMatched := i # m_depMatched m, m_depCount := m_depCount m - 1,
       m_depExports := arr_put i v (m_depExports m)\<rparr>) s)"
proof -
  let ?g = "\<lambda>m. m\<lparr>m_depMatched := i # m_depMatched m, m_depCount := m_depCount m - 1,
       m_depExports := arr_put i v (m_depExports m)\<rparr>"
  have upd: "upd_mod a (\<lambda>m. if i \<in> set (m_depMatched m) then m else ?g m) s = upd_mod a ?g s"
    using assms by (simp add: upd_mod_def mod_at_def)
  have "m_enabling (mod_at a (upd_mod a ?g s))" using assms by (simp add: mod_at_upd)
  then have "run pg (Suc n) (KCheck a False) (upd_mod a ?g s) = (Inr RUndef, upd_mod a ?g s)"
    by (simp add: dispatch_def as_value_def mod_check_def readS_def bindS_def ret_def Let_def)
  then show ?thesis
    by (subst run.simps(2))
      (simp add: dispatch_def as_value_def fire_def defineDep_def modS_def bindS_def doS_def ret_def upd del: run.simps(2))
qed

lemmas comp_simps = bindS_def modS_def getS_def readS_def doS_def whenS_def ret_def

lemma enable_dep_settled:
  assumes a: "a < length (x_mods s)" and m: "m_enabling (mod_at a s)" "m_errback (mod_at a s) = None"
      "m_depMaps (mod_at a s) ! i = DName d" "i \<notin> set (m_depMatched (mod_at a s))"
    and d: "settled s d v" and c: "map_config (x_config s) = None"
  shows "\<exists>mp. enable_dep pg (run pg (Suc (Suc n))) a i s = (Inr (), upd_mod a (wire i mp v) s)"
proof -
  define p where "p = (let m = m_map (mod_at a s) in if mm_isDefine m then Some (map_ref m) else mm_parent m)"
  define mp where "mp = plain_map (x_config s) p True d"
  let ?s1 = "upd_mod a (\<lambda>m. m\<lparr>m_depMaps := (m_depMaps m)[i := DMap mp]\<rparr>) s"
  let ?s2 = "upd_mod a (\<lambda>m. m\<lparr>m_depCount := m_depCount m + 1\<rparr>) ?s1"
  let ?g = "\<lambda>m. m\<lparr>m_depMatched := i # m_depMatched m, m_depCount := m_depCount m - 1,
       m_depExports := arr_put i v (m_depExports m)\<rparr>"
  have d': "d \<noteq> []" "hd d \<noteq> CHR ''.''" "CHR ''!'' \<notin> set d" "d \<notin> set handlers"
      "map_of (x_defined s) d = Some v" "registered d s = None"
    using d by (simp_all add: settled_def plain_name_def)
  have id: "mm_id mp = d" by (simp add: plain_map_def mp_def)
  have fire: "run pg (Suc (Suc n)) (KFire (LDep a i) (EVal v)) ?s2 = (Inr RUndef, upd_mod a ?g ?s2)"
    by (rule fire_dep_enabling) (use a m in \<open>simp_all add: mod_at_upd\<close>)
  have "def_value d s = v" using d'(5) by (simp add: def_value_def)
  then have on: "on_dep (run pg (Suc (Suc n))) mp Defined (LDep a i) ?s2 = (Inr (), upd_mod a ?g ?s2)"
    using d'(5,6) by (simp add: on_dep_def readS_def id whenS_def doS_def bindS_def fire ret_def del: run.simps)
  have new: "enable_new (run pg (Suc (Suc n))) mp t = (Inr (), t)" if "registered d t = None" for t
    using that by (simp add: enable_new_def comp_simps id del: run.simps)
  have mk: "makeModuleMap pg (Some d) p False am s = (Inr mp, s)" for am
    unfolding mp_def by (rule makeModuleMap_plain) (use d' c in simp_all)
  have "enable_dep pg (run pg (Suc (Suc n))) a i s = (Inr (), upd_mod a ?g ?s2)"
    using m(2,3) d'(1,4,6) on new [of "upd_mod a ?g ?s2"] mk
    by (simp add: enable_dep_def readS_def bindS_def modS_def ret_def id Let_def p_def [unfolded Let_def, symmetric]
        del: run.simps)
  moreover have "upd_mod a ?g ?s2 = upd_mod a (wire i mp v) s"
    unfolding upd_mod_upd_mod by (rule arg_cong [of _ _ "\<lambda>f. upd_mod a f s"]) (simp add: fun_eq_iff wire_def)
  ultimately show ?thesis by auto
qed

lemma arr_put_end: "i = length xs \<Longrightarrow> arr_put i v xs = xs @ [v]"
  by (simp add: arr_put_def)

lemma enable_all_settled:
  assumes "list_all2 (settled s) (drop k ds) (drop k vs)" and "length vs = length ds" and "k \<le> length ds"
    and "a < length (x_mods s)" and "m_enabling (mod_at a s)" and "m_errback (mod_at a s) = None"
    and "\<forall>i. k \<le> i \<and> i < length ds \<longrightarrow> m_depMaps (mod_at a s) ! i = DName (ds ! i)"
    and "\<forall>i\<in>set (m_depMatched (mod_at a s)). i < k" and "length (m_depExports (mod_at a s)) = k"
    and "map_config (x_config s) = None"
  shows "\<exists>dm mt. forS (enable_dep pg (run pg (Suc (Suc n))) a) [k..<length ds] s =
    (Inr (), upd_mod a (\<lambda>m. m\<lparr>m_depMaps := dm, m_depMatched := mt, m_depExports := m_depExports m @ drop k vs\<rparr>) s)"
  using assms
proof (induction "length ds - k" arbitrary: k s)
  case 0
  then have "[k..<length ds] = []" "drop k vs = []" by simp_all
  moreover have "upd_mod a (\<lambda>m. m\<lparr>m_depMaps := m_depMaps (mod_at a s), m_depMatched := m_depMatched (mod_at a s),
      m_depExports := m_depExports m @ []\<rparr>) s = s"
    using 0 by (simp add: upd_mod_def mod_at_def)
  ultimately show ?case
    by (intro exI [of _ "m_depMaps (mod_at a s)"] exI [of _ "m_depMatched (mod_at a s)"]) (simp only: forS.simps ret_def)
next
  case (Suc l)
  then have k: "k < length ds" by simp
  have split: "drop k ds = ds ! k # drop (Suc k) ds" "drop k vs = vs ! k # drop (Suc k) vs"
    using k Suc.prems(2) by (simp_all add: Cons_nth_drop_Suc)
  have set: "settled s (ds ! k) (vs ! k)" "list_all2 (settled s) (drop (Suc k) ds) (drop (Suc k) vs)"
    using Suc.prems(1) split by simp_all
  have km: "m_depMaps (mod_at a s) ! k = DName (ds ! k)" "k \<notin> set (m_depMatched (mod_at a s))"
    using Suc.prems(7,8) k by auto
  obtain mp where step: "enable_dep pg (run pg (Suc (Suc n))) a k s = (Inr (), upd_mod a (wire k mp (vs ! k)) s)"
    using enable_dep_settled [OF Suc.prems(4-6) km set(1) Suc.prems(10)] by blast
  let ?t = "upd_mod a (wire k mp (vs ! k)) s"
  have st: "settled ?t = settled s" by (simp add: fun_eq_iff settled_def)
  have at: "mod_at a ?t = wire k mp (vs ! k) (mod_at a s)" using Suc.prems(4) by (simp add: mod_at_upd)
  have "\<exists>dm mt. forS (enable_dep pg (run pg (Suc (Suc n))) a) [Suc k..<length ds] ?t =
    (Inr (), upd_mod a (\<lambda>m. m\<lparr>m_depMaps := dm, m_depMatched := mt, m_depExports := m_depExports m @ drop (Suc k) vs\<rparr>) ?t)"
  proof (rule Suc.hyps(1))
    show "list_all2 (settled ?t) (drop (Suc k) ds) (drop (Suc k) vs)" unfolding st by (rule set)
    show "\<forall>i\<in>set (m_depMatched (mod_at a ?t)). i < Suc k" using Suc.prems(8) unfolding at by (auto simp: wire_def less_Suc_eq)
    show "length (m_depExports (mod_at a ?t)) = Suc k" using Suc.prems(9) unfolding at by (simp add: wire_def arr_put_end)
  qed (use Suc.hyps(2) Suc.prems k in \<open>simp_all add: at wire_def\<close>)
  then obtain dm mt where rest: "forS (enable_dep pg (run pg (Suc (Suc n))) a) [Suc k..<length ds] ?t =
    (Inr (), upd_mod a (\<lambda>m. m\<lparr>m_depMaps := dm, m_depMatched := mt, m_depExports := m_depExports m @ drop (Suc k) vs\<rparr>) ?t)"
    by blast
  have "upd_mod a (\<lambda>m. m\<lparr>m_depMaps := dm, m_depMatched := mt, m_depExports := m_depExports m @ drop (Suc k) vs\<rparr>) ?t =
    upd_mod a (\<lambda>m. m\<lparr>m_depMaps := dm, m_depMatched := mt, m_depExports := m_depExports m @ drop k vs\<rparr>) s"
    using Suc.prems(4,9) by (simp add: upd_mod_def mod_at_def wire_def split arr_put_end)
  with rest step show ?case
    using k by (auto simp: upt_conv_Cons bindS_def simp del: run.simps)
qed

text \<open>\<open>logs e c s\<close>: the first factory that \<open>c\<close> calls is \<open>e\<close>.\<close>

definition logs :: "nat \<times> rval list \<Rightarrow> 'a comp \<Rightarrow> rctx \<Rightarrow> bool" where
  "logs e c s \<longleftrightarrow> ok_runs (snd (c s)) \<and> (\<exists>r. x_runs (snd (c s)) = x_runs s @ e # r)"

lemma keeps_runs: "keeps c \<Longrightarrow> ok_runs s \<Longrightarrow> ok_runs (snd (c s)) \<and> (\<exists>r. x_runs (snd (c s)) = x_runs s @ r)"
  by (simp add: keeps_def evo_def)

lemma logs_first:
  assumes "logs e c s" and "\<And>v. keeps (k v)"
  shows "logs e (bindS c k) s"
proof -
  obtain q t where c: "c s = (q, t)" by (cases "c s")
  with assms(1) obtain r where t: "ok_runs t" "x_runs t = x_runs s @ e # r" by (auto simp: logs_def)
  show ?thesis
  proof (cases q)
    case (Inr v)
    obtain r' where "ok_runs (snd (k v t))" "x_runs (snd (k v t)) = x_runs t @ r'"
      using keeps_runs [OF assms(2) t(1)] by blast
    with t c Inr show ?thesis by (simp add: logs_def bindS_def)
  qed (use t c in \<open>simp add: logs_def bindS_def\<close>)
qed

lemma logs_after: "c s = (Inr v, t) \<Longrightarrow> x_runs t = x_runs s \<Longrightarrow> logs e (k v) t \<Longrightarrow> logs e (bindS c k) s"
  by (simp add: logs_def bindS_def)

lemma logs_doS: "logs e c s \<Longrightarrow> logs e (doS c) s"
  unfolding doS_def by (erule logs_first) (rule keeps_ret)

lemma logs_as_value: "logs e c s \<Longrightarrow> logs e (as_value c) s"
  unfolding as_value_def by (erule logs_first) (rule keeps_ret)

lemma logs_read: "logs e (f s) s \<Longrightarrow> logs e (readS f) s"
  by (simp add: logs_def readS_def)

text \<open>A module that is ready runs its factory on the values of its dependencies.\<close>

lemma exec_factory_logs:
  assumes "a < length (x_mods s)" and "m_defining (mod_at a s)" and "a \<notin> set (ran s)" and "ok_runs s"
    and f: "m_factory (mod_at a s) = Some (DFun n src f)"
  shows "logs (a, m_depExports (mod_at a s)) (exec_factory (run pg fuel) a i) s"
proof -
  let ?vs = "m_depExports (mod_at a s)"
  let ?t = "s\<lparr>x_runs := x_runs s @ [(a, ?vs)]\<rparr>"
  have "evo s ?t" by (rule loader.evo_log_run) (use assms in simp_all)
  then have ok: "ok_runs ?t" using assms(4) by (simp add: evo_def)
  have body: "keeps (bindS (if ev_error (events_of a s) \<noteq> None then tryS (run_fact (run pg fuel) a (f ?vs))
        else bindS (run_fact (run pg fuel) a (f ?vs)) (\<lambda>v. ret (Inr v)))
      (\<lambda>r. case r of
         Inr v \<Rightarrow> getS (\<lambda>s. Some (pick_exports (mod_at a s) v))
       | Inl _ \<Rightarrow> bindS (seqS [modS (upd_mod a (\<lambda>m. m\<lparr>m_error := Some (RErr ''define'' [i])\<rparr>)),
           onError (run pg fuel) (RErr ''define'' [i]) None]) (\<lambda>_. ret None)))" (is "keeps ?B")
    by (intro keeps_intros loader.run_fact_keeps loader.onError_keeps evo_upd) simp
  have "snd (exec_factory (run pg fuel) a i s) = snd (?B ?t)"
    using f by (simp only: exec_factory_def readS_def Let_def option.case defn.case bindS_def [of "modS _"]
        modS_def prod.case sum.case)
  with keeps_runs [OF body ok] show ?thesis by (auto simp: logs_def)
qed

lemma mod_check_logs:
  assumes a: "a < length (x_mods s)" and ok: "ok_runs s"
    and m: "m_enabled (mod_at a s)" "\<not> m_enabling (mod_at a s)" "m_inited (mod_at a s)" "m_error (mod_at a s) = None"
      "\<not> m_defining (mod_at a s)" "m_depCount (mod_at a s) < 1" "\<not> m_defined (mod_at a s)"
      "m_factory (mod_at a s) = Some (DFun n src f)"
  shows "logs (a, m_depExports (mod_at a s)) (run pg (Suc fuel) (KCheck a False)) s"
proof -
  let ?s1 = "upd_mod a (\<lambda>m. m\<lparr>m_defining := True\<rparr>) s"
  let ?e = "(a, m_depExports (mod_at a s))"
  have "evo s ?s1" by (rule evo_upd) simp
  then have ok1: "ok_runs ?s1" using ok by (simp add: evo_def)
  have "a \<notin> set (ran s)" using ok m(5,7) by (auto simp: ok_runs_def)
  then have new: "a \<notin> set (ran ?s1)" by (simp add: ran_def)
  have "logs (a, m_depExports (mod_at a ?s1)) (exec_factory (run pg fuel) a (mm_id (m_map (mod_at a s)))) ?s1"
    by (rule exec_factory_logs) (use a new ok1 m in \<open>simp_all add: mod_at_upd\<close>)
  then have ex: "logs ?e (exec_factory (run pg fuel) a (mm_id (m_map (mod_at a s)))) ?s1" using a by (simp add: mod_at_upd)
  have "logs ?e (define_module (run pg fuel) a (mm_id (m_map (mod_at a s)))) ?s1"
    unfolding define_module_def using ex
    by (rule logs_first) (intro keeps_intros loader.store_module_evo)
  then obtain q t r where D: "define_module (run pg fuel) a (mm_id (m_map (mod_at a s))) ?s1 = (q, t)"
      "ok_runs t" "x_runs t = x_runs s @ ?e # r"
    unfolding logs_def by (cases "define_module (run pg fuel) a (mm_id (m_map (mod_at a s))) ?s1") auto
  have t: "evo ?s1 t \<and> (q = Inr True \<longrightarrow> m_defined (mod_at a t))"
    using loader.define_module_evo [of a ?s1 pg fuel "mm_id (m_map (mod_at a s))"] a new ok1 D(1) by (simp add: mod_at_upd)
  have check: "mod_check (run pg fuel) a False s =
      bindS (define_module (run pg fuel) a (mm_id (m_map (mod_at a s))))
        (\<lambda>go. whenS go (seqS [modS (upd_mod a (\<lambda>m. m\<lparr>m_defining := False\<rparr>)), emit_defined (run pg fuel) a])) ?s1"
    using m by (simp add: mod_check_def readS_def Let_def bindS_def [of "modS _"] modS_def whenS_def [of True])
  have "logs ?e (mod_check (run pg fuel) a False) s"
  proof (cases "q = Inr True")
    case True
    let ?u = "upd_mod a (\<lambda>m. m\<lparr>m_defining := False\<rparr>) t"
    have "evo s ?u" by (rule evo_clear_defining) (use t True m \<open>evo s ?s1\<close> evo_trans in auto)
    then have u: "ok_runs ?u" using ok by (simp add: evo_def)
    have "snd (mod_check (run pg fuel) a False s) = snd (emit_defined (run pg fuel) a ?u)"
      by (simp add: check bindS_def [of "define_module _ _ _"] D(1) True whenS_def bindS_def [of "modS _"] modS_def snd_bind_ret)
    then show ?thesis
      using keeps_runs [OF loader.emit_defined_keeps u, of pg fuel a] D(3) by (auto simp: logs_def)
  next
    case False
    then have "snd (mod_check (run pg fuel) a False s) = t"
      by (cases q) (auto simp: check bindS_def D(1) whenS_def ret_def)
    then show ?thesis using D(2,3) by (auto simp: logs_def)
  qed
  then show ?thesis by (simp add: dispatch_def logs_as_value)
qed

text \<open>Enabling a fresh module all of whose dependencies are settled.\<close>

lemma mod_at_waits [simp]: "mod_at a (s\<lparr>x_waitAry := w, x_waitCount := k\<rparr>) = mod_at a s"
  by (simp add: mod_at_def)

lemma settled_cong: "x_defined t = x_defined s \<Longrightarrow> x_registry t = x_registry s \<Longrightarrow> settled t = settled s"
  by (simp add: fun_eq_iff settled_def registered_def)

definition ready :: "rmod \<Rightarrow> bool" where
  "ready m \<longleftrightarrow> m_inited m \<and> m_error m = None \<and> \<not> m_defining m \<and> m_depCount m < 1 \<and> \<not> m_defined m \<and>
     m_errback m = None \<and> m_depMatched m = [] \<and> m_depExports m = [] \<and> m_pluginMaps m = [] \<and> \<not> m_waitPushed m"

lemma mod_enable_logs:
  assumes a: "a < length (x_mods s)" and ok: "ok_runs s" and m: "ready (mod_at a s)"
    and f: "m_factory (mod_at a s) = Some (DFun k src f)" and ds: "m_depMaps (mod_at a s) = map DName ds"
    and d: "list_all2 (settled s) ds vs" and c: "map_config (x_config s) = None"
  shows "logs (a, vs) (run pg (Suc (Suc (Suc n))) (KEnable a)) s"
proof -
  let ?rec = "run pg (Suc (Suc n))"
  let ?s1 = "upd_mod a (\<lambda>m. m\<lparr>m_enabled := True\<rparr>) s"
  let ?w = "?s1\<lparr>x_waitAry := x_waitAry ?s1 @ [a], x_waitCount := x_waitCount ?s1 + 1\<rparr>"
  let ?s2 = "upd_mod a (\<lambda>m. m\<lparr>m_waitPushed := True\<rparr>) ?w"
  let ?s3 = "upd_mod a (\<lambda>m. m\<lparr>m_enabling := True\<rparr>) ?s2"
  have m3: "mod_at a ?s3 = (mod_at a s)\<lparr>m_enabled := True, m_waitPushed := True, m_enabling := True\<rparr>"
    using a by (simp add: mod_at_upd)
  have "settled ?s3 = settled s" by (rule settled_cong) simp_all
  moreover have "length vs = length ds" using d by (simp add: list_all2_lengthD)
  ultimately have "\<exists>dm mt. forS (enable_dep pg ?rec a) [0..<length ds] ?s3 = (Inr (), upd_mod a
      (\<lambda>m. m\<lparr>m_depMaps := dm, m_depMatched := mt, m_depExports := m_depExports m @ drop 0 vs\<rparr>) ?s3)"
    by (intro enable_all_settled) (use a m ds d c in \<open>simp_all add: m3 ready_def\<close>)
  then obtain dm mt where loop: "forS (enable_dep pg ?rec a) [0..<length ds] ?s3 = (Inr (), upd_mod a
      (\<lambda>m. m\<lparr>m_depMaps := dm, m_depMatched := mt, m_depExports := m_depExports m @ vs\<rparr>) ?s3)" (is "_ = (_, ?s4)") by auto
  let ?s5 = "upd_mod a (\<lambda>m. m\<lparr>m_enabling := False\<rparr>) ?s4"
  have m5: "mod_at a ?s5 = (mod_at a s)\<lparr>m_enabled := True, m_waitPushed := True, m_enabling := False, m_depMaps := dm,
      m_depMatched := mt, m_depExports := vs\<rparr>"
    using a m by (simp add: mod_at_upd ready_def)
  have evo: "evo s ?s1" "evo ?s1 ?w" "evo ?w ?s2" "evo ?s2 ?s3" "evo ?s3 ?s4" "evo ?s4 ?s5"
    by (rule evo_upd evo_same; simp)+
  have ok5: "ok_runs ?s5"
    using evo(1) [THEN evo_trans, OF evo(2), THEN evo_trans, OF evo(3), THEN evo_trans, OF evo(4), THEN evo_trans, OF evo(5),
      THEN evo_trans, OF evo(6)] ok by (simp add: evo_def)
  have "logs (a, m_depExports (mod_at a ?s5)) (run pg (Suc (Suc n)) (KCheck a False)) ?s5"
    by (rule mod_check_logs) (use a ok5 m f in \<open>simp_all only: m5 ready_def, simp_all\<close>)
  then have last: "logs (a, vs) (run pg (Suc (Suc n)) (KCheck a False)) ?s5" by (simp add: m5)
  have steps: "readS (\<lambda>s. whenS (\<not> m_waitPushed (mod_at a s))
             (modS (\<lambda>s. upd_mod a (\<lambda>m. m\<lparr>m_waitPushed := True\<rparr>)
                (s\<lparr>x_waitAry := x_waitAry s @ [a], x_waitCount := x_waitCount s + 1\<rparr>)))) ?s1 = (Inr (), ?s2)"
      "readS (\<lambda>s. forS (enable_dep pg ?rec a) [0..<length (m_depMaps (mod_at a s))]) ?s3 = (Inr (), ?s4)"
      "readS (\<lambda>s. forS (enable_plugin ?rec) (m_pluginMaps (mod_at a s))) ?s4 = (Inr (), ?s4)"
    using a m ds loop by (simp_all add: comp_simps mod_at_upd ready_def del: run.simps)
  have "logs (a, vs) (mod_enable pg ?rec a) s"
    unfolding mod_enable_def seqS.simps
    apply (rule logs_after [where t = ?s1], simp add: modS_def, simp)
    apply (rule logs_after [where t = ?s2], rule steps(1), simp)
    apply (rule logs_after [where t = ?s3], simp add: modS_def, simp)
    apply (rule logs_after [where t = ?s4], rule steps(2), simp)
    apply (rule logs_after [where t = ?s4], rule steps(3), simp)
    apply (rule logs_after [where t = ?s5], simp add: modS_def, simp)
    by (rule logs_first [OF logs_doS [OF last]]) (rule keeps_ret)
  then show ?thesis by (subst run.simps(2)) (simp add: dispatch_def logs_as_value del: run.simps)
qed

lemma intake_empty: "x_defQueue s = [] \<Longrightarrow> run pg (Suc n) KIntake s = (Inr RUndef, s)"
  by (simp add: dispatch_def as_value_def intake_def comp_simps)

lemma require_logs:
  assumes q: "x_defQueue s = []" "x_globalQueue s = []" and c: "map_config (x_config s) = None" and ok: "ok_runs s"
    and d: "list_all2 (settled s) ds vs"
    and new: "registered (require_id s) s = None" "map_of (x_undefEvents s) (require_id s) = None"
      "require_id s \<notin> set ds"
  shows "logs (length (x_mods s), vs)
    (run pg (Suc (Suc (Suc (Suc (Suc n))))) (KRequire ds skip (Some (DFun k src f)) None rel)) s"
proof -
  let ?rec = "run pg (Suc (Suc (Suc (Suc n))))"
  let ?fac = "Some (DFun k src f)"
  define a where "a = length (x_mods s)"
  define mp where "mp = plain_map (x_config s) rel False (require_id s)"
  define s1 where "s1 = s\<lparr>x_requireCounter := x_requireCounter s + 1\<rparr>"
  define fr where "fr = fresh_module s1 mp (length (x_events s))"
  define s3 where "s3 = s1\<lparr>x_mods := x_mods s @ [fr], x_events := x_events s @ [\<lparr>ev_defined = None, ev_error = None\<rparr>],
     x_registry := AList.update (require_id s) a (x_registry s)\<rparr>"
  let ?g = "\<lambda>m. m\<lparr>m_factory := ?fac, m_depMaps := map DName ds, m_skipMap := skip, m_errback := None,
     m_inited := True, m_ignore := False\<rparr>"
  let ?s4 = "upd_mod a ?g s3"
  have id: "mm_id mp = require_id s" by (simp add: mp_def plain_map_def)
  have get: "getModule mp s1 = (Inr a, s3)"
    using new(1,2) by (simp add: getModule_def new_module_def comp_simps id registered_def Let_def s1_def s3_def a_def fr_def)
  have m3: "mod_at a s3 = fr" "a < length (x_mods s3)" by (simp_all add: mod_at_def s3_def a_def)
  have f3: "x_runs s3 = x_runs s" "x_config s3 = x_config s" "x_defined s3 = x_defined s"
      "x_registry s3 = AList.update (require_id s) a (x_registry s)"
    by (simp_all add: s3_def s1_def)
  have ev: "ev_error (events_of a s3) = None"
    unfolding events_of_def m3 by (simp add: fr_def fresh_module_def s3_def)
  have m4: "mod_at a ?s4 = ?g fr" by (simp add: mod_at_upd m3)
  have "evo s s3" by (rule evo_new) (simp_all add: s3_def s1_def)
  moreover have "evo s3 ?s4" by (rule evo_upd) simp
  ultimately have "evo s ?s4" by (rule evo_trans)
  then have ok4: "ok_runs ?s4" using ok by (simp add: evo_def)
  have set: "settled ?s4 e v" if "settled s e v" "e \<in> set ds" for e v
    using that new(3) by (auto simp: settled_def registered_def f3)
  have d4: "list_all2 (settled ?s4) ds vs" using d set by (auto simp: list_all2_conv_all_nth)
  have "logs (a, vs) (run pg (Suc (Suc (Suc n))) (KEnable a)) ?s4"
    by (rule mod_enable_logs [OF _ ok4 _ _ _ d4])
      (simp_all add: m3 m4 f3 c, simp_all add: fr_def ready_def fresh_module_def inert_def)
  then have "logs (a, vs) (seqS [doS (run pg (Suc (Suc (Suc n))) (KEnable a))]) ?s4"
    unfolding seqS.simps by (rule logs_first [OF logs_doS]) (rule keeps_ret)
  then have "logs (a, vs) (mod_init (run pg (Suc (Suc (Suc n)))) a ds skip ?fac None True False) s3"
    using ev m3 by (simp add: mod_init_def logs_def readS_def bindS_def modS_def ret_def fr_def fresh_module_def inert_def
        del: run.simps)
  then have init: "logs (a, vs) (?rec (KInit a ds skip ?fac None True False)) s3"
    by (subst run.simps(2)) (simp add: dispatch_def logs_as_value del: run.simps)
  have queue: "take_queue s = s" using q by (simp add: take_queue_def takeGlobalQueue_def)
  let ?M = "\<lambda>mp. bindS (getModule mp) (\<lambda>a. doS (?rec (KInit a ds skip ?fac None True False)))"
  have "logs (a, vs) (bindS (makeModuleMap pg None rel False False) ?M) s"
  proof (rule logs_after)
    show "makeModuleMap pg None rel False False s = (Inr mp, s1)" using c by (simp add: makeModuleMap_require mp_def s1_def)
    show "logs (a, vs) (?M mp) s1"
      by (rule logs_after, rule get, simp add: f3 s1_def, rule logs_doS [OF init])
  qed (simp add: s1_def)
  then have rest: "logs (a, vs) (seqS [bindS (makeModuleMap pg None rel False False) ?M, doS (?rec KCheckLoaded)]) s"
    unfolding seqS.simps by (rule logs_first) (intro keeps_intros run_keeps)
  have "logs (a, vs) (require_deps pg ?rec ds skip ?fac None rel) s"
    unfolding require_deps_def seqS.simps(2) [of "modS take_queue"] seqS.simps(2) [of "doS (?rec KIntake)"]
    apply (rule logs_after [where t = s], simp add: modS_def queue, simp)
    apply (rule logs_after [where t = s], simp add: doS_def bindS_def intake_empty q(1) ret_def del: run.simps, simp)
    by (rule rest)
  then show ?thesis unfolding a_def by (subst run.simps(2)) (simp add: dispatch_def logs_as_value del: run.simps)
qed

subsection \<open>What holds in every run of a page\<close>

lemma ok_newContext: "ok_runs newContext"
  by (simp add: ok_runs_def ran_def newContext_def)

lemma checkLoaded_blocked: "x_inCheckLoaded s \<Longrightarrow> run pg (Suc n) KCheckLoaded s = (Inr RUndef, s)"
  by (simp add: dispatch_def as_value_def checkLoaded_def comp_simps)

lemma flag_stays: "ok_runs s \<Longrightarrow> x_inCheckLoaded s \<Longrightarrow> x_inCheckLoaded (foldl (page_step pg fuel) s evs)"
proof (induction evs arbitrary: s)
  case (Cons ev evs)
  have "evo s (page_step pg fuel s ev)" by (rule page_step_evo)
  then have "ok_runs (page_step pg fuel s ev)" "x_inCheckLoaded (page_step pg fuel s ev)"
    using Cons.prems by (simp_all add: evo_def)
  then show ?case using Cons.IH by simp
qed simp

text \<open>When time is up and modules are missing, with nobody listening for their errors, the timer raises the error.\<close>

lemma timer_event: "x_timeout s \<Longrightarrow> page_step pg fuel s Timer = snd (run pg fuel KCheckLoaded (s\<lparr>x_timeout := False\<rparr>))"
  by (simp add: page_step_def handle_event_def comp_simps split: prod.split sum.split)

subsection \<open>Properties\<close>

definition ex_page :: page where
  "ex_page = \<lparr>pg_plugin = (\<lambda>_. None), pg_global = (\<lambda>_. RUndef), pg_shim = (\<lambda>_ _. FReturn RUndef)\<rparr>"

definition ex_factory :: "nat \<Rightarrow> factory" where
  "ex_factory k = Some (DFun 0 [] (\<lambda>_. FReturn (RObj k)))"

definition ex_events :: "page_event list" where
  "ex_events = [PageRequire None [''a''] (ex_factory 0) None, ScriptLoad ''a'' [(None, [''b''], ex_factory 1)],
     ScriptLoad ''b'' [(None, [''a''], ex_factory 2)]]"

text \<open>C3: a factory runs at most once: in every run of a page (any scripts, errors, time-outs, dependency cycles and
  factories that call \<open>require\<close> and \<open>define\<close> themselves), no module's factory is called twice, and a module whose
  factory was called is defined or still being defined.\<close>

theorem factories_run_once:
  "distinct (map fst (x_runs (foldl (page_step pg fuel) newContext evs))) \<and>
   (\<forall>a\<in>set (map fst (x_runs (foldl (page_step pg fuel) newContext evs))).
      m_defined (mod_at a (foldl (page_step pg fuel) newContext evs)) \<or>
      m_defining (mod_at a (foldl (page_step pg fuel) newContext evs)))"
  using loader_runs.run_ok [OF ok_newContext] by (simp add: ok_runs_def ran_def)

theorem factories_run_once_witness:
  "distinct (map fst (x_runs (foldl (page_step ex_page 14) newContext ex_events))) \<and>
   x_runs (foldl (page_step ex_page 14) newContext ex_events) = [(2, [RUndef]), (1, [RObj 2]), (0, [RObj 1])]"
proof
  show "distinct (map fst (x_runs (foldl (page_step ex_page 14) newContext ex_events)))"
    using factories_run_once by blast
  show "x_runs (foldl (page_step ex_page 14) newContext ex_events) = [(2, [RUndef]), (1, [RObj 2]), (0, [RObj 1])]"
    unfolding ex_events_def ex_factory_def by code_simp
qed

text \<open>C4: \<open>require\<close> delivers: when all dependencies are defined, a \<open>require\<close> call runs its callback at once, as the first
  factory and on exactly the values of the dependencies in the order of the array.\<close>

theorem require_calls_back:
  assumes "ok_runs s" and "x_defQueue s = []" and "x_globalQueue s = []" and "map_config (x_config s) = None"
    and "list_all2 (settled s) ds vs" and "registered (require_id s) s = None"
    and "map_of (x_undefEvents s) (require_id s) = None" and "require_id s \<notin> set ds" and "5 \<le> fuel"
  shows "\<exists>r. x_runs (snd (run pg fuel (KRequire ds skip (Some (DFun k src f)) None rel) s)) =
    x_runs s @ (length (x_mods s), vs) # r"
proof -
  obtain n where "fuel = Suc (Suc (Suc (Suc (Suc n))))" using assms(9) by (auto simp: numeral_eq_Suc le_iff_add)
  with require_logs [OF assms(2,3,4,1,5-8)] show ?thesis by (simp add: logs_def del: run.simps)
qed

theorem require_calls_back_witness:
  "\<exists>r. x_runs (snd (run ex_page 5 (KRequire [''a'', ''b''] False (Some (DFun 0 [] (\<lambda>vs. FReturn (hd vs)))) None None)
     (newContext\<lparr>x_defined := [(''b'', RObj 2), (''a'', RObj 1)]\<rparr>))) = [(0, [RObj 1, RObj 2])] @ r"
  using require_calls_back [of "newContext\<lparr>x_defined := [(''b'', RObj 2), (''a'', RObj 1)]\<rparr>" "[''a'', ''b'']" "[RObj 1, RObj 2]"
      5 ex_page False 0 "[]" "\<lambda>vs. FReturn (hd vs)" None]
  by (simp add: newContext_def ok_runs_def ran_def default_config_def settled_def plain_name_def handlers_def registered_def
      require_id_def del: run.simps)

text \<open>C5: the cycle search is right and ends: the module it returns lies on a dependency cycle that is reachable from the
  module where the search began, and with the fuel of one level per registered module the search is complete.\<close>

theorem findCycle_finds_cycle:
  assumes "reg_wf s" and "registered (id_of a s) s = Some a"
  shows "(findCycle (cycle_fuel s) s a [] = Some c \<longrightarrow> (c, c) \<in> (dep_edge s)\<^sup>+ \<and> (a, c) \<in> (dep_edge s)\<^sup>*) \<and>
    findCycle (cycle_fuel s + k) s a [] = findCycle (cycle_fuel s) s a []"
proof
  show "findCycle (cycle_fuel s) s a [] = Some c \<longrightarrow> (c, c) \<in> (dep_edge s)\<^sup>+ \<and> (a, c) \<in> (dep_edge s)\<^sup>*"
    using findCycle_sound_step [OF assms(1), of _ a "[]" c] assms(2) by simp
  have "card (fst ` set (x_registry s)) \<le> length (x_registry s)"
    by (metis card_length length_map list.set_map)
  then show "findCycle (cycle_fuel s + k) s a [] = findCycle (cycle_fuel s) s a []"
    by (intro findCycle_fuel_step assms) (simp add: cycle_fuel_def)
qed

definition ex_mod :: "string \<Rightarrow> string \<Rightarrow> rmod" where
  "ex_mod i d = inert\<lparr>m_map := plain_map default_config None True i,
     m_depMaps := [DMap (plain_map default_config None True d)], m_inited := True, m_enabled := True\<rparr>"

definition ex_cycle :: rctx where
  "ex_cycle = newContext\<lparr>x_mods := [ex_mod ''a'' ''b'', ex_mod ''b'' ''a''], x_registry := [(''a'', 0), (''b'', 1)]\<rparr>"

theorem findCycle_finds_cycle_witness: "(0, 0) \<in> (dep_edge ex_cycle)\<^sup>+"
proof -
  have m: "mod_at 0 ex_cycle = ex_mod ''a'' ''b''" "mod_at (Suc 0) ex_cycle = ex_mod ''b'' ''a''"
    by (simp_all add: mod_at_def ex_cycle_def)
  have ids: "mm_id (m_map (ex_mod i d)) = i" "m_depMaps (ex_mod i d) = [DMap (plain_map default_config None True d)]"
    "m_inited (ex_mod i d)" "m_enabled (ex_mod i d)" "mm_id (plain_map default_config None True d) = d" for i d
    by (simp_all add: ex_mod_def plain_map_def)
  have reg: "registered i ex_cycle = (if i = ''a'' then Some 0 else if i = ''b'' then Some (Suc 0) else None)" for i
    by (simp add: registered_def ex_cycle_def)
  have "reg_wf ex_cycle" "registered (id_of 0 ex_cycle) ex_cycle = Some 0"
    by (simp_all add: reg_wf_def reg m ids)
  moreover have "cycle_fuel ex_cycle = 5" by (simp add: cycle_fuel_def ex_cycle_def)
  then have "findCycle (cycle_fuel ex_cycle) ex_cycle 0 [] = Some 0"
    by (simp add: m ids reg numeral_eq_Suc)
  ultimately show ?thesis using findCycle_finds_cycle [of ex_cycle 0 0] by simp
qed


definition ex_timeout :: rctx where
  "ex_timeout = foldl (page_step ex_page 9) newContext [PageRequire None [''a''] None None, Elapse 8000, Timer]"

lemma ex_timeout_flag: "x_inCheckLoaded ex_timeout"
  unfolding ex_timeout_def by code_simp


end
