(* ===== verification/Js_Number.thy ===== *)
theory Js_Number
  imports Complex_Main Js_Prelude
begin

text \<open>
  JavaScript numbers, in the two forms the scripts need.

  \<open>jnum\<close>: the integers with \<open>NaN\<close> and the infinities, and the arithmetic of the pager, the
  spinner and the carousel on them (these scripts compute with counts, indices and pixel
  offsets; the model is exact where doubles are, up to \<open>2 ^ 53\<close>).

  \<open>dec\<close>: a finite number as the shortest decimal that denotes it, which is what
  \<open>Number.prototype.toString\<close> prints; \<open>dec_str\<close> is that printing (ECMAScript 9.8.1) and
  \<open>scan_num\<close> reads a number literal. \<open>scan_num_dec_str\<close> is the round trip.
\<close>

subsection \<open>Integers with NaN and infinities\<close>

datatype jnum = NaN | PInf | NInf | JInt int

fun jadd :: "jnum \<Rightarrow> jnum \<Rightarrow> jnum" where
  "jadd NaN _ = NaN"
| "jadd _ NaN = NaN"
| "jadd (JInt a) (JInt b) = JInt (a + b)"
| "jadd PInf NInf = NaN"
| "jadd NInf PInf = NaN"
| "jadd PInf _ = PInf"
| "jadd NInf _ = NInf"
| "jadd _ PInf = PInf"
| "jadd _ NInf = NInf"

definition jneg :: "jnum \<Rightarrow> jnum" where
  "jneg x = (case x of NaN \<Rightarrow> NaN | PInf \<Rightarrow> NInf | NInf \<Rightarrow> PInf | JInt a \<Rightarrow> JInt (- a))"

definition jsub :: "jnum \<Rightarrow> jnum \<Rightarrow> jnum" where
  "jsub x y = jadd x (jneg y)"

definition inf_times :: "int \<Rightarrow> jnum" where
  "inf_times a = (if a = 0 then NaN else if a > 0 then PInf else NInf)"

fun jmul :: "jnum \<Rightarrow> jnum \<Rightarrow> jnum" where
  "jmul NaN _ = NaN"
| "jmul _ NaN = NaN"
| "jmul (JInt a) (JInt b) = JInt (a * b)"
| "jmul (JInt a) PInf = inf_times a"
| "jmul (JInt a) NInf = inf_times (- a)"
| "jmul PInf (JInt a) = inf_times a"
| "jmul NInf (JInt a) = inf_times (- a)"
| "jmul PInf PInf = PInf"
| "jmul NInf NInf = PInf"
| "jmul PInf NInf = NInf"
| "jmul NInf PInf = NInf"

text \<open>Comparisons with \<open>NaN\<close> are false, also \<open>NaN === NaN\<close>.\<close>

fun jless :: "jnum \<Rightarrow> jnum \<Rightarrow> bool" where
  "jless NaN _ = False"
| "jless _ NaN = False"
| "jless (JInt a) (JInt b) = (a < b)"
| "jless NInf NInf = False"
| "jless NInf _ = True"
| "jless _ NInf = False"
| "jless PInf _ = False"
| "jless _ PInf = True"

definition jeq :: "jnum \<Rightarrow> jnum \<Rightarrow> bool" where
  "jeq x y \<longleftrightarrow> x = y \<and> x \<noteq> NaN"

definition jle :: "jnum \<Rightarrow> jnum \<Rightarrow> bool" where
  "jle x y \<longleftrightarrow> jless x y \<or> jeq x y"

text \<open>\<open>Math.ceil(a / b)\<close> for an integer \<open>a\<close>.\<close>

definition ceil_div :: "int \<Rightarrow> jnum \<Rightarrow> jnum" where
  "ceil_div a b =
     (case b of
        NaN \<Rightarrow> NaN
      | PInf \<Rightarrow> JInt 0
      | NInf \<Rightarrow> JInt 0
      | JInt d \<Rightarrow> if d = 0 then inf_times a else JInt (- ((- a) div d)))"

text \<open>
  \<open>xs.slice(start, end)\<close>: \<open>NaN\<close> counts as 0, a negative position from the end, and positions
  are clamped to the array.
\<close>

definition slice_pos :: "nat \<Rightarrow> jnum \<Rightarrow> nat" where
  "slice_pos len x =
     (case x of
        NaN \<Rightarrow> 0 | PInf \<Rightarrow> len | NInf \<Rightarrow> 0
      | JInt i \<Rightarrow> if i < 0 then nat (max 0 (int len + i)) else min (nat i) len)"

definition js_slice :: "jnum \<Rightarrow> jnum \<Rightarrow> 'a list \<Rightarrow> 'a list" where
  "js_slice s e xs =
     (let b = slice_pos (length xs) s; t = slice_pos (length xs) e in take (t - b) (drop b xs))"

definition jnum_str :: "jnum \<Rightarrow> string" where
  "jnum_str x =
     (case x of NaN \<Rightarrow> ''NaN'' | PInf \<Rightarrow> ''Infinity'' | NInf \<Rightarrow> ''-Infinity'' | JInt i \<Rightarrow> int_str i)"

text \<open>\<open>parseInt(s, 10)\<close>: white space, an optional sign and the longest run of digits.\<close>

definition is_digit :: "char \<Rightarrow> bool" where
  "is_digit c \<longleftrightarrow> 48 \<le> (of_char c :: nat) \<and> (of_char c :: nat) \<le> 57"

definition is_space :: "char \<Rightarrow> bool" where
  "is_space c \<longleftrightarrow> (of_char c :: nat) \<in> {9, 10, 11, 12, 13, 32, 160}"

definition digits_value :: "string \<Rightarrow> nat" where
  "digits_value s = foldl (\<lambda>a c. 10 * a + (of_char c - 48)) 0 s"

definition parse_int :: "string \<Rightarrow> jnum" where
  "parse_int s =
     (let t = dropWhile is_space s;
          neg = (t \<noteq> [] \<and> hd t = CHR ''-'');
          u = (if t \<noteq> [] \<and> hd t \<in> {CHR ''-'', CHR ''+''} then tl t else t);
          ds = takeWhile is_digit u
      in if ds = [] then NaN
         else JInt (if neg then - int (digits_value ds) else int (digits_value ds)))"

subsection \<open>Decimals\<close>

text \<open>\<open>Dec m e\<close> is \<open>m * 10 ^ e\<close>; in canonical form \<open>m\<close> has no trailing zero.\<close>

datatype dec = Dec int int

fun canonical :: "dec \<Rightarrow> bool" where
  "canonical (Dec m e) = (if m = 0 then e = 0 else m mod 10 \<noteq> 0)"

function canon :: "int \<Rightarrow> int \<Rightarrow> dec" where
  "canon m e = (if m = 0 then Dec 0 0 else if m mod 10 = 0 then canon (m div 10) (e + 1) else Dec m e)"
  by pat_completeness auto
termination
  by (relation "measure (\<lambda>(m, e). nat \<bar>m\<bar>)") (auto simp: zabs_def)

declare canon.simps [simp del]

text \<open>The comparison of two decimals, on a common exponent.\<close>

fun dec_less :: "dec \<Rightarrow> dec \<Rightarrow> bool" where
  "dec_less (Dec m e) (Dec n f) =
     (m * 10 ^ nat (e - min e f) < n * 10 ^ nat (f - min e f))"

definition exp_str :: "int \<Rightarrow> string" where
  "exp_str x = ''e'' @ (if x < 0 then ''-'' else ''+'') @ nat_str (nat \<bar>x\<bar>)"

text \<open>The digits \<open>ds\<close> of a positive number \<open>0.ds * 10 ^ n\<close>, laid out.\<close>

definition num_body :: "string \<Rightarrow> int \<Rightarrow> string" where
  "num_body ds n =
     (let k = int (length ds)
      in if k \<le> n \<and> n \<le> 21 then ds @ replicate (nat (n - k)) CHR ''0''
         else if 0 < n \<and> n \<le> 21 then take (nat n) ds @ ''.'' @ drop (nat n) ds
         else if - 6 < n \<and> n \<le> 0 then ''0.'' @ replicate (nat (- n)) CHR ''0'' @ ds
         else if k = 1 then ds @ exp_str (n - 1)
         else take 1 ds @ ''.'' @ drop 1 ds @ exp_str (n - 1))"

fun dec_str :: "dec \<Rightarrow> string" where
  "dec_str (Dec m e) =
     (let ds = nat_str (nat \<bar>m\<bar>)
      in if m = 0 then ''0''
         else (if m < 0 then ''-'' else []) @ num_body ds (e + int (length ds)))"

text \<open>
  Reading the longest number literal at the front of a text:
  \<open>-?\d+(?:\.\d*)?(?:[eE][+\-]?\d+)?\<close>.
\<close>

definition scan_frac :: "string \<Rightarrow> string \<times> string" where
  "scan_frac s = (case s of c # t \<Rightarrow> if c = CHR ''.'' then (takeWhile is_digit t, dropWhile is_digit t) else ([], s)
     | [] \<Rightarrow> ([], s))"

definition scan_exp :: "string \<Rightarrow> int \<times> string" where
  "scan_exp s =
     (case s of
        [] \<Rightarrow> (0, s)
      | c # t \<Rightarrow>
          if c = CHR ''e'' \<or> c = CHR ''E'' then
            (let neg = (t \<noteq> [] \<and> hd t = CHR ''-'');
                 u = (if t \<noteq> [] \<and> hd t \<in> {CHR ''-'', CHR ''+''} then tl t else t);
                 ds = takeWhile is_digit u
             in if ds = [] then (0, s)
                else (if neg then - int (digits_value ds) else int (digits_value ds), dropWhile is_digit u))
          else (0, s))"

definition scan_num :: "string \<Rightarrow> (dec \<times> string) option" where
  "scan_num s =
     (let neg = (s \<noteq> [] \<and> hd s = CHR ''-'');
          t = (if neg then tl s else s);
          ds = takeWhile is_digit t
      in if ds = [] then None
         else (let (fs, u) = scan_frac (dropWhile is_digit t);
                   (x, v) = scan_exp u;
                   m = int (digits_value (ds @ fs))
               in Some (canon (if neg then - m else m) (x - int (length fs)), v)))"

subsection \<open>Numbers: decimals with NaN and infinities\<close>

text \<open>\<open>XInf True\<close> is \<open>-Infinity\<close>. Sums are exact: a double rounds where the digits do not fit.\<close>

datatype xnum = XNaN | XInf bool | XDec dec

fun dec_neg :: "dec \<Rightarrow> dec" where
  "dec_neg (Dec m e) = Dec (- m) e"

fun dec_add :: "dec \<Rightarrow> dec \<Rightarrow> dec" where
  "dec_add (Dec m e) (Dec n f) =
     canon (m * 10 ^ nat (e - min e f) + n * 10 ^ nat (f - min e f)) (min e f)"

fun xneg :: "xnum \<Rightarrow> xnum" where
  "xneg XNaN = XNaN"
| "xneg (XInf s) = XInf (\<not> s)"
| "xneg (XDec d) = XDec (dec_neg d)"

fun xadd :: "xnum \<Rightarrow> xnum \<Rightarrow> xnum" where
  "xadd (XDec a) (XDec b) = XDec (dec_add a b)"
| "xadd (XInf s) (XDec _) = XInf s"
| "xadd (XDec _) (XInf s) = XInf s"
| "xadd (XInf s) (XInf t) = (if s = t then XInf s else XNaN)"
| "xadd _ _ = XNaN"

fun xless :: "xnum \<Rightarrow> xnum \<Rightarrow> bool" where
  "xless (XDec a) (XDec b) = dec_less a b"
| "xless (XInf s) (XDec _) = s"
| "xless (XDec _) (XInf s) = (\<not> s)"
| "xless (XInf s) (XInf t) = (s \<and> \<not> t)"
| "xless _ _ = False"

fun xfinite :: "xnum \<Rightarrow> bool" where
  "xfinite (XDec _) = True"
| "xfinite _ = False"

fun xnum_str :: "xnum \<Rightarrow> string" where
  "xnum_str XNaN = ''NaN''"
| "xnum_str (XInf s) = (if s then ''-Infinity'' else ''Infinity'')"
| "xnum_str (XDec d) = dec_str d"

text \<open>
  The string grammar of numbers (ECMAScript 9.3.1): \<open>scan_signed\<close> reads the longest signed decimal
  literal, \<open>to_number\<close> is \<open>Number(s)\<close> (the whole trimmed text, or a hexadecimal literal) and
  \<open>parse_float\<close> is \<open>parseFloat(s)\<close> (the longest literal at the front).
\<close>

definition scan_unsigned :: "string \<Rightarrow> (xnum \<times> string) option" where
  "scan_unsigned s =
     (if is_prefix_of ''Infinity'' s then Some (XInf False, drop 8 s)
      else (let ds = takeWhile is_digit s;
                (fs, u) = scan_frac (dropWhile is_digit s);
                (x, v) = scan_exp u
            in if ds = [] \<and> fs = [] then None
               else Some (XDec (canon (int (digits_value (ds @ fs))) (x - int (length fs))), v)))"

definition scan_signed :: "string \<Rightarrow> (xnum \<times> string) option" where
  "scan_signed s =
     (case s of
        [] \<Rightarrow> None
      | c # t \<Rightarrow>
          if c = CHR ''-'' then map_option (\<lambda>(x, u). (xneg x, u)) (scan_unsigned t)
          else if c = CHR ''+'' then scan_unsigned t
          else scan_unsigned s)"

definition hex_value :: "char \<Rightarrow> nat option" where
  "hex_value c =
     (let n = (of_char c :: nat)
      in if 48 \<le> n \<and> n \<le> 57 then Some (n - 48)
         else if 97 \<le> n \<and> n \<le> 102 then Some (n - 87)
         else if 65 \<le> n \<and> n \<le> 70 then Some (n - 55)
         else None)"

definition js_trim :: "string \<Rightarrow> string" where
  "js_trim s = rev (dropWhile is_space (rev (dropWhile is_space s)))"

definition hex_number :: "string \<Rightarrow> xnum" where
  "hex_number ds =
     (if ds = [] \<or> \<not> list_all (\<lambda>c. hex_value c \<noteq> None) ds then XNaN
      else XDec (canon (int (foldl (\<lambda>a c. 16 * a + the (hex_value c)) 0 ds)) 0))"

definition to_number :: "string \<Rightarrow> xnum" where
  "to_number s =
     (let t = js_trim s
      in if t = [] then XDec (Dec 0 0)
         else if is_prefix_of ''0x'' t \<or> is_prefix_of ''0X'' t then hex_number (drop 2 t)
         else (case scan_signed t of Some (x, []) \<Rightarrow> x | _ \<Rightarrow> XNaN))"

definition parse_float :: "string \<Rightarrow> xnum" where
  "parse_float s = (case scan_signed (dropWhile is_space s) of None \<Rightarrow> XNaN | Some (x, _) \<Rightarrow> x)"

subsection \<open>Lemmas: integers and slices\<close>

lemma js_slice_page:
  "js_slice (JInt (int i)) (JInt (int i + int n)) xs = take n (drop i xs)"
proof -
  have "slice_pos (length xs) (JInt (int i)) = min i (length xs)"
    by (simp add: slice_pos_def)
  moreover have "slice_pos (length xs) (JInt (int i + int n)) = min (i + n) (length xs)"
    by (simp add: slice_pos_def nat_int_add)
  ultimately have "js_slice (JInt (int i)) (JInt (int i + int n)) xs =
      take (min (i + n) (length xs) - min i (length xs)) (drop (min i (length xs)) xs)"
    by (simp add: js_slice_def Let_def)
  also have "\<dots> = take n (drop i xs)"
  proof (cases "i \<le> length xs")
    case True
    then show ?thesis by (cases "i + n \<le> length xs") (simp_all add: min_def)
  next
    case False
    then show ?thesis by simp
  qed
  finally show ?thesis .
qed

lemma ceil_div_bounds:
  "0 < d \<Longrightarrow> ceil_div a (JInt d) = JInt p \<Longrightarrow> a \<le> p * d \<and> (p - 1) * d < a"
proof -
  assume d: "0 < d" and c: "ceil_div a (JInt d) = JInt p"
  then have p: "p = - ((- a) div d)" by (simp add: ceil_div_def)
  define q r where "q = (- a) div d" and "r = (- a) mod d"
  have "q * d + r = - a" by (simp add: q_def r_def)
  moreover have "0 \<le> r" "r < d" using d by (simp_all add: r_def)
  ultimately show ?thesis unfolding p q_def [symmetric] by (simp add: algebra_simps)
qed

lemma digit_char_digit: "d < 10 \<Longrightarrow> is_digit (digit_char d)"
  by (simp add: is_digit_def digit_char_def of_char_of)

lemma of_digit_char: "d < 10 \<Longrightarrow> (of_char (digit_char d) :: nat) = 48 + d"
  by (simp add: digit_char_def of_char_of)

lemma foldl_digits_append:
  "foldl (\<lambda>a c. 10 * a + (of_char c - 48)) (a :: nat) (s @ t) =
   foldl (\<lambda>a c. 10 * a + (of_char c - 48)) (foldl (\<lambda>a c. 10 * a + (of_char c - 48)) a s) t"
  by simp

lemma digits_value_nat_str: "digits_value (nat_str n) = n"
proof (induction n rule: nat_digits.induct)
  case (1 n)
  show ?case
  proof (cases "n < 10")
    case True
    then show ?thesis
      by (simp add: nat_str_def nat_digits.simps [of n] digits_value_def of_digit_char)
  next
    case False
    then have "nat_str n = nat_str (n div 10) @ [digit_char (n mod 10)]"
      by (simp add: nat_str_def nat_digits.simps [of n])
    with 1 False show ?thesis by (simp add: digits_value_def of_digit_char)
  qed
qed

lemma nat_str_digits: "c \<in> set (nat_str n) \<Longrightarrow> is_digit c"
  by (auto simp: nat_str_def dest: nat_digits_small intro: digit_char_digit)

lemma nat_str_nonempty [simp]: "nat_str n \<noteq> []"
  by (simp add: nat_str_def)

lemma nat_str_hd: "is_digit (hd (nat_str n))"
  by (rule nat_str_digits [of _ n]) (simp add: hd_in_set)

lemma digit_not_sign [simp]: "is_digit c \<Longrightarrow> c \<noteq> CHR ''-''" "is_digit c \<Longrightarrow> c \<noteq> CHR ''+''"
  "is_digit c \<Longrightarrow> c \<noteq> CHR ''.''" "is_digit c \<Longrightarrow> c \<noteq> CHR ''e''" "is_digit c \<Longrightarrow> \<not> is_space c"
  by (auto simp: is_digit_def is_space_def)

lemma span_all:
  "list_all P ds \<Longrightarrow> t = [] \<or> \<not> P (hd t) \<Longrightarrow> takeWhile P (ds @ t) = ds \<and> dropWhile P (ds @ t) = t"
  by (induction ds) (cases t, auto)

lemma nat_str_all_digits [simp]: "list_all is_digit (nat_str n)"
  by (simp add: list_all_iff nat_str_digits)

lemma parse_int_int_str: "parse_int (int_str i) = JInt i"
proof -
  have all: "takeWhile is_digit (nat_str n) = nat_str n" for n
    using span_all [of is_digit "nat_str n" "[]"] by simp
  have sp: "dropWhile is_space (nat_str n) = nat_str n" for n
    using nat_str_hd [of n] by (cases "nat_str n") auto
  have hd: "hd (nat_str n) \<noteq> CHR ''-''" "hd (nat_str n) \<noteq> CHR ''+''" for n
    using nat_str_hd [of n] by auto
  have "\<not> is_space CHR ''-''" by (simp add: is_space_def)
  then show ?thesis
    by (simp add: parse_int_def int_str_def Let_def all sp hd digits_value_nat_str)
qed

subsection \<open>Lemmas: the decimal round trip\<close>

lemma canon_canonical: "canonical (Dec m e) \<Longrightarrow> canon m e = Dec m e"
  by (subst canon.simps) (auto split: if_splits)

lemma canonical_canon: "canonical (canon m e)"
proof (induction m e rule: canon.induct)
  case (1 m e)
  then show ?case by (subst canon.simps) auto
qed

lemma canon_shift: "m \<noteq> 0 \<Longrightarrow> canon (m * 10 ^ j) e = canon m (e + int j)"
proof (induction j arbitrary: e)
  case 0
  then show ?case by simp
next
  case (Suc j)
  have "canon (m * 10 ^ Suc j) e = canon (m * 10 ^ j) (e + 1)"
    using Suc.prems by (subst canon.simps) simp
  with Suc show ?case by (simp add: add.assoc)
qed

lemma digits_value_append_zeros: "digits_value (s @ replicate j CHR ''0'') = digits_value s * 10 ^ j"
  by (induction j) (simp_all add: digits_value_def replicate_append_same [symmetric] del: replicate_Suc flip: append_assoc,
      simp add: replicate_append_same [symmetric])

lemma digits_value_leading_zeros: "digits_value (replicate j CHR ''0'' @ s) = digits_value s"
proof -
  have "foldl (\<lambda>a c. 10 * a + (of_char c - 48)) (0 :: nat) (replicate j CHR ''0'') = 0"
    by (induction j) simp_all
  then show ?thesis by (simp add: digits_value_def)
qed

text \<open>A text that does not extend a number literal in front of it.\<close>

definition num_stop :: "string \<Rightarrow> bool" where
  "num_stop t \<longleftrightarrow> t = [] \<or> \<not> is_digit (hd t) \<and> hd t \<noteq> CHR ''.'' \<and> hd t \<noteq> CHR ''e'' \<and> hd t \<noteq> CHR ''E''"

text \<open>The three shapes of a printed number: digits, digits with a fraction, and an exponent after either.\<close>

definition mantissa_str :: "string \<Rightarrow> string \<Rightarrow> string" where
  "mantissa_str ds fs = (if fs = [] then ds else ds @ ''.'' @ fs)"

lemma scan_exp_stop: "num_stop t \<Longrightarrow> scan_exp t = (0, t)"
  by (cases t) (auto simp: scan_exp_def num_stop_def)

lemma scan_exp_exp_str: "num_stop t \<Longrightarrow> scan_exp (exp_str x @ t) = (x, t)"
proof -
  assume "num_stop t"
  then have "takeWhile is_digit (nat_str n @ t) = nat_str n \<and> dropWhile is_digit (nat_str n @ t) = t" for n
    by (intro span_all) (auto simp: num_stop_def)
  then show ?thesis
    by (auto simp: scan_exp_def exp_str_def digits_value_nat_str Let_def)
qed

lemma scan_mantissa:
  assumes "ds \<noteq> []" "list_all is_digit ds" "list_all is_digit fs"
    and "t = [] \<or> \<not> is_digit (hd t) \<and> hd t \<noteq> CHR ''.''"
    and "scan_exp t = (x, v)"
  shows "scan_num ((if neg then ''-'' else []) @ mantissa_str ds fs @ t) =
    Some (canon (if neg then - int (digits_value (ds @ fs)) else int (digits_value (ds @ fs))) (x - int (length fs)), v)"
proof -
  define u where "u = (if fs = [] then t else ''.'' @ fs @ t)"
  have hd: "hd (ds @ z) \<noteq> CHR ''-''" for z using assms(1,2) by (cases ds) auto
  have "u = [] \<or> \<not> is_digit (hd u)" using assms(4) by (auto simp: is_digit_def u_def)
  then have tk: "takeWhile is_digit (ds @ u) = ds" "dropWhile is_digit (ds @ u) = u"
    using span_all [OF assms(2)] by blast+
  have "scan_frac u = (fs, t)"
  proof (cases "fs = []")
    case True
    with assms(4) show ?thesis by (cases t) (auto simp: scan_frac_def u_def)
  next
    case False
    have "takeWhile is_digit (fs @ t) = fs \<and> dropWhile is_digit (fs @ t) = t"
      using assms(3,4) by (intro span_all) auto
    with False show ?thesis by (simp add: scan_frac_def u_def)
  qed
  moreover have "mantissa_str ds fs @ t = ds @ u" by (simp add: mantissa_str_def u_def)
  ultimately show ?thesis
    using tk hd assms(1,5) by (simp add: scan_num_def Let_def)
qed

lemma num_stop_weak: "num_stop t \<Longrightarrow> t = [] \<or> \<not> is_digit (hd t) \<and> hd t \<noteq> CHR ''.''"
  by (auto simp: num_stop_def)

lemma exp_str_stop: "\<not> is_digit (hd (exp_str x @ t)) \<and> hd (exp_str x @ t) \<noteq> CHR ''.''"
  by (simp add: exp_str_def is_digit_def)

lemma zero_digit [simp]: "is_digit CHR ''0''"
  by (simp add: is_digit_def)

lemma list_all_zeros: "list_all is_digit (replicate j CHR ''0'')"
  by (induction j) simp_all

text \<open>Every layout reads back as the same number, whatever digits and exponent it was made from.\<close>

definition signed :: "bool \<Rightarrow> nat \<Rightarrow> int" where
  "signed neg v = (if neg then - int v else int v)"

lemma signed_times: "signed neg (v * 10 ^ j) = signed neg v * 10 ^ j"
  by (simp add: signed_def)

lemma num_body_cases:
  assumes "ds \<noteq> []"
  obtains (pad) "int (length ds) \<le> n" "num_body ds n = mantissa_str (ds @ replicate (nat (n - int (length ds))) CHR ''0'') []"
  | (point) "0 < n" "n < int (length ds)" "num_body ds n = mantissa_str (take (nat n) ds) (drop (nat n) ds)"
  | (small) "n \<le> 0" "num_body ds n = mantissa_str ''0'' (replicate (nat (- n)) CHR ''0'' @ ds)"
  | (exp) "num_body ds n = mantissa_str (take 1 ds) (drop 1 ds) @ exp_str (n - 1)"
proof -
  have k: "1 \<le> int (length ds)" using assms by (cases ds) auto
  consider "int (length ds) \<le> n" "n \<le> 21" | "0 < n" "n < int (length ds)" "n \<le> 21" | "- 6 < n" "n \<le> 0"
    | "n \<le> - 6 \<or> 21 < n" by linarith
  then show thesis
  proof cases
    case 1
    then show ?thesis by (intro pad) (simp_all add: num_body_def mantissa_str_def)
  next
    case 2
    then show ?thesis by (intro point) (auto simp: num_body_def mantissa_str_def)
  next
    case 3
    with assms k show ?thesis by (intro small) (simp_all add: num_body_def mantissa_str_def)
  next
    case 4
    have "take 1 ds = ds \<and> drop 1 ds = []" if "length ds = 1" using that by simp
    moreover have "drop 1 ds \<noteq> []" if "length ds \<noteq> 1" using that k by simp
    ultimately show ?thesis using 4 k
      by (intro exp) (auto simp: num_body_def mantissa_str_def Let_def)
  qed
qed

lemma scan_num_body:
  assumes ds: "ds \<noteq> []" "list_all is_digit ds" and nz: "digits_value ds \<noteq> 0" and t: "num_stop t"
  shows "scan_num ((if neg then ''-'' else []) @ num_body ds n @ t) =
    Some (canon (signed neg (digits_value ds)) (n - int (length ds)), t)"
  using ds(1)
proof (cases rule: num_body_cases [where n = n])
  case pad
  let ?j = "nat (n - int (length ds))"
  have "signed neg (digits_value ds) \<noteq> 0" using nz by (simp add: signed_def)
  then have "canon (signed neg (digits_value (ds @ replicate ?j CHR ''0''))) 0 =
      canon (signed neg (digits_value ds)) (n - int (length ds))"
    using pad(1) by (simp add: digits_value_append_zeros signed_times canon_shift)
  with pad(2) ds scan_mantissa [of "ds @ replicate ?j CHR ''0''" "[]" t 0 t neg] num_stop_weak [OF t]
    scan_exp_stop [OF t] show ?thesis by (cases neg) (simp_all add: signed_def list_all_zeros)
next
  case point
  have "list_all is_digit (take (nat n) ds)" "list_all is_digit (drop (nat n) ds)"
    using ds(2) by (auto simp: list_all_iff dest: in_set_takeD in_set_dropD)
  with point ds(1) scan_mantissa [of "take (nat n) ds" "drop (nat n) ds" t 0 t neg] num_stop_weak [OF t]
    scan_exp_stop [OF t] show ?thesis by (simp add: signed_def)
next
  case small
  let ?fs = "replicate (nat (- n)) CHR ''0'' @ ds"
  have "digits_value (''0'' @ ?fs) = digits_value ds"
    using digits_value_leading_zeros [of "Suc (nat (- n))" ds] by simp
  with small ds scan_mantissa [of "''0''" ?fs t 0 t neg] num_stop_weak [OF t] scan_exp_stop [OF t]
  show ?thesis by (simp add: signed_def list_all_zeros)
next
  case exp
  have "list_all is_digit (take 1 ds)" "list_all is_digit (drop 1 ds)"
    using ds(2) by (auto simp: list_all_iff dest: in_set_takeD in_set_dropD)
  moreover have "n - 1 - int (length (drop 1 ds)) = n - int (length ds)" using ds(1) by (cases ds) auto
  ultimately show ?thesis
    using exp ds(1) scan_mantissa [of "take 1 ds" "drop 1 ds" "exp_str (n - 1) @ t" "n - 1" t neg]
      exp_str_stop scan_exp_exp_str [OF t] by (simp add: signed_def)
qed

lemma scan_num_zero: "num_stop t \<Longrightarrow> scan_num (CHR ''0'' # t) = Some (Dec 0 0, t)"
  using scan_mantissa [of "''0''" "[]" t 0 t False] num_stop_weak scan_exp_stop
  by (simp add: mantissa_str_def digits_value_def canon.simps)

lemma scan_num_dec_str:
  assumes "canonical d" and "num_stop t"
  shows "scan_num (dec_str d @ t) = Some (d, t)"
proof (cases d)
  case (Dec m e)
  show ?thesis
  proof (cases "m = 0")
    case True
    with assms Dec show ?thesis by (simp add: scan_num_zero)
  next
    case False
    have "signed (m < 0) (nat \<bar>m\<bar>) = m" by (simp add: signed_def)
    moreover have "canon m e = Dec m e" using assms(1) Dec canon_canonical by blast
    ultimately show ?thesis
      using Dec False assms(2)
        scan_num_body [of "nat_str (nat \<bar>m\<bar>)" t "m < 0" "e + int (length (nat_str (nat \<bar>m\<bar>)))"]
      by (simp add: digits_value_nat_str Let_def)
  qed
qed

subsection \<open>Lemmas: numbers and their texts\<close>

lemma canon_uminus: "canon (- m) e = dec_neg (canon m e)"
proof (induction m e rule: canon.induct)
  case (1 m e)
  have m: "(- m) mod 10 = 0 \<longleftrightarrow> m mod 10 = 0" and d: "m mod 10 = 0 \<Longrightarrow> (- m) div 10 = - (m div 10)"
    by (auto simp: mod_eq_0_iff_dvd elim!: dvdE)
  show ?case
  proof (cases "m = 0 \<or> m mod 10 \<noteq> 0")
    case True
    then show ?thesis using m by (auto simp: canon.simps [of m e] canon.simps [of "- m" e])
  next
    case False
    with 1 m d show ?thesis by (simp add: canon.simps [of m e] canon.simps [of "- m" e])
  qed
qed

lemma scan_unsigned_digits:
  assumes "takeWhile is_digit s \<noteq> []"
  shows "scan_unsigned s =
    (let (fs, u) = scan_frac (dropWhile is_digit s); (x, v) = scan_exp u
     in Some (XDec (canon (int (digits_value (takeWhile is_digit s @ fs))) (x - int (length fs))), v))"
proof -
  have "\<not> is_prefix_of ''Infinity'' s"
    using assms by (cases s) (auto simp: is_digit_def split: if_splits)
  with assms show ?thesis by (simp add: scan_unsigned_def Let_def)
qed

lemma scan_signed_of_scan_num: "scan_num s = Some (d, t) \<Longrightarrow> scan_signed s = Some (XDec d, t)"
proof -
  assume s: "scan_num s = Some (d, t)"
  then obtain c u where cu: "s = c # u" by (cases s) (auto simp: scan_num_def)
  show ?thesis
  proof (cases "c = CHR ''-''")
    case True
    with s cu have "takeWhile is_digit u \<noteq> []" by (auto simp: scan_num_def)
    with True s cu show ?thesis
      by (auto simp: scan_signed_def scan_num_def scan_unsigned_digits canon_uminus split: prod.splits)
  next
    case False
    with s cu have "takeWhile is_digit s \<noteq> []" by (auto simp: scan_num_def Let_def split: if_splits)
    moreover from this cu have "c \<noteq> CHR ''+''" by (auto simp: is_digit_def)
    ultimately show ?thesis using False s cu
      by (auto simp: scan_signed_def scan_num_def scan_unsigned_digits split: prod.splits)
  qed
qed

lemma dec_str_hd: "dec_str d \<noteq> [] \<and> (hd (dec_str d) = CHR ''-'' \<or> is_digit (hd (dec_str d)))"
proof (cases d)
  case (Dec m e)
  let ?ds = "nat_str (nat \<bar>m\<bar>)"
  have "num_body ?ds n \<noteq> [] \<and> is_digit (hd (num_body ?ds n))" for n
    using nat_str_hd [of "nat \<bar>m\<bar>"] nat_str_nonempty [of "nat \<bar>m\<bar>"]
    by (cases ?ds) (auto simp: num_body_def Let_def hd_append)
  from this [of "e + int (length ?ds)"] show ?thesis unfolding Dec dec_str.simps Let_def by (auto simp: hd_append)
qed

lemma parse_float_dec_str: "canonical d \<Longrightarrow> parse_float (dec_str d) = XDec d"
proof -
  assume "canonical d"
  then have "scan_signed (dec_str d) = Some (XDec d, [])"
    using scan_num_dec_str [of d "[]"] by (intro scan_signed_of_scan_num) (simp add: num_stop_def)
  moreover have "dropWhile is_space (dec_str d) = dec_str d"
    using dec_str_hd [of d] by (cases "dec_str d") (auto dest: digit_not_sign(5), simp add: is_space_def)
  ultimately show ?thesis by (simp add: parse_float_def)
qed

text \<open>The value of a decimal: comparison, sum, sign and canonical form agree with it.\<close>

fun dec_val :: "dec \<Rightarrow> rat" where
  "dec_val (Dec m e) = of_int m * 10 powi e"

lemma dec_less_val: "dec_less x y \<longleftrightarrow> dec_val x < dec_val y"
proof (cases x; cases y)
  fix m e n f
  assume x: "x = Dec m e" and y: "y = Dec n f"
  define c where "c = min e f"
  have scale: "(of_int k :: rat) * 10 powi g = of_int (k * 10 ^ nat (g - c)) * 10 powi c" if "c \<le> g" for k g
  proof -
    have "(10 :: rat) powi g = 10 powi (int (nat (g - c)) + c)" using that by simp
    also have "\<dots> = 10 powi int (nat (g - c)) * 10 powi c" by (rule power_int_add) simp
    also have "\<dots> = 10 ^ nat (g - c) * 10 powi c" by (simp only: power_int_of_nat)
    finally show ?thesis by simp
  qed
  have "dec_less x y \<longleftrightarrow> (of_int (m * 10 ^ nat (e - c)) :: rat) < of_int (n * 10 ^ nat (f - c))"
    unfolding x y c_def dec_less.simps of_int_less_iff ..
  also have "\<dots> \<longleftrightarrow> (of_int (m * 10 ^ nat (e - c)) :: rat) * 10 powi c < of_int (n * 10 ^ nat (f - c)) * 10 powi c"
  proof -
    have "(0 :: rat) < 10 powi c" by (simp add: zero_less_power_int)
    then show ?thesis by (simp only: mult_less_cancel_right_pos)
  qed
  also have "\<dots> \<longleftrightarrow> dec_val x < dec_val y"
  proof -
    have "c \<le> e" "c \<le> f" by (simp_all add: c_def)
    then show ?thesis by (simp only: x y dec_val.simps scale [of e] scale [of f])
  qed
  finally show ?thesis .
qed

lemma dec_val_canon: "dec_val (canon m e) = of_int m * 10 powi e"
proof (induction m e rule: canon.induct)
  case (1 m e)
  show ?case
  proof (cases "m \<noteq> 0 \<and> m mod 10 = 0")
    case True
    then have m: "m = 10 * (m div 10)" by (simp add: mod_eq_0_iff_dvd)
    have "dec_val (canon m e) = of_int (m div 10) * 10 powi (e + 1)"
      using True 1 by (simp add: canon.simps [of m e])
    also have "\<dots> = of_int (10 * (m div 10)) * 10 powi e" by (simp add: power_int_add)
    finally show ?thesis using m by simp
  next
    case False
    then show ?thesis by (auto simp: canon.simps [of m e])
  qed
qed

lemma dec_scale: "c \<le> g \<Longrightarrow> (of_int k :: rat) * 10 powi g = of_int (k * 10 ^ nat (g - c)) * 10 powi c"
proof -
  assume "c \<le> g"
  then have "(10 :: rat) powi g = 10 powi (int (nat (g - c)) + c)" by simp
  also have "\<dots> = 10 powi int (nat (g - c)) * 10 powi c" by (rule power_int_add) simp
  also have "\<dots> = 10 ^ nat (g - c) * 10 powi c" by (simp only: power_int_of_nat)
  finally show ?thesis by simp
qed

lemma dec_val_add: "dec_val (dec_add x y) = dec_val x + dec_val y"
proof (cases x; cases y)
  fix m e n f
  assume x: "x = Dec m e" and y: "y = Dec n f"
  show ?thesis
    unfolding x y dec_add.simps dec_val_canon dec_val.simps
    by (simp only: dec_scale [of "min e f" e] dec_scale [of "min e f" f] min.cobounded1 min.cobounded2
        of_int_add distrib_right)
qed

lemma dec_val_neg [simp]: "dec_val (dec_neg x) = - dec_val x"
  by (cases x) simp

lemma canonical_neg [simp]: "canonical (dec_neg d) = canonical d"
proof (cases d)
  case (Dec m e)
  have "(- m) mod 10 = 0 \<longleftrightarrow> m mod 10 = 0" by (auto simp: mod_eq_0_iff_dvd)
  with Dec show ?thesis by simp
qed

lemma canonical_add: "canonical (dec_add x y)"
  by (cases x; cases y) (simp add: canonical_canon)

fun xcanonical :: "xnum \<Rightarrow> bool" where
  "xcanonical (XDec d) = canonical d"
| "xcanonical _ = True"

lemma xcanonical_arith: "xcanonical a \<Longrightarrow> xcanonical b \<Longrightarrow> xcanonical (xadd a b)"
    "xcanonical a \<Longrightarrow> xcanonical (xneg a)"
  by (cases a; cases b; simp add: canonical_add) (cases a; simp)

lemma parse_float_xnum_str: "xcanonical x \<Longrightarrow> parse_float (xnum_str x) = x"
proof (cases x)
  case XNaN
  then show ?thesis by (simp add: parse_float_def is_space_def scan_signed_def scan_unsigned_def scan_frac_def
        is_digit_def scan_exp_def)
next
  case (XInf s)
  then show ?thesis by (cases s) (simp_all add: parse_float_def is_space_def scan_signed_def scan_unsigned_def)
next
  case (XDec d)
  then show "xcanonical x \<Longrightarrow> ?thesis" by (simp add: parse_float_dec_str)
qed

lemma xcanonical_scan_unsigned: "scan_unsigned s = Some (x, t) \<Longrightarrow> xcanonical x"
  by (auto simp: scan_unsigned_def Let_def canonical_canon split: if_splits prod.splits)

lemma xcanonical_scan_signed: "scan_signed s = Some (x, t) \<Longrightarrow> xcanonical x"
  by (auto simp: scan_signed_def split: list.splits if_splits
      dest: xcanonical_scan_unsigned intro: xcanonical_arith(2))

lemma xcanonical_parse_float: "xcanonical (parse_float s)"
  by (auto simp: parse_float_def split: option.splits dest: xcanonical_scan_signed)

lemma xcanonical_to_number: "xcanonical (to_number s)"
  by (auto simp: to_number_def Let_def hex_number_def canonical_canon
      split: option.splits list.splits prod.splits dest: xcanonical_scan_signed)

lemma dec_str_chars: "c \<in> set (dec_str d) \<Longrightarrow> is_digit c \<or> c \<in> {CHR ''-'', CHR ''+'', CHR ''.'', CHR ''e''}"
proof (cases d)
  case (Dec m e)
  have "\<forall>c \<in> set (num_body ds n). is_digit c \<or> c \<in> {CHR ''-'', CHR ''+'', CHR ''.'', CHR ''e''}"
    if "list_all is_digit ds" for ds n
    using that by (auto simp: num_body_def Let_def exp_str_def list_all_iff nat_str_digits
        dest: in_set_takeD in_set_dropD)
  from this [of "nat_str (nat \<bar>m\<bar>)" "e + int (length (nat_str (nat \<bar>m\<bar>)))"]
  have "\<forall>c \<in> set (num_body (nat_str (nat \<bar>m\<bar>)) (e + int (length (nat_str (nat \<bar>m\<bar>))))).
      is_digit c \<or> c \<in> {CHR ''-'', CHR ''+'', CHR ''.'', CHR ''e''}" by simp
  moreover assume "c \<in> set (dec_str d)"
  ultimately show ?thesis unfolding Dec by (auto simp: Let_def split: if_splits)
qed

lemma js_trim_id: "(\<And>c. c \<in> set s \<Longrightarrow> \<not> is_space c) \<Longrightarrow> js_trim s = s"
proof -
  assume "\<And>c. c \<in> set s \<Longrightarrow> \<not> is_space c"
  then have "dropWhile is_space s = s" "dropWhile is_space (rev s) = rev s"
    by (auto simp add: dropWhile_eq_self_iff hd_rev)
  then show ?thesis by (simp add: js_trim_def)
qed

lemma dec_chars_not_space: "is_digit c \<or> c \<in> {CHR ''-'', CHR ''+'', CHR ''.'', CHR ''e''} \<Longrightarrow> \<not> is_space c"
  by (auto simp: is_space_def is_digit_def)

lemma to_number_dec_str: "canonical d \<Longrightarrow> to_number (dec_str d) = XDec d"
proof -
  assume "canonical d"
  then have "scan_signed (dec_str d) = Some (XDec d, [])"
    using scan_num_dec_str [of d "[]"] by (intro scan_signed_of_scan_num) (simp add: num_stop_def)
  moreover have ch: "is_digit c \<or> c \<in> {CHR ''-'', CHR ''+'', CHR ''.'', CHR ''e''}" if "c \<in> set (dec_str d)" for c
    using dec_str_chars that by blast
  then have "js_trim (dec_str d) = dec_str d"
    by (intro js_trim_id) (metis dec_chars_not_space)
  moreover have "\<not> is_prefix_of (CHR ''0'' # x # u) (dec_str d)" if "x \<in> {CHR ''x'', CHR ''X''}" for x u
    using ch [of x] that by (auto simp: is_prefix_of_iff is_digit_def)
  ultimately show ?thesis using dec_str_hd [of d] by (simp add: to_number_def Let_def)
qed

lemma to_number_xnum_str: "xcanonical x \<Longrightarrow> to_number (xnum_str x) = x"
proof (cases x)
  case XNaN
  then show ?thesis by (simp add: to_number_def js_trim_def is_space_def scan_signed_def scan_unsigned_def
        scan_frac_def is_digit_def scan_exp_def)
next
  case (XInf s)
  then show ?thesis
    by (cases s) (simp_all add: to_number_def js_trim_def is_space_def scan_signed_def scan_unsigned_def)
next
  case (XDec d)
  then show "xcanonical x \<Longrightarrow> ?thesis" by (simp add: to_number_dec_str)
qed

end
