(* ===== verification/Static_Source.thy ===== *)
theory Static_Source
  imports Js_Number "HOL-Library.Multiset"
begin

text \<open>
  The static data source of the grids (\<open>fuelux/sample/datasource.js\<close>) and of the trees
  (\<open>fuelux/sample/datasourceTree.js\<close>): search, filter, sort and page over an array of flat
  records. The timer that delivers the answer is modelled by the clients; \<open>source_data\<close> is
  the computation it runs.
\<close>

subsection \<open>Rows and options\<close>

datatype pval = PStr string | PNum dec | PBool bool | PNull

type_synonym row = "pval obj"

record column =
  co_property :: string
  co_label :: string
  co_sortable :: bool

record source =
  src_columns :: "column list"
  src_delay :: nat
  src_data :: "row list"
  src_formatter :: "(row list \<Rightarrow> row list) option"

record data_options =
  o_search :: "string option"
  o_filter :: "string option option"
  o_sortProperty :: "string option"
  o_sortDirection :: "string option"
  o_pageIndex :: jnum
  o_pageSize :: jnum

record page_result =
  r_data :: "row list"
  r_start :: jnum
  r_end :: jnum
  r_count :: nat
  r_pages :: jnum
  r_page :: jnum

text \<open>\<open>new StaticDataSource(options)\<close>: a missing delay is 0.\<close>

definition new_source ::
  "column list \<Rightarrow> nat option \<Rightarrow> row list \<Rightarrow> (row list \<Rightarrow> row list) option \<Rightarrow> source" where
  "new_source cols delay rows fmt =
     \<lparr>src_columns = cols, src_delay = (case delay of None \<Rightarrow> 0 | Some d \<Rightarrow> d), src_data = rows,
      src_formatter = fmt\<rparr>"

definition source_columns :: "source \<Rightarrow> column list" where
  "source_columns s = src_columns s"

subsection \<open>Searching, filtering\<close>

text \<open>The text of a property that the search looks at: strings and finite numbers.\<close>

fun searchable :: "pval \<Rightarrow> string option" where
  "searchable (PStr s) = Some s"
| "searchable (PNum d) = Some (dec_str d)"
| "searchable _ = None"

definition prop_matches :: "string \<Rightarrow> pval \<Rightarrow> bool" where
  "prop_matches trm p =
     (case searchable p of None \<Rightarrow> False | Some t \<Rightarrow> index_of (to_lower trm) (to_lower t) \<noteq> None)"

definition row_matches :: "string \<Rightarrow> row \<Rightarrow> bool" where
  "row_matches trm r = list_ex (\<lambda>(k, p). prop_matches trm p) r"

fun prop_number :: "pval \<Rightarrow> xnum" where
  "prop_number (PNum d) = XDec d"
| "prop_number (PStr s) = to_number s"
| "prop_number (PBool b) = XDec (if b then Dec 1 0 else Dec 0 0)"
| "prop_number PNull = XDec (Dec 0 0)"

definition population :: "row \<Rightarrow> xnum" where
  "population r = (case map_of r ''population'' of None \<Rightarrow> XNaN | Some p \<Rightarrow> prop_number p)"

definition five_million :: xnum where
  "five_million = XDec (Dec 5 6)"

definition filter_row :: "string option \<Rightarrow> row \<Rightarrow> bool" where
  "filter_row v r =
     (if v = Some ''lt5m'' then
        xless (population r) five_million
      else if v = Some ''gte5m'' then
        (population r \<noteq> XNaN \<and> \<not> xless (population r) five_million)
      else True)"

subsection \<open>Sorting\<close>

text \<open>
  \<open>_.sortBy\<close> compares criteria with \<open>>\<close>: strings by code units, everything else as numbers; a
  missing criterion goes last; equal criteria keep the order of the rows.
\<close>

fun str_less :: "string \<Rightarrow> string \<Rightarrow> bool" where
  "str_less _ [] = False"
| "str_less [] (_ # _) = True"
| "str_less (a # as) (b # bs) =
     ((of_char a :: nat) < of_char b \<or> a = b \<and> str_less as bs)"

fun prop_gt :: "pval \<Rightarrow> pval \<Rightarrow> bool" where
  "prop_gt (PStr a) (PStr b) = str_less b a"
| "prop_gt a b = xless (prop_number b) (prop_number a)"

definition goes_after :: "pval option \<Rightarrow> pval option \<Rightarrow> bool" where
  "goes_after r e \<longleftrightarrow>
     r \<noteq> e \<and> (r = None \<or> (case (r, e) of (Some a, Some b) \<Rightarrow> prop_gt a b | _ \<Rightarrow> False))"

fun insert_by :: "('a \<Rightarrow> 'a \<Rightarrow> bool) \<Rightarrow> 'a \<Rightarrow> 'a list \<Rightarrow> 'a list" where
  "insert_by after x [] = [x]"
| "insert_by after x (y # ys) = (if after x y then y # insert_by after x ys else x # y # ys)"

fun sort_by :: "('a \<Rightarrow> 'a \<Rightarrow> bool) \<Rightarrow> 'a list \<Rightarrow> 'a list" where
  "sort_by after [] = []"
| "sort_by after (x # xs) = insert_by after x (sort_by after xs)"

definition sortBy :: "string \<Rightarrow> row list \<Rightarrow> row list" where
  "sortBy prop rows = sort_by (\<lambda>x y. goes_after (map_of x prop) (map_of y prop)) rows"

subsection \<open>The query\<close>

definition search_rows :: "data_options \<Rightarrow> row list \<Rightarrow> row list" where
  "search_rows opts rows =
     (case o_search opts of
        None \<Rightarrow> rows
      | Some t \<Rightarrow> if t = [] then rows else filter (row_matches t) rows)"

definition filter_rows :: "data_options \<Rightarrow> row list \<Rightarrow> row list" where
  "filter_rows opts rows =
     (case o_filter opts of None \<Rightarrow> rows | Some v \<Rightarrow> filter (filter_row v) rows)"

definition sort_rows :: "data_options \<Rightarrow> row list \<Rightarrow> row list" where
  "sort_rows opts rows =
     (case o_sortProperty opts of
        None \<Rightarrow> rows
      | Some p \<Rightarrow>
          if p = [] then rows
          else (let sorted = sortBy p rows
                in if o_sortDirection opts = Some ''desc'' then rev sorted else sorted))"

definition selected_rows :: "source \<Rightarrow> data_options \<Rightarrow> row list" where
  "selected_rows s opts = filter_rows opts (search_rows opts (src_data s))"

definition source_data :: "source \<Rightarrow> data_options \<Rightarrow> page_result" where
  "source_data s opts =
     (let data = selected_rows s opts;
          count = length data;
          data = sort_rows opts data;
          startIndex = jmul (o_pageIndex opts) (o_pageSize opts);
          endIndex = jadd startIndex (o_pageSize opts);
          end = (if jless (JInt (int count)) endIndex then JInt (int count) else endIndex);
          pages = ceil_div (int count) (o_pageSize opts);
          page = jadd (o_pageIndex opts) (JInt 1);
          start = jadd startIndex (JInt 1);
          data = js_slice startIndex endIndex data;
          data = (case src_formatter s of None \<Rightarrow> data | Some f \<Rightarrow> f data)
      in \<lparr>r_data = data, r_start = start, r_end = end, r_count = count, r_pages = pages, r_page = page\<rparr>)"

text \<open>The tree source answers every query with a copy of all of its data.\<close>

record 'a tree_source =
  ts_data :: "'a list"
  ts_delay :: "nat option"

definition new_tree_source :: "'a list \<Rightarrow> nat option \<Rightarrow> 'a tree_source" where
  "new_tree_source d delay = \<lparr>ts_data = d, ts_delay = delay\<rparr>"

definition tree_source_data :: "'a tree_source \<Rightarrow> 'b \<Rightarrow> 'a list" where
  "tree_source_data s opts = ts_data s"

subsection \<open>Lemmas\<close>

lemma mset_insert_by: "mset (insert_by after x xs) = add_mset x (mset xs)"
  by (induction xs) auto

lemma mset_sort_by: "mset (sort_by after xs) = mset xs"
  by (induction xs) (auto simp: mset_insert_by)

lemma set_insert_by: "set (insert_by after x xs) = insert x (set xs)"
  using mset_insert_by [of after x xs] by (metis set_mset_add_mset_insert set_mset_mset)

lemma set_sort_by: "set (sort_by after xs) = set xs"
  using mset_sort_by [of after xs] by (metis set_mset_mset)

text \<open>What a comparison needs to sort by: asymmetry, and that it respects ties.\<close>

definition rank_order :: "('a \<Rightarrow> 'a \<Rightarrow> bool) \<Rightarrow> 'a set \<Rightarrow> bool" where
  "rank_order after S \<longleftrightarrow>
     (\<forall>y \<in> S. \<forall>z \<in> S. after y z \<longrightarrow> \<not> after z y) \<and>
     (\<forall>u \<in> S. \<forall>v \<in> S. \<forall>w \<in> S. after u w \<longrightarrow> after u v \<or> after v w)"

lemma rank_order_subset: "rank_order after S \<Longrightarrow> T \<subseteq> S \<Longrightarrow> rank_order after T"
  unfolding rank_order_def by blast

lemma sorted_insert_by:
  "rank_order after (insert x (set xs)) \<Longrightarrow> sorted_wrt (\<lambda>x y. \<not> after x y) xs \<Longrightarrow>
   sorted_wrt (\<lambda>x y. \<not> after x y) (insert_by after x xs)"
proof (induction xs)
  case Nil
  then show ?case by simp
next
  case (Cons y ys)
  have "rank_order after (insert x (set ys))"
    using Cons.prems(1) by (rule rank_order_subset) auto
  with Cons have tl: "sorted_wrt (\<lambda>x y. \<not> after x y) (insert_by after x ys)" by simp
  show ?case
  proof (cases "after x y")
    case True
    with Cons.prems(1) have "\<not> after y x" by (simp add: rank_order_def)
    with True tl Cons.prems(2) show ?thesis by (simp add: set_insert_by)
  next
    case False
    have "\<not> after x z" if z: "z \<in> set ys" for z
    proof
      assume "after x z"
      with Cons.prems(1) z have "after x y \<or> after y z" by (simp add: rank_order_def)
      with False Cons.prems(2) z show False by simp
    qed
    with False Cons.prems(2) show ?thesis by simp
  qed
qed

lemma sorted_sort_by:
  "rank_order after (set xs) \<Longrightarrow> sorted_wrt (\<lambda>x y. \<not> after x y) (sort_by after xs)"
proof (induction xs)
  case Nil
  then show ?case by simp
next
  case (Cons x xs)
  then have "rank_order after (set xs)" by (auto intro: rank_order_subset)
  with Cons have "sorted_wrt (\<lambda>x y. \<not> after x y) (sort_by after xs)" by simp
  with Cons.prems show ?case by (simp add: sorted_insert_by set_sort_by)
qed

lemma str_less_asym: "str_less a b \<Longrightarrow> \<not> str_less b a"
  by (induction a b rule: str_less.induct) auto

lemma str_less_cotrans: "str_less a c \<Longrightarrow> str_less a b \<or> str_less b c"
proof (induction a c arbitrary: b rule: str_less.induct)
  case (1 a)
  then show ?case by simp
next
  case (2 c cs)
  then show ?case by (cases b) auto
next
  case (3 x xs z zs)
  show ?case
  proof (cases b)
    case Nil
    then show ?thesis by simp
  next
    case (Cons y ys)
    have "x = y \<or> (of_char x :: nat) < of_char y \<or> (of_char y :: nat) < of_char x"
      using linorder_neqE_nat of_char_eq_iff by metis
    with 3 Cons show ?thesis by auto
  qed
qed

text \<open>A column is comparable when it holds only strings or only numbers.\<close>

definition comparable_column :: "string \<Rightarrow> row list \<Rightarrow> bool" where
  "comparable_column p rows \<longleftrightarrow>
     (\<forall>r \<in> set rows. \<exists>s. map_of r p = Some (PStr s)) \<or> (\<forall>r \<in> set rows. \<exists>d. map_of r p = Some (PNum d))"

definition in_order :: "string \<Rightarrow> row \<Rightarrow> row \<Rightarrow> bool" where
  "in_order p x y \<longleftrightarrow> \<not> goes_after (map_of x p) (map_of y p)"

lemma rank_order_strings:
  "(\<forall>r \<in> S. \<exists>s. f r = Some (PStr s)) \<Longrightarrow> rank_order (\<lambda>x y. goes_after (f x) (f y)) S"
  unfolding rank_order_def
proof (intro conjI ballI impI)
  fix y z
  assume S: "\<forall>r \<in> S. \<exists>s. f r = Some (PStr s)" and yz: "y \<in> S" "z \<in> S" "goes_after (f y) (f z)"
  from S yz obtain a b where "f y = Some (PStr a)" "f z = Some (PStr b)" by metis
  with yz(3) show "\<not> goes_after (f z) (f y)" by (auto simp: goes_after_def dest: str_less_asym)
next
  fix u v w
  assume S: "\<forall>r \<in> S. \<exists>s. f r = Some (PStr s)" and uvw: "u \<in> S" "v \<in> S" "w \<in> S" "goes_after (f u) (f w)"
  from S uvw obtain a b c where "f u = Some (PStr a)" "f v = Some (PStr b)" "f w = Some (PStr c)" by metis
  with uvw(4) show "goes_after (f u) (f v) \<or> goes_after (f v) (f w)"
    using str_less_cotrans [of c a b] by (auto simp: goes_after_def)
qed

lemma rank_order_numbers:
  "(\<forall>r \<in> S. \<exists>d. f r = Some (PNum d)) \<Longrightarrow> rank_order (\<lambda>x y. goes_after (f x) (f y)) S"
  unfolding rank_order_def
proof (intro conjI ballI impI)
  fix y z
  assume S: "\<forall>r \<in> S. \<exists>d. f r = Some (PNum d)" and yz: "y \<in> S" "z \<in> S" "goes_after (f y) (f z)"
  from S yz obtain a b where "f y = Some (PNum a)" "f z = Some (PNum b)" by metis
  with yz(3) show "\<not> goes_after (f z) (f y)" by (auto simp: goes_after_def dec_less_val)
next
  fix u v w
  assume S: "\<forall>r \<in> S. \<exists>d. f r = Some (PNum d)" and uvw: "u \<in> S" "v \<in> S" "w \<in> S" "goes_after (f u) (f w)"
  from S uvw obtain a b c where "f u = Some (PNum a)" "f v = Some (PNum b)" "f w = Some (PNum c)" by metis
  with uvw(4) show "goes_after (f u) (f v) \<or> goes_after (f v) (f w)"
    by (cases "dec_val a = dec_val b") (auto simp: goes_after_def dec_less_val)
qed

lemma sortBy_sorted: "comparable_column p rows \<Longrightarrow> sorted_wrt (in_order p) (sortBy p rows)"
proof -
  assume "comparable_column p rows"
  then have "rank_order (\<lambda>x y. goes_after (map_of x p) (map_of y p)) (set rows)"
    unfolding comparable_column_def by (elim disjE) (erule rank_order_strings, erule rank_order_numbers)
  then have "sorted_wrt (\<lambda>x y. \<not> goes_after (map_of x p) (map_of y p)) (sortBy p rows)"
    unfolding sortBy_def by (rule sorted_sort_by)
  then show ?thesis by (simp add: in_order_def [abs_def])
qed

lemma mset_sort_rows: "mset (sort_rows opts rows) = mset rows"
  by (simp add: sort_rows_def sortBy_def mset_sort_by Let_def split: option.splits)

lemma length_sort_rows [simp]: "length (sort_rows opts rows) = length rows"
  using mset_sort_rows [of opts rows] by (metis size_mset)

lemma source_data_fields:
  assumes "o_pageIndex opts = JInt (int i)" and "o_pageSize opts = JInt (int n)" and "src_formatter s = None"
  shows "r_data (source_data s opts) = take n (drop (i * n) (sort_rows opts (selected_rows s opts)))"
    and "r_start (source_data s opts) = JInt (int (i * n) + 1)"
    and "r_end (source_data s opts) = JInt (int (min (length (selected_rows s opts)) (i * n + n)))"
    and "r_page (source_data s opts) = JInt (int i + 1)"
proof -
  show "r_data (source_data s opts) = take n (drop (i * n) (sort_rows opts (selected_rows s opts)))"
    using assms js_slice_page [of "i * n" n "sort_rows opts (selected_rows s opts)"]
    by (simp add: source_data_def Let_def)
  show "r_start (source_data s opts) = JInt (int (i * n) + 1)" and "r_page (source_data s opts) = JInt (int i + 1)"
    using assms by (simp_all add: source_data_def Let_def)
  have "int i * int n + int n = int (i * n + n)" by simp
  with assms show "r_end (source_data s opts) = JInt (int (min (length (selected_rows s opts)) (i * n + n)))"
    by (simp add: source_data_def Let_def min_def del: of_nat_add of_nat_mult)
qed

lemma source_data_count:
  "r_count (source_data s opts) = length (selected_rows s opts)"
  "r_pages (source_data s opts) = ceil_div (int (r_count (source_data s opts))) (o_pageSize opts)"
  by (simp_all add: source_data_def Let_def)

lemma concat_pages:
  "length xs \<le> p * n \<Longrightarrow> concat (map (\<lambda>i. take n (drop (i * n) xs)) [0..<p]) = xs"
proof (induction p arbitrary: xs)
  case 0
  then show ?case by simp
next
  case (Suc p)
  have "concat (map (\<lambda>i. take n (drop (i * n) xs)) [0..<Suc p]) =
      take n xs @ concat (map (\<lambda>i. take n (drop (i * n) (drop n xs))) [0..<p])"
    by (simp add: upt_conv_Cons map_Suc_upt [symmetric] comp_def add.commute del: upt_Suc)
  also have "\<dots> = take n xs @ drop n xs"
    using Suc.IH [of "drop n xs"] Suc.prems by simp
  finally show ?case by simp
qed

lemma pages_partition:
  assumes "0 < n" and "src_formatter s = None"
    and "r_pages (source_data s (opts\<lparr>o_pageSize := JInt (int n)\<rparr>)) = JInt (int p)"
  shows "concat (map (\<lambda>i. r_data (source_data s (opts\<lparr>o_pageIndex := JInt (int i), o_pageSize := JInt (int n)\<rparr>))) [0..<p])
    = sort_rows opts (selected_rows s opts)"
proof -
  have sel: "selected_rows s (opts\<lparr>o_pageIndex := j, o_pageSize := k\<rparr>) = selected_rows s opts" for j k
    by (simp add: selected_rows_def filter_rows_def search_rows_def)
  have srt: "sort_rows (opts\<lparr>o_pageIndex := j, o_pageSize := k\<rparr>) = sort_rows opts" for j k
    by (auto simp: sort_rows_def fun_eq_iff Let_def split: option.splits)
  have cnt: "selected_rows s (opts\<lparr>o_pageSize := k\<rparr>) = selected_rows s opts" for k
    by (simp add: selected_rows_def filter_rows_def search_rows_def)
  have "int (length (selected_rows s opts)) \<le> int p * int n"
    using ceil_div_bounds [of "int n"] assms(1,3) cnt by (auto simp: source_data_count)
  then have "length (sort_rows opts (selected_rows s opts)) \<le> p * n"
    by (simp flip: of_nat_mult)
  note whole = concat_pages [OF this]
  have "r_data (source_data s (opts\<lparr>o_pageIndex := JInt (int i), o_pageSize := JInt (int n)\<rparr>)) =
      take n (drop (i * n) (sort_rows opts (selected_rows s opts)))" for i
    using source_data_fields(1) [of "opts\<lparr>o_pageIndex := JInt (int i), o_pageSize := JInt (int n)\<rparr>" i n s]
      assms(2) by (simp add: sel srt)
  with whole show ?thesis by simp
qed

subsection \<open>Properties\<close>

text \<open>The answer is drawn from exactly the rows that pass the search and the filter: the count is
  their number and the rows of any page are among them.\<close>

lemma source_answers_selected_rows:
  assumes "src_formatter s = None"
  shows "r_count (source_data s opts) = length (filter (\<lambda>r.
      (case o_search opts of None \<Rightarrow> True | Some t \<Rightarrow> t = [] \<or> row_matches t r) \<and>
      (case o_filter opts of None \<Rightarrow> True | Some v \<Rightarrow> filter_row v r)) (src_data s)) \<and>
    set (r_data (source_data s opts)) \<subseteq> set (selected_rows s opts)"
proof
  show "r_count (source_data s opts) = length (filter (\<lambda>r.
      (case o_search opts of None \<Rightarrow> True | Some t \<Rightarrow> t = [] \<or> row_matches t r) \<and>
      (case o_filter opts of None \<Rightarrow> True | Some v \<Rightarrow> filter_row v r)) (src_data s))"
    by (simp add: source_data_count selected_rows_def search_rows_def filter_rows_def conj_commute
        split: option.splits)
  have "set (sort_rows opts (selected_rows s opts)) = set (selected_rows s opts)"
    using mset_sort_rows [of opts "selected_rows s opts"] by (metis set_mset_mset)
  then show "set (r_data (source_data s opts)) \<subseteq> set (selected_rows s opts)"
    using assms by (auto simp: source_data_def Let_def js_slice_def dest!: in_set_takeD in_set_dropD)
qed

definition city :: "string \<Rightarrow> int \<Rightarrow> row" where
  "city nm pop = [(''name'', PStr nm), (''population'', PNum (Dec pop 0))]"

definition ex_source :: source where
  "ex_source = new_source [\<lparr>co_property = ''name'', co_label = ''Name'', co_sortable = True\<rparr>] None [city ''Manila'' 10444527, city ''Dhaka'' 10356500, city ''Quito'' 1399814] None"

definition ex_options :: data_options where
  "ex_options = \<lparr>o_search = Some ''A'', o_filter = None, o_sortProperty = Some ''name'', o_sortDirection = None,
     o_pageIndex = JInt 0, o_pageSize = JInt 2\<rparr>"

lemma source_answers_selected_rows_witness:
  "set (r_data (source_data ex_source ex_options)) \<subseteq> set (selected_rows ex_source ex_options)"
  using source_answers_selected_rows [of ex_source ex_options] by (simp add: ex_source_def new_source_def)

text \<open>C10: the pages partition the answer: with a positive page size, the rows of pages 1 to \<open>pages\<close>,
  one after the other, are all the selected rows in the requested order, each once.\<close>

theorem source_pages_partition:
  assumes "0 < n" and "src_formatter s = None"
    and "r_pages (source_data s (opts\<lparr>o_pageSize := JInt (int n)\<rparr>)) = JInt (int p)"
  shows "concat (map (\<lambda>i. r_data (source_data s (opts\<lparr>o_pageIndex := JInt (int i), o_pageSize := JInt (int n)\<rparr>))) [0..<p])
    = sort_rows opts (selected_rows s opts)"
  using assms by (rule pages_partition)

theorem source_pages_partition_witness:
  "concat (map (\<lambda>i. r_data (source_data (ex_source\<lparr>src_data := [[], [], []]\<rparr>)
      (ex_options\<lparr>o_search := None, o_pageIndex := JInt (int i), o_pageSize := JInt (int 2)\<rparr>))) [0..<2])
   = [[], [], []]"
  using source_pages_partition [of 2 "ex_source\<lparr>src_data := [[], [], []]\<rparr>" "ex_options\<lparr>o_search := None\<rparr>" 2]
  by (simp add: ex_source_def new_source_def ex_options_def source_data_count selected_rows_def search_rows_def
      filter_rows_def ceil_div_def sort_rows_def sortBy_def goes_after_def)

text \<open>the page header is right: on page \<open>i + 1\<close> of \<open>pages\<close> the labels satisfy
  \<open>1 \<le> start \<le> end \<le> count\<close> and the page holds exactly \<open>end - start + 1\<close> rows.\<close>

lemma source_page_labels:
  assumes "0 < n" and "src_formatter s = None"
    and "o_pageIndex opts = JInt (int i)" and "o_pageSize opts = JInt (int n)"
    and "r_pages (source_data s opts) = JInt (int p)" and "i < p"
  shows "\<exists>b e. r_start (source_data s opts) = JInt (int b) \<and> r_end (source_data s opts) = JInt (int e) \<and>
    1 \<le> b \<and> b \<le> e \<and> e \<le> r_count (source_data s opts) \<and>
    length (r_data (source_data s opts)) = e - b + 1 \<and>
    r_page (source_data s opts) = JInt (int (i + 1))"
proof -
  let ?c = "length (selected_rows s opts)"
  note f = source_data_fields [OF assms(3,4,2)]
  have "(int p - 1) * int n < int ?c"
    using ceil_div_bounds [of "int n" "int ?c" "int p"] assms(1,4,5) by (simp add: source_data_count)
  moreover have "int i * int n \<le> (int p - 1) * int n" using assms(6) by (intro mult_right_mono) auto
  ultimately have "int (i * n) < int ?c" by simp
  then have lt: "i * n < ?c" by (simp only: of_nat_less_iff)
  have "length (r_data (source_data s opts)) = min ?c (i * n + n) - (i * n + 1) + 1"
    using lt assms(1) by (auto simp: f(1) min_def)
  then show ?thesis
    using f lt assms(1) by (intro exI [of _ "i * n + 1"] exI [of _ "min ?c (i * n + n)"])
      (auto simp: source_data_count)
qed

lemma source_page_labels_witness:
  "\<exists>b e. r_start (source_data ex_source (ex_options\<lparr>o_search := None\<rparr>)) = JInt (int b) \<and>
    r_end (source_data ex_source (ex_options\<lparr>o_search := None\<rparr>)) = JInt (int e) \<and> 1 \<le> b \<and> b \<le> e \<and> e \<le> 3"
proof -
  let ?o = "ex_options\<lparr>o_search := None\<rparr>"
  have c: "r_count (source_data ex_source ?o) = 3"
    by (simp add: source_data_count selected_rows_def search_rows_def filter_rows_def ex_options_def
        ex_source_def new_source_def)
  then have "r_pages (source_data ex_source ?o) = JInt (int 2)"
    using source_data_count(2) [of ex_source ?o] by (simp add: ceil_div_def ex_options_def)
  then have "\<exists>b e. r_start (source_data ex_source ?o) = JInt (int b) \<and> r_end (source_data ex_source ?o) = JInt (int e) \<and>
    1 \<le> b \<and> b \<le> e \<and> e \<le> r_count (source_data ex_source ?o) \<and>
    length (r_data (source_data ex_source ?o)) = e - b + 1 \<and> r_page (source_data ex_source ?o) = JInt (int (0 + 1))"
    by (intro source_page_labels [of 2 _ _ 0 2]) (simp_all add: ex_options_def ex_source_def new_source_def)
  then show ?thesis unfolding c by blast
qed

text \<open>C11: sorting permutes the rows; a column of strings or of numbers comes out in ascending order, or in
  descending order when the direction is \<open>desc\<close>.\<close>

theorem source_sorts:
  assumes "o_sortProperty opts = Some p" and "p \<noteq> []" and "comparable_column p rows"
  shows "mset (sort_rows opts rows) = mset rows \<and>
    sorted_wrt (\<lambda>x y. if o_sortDirection opts = Some ''desc'' then in_order p y x else in_order p x y)
      (sort_rows opts rows)"
  using assms sortBy_sorted [OF assms(3)] mset_sort_rows [of opts rows]
  by (auto simp: sort_rows_def Let_def sorted_wrt_rev)

theorem source_sorts_witness:
  "sorted_wrt (in_order ''name'') (sort_rows ex_options [city ''Quito'' 1, city ''Dhaka'' 2])"
  using source_sorts [of ex_options "''name''" "[city ''Quito'' 1, city ''Dhaka'' 2]"]
  by (simp add: ex_options_def comparable_column_def city_def)

end
