(* ===== verification/Jq_Dom.thy ===== *)
theory Jq_Dom
  imports Js_Number
begin

text \<open>
  The page as the widgets see it. A matched set of jQuery is the list of its elements in document order;
  reads (\<open>val()\<close>, \<open>data()\<close>, \<open>attr(k)\<close>) take the first element, writes reach all of them. Each widget keeps in
  its own state the sets that its constructor caches.

  \<open>plugin_each\<close> is the body that every \<open>$.fn.<widget>\<close> of \<open>fuelux/dist\<close> repeats: construct the widget of an
  element on first use, then call the named method. The locale \<open>widget\<close> states what a widget promises through that
  entry point (its constructor establishes an invariant and its methods keep it) and the locale \<open>switchable\<close> what
  its \<open>enable\<close> and \<open>disable\<close> promise; each widget theory interprets them.
\<close>

subsection \<open>Values and elements\<close>

datatype jval =
    Undefined
  | Null
  | Boolean bool
  | Number xnum
  | Str string
  | Object "(string \<times> jval) list"
  | Array "jval list"

text \<open>\<open>String(v)\<close>, \<open>Number(v)\<close>, \<open>parseFloat(v)\<close> and the truth value of \<open>v\<close>.\<close>

fun js_string :: "jval \<Rightarrow> string" where
  "js_string Undefined = ''undefined''"
| "js_string Null = ''null''"
| "js_string (Boolean b) = (if b then ''true'' else ''false'')"
| "js_string (Number x) = xnum_str x"
| "js_string (Str s) = s"
| "js_string (Object _) = ''[object Object]''"
| "js_string (Array vs) =
     js_join '','' (map (\<lambda>v. if v = Undefined \<or> v = Null then [] else js_string v) vs)"

fun js_number :: "jval \<Rightarrow> xnum" where
  "js_number Undefined = XNaN"
| "js_number Null = XDec (Dec 0 0)"
| "js_number (Boolean b) = XDec (if b then Dec 1 0 else Dec 0 0)"
| "js_number (Number x) = x"
| "js_number (Str s) = to_number s"
| "js_number (Object _) = XNaN"
| "js_number (Array vs) = to_number (js_string (Array vs))"

definition js_parse_float :: "jval \<Rightarrow> xnum" where
  "js_parse_float v = parse_float (js_string v)"

fun js_truthy :: "jval \<Rightarrow> bool" where
  "js_truthy Undefined = False"
| "js_truthy Null = False"
| "js_truthy (Boolean b) = b"
| "js_truthy (Number x) = (x \<noteq> XNaN \<and> x \<noteq> XDec (Dec 0 0))"
| "js_truthy (Str s) = (s \<noteq> [])"
| "js_truthy _ = True"

record elem =
  el_classes :: "string list"
  el_attrs :: "string obj"
  el_val :: string
  el_text :: string
  el_data :: "jval obj"
  el_checked :: bool

type_synonym jq = "elem list"

definition plain_elem :: elem where
  "plain_elem = \<lparr>el_classes = [], el_attrs = [], el_val = [], el_text = [], el_data = [], el_checked = False\<rparr>"

definition elem_has_class :: "string \<Rightarrow> elem \<Rightarrow> bool" where
  "elem_has_class c e \<longleftrightarrow> c \<in> set (el_classes e)"

definition elem_add_class :: "string \<Rightarrow> elem \<Rightarrow> elem" where
  "elem_add_class c e = (if elem_has_class c e then e else e\<lparr>el_classes := el_classes e @ [c]\<rparr>)"

definition elem_remove_class :: "string \<Rightarrow> elem \<Rightarrow> elem" where
  "elem_remove_class c e = e\<lparr>el_classes := filter (\<lambda>d. d \<noteq> c) (el_classes e)\<rparr>"

definition hasClass :: "string \<Rightarrow> jq \<Rightarrow> bool" where
  "hasClass c xs = list_ex (elem_has_class c) xs"

definition addClass :: "string \<Rightarrow> jq \<Rightarrow> jq" where
  "addClass c xs = map (elem_add_class c) xs"

definition removeClass :: "string \<Rightarrow> jq \<Rightarrow> jq" where
  "removeClass c xs = map (elem_remove_class c) xs"

text \<open>\<open>attr('class', c)\<close> with one class replaces the whole class list.\<close>

definition setClass :: "string \<Rightarrow> jq \<Rightarrow> jq" where
  "setClass c xs = map (\<lambda>e. e\<lparr>el_classes := [c]\<rparr>) xs"

definition attr_set :: "string \<Rightarrow> string \<Rightarrow> jq \<Rightarrow> jq" where
  "attr_set k v xs = map (\<lambda>e. e\<lparr>el_attrs := AList.update k v (el_attrs e)\<rparr>) xs"

definition removeAttr :: "string \<Rightarrow> jq \<Rightarrow> jq" where
  "removeAttr k xs = map (\<lambda>e. e\<lparr>el_attrs := AList.delete k (el_attrs e)\<rparr>) xs"

text \<open>\<open>attr('disabled', b)\<close> with a Boolean sets or removes the attribute.\<close>

definition attr_flag :: "string \<Rightarrow> bool \<Rightarrow> jq \<Rightarrow> jq" where
  "attr_flag k b xs = (if b then attr_set k k xs else removeAttr k xs)"

definition elem_disabled :: "elem \<Rightarrow> bool" where
  "elem_disabled e \<longleftrightarrow> own_prop (el_attrs e) ''disabled''"

definition val_get :: "jq \<Rightarrow> string option" where
  "val_get xs = (case xs of [] \<Rightarrow> None | e # _ \<Rightarrow> Some (el_val e))"

definition val_set :: "string \<Rightarrow> jq \<Rightarrow> jq" where
  "val_set v xs = map (\<lambda>e. e\<lparr>el_val := v\<rparr>) xs"

definition text_get :: "jq \<Rightarrow> string" where
  "text_get xs = concat (map el_text xs)"

definition text_set :: "string \<Rightarrow> jq \<Rightarrow> jq" where
  "text_set t xs = map (\<lambda>e. e\<lparr>el_text := t\<rparr>) xs"

text \<open>\<open>$set.data()\<close>: the data object of the first element, \<open>None\<close> for an empty set.\<close>

definition data_get :: "jq \<Rightarrow> jval obj option" where
  "data_get xs = (case xs of [] \<Rightarrow> None | e # _ \<Rightarrow> Some (el_data e))"

subsection \<open>The plugin entry point\<close>

datatype js_error = TypeError string

datatype ('d, 'w) host = Bare 'd | Live 'w

datatype 'o plugin_arg = PNone | POptions 'o | PMethod string

text \<open>
  \<open>new d o\<close> constructs the widget of an element with document \<open>d\<close>; \<open>o\<close> is \<open>None\<close> when the plugin was not
  called with an options object. \<open>call w m v\<close> is \<open>data[m](v)\<close>.
\<close>

type_synonym ('d, 'o, 'w) constructor = "'d \<Rightarrow> 'o option \<Rightarrow> 'w"
type_synonym ('w, 'v, 'r) methods = "'w \<Rightarrow> string \<Rightarrow> 'v \<Rightarrow> 'w \<times> (js_error + 'r option)"

definition instance_of :: "('d, 'o, 'w) constructor \<Rightarrow> 'o plugin_arg \<Rightarrow> ('d, 'w) host \<Rightarrow> 'w" where
  "instance_of new opt h =
     (case h of
        Live w \<Rightarrow> w
      | Bare d \<Rightarrow> new d (case opt of POptions ob \<Rightarrow> Some ob | _ \<Rightarrow> None))"

fun plugin_each ::
  "('d, 'o, 'w) constructor \<Rightarrow> ('w, 'v, 'r) methods \<Rightarrow> 'o plugin_arg \<Rightarrow> 'v \<Rightarrow> 'r option \<Rightarrow> ('d, 'w) host list \<Rightarrow>
   ('d, 'w) host list \<times> (js_error + 'r option)" where
  "plugin_each new call opt v ret [] = ([], Inr ret)"
| "plugin_each new call opt v ret (h # hs) =
     (let w = instance_of new opt h
      in (case opt of
            PMethod m \<Rightarrow>
              (case call w m v of
                 (w', Inl e) \<Rightarrow> (Live w' # hs, Inl e)
               | (w', Inr r) \<Rightarrow> (let (hs', res) = plugin_each new call opt v r hs in (Live w' # hs', res)))
          | _ \<Rightarrow> (let (hs', res) = plugin_each new call opt v ret hs in (Live w # hs', res))))"

definition plugin ::
  "('d, 'o, 'w) constructor \<Rightarrow> ('w, 'v, 'r) methods \<Rightarrow> 'o plugin_arg \<Rightarrow> 'v \<Rightarrow> ('d, 'w) host list \<Rightarrow>
   ('d, 'w) host list \<times> (js_error + 'r option)" where
  "plugin new call opt v hs = plugin_each new call opt v None hs"

text \<open>The data API: the first \<open>mousedown\<close> (or the page load) constructs a widget from the element's data.\<close>

definition data_api :: "('d, 'o, 'w) constructor \<Rightarrow> 'o \<Rightarrow> ('d, 'w) host \<Rightarrow> ('d, 'w) host" where
  "data_api new ob h = (case h of Live w \<Rightarrow> Live w | Bare d \<Rightarrow> Live (new d (Some ob)))"

fun host_ok :: "('w \<Rightarrow> bool) \<Rightarrow> ('d \<Rightarrow> bool) \<Rightarrow> ('d, 'w) host \<Rightarrow> bool" where
  "host_ok sound doc (Live w) = sound w"
| "host_ok sound doc (Bare d) = doc d"

subsection \<open>Lemmas: classes and attributes\<close>

lemma elem_has_class_iff [simp]:
  "elem_has_class c (elem_add_class d e) \<longleftrightarrow> c = d \<or> elem_has_class c e"
  "elem_has_class c (elem_remove_class d e) \<longleftrightarrow> c \<noteq> d \<and> elem_has_class c e"
  by (auto simp: elem_has_class_def elem_add_class_def elem_remove_class_def)

lemma elem_class_fields [simp]:
  "el_attrs (elem_add_class c e) = el_attrs e" "el_attrs (elem_remove_class c e) = el_attrs e"
  "el_val (elem_add_class c e) = el_val e" "el_val (elem_remove_class c e) = el_val e"
  "el_text (elem_add_class c e) = el_text e" "el_text (elem_remove_class c e) = el_text e"
  "el_data (elem_add_class c e) = el_data e" "el_data (elem_remove_class c e) = el_data e"
  "el_checked (elem_add_class c e) = el_checked e" "el_checked (elem_remove_class c e) = el_checked e"
  by (simp_all add: elem_add_class_def elem_remove_class_def)

lemma elem_disabled_class [simp]:
  "elem_disabled (elem_add_class c e) = elem_disabled e"
  "elem_disabled (elem_remove_class c e) = elem_disabled e"
  by (simp_all add: elem_disabled_def)

lemma jq_lengths [simp]:
  "length (addClass c xs) = length xs" "length (removeClass c xs) = length xs"
  "length (setClass c xs) = length xs"
  "length (attr_set k v xs) = length xs" "length (removeAttr k xs) = length xs"
  "length (attr_flag k b xs) = length xs"
  "length (val_set v xs) = length xs" "length (text_set v xs) = length xs"
  by (simp_all add: addClass_def removeClass_def setClass_def attr_set_def removeAttr_def attr_flag_def
      val_set_def text_set_def)

lemma val_get_set [simp]: "xs \<noteq> [] \<Longrightarrow> val_get (val_set v xs) = Some v"
  by (cases xs) (simp_all add: val_get_def val_set_def)

lemma val_get_keeps [simp]:
  "val_get (addClass c xs) = val_get xs" "val_get (removeClass c xs) = val_get xs"
  "val_get (attr_set k v xs) = val_get xs" "val_get (removeAttr k xs) = val_get xs"
  "val_get (attr_flag k b xs) = val_get xs" "val_get (setClass c xs) = val_get xs"
  by (cases xs; simp add: val_get_def addClass_def removeClass_def attr_set_def removeAttr_def attr_flag_def
      setClass_def)+

lemma jq_empty_iff [simp]:
  "addClass c xs = [] \<longleftrightarrow> xs = []" "removeClass c xs = [] \<longleftrightarrow> xs = []" "setClass c xs = [] \<longleftrightarrow> xs = []"
  "attr_set k v xs = [] \<longleftrightarrow> xs = []" "removeAttr k xs = [] \<longleftrightarrow> xs = []" "attr_flag k b xs = [] \<longleftrightarrow> xs = []"
  "val_set v xs = [] \<longleftrightarrow> xs = []" "text_set v xs = [] \<longleftrightarrow> xs = []"
  by (simp_all add: addClass_def removeClass_def setClass_def attr_set_def removeAttr_def attr_flag_def
      val_set_def text_set_def)

lemma disabled_attr_set: "list_all elem_disabled (attr_set ''disabled'' v xs)"
  by (simp add: list_all_iff attr_set_def elem_disabled_def)

lemma disabled_removeAttr: "list_all (\<lambda>e. \<not> elem_disabled e) (removeAttr ''disabled'' xs)"
  by (simp add: list_all_iff removeAttr_def elem_disabled_def)

lemma list_all_addClass: "list_all (elem_has_class c) (addClass c xs)"
  by (simp add: list_all_iff addClass_def)

lemma list_all_removeClass: "list_all (\<lambda>e. \<not> elem_has_class c e) (removeClass c xs)"
  by (simp add: list_all_iff removeClass_def)

lemmas switch_lemmas = disabled_attr_set disabled_removeAttr list_all_addClass list_all_removeClass

subsection \<open>The contract of a widget\<close>

text \<open>\<open>doc\<close> says what the constructor needs of the element's document.\<close>

locale widget =
  fixes new :: "('d, 'o, 'w) constructor"
    and call :: "('w, 'v, 'r) methods"
    and doc :: "'d \<Rightarrow> bool"
    and opts :: "'o option \<Rightarrow> bool"
    and sound :: "'w \<Rightarrow> bool"
  assumes new_sound: "doc d \<Longrightarrow> opts ob \<Longrightarrow> sound (new d ob)"
    and call_sound: "sound w \<Longrightarrow> sound (fst (call w m v))"
    and opts_default: "opts None"
begin

definition good_arg :: "'o plugin_arg \<Rightarrow> bool" where
  "good_arg a = (case a of POptions ob \<Rightarrow> opts (Some ob) | _ \<Rightarrow> True)"

lemma instance_sound: "host_ok sound doc h \<Longrightarrow> good_arg a \<Longrightarrow> sound (instance_of new a h)"
  by (cases h; cases a) (auto simp: instance_of_def good_arg_def intro: new_sound opts_default)

lemma plugin_each_sound:
  "good_arg a \<Longrightarrow> list_all (host_ok sound doc) hs \<Longrightarrow> list_all (host_ok sound doc) (fst (plugin_each new call a v ret hs))"
proof (induction hs arbitrary: ret)
  case Nil
  then show ?case by simp
next
  case (Cons h hs)
  have w: "sound (instance_of new a h)" using Cons.prems instance_sound by simp
  show ?case
  proof (cases a)
    case (PMethod m)
    obtain w' r where c: "call (instance_of new a h) m v = (w', r)" by (cases "call (instance_of new a h) m v")
    have "sound w'" using call_sound [OF w, of m v] c by simp
    with PMethod c Cons show ?thesis by (cases r) (auto simp: Let_def split_beta)
  qed (use w Cons in \<open>auto simp: Let_def split_beta\<close>)
qed

lemma plugin_sound:
  "good_arg a \<Longrightarrow> list_all (host_ok sound doc) hs \<Longrightarrow> list_all (host_ok sound doc) (fst (plugin new call a v hs))"
  unfolding plugin_def by (rule plugin_each_sound)

lemma data_api_sound: "host_ok sound doc h \<Longrightarrow> opts (Some ob) \<Longrightarrow> host_ok sound doc (data_api new ob h)"
  by (cases h) (auto simp: data_api_def intro: new_sound)

lemma plugin_runs_sound:
  "list_all (host_ok sound doc) hs \<Longrightarrow> list_all (\<lambda>(a, v). good_arg a) calls \<Longrightarrow>
   list_all (host_ok sound doc) (foldl (\<lambda>hs (a, v). fst (plugin new call a v hs)) hs calls)"
  by (induction calls arbitrary: hs) (auto intro: plugin_sound)

end

text \<open>What \<open>plugin_each\<close> does whatever the widget: it constructs each widget at most once.\<close>

lemma plugin_all_live:
  "snd (plugin_each new call a v ret hs) = Inr r \<Longrightarrow> list_all (\<lambda>h. \<exists>w. h = Live w) (fst (plugin_each new call a v ret hs))"
proof (induction hs arbitrary: ret)
  case (Cons h hs)
  then show ?case
  proof (cases a)
    case (PMethod m)
    obtain w' q where c: "call (instance_of new a h) m v = (w', q)" by (cases "call (instance_of new a h) m v")
    with PMethod Cons show ?thesis by (cases q) (auto simp: Let_def split_beta)
  qed (auto simp: Let_def split_beta)
qed simp

lemma plugin_live_options:
  "list_all (\<lambda>h. \<exists>w. h = Live w) hs \<Longrightarrow> plugin_each new call (POptions ob) v ret hs = (hs, Inr ret)"
  by (induction hs) (auto simp: instance_of_def)

subsection \<open>The contract of enable and disable\<close>

text \<open>
  \<open>on\<close> says that the widget accepts the user's input, \<open>rest\<close> is everything else that it shows. Enabling and
  disabling are absolute (the last call decides) and touch nothing else.
\<close>

locale switchable =
  fixes enable :: "'s \<Rightarrow> 's"
    and disable :: "'s \<Rightarrow> 's"
    and on :: "'s \<Rightarrow> bool"
    and off :: "'s \<Rightarrow> bool"
    and rest :: "'s \<Rightarrow> 'r"
  assumes enable_on: "on (enable s)"
    and disable_off: "off (disable s)"
    and enable_rest: "rest (enable s) = rest s"
    and disable_rest: "rest (disable s) = rest s"
begin

definition switch :: "'s \<Rightarrow> bool \<Rightarrow> 's" where
  "switch s b = (if b then enable s else disable s)"

lemma last_switch_decides:
  "(b \<longrightarrow> on (foldl switch s (bs @ [b]))) \<and> (\<not> b \<longrightarrow> off (foldl switch s (bs @ [b])))"
  by (simp add: switch_def enable_on disable_off)

lemma switches_keep_rest: "rest (foldl switch s bs) = rest s"
  by (induction bs arbitrary: s) (auto simp: switch_def enable_rest disable_rest)

end

end
