(* ===== verification/Datagrid.thy ===== *)
theory Datagrid
  imports Static_Source Jq_Dom
begin

text \<open>
  The data grid (\<open>fuelux/dist/datagrid.js\<close>): it keeps the query (\<open>dataOptions\<close>), asks its data source for a page and
  shows the answer. A request is answered later, and the source reads the query when it answers, so the state counts
  the pending requests; \<open>grid_deliver\<close> is one answer. The data source is an argument of the model; \<open>paged_source\<close>
  states what the pager relies on, and the static source satisfies it. Measured sizes of the page are arguments
  (\<open>layout\<close>).
\<close>

subsection \<open>State\<close>

record header_cell =
  hc_property :: string
  hc_sortable :: bool
  hc_sorted :: bool
  hc_icons :: "string list"

record layout =
  ly_container :: int
  ly_header :: int
  ly_footer :: int
  ly_widths :: "int list"

record datagrid =
  dg_columns :: "column list"
  dg_options :: data_options
  dg_loadingHTML :: string
  dg_itemsText :: string
  dg_itemText :: string
  dg_footerColspan :: nat
  dg_headerHTML :: string
  dg_colheader :: "header_cell list"
  dg_sizingHeader :: "header_cell list option"
  dg_tbody :: string
  dg_cells :: nat
  dg_footerVisible :: bool
  dg_pageinput :: string
  dg_pageslabel :: string
  dg_countlabel :: string
  dg_startlabel :: string
  dg_endlabel :: string
  dg_pagedropdown :: string
  dg_prevDisabled :: bool
  dg_nextDisabled :: bool
  dg_headWidths :: "int option list"
  dg_cellWidths :: "int option list"
  dg_wrapperHeight :: "int option"
  dg_pending :: nat
  dg_loaded :: nat

definition SORTED_HEADER_OFFSET :: int where
  "SORTED_HEADER_OFFSET = 22"

subsection \<open>Columns\<close>

definition column_html :: "column \<Rightarrow> string" where
  "column_html c =
     ''<th data-property=\"'' @ co_property c @ ''\"'' @ (if co_sortable c then '' class=\"sortable\"'' else []) @
     ''>'' @ co_label c @ ''</th>''"

definition header_of :: "column \<Rightarrow> header_cell" where
  "header_of c = \<lparr>hc_property = co_property c, hc_sortable = co_sortable c, hc_sorted = False, hc_icons = []\<rparr>"

definition grid_renderColumns :: "datagrid \<Rightarrow> datagrid" where
  "grid_renderColumns w =
     w\<lparr>dg_footerColspan := length (dg_columns w),
       dg_headerHTML := dg_headerHTML w @ concat (map column_html (dg_columns w)),
       dg_colheader := dg_colheader w @ map header_of (dg_columns w)\<rparr>"

text \<open>\<open>_updateColumns\<close> on one header: only the target keeps a sort icon and the class \<open>sorted\<close>.\<close>

definition update_columns :: "nat \<Rightarrow> string \<Rightarrow> header_cell list \<Rightarrow> header_cell list" where
  "update_columns target direction header =
     (let className = (if direction = ''asc'' then ''icon-chevron-up'' else ''icon-chevron-down'');
          cleared = map (\<lambda>h. h\<lparr>hc_icons := [], hc_sorted := False\<rparr>) header
      in if target < length cleared
         then cleared[target := (cleared ! target)\<lparr>hc_icons := [className], hc_sorted := True\<rparr>]
         else cleared)"

definition grid_updateColumns :: "nat \<Rightarrow> string \<Rightarrow> datagrid \<Rightarrow> datagrid" where
  "grid_updateColumns target direction w =
     w\<lparr>dg_colheader := update_columns target direction (dg_colheader w),
       dg_sizingHeader := map_option (update_columns target direction) (dg_sizingHeader w)\<rparr>"

subsection \<open>Showing an answer\<close>

text \<open>
  The loop of \<open>updatePageDropdown\<close>; the page count may be infinite (page size 0), where it never ends. \<open>None\<close> is
  that the loop does not end.
\<close>

definition page_item :: "int \<Rightarrow> string" where
  "page_item i = ''<li><a>'' @ int_str i @ ''</a></li>''"

partial_function (option) page_loop :: "int \<Rightarrow> jnum \<Rightarrow> string \<Rightarrow> string option" where
  [code]: "page_loop i pages pageHTML =
     (if jle (JInt i) pages then page_loop (i + 1) pages (pageHTML @ page_item i) else Some pageHTML)"

definition grid_updatePageDropdown :: "page_result \<Rightarrow> datagrid \<Rightarrow> datagrid option" where
  "grid_updatePageDropdown data w = map_option (\<lambda>h. w\<lparr>dg_pagedropdown := h\<rparr>) (page_loop 1 (r_pages data) [])"

definition grid_updatePageButtons :: "page_result \<Rightarrow> datagrid \<Rightarrow> datagrid" where
  "grid_updatePageButtons data w =
     w\<lparr>dg_prevDisabled := jeq (r_page data) (JInt 1), dg_nextDisabled := jeq (r_page data) (r_pages data)\<rparr>"

definition placeholderRowHTML :: "string \<Rightarrow> datagrid \<Rightarrow> string" where
  "placeholderRowHTML content w =
     ''<tr><td style=\"text-align:center;padding:20px;border-bottom:none;\" colspan=\"'' @ nat_str (length (dg_columns w)) @
     ''\">'' @ content @ ''</td></tr>''"

text \<open>\<open>'' + row[column.property]\<close>\<close>

definition prop_text :: "pval option \<Rightarrow> string" where
  "prop_text p =
     (case p of
        None \<Rightarrow> ''undefined''
      | Some (PStr s) \<Rightarrow> s
      | Some (PNum d) \<Rightarrow> dec_str d
      | Some (PBool b) \<Rightarrow> if b then ''true'' else ''false''
      | Some PNull \<Rightarrow> ''null'')"

definition cell_html :: "row \<Rightarrow> column \<Rightarrow> string" where
  "cell_html r c = ''<td>'' @ prop_text (map_of r (co_property c)) @ ''</td>''"

definition row_html :: "column list \<Rightarrow> row \<Rightarrow> string" where
  "row_html cols r = ''<tr>'' @ concat (map (cell_html r) cols) @ ''</tr>''"

definition rows_html :: "column list \<Rightarrow> row list \<Rightarrow> string" where
  "rows_html cols rows = concat (map (row_html cols) rows)"

text \<open>
  \<open>setColumnWidths\<close>: the last column keeps its own width, a data cell under the sorted header gets the extra offset.
  \<open>dg_cells\<close> is the number of cells of the first body row.
\<close>

definition cell_width :: "header_cell list \<Rightarrow> int list \<Rightarrow> bool \<Rightarrow> nat \<Rightarrow> int option" where
  "cell_width sizing widths td i =
     (if i = length sizing - 1 \<and> sizing \<noteq> [] then None
      else (case js_nth widths i of
              None \<Rightarrow> None
            | Some wd \<Rightarrow>
                Some (if td \<and> i < length sizing \<and> hc_sorted (sizing ! i) then wd + SORTED_HEADER_OFFSET else wd)))"

definition grid_setColumnWidths :: "layout \<Rightarrow> datagrid \<Rightarrow> datagrid" where
  "grid_setColumnWidths ly w =
     (case dg_sizingHeader w of
        None \<Rightarrow> w
      | Some sizing \<Rightarrow>
          w\<lparr>dg_headWidths := map (cell_width sizing (ly_widths ly) False) [0..<length (dg_colheader w)],
            dg_cellWidths := map (cell_width sizing (ly_widths ly) True) [0..<dg_cells w]\<rparr>)"

definition grid_stretchHeight :: "layout \<Rightarrow> datagrid \<Rightarrow> datagrid" where
  "grid_stretchHeight ly w =
     (case dg_sizingHeader w of
        None \<Rightarrow> w
      | Some _ \<Rightarrow>
          (let w = grid_setColumnWidths ly w;
               overhead = ly_header ly + ly_footer ly
           in w\<lparr>dg_wrapperHeight := Some (ly_container ly - overhead)\<rparr>))"

text \<open>\<open>initStretchHeight\<close>: the sizing header is a copy of the column header.\<close>

definition grid_initStretchHeight :: "datagrid \<Rightarrow> datagrid" where
  "grid_initStretchHeight w = w\<lparr>dg_sizingHeader := Some (dg_colheader w)\<rparr>"

text \<open>The request and the callback of \<open>renderData\<close>.\<close>

definition grid_renderData :: "datagrid \<Rightarrow> datagrid" where
  "grid_renderData w =
     w\<lparr>dg_tbody := placeholderRowHTML (dg_loadingHTML w) w, dg_cells := 1, dg_pending := Suc (dg_pending w)\<rparr>"

definition grid_show :: "layout \<Rightarrow> page_result \<Rightarrow> datagrid \<Rightarrow> datagrid option" where
  "grid_show ly data w =
     (let itemdesc = (if r_count data = 1 then dg_itemText w else dg_itemsText w);
          w = w\<lparr>dg_footerVisible := 0 < r_count data,
                dg_pageinput := jnum_str (r_page data),
                dg_pageslabel := jnum_str (r_pages data),
                dg_countlabel := nat_str (r_count data) @ '' '' @ itemdesc,
                dg_startlabel := jnum_str (r_start data),
                dg_endlabel := jnum_str (r_end data)\<rparr>
      in (case grid_updatePageDropdown data w of
            None \<Rightarrow> None
          | Some w \<Rightarrow>
              (let w = grid_updatePageButtons data w;
                   rowHTML = rows_html (dg_columns w) (r_data data);
                   rowHTML = (if rowHTML = [] then placeholderRowHTML (''0 '' @ dg_itemsText w) w else rowHTML);
                   cells = (if r_data data = [] then 1 else length (dg_columns w));
                   w = w\<lparr>dg_tbody := rowHTML, dg_cells := cells\<rparr>;
                   w = grid_stretchHeight ly w
               in Some (w\<lparr>dg_loaded := Suc (dg_loaded w)\<rparr>))))"

definition grid_deliver :: "(data_options \<Rightarrow> page_result) \<Rightarrow> layout \<Rightarrow> datagrid \<Rightarrow> datagrid option" where
  "grid_deliver source ly w =
     (case dg_pending w of
        0 \<Rightarrow> Some w
      | Suc n \<Rightarrow> grid_show ly (source (dg_options w)) (w\<lparr>dg_pending := n\<rparr>))"

subsection \<open>User actions\<close>

definition set_options :: "(data_options \<Rightarrow> data_options) \<Rightarrow> datagrid \<Rightarrow> datagrid" where
  "set_options f w = w\<lparr>dg_options := f (dg_options w)\<rparr>"

text \<open>A click on the header of column \<open>target\<close>.\<close>

definition grid_headerClicked :: "nat \<Rightarrow> datagrid \<Rightarrow> datagrid" where
  "grid_headerClicked target w =
     (case js_nth (dg_colheader w) target of
        None \<Rightarrow> w
      | Some h \<Rightarrow>
          if \<not> hc_sortable h then w
          else
            (let direction = o_sortDirection (dg_options w);
                 sort = o_sortProperty (dg_options w);
                 property = hc_property h;
                 w = (if sort = Some property then
                        set_options (\<lambda>p. p\<lparr>o_sortDirection := Some (if direction = Some ''asc'' then ''desc'' else ''asc'')\<rparr>) w
                      else set_options (\<lambda>p. p\<lparr>o_sortDirection := Some ''asc'', o_sortProperty := Some property\<rparr>) w);
                 w = set_options (\<lambda>p. p\<lparr>o_pageIndex := JInt 0\<rparr>) w;
                 w = grid_updateColumns target (case o_sortDirection (dg_options w) of None \<Rightarrow> [] | Some d \<Rightarrow> d) w
             in grid_renderData w))"

text \<open>The page size as the control gives it: the value of a select item, or of a native select.\<close>

definition grid_pagesizeChanged :: "string \<Rightarrow> datagrid \<Rightarrow> datagrid" where
  "grid_pagesizeChanged v w =
     grid_renderData (set_options (\<lambda>p. p\<lparr>o_pageSize := parse_int v, o_pageIndex := JInt 0\<rparr>) w)"

text \<open>The number that a label's text denotes in arithmetic (the labels hold integers).\<close>

definition jnum_of_text :: "string \<Rightarrow> jnum" where
  "jnum_of_text s =
     (case to_number s of
        XNaN \<Rightarrow> NaN
      | XInf neg \<Rightarrow> if neg then NInf else PInf
      | XDec (Dec m e) \<Rightarrow> if 0 \<le> e then JInt (m * 10 ^ nat e) else NaN)"

definition grid_pageChanged :: "string \<Rightarrow> datagrid \<Rightarrow> datagrid" where
  "grid_pageChanged v w =
     (let pageRequested = parse_int v;
          pageRequested = (if pageRequested = NaN then JInt 1 else pageRequested);
          maxPages = jnum_of_text (dg_pageslabel w)
      in grid_renderData (set_options (\<lambda>p. p\<lparr>o_pageIndex :=
           (if jless maxPages pageRequested then jsub maxPages (JInt 1) else jsub pageRequested (JInt 1))\<rparr>)
           (w\<lparr>dg_pageinput := v\<rparr>)))"

definition grid_searchChanged :: "string option \<Rightarrow> datagrid \<Rightarrow> datagrid" where
  "grid_searchChanged search w =
     grid_renderData (set_options (\<lambda>p. p\<lparr>o_search := search, o_pageIndex := JInt 0\<rparr>) w)"

definition grid_filterChanged :: "string option option \<Rightarrow> datagrid \<Rightarrow> datagrid" where
  "grid_filterChanged flt w =
     grid_renderData (set_options (\<lambda>p. p\<lparr>o_filter := flt, o_pageIndex := JInt 0\<rparr>) w)"

definition grid_previous :: "datagrid \<Rightarrow> datagrid" where
  "grid_previous w = grid_renderData (set_options (\<lambda>p. p\<lparr>o_pageIndex := jsub (o_pageIndex p) (JInt 1)\<rparr>) w)"

definition grid_next :: "datagrid \<Rightarrow> datagrid" where
  "grid_next w = grid_renderData (set_options (\<lambda>p. p\<lparr>o_pageIndex := jadd (o_pageIndex p) (JInt 1)\<rparr>) w)"

definition grid_reload :: "datagrid \<Rightarrow> datagrid" where
  "grid_reload w = grid_renderData (set_options (\<lambda>p. p\<lparr>o_pageIndex := JInt 0\<rparr>) w)"

subsection \<open>Constructor and plugin\<close>

text \<open>The options object of a call; \<open>go_pageSize\<close> in it is overwritten by the page-size control.\<close>

record grid_overrides =
  go_columns :: "column list"
  go_pageIndex :: "jnum option"
  go_search :: "string option"
  go_filter :: "string option option"
  go_sortProperty :: "string option"
  go_sortDirection :: "string option"
  go_loadingHTML :: "string option"
  go_itemsText :: "string option"
  go_itemText :: "string option"
  go_stretchHeight :: bool

text \<open>What the constructor reads of the page: the page-size control and the texts already in the pager.\<close>

record grid_doc =
  gd_pagesize :: string
  gd_pageinput :: string
  gd_pageslabel :: string
  gd_countlabel :: string
  gd_startlabel :: string
  gd_endlabel :: string
  gd_pagedropdown :: string
  gd_prevDisabled :: bool
  gd_nextDisabled :: bool
  gd_columnWidths :: "int option list"

definition default_loadingHTML :: string where
  "default_loadingHTML =
     ''<div class=\"progress progress-striped active\" style=\"width:50%;margin:auto;\"><div class=\"bar\" style=\"width:100%;\"></div></div>''"

definition or_else :: "'a option \<Rightarrow> 'a \<Rightarrow> 'a" where
  "or_else x d = (case x of None \<Rightarrow> d | Some y \<Rightarrow> y)"

definition new_datagrid :: "grid_doc \<Rightarrow> grid_overrides \<Rightarrow> datagrid" where
  "new_datagrid d ov =
     (let opts = \<lparr>o_search = go_search ov, o_filter = go_filter ov, o_sortProperty = go_sortProperty ov,
                  o_sortDirection = go_sortDirection ov, o_pageIndex = or_else (go_pageIndex ov) (JInt 0),
                  o_pageSize = parse_int (gd_pagesize d)\<rparr>;
          w = \<lparr>dg_columns = go_columns ov, dg_options = opts,
               dg_loadingHTML = or_else (go_loadingHTML ov) default_loadingHTML,
               dg_itemsText = or_else (go_itemsText ov) ''items'', dg_itemText = or_else (go_itemText ov) ''item'',
               dg_footerColspan = 0, dg_headerHTML = [], dg_colheader = [], dg_sizingHeader = None,
               dg_tbody = [], dg_cells = 0, dg_footerVisible = False,
               dg_pageinput = gd_pageinput d, dg_pageslabel = gd_pageslabel d, dg_countlabel = gd_countlabel d,
               dg_startlabel = gd_startlabel d, dg_endlabel = gd_endlabel d, dg_pagedropdown = gd_pagedropdown d,
               dg_prevDisabled = gd_prevDisabled d, dg_nextDisabled = gd_nextDisabled d,
               dg_headWidths = gd_columnWidths d, dg_cellWidths = [], dg_wrapperHeight = None,
               dg_pending = 0, dg_loaded = 0\<rparr>;
          w = grid_renderColumns w;
          w = (if go_stretchHeight ov then grid_initStretchHeight w else w)
      in grid_renderData w)"

text \<open>\<open>$el.datagrid(m)\<close> calls the method without arguments; the ones that read an argument fail.\<close>

definition grid_call :: "layout \<Rightarrow> datagrid \<Rightarrow> string \<Rightarrow> datagrid \<times> (js_error + unit)" where
  "grid_call ly w m =
     (if m = ''reload'' then (grid_reload w, Inr ())
      else if m = ''next'' then (grid_next w, Inr ())
      else if m = ''previous'' then (grid_previous w, Inr ())
      else if m = ''renderData'' then (grid_renderData w, Inr ())
      else if m = ''renderColumns'' then (grid_renderColumns w, Inr ())
      else if m = ''searchChanged'' then (grid_searchChanged None w, Inr ())
      else if m = ''filterChanged'' then (grid_filterChanged None w, Inr ())
      else if m = ''initStretchHeight'' then (grid_initStretchHeight w, Inr ())
      else if m = ''stretchHeight'' then (grid_stretchHeight ly w, Inr ())
      else if m = ''setColumnWidths'' then (grid_setColumnWidths ly w, Inr ())
      else (w, Inl (TypeError m)))"

datatype grid_input =
    HeaderClick nat
  | PagesizeChange string
  | PageChange string
  | SearchChange "string option"
  | FilterChange "string option option"
  | PreviousClick
  | NextClick
  | Reload

definition grid_handle :: "datagrid \<Rightarrow> grid_input \<Rightarrow> datagrid" where
  "grid_handle w ev =
     (case ev of
        HeaderClick i \<Rightarrow> grid_headerClicked i w
      | PagesizeChange v \<Rightarrow> grid_pagesizeChanged v w
      | PageChange v \<Rightarrow> grid_pageChanged v w
      | SearchChange s \<Rightarrow> grid_searchChanged s w
      | FilterChange f \<Rightarrow> grid_filterChanged f w
      | PreviousClick \<Rightarrow> if dg_prevDisabled w then w else grid_previous w
      | NextClick \<Rightarrow> if dg_nextDisabled w then w else grid_next w
      | Reload \<Rightarrow> grid_reload w)"

text \<open>The page between two events: the user acts, or the source answers a pending request.\<close>

datatype grid_event = User grid_input | Answer

definition grid_step ::
  "(data_options \<Rightarrow> page_result) \<Rightarrow> layout \<Rightarrow> datagrid option \<Rightarrow> grid_event \<Rightarrow> datagrid option" where
  "grid_step source ly s ev =
     (case s of
        None \<Rightarrow> None
      | Some w \<Rightarrow> (case ev of User inp \<Rightarrow> Some (grid_handle w inp) | Answer \<Rightarrow> grid_deliver source ly w))"

text \<open>All pending requests answered.\<close>

fun deliver_n :: "(data_options \<Rightarrow> page_result) \<Rightarrow> layout \<Rightarrow> nat \<Rightarrow> datagrid \<Rightarrow> datagrid option" where
  "deliver_n source ly 0 w = Some w"
| "deliver_n source ly (Suc n) w =
     (case grid_deliver source ly w of None \<Rightarrow> None | Some w' \<Rightarrow> deliver_n source ly n w')"

definition grid_settle :: "(data_options \<Rightarrow> page_result) \<Rightarrow> layout \<Rightarrow> datagrid \<Rightarrow> datagrid option" where
  "grid_settle source ly w = deliver_n source ly (dg_pending w) w"

subsection \<open>Lemmas: the page loop and the labels\<close>

lemma page_loop_stop: "\<not> jle (JInt i) pages \<Longrightarrow> page_loop i pages h = Some h"
  by (subst page_loop.simps) simp

lemma page_loop_int: "page_loop i (JInt p) h = Some (h @ concat (map page_item [i..p]))"
proof (induction "nat (p + 1 - i)" arbitrary: i h)
  case 0
  then have "p < i" by simp
  then show ?case by (simp add: page_loop_stop jle_def jeq_def)
next
  case (Suc n)
  then have "i \<le> p" by simp
  then have "[i..p] = i # [i + 1..p]" by (simp add: upto_rec1)
  moreover have "page_loop i (JInt p) h = page_loop (i + 1) (JInt p) (h @ page_item i)"
    using \<open>i \<le> p\<close> by (subst page_loop.simps) (auto simp: jle_def jeq_def)
  moreover have "page_loop (i + 1) (JInt p) (h @ page_item i) = Some ((h @ page_item i) @ concat (map page_item [i + 1..p]))"
    by (rule Suc(1)) (use Suc(2) in simp)
  ultimately show ?case by simp
qed

lemma page_loop_infinite: "page_loop i PInf h = None"
proof (rule ccontr)
  assume "page_loop i PInf h \<noteq> None"
  then obtain r where "page_loop i PInf h = Some r" by auto
  moreover have "page_loop i pages h = Some r \<Longrightarrow> pages \<noteq> PInf" for i pages h r
    by (rule page_loop.raw_induct) (auto simp: jle_def split: if_splits)
  ultimately show False by blast
qed

lemma page_loop_None_iff: "page_loop i pages h = None \<longleftrightarrow> pages = PInf"
  by (cases pages) (simp_all add: page_loop_infinite page_loop_int page_loop_stop jle_def jeq_def)

lemma scan_num_int_str: "scan_num (int_str i) = Some (canon i 0, [])"
  using scan_mantissa [of "nat_str (nat \<bar>i\<bar>)" "[]" "[]" 0 "[]" "i < 0"]
  by (auto simp: int_str_def mantissa_str_def digits_value_nat_str scan_exp_def abs_if split: if_splits)

lemma to_number_int_str: "to_number (int_str i) = XDec (canon i 0)"
proof -
  have sc: "scan_signed (int_str i) = Some (XDec (canon i 0), [])"
    by (rule scan_signed_of_scan_num) (rule scan_num_int_str)
  have ch: "c = CHR ''-'' \<or> is_digit c" if "c \<in> set (int_str i)" for c
    using that nat_str_digits by (auto simp: int_str_def split: if_splits)
  then have "js_trim (int_str i) = int_str i"
    by (intro js_trim_id) (metis dec_chars_not_space insertI1)
  moreover have "\<not> is_prefix_of (CHR ''0'' # x # u) (int_str i)" if "x \<in> {CHR ''x'', CHR ''X''}" for x u
    using ch [of x] that by (auto simp: is_prefix_of_iff is_digit_def)
  moreover have "int_str i \<noteq> []" by (simp add: int_str_def)
  ultimately show ?thesis using sc by (simp add: to_number_def Let_def)
qed

lemma canon_int: "\<exists>m e. canon i 0 = Dec m (int e) \<and> m * 10 ^ e = i"
proof -
  have "\<exists>m e'. canon i (int k) = Dec m (int e') \<and> k \<le> e' \<and> m * 10 ^ (e' - k) = i \<or> i = 0" for k
  proof (induction i "int k" arbitrary: k rule: canon.induct)
    case (1 i)
    show ?case
    proof (cases "i \<noteq> 0 \<and> i mod 10 = 0")
      case True
      then have nz: "i div 10 \<noteq> 0" by auto
      from True 1 [of "Suc k"] nz obtain m e' where m: "canon (i div 10) (int (Suc k)) = Dec m (int e')" "Suc k \<le> e'"
          "m * 10 ^ (e' - Suc k) = i div 10" by (auto simp: add.commute)
      have "e' - k = Suc (e' - Suc k)" using m(2) by simp
      then have "m * 10 ^ (e' - k) = 10 * (m * 10 ^ (e' - Suc k))" by simp
      also have "\<dots> = i" using m(3) True by (simp add: mod_eq_0_iff_dvd)
      finally have "m * 10 ^ (e' - k) = i" .
      then show ?thesis using True m by (intro exI [of _ m] exI [of _ e']) (simp add: canon.simps [of i] add.commute)
    qed (auto simp: canon.simps [of i])
  qed
  from this [of 0] show ?thesis by (cases "i = 0") (auto simp: canon.simps)
qed

lemma jnum_of_text_int: "jnum_of_text (int_str i) = JInt i"
proof -
  obtain m e where "canon i 0 = Dec m (int e)" "m * 10 ^ e = i" using canon_int by blast
  then show ?thesis by (simp add: jnum_of_text_def to_number_int_str)
qed

lemma jnum_of_text_str: "jnum_of_text (jnum_str x) = x"
proof (cases x)
  case (JInt i)
  then show ?thesis by (simp add: jnum_str_def jnum_of_text_int)
qed (use to_number_xnum_str [of XNaN] to_number_xnum_str [of "XInf False"] to_number_xnum_str [of "XInf True"] in
    \<open>simp_all add: jnum_str_def jnum_of_text_def\<close>)

subsection \<open>Lemmas: what the grid shows\<close>

text \<open>The page shows the answer \<open>data\<close>.\<close>

definition shows_page :: "page_result \<Rightarrow> datagrid \<Rightarrow> bool" where
  "shows_page data w \<longleftrightarrow>
     dg_tbody w = (if rows_html (dg_columns w) (r_data data) = [] then placeholderRowHTML (''0 '' @ dg_itemsText w) w
                   else rows_html (dg_columns w) (r_data data)) \<and>
     dg_footerVisible w = (0 < r_count data) \<and>
     dg_pageinput w = jnum_str (r_page data) \<and> dg_pageslabel w = jnum_str (r_pages data) \<and>
     dg_startlabel w = jnum_str (r_start data) \<and> dg_endlabel w = jnum_str (r_end data) \<and>
     dg_countlabel w = nat_str (r_count data) @ '' '' @ (if r_count data = 1 then dg_itemText w else dg_itemsText w) \<and>
     dg_prevDisabled w = jeq (r_page data) (JInt 1) \<and> dg_nextDisabled w = jeq (r_page data) (r_pages data) \<and>
     (\<forall>p. r_pages data = JInt p \<longrightarrow> dg_pagedropdown w = concat (map page_item [1..p]))"

lemma stretch_fields [simp]:
  "dg_options (grid_stretchHeight ly w) = dg_options w" "dg_columns (grid_stretchHeight ly w) = dg_columns w"
  "dg_pending (grid_stretchHeight ly w) = dg_pending w" "dg_tbody (grid_stretchHeight ly w) = dg_tbody w"
  "dg_footerVisible (grid_stretchHeight ly w) = dg_footerVisible w" "dg_pageinput (grid_stretchHeight ly w) = dg_pageinput w"
  "dg_pageslabel (grid_stretchHeight ly w) = dg_pageslabel w" "dg_countlabel (grid_stretchHeight ly w) = dg_countlabel w"
  "dg_startlabel (grid_stretchHeight ly w) = dg_startlabel w" "dg_endlabel (grid_stretchHeight ly w) = dg_endlabel w"
  "dg_prevDisabled (grid_stretchHeight ly w) = dg_prevDisabled w" "dg_nextDisabled (grid_stretchHeight ly w) = dg_nextDisabled w"
  "dg_pagedropdown (grid_stretchHeight ly w) = dg_pagedropdown w" "dg_itemsText (grid_stretchHeight ly w) = dg_itemsText w"
  "dg_itemText (grid_stretchHeight ly w) = dg_itemText w" "dg_colheader (grid_stretchHeight ly w) = dg_colheader w"
  by (simp_all add: grid_stretchHeight_def grid_setColumnWidths_def Let_def split: option.splits)

lemma placeholder_cong: "dg_columns w = dg_columns w' \<Longrightarrow> placeholderRowHTML c w = placeholderRowHTML c w'"
  by (simp add: placeholderRowHTML_def)

lemma grid_show_None_iff: "grid_show ly data w = None \<longleftrightarrow> r_pages data = PInf"
  by (auto simp: grid_show_def grid_updatePageDropdown_def page_loop_None_iff page_loop_infinite Let_def
      split: option.splits)

lemma grid_show_shows:
  assumes "grid_show ly data w = Some w'"
  shows "shows_page data w'" and "dg_options w' = dg_options w" and "dg_pending w' = dg_pending w"
    and "dg_columns w' = dg_columns w" and "dg_colheader w' = dg_colheader w"
proof -
  from assms obtain h where h: "page_loop 1 (r_pages data) [] = Some h"
    by (auto simp: grid_show_def grid_updatePageDropdown_def Let_def split: option.splits)
  then have drop: "r_pages data = JInt p \<Longrightarrow> h = concat (map page_item [1..p])" for p
    by (simp add: page_loop_int)
  note ph = placeholderRowHTML_def
  show "shows_page data w'" and "dg_options w' = dg_options w" and "dg_pending w' = dg_pending w"
    and "dg_columns w' = dg_columns w" and "dg_colheader w' = dg_colheader w"
    using assms h drop
    by (auto simp: grid_show_def grid_updatePageDropdown_def grid_updatePageButtons_def shows_page_def Let_def ph)
qed

text \<open>The invariant: an unanswered request, or the answer to the current query on the page.\<close>

definition grid_ok :: "(data_options \<Rightarrow> page_result) \<Rightarrow> datagrid option \<Rightarrow> bool" where
  "grid_ok source s =
     (case s of None \<Rightarrow> True | Some w \<Rightarrow> 0 < dg_pending w \<or> shows_page (source (dg_options w)) w)"

lemma renderData_pending [simp]: "dg_pending (grid_renderData w) = Suc (dg_pending w)"
  "dg_options (grid_renderData w) = dg_options w"
  by (simp_all add: grid_renderData_def)

lemma handle_pending: "grid_handle w ev = w \<or> 0 < dg_pending (grid_handle w ev)"
  by (simp add: grid_handle_def grid_headerClicked_def grid_pagesizeChanged_def grid_pageChanged_def grid_searchChanged_def
      grid_filterChanged_def grid_previous_def grid_next_def grid_reload_def Let_def split: grid_input.splits option.splits)

lemma grid_deliver_ok: "grid_ok source (Some w) \<Longrightarrow> grid_ok source (grid_deliver source ly w)"
proof (cases "dg_pending w")
  case 0
  then show "grid_ok source (Some w) \<Longrightarrow> ?thesis" by (simp add: grid_deliver_def)
next
  case (Suc n)
  then show ?thesis
  proof (cases "grid_deliver source ly w")
    case (Some w')
    with Suc have "grid_show ly (source (dg_options w)) (w\<lparr>dg_pending := n\<rparr>) = Some w'" by (simp add: grid_deliver_def)
    from grid_show_shows [OF this] Some show ?thesis by (simp add: grid_ok_def)
  qed (simp add: grid_ok_def)
qed

lemma grid_step_ok: "grid_ok source s \<Longrightarrow> grid_ok source (grid_step source ly s ev)"
proof (cases "(s, ev)" rule: prod.exhaust)
  case (Pair t e)
  assume ok: "grid_ok source s"
  show ?thesis
  proof (cases s)
    case (Some w)
    show ?thesis
    proof (cases ev)
      case (User inp)
      with ok Some handle_pending [of w inp] show ?thesis by (auto simp: grid_step_def grid_ok_def)
    next
      case Answer
      with ok Some grid_deliver_ok [of source w ly] show ?thesis by (simp add: grid_step_def)
    qed
  qed (simp add: grid_step_def grid_ok_def)
qed

interpretation grid_run: step_system "grid_step source ly" "grid_ok source" for source ly
  by unfold_locales (rule grid_step_ok)

lemma new_grid_ok: "grid_ok source (Some (new_datagrid d ov))"
  by (simp add: grid_ok_def new_datagrid_def Let_def)

lemma deliver_n_total:
  assumes "r_pages (source (dg_options w)) \<noteq> PInf" and "dg_pending w = n"
  shows "\<exists>w'. deliver_n source ly n w = Some w' \<and> dg_options w' = dg_options w \<and> dg_pending w' = 0 \<and>
    dg_colheader w' = dg_colheader w \<and> (0 < n \<longrightarrow> shows_page (source (dg_options w)) w')"
  using assms
proof (induction n arbitrary: w)
  case 0
  then show ?case by simp
next
  case (Suc n)
  obtain w' where w': "grid_show ly (source (dg_options w)) (w\<lparr>dg_pending := n\<rparr>) = Some w'"
    using Suc.prems(1) grid_show_None_iff by fastforce
  note f = grid_show_shows [OF w']
  then have "r_pages (source (dg_options w')) \<noteq> PInf" "dg_pending w' = n" using Suc.prems by simp_all
  from Suc.IH [OF this] obtain v where v: "deliver_n source ly n w' = Some v" "dg_options v = dg_options w'" "dg_pending v = 0"
      "dg_colheader v = dg_colheader w'" "0 < n \<longrightarrow> shows_page (source (dg_options w')) v" by blast
  have "grid_deliver source ly w = Some w'" using Suc.prems(2) w' by (simp add: grid_deliver_def)
  moreover have "n = 0 \<Longrightarrow> v = w'" using v(1) by simp
  ultimately show ?case using v f by auto
qed

text \<open>\<open>k\<close> clicks on next, each answered before the following one.\<close>

fun pager_walk :: "(data_options \<Rightarrow> page_result) \<Rightarrow> layout \<Rightarrow> nat \<Rightarrow> datagrid \<Rightarrow> datagrid option" where
  "pager_walk source ly 0 w = Some w"
| "pager_walk source ly (Suc k) w =
     (case pager_walk source ly k w of
        None \<Rightarrow> None
      | Some w' \<Rightarrow> grid_settle source ly (grid_handle w' NextClick))"

subsection \<open>The contract of a paged source\<close>

text \<open>
  What the pager relies on: the count does not depend on the page asked for, the page number is the index plus one, and
  the number of pages is the rounded-up quotient.
\<close>

locale paged_source =
  fixes query :: "data_options \<Rightarrow> page_result"
  assumes page_number: "r_page (query opt) = jadd (o_pageIndex opt) (JInt 1)"
    and page_count: "r_pages (query opt) = ceil_div (int (r_count (query opt))) (o_pageSize opt)"
    and count_stable: "r_count (query (opt\<lparr>o_pageIndex := j\<rparr>)) = r_count (query opt)"
begin

lemma pages_stable: "r_pages (query (opt\<lparr>o_pageIndex := j\<rparr>)) = r_pages (query opt)"
  by (simp add: page_count count_stable)

lemma pages_finite: "o_pageSize opt = JInt (int n) \<Longrightarrow> 0 < n \<Longrightarrow> \<exists>p. r_pages (query opt) = JInt (int p)"
proof -
  assume n: "o_pageSize opt = JInt (int n)" "0 < n"
  have "0 \<le> - ((- int (r_count (query opt))) div int n)" using n(2) div_nonpos_pos_le0 [of "- int (r_count (query opt))" "int n"] by simp
  then show ?thesis using n by (intro exI [of _ "nat (- ((- int (r_count (query opt))) div int n))"]) (simp add: page_count ceil_div_def)
qed

lemma hangs_iff: "r_pages (query opt) = PInf \<longleftrightarrow> o_pageSize opt = JInt 0 \<and> 0 < r_count (query opt)"
  by (auto simp: page_count ceil_div_def inf_times_def split: jnum.splits)

lemma buttons:
  assumes "shows_page (query (dg_options w)) w" and "o_pageIndex (dg_options w) = JInt (int i)"
    and "r_pages (query (dg_options w)) = JInt (int p)"
  shows "dg_prevDisabled w = (i = 0) \<and> dg_nextDisabled w = (i + 1 = p)"
  using assms by (auto simp: shows_page_def page_number jeq_def)

text \<open>One click on next, answered.\<close>

lemma next_page:
  assumes "dg_pending w = 0" and "shows_page (query (dg_options w)) w"
    and "o_pageIndex (dg_options w) = JInt (int i)" and "r_pages (query (dg_options w)) = JInt (int p)" and "i + 1 < p"
  shows "\<exists>w'. grid_settle query ly (grid_handle w NextClick) = Some w' \<and>
    dg_options w' = (dg_options w)\<lparr>o_pageIndex := JInt (int (i + 1))\<rparr> \<and> dg_pending w' = 0 \<and> shows_page (query (dg_options w')) w'"
proof -
  let ?v = "grid_handle w NextClick"
  have v: "?v = grid_next w" using buttons [OF assms(2-4)] assms(5) by (simp add: grid_handle_def)
  have opt: "dg_options ?v = (dg_options w)\<lparr>o_pageIndex := JInt (int (i + 1))\<rparr>" and pend: "dg_pending ?v = 1"
    using assms(1,3) by (simp_all add: v grid_next_def set_options_def)
  then have "r_pages (query (dg_options ?v)) \<noteq> PInf" using assms(4) by (simp add: pages_stable)
  from deliver_n_total [where source = query and ly = ly, OF this pend] show ?thesis
    by (auto simp: grid_settle_def opt pend)
qed

lemma next_pages:
  assumes "dg_pending w = 0" and "shows_page (query (dg_options w)) w"
    and "o_pageIndex (dg_options w) = JInt (int i)" and "r_pages (query (dg_options w)) = JInt (int p)" and "i + k < p"
  shows "\<exists>w'. pager_walk query ly k w = Some w' \<and>
    dg_options w' = (dg_options w)\<lparr>o_pageIndex := JInt (int (i + k))\<rparr> \<and> dg_pending w' = 0 \<and> shows_page (query (dg_options w')) w'"
  using assms(5)
proof (induction k)
  case 0
  have "dg_options w = (dg_options w)\<lparr>o_pageIndex := JInt (int i)\<rparr>" using assms(3) by simp
  with assms(1,2) show ?case by simp
next
  case (Suc k)
  then obtain w' where w': "pager_walk query ly k w = Some w'"
      "dg_options w' = (dg_options w)\<lparr>o_pageIndex := JInt (int (i + k))\<rparr>" "dg_pending w' = 0" "shows_page (query (dg_options w')) w'"
    by auto
  have "r_pages (query (dg_options w')) = JInt (int p)" using assms(4) w'(2) by (simp add: pages_stable)
  with next_page [of w' "i + k" p ly] w' Suc.prems show ?case by simp
qed

end

interpretation static_source: paged_source "source_data s" for s
proof
  fix opt j
  show "r_page (source_data s opt) = jadd (o_pageIndex opt) (JInt 1)" by (simp add: source_data_def Let_def)
  show "r_pages (source_data s opt) = ceil_div (int (r_count (source_data s opt))) (o_pageSize opt)"
    by (rule source_data_count(2))
  show "r_count (source_data s (opt\<lparr>o_pageIndex := j\<rparr>)) = r_count (source_data s opt)"
    by (simp add: source_data_count selected_rows_def filter_rows_def search_rows_def)
qed

subsection \<open>Properties\<close>

text \<open>C8: through any interleaving of user actions and answers, whenever no request is pending the grid shows exactly
  the answer to its current query; and pending requests, once answered, leave it showing that answer (unless the page
  size is 0).\<close>

theorem datagrid_shows_current_query:
  "case foldl (grid_step (source_data s) ly) (Some (new_datagrid d ov)) evs of
     None \<Rightarrow> True
   | Some w \<Rightarrow>
       (dg_pending w = 0 \<longrightarrow> shows_page (source_data s (dg_options w)) w) \<and>
       (o_pageSize (dg_options w) \<noteq> JInt 0 \<longrightarrow>
         (\<exists>w'. grid_settle (source_data s) ly w = Some w' \<and> dg_options w' = dg_options w \<and> dg_pending w' = 0 \<and>
            shows_page (source_data s (dg_options w)) w'))"
proof (cases "foldl (grid_step (source_data s) ly) (Some (new_datagrid d ov)) evs")
  case (Some w)
  have "grid_ok (source_data s) (foldl (grid_step (source_data s) ly) (Some (new_datagrid d ov)) evs)"
    by (rule grid_run.run_ok) (rule new_grid_ok)
  with Some have ok: "0 < dg_pending w \<or> shows_page (source_data s (dg_options w)) w" by (simp add: grid_ok_def)
  have "\<exists>w'. grid_settle (source_data s) ly w = Some w' \<and> dg_options w' = dg_options w \<and> dg_pending w' = 0 \<and>
      shows_page (source_data s (dg_options w)) w'" if "o_pageSize (dg_options w) \<noteq> JInt 0"
  proof -
    have "r_pages (source_data s (dg_options w)) \<noteq> PInf" using that by (simp add: static_source.hangs_iff)
    from deliver_n_total [where source = "source_data s" and ly = ly, OF this refl] ok show ?thesis
      unfolding grid_settle_def by (cases "dg_pending w") auto
  qed
  with ok Some show ?thesis by auto
qed simp

definition ex_grid_doc :: grid_doc where
  "ex_grid_doc = \<lparr>gd_pagesize = ''2'', gd_pageinput = [], gd_pageslabel = [], gd_countlabel = [], gd_startlabel = [],
     gd_endlabel = [], gd_pagedropdown = [], gd_prevDisabled = False, gd_nextDisabled = False, gd_columnWidths = []\<rparr>"

definition ex_grid_options :: grid_overrides where
  "ex_grid_options = \<lparr>go_columns = src_columns ex_source, go_pageIndex = None, go_search = None, go_filter = None,
     go_sortProperty = None, go_sortDirection = None, go_loadingHTML = None, go_itemsText = None, go_itemText = None,
     go_stretchHeight = False\<rparr>"

definition ex_layout :: layout where
  "ex_layout = \<lparr>ly_container = 400, ly_header = 40, ly_footer = 40, ly_widths = [100]\<rparr>"

abbreviation ex_grid :: datagrid where
  "ex_grid \<equiv> new_datagrid ex_grid_doc ex_grid_options"

lemma ex_grid_options: "dg_options ex_grid =
  \<lparr>o_search = None, o_filter = None, o_sortProperty = None, o_sortDirection = None, o_pageIndex = JInt 0, o_pageSize = JInt 2\<rparr>"
  by (simp add: new_datagrid_def ex_grid_doc_def ex_grid_options_def or_else_def grid_renderColumns_def Let_def
      parse_int_def is_space_def is_digit_def digits_value_def)

theorem datagrid_shows_current_query_witness:
  "\<exists>w'. grid_settle (source_data ex_source) ex_layout ex_grid = Some w' \<and>
     shows_page (source_data ex_source (dg_options ex_grid)) w'"
  using datagrid_shows_current_query [of ex_source ex_layout ex_grid_doc ex_grid_options "[]"]
  by (auto simp: ex_grid_options)

text \<open>C9: paging through the grid visits everything once: from a settled first page, \<open>p - 1\<close> clicks on next walk
  through the \<open>p\<close> pages, the button is disabled exactly on the last one, and the rows shown on the way are, in order,
  all the rows the query selects.\<close>

theorem datagrid_walk:
  assumes "0 < n" and "src_formatter s = None"
    and "dg_pending w = 0" and "shows_page (source_data s (dg_options w)) w"
    and "o_pageIndex (dg_options w) = JInt 0" and "o_pageSize (dg_options w) = JInt (int n)"
    and "r_pages (source_data s (dg_options w)) = JInt (int p)"
  shows "concat (map (\<lambda>k. case pager_walk (source_data s) ly k w of None \<Rightarrow> []
        | Some w' \<Rightarrow> r_data (source_data s (dg_options w'))) [0..<p]) =
      sort_rows (dg_options w) (selected_rows s (dg_options w)) \<and>
    (\<forall>k < p. \<exists>w'. pager_walk (source_data s) ly k w = Some w' \<and> shows_page (source_data s (dg_options w')) w' \<and>
      dg_nextDisabled w' = (k + 1 = p))"
proof -
  let ?o = "dg_options w"
  have step: "\<exists>w'. pager_walk (source_data s) ly k w = Some w' \<and> dg_options w' = ?o\<lparr>o_pageIndex := JInt (int k)\<rparr> \<and>
      shows_page (source_data s (dg_options w')) w'" if "k < p" for k
    using static_source.next_pages [where s = s and i = 0 and ly = ly, OF assms(3,4) _ assms(7)] assms(5) that by auto
  have size: "?o\<lparr>o_pageSize := JInt (int n)\<rparr> = ?o" using assms(6) by simp
  then have opt: "?o\<lparr>o_pageIndex := j, o_pageSize := JInt (int n)\<rparr> = ?o\<lparr>o_pageIndex := j\<rparr>" for j
    using assms(6) by simp
  have part: "concat (map (\<lambda>i. r_data (source_data s (?o\<lparr>o_pageIndex := JInt (int i), o_pageSize := JInt (int n)\<rparr>))) [0..<p]) =
      sort_rows ?o (selected_rows s ?o)"
    using assms(1,2,7) by (intro pages_partition) (simp_all only: size)
  have "map (\<lambda>k. case pager_walk (source_data s) ly k w of None \<Rightarrow> []
        | Some w' \<Rightarrow> r_data (source_data s (dg_options w'))) [0..<p] =
      map (\<lambda>i. r_data (source_data s (?o\<lparr>o_pageIndex := JInt (int i), o_pageSize := JInt (int n)\<rparr>))) [0..<p]"
    using step opt by (intro map_cong [OF refl]) fastforce
  note rows = part [folded this]
  have nxt:  "\<exists>w'. pager_walk (source_data s) ly k w = Some w' \<and> shows_page (source_data s (dg_options w')) w' \<and>
      dg_nextDisabled w' = (k + 1 = p)" if k: "k < p" for k
  proof -
    from step [OF k] obtain w' where w': "pager_walk (source_data s) ly k w = Some w'"
        "dg_options w' = ?o\<lparr>o_pageIndex := JInt (int k)\<rparr>" "shows_page (source_data s (dg_options w')) w'" by blast
    have "r_pages (source_data s (dg_options w')) = JInt (int p)"
      using assms(7) w'(2) by (simp add: static_source.pages_stable)
    with static_source.buttons [OF w'(3), of k p] w' show ?thesis by simp
  qed
  from rows nxt show ?thesis by (intro conjI allI impI)
qed

theorem datagrid_walk_witness:
  "\<exists>w. grid_settle (source_data ex_source) ex_layout ex_grid = Some w \<and>
     (\<exists>w'. pager_walk (source_data ex_source) ex_layout 1 w = Some w' \<and> dg_nextDisabled w')"
proof -
  have c: "r_count (source_data ex_source (dg_options ex_grid)) = 3"
    by (simp add: source_data_count ex_grid_options selected_rows_def search_rows_def filter_rows_def ex_source_def new_source_def)
  then have p: "r_pages (source_data ex_source (dg_options ex_grid)) = JInt (int 2)"
    by (simp add: source_data_count(2) ceil_div_def) (simp add: ex_grid_options)
  then have "r_pages (source_data ex_source (dg_options ex_grid)) \<noteq> PInf" by simp
  from deliver_n_total [where source = "source_data ex_source" and ly = ex_layout, OF this refl]
  obtain w where w: "grid_settle (source_data ex_source) ex_layout ex_grid = Some w" "dg_options w = dg_options ex_grid"
      "dg_pending w = 0" "shows_page (source_data ex_source (dg_options w)) w"
    by (auto simp: grid_settle_def new_datagrid_def Let_def)
  have f: "src_formatter ex_source = None" by (simp add: ex_source_def new_source_def)
  have i: "o_pageIndex (dg_options w) = JInt 0" and z: "o_pageSize (dg_options w) = JInt (int 2)"
    using w(2) by (simp_all add: ex_grid_options)
  have pg: "r_pages (source_data ex_source (dg_options w)) = JInt (int 2)" using p w(2) by simp
  have one: "(1 :: nat) < 2" and two: "(0 :: nat) < 2" by simp_all
  from conjunct2 [OF datagrid_walk [where ly = ex_layout, OF two f w(3,4) i z pg], rule_format, OF one]
  obtain w' where "pager_walk (source_data ex_source) ex_layout 1 w = Some w'" "dg_nextDisabled w' = (1 + 1 = (2 :: nat))"
    by (elim exE conjE)
  with w(1) show ?thesis by (intro exI conjI) simp_all
qed

text \<open>A click on a sortable header sorts by that column: ascending at first, then alternating; it goes back to the
  first page, and the column header is the only one that carries the mark and an arrow, which points the right way.\<close>

lemma datagrid_sort_click:
  assumes "i < length (dg_colheader w)" and "hc_sortable (dg_colheader w ! i)"
  shows "let w' = grid_handle w (HeaderClick i);
             dir = (if o_sortProperty (dg_options w) = Some (hc_property (dg_colheader w ! i)) \<and>
                       o_sortDirection (dg_options w) = Some ''asc'' then ''desc'' else ''asc'')
    in o_sortProperty (dg_options w') = Some (hc_property (dg_colheader w ! i)) \<and> o_sortDirection (dg_options w') = Some dir \<and>
       o_pageIndex (dg_options w') = JInt 0 \<and> dg_pending w' = Suc (dg_pending w) \<and>
       (\<forall>k < length (dg_colheader w'). hc_sorted (dg_colheader w' ! k) = (k = i) \<and>
          hc_icons (dg_colheader w' ! k) =
            (if k = i then [if dir = ''asc'' then ''icon-chevron-up'' else ''icon-chevron-down''] else []))"
  using assms
  by (auto simp: grid_handle_def grid_headerClicked_def js_nth_def set_options_def grid_updateColumns_def
      grid_renderData_def update_columns_def Let_def nth_list_update)

lemma datagrid_sort_click_witness:
  "o_sortDirection (dg_options (grid_handle (grid_handle ex_grid (HeaderClick 0)) (HeaderClick 0))) = Some ''desc''"
proof -
  let ?w = "grid_handle ex_grid (HeaderClick 0)"
  have h: "dg_colheader ex_grid = map header_of (src_columns ex_source)"
    by (simp add: new_datagrid_def ex_grid_options_def grid_renderColumns_def grid_renderData_def Let_def)
  have c: "src_columns ex_source = [\<lparr>co_property = ''name'', co_label = ''Name'', co_sortable = True\<rparr>]"
    by (simp add: ex_source_def new_source_def)
  have w: "dg_colheader ?w = [\<lparr>hc_property = ''name'', hc_sortable = True, hc_sorted = True, hc_icons = [''icon-chevron-up'']\<rparr>]"
    by (simp add: grid_handle_def grid_headerClicked_def js_nth_def h c header_of_def set_options_def grid_updateColumns_def
        grid_renderData_def update_columns_def ex_grid_options Let_def)
  have "o_sortProperty (dg_options ?w) = Some ''name''" "o_sortDirection (dg_options ?w) = Some ''asc''"
    using datagrid_sort_click [of 0 ex_grid] by (simp_all add: h c header_of_def ex_grid_options Let_def)
  with datagrid_sort_click [of 0 ?w] show ?thesis by (simp add: w Let_def)
qed

text \<open>C38: the grid hangs exactly when the page size is 0 and there is something to show: then the page count is
  infinite and the loop that fills the page list never ends.\<close>

theorem datagrid_hangs_iff:
  "grid_deliver (source_data s) ly w = None \<longleftrightarrow>
     0 < dg_pending w \<and> o_pageSize (dg_options w) = JInt 0 \<and> 0 < r_count (source_data s (dg_options w))"
  by (cases "dg_pending w") (simp_all add: grid_deliver_def grid_show_None_iff static_source.hangs_iff)

text \<open>The page input: with \<open>p\<close> pages shown, a number from 1 to \<open>p\<close> goes to that page, a larger one to the last
  page and a text that is no number to the first. A number below 1 is not clamped: page 0 asks for the index -1, which
  shows no rows although there are some.\<close>

lemma datagrid_page_input:
  assumes "dg_pageslabel w = jnum_str (JInt (int p))"
  shows "o_pageIndex (dg_options (grid_handle w (PageChange v))) =
      (case parse_int v of
         JInt k \<Rightarrow> JInt (if int p < k then int p - 1 else k - 1)
       | _ \<Rightarrow> JInt (if p = 0 then - 1 else 0)) \<and>
    (parse_int v = JInt 0 \<and> o_pageSize (dg_options w) = JInt (int n) \<and> src_formatter s = None \<longrightarrow>
      r_data (source_data s (dg_options (grid_handle w (PageChange v)))) = [])"
proof
  have pi: "parse_int v = NaN \<or> (\<exists>k. parse_int v = JInt k)" by (simp add: parse_int_def Let_def)
  show *: "o_pageIndex (dg_options (grid_handle w (PageChange v))) =
      (case parse_int v of
         JInt k \<Rightarrow> JInt (if int p < k then int p - 1 else k - 1)
       | _ \<Rightarrow> JInt (if p = 0 then - 1 else 0))"
    using pi assms by (auto simp: grid_handle_def grid_pageChanged_def set_options_def jnum_of_text_str jsub_def jneg_def Let_def)
  show "parse_int v = JInt 0 \<and> o_pageSize (dg_options w) = JInt (int n) \<and> src_formatter s = None \<longrightarrow>
      r_data (source_data s (dg_options (grid_handle w (PageChange v)))) = []"
  proof (intro impI)
    assume a: "parse_int v = JInt 0 \<and> o_pageSize (dg_options w) = JInt (int n) \<and> src_formatter s = None"
    let ?o = "dg_options (grid_handle w (PageChange v))"
    have "o_pageIndex ?o = JInt (- 1)" using * a by simp
    moreover have "o_pageSize ?o = JInt (int n)" using a by (simp add: grid_handle_def grid_pageChanged_def set_options_def Let_def)
    ultimately show "r_data (source_data s ?o) = []"
      using a by (simp add: source_data_def Let_def js_slice_def slice_pos_def)
  qed
qed

lemma datagrid_page_input_example:
  "o_pageIndex (dg_options (grid_handle (ex_grid\<lparr>dg_pageslabel := jnum_str (JInt (int 2))\<rparr>) (PageChange ''7''))) = JInt 1"
  using datagrid_page_input [of "ex_grid\<lparr>dg_pageslabel := jnum_str (JInt (int 2))\<rparr>" 2 "''7''"]
  by (simp add: parse_int_def is_space_def is_digit_def digits_value_def)

end
