(* ===== verification/Spinner.thy ===== *)
theory Spinner
  imports Jq_Dom
begin

text \<open>
  The spinner (\<open>fuelux/dist/spinner.js\<close>): a number input with two buttons that step its value while they are held
  down. The state holds the options, the cached elements, the \<open>switches\<close>, the last announced value, and, for the
  browser, the pending timers and the events triggered so far.

  \<open>spinner_sound\<close> (the input's text always denotes the value) is the invariant; \<open>spinner_handle\<close> dispatches the
  events that the constructor binds.
\<close>

subsection \<open>Options and state\<close>

record spin_options =
  so_value :: xnum
  so_min :: xnum
  so_max :: xnum
  so_step :: xnum
  so_hold :: bool
  so_speed :: string
  so_disabled :: bool

text \<open>The options object of a call: each property may be absent.\<close>

record spin_overrides =
  ov_value :: "xnum option"
  ov_min :: "xnum option"
  ov_max :: "xnum option"
  ov_step :: "xnum option"
  ov_hold :: "bool option"
  ov_speed :: "string option"
  ov_disabled :: "bool option"

definition given :: "'a \<Rightarrow> 'a option \<Rightarrow> 'a" where
  "given d v = (case v of None \<Rightarrow> d | Some x \<Rightarrow> x)"

definition spinner_defaults :: spin_options where
  "spinner_defaults =
     \<lparr>so_value = XDec (Dec 1 0), so_min = XDec (Dec 1 0), so_max = XDec (Dec 999 0), so_step = XDec (Dec 1 0),
      so_hold = True, so_speed = ''medium'', so_disabled = False\<rparr>"

definition spinner_extend :: "spin_options \<Rightarrow> spin_overrides \<Rightarrow> spin_options" where
  "spinner_extend d v =
     \<lparr>so_value = given (so_value d) (ov_value v), so_min = given (so_min d) (ov_min v),
      so_max = given (so_max d) (ov_max v), so_step = given (so_step d) (ov_step v),
      so_hold = given (so_hold d) (ov_hold v), so_speed = given (so_speed d) (ov_speed v),
      so_disabled = given (so_disabled d) (ov_disabled v)\<rparr>"

datatype spin_event = Changed xnum | Change

record spin_timer =
  t_handle :: nat
  t_up :: bool
  t_delay :: rat

record spinner =
  sp_options :: spin_options
  sp_input :: jq
  sp_buttons :: jq
  sp_count :: nat
  sp_enabled :: bool
  sp_speed :: nat
  sp_timeout :: "nat option"
  sp_lastValue :: "xnum option"
  sp_timers :: "spin_timer list"
  sp_next :: nat
  sp_events :: "spin_event list"

record spinner_doc =
  sd_input :: jq
  sd_buttons :: jq

subsection \<open>Methods\<close>

definition spinner_render :: "spinner \<Rightarrow> spinner" where
  "spinner_render w =
     w\<lparr>sp_input := attr_set ''maxlength'' (nat_str (length (xnum_str (so_max (sp_options w)))))
        (val_set (xnum_str (so_value (sp_options w))) (sp_input w))\<rparr>"

text \<open>\<open>value(v)\<close>: sets a finite number and returns the widget (\<open>None\<close>), or returns the current value.\<close>

definition spinner_value :: "spinner \<Rightarrow> jval \<Rightarrow> spinner \<times> xnum option" where
  "spinner_value w v =
     (if js_parse_float v \<noteq> XNaN \<and> xfinite (js_number v) then
        (let x = js_parse_float v
         in (w\<lparr>sp_options := (sp_options w)\<lparr>so_value := x\<rparr>, sp_input := val_set (xnum_str x) (sp_input w)\<rparr>, None))
      else (w, Some (so_value (sp_options w))))"

definition xeq :: "xnum \<Rightarrow> xnum \<Rightarrow> bool" where
  "xeq x y \<longleftrightarrow> x = y \<and> x \<noteq> XNaN"

definition spinner_triggerChangedEvent :: "spinner \<Rightarrow> spinner" where
  "spinner_triggerChangedEvent w =
     (let currentValue = so_value (sp_options w)
      in if (case sp_lastValue w of None \<Rightarrow> False | Some l \<Rightarrow> xeq currentValue l) then w
         else w\<lparr>sp_lastValue := Some currentValue, sp_events := sp_events w @ [Changed currentValue, Change]\<rparr>)"

definition set_option_value :: "xnum \<Rightarrow> spinner \<Rightarrow> spinner" where
  "set_option_value x w = w\<lparr>sp_options := (sp_options w)\<lparr>so_value := x\<rparr>\<rparr>"

definition spinner_change :: "spinner \<Rightarrow> spinner \<times> (js_error + unit)" where
  "spinner_change w =
     (case val_get (sp_input w) of
        None \<Rightarrow> (w, Inl (TypeError ''replace of undefined''))
      | Some newVal \<Rightarrow>
          if js_truthy (Number (to_number newVal)) then
            (spinner_triggerChangedEvent (set_option_value (to_number newVal) w), Inr ())
          else
            (let digits = filter is_digit newVal;
                 w = w\<lparr>sp_input := val_set digits (sp_input w)\<rparr>
             in (spinner_triggerChangedEvent (set_option_value (to_number digits) w), Inr ())))"

definition clearTimeout :: "nat option \<Rightarrow> spin_timer list \<Rightarrow> spin_timer list" where
  "clearTimeout h ts = (case h of None \<Rightarrow> ts | Some i \<Rightarrow> filter (\<lambda>t. t_handle t \<noteq> i) ts)"

definition spinner_stopSpin :: "spinner \<Rightarrow> spinner" where
  "spinner_stopSpin w =
     spinner_triggerChangedEvent (w\<lparr>sp_timers := clearTimeout (sp_timeout w) (sp_timers w), sp_count := 1\<rparr>)"

definition spinner_step :: "bool \<Rightarrow> spinner \<Rightarrow> spinner" where
  "spinner_step dir w =
     (let curValue = so_value (sp_options w);
          limValue = (if dir then so_max (sp_options w) else so_min (sp_options w))
      in if (if dir then xless curValue limValue else xless limValue curValue) then
           (let newVal = xadd curValue (if dir then so_step (sp_options w) else xneg (so_step (sp_options w)))
            in if (if dir then xless limValue newVal else xless newVal limValue)
               then fst (spinner_value w (Number limValue))
               else fst (spinner_value w (Number newVal)))
         else w)"

definition spin_divisor :: "nat \<Rightarrow> rat" where
  "spin_divisor count = (if count = 1 then 1 else if count < 3 then 3 / 2 else if count < 8 then 5 / 2 else 4)"

definition spinner_startSpin :: "bool \<Rightarrow> spinner \<Rightarrow> spinner" where
  "spinner_startSpin type w =
     (if so_disabled (sp_options w) then w
      else
        (let divisor = spin_divisor (sp_count w);
             w = (if sp_count w = 1 then spinner_step type w else w);
             h = sp_next w
         in w\<lparr>sp_timeout := Some h, sp_next := Suc h, sp_count := Suc (sp_count w),
              sp_timers := sp_timers w @ [\<lparr>t_handle = h, t_up = type, t_delay = of_nat (sp_speed w) / divisor\<rparr>]\<rparr>))"

definition spinner_iterator :: "bool \<Rightarrow> spinner \<Rightarrow> spinner" where
  "spinner_iterator type w = spinner_startSpin type (spinner_step type w)"

definition spinner_disable :: "spinner \<Rightarrow> spinner" where
  "spinner_disable w =
     w\<lparr>sp_options := (sp_options w)\<lparr>so_disabled := True\<rparr>, sp_input := attr_set ''disabled'' [] (sp_input w),
       sp_buttons := addClass ''disabled'' (sp_buttons w)\<rparr>"

definition spinner_enable :: "spinner \<Rightarrow> spinner" where
  "spinner_enable w =
     w\<lparr>sp_options := (sp_options w)\<lparr>so_disabled := False\<rparr>, sp_input := removeAttr ''disabled'' (sp_input w),
       sp_buttons := removeClass ''disabled'' (sp_buttons w)\<rparr>"

subsection \<open>The constructor, the plugin and the events\<close>

definition new_spinner :: "spinner_doc \<Rightarrow> spin_overrides option \<Rightarrow> spinner" where
  "new_spinner d ov =
     (let opt = (case ov of None \<Rightarrow> spinner_defaults | Some v \<Rightarrow> spinner_extend spinner_defaults v);
          w = \<lparr>sp_options = opt, sp_input = sd_input d, sp_buttons = sd_buttons d, sp_count = 1, sp_enabled = True,
               sp_speed = (if so_speed opt = ''medium'' then 300 else if so_speed opt = ''fast'' then 100 else 500),
               sp_timeout = None, sp_lastValue = None, sp_timers = [], sp_next = 0, sp_events = []\<rparr>;
          w = spinner_render w
      in if so_disabled opt then spinner_disable w else w)"

datatype spin_return = RSelf | RNumber xnum

definition spinner_call :: "spinner \<Rightarrow> string \<Rightarrow> jval \<Rightarrow> spinner \<times> (js_error + spin_return option)" where
  "spinner_call w m v =
     (if m = ''render'' then (spinner_render w, Inr None)
      else if m = ''change'' then map_prod id (map_sum id (\<lambda>_. None)) (spinner_change w)
      else if m = ''stopSpin'' then (spinner_stopSpin w, Inr None)
      else if m = ''triggerChangedEvent'' then (spinner_triggerChangedEvent w, Inr None)
      else if m = ''startSpin'' then (spinner_startSpin (js_truthy v) w, Inr None)
      else if m = ''iterator'' then (spinner_iterator (js_truthy v) w, Inr None)
      else if m = ''step'' then (spinner_step (js_truthy v) w, Inr None)
      else if m = ''value'' then
        (let (w', r) = spinner_value w v in (w', Inr (Some (case r of None \<Rightarrow> RSelf | Some x \<Rightarrow> RNumber x))))
      else if m = ''disable'' then (spinner_disable w, Inr None)
      else if m = ''enable'' then (spinner_enable w, Inr None)
      else (w, Inl (TypeError m)))"

definition spinner_plugin ::
  "spin_overrides plugin_arg \<Rightarrow> jval \<Rightarrow> (spinner_doc, spinner) host list \<Rightarrow>
   (spinner_doc, spinner) host list \<times> (js_error + spin_return option)" where
  "spinner_plugin opt v hs = plugin new_spinner spinner_call opt v hs"

text \<open>
  What the browser delivers: the mouse on a button (\<open>True\<close> is the upper one), a key in the input with the text it
  leaves there, and the expiry of a timer.
\<close>

datatype spin_input = MouseDown bool | MouseUp | MouseOut | Click bool | KeyUp string | Expire nat

definition spinner_handle :: "spinner \<Rightarrow> spin_input \<Rightarrow> spinner" where
  "spinner_handle w ev =
     (case ev of
        MouseDown up \<Rightarrow> if so_hold (sp_options w) then spinner_startSpin up w else w
      | MouseUp \<Rightarrow> if so_hold (sp_options w) then spinner_stopSpin w else w
      | MouseOut \<Rightarrow> if so_hold (sp_options w) then spinner_stopSpin w else w
      | Click up \<Rightarrow> if so_hold (sp_options w) then w else spinner_step up w
      | KeyUp s \<Rightarrow> fst (spinner_change (w\<lparr>sp_input := val_set s (sp_input w)\<rparr>))
      | Expire h \<Rightarrow>
          (case find (\<lambda>t. t_handle t = h) (sp_timers w) of
             None \<Rightarrow> w
           | Some t \<Rightarrow>
               spinner_iterator (t_up t) (w\<lparr>sp_timers := filter (\<lambda>t. t_handle t \<noteq> h) (sp_timers w)\<rparr>)))"

definition spinner_data_api :: "spin_overrides \<Rightarrow> (spinner_doc, spinner) host \<Rightarrow> (spinner_doc, spinner) host" where
  "spinner_data_api ov h = data_api new_spinner ov h"

subsection \<open>The invariant\<close>

definition shown_number :: "spinner \<Rightarrow> xnum option" where
  "shown_number w = map_option to_number (val_get (sp_input w))"

definition spinner_sound :: "spinner \<Rightarrow> bool" where
  "spinner_sound w \<longleftrightarrow>
     shown_number w = Some (so_value (sp_options w)) \<and> xcanonical (so_value (sp_options w)) \<and>
     xcanonical (so_min (sp_options w)) \<and> xcanonical (so_max (sp_options w)) \<and> xcanonical (so_step (sp_options w))"

definition good_doc :: "spinner_doc \<Rightarrow> bool" where
  "good_doc d \<longleftrightarrow> sd_input d \<noteq> []"

definition good_overrides :: "spin_overrides option \<Rightarrow> bool" where
  "good_overrides ov =
     (case ov of
        None \<Rightarrow> True
      | Some v \<Rightarrow> list_all (\<lambda>f. case f v of None \<Rightarrow> True | Some x \<Rightarrow> xcanonical x) [ov_value, ov_min, ov_max, ov_step])"

lemma shown_nonempty: "shown_number w = Some x \<Longrightarrow> sp_input w \<noteq> []"
  by (auto simp: shown_number_def val_get_def)

lemma xcanonical_js_parse_float: "xcanonical (js_parse_float v)"
  by (simp add: js_parse_float_def xcanonical_parse_float)

lemma value_sound [inv_intros]: "spinner_sound w \<Longrightarrow> spinner_sound (fst (spinner_value w v))"
  using shown_nonempty [of w] xcanonical_js_parse_float [of v]
  by (auto simp: spinner_value_def spinner_sound_def shown_number_def Let_def to_number_xnum_str)

lemma trigger_sound [inv_intros]: "spinner_sound w \<Longrightarrow> spinner_sound (spinner_triggerChangedEvent w)"
  by (simp add: spinner_triggerChangedEvent_def spinner_sound_def shown_number_def Let_def split: option.splits)

lemma render_sound [inv_intros]: "spinner_sound w \<Longrightarrow> spinner_sound (spinner_render w)"
  using shown_nonempty [of w]
  by (auto simp: spinner_render_def spinner_sound_def shown_number_def to_number_xnum_str)

lemma set_number_sound:
  "spinner_sound w \<Longrightarrow> val_get (sp_input w) = Some s \<Longrightarrow>
   spinner_sound (spinner_triggerChangedEvent (set_option_value (to_number s) w))"
  by (rule trigger_sound) (simp add: spinner_sound_def shown_number_def set_option_value_def xcanonical_to_number)

text \<open>A key may leave any text: \<open>change\<close> restores the invariant from the rest of it.\<close>

definition loosely_sound :: "spinner \<Rightarrow> bool" where
  "loosely_sound w \<longleftrightarrow>
     sp_input w \<noteq> [] \<and>
     xcanonical (so_min (sp_options w)) \<and> xcanonical (so_max (sp_options w)) \<and> xcanonical (so_step (sp_options w))"

lemma announce_sound:
  assumes "loosely_sound w" and "val_get (sp_input w) = Some s"
  shows "spinner_sound (spinner_triggerChangedEvent (set_option_value (to_number s) w))"
  by (rule trigger_sound)
    (use assms in \<open>simp add: spinner_sound_def shown_number_def set_option_value_def loosely_sound_def
        xcanonical_to_number\<close>)

lemma change_sound: "loosely_sound w \<Longrightarrow> spinner_sound (fst (spinner_change w))"
proof -
  assume w: "loosely_sound w"
  then obtain s where s: "val_get (sp_input w) = Some s" by (cases "sp_input w") (auto simp: loosely_sound_def val_get_def)
  let ?w = "w\<lparr>sp_input := val_set (filter is_digit s) (sp_input w)\<rparr>"
  have "loosely_sound ?w" "val_get (sp_input ?w) = Some (filter is_digit s)"
    using w by (simp_all add: loosely_sound_def)
  with w s show ?thesis by (simp add: spinner_change_def announce_sound Let_def del: js_truthy.simps)
qed

lemma sound_loosely: "spinner_sound w \<Longrightarrow> loosely_sound w"
  using shown_nonempty [of w] by (auto simp: spinner_sound_def loosely_sound_def)

lemma timers_sound [simp]:
  "spinner_sound (w\<lparr>sp_timers := ts\<rparr>) = spinner_sound w" "spinner_sound (w\<lparr>sp_count := n\<rparr>) = spinner_sound w"
  "spinner_sound (w\<lparr>sp_timeout := h\<rparr>) = spinner_sound w" "spinner_sound (w\<lparr>sp_next := n\<rparr>) = spinner_sound w"
  by (simp_all add: spinner_sound_def shown_number_def)

lemma stop_sound [inv_intros]: "spinner_sound w \<Longrightarrow> spinner_sound (spinner_stopSpin w)"
  unfolding spinner_stopSpin_def by (rule trigger_sound) simp

lemma step_sound [inv_intros]: "spinner_sound w \<Longrightarrow> spinner_sound (spinner_step dir w)"
  by (simp add: spinner_step_def Let_def value_sound)

lemma start_sound [inv_intros]: "spinner_sound w \<Longrightarrow> spinner_sound (spinner_startSpin dir w)"
  by (simp add: spinner_startSpin_def Let_def step_sound)

lemma iterator_sound [inv_intros]: "spinner_sound w \<Longrightarrow> spinner_sound (spinner_iterator dir w)"
  by (simp add: spinner_iterator_def step_sound start_sound)

lemma switch_sound [inv_intros]:
  "spinner_sound w \<Longrightarrow> spinner_sound (spinner_disable w)" "spinner_sound w \<Longrightarrow> spinner_sound (spinner_enable w)"
  by (simp_all add: spinner_disable_def spinner_enable_def spinner_sound_def shown_number_def)

lemma new_sound: "good_doc d \<Longrightarrow> good_overrides ov \<Longrightarrow> spinner_sound (new_spinner d ov)"
proof -
  assume d: "good_doc d" and ov: "good_overrides ov"
  let ?opt = "case ov of None \<Rightarrow> spinner_defaults | Some v \<Rightarrow> spinner_extend spinner_defaults v"
  have opt: "xcanonical (so_value ?opt)" "xcanonical (so_min ?opt)" "xcanonical (so_max ?opt)" "xcanonical (so_step ?opt)"
    using ov by (auto simp: good_overrides_def spinner_extend_def given_def spinner_defaults_def split: option.splits)
  have "spinner_sound (spinner_render w)" if "sp_input w \<noteq> []" "sp_options w = ?opt" for w
    using that opt by (simp add: spinner_render_def spinner_sound_def shown_number_def to_number_xnum_str)
  with d show ?thesis by (simp add: new_spinner_def Let_def good_doc_def switch_sound(1))
qed

lemma handle_sound: "spinner_sound w \<Longrightarrow> spinner_sound (spinner_handle w ev)"
proof (cases ev)
  case (KeyUp s)
  assume "spinner_sound w"
  then have "loosely_sound (w\<lparr>sp_input := val_set s (sp_input w)\<rparr>)"
    using sound_loosely [of w] by (simp add: loosely_sound_def)
  with KeyUp show ?thesis by (simp add: spinner_handle_def change_sound)
qed (auto simp: spinner_handle_def intro!: inv_intros split: option.splits)

interpretation spinner: widget new_spinner spinner_call good_doc good_overrides spinner_sound
proof
  show "good_overrides None" by (simp add: good_overrides_def)
  show "spinner_sound (fst (spinner_call w m v))" if "spinner_sound w" for w m v
  proof (cases "m = ''change''")
    case True
    with that show ?thesis by (simp add: spinner_call_def change_sound sound_loosely)
  next
    case False
    with that show ?thesis by (simp add: spinner_call_def split_beta inv_intros)
  qed
qed (rule new_sound)

interpretation spinner_events: step_system spinner_handle spinner_sound
  by unfold_locales (rule handle_sound)

interpretation spinner_switch: switchable spinner_enable spinner_disable
  "\<lambda>w. \<not> so_disabled (sp_options w) \<and> list_all (\<lambda>e. \<not> elem_disabled e) (sp_input w)"
  "\<lambda>w. so_disabled (sp_options w) \<and> list_all elem_disabled (sp_input w)"
  "\<lambda>w. (so_value (sp_options w), sp_timers w, sp_count w, sp_events w, val_get (sp_input w))"
  by unfold_locales (simp_all add: spinner_enable_def spinner_disable_def switch_lemmas)

subsection \<open>Stepping\<close>

fun num_val :: "xnum \<Rightarrow> rat" where
  "num_val (XDec d) = dec_val d"
| "num_val _ = 0"

abbreviation spin_val :: "spinner \<Rightarrow> rat" where
  "spin_val w \<equiv> num_val (so_value (sp_options w))"

text \<open>The options are finite numbers, the step is not negative and the value is within the limits.\<close>

definition in_limits :: "spin_options \<Rightarrow> bool" where
  "in_limits opt \<longleftrightarrow>
     xfinite (so_value opt) \<and> xfinite (so_min opt) \<and> xfinite (so_max opt) \<and> xfinite (so_step opt) \<and>
     0 \<le> num_val (so_step opt) \<and> num_val (so_min opt) \<le> num_val (so_value opt) \<and>
     num_val (so_value opt) \<le> num_val (so_max opt)"

definition toward :: "bool \<Rightarrow> spin_options \<Rightarrow> rat \<Rightarrow> rat" where
  "toward dir opt x =
     (if dir then min (num_val (so_max opt)) (num_val (so_value opt) + x)
      else max (num_val (so_min opt)) (num_val (so_value opt) - x))"

lemma xless_val: "xfinite a \<Longrightarrow> xfinite b \<Longrightarrow> xless a b \<longleftrightarrow> num_val a < num_val b"
  by (cases a; cases b) (simp_all add: dec_less_val)

lemma xadd_val: "xfinite a \<Longrightarrow> xfinite b \<Longrightarrow> xfinite (xadd a b) \<and> num_val (xadd a b) = num_val a + num_val b"
  by (cases a; cases b) (simp_all add: dec_val_add)

lemma xneg_val: "xfinite a \<Longrightarrow> xfinite (xneg a) \<and> num_val (xneg a) = - num_val a"
  by (cases a) simp_all

text \<open>What \<open>value\<close> does with a number that the model computes.\<close>

lemma value_number:
  "xcanonical x \<Longrightarrow> xfinite x \<Longrightarrow>
   fst (spinner_value w (Number x)) =
     w\<lparr>sp_options := (sp_options w)\<lparr>so_value := x\<rparr>, sp_input := val_set (xnum_str x) (sp_input w)\<rparr>"
  by (cases x) (simp_all add: spinner_value_def js_parse_float_def parse_float_dec_str)

definition moved :: "bool \<Rightarrow> spin_options \<Rightarrow> xnum \<Rightarrow> bool" where
  "moved dir opt x \<longleftrightarrow> xfinite x \<and> num_val x = toward dir opt (num_val (so_step opt))"

lemma step_moves:
  assumes "spinner_sound w" and "in_limits (sp_options w)"
  shows "\<exists>x txt. moved dir (sp_options w) x \<and>
    spinner_step dir w = w\<lparr>sp_options := (sp_options w)\<lparr>so_value := x\<rparr>, sp_input := txt\<rparr>"
proof -
  let ?o = "sp_options w"
  let ?lim = "if dir then so_max ?o else so_min ?o"
  let ?new = "xadd (so_value ?o) (if dir then so_step ?o else xneg (so_step ?o))"
  have c: "xcanonical (so_value ?o)" "xcanonical ?lim" "xcanonical ?new"
    using assms(1) by (auto simp: spinner_sound_def intro: xcanonical_arith)
  have f: "xfinite (so_value ?o)" "xfinite ?lim" "xfinite ?new"
    and v: "num_val ?new = (if dir then num_val (so_value ?o) + num_val (so_step ?o) else num_val (so_value ?o) - num_val (so_step ?o))"
    using assms(2) xadd_val xneg_val by (auto simp: in_limits_def)
  show ?thesis
  proof (cases "if dir then xless (so_value ?o) ?lim else xless ?lim (so_value ?o)")
    case False
    then have "spinner_step dir w = w\<lparr>sp_options := ?o\<lparr>so_value := so_value ?o\<rparr>, sp_input := sp_input w\<rparr>"
      by (simp add: spinner_step_def Let_def)
    moreover have "moved dir ?o (so_value ?o)"
      using False f assms(2) by (auto simp: moved_def toward_def xless_val in_limits_def min_def max_def split: if_splits)
    ultimately show ?thesis by blast
  next
    case True
    define x where "x = (if (if dir then xless ?lim ?new else xless ?new ?lim) then ?lim else ?new)"
    have "spinner_step dir w = fst (spinner_value w (Number x))"
      using True unfolding x_def by (cases dir) (simp_all add: spinner_step_def Let_def)
    moreover have "xcanonical x" "xfinite x" using c f by (auto simp: x_def)
    moreover have "moved dir ?o x"
      using f v assms(2) by (auto simp: moved_def toward_def x_def xless_val in_limits_def min_def max_def)
    ultimately show ?thesis using value_number by metis
  qed
qed

text \<open>The button pressed and \<open>n\<close> timers expired.\<close>

fun held :: "bool \<Rightarrow> nat \<Rightarrow> spinner \<Rightarrow> spinner" where
  "held dir 0 w = spinner_handle w (MouseDown dir)"
| "held dir (Suc n) w =
     (let w' = held dir n w in spinner_handle w' (Expire (given 0 (sp_timeout w'))))"

definition at_rest :: "spinner \<Rightarrow> bool" where
  "at_rest w \<longleftrightarrow>
     spinner_sound w \<and> in_limits (sp_options w) \<and> so_hold (sp_options w) \<and> \<not> so_disabled (sp_options w) \<and>
     sp_count w = 1 \<and> sp_timers w = []"

text \<open>The state while the button is down, relative to the options \<open>opt\<close> at the press.\<close>

definition spinning :: "bool \<Rightarrow> spin_options \<Rightarrow> nat \<Rightarrow> spinner \<Rightarrow> bool" where
  "spinning dir opt n w \<longleftrightarrow>
     spinner_sound w \<and> in_limits (sp_options w) \<and> \<not> so_disabled (sp_options w) \<and>
     (\<exists>x. sp_options w = opt\<lparr>so_value := x\<rparr> \<and> num_val x = toward dir opt (of_nat (Suc n) * num_val (so_step opt))) \<and>
     sp_count w = n + 2 \<and>
     (\<exists>t. sp_timers w = [t] \<and> t_up t = dir \<and> sp_timeout w = Some (t_handle t))"

lemma moved_in_limits: "in_limits opt \<Longrightarrow> moved dir opt x \<Longrightarrow> in_limits (opt\<lparr>so_value := x\<rparr>)"
  by (auto simp: in_limits_def moved_def toward_def)

lemma toward_step:
  "in_limits opt \<Longrightarrow> num_val x = toward dir opt (of_nat k * num_val (so_step opt)) \<Longrightarrow>
   moved dir (opt\<lparr>so_value := x\<rparr>) y \<Longrightarrow> num_val y = toward dir opt (of_nat (Suc k) * num_val (so_step opt))"
  by (auto simp: in_limits_def moved_def toward_def algebra_simps min_def max_def split: if_splits)

lemma press_spins: "at_rest w \<Longrightarrow> spinning dir (sp_options w) 0 (held dir 0 w)"
proof -
  assume w: "at_rest w"
  then obtain x s where x: "moved dir (sp_options w) x"
      "spinner_step dir w = w\<lparr>sp_options := (sp_options w)\<lparr>so_value := x\<rparr>, sp_input := s\<rparr>"
    using step_moves [of w dir] by (auto simp: at_rest_def)
  have "spinner_sound (spinner_startSpin dir w)" using w start_sound by (simp add: at_rest_def)
  moreover have "spinner_startSpin dir w = (let w = spinner_step dir w; h = sp_next w
      in w\<lparr>sp_timeout := Some h, sp_next := Suc h, sp_count := Suc (sp_count w),
           sp_timers := [\<lparr>t_handle = h, t_up = dir, t_delay = of_nat (sp_speed w) / spin_divisor 1\<rparr>]\<rparr>)"
    using w x(2) by (simp add: spinner_startSpin_def at_rest_def Let_def)
  ultimately show ?thesis
    using w x moved_in_limits [OF _ x(1)]
    by (auto simp: spinning_def spinner_handle_def at_rest_def moved_def Let_def)
qed

lemma expiry_spins:
  assumes "in_limits opt" and "spinning dir opt n w"
  shows "spinning dir opt (Suc n) (spinner_handle w (Expire (given 0 (sp_timeout w))))"
proof -
  from assms(2) obtain x t where x: "sp_options w = opt\<lparr>so_value := x\<rparr>"
      "num_val x = toward dir opt (of_nat (Suc n) * num_val (so_step opt))"
    and t: "sp_timers w = [t]" "t_up t = dir" "sp_timeout w = Some (t_handle t)" "sp_count w = n + 2"
    by (auto simp: spinning_def)
  let ?w = "w\<lparr>sp_timers := []\<rparr>"
  have w: "spinner_sound ?w" "in_limits (sp_options ?w)" "\<not> so_disabled (sp_options ?w)"
    using assms(2) by (simp_all add: spinning_def)
  obtain y s where y: "moved dir (sp_options ?w) y"
      "spinner_step dir ?w = ?w\<lparr>sp_options := (sp_options ?w)\<lparr>so_value := y\<rparr>, sp_input := s\<rparr>"
    using step_moves [OF w(1,2)] by blast
  have yv: "num_val y = toward dir opt (of_nat (Suc (Suc n)) * num_val (so_step opt))"
    using toward_step [OF assms(1) x(2)] y(1) x(1) by simp
  have "spinner_handle w (Expire (given 0 (sp_timeout w))) = spinner_iterator dir ?w"
    using t by (simp add: spinner_handle_def given_def)
  moreover have "spinner_sound (spinner_iterator dir ?w)" using w(1) by (rule iterator_sound)
  ultimately show ?thesis
    using w y(2) yv x(1) t(4) moved_in_limits [OF w(2) y(1)]
    by (simp add: spinning_def spinner_iterator_def spinner_startSpin_def Let_def) (rule exI [of _ y], simp)
qed

lemma held_spins: "at_rest w \<Longrightarrow> spinning dir (sp_options w) n (held dir n w)"
proof (induction n)
  case 0
  then show ?case by (rule press_spins)
next
  case (Suc n)
  then show ?case by (simp add: Let_def expiry_spins at_rest_def del: of_nat_Suc)
qed

lemma stop_effect:
  "sp_options (spinner_stopSpin w) = sp_options w \<and>
   sp_timers (spinner_stopSpin w) = clearTimeout (sp_timeout w) (sp_timers w) \<and> sp_count (spinner_stopSpin w) = 1"
  by (simp add: spinner_stopSpin_def spinner_triggerChangedEvent_def Let_def split: option.splits)

subsection \<open>Properties\<close>

text \<open>C26: whatever the user and the timers do, the text in the spinner's input denotes the spinner's value: the
  two are updated together on every path, also when a key leaves a text that is no number.\<close>

theorem spinner_shows_its_value:
  assumes "good_doc d" and "good_overrides ov"
  shows "shown_number (foldl spinner_handle (new_spinner d ov) evs) =
    Some (so_value (sp_options (foldl spinner_handle (new_spinner d ov) evs)))"
  using spinner_events.run_ok [OF new_sound [OF assms]] by (simp add: spinner_sound_def)

definition ex_spinner_doc :: spinner_doc where
  "ex_spinner_doc = \<lparr>sd_input = [plain_elem], sd_buttons = [plain_elem, plain_elem]\<rparr>"

theorem spinner_shows_its_value_witness:
  "shown_number (foldl spinner_handle (new_spinner ex_spinner_doc None) [MouseDown True, Expire 0, MouseUp, KeyUp ''1x''])
   = Some (so_value (sp_options (foldl spinner_handle (new_spinner ex_spinner_doc None)
       [MouseDown True, Expire 0, MouseUp, KeyUp ''1x''])))"
  by (rule spinner_shows_its_value) (simp_all add: good_doc_def ex_spinner_doc_def good_overrides_def)

text \<open>C27: holding a button moves the value one step at once and one more step per timer, never past the limit of
  that direction; exactly one timer is pending meanwhile, and releasing the button cancels it, so the value stays.\<close>

theorem spinner_hold:
  assumes "at_rest w"
  shows "spin_val (held dir n w) = toward dir (sp_options w) (of_nat (n + 1) * num_val (so_step (sp_options w))) \<and>
    length (sp_timers (held dir n w)) = 1 \<and>
    sp_timers (spinner_handle (held dir n w) MouseUp) = [] \<and> sp_count (spinner_handle (held dir n w) MouseUp) = 1 \<and>
    spin_val (spinner_handle (held dir n w) MouseUp) = spin_val (held dir n w)"
proof -
  have sp: "spinning dir (sp_options w) n (held dir n w)" using assms by (rule held_spins)
  then have "so_hold (sp_options (held dir n w))" using assms by (auto simp: spinning_def at_rest_def)
  with sp show ?thesis
    using stop_effect [of "held dir n w"] by (auto simp: spinning_def spinner_handle_def clearTimeout_def)
qed

theorem spinner_hold_witness:
  "spin_val (held True 3 (new_spinner ex_spinner_doc None)) = 5"
proof -
  have "at_rest (new_spinner ex_spinner_doc None)"
    using new_sound [of ex_spinner_doc None]
    by (simp add: at_rest_def good_doc_def ex_spinner_doc_def good_overrides_def in_limits_def new_spinner_def
        spinner_defaults_def spinner_render_def)
  from spinner_hold [OF this, of True 3] show ?thesis
    by (simp add: toward_def new_spinner_def spinner_defaults_def spinner_render_def)
qed

text \<open>In click mode (\<open>hold: false\<close>) a disabled spinner still steps: \<open>disable\<close> only marks the buttons with a
  class, and the click handler calls \<open>step\<close>, which does not look at \<open>options.disabled\<close>; \<open>startSpin\<close> does.\<close>

lemma spinner_click_ignores_disabled:
  assumes "spinner_sound w" and "in_limits (sp_options w)" and "\<not> so_hold (sp_options w)"
  shows "spin_val (spinner_handle (spinner_disable w) (Click up)) = toward up (sp_options w) (num_val (so_step (sp_options w))) \<and>
    spinner_startSpin up (spinner_disable w) = spinner_disable w"
proof -
  let ?w = "spinner_disable w"
  have "spinner_sound ?w" "in_limits (sp_options ?w)"
    using assms switch_sound(1) by (simp_all add: spinner_disable_def in_limits_def)
  from step_moves [OF this, of up] show ?thesis
    using assms(3) by (auto simp: spinner_handle_def moved_def toward_def spinner_disable_def spinner_startSpin_def)
qed

definition ex_click_options :: spin_overrides where
  "ex_click_options = \<lparr>ov_value = None, ov_min = None, ov_max = None, ov_step = None, ov_hold = Some False,
     ov_speed = None, ov_disabled = None\<rparr>"

lemma spinner_click_ignores_disabled_witness:
  "spin_val (spinner_handle (spinner_disable (new_spinner ex_spinner_doc (Some ex_click_options))) (Click True)) = 2"
proof -
  let ?w = "new_spinner ex_spinner_doc (Some ex_click_options)"
  have opt: "sp_options ?w = spinner_defaults\<lparr>so_hold := False\<rparr>"
    by (simp add: new_spinner_def ex_click_options_def spinner_extend_def given_def spinner_defaults_def spinner_render_def)
  have "spinner_sound ?w"
    by (rule new_sound) (simp_all add: good_doc_def ex_spinner_doc_def good_overrides_def ex_click_options_def)
  moreover have "in_limits (sp_options ?w)" "\<not> so_hold (sp_options ?w)"
    by (simp_all add: opt spinner_defaults_def in_limits_def)
  ultimately show ?thesis
    using spinner_click_ignores_disabled [of ?w True] by (simp add: opt spinner_defaults_def toward_def)
qed

end
