(* ===== verification/Wizard.thy ===== *)
theory Wizard
  imports Jq_Dom
begin

text \<open>
  The wizard (\<open>fuelux/dist/wizard.js\<close>): a row of numbered steps, a pane per step, and the buttons to walk through
  them. The state holds the step counter, the cached buttons, the \<open>li\<close> elements with their badges, and the elements
  of the page that the panes are looked up in. A handler outside the widget may veto a move: its answer is an argument
  of the operations (\<open>prevented\<close>).
\<close>

subsection \<open>State\<close>

datatype wizard_event =
    StepClickEv int
  | ChangeEv int string
  | ChangedEv
  | FinishedEv

record wizard_doc =
  wd_prev :: jq
  wd_next :: jq
  wd_steps :: "(elem \<times> jq) list"
  wd_page :: "(string \<times> elem) list"

record wizard =
  wz_currentStep :: int
  wz_numSteps :: nat
  wz_nextText :: string
  wz_lastText :: "jval option"
  wz_prevBtn :: jq
  wz_nextBtn :: jq
  wz_steps :: "(elem \<times> jq) list"
  wz_page :: "(string \<times> elem) list"
  wz_events :: "wizard_event list"

definition new_wizard :: "wizard_doc \<Rightarrow> unit option \<Rightarrow> wizard" where
  "new_wizard d options =
     \<lparr>wz_currentStep = 1, wz_numSteps = length (wd_steps d), wz_nextText = js_trim (text_get (wd_next d)),
      wz_lastText = None, wz_prevBtn = wd_prev d, wz_nextBtn = wd_next d, wz_steps = wd_steps d,
      wz_page = wd_page d, wz_events = []\<rparr>"

subsection \<open>Showing the current step\<close>

text \<open>The positional selectors \<open>:lt(i)\<close> and \<open>:eq(i)\<close>: a negative position counts from the end.\<close>

definition position :: "nat \<Rightarrow> int \<Rightarrow> int" where
  "position len i = (if i < 0 then i + int len else i)"

definition at_eq :: "nat \<Rightarrow> int \<Rightarrow> nat \<Rightarrow> bool" where
  "at_eq len i k \<longleftrightarrow> int k = position len i"

definition at_lt :: "nat \<Rightarrow> int \<Rightarrow> nat \<Rightarrow> bool" where
  "at_lt len i k \<longleftrightarrow> int k < position len i"

definition update_where :: "(nat \<Rightarrow> bool) \<Rightarrow> ('a \<Rightarrow> 'a) \<Rightarrow> 'a list \<Rightarrow> 'a list" where
  "update_where P f xs = map (\<lambda>(k, x). if P k then f x else x) (zip [0..<length xs] xs)"

definition reset_step :: "elem \<times> jq \<Rightarrow> elem \<times> jq" where
  "reset_step s =
     (elem_remove_class ''complete'' (elem_remove_class ''active'' (fst s)),
      removeClass ''badge-success'' (removeClass ''badge-info'' (snd s)))"

definition complete_step :: "elem \<times> jq \<Rightarrow> elem \<times> jq" where
  "complete_step s = (elem_add_class ''complete'' (fst s), addClass ''badge-success'' (snd s))"

definition activate_step :: "elem \<times> jq \<Rightarrow> elem \<times> jq" where
  "activate_step s = (elem_add_class ''active'' (fst s), addClass ''badge-info'' (snd s))"

definition show_steps :: "int \<Rightarrow> (elem \<times> jq) list \<Rightarrow> (elem \<times> jq) list" where
  "show_steps cur xs =
     update_where (at_eq (length xs) (cur - 1)) activate_step
       (update_where (at_lt (length xs) (cur - 1)) complete_step (map reset_step xs))"

definition set_next_text :: "wizard \<Rightarrow> wizard" where
  "set_next_text w =
     (case data_get (wz_nextBtn w) of
        None \<Rightarrow> w
      | Some data \<Rightarrow>
          (case map_of data ''last'' of
             None \<Rightarrow> w
           | Some l \<Rightarrow>
               if js_truthy l then
                 w\<lparr>wz_lastText := Some l,
                   wz_nextBtn := text_set
                     (if wz_currentStep w \<noteq> int (wz_numSteps w) then wz_nextText w else js_string l) (wz_nextBtn w)\<rparr>
               else w))"

definition show_pane :: "string option \<Rightarrow> (string \<times> elem) list \<Rightarrow> (string \<times> elem) list" where
  "show_pane target page =
     map (\<lambda>(k, e). if Some k = target then (k, elem_add_class ''active'' e) else (k, e))
       (map (\<lambda>(k, e). if elem_has_class ''step-pane'' e then (k, elem_remove_class ''active'' e) else (k, e)) page)"

text \<open>\<open>$currentStep.data().target\<close>; \<open>None\<close> when there is no such step, where \<open>data()\<close> is \<open>null\<close>.\<close>

definition current_target :: "int \<Rightarrow> (elem \<times> jq) list \<Rightarrow> string option option" where
  "current_target cur xs =
     (let i = position (length xs) (cur - 1)
      in if 0 \<le> i \<and> i < int (length xs) then
           Some (case map_of (el_data (fst (xs ! nat i))) ''target'' of Some (Str s) \<Rightarrow> Some s | _ \<Rightarrow> None)
         else None)"

definition wizard_setState :: "wizard \<Rightarrow> wizard \<times> (js_error + unit)" where
  "wizard_setState w =
     (let canMovePrev = 1 < wz_currentStep w;
          firstStep = (wz_currentStep w = 1);
          w = w\<lparr>wz_prevBtn := attr_flag ''disabled'' (firstStep \<or> \<not> canMovePrev) (wz_prevBtn w)\<rparr>;
          w = set_next_text w;
          w = w\<lparr>wz_steps := show_steps (wz_currentStep w) (wz_steps w)\<rparr>
      in (case current_target (wz_currentStep w) (wz_steps w) of
            None \<Rightarrow> (w, Inl (TypeError ''target of null''))
          | Some target \<Rightarrow>
              (w\<lparr>wz_page := show_pane target (wz_page w), wz_events := wz_events w @ [ChangedEv]\<rparr>, Inr ())))"

subsection \<open>Moving\<close>

text \<open>\<open>index\<close> is the position of the clicked \<open>li\<close> among all elements \<open>.steps li\<close> of the page, -1 if it is none.\<close>

definition wizard_stepclicked :: "int \<Rightarrow> bool \<Rightarrow> wizard \<Rightarrow> wizard \<times> (js_error + unit)" where
  "wizard_stepclicked index prevented w =
     (let w = w\<lparr>wz_events := wz_events w @ [StepClickEv (index + 1)]\<rparr>
      in if prevented then (w, Inr ())
         else wizard_setState (w\<lparr>wz_currentStep := index + 1\<rparr>))"

definition wizard_previous :: "bool \<Rightarrow> wizard \<Rightarrow> wizard \<times> (js_error + unit)" where
  "wizard_previous prevented w =
     (if 1 < wz_currentStep w then
        (let w = w\<lparr>wz_events := wz_events w @ [ChangeEv (wz_currentStep w) ''previous'']\<rparr>
         in if prevented then (w, Inr ())
            else wizard_setState (w\<lparr>wz_currentStep := wz_currentStep w - 1\<rparr>))
      else (w, Inr ()))"

definition wizard_next :: "bool \<Rightarrow> wizard \<Rightarrow> wizard \<times> (js_error + unit)" where
  "wizard_next prevented w =
     (if wz_currentStep w + 1 \<le> int (wz_numSteps w) then
        (let w = w\<lparr>wz_events := wz_events w @ [ChangeEv (wz_currentStep w) ''next'']\<rparr>
         in if prevented then (w, Inr ())
            else wizard_setState (w\<lparr>wz_currentStep := wz_currentStep w + 1\<rparr>))
      else if wz_currentStep w = int (wz_numSteps w) then (w\<lparr>wz_events := wz_events w @ [FinishedEv]\<rparr>, Inr ())
      else (w, Inr ()))"

definition wizard_selectedItem :: "wizard \<Rightarrow> int" where
  "wizard_selectedItem w = wz_currentStep w"

text \<open>
  \<open>$el.wizard(m, v)\<close>; the second component of the argument is what an outside handler answers. A value passed to
  \<open>stepclicked\<close> stands for an event without \<open>currentTarget\<close>.
\<close>

definition wizard_call :: "wizard \<Rightarrow> string \<Rightarrow> jval \<times> bool \<Rightarrow> wizard \<times> (js_error + int option)" where
  "wizard_call w m v =
     (let none = map_prod id (map_sum id (\<lambda>_. None))
      in if m = ''setState'' then none (wizard_setState w)
         else if m = ''stepclicked'' then
           (if fst v = Undefined \<or> fst v = Null then (w, Inl (TypeError ''currentTarget''))
            else none (wizard_stepclicked (- 1) (snd v) w))
         else if m = ''previous'' then none (wizard_previous (snd v) w)
         else if m = ''next'' then none (wizard_next (snd v) w)
         else if m = ''selectedItem'' then (w, Inr (Some (wizard_selectedItem w)))
         else (w, Inl (TypeError m)))"

definition wizard_plugin ::
  "unit plugin_arg \<Rightarrow> jval \<times> bool \<Rightarrow> (wizard_doc, wizard) host list \<Rightarrow>
   (wizard_doc, wizard) host list \<times> (js_error + int option)" where
  "wizard_plugin opt v hs = plugin new_wizard wizard_call opt v hs"

definition wizard_data_api :: "(wizard_doc, wizard) host \<Rightarrow> (wizard_doc, wizard) host" where
  "wizard_data_api h = data_api new_wizard () h"

text \<open>
  What the user does. A click reaches \<open>stepclicked\<close> only on an \<open>li\<close> with class \<open>complete\<close>; \<open>before\<close> is the number
  of elements \<open>.steps li\<close> of the page in front of this wizard's.
\<close>

datatype wizard_input = PrevClick bool | NextClick bool | StepClick nat bool

definition wizard_handle :: "nat \<Rightarrow> wizard \<Rightarrow> wizard_input \<Rightarrow> wizard \<times> (js_error + unit)" where
  "wizard_handle before w ev =
     (case ev of
        PrevClick p \<Rightarrow> wizard_previous p w
      | NextClick p \<Rightarrow> wizard_next p w
      | StepClick k p \<Rightarrow>
          if k < length (wz_steps w) \<and> elem_has_class ''complete'' (fst (wz_steps w ! k))
          then wizard_stepclicked (int (before + k)) p w
          else (w, Inr ()))"

subsection \<open>Lemmas\<close>

lemma length_update_where [simp]: "length (update_where P f xs) = length xs"
  by (simp add: update_where_def)

lemma nth_update_where: "k < length xs \<Longrightarrow> update_where P f xs ! k = (if P k then f (xs ! k) else xs ! k)"
  by (simp add: update_where_def)

lemma length_show_steps [simp]: "length (show_steps cur xs) = length xs"
  by (simp add: show_steps_def)

lemma nth_show_steps:
  assumes "k < length xs" and "1 \<le> cur"
  shows "show_steps cur xs ! k =
    (let x = reset_step (xs ! k)
     in if int k = cur - 1 then activate_step x else if int k < cur - 1 then complete_step x else x)"
  using assms by (simp add: show_steps_def nth_update_where at_eq_def at_lt_def position_def Let_def)

lemma step_data [simp]:
  "el_data (fst (reset_step s)) = el_data (fst s)" "el_data (fst (complete_step s)) = el_data (fst s)"
  "el_data (fst (activate_step s)) = el_data (fst s)"
  by (simp_all add: reset_step_def complete_step_def activate_step_def)

lemma current_target_show: "1 \<le> cur \<Longrightarrow> current_target cur (show_steps cur xs) = current_target cur xs"
  by (auto simp: current_target_def Let_def position_def nth_show_steps)

lemma set_next_text_fields [simp]:
  "wz_currentStep (set_next_text w) = wz_currentStep w" "wz_numSteps (set_next_text w) = wz_numSteps w"
  "wz_steps (set_next_text w) = wz_steps w" "wz_page (set_next_text w) = wz_page w"
  "wz_prevBtn (set_next_text w) = wz_prevBtn w" "wz_events (set_next_text w) = wz_events w"
  by (simp_all add: set_next_text_def split: option.splits)

text \<open>What the page shows of the current step.\<close>

definition step_classes :: "bool \<Rightarrow> bool \<Rightarrow> elem \<times> jq \<Rightarrow> bool" where
  "step_classes act past s \<longleftrightarrow>
     elem_has_class ''active'' (fst s) = act \<and> elem_has_class ''complete'' (fst s) = past \<and>
     list_all (\<lambda>e. elem_has_class ''badge-info'' e = act \<and> elem_has_class ''badge-success'' e = past) (snd s)"

definition shows_steps :: "int \<Rightarrow> (elem \<times> jq) list \<Rightarrow> bool" where
  "shows_steps cur xs \<longleftrightarrow> (\<forall>k < length xs. step_classes (int k = cur - 1) (int k < cur - 1) (xs ! k))"

definition shows_pane :: "string option \<Rightarrow> (string \<times> elem) list \<Rightarrow> bool" where
  "shows_pane target page \<longleftrightarrow>
     list_all (\<lambda>(k, e). elem_has_class ''step-pane'' e \<longrightarrow> elem_has_class ''active'' e = (Some k = target)) page"

definition shows_step :: "wizard \<Rightarrow> bool" where
  "shows_step w \<longleftrightarrow>
     shows_steps (wz_currentStep w) (wz_steps w) \<and>
     (\<exists>target. current_target (wz_currentStep w) (wz_steps w) = Some target \<and> shows_pane target (wz_page w)) \<and>
     list_all (\<lambda>e. elem_disabled e = (wz_currentStep w = 1)) (wz_prevBtn w)"

lemma shows_show_steps: "1 \<le> cur \<Longrightarrow> shows_steps cur (show_steps cur xs)"
  by (auto simp: shows_steps_def step_classes_def nth_show_steps Let_def reset_step_def activate_step_def
      complete_step_def addClass_def removeClass_def list_all_iff)

lemma shows_show_pane: "shows_pane target (show_pane target page)"
  by (auto simp: shows_pane_def show_pane_def list_all_iff split: if_splits)

lemma disabled_attr_flag: "list_all (\<lambda>e. elem_disabled e = b) (attr_flag ''disabled'' b xs)"
  using disabled_attr_set disabled_removeAttr by (auto simp: attr_flag_def list_all_iff)

definition in_steps :: "wizard \<Rightarrow> bool" where
  "in_steps w \<longleftrightarrow> wz_numSteps w = length (wz_steps w) \<and> 1 \<le> wz_currentStep w \<and> wz_currentStep w \<le> int (wz_numSteps w)"

lemma current_target_in: "in_steps w \<Longrightarrow> current_target (wz_currentStep w) (wz_steps w) \<noteq> None"
  by (simp add: in_steps_def current_target_def Let_def position_def)

lemma setState_shows:
  assumes "in_steps w"
  obtains w' where "wizard_setState w = (w', Inr ())" "wz_currentStep w' = wz_currentStep w" "in_steps w'" "shows_step w'"
    "wz_numSteps w' = wz_numSteps w" "wz_events w' = wz_events w @ [ChangedEv]"
proof -
  from current_target_in [OF assms] obtain t where t: "current_target (wz_currentStep w) (wz_steps w) = Some t" by auto
  have c: "1 \<le> wz_currentStep w" using assms by (simp add: in_steps_def)
  then have flag: "(wz_currentStep w = 1 \<or> \<not> 1 < wz_currentStep w) = (wz_currentStep w = 1)" by auto
  show ?thesis
    by (rule that [of "fst (wizard_setState w)"]) (use assms t c flag in \<open>auto simp: wizard_setState_def Let_def current_target_show in_steps_def
        shows_step_def shows_show_steps shows_show_pane disabled_attr_flag\<close>)
qed

text \<open>The invariant of a wizard alone on its page.\<close>

definition wizard_ok :: "wizard \<Rightarrow> bool" where
  "wizard_ok w \<longleftrightarrow> in_steps w \<and> (ChangedEv \<in> set (wz_events w) \<longrightarrow> shows_step w)"

lemma shows_step_events [simp]: "shows_step (w\<lparr>wz_events := es\<rparr>) = shows_step w"
  by (simp add: shows_step_def)

lemma in_steps_events [simp]: "in_steps (w\<lparr>wz_events := es\<rparr>) = in_steps w"
  by (simp add: in_steps_def)

lemma move_ok:
  assumes "in_steps w" and "1 \<le> k" and "k \<le> int (wz_numSteps w)"
  shows "wizard_ok (fst (wizard_setState (w\<lparr>wz_currentStep := k\<rparr>))) \<and>
    snd (wizard_setState (w\<lparr>wz_currentStep := k\<rparr>)) = Inr ()"
proof -
  have "in_steps (w\<lparr>wz_currentStep := k\<rparr>)" using assms by (simp add: in_steps_def)
  then obtain w' where "wizard_setState (w\<lparr>wz_currentStep := k\<rparr>) = (w', Inr ())" "in_steps w'" "shows_step w'"
    by (rule setState_shows)
  then show ?thesis by (simp add: wizard_ok_def)
qed

lemma handle_ok:
  assumes "wizard_ok w"
  shows "wizard_ok (fst (wizard_handle 0 w ev)) \<and> snd (wizard_handle 0 w ev) = Inr ()"
proof (cases ev)
  case (PrevClick p)
  with assms show ?thesis
    using move_ok [of "w\<lparr>wz_events := wz_events w @ [ChangeEv (wz_currentStep w) ''previous'']\<rparr>" "wz_currentStep w - 1"]
    by (auto simp: wizard_handle_def wizard_previous_def Let_def wizard_ok_def in_steps_def)
next
  case (NextClick p)
  with assms show ?thesis
    using move_ok [of "w\<lparr>wz_events := wz_events w @ [ChangeEv (wz_currentStep w) ''next'']\<rparr>" "wz_currentStep w + 1"]
    by (auto simp: wizard_handle_def wizard_next_def Let_def wizard_ok_def in_steps_def)
next
  case (StepClick k p)
  with assms show ?thesis
    using move_ok [of "w\<lparr>wz_events := wz_events w @ [StepClickEv (int k + 1)]\<rparr>" "int k + 1"]
    by (auto simp: wizard_handle_def wizard_stepclicked_def Let_def wizard_ok_def in_steps_def)
qed

interpretation wizard_run: step_system "\<lambda>w ev. fst (wizard_handle 0 w ev)" wizard_ok
  by unfold_locales (use handle_ok in blast)

text \<open>Through the plugin any method may be called at any time; then the counter stays between 0 and the number of steps.\<close>

definition wizard_sound :: "wizard \<Rightarrow> bool" where
  "wizard_sound w \<longleftrightarrow> wz_numSteps w = length (wz_steps w) \<and> 0 \<le> wz_currentStep w \<and>
     (wz_currentStep w \<le> int (wz_numSteps w) \<or> wz_currentStep w = 1)"

lemma setState_keeps [simp]:
  "wz_numSteps (fst (wizard_setState w)) = wz_numSteps w" "wz_currentStep (fst (wizard_setState w)) = wz_currentStep w"
  "length (wz_steps (fst (wizard_setState w))) = length (wz_steps w)"
  by (simp_all add: wizard_setState_def Let_def split: option.splits)

lemma moves_sound:
  assumes "wizard_sound w"
  shows "wizard_sound (fst (wizard_setState w))" and "wizard_sound (fst (wizard_previous p w))"
    and "wizard_sound (fst (wizard_next p w))" and "wizard_sound (fst (wizard_stepclicked (- 1) p w))"
  by (insert assms, unfold wizard_sound_def wizard_previous_def wizard_next_def wizard_stepclicked_def Let_def)
    (auto split: if_splits)

interpretation wizard: widget new_wizard wizard_call "\<lambda>d. True" "\<lambda>ob. True" wizard_sound
proof
  show "wizard_sound (new_wizard d ob)" for d ob by (simp add: wizard_sound_def new_wizard_def)
  show "wizard_sound (fst (wizard_call w m v))" if "wizard_sound w" for w m v
    using that by (simp add: wizard_call_def Let_def moves_sound)
qed simp

subsection \<open>Properties\<close>

text \<open>On a page with one wizard no click ever fails, the current step stays among the steps, and from the first
  move on the page shows exactly it: the steps before it are complete, it alone is active, its pane is the only active
  pane, and the previous button is disabled on the first step only.\<close>

lemma wizard_shows_current_step:
  assumes "wd_steps d \<noteq> []"
  shows "in_steps (foldl (\<lambda>w ev. fst (wizard_handle 0 w ev)) (new_wizard d ob) evs) \<and>
    (ChangedEv \<in> set (wz_events (foldl (\<lambda>w ev. fst (wizard_handle 0 w ev)) (new_wizard d ob) evs)) \<longrightarrow>
       shows_step (foldl (\<lambda>w ev. fst (wizard_handle 0 w ev)) (new_wizard d ob) evs)) \<and>
    snd (wizard_handle 0 (foldl (\<lambda>w ev. fst (wizard_handle 0 w ev)) (new_wizard d ob) evs) ev) = Inr ()"
proof -
  have "wizard_ok (new_wizard d ob)"
    using assms by (cases "wd_steps d") (simp_all add: wizard_ok_def in_steps_def new_wizard_def)
  then have "wizard_ok (foldl (\<lambda>w ev. fst (wizard_handle 0 w ev)) (new_wizard d ob) evs)"
    by (rule wizard_run.run_ok)
  with handle_ok [OF this] show ?thesis by (simp add: wizard_ok_def)
qed

definition ex_wizard_doc :: wizard_doc where
  "ex_wizard_doc = \<lparr>wd_prev = [plain_elem], wd_next = [plain_elem],
     wd_steps = [(plain_elem, [plain_elem]), (plain_elem, [plain_elem])],
     wd_page = [(''#a'', elem_add_class ''step-pane'' plain_elem)]\<rparr>"

lemma wizard_shows_current_step_example:
  "snd (wizard_handle 0 (foldl (\<lambda>w ev. fst (wizard_handle 0 w ev)) (new_wizard ex_wizard_doc None)
     [NextClick False, PrevClick True]) (StepClick 0 False)) = Inr ()"
  using wizard_shows_current_step [of ex_wizard_doc None "[NextClick False, PrevClick True]" "StepClick 0 False"]
  by (simp add: ex_wizard_doc_def)

lemma next_step:
  assumes "in_steps w"
  shows "in_steps (fst (wizard_next False w)) \<and> wz_numSteps (fst (wizard_next False w)) = wz_numSteps w \<and>
    wz_currentStep (fst (wizard_next False w)) = min (int (wz_numSteps w)) (wz_currentStep w + 1) \<and>
    count_list (wz_events (fst (wizard_next False w))) FinishedEv =
      count_list (wz_events w) FinishedEv + (if wz_currentStep w = int (wz_numSteps w) then 1 else 0)"
proof (cases "wz_currentStep w = int (wz_numSteps w)")
  case True
  with assms show ?thesis by (simp add: wizard_next_def in_steps_def)
next
  case False
  let ?w = "w\<lparr>wz_events := wz_events w @ [ChangeEv (wz_currentStep w) ''next''], wz_currentStep := wz_currentStep w + 1\<rparr>"
  have "in_steps ?w" using False assms by (simp add: in_steps_def)
  then obtain w' where "wizard_setState ?w = (w', Inr ())" "wz_currentStep w' = wz_currentStep ?w" "in_steps w'"
    "wz_numSteps w' = wz_numSteps ?w" "wz_events w' = wz_events ?w @ [ChangedEv]" by (rule setState_shows)
  with False assms show ?thesis by (simp add: wizard_next_def in_steps_def)
qed

fun next_clicks :: "nat \<Rightarrow> wizard \<Rightarrow> wizard" where
  "next_clicks 0 w = w"
| "next_clicks (Suc n) w = fst (wizard_next False (next_clicks n w))"

text \<open>C30: walking forward: after \<open>n\<close> clicks on next from the first of \<open>m\<close> steps the wizard is on step
  \<open>min m (n + 1)\<close>, and \<open>finished\<close> has been triggered once per click made on the last step, never before.\<close>

theorem wizard_walk:
  assumes "wd_steps d \<noteq> []"
  shows "wz_currentStep (next_clicks n (new_wizard d ob)) = int (min (length (wd_steps d)) (n + 1)) \<and>
    count_list (wz_events (next_clicks n (new_wizard d ob))) FinishedEv = n - (length (wd_steps d) - 1)"
proof -
  let ?w = "\<lambda>n. next_clicks n (new_wizard d ob)"
  have "in_steps (?w n) \<and> wz_numSteps (?w n) = length (wd_steps d) \<and>
      wz_currentStep (?w n) = int (min (length (wd_steps d)) (n + 1)) \<and>
      count_list (wz_events (?w n)) FinishedEv = n - (length (wd_steps d) - 1)"
  proof (induction n)
    case 0
    have "1 \<le> length (wd_steps d)" using assms by (cases "wd_steps d") auto
    then show ?case by (simp add: in_steps_def new_wizard_def)
  next
    case (Suc n)
    have "1 \<le> length (wd_steps d)" using assms by (cases "wd_steps d") auto
    moreover note Suc
    moreover from Suc have "in_steps (?w n)" by simp
    note next_step [OF this]
    moreover have "?w (Suc n) = fst (wizard_next False (?w n))" by simp
    ultimately show ?case by auto
  qed
  then show ?thesis by simp
qed

theorem wizard_walk_witness:
  "wz_currentStep (next_clicks 3 (new_wizard ex_wizard_doc None)) = 2"
  using wizard_walk [of ex_wizard_doc 3 None] by (simp add: ex_wizard_doc_def)

text \<open>\<open>stepclicked\<close> looks the clicked step up among the steps of the whole page: with other wizards in front,
  clicking a complete step moves past the last step and fails with a \<open>TypeError\<close>.\<close>

lemma wizard_counts_steps_of_page:
  assumes "k < length (wz_steps w)" and "elem_has_class ''complete'' (fst (wz_steps w ! k))"
    and "length (wz_steps w) \<le> before + k"
  shows "snd (wizard_handle before w (StepClick k False)) = Inl (TypeError ''target of null'') \<and>
    wz_currentStep (fst (wizard_handle before w (StepClick k False))) > int (length (wz_steps w))"
  using assms by (simp add: wizard_handle_def wizard_stepclicked_def wizard_setState_def Let_def current_target_def
      position_def)

lemma wizard_counts_steps_of_page_example:
  "snd (wizard_handle 4 ((new_wizard ex_wizard_doc None)\<lparr>wz_steps := [complete_step (plain_elem, [])]\<rparr>) (StepClick 0 False)) =
   Inl (TypeError ''target of null'')"
  using wizard_counts_steps_of_page
    [of 0 "(new_wizard ex_wizard_doc None)\<lparr>wz_steps := [complete_step (plain_elem, [])]\<rparr>" 4]
  by (simp add: complete_step_def)

end
