(* ===== verification/Search_Box.thy ===== *)
theory Search_Box
  imports Jq_Dom
begin

text \<open>
  The search box (\<open>fuelux/dist/search.js\<close>): an input, a button and an icon. One action both searches and clears:
  it clears when a search is active and the input is empty or unchanged, and searches for the input's text otherwise.
  The events it triggers drive the data grid.
\<close>

subsection \<open>State and methods\<close>

text \<open>\<open>Searched None\<close> is a \<open>searched\<close> event whose text is \<open>undefined\<close>.\<close>

datatype search_event = Searched "string option" | Cleared

record search_box =
  sb_button :: jq
  sb_input :: jq
  sb_icon :: jq
  sb_activeSearch :: "string option"
  sb_events :: "search_event list"

record search_doc =
  sbd_button :: jq
  sbd_input :: jq
  sbd_icon :: jq

definition new_search :: "search_doc \<Rightarrow> unit option \<Rightarrow> search_box" where
  "new_search d options =
     \<lparr>sb_button = sbd_button d, sb_input = sbd_input d, sb_icon = sbd_icon d, sb_activeSearch = Some [], sb_events = []\<rparr>"

definition search_search :: "string option \<Rightarrow> search_box \<Rightarrow> search_box" where
  "search_search searchText w =
     w\<lparr>sb_icon := setClass ''icon-remove'' (sb_icon w), sb_activeSearch := searchText,
       sb_events := sb_events w @ [Searched searchText]\<rparr>"

definition search_clear :: "search_box \<Rightarrow> search_box" where
  "search_clear w =
     w\<lparr>sb_icon := setClass ''icon-search'' (sb_icon w), sb_activeSearch := Some [],
       sb_input := val_set [] (sb_input w), sb_events := sb_events w @ [Cleared]\<rparr>"

definition truthy_text :: "string option \<Rightarrow> bool" where
  "truthy_text t = (case t of None \<Rightarrow> False | Some s \<Rightarrow> s \<noteq> [])"

definition search_action :: "search_box \<Rightarrow> search_box" where
  "search_action w =
     (let val = val_get (sb_input w);
          inputEmptyOrUnchanged = (val = Some [] \<or> val = sb_activeSearch w)
      in if truthy_text (sb_activeSearch w) \<and> inputEmptyOrUnchanged then search_clear w
         else if truthy_text val then search_search val w
         else w)"

text \<open>A click on a button element; disabled ones are ignored.\<close>

definition search_buttonclicked :: "elem \<Rightarrow> search_box \<Rightarrow> search_box" where
  "search_buttonclicked target w =
     (if elem_has_class ''disabled'' target \<or> elem_disabled target then w else search_action w)"

text \<open>\<open>keydown\<close> only suppresses the browser's own reaction to the enter key.\<close>

definition search_keypress :: "nat \<Rightarrow> search_box \<Rightarrow> search_box \<times> bool" where
  "search_keypress which w = (w, which = 13)"

definition search_keypressed :: "nat \<Rightarrow> search_box \<Rightarrow> search_box" where
  "search_keypressed which w =
     (if which = 13 then search_action w
      else
        (let val = val_get (sb_input w);
             inputPresentAndUnchanged = (truthy_text val \<and> val = sb_activeSearch w)
         in w\<lparr>sb_icon := setClass (if inputPresentAndUnchanged then ''icon-remove'' else ''icon-search'') (sb_icon w)\<rparr>))"

definition search_disable :: "search_box \<Rightarrow> search_box" where
  "search_disable w =
     w\<lparr>sb_input := attr_set ''disabled'' ''disabled'' (sb_input w), sb_button := addClass ''disabled'' (sb_button w)\<rparr>"

definition search_enable :: "search_box \<Rightarrow> search_box" where
  "search_enable w =
     w\<lparr>sb_input := removeAttr ''disabled'' (sb_input w), sb_button := removeClass ''disabled'' (sb_button w)\<rparr>"

text \<open>\<open>$el.search(m)\<close> passes no argument: \<open>search\<close> gets \<open>undefined\<close> and the handlers have no event to read.\<close>

definition search_call :: "search_box \<Rightarrow> string \<Rightarrow> unit \<Rightarrow> search_box \<times> (js_error + unit option)" where
  "search_call w m v =
     (if m = ''search'' then (search_search None w, Inr None)
      else if m = ''clear'' then (search_clear w, Inr None)
      else if m = ''action'' then (search_action w, Inr None)
      else if m = ''disable'' then (search_disable w, Inr None)
      else if m = ''enable'' then (search_enable w, Inr None)
      else (w, Inl (TypeError m)))"

definition search_plugin ::
  "unit plugin_arg \<Rightarrow> (search_doc, search_box) host list \<Rightarrow>
   (search_doc, search_box) host list \<times> (js_error + unit option)" where
  "search_plugin opt hs = plugin new_search search_call opt () hs"

definition search_data_api :: "(search_doc, search_box) host \<Rightarrow> (search_doc, search_box) host" where
  "search_data_api h = data_api new_search () h"

text \<open>What the user does: a click on the \<open>i\<close>-th button, or a key that leaves a text in the input.\<close>

datatype search_input = ButtonClick nat | Key nat string

definition search_handle :: "search_box \<Rightarrow> search_input \<Rightarrow> search_box" where
  "search_handle w ev =
     (case ev of
        ButtonClick i \<Rightarrow> (case js_nth (sb_button w) i of None \<Rightarrow> w | Some b \<Rightarrow> search_buttonclicked b w)
      | Key which s \<Rightarrow> search_keypressed which (w\<lparr>sb_input := val_set s (sb_input w)\<rparr>))"

subsection \<open>The invariant\<close>

text \<open>The search that the last event announced is the active one.\<close>

definition announced :: "search_event list \<Rightarrow> string option" where
  "announced evs = (case rev evs of [] \<Rightarrow> Some [] | Cleared # _ \<Rightarrow> Some [] | Searched t # _ \<Rightarrow> t)"

definition search_sound :: "search_box \<Rightarrow> bool" where
  "search_sound w \<longleftrightarrow> sb_activeSearch w = announced (sb_events w)"

lemma announced_snoc [simp]:
  "announced (evs @ [Searched t]) = t" "announced (evs @ [Cleared]) = Some []"
  by (simp_all add: announced_def)

lemma search_ops_sound [inv_intros]:
  "search_sound w \<Longrightarrow> search_sound (search_search t w)"
  "search_sound w \<Longrightarrow> search_sound (search_clear w)"
  "search_sound w \<Longrightarrow> search_sound (search_disable w)"
  "search_sound w \<Longrightarrow> search_sound (search_enable w)"
  by (simp_all add: search_sound_def search_search_def search_clear_def search_disable_def search_enable_def)

lemma search_action_sound [inv_intros]: "search_sound w \<Longrightarrow> search_sound (search_action w)"
  by (simp add: search_action_def Let_def inv_intros)

lemma search_handle_sound: "search_sound w \<Longrightarrow> search_sound (search_handle w ev)"
proof (cases ev)
  case (Key which s)
  assume w: "search_sound w"
  then have "search_sound (w\<lparr>sb_input := val_set s (sb_input w)\<rparr>)" by (simp add: search_sound_def)
  then have "search_sound (search_action (w\<lparr>sb_input := val_set s (sb_input w)\<rparr>))" by (rule search_action_sound)
  with w Key show ?thesis
    by (simp add: search_handle_def search_keypressed_def Let_def) (simp add: search_sound_def)
qed (auto simp: search_handle_def search_buttonclicked_def search_action_sound split: option.splits)

interpretation search_events: step_system search_handle search_sound
  by unfold_locales (rule search_handle_sound)

interpretation search: widget new_search search_call "\<lambda>d. True" "\<lambda>ob. True" search_sound
  by unfold_locales (simp_all add: search_call_def inv_intros, simp add: search_sound_def new_search_def announced_def)

interpretation search_switch: switchable search_enable search_disable
  "\<lambda>w. list_all (\<lambda>e. \<not> elem_disabled e) (sb_input w) \<and> list_all (\<lambda>e. \<not> elem_has_class ''disabled'' e) (sb_button w)"
  "\<lambda>w. list_all elem_disabled (sb_input w) \<and> list_all (elem_has_class ''disabled'') (sb_button w)"
  "\<lambda>w. (val_get (sb_input w), sb_icon w, sb_activeSearch w, sb_events w)"
  by unfold_locales (simp_all add: search_enable_def search_disable_def switch_lemmas)

subsection \<open>Properties\<close>

text \<open>the action toggles: on a text typed while no search is active, enter searches for it and a second enter
  clears the input and the search; the announced events are exactly these two.\<close>

lemma search_toggles:
  assumes "sb_activeSearch w = Some []" and "sb_input w \<noteq> []" and "t \<noteq> []"
  shows "let w1 = search_handle w (Key 13 t); w2 = search_handle w1 (Key 13 t)
    in sb_activeSearch w1 = Some t \<and> val_get (sb_input w1) = Some t \<and> list_all (\<lambda>e. el_classes e = [''icon-remove'']) (sb_icon w1) \<and>
       sb_activeSearch w2 = Some [] \<and> val_get (sb_input w2) = Some [] \<and> list_all (\<lambda>e. el_classes e = [''icon-search'']) (sb_icon w2) \<and>
       sb_events w2 = sb_events w @ [Searched (Some t), Cleared]"
  using assms by (simp add: search_handle_def search_keypressed_def search_action_def search_search_def search_clear_def
      truthy_text_def Let_def setClass_def list_all_iff)

definition ex_search_doc :: search_doc where
  "ex_search_doc = \<lparr>sbd_button = [plain_elem], sbd_input = [plain_elem], sbd_icon = [plain_elem]\<rparr>"

lemma search_toggles_witness:
  "sb_events (search_handle (search_handle (new_search ex_search_doc None) (Key 13 ''oslo'')) (Key 13 ''oslo'')) =
   [Searched (Some ''oslo''), Cleared]"
  using search_toggles [of "new_search ex_search_doc None" "''oslo''"]
  by (simp add: new_search_def ex_search_doc_def Let_def)

text \<open>The active search is always the one that the last event announced, whatever the user does; a disabled
  button is inert.\<close>

lemma search_tracks_events:
  "sb_activeSearch (foldl search_handle (new_search d ob) evs) = announced (sb_events (foldl search_handle (new_search d ob) evs)) \<and>
   search_handle (search_disable w) (ButtonClick i) = search_disable w"
proof
  have "search_sound (new_search d ob)" by (simp add: search_sound_def new_search_def announced_def)
  then have "search_sound (foldl search_handle (new_search d ob) evs)" by (rule search_events.run_ok)
  then show "sb_activeSearch (foldl search_handle (new_search d ob) evs) =
      announced (sb_events (foldl search_handle (new_search d ob) evs))" by (simp add: search_sound_def)
  show "search_handle (search_disable w) (ButtonClick i) = search_disable w"
    using list_all_addClass [of "''disabled''" "sb_button w"]
    by (auto simp: search_handle_def search_buttonclicked_def search_disable_def js_nth_def list_all_length
        split: option.splits)
qed

end
