(* ===== verification/Choices.thy ===== *)
theory Choices
  imports Jq_Dom
begin

text \<open>
  The drop-down choosers: \<open>select\<close> (\<open>fuelux/dist/select.js\<close>), \<open>combobox\<close> (\<open>fuelux/dist/combobox.js\<close>) and the
  case-insensitive text match they share (\<open>fuelux/dist/util.js\<close>). The list items of the page are pairs of an \<open>li\<close>
  element and its links. The selectors that the widgets build from texts and values are a datatype; \<open>matches\<close> is the
  meaning jQuery gives them (for texts and values without the characters that selectors quote).

  The locale \<open>chooser\<close> is the contract the two widgets share: what is chosen is what is shown.
\<close>

subsection \<open>Items and selectors\<close>

type_synonym item = "elem \<times> jq"

definition fuelTextExactCI :: "elem \<Rightarrow> string \<Rightarrow> bool" where
  "fuelTextExactCI e text \<longleftrightarrow> to_lower (el_text e) = to_lower text"

datatype selector =
    LiByText string
  | LinkByText string
  | LiByValue string
  | LiByIndex "int option"
  | LiSelectedFirst

definition eq_position :: "nat \<Rightarrow> int \<Rightarrow> int" where
  "eq_position len i = (if i < 0 then i + int len else i)"

definition matches :: "selector \<Rightarrow> item list \<Rightarrow> jq" where
  "matches q items =
     (case q of
        LiByText t \<Rightarrow> filter (\<lambda>e. fuelTextExactCI e t) (map fst items)
      | LinkByText t \<Rightarrow> filter (\<lambda>e. fuelTextExactCI e t) (concat (map snd items))
      | LiByValue v \<Rightarrow> filter (\<lambda>e. map_of (el_attrs e) ''data-value'' = Some v) (map fst items)
      | LiByIndex None \<Rightarrow> []
      | LiByIndex (Some i) \<Rightarrow>
          (let j = eq_position (length items) i
           in if 0 \<le> j \<and> j < int (length items) then [fst (items ! nat j)] else [])
      | LiSelectedFirst \<Rightarrow>
          take 1 (filter (\<lambda>e. map_of (el_attrs e) ''data-selected'' = Some ''true'') (map fst items)))"

text \<open>\<open>item.removeData('selected'); item.removeAttr('data-selected')\<close> on the first item so marked.\<close>

definition unmark :: "elem \<Rightarrow> elem" where
  "unmark e = e\<lparr>el_data := AList.delete ''selected'' (el_data e), el_attrs := AList.delete ''data-selected'' (el_attrs e)\<rparr>"

fun unmark_first :: "item list \<Rightarrow> item list" where
  "unmark_first [] = []"
| "unmark_first ((e, ls) # items) =
     (if map_of (el_attrs e) ''data-selected'' = Some ''true'' then (unmark e, ls) # items
      else (e, ls) # unmark_first items)"

text \<open>\<open>$.extend({ text: txt }, $item.data())\<close>\<close>

definition item_data :: "jq \<Rightarrow> jval obj" where
  "item_data sel =
     js_extend [(''text'', Str (text_get sel))] (case data_get sel of None \<Rightarrow> [] | Some d \<Rightarrow> d)"

subsection \<open>Select\<close>

record select_box =
  se_items :: "item list"
  se_button :: jq
  se_label :: jq
  se_selected :: jq
  se_labelWidth :: "nat option"
  se_sizer :: "string option"
  se_events :: "jval obj list"

record select_doc =
  sed_items :: "item list"
  sed_button :: jq
  sed_label :: jq
  sed_sizer :: "string option"

definition select_selectBySelector :: "selector \<Rightarrow> select_box \<Rightarrow> select_box" where
  "select_selectBySelector q w =
     (let item = matches q (se_items w)
      in w\<lparr>se_selected := item, se_label := text_set (text_get item) (se_label w)\<rparr>)"

definition select_selectByText :: "string \<Rightarrow> select_box \<Rightarrow> select_box" where
  "select_selectByText text w = select_selectBySelector (LinkByText text) w"

definition select_selectByValue :: "string \<Rightarrow> select_box \<Rightarrow> select_box" where
  "select_selectByValue v w = select_selectBySelector (LiByValue v) w"

definition select_selectByIndex :: "int option \<Rightarrow> select_box \<Rightarrow> select_box" where
  "select_selectByIndex index w = select_selectBySelector (LiByIndex index) w"

definition select_setDefaultSelection :: "select_box \<Rightarrow> select_box" where
  "select_setDefaultSelection w =
     (if matches LiSelectedFirst (se_items w) = [] then select_selectByIndex (Some 0) w
      else
        (let w = select_selectBySelector LiSelectedFirst w
         in w\<lparr>se_items := unmark_first (se_items w), se_selected := map unmark (se_selected w)\<rparr>))"

definition select_selectedItem :: "select_box \<Rightarrow> jval obj" where
  "select_selectedItem w = item_data (se_selected w)"

text \<open>A click on a link of item \<open>i\<close>.\<close>

definition select_itemclicked :: "nat \<Rightarrow> select_box \<Rightarrow> select_box" where
  "select_itemclicked i w =
     (case js_nth (se_items w) i of
        None \<Rightarrow> w
      | Some it \<Rightarrow>
          (let w = w\<lparr>se_selected := [fst it]\<rparr>;
               w = w\<lparr>se_label := text_set (text_get (se_selected w)) (se_label w)\<rparr>
           in w\<lparr>se_events := se_events w @ [select_selectedItem w]\<rparr>))"

text \<open>
  \<open>resize\<close> writes each link's text into the hidden element \<open>#selectTextSize\<close> (created at need) and measures it;
  \<open>measure\<close> is the browser's \<open>outerWidth\<close> of a text.
\<close>

definition resize_step :: "(string \<Rightarrow> nat) \<Rightarrow> elem \<Rightarrow> string \<times> nat \<Rightarrow> string \<times> nat" where
  "resize_step msr link acc =
     (let t = el_text link; newWidth = msr t
      in (t, if newWidth > snd acc then newWidth else snd acc))"

definition select_resize :: "(string \<Rightarrow> nat) \<Rightarrow> select_box \<Rightarrow> select_box" where
  "select_resize msr w =
     (let sizer = (case se_sizer w of None \<Rightarrow> [] | Some t \<Rightarrow> t);
          (t, width) = fold (resize_step msr) (concat (map snd (se_items w))) (sizer, 0)
      in w\<lparr>se_sizer := Some t, se_labelWidth := Some width\<rparr>)"

definition select_enable :: "select_box \<Rightarrow> select_box" where
  "select_enable w = w\<lparr>se_button := removeClass ''disabled'' (se_button w)\<rparr>"

definition select_disable :: "select_box \<Rightarrow> select_box" where
  "select_disable w = w\<lparr>se_button := addClass ''disabled'' (se_button w)\<rparr>"

text \<open>The options object matters only by its \<open>resize\<close> property.\<close>

definition new_select :: "(string \<Rightarrow> nat) \<Rightarrow> select_doc \<Rightarrow> string option option \<Rightarrow> select_box" where
  "new_select msr d options =
     (let w = \<lparr>se_items = sed_items d, se_button = sed_button d, se_label = sed_label d, se_selected = [],
               se_labelWidth = None, se_sizer = sed_sizer d, se_events = []\<rparr>;
          w = select_setDefaultSelection w
      in if options = Some (Some ''auto'') then select_resize msr w else w)"

text \<open>The position that \<open>:eq(v)\<close> denotes; a text that is no integer matches nothing.\<close>

definition index_arg :: "jval \<Rightarrow> int option" where
  "index_arg v =
     (case to_number (js_string v) of
        XDec (Dec m e) \<Rightarrow> if 0 \<le> e then Some (m * 10 ^ nat e) else None
      | _ \<Rightarrow> None)"

definition select_call ::
  "(string \<Rightarrow> nat) \<Rightarrow> select_box \<Rightarrow> string \<Rightarrow> jval \<Rightarrow> select_box \<times> (js_error + jval option)" where
  "select_call msr w m v =
     (if m = ''resize'' then (select_resize msr w, Inr None)
      else if m = ''selectedItem'' then (w, Inr (Some (Object (select_selectedItem w))))
      else if m = ''selectByText'' then (select_selectByText (js_string v) w, Inr None)
      else if m = ''selectByValue'' then (select_selectByValue (js_string v) w, Inr None)
      else if m = ''selectByIndex'' then (select_selectByIndex (index_arg v) w, Inr None)
      else if m = ''setDefaultSelection'' then (select_setDefaultSelection w, Inr None)
      else if m = ''enable'' then (select_enable w, Inr None)
      else if m = ''disable'' then (select_disable w, Inr None)
      else (w, Inl (TypeError m)))"

definition select_plugin ::
  "(string \<Rightarrow> nat) \<Rightarrow> string option plugin_arg \<Rightarrow> jval \<Rightarrow> (select_doc, select_box) host list \<Rightarrow>
   (select_doc, select_box) host list \<times> (js_error + jval option)" where
  "select_plugin msr opt v hs = plugin (new_select msr) (select_call msr) opt v hs"

definition select_data_api ::
  "(string \<Rightarrow> nat) \<Rightarrow> string option \<Rightarrow> (select_doc, select_box) host list \<Rightarrow> (select_doc, select_box) host list" where
  "select_data_api msr rs hs = map (data_api (new_select msr) rs) hs"

subsection \<open>Combobox\<close>

record combobox =
  cb_items :: "item list"
  cb_input :: jq
  cb_button :: jq
  cb_selected :: "jq option"
  cb_events :: "jval obj list"

record combobox_doc =
  cbd_items :: "item list"
  cbd_input :: jq
  cbd_button :: jq

definition combobox_selectedItem :: "combobox \<Rightarrow> jval obj" where
  "combobox_selectedItem w =
     (case cb_selected w of
        Some sel \<Rightarrow> item_data sel
      | None \<Rightarrow> [(''text'', case val_get (cb_input w) of None \<Rightarrow> Undefined | Some s \<Rightarrow> Str s)])"

definition combobox_selectBySelector :: "selector \<Rightarrow> combobox \<Rightarrow> combobox" where
  "combobox_selectBySelector q w =
     (let item = matches q (cb_items w)
      in if item \<noteq> [] then w\<lparr>cb_selected := Some item, cb_input := val_set (text_get item) (cb_input w)\<rparr>
         else w\<lparr>cb_selected := None\<rparr>)"

definition combobox_selectByText :: "string \<Rightarrow> combobox \<Rightarrow> combobox" where
  "combobox_selectByText text w = combobox_selectBySelector (LiByText text) w"

definition combobox_selectByValue :: "string \<Rightarrow> combobox \<Rightarrow> combobox" where
  "combobox_selectByValue v w = combobox_selectBySelector (LiByValue v) w"

definition combobox_selectByIndex :: "int option \<Rightarrow> combobox \<Rightarrow> combobox" where
  "combobox_selectByIndex index w = combobox_selectBySelector (LiByIndex index) w"

definition combobox_setDefaultSelection :: "combobox \<Rightarrow> combobox" where
  "combobox_setDefaultSelection w =
     (if matches LiSelectedFirst (cb_items w) \<noteq> [] then
        (let w = combobox_selectBySelector LiSelectedFirst w
         in w\<lparr>cb_items := unmark_first (cb_items w), cb_selected := map_option (map unmark) (cb_selected w)\<rparr>)
      else w)"

definition combobox_enable :: "combobox \<Rightarrow> combobox" where
  "combobox_enable w =
     w\<lparr>cb_input := removeAttr ''disabled'' (cb_input w), cb_button := removeClass ''disabled'' (cb_button w)\<rparr>"

definition combobox_disable :: "combobox \<Rightarrow> combobox" where
  "combobox_disable w =
     w\<lparr>cb_input := attr_flag ''disabled'' True (cb_input w), cb_button := addClass ''disabled'' (cb_button w)\<rparr>"

text \<open>The handler of the input's \<open>change\<close> event; \<open>synthetic\<close> marks the event that \<open>itemclicked\<close> triggers itself.\<close>

definition no_text :: "jval obj \<Rightarrow> bool" where
  "no_text d \<longleftrightarrow> map_of d ''text'' = Some (Str []) \<or> map_of d ''text'' = Some (Array [])"

definition combobox_inputchanged :: "string \<Rightarrow> bool \<Rightarrow> combobox \<Rightarrow> combobox" where
  "combobox_inputchanged val synthetic w =
     (if synthetic then w
      else
        (let w = combobox_selectByText val w;
             data = combobox_selectedItem w;
             data = (if no_text data then [(''text'', Str val)] else data)
         in w\<lparr>cb_events := cb_events w @ [data]\<rparr>))"

definition combobox_itemclicked :: "nat \<Rightarrow> combobox \<Rightarrow> combobox" where
  "combobox_itemclicked i w =
     (case js_nth (cb_items w) i of
        None \<Rightarrow> w
      | Some it \<Rightarrow>
          (let w = w\<lparr>cb_selected := Some [fst it]\<rparr>;
               w = w\<lparr>cb_input := val_set (text_get [fst it]) (cb_input w)\<rparr>;
               w = combobox_inputchanged (text_get [fst it]) True w
           in w\<lparr>cb_events := cb_events w @ [combobox_selectedItem w]\<rparr>))"

definition new_combobox :: "combobox_doc \<Rightarrow> unit option \<Rightarrow> combobox" where
  "new_combobox d options =
     combobox_setDefaultSelection
       \<lparr>cb_items = cbd_items d, cb_input = cbd_input d, cb_button = cbd_button d, cb_selected = None, cb_events = []\<rparr>"

definition combobox_call :: "combobox \<Rightarrow> string \<Rightarrow> jval \<Rightarrow> combobox \<times> (js_error + jval option)" where
  "combobox_call w m v =
     (if m = ''selectedItem'' then (w, Inr (Some (Object (combobox_selectedItem w))))
      else if m = ''selectByText'' then (combobox_selectByText (js_string v) w, Inr None)
      else if m = ''selectByValue'' then (combobox_selectByValue (js_string v) w, Inr None)
      else if m = ''selectByIndex'' then (combobox_selectByIndex (index_arg v) w, Inr None)
      else if m = ''setDefaultSelection'' then (combobox_setDefaultSelection w, Inr None)
      else if m = ''enable'' then (combobox_enable w, Inr None)
      else if m = ''disable'' then (combobox_disable w, Inr None)
      else (w, Inl (TypeError m)))"

definition combobox_plugin ::
  "unit plugin_arg \<Rightarrow> jval \<Rightarrow> (combobox_doc, combobox) host list \<Rightarrow>
   (combobox_doc, combobox) host list \<times> (js_error + jval option)" where
  "combobox_plugin opt v hs = plugin new_combobox combobox_call opt v hs"

definition combobox_data_api :: "(combobox_doc, combobox) host list \<Rightarrow> (combobox_doc, combobox) host list" where
  "combobox_data_api hs = map (data_api new_combobox ()) hs"

subsection \<open>The contract of a chooser\<close>

text \<open>
  \<open>pick q\<close> selects what the selector \<open>q\<close> matches; when it matches something, that is what is chosen and its text is
  what is shown. The items do not change.
\<close>

locale chooser =
  fixes pick :: "selector \<Rightarrow> 's \<Rightarrow> 's"
    and items :: "'s \<Rightarrow> item list"
    and chosen :: "'s \<Rightarrow> jq"
    and shown :: "'s \<Rightarrow> string"
    and ready :: "'s \<Rightarrow> bool"
  assumes choose_items: "items (pick q s) = items s"
    and choose_ready: "ready s \<Longrightarrow> ready (pick q s)"
    and choose_hit: "ready s \<Longrightarrow> matches q (items s) \<noteq> [] \<Longrightarrow>
      chosen (pick q s) = matches q (items s) \<and> shown (pick q s) = text_get (matches q (items s))"
begin

lemma run_items: "items (fold pick qs s) = items s"
  by (induction qs arbitrary: s) (simp_all add: choose_items)

lemma run_ready: "ready s \<Longrightarrow> ready (fold pick qs s)"
  by (induction qs arbitrary: s) (simp_all add: choose_ready)

lemma last_choice_shown:
  "ready s \<Longrightarrow> matches q (items s) \<noteq> [] \<Longrightarrow>
   chosen (fold pick (qs @ [q]) s) = matches q (items s) \<and> shown (fold pick (qs @ [q]) s) = text_get (matches q (items s))"
  using choose_hit [of "fold pick qs s" q] by (simp add: run_items run_ready)

end

text \<open>What a page shows of a set whose elements all carry the same text.\<close>

definition label_text :: "jq \<Rightarrow> string" where
  "label_text xs = (case xs of [] \<Rightarrow> [] | e # _ \<Rightarrow> el_text e)"

lemma label_text_set [simp]: "xs \<noteq> [] \<Longrightarrow> label_text (text_set t xs) = t"
  by (cases xs) (simp_all add: label_text_def text_set_def)

definition given_set :: "jq option \<Rightarrow> jq" where
  "given_set x = (case x of None \<Rightarrow> [] | Some xs \<Rightarrow> xs)"

definition given_text :: "string option \<Rightarrow> string" where
  "given_text x = (case x of None \<Rightarrow> [] | Some t \<Rightarrow> t)"

interpretation select: chooser select_selectBySelector se_items se_selected "\<lambda>w. label_text (se_label w)"
  "\<lambda>w. se_label w \<noteq> []"
  by unfold_locales (simp_all add: select_selectBySelector_def Let_def)

interpretation combobox: chooser combobox_selectBySelector cb_items "\<lambda>w. given_set (cb_selected w)"
  "\<lambda>w. given_text (val_get (cb_input w))" "\<lambda>w. cb_input w \<noteq> []"
  by unfold_locales (simp_all add: combobox_selectBySelector_def Let_def given_set_def given_text_def)

interpretation select_switch: switchable select_enable select_disable
  "\<lambda>w. list_all (\<lambda>e. \<not> elem_has_class ''disabled'' e) (se_button w)"
  "\<lambda>w. list_all (elem_has_class ''disabled'') (se_button w)"
  "\<lambda>w. (se_items w, se_label w, se_selected w, se_labelWidth w, se_events w)"
  by unfold_locales (simp_all add: select_enable_def select_disable_def switch_lemmas)

interpretation combobox_switch: switchable combobox_enable combobox_disable
  "\<lambda>w. list_all (\<lambda>e. \<not> elem_disabled e) (cb_input w) \<and> list_all (\<lambda>e. \<not> elem_has_class ''disabled'' e) (cb_button w)"
  "\<lambda>w. list_all elem_disabled (cb_input w) \<and> list_all (elem_has_class ''disabled'') (cb_button w)"
  "\<lambda>w. (cb_items w, val_get (cb_input w), cb_selected w, cb_events w)"
  by unfold_locales (simp_all add: combobox_enable_def combobox_disable_def attr_flag_def switch_lemmas)

lemma resize_fold:
  "snd (fold (resize_step msr) links (t, n)) = fold (\<lambda>e m. max (msr (el_text e)) m) links n"
  by (induction links arbitrary: t n) (simp_all add: resize_step_def Let_def max_def)

lemma fold_max_bound:
  "n \<le> fold (\<lambda>e m. max (f e) m) xs n \<and> (\<forall>x \<in> set xs. f x \<le> fold (\<lambda>e m. max (f e) m) xs (n :: nat))"
proof (induction xs arbitrary: n)
  case Nil
  then show ?case by simp
next
  case (Cons x xs)
  from Cons [of "max (f x) n"] show ?case by auto
qed

lemma fold_max_attained:
  "fold (\<lambda>e m. max (f e) m) xs (n :: nat) = n \<or> (\<exists>x \<in> set xs. f x = fold (\<lambda>e m. max (f e) m) xs n)"
proof (induction xs arbitrary: n)
  case Nil
  then show ?case by simp
next
  case (Cons x xs)
  from Cons [of "max (f x) n"] show ?case by (auto simp: max_def split: if_splits)
qed

lemma matches_selected: "matches LiSelectedFirst items = [] \<or> (\<exists>e. matches LiSelectedFirst items = [e] \<and> e \<in> fst ` set items)"
proof (cases "filter (\<lambda>e. map_of (el_attrs e) ''data-selected'' = Some ''true'') (map fst items)")
  case (Cons e es)
  have "set (e # es) \<subseteq> fst ` set items" unfolding Cons [symmetric] by auto
  with Cons show ?thesis by (auto simp: matches_def)
qed (simp add: matches_def)

lemma text_unmark [simp]: "el_text (unmark e) = el_text e"
  by (simp add: unmark_def)

subsection \<open>Properties\<close>

text \<open>A new select shows its default: the first item marked \<open>data-selected\<close>, or the first item when none is
  marked; exactly that item is selected and the label carries its text. Auto-sizing sets the label to the width of the
  widest link.\<close>

lemma select_default:
  assumes "sed_items d \<noteq> []" and "sed_label d \<noteq> []"
  shows "\<exists>e. (if matches LiSelectedFirst (sed_items d) = [] then e = fst (hd (sed_items d)) else matches LiSelectedFirst (sed_items d) = [e]) \<and>
    map el_text (se_selected (new_select msr d ob)) = [el_text e] \<and> label_text (se_label (new_select msr d ob)) = el_text e \<and>
    (ob = Some (Some ''auto'') \<longrightarrow> (\<exists>wd. se_labelWidth (new_select msr d ob) = Some wd \<and>
       (\<forall>l \<in> set (concat (map snd (se_items (new_select msr d ob)))). msr (el_text l) \<le> wd) \<and>
       (wd = 0 \<or> (\<exists>l \<in> set (concat (map snd (se_items (new_select msr d ob)))). msr (el_text l) = wd))))"
proof -
  let ?base = "\<lparr>se_items = sed_items d, se_button = sed_button d, se_label = sed_label d, se_selected = [],
      se_labelWidth = None, se_sizer = sed_sizer d, se_events = []\<rparr>"
  let ?w = "select_setDefaultSelection ?base"
  have fields: "se_selected (new_select msr d ob) = se_selected ?w" "se_label (new_select msr d ob) = se_label ?w"
    "se_items (new_select msr d ob) = se_items ?w"
    by (simp_all add: new_select_def select_resize_def Let_def split_beta)
  have w: "ob = Some (Some ''auto'') \<Longrightarrow> se_labelWidth (new_select msr d ob) =
      Some (fold (\<lambda>e m. max (msr (el_text e)) m) (concat (map snd (se_items ?w))) 0)"
    using resize_fold by (simp add: new_select_def select_resize_def Let_def split_beta)
  have width: "ob = Some (Some ''auto'') \<longrightarrow> (\<exists>wd. se_labelWidth (new_select msr d ob) = Some wd \<and>
       (\<forall>l \<in> set (concat (map snd (se_items ?w))). msr (el_text l) \<le> wd) \<and>
       (wd = 0 \<or> (\<exists>l \<in> set (concat (map snd (se_items ?w))). msr (el_text l) = wd)))"
    using w fold_max_bound [of 0 "\<lambda>e. msr (el_text e)" "concat (map snd (se_items ?w))"]
      fold_max_attained [of "\<lambda>e. msr (el_text e)" "concat (map snd (se_items ?w))" 0]
    by (intro impI exI conjI) (assumption | simp only: | blast)+
  have "\<exists>e. (if matches LiSelectedFirst (sed_items d) = [] then e = fst (hd (sed_items d)) else matches LiSelectedFirst (sed_items d) = [e]) \<and>
    map el_text (se_selected ?w) = [el_text e] \<and> label_text (se_label ?w) = el_text e"
  proof (cases "matches LiSelectedFirst (sed_items d)")
    case Nil
    with assms show ?thesis
      by (cases "sed_items d") (simp_all add: select_setDefaultSelection_def select_selectByIndex_def
          select_selectBySelector_def matches_def eq_position_def text_get_def Let_def)
  next
    case (Cons e es)
    with matches_selected [of "sed_items d"] have "matches LiSelectedFirst (sed_items d) = [e]" by auto
    with assms show ?thesis
      by (simp add: select_setDefaultSelection_def select_selectBySelector_def text_get_def Let_def)
  qed
  then obtain e where
    "(if matches LiSelectedFirst (sed_items d) = [] then e = fst (hd (sed_items d)) else matches LiSelectedFirst (sed_items d) = [e])"
    "map el_text (se_selected ?w) = [el_text e]" "label_text (se_label ?w) = el_text e" by (elim exE conjE)
  with width show ?thesis unfolding fields by (intro exI [of _ e] conjI)
qed

definition ex_item :: "string \<Rightarrow> string \<Rightarrow> item" where
  "ex_item v t =
     (plain_elem\<lparr>el_text := t, el_attrs := [(''data-value'', v)], el_data := [(''value'', Str v)]\<rparr>,
      [plain_elem\<lparr>el_text := t\<rparr>])"

definition ex_select_doc :: select_doc where
  "ex_select_doc = \<lparr>sed_items = [ex_item ''10'' ''Ten'', ex_item ''20'' ''Twenty''], sed_button = [], sed_label = [plain_elem],
     sed_sizer = None\<rparr>"

lemma select_default_witness:
  "map el_text (se_selected (new_select (\<lambda>s. 8 * length s) ex_select_doc (Some (Some ''auto'')))) = [''Ten'']"
  using select_default [of ex_select_doc "\<lambda>s. 8 * length s" "Some (Some ''auto'')"]
  by (auto simp: ex_select_doc_def ex_item_def matches_def plain_elem_def)

text \<open>Choosing by text, value or index shows what it chooses: after any choices, when the last one matches, the
  select's label and the combobox's input carry the text of exactly the matched items.\<close>

lemma last_choice_is_shown:
  assumes "se_label w \<noteq> []" and "matches q (se_items w) \<noteq> []" and "cb_input c \<noteq> []" and "matches q (cb_items c) \<noteq> []"
  shows "label_text (se_label (fold select_selectBySelector (qs @ [q]) w)) = text_get (matches q (se_items w)) \<and>
    se_selected (fold select_selectBySelector (qs @ [q]) w) = matches q (se_items w) \<and>
    given_text (val_get (cb_input (fold combobox_selectBySelector (qs @ [q]) c))) = text_get (matches q (cb_items c)) \<and>
    given_set (cb_selected (fold combobox_selectBySelector (qs @ [q]) c)) = matches q (cb_items c)"
  using select.last_choice_shown [OF assms(1,2), of qs] combobox.last_choice_shown [OF assms(3,4), of qs] by simp

definition ex_combobox_doc :: combobox_doc where
  "ex_combobox_doc = \<lparr>cbd_items = [ex_item ''10'' ''Ten'', ex_item ''20'' ''Twenty''], cbd_input = [plain_elem], cbd_button = []\<rparr>"

lemma new_combobox_unmarked:
  "matches LiSelectedFirst (cbd_items d) = [] \<Longrightarrow>
   cb_input (new_combobox d ob) = cbd_input d \<and> cb_items (new_combobox d ob) = cbd_items d"
  by (simp add: new_combobox_def combobox_setDefaultSelection_def)

lemma ex_choosers:
  "cb_input (new_combobox ex_combobox_doc None) = [plain_elem]"
  "cb_items (new_combobox ex_combobox_doc None) = [ex_item ''10'' ''Ten'', ex_item ''20'' ''Twenty'']"
  "se_items (new_select (\<lambda>s. length s) ex_select_doc None) = [ex_item ''10'' ''Ten'', ex_item ''20'' ''Twenty'']"
  "se_label (new_select (\<lambda>s. length s) ex_select_doc None) \<noteq> []"
  by (simp_all add: new_combobox_def combobox_setDefaultSelection_def ex_combobox_doc_def matches_def ex_item_def plain_elem_def
      new_select_def select_setDefaultSelection_def select_selectByIndex_def select_selectBySelector_def ex_select_doc_def Let_def)

lemma last_choice_is_shown_example:
  "given_text (val_get (cb_input (fold combobox_selectBySelector [LiByText ''ten'', LiByValue ''20'']
     (new_combobox ex_combobox_doc None)))) = ''Twenty''"
  using last_choice_is_shown [of "new_select (\<lambda>s. length s) ex_select_doc None" "LiByValue ''20''" "new_combobox ex_combobox_doc None"
      "[LiByText ''ten'']"]
  by (simp add: ex_choosers matches_def ex_item_def text_get_def)

text \<open>Typing into a combobox: when the text equals items up to case, exactly these become the selection and the
  event carries the data of the first; otherwise nothing is selected, the input keeps the text and the event carries it.\<close>

lemma combobox_typed:
  assumes "cb_input w \<noteq> []" and "val_get (cb_input w) = Some val"
  shows "(matches (LiByText val) (cb_items w) = [] \<longrightarrow>
      cb_selected (combobox_inputchanged val False w) = None \<and> val_get (cb_input (combobox_inputchanged val False w)) = Some val \<and>
      cb_events (combobox_inputchanged val False w) = cb_events w @ [[(''text'', Str val)]]) \<and>
    (matches (LiByText val) (cb_items w) \<noteq> [] \<longrightarrow>
      cb_selected (combobox_inputchanged val False w) = Some (matches (LiByText val) (cb_items w)) \<and>
      list_all (\<lambda>e. fuelTextExactCI e val) (matches (LiByText val) (cb_items w)) \<and>
      (\<not> no_text (item_data (matches (LiByText val) (cb_items w))) \<longrightarrow>
        cb_events (combobox_inputchanged val False w) = cb_events w @ [item_data (matches (LiByText val) (cb_items w))]))"
  using assms
  by (auto simp: combobox_inputchanged_def combobox_selectByText_def combobox_selectBySelector_def
      combobox_selectedItem_def no_text_def Let_def list_all_iff matches_def)

lemma combobox_typed_witness:
  "cb_events (combobox_inputchanged ''Six'' False ((new_combobox ex_combobox_doc None)\<lparr>cb_input := [plain_elem\<lparr>el_val := ''Six''\<rparr>]\<rparr>)) =
   cb_events (new_combobox ex_combobox_doc None) @ [[(''text'', Str ''Six'')]]"
  using combobox_typed [of "(new_combobox ex_combobox_doc None)\<lparr>cb_input := [plain_elem\<lparr>el_val := ''Six''\<rparr>]\<rparr>" "''Six''"]
  by (simp add: ex_choosers matches_def ex_item_def fuelTextExactCI_def to_lower_def lower_char_def val_get_def)

text \<open>\<open>select\<close>'s \<open>selectByText\<close> selects the links, not the items: where only the items carry a value, the selected
  item has none, although clicking the same item, or choosing it by text in a combobox, reports the value.\<close>

lemma select_by_text_drops_value:
  assumes "list_all (\<lambda>l. map_of (el_data l) ''value'' = None) (concat (map snd (se_items w)))"
    and "i < length (se_items w)" and "distinct (map fst (el_data (fst (se_items w ! i))))"
  shows "map_of (select_selectedItem (select_selectByText t w)) ''value'' = None \<and>
    map_of (select_selectedItem (select_itemclicked i w)) ''value'' = map_of (el_data (fst (se_items w ! i))) ''value''"
proof
  let ?m = "matches (LinkByText t) (se_items w)"
  have "list_all (\<lambda>l. map_of (el_data l) ''value'' = None) ?m"
    using assms(1) by (auto simp: matches_def list_all_iff)
  then have "map_of (rev (case data_get ?m of None \<Rightarrow> [] | Some d \<Rightarrow> d)) ''value'' = None"
    by (cases ?m) (simp_all add: data_get_def map_of_eq_None_iff)
  then show "map_of (select_selectedItem (select_selectByText t w)) ''value'' = None"
    by (simp add: select_selectedItem_def select_selectByText_def select_selectBySelector_def item_data_def js_extend_get Let_def)
  show "map_of (select_selectedItem (select_itemclicked i w)) ''value'' = map_of (el_data (fst (se_items w ! i))) ''value''"
    using assms(2,3) by (simp add: select_itemclicked_def js_nth_def select_selectedItem_def item_data_def data_get_def
        js_extend_override map_add_def Let_def split: option.splits)
qed

lemma select_by_text_drops_value_witness:
  "map_of (select_selectedItem (select_selectByText ''ten'' (new_select (\<lambda>s. length s) ex_select_doc None))) ''value'' = None \<and>
   map_of (select_selectedItem (select_itemclicked 0 (new_select (\<lambda>s. length s) ex_select_doc None))) ''value'' = Some (Str ''10'')"
  using select_by_text_drops_value [of "new_select (\<lambda>s. length s) ex_select_doc None" 0 "''ten''"]
  by (simp add: ex_choosers ex_item_def plain_elem_def)

end
