(* ===== verification/Form_Controls.thy ===== *)
theory Form_Controls
  imports Choices
begin

text \<open>
  The styled check boxes and radio buttons (\<open>fuelux/dist/checkbox.js\<close>, \<open>fuelux/dist/radio.js\<close>), whose icons have to
  follow the native inputs, and the pill box (\<open>fuelux/dist/pillbox.js\<close>), a list whose items vanish when clicked.
\<close>

subsection \<open>Check box\<close>

record checkbox =
  ck_icon :: jq
  ck_chk :: jq

record checkbox_doc =
  ckd_icon :: jq
  ckd_chk :: jq

definition add_class_if :: "bool \<Rightarrow> string \<Rightarrow> jq \<Rightarrow> jq" where
  "add_class_if b c xs = (if b then addClass c xs else xs)"

definition checkbox_setState :: "jq \<Rightarrow> checkbox \<Rightarrow> checkbox" where
  "checkbox_setState chk w =
     (let checked = list_ex el_checked chk;
          disabled = list_ex elem_disabled chk;
          icon = removeClass ''disabled'' (removeClass ''checked'' (ck_icon w));
          icon = add_class_if checked ''checked'' icon;
          icon = add_class_if disabled ''disabled'' icon
      in w\<lparr>ck_icon := icon\<rparr>)"

definition checkbox_enable :: "checkbox \<Rightarrow> checkbox" where
  "checkbox_enable w =
     w\<lparr>ck_chk := attr_flag ''disabled'' False (ck_chk w), ck_icon := removeClass ''disabled'' (ck_icon w)\<rparr>"

definition checkbox_disable :: "checkbox \<Rightarrow> checkbox" where
  "checkbox_disable w =
     w\<lparr>ck_chk := attr_flag ''disabled'' True (ck_chk w), ck_icon := addClass ''disabled'' (ck_icon w)\<rparr>"

definition checkbox_itemchecked :: "elem \<Rightarrow> checkbox \<Rightarrow> checkbox" where
  "checkbox_itemchecked target w = checkbox_setState [target] w"

text \<open>
  The browser's part: a click on an enabled check box inverts it and fires \<open>change\<close>. \<open>toggle\<close> clicks every check
  box of the set.
\<close>

definition checkbox_click :: "nat \<Rightarrow> checkbox \<Rightarrow> checkbox" where
  "checkbox_click i w =
     (case js_nth (ck_chk w) i of
        None \<Rightarrow> w
      | Some e \<Rightarrow>
          if elem_disabled e then w
          else
            (let e = e\<lparr>el_checked := \<not> el_checked e\<rparr>
             in checkbox_itemchecked e (w\<lparr>ck_chk := (ck_chk w)[i := e]\<rparr>)))"

definition checkbox_toggle :: "checkbox \<Rightarrow> checkbox" where
  "checkbox_toggle w = fold checkbox_click [0..<length (ck_chk w)] w"

definition new_checkbox :: "checkbox_doc \<Rightarrow> unit option \<Rightarrow> checkbox" where
  "new_checkbox d options = checkbox_setState (ckd_chk d) \<lparr>ck_icon = ckd_icon d, ck_chk = ckd_chk d\<rparr>"

definition checkbox_call :: "checkbox \<Rightarrow> string \<Rightarrow> jval \<Rightarrow> checkbox \<times> (js_error + unit option)" where
  "checkbox_call w m v =
     (if m = ''enable'' then (checkbox_enable w, Inr None)
      else if m = ''disable'' then (checkbox_disable w, Inr None)
      else if m = ''toggle'' then (checkbox_toggle w, Inr None)
      else (w, Inl (TypeError m)))"

definition checkbox_plugin ::
  "unit plugin_arg \<Rightarrow> jval \<Rightarrow> (checkbox_doc, checkbox) host list \<Rightarrow>
   (checkbox_doc, checkbox) host list \<times> (js_error + unit option)" where
  "checkbox_plugin opt v hs = plugin new_checkbox checkbox_call opt v hs"

definition checkbox_data_api :: "(checkbox_doc, checkbox) host list \<Rightarrow> (checkbox_doc, checkbox) host list" where
  "checkbox_data_api hs = map (data_api new_checkbox ()) hs"

text \<open>The icons show the state of the (single) native check box.\<close>

definition icons_show :: "bool \<Rightarrow> bool \<Rightarrow> jq \<Rightarrow> bool" where
  "icons_show checked disabled icons \<longleftrightarrow>
     list_all (\<lambda>e. elem_has_class ''checked'' e = checked \<and> elem_has_class ''disabled'' e = disabled) icons"

definition checkbox_ok :: "checkbox \<Rightarrow> bool" where
  "checkbox_ok w \<longleftrightarrow> (\<exists>e. ck_chk w = [e] \<and> icons_show (el_checked e) (elem_disabled e) (ck_icon w))"

lemma setState_icons: "icons_show (list_ex el_checked chk) (list_ex elem_disabled chk) (ck_icon (checkbox_setState chk w))"
  by (auto simp: icons_show_def checkbox_setState_def Let_def list_all_iff add_class_if_def addClass_def removeClass_def)

lemma setState_chk [simp]: "ck_chk (checkbox_setState chk w) = ck_chk w"
  by (simp add: checkbox_setState_def Let_def)

lemma checkbox_click_ok [inv_intros]: "checkbox_ok w \<Longrightarrow> checkbox_ok (checkbox_click i w)"
proof -
  assume "checkbox_ok w"
  then obtain e where e: "ck_chk w = [e]" "icons_show (el_checked e) (elem_disabled e) (ck_icon w)"
    by (auto simp: checkbox_ok_def)
  let ?e = "e\<lparr>el_checked := \<not> el_checked e\<rparr>"
  show ?thesis
  proof (cases "i = 0 \<and> \<not> elem_disabled e")
    case True
    with e(1) have "checkbox_click i w = checkbox_setState [?e] (w\<lparr>ck_chk := [?e]\<rparr>)"
      by (simp add: checkbox_click_def js_nth_def checkbox_itemchecked_def Let_def)
    with setState_icons [of "[?e]" "w\<lparr>ck_chk := [?e]\<rparr>"] show ?thesis by (simp add: checkbox_ok_def)
  next
    case False
    with e have "checkbox_click i w = w" by (auto simp: checkbox_click_def js_nth_def)
    with e show ?thesis by (simp add: checkbox_ok_def)
  qed
qed

lemma checkbox_switch_ok [inv_intros]:
  "checkbox_ok w \<Longrightarrow> checkbox_ok (checkbox_enable w)" "checkbox_ok w \<Longrightarrow> checkbox_ok (checkbox_disable w)"
  by (auto simp: checkbox_ok_def checkbox_enable_def checkbox_disable_def attr_flag_def attr_set_def removeAttr_def
      icons_show_def list_all_iff elem_disabled_def addClass_def removeClass_def)

lemma checkbox_toggle_ok [inv_intros]: "checkbox_ok w \<Longrightarrow> checkbox_ok (checkbox_toggle w)"
proof -
  have "checkbox_ok w \<Longrightarrow> checkbox_ok (fold checkbox_click is w)" for "is"
    by (induction "is" arbitrary: w) (simp_all add: checkbox_click_ok)
  then show "checkbox_ok w \<Longrightarrow> ?thesis" by (simp add: checkbox_toggle_def)
qed

lemma new_checkbox_ok: "length (ckd_chk d) = 1 \<Longrightarrow> checkbox_ok (new_checkbox d ob)"
proof -
  assume "length (ckd_chk d) = 1"
  then obtain e where "ckd_chk d = [e]" by (cases "ckd_chk d") auto
  with setState_icons [of "[e]" "\<lparr>ck_icon = ckd_icon d, ck_chk = ckd_chk d\<rparr>"] show ?thesis
    by (simp add: checkbox_ok_def new_checkbox_def)
qed

interpretation checkbox: widget new_checkbox checkbox_call "\<lambda>d. length (ckd_chk d) = 1" "\<lambda>ob. True" checkbox_ok
  by unfold_locales (simp_all add: new_checkbox_ok checkbox_call_def inv_intros)

interpretation checkbox_clicks: step_system "\<lambda>w i. checkbox_click i w" checkbox_ok
  by unfold_locales (rule checkbox_click_ok)

interpretation checkbox_switch: switchable checkbox_enable checkbox_disable
  "\<lambda>w. list_all (\<lambda>e. \<not> elem_disabled e) (ck_chk w)" "\<lambda>w. list_all elem_disabled (ck_chk w)"
  "\<lambda>w. map el_checked (ck_chk w)"
  by unfold_locales (simp_all add: checkbox_enable_def checkbox_disable_def attr_flag_def switch_lemmas,
      simp_all add: attr_set_def removeAttr_def)

subsection \<open>Radio buttons\<close>

text \<open>
  Radio buttons act on each other, so the state is the page's list of them: the name of the group, the native input,
  and the icon next to it.
\<close>

record radio =
  ra_name :: "string option"
  ra_input :: elem
  ra_icon :: elem

type_synonym radios = "radio list"

definition radio_setState :: "radio \<Rightarrow> radio" where
  "radio_setState r =
     (let checked = el_checked (ra_input r);
          disabled = elem_disabled (ra_input r);
          icon = (if checked then elem_add_class ''checked'' (ra_icon r) else ra_icon r);
          icon = (if disabled then elem_add_class ''disabled'' icon else icon)
      in r\<lparr>ra_icon := icon\<rparr>)"

text \<open>\<open>$('input[name=' + groupName + ']').next().removeClass('checked')\<close>; without a name it matches nothing.\<close>

definition radio_resetGroup :: "string option \<Rightarrow> radios \<Rightarrow> radios" where
  "radio_resetGroup groupName rs =
     map (\<lambda>r. if groupName \<noteq> None \<and> ra_name r = groupName
              then r\<lparr>ra_icon := elem_remove_class ''checked'' (ra_icon r)\<rparr> else r) rs"

definition radio_at :: "nat \<Rightarrow> (radio \<Rightarrow> radio) \<Rightarrow> radios \<Rightarrow> radios" where
  "radio_at i f rs = (case js_nth rs i of None \<Rightarrow> rs | Some r \<Rightarrow> rs[i := f r])"

definition radio_itemchecked :: "nat \<Rightarrow> radios \<Rightarrow> radios" where
  "radio_itemchecked i rs =
     (case js_nth rs i of
        None \<Rightarrow> rs
      | Some r \<Rightarrow> radio_at i radio_setState (radio_resetGroup (ra_name r) rs))"

definition radio_enable :: "radio \<Rightarrow> radio" where
  "radio_enable r =
     r\<lparr>ra_input := hd (attr_flag ''disabled'' False [ra_input r]), ra_icon := elem_remove_class ''disabled'' (ra_icon r)\<rparr>"

definition radio_disable :: "radio \<Rightarrow> radio" where
  "radio_disable r =
     r\<lparr>ra_input := hd (attr_flag ''disabled'' True [ra_input r]), ra_icon := elem_add_class ''disabled'' (ra_icon r)\<rparr>"

text \<open>The constructor only sets the state from the native input.\<close>

definition new_radio :: "radio \<Rightarrow> unit option \<Rightarrow> radio" where
  "new_radio r options = radio_setState r"

text \<open>\<open>radio_call\<close> holds the methods of one button; \<open>resetGroup\<close> and \<open>itemchecked\<close> act on the page.\<close>

text \<open>The browser's part: a click on an enabled, unchecked radio button checks it, unchecks its group, and fires
  \<open>change\<close> there.\<close>

definition same_group :: "radio \<Rightarrow> radio \<Rightarrow> bool" where
  "same_group r s \<longleftrightarrow> ra_name r \<noteq> None \<and> ra_name s = ra_name r"

definition browser_check :: "nat \<Rightarrow> radio \<Rightarrow> radios \<Rightarrow> radios" where
  "browser_check i r rs =
     (map (\<lambda>s. if same_group r s then s\<lparr>ra_input := (ra_input s)\<lparr>el_checked := False\<rparr>\<rparr> else s) rs)
       [i := r\<lparr>ra_input := (ra_input r)\<lparr>el_checked := True\<rparr>\<rparr>]"

definition radio_click :: "radios \<Rightarrow> nat \<Rightarrow> radios" where
  "radio_click rs i =
     (case js_nth rs i of
        None \<Rightarrow> rs
      | Some r \<Rightarrow>
          if elem_disabled (ra_input r) \<or> el_checked (ra_input r) then rs
          else radio_itemchecked i (browser_check i r rs))"

definition radio_call :: "radio \<Rightarrow> string \<Rightarrow> jval \<Rightarrow> radio \<times> (js_error + unit option)" where
  "radio_call r m v =
     (if m = ''enable'' then (radio_enable r, Inr None)
      else if m = ''disable'' then (radio_disable r, Inr None)
      else (r, Inl (TypeError m)))"

definition radio_plugin ::
  "unit plugin_arg \<Rightarrow> jval \<Rightarrow> (radio, radio) host list \<Rightarrow> (radio, radio) host list \<times> (js_error + unit option)" where
  "radio_plugin opt v hs = plugin new_radio radio_call opt v hs"

definition radio_data_api :: "(radio, radio) host list \<Rightarrow> (radio, radio) host list" where
  "radio_data_api hs = map (data_api new_radio ()) hs"

definition icon_checked :: "radio \<Rightarrow> bool" where
  "icon_checked r = elem_has_class ''checked'' (ra_icon r)"

definition radio_ok :: "radio \<Rightarrow> bool" where
  "radio_ok r \<longleftrightarrow> icon_checked r = el_checked (ra_input r)"

lemma radio_at_nth:
  "k < length rs \<Longrightarrow> radio_at i f rs ! k = (if k = i then f (rs ! k) else rs ! k) \<and> length (radio_at i f rs) = length rs"
  by (simp add: radio_at_def js_nth_def nth_list_update)

lemma radio_setState_fields [simp]:
  "ra_name (radio_setState r) = ra_name r" "ra_input (radio_setState r) = ra_input r"
  "icon_checked (radio_setState r) = (el_checked (ra_input r) \<or> icon_checked r)"
  by (simp_all add: radio_setState_def icon_checked_def Let_def)

lemma radio_click_nth:
  assumes "i < length rs" "\<not> elem_disabled (ra_input (rs ! i))" "\<not> el_checked (ra_input (rs ! i))" "k < length rs"
  shows "length (radio_click rs i) = length rs \<and> ra_name (radio_click rs i ! k) = ra_name (rs ! k) \<and>
    el_checked (ra_input (radio_click rs i ! k)) =
      (k = i \<or> el_checked (ra_input (rs ! k)) \<and> \<not> same_group (rs ! i) (rs ! k)) \<and>
    icon_checked (radio_click rs i ! k) =
      (k = i \<or> icon_checked (rs ! k) \<and> \<not> same_group (rs ! i) (rs ! k))"
proof -
  let ?r = "rs ! i"
  let ?b = "browser_check i ?r rs"
  let ?g = "radio_resetGroup (ra_name ?r) ?b"
  have c: "radio_click rs i = radio_at i radio_setState ?g"
    using assms(1-3) by (simp add: radio_click_def radio_itemchecked_def js_nth_def browser_check_def nth_list_update)
  have len: "length ?g = length rs" by (simp add: radio_resetGroup_def browser_check_def)
  have g: "ra_name (?g ! k) = ra_name (rs ! k)"
    "el_checked (ra_input (?g ! k)) = (k = i \<or> el_checked (ra_input (rs ! k)) \<and> \<not> same_group ?r (rs ! k))"
    "icon_checked (?g ! k) = (icon_checked (rs ! k) \<and> \<not> same_group ?r (rs ! k))"
    using assms(1,4) by (auto simp: radio_resetGroup_def browser_check_def nth_list_update same_group_def icon_checked_def)
  show ?thesis
    using g radio_at_nth [of k ?g i radio_setState] assms(4) len unfolding c by auto
qed

lemma radio_click_ok: "list_all radio_ok rs \<Longrightarrow> list_all radio_ok (radio_click rs i)"
proof (cases "i < length rs \<and> \<not> elem_disabled (ra_input (rs ! i)) \<and> \<not> el_checked (ra_input (rs ! i))")
  case True
  assume "list_all radio_ok rs"
  with True show ?thesis
    using radio_click_nth [of i rs] by (auto simp: list_all_length radio_ok_def)
next
  case False
  then have "radio_click rs i = rs" by (auto simp: radio_click_def js_nth_def)
  then show "list_all radio_ok rs \<Longrightarrow> ?thesis" by simp
qed

interpretation radio_clicks: step_system radio_click "list_all radio_ok"
  by unfold_locales (rule radio_click_ok)

interpretation radio: widget new_radio radio_call
  "\<lambda>r. icon_checked r \<longrightarrow> el_checked (ra_input r)" "\<lambda>ob. True" radio_ok
  by unfold_locales (auto simp: new_radio_def radio_ok_def radio_call_def radio_enable_def radio_disable_def
      attr_flag_def attr_set_def removeAttr_def, simp_all add: icon_checked_def)

interpretation radio_switch: switchable radio_enable radio_disable
  "\<lambda>r. \<not> elem_disabled (ra_input r)" "\<lambda>r. elem_disabled (ra_input r)" "\<lambda>r. (ra_name r, el_checked (ra_input r), icon_checked r)"
  by unfold_locales (simp_all add: radio_enable_def radio_disable_def attr_flag_def attr_set_def removeAttr_def
      elem_disabled_def icon_checked_def)

subsection \<open>Pill box\<close>

record pillbox =
  pb_items :: jq

definition new_pillbox :: "jq \<Rightarrow> unit option \<Rightarrow> pillbox" where
  "new_pillbox d options = \<lparr>pb_items = d\<rparr>"

definition pillbox_items :: "pillbox \<Rightarrow> jval obj list" where
  "pillbox_items w = map (\<lambda>e. js_extend [(''text'', Str (el_text e))] (el_data e)) (pb_items w)"

text \<open>A click on the \<open>i\<close>-th item removes it from the page.\<close>

definition pillbox_itemclicked :: "nat \<Rightarrow> pillbox \<Rightarrow> pillbox" where
  "pillbox_itemclicked i w = (if i < length (pb_items w) then w\<lparr>pb_items := js_splice i 1 [] (pb_items w)\<rparr> else w)"

definition pillbox_call :: "pillbox \<Rightarrow> string \<Rightarrow> unit \<Rightarrow> pillbox \<times> (js_error + jval option)" where
  "pillbox_call w m v =
     (if m = ''items'' then (w, Inr (Some (Array (map Object (pillbox_items w))))) else (w, Inl (TypeError m)))"

definition pillbox_plugin ::
  "unit plugin_arg \<Rightarrow> (jq, pillbox) host list \<Rightarrow> (jq, pillbox) host list \<times> (js_error + jval option)" where
  "pillbox_plugin opt hs = plugin new_pillbox pillbox_call opt () hs"

definition pillbox_data_api :: "(jq, pillbox) host \<Rightarrow> (jq, pillbox) host" where
  "pillbox_data_api h = data_api new_pillbox () h"

subsection \<open>Properties\<close>

text \<open>The icon of a check box follows the native input: after the constructor and any clicks, toggles and
  enabling or disabling through the plugin, it is marked checked and disabled exactly when the input is.\<close>

lemma checkbox_icon_follows:
  assumes "list_all (\<lambda>d. length (ckd_chk d) = 1) ds"
  shows "list_all (host_ok checkbox_ok (\<lambda>d. length (ckd_chk d) = 1))
      (foldl (\<lambda>hs (a, v). fst (checkbox_plugin a v hs)) (map Bare ds) calls) \<and>
    (checkbox_ok w \<longrightarrow> checkbox_ok (foldl (\<lambda>w i. checkbox_click i w) w clicks))"
proof
  have "list_all (\<lambda>(a, v). checkbox.good_arg a) calls"
    by (auto simp: list_all_iff checkbox.good_arg_def split: plugin_arg.splits)
  moreover have "list_all (host_ok checkbox_ok (\<lambda>d. length (ckd_chk d) = 1)) (map Bare ds)"
    using assms by (simp add: list_all_iff)
  ultimately show "list_all (host_ok checkbox_ok (\<lambda>d. length (ckd_chk d) = 1))
      (foldl (\<lambda>hs (a, v). fst (checkbox_plugin a v hs)) (map Bare ds) calls)"
    unfolding checkbox_plugin_def by (intro checkbox.plugin_runs_sound)
qed (auto intro: checkbox_clicks.run_ok)

lemma checkbox_icon_follows_witness:
  "list_all (host_ok checkbox_ok (\<lambda>d. length (ckd_chk d) = 1))
     (foldl (\<lambda>hs (a, v). fst (checkbox_plugin a v hs)) [Bare \<lparr>ckd_icon = [plain_elem], ckd_chk = [plain_elem]\<rparr>]
       [(PMethod ''toggle'', Undefined), (PMethod ''disable'', Undefined)])"
  using checkbox_icon_follows [of "[\<lparr>ckd_icon = [plain_elem], ckd_chk = [plain_elem]\<rparr>]"
      "[(PMethod ''toggle'', Undefined), (PMethod ''disable'', Undefined)]"] by simp

text \<open>In a radio group the icons follow the inputs through any clicks, and a click on an enabled button leaves it
  as the one checked button, and the one checked icon, of its group.\<close>

lemma radio_group_exclusive:
  assumes "list_all radio_ok rs"
  shows "list_all radio_ok (foldl radio_click rs is) \<and>
    (i < length rs \<and> \<not> elem_disabled (ra_input (rs ! i)) \<and> \<not> el_checked (ra_input (rs ! i)) \<longrightarrow>
      icon_checked (radio_click rs i ! i) \<and>
      (\<forall>k < length rs. k \<noteq> i \<longrightarrow> same_group (rs ! i) (rs ! k) \<longrightarrow>
         \<not> icon_checked (radio_click rs i ! k) \<and> \<not> el_checked (ra_input (radio_click rs i ! k))))"
  using radio_clicks.run_ok [OF assms] radio_click_nth [of i rs] by auto

definition ex_radio :: "bool \<Rightarrow> radio" where
  "ex_radio b = new_radio \<lparr>ra_name = Some ''size'', ra_input = plain_elem\<lparr>el_checked := b\<rparr>, ra_icon = plain_elem\<rparr> None"

lemma radio_group_exclusive_example:
  "list_all radio_ok (foldl radio_click [ex_radio True, ex_radio False] [1, 0])"
proof -
  have "list_all radio_ok [ex_radio True, ex_radio False]"
    by (simp add: radio_ok_def ex_radio_def new_radio_def) (simp add: icon_checked_def plain_elem_def elem_has_class_def)
  from radio_group_exclusive [OF this] show ?thesis by blast
qed

lemma pillbox_click_items:
  "pillbox_items (pillbox_itemclicked i w) =
     (if i < length (pb_items w) then take i (pillbox_items w) @ drop (i + 1) (pillbox_items w) else pillbox_items w)"
  by (simp add: pillbox_items_def pillbox_itemclicked_def js_splice_def take_map drop_map)

end
