(* ===== verification/Json_Text.thy ===== *)
theory Json_Text
  imports Js_Number
begin

text \<open>
  The text level of \<open>js/json2.js\<close>. A JavaScript string is the list of its 16-bit code units (\<open>units\<close>). Here are the
  character classes \<open>cx\<close> and \<open>escapable\<close>, \<open>quote\<close>, the replacement of dangerous characters with which \<open>JSON.parse\<close>
  starts, and the three regular-expression replacements and the final test by which it decides that a text is safe to
  evaluate, each written as the left-to-right scan that the regular expression describes.
\<close>

subsection \<open>Code units\<close>

type_synonym units = "nat list"

definition ascii :: "string \<Rightarrow> units" where
  "ascii s = map of_char s"

lemma ascii_append [simp]: "ascii (a @ b) = ascii a @ ascii b"
  by (simp add: ascii_def)

lemma ascii_simps [simp]: "ascii [] = []" "ascii (c # s) = of_char c # ascii s"
  by (simp_all add: ascii_def)

text \<open>White space of the regular expression class \<open>\s\<close>.\<close>

definition is_ws :: "nat \<Rightarrow> bool" where
  "is_ws u \<longleftrightarrow> (9 \<le> u \<and> u \<le> 13) \<or> u = 32 \<or> u = 160 \<or> u = 5760 \<or> (8192 \<le> u \<and> u \<le> 8202) \<or> u = 8232 \<or> u = 8233 \<or>
     u = 8239 \<or> u = 8287 \<or> u = 12288 \<or> u = 65279"

definition is_digit_unit :: "nat \<Rightarrow> bool" where
  "is_digit_unit u \<longleftrightarrow> 48 \<le> u \<and> u \<le> 57"

text \<open>The characters that a text shows to the number scanner: units above 255 are white space or stop it.\<close>

definition unit_char :: "nat \<Rightarrow> char" where
  "unit_char u = (if u < 256 then char_of u else if is_ws u then CHR '' '' else CHR ''?'')"

definition unit_chars :: "units \<Rightarrow> string" where
  "unit_chars us = map unit_char us"

lemma unit_char_ascii [simp]: "unit_char (of_char c) = c"
  by (simp add: unit_char_def)

lemma unit_chars_append [simp]: "unit_chars (a @ b) = unit_chars a @ unit_chars b"
  by (simp add: unit_chars_def)

lemma unit_chars_ascii [simp]: "unit_chars (ascii s) = s"
  by (induction s) (simp_all add: unit_chars_def)

text \<open>The longest number literal at the front of a text.\<close>

definition scan_number :: "units \<Rightarrow> (dec \<times> units) option" where
  "scan_number us =
     (case scan_num (unit_chars us) of
        None \<Rightarrow> None
      | Some (d, r) \<Rightarrow> Some (d, drop (length us - length r) us))"

subsection \<open>Character classes and quoting\<close>

definition in_cx :: "nat \<Rightarrow> bool" where
  "in_cx u \<longleftrightarrow> u = 0 \<or> u = 0xad \<or> (0x600 \<le> u \<and> u \<le> 0x604) \<or> u = 0x70f \<or> u = 0x17b4 \<or> u = 0x17b5 \<or>
     (0x200c \<le> u \<and> u \<le> 0x200f) \<or> (0x2028 \<le> u \<and> u \<le> 0x202f) \<or> (0x2060 \<le> u \<and> u \<le> 0x206f) \<or> u = 0xfeff \<or>
     (0xfff0 \<le> u \<and> u \<le> 0xffff)"

definition in_escapable :: "nat \<Rightarrow> bool" where
  "in_escapable u \<longleftrightarrow> u = 92 \<or> u = 34 \<or> u \<le> 0x1f \<or> (0x7f \<le> u \<and> u \<le> 0x9f) \<or> u = 0xad \<or> (0x600 \<le> u \<and> u \<le> 0x604) \<or>
     u = 0x70f \<or> u = 0x17b4 \<or> u = 0x17b5 \<or> (0x200c \<le> u \<and> u \<le> 0x200f) \<or> (0x2028 \<le> u \<and> u \<le> 0x202f) \<or>
     (0x2060 \<le> u \<and> u \<le> 0x206f) \<or> u = 0xfeff \<or> (0xfff0 \<le> u \<and> u \<le> 0xffff)"

text \<open>The table of substitutions.\<close>

definition meta :: "nat \<Rightarrow> units option" where
  "meta u =
     (if u = 8 then Some [92, 98]
      else if u = 9 then Some [92, 116]
      else if u = 10 then Some [92, 110]
      else if u = 12 then Some [92, 102]
      else if u = 13 then Some [92, 114]
      else if u = 34 then Some [92, 34]
      else if u = 92 then Some [92, 92]
      else None)"

text \<open>\<open>'\\u' + ('0000' + a.charCodeAt(0).toString(16)).slice(-4)\<close>\<close>

definition hex_unit :: "nat \<Rightarrow> nat" where
  "hex_unit d = (if d < 10 then 48 + d else 87 + d)"

definition hex4 :: "nat \<Rightarrow> units" where
  "hex4 u = map hex_unit [u div 4096 mod 16, u div 256 mod 16, u div 16 mod 16, u mod 16]"

definition unicode_escape :: "nat \<Rightarrow> units" where
  "unicode_escape u = [92, 117] @ hex4 u"

definition escape_unit :: "nat \<Rightarrow> units" where
  "escape_unit u =
     (if in_escapable u then (case meta u of Some c \<Rightarrow> c | None \<Rightarrow> unicode_escape u) else [u])"

definition quote :: "units \<Rightarrow> units" where
  "quote s =
     (if list_ex in_escapable s then [34] @ concat (map escape_unit s) @ [34] else [34] @ s @ [34])"

text \<open>The first stage of \<open>JSON.parse\<close>.\<close>

definition replace_cx :: "units \<Rightarrow> units" where
  "replace_cx s = (if list_ex in_cx s then concat (map (\<lambda>u. if in_cx u then unicode_escape u else [u]) s) else s)"

subsection \<open>The second stage: is the text safe?\<close>

definition is_hex :: "nat \<Rightarrow> bool" where
  "is_hex u \<longleftrightarrow> (48 \<le> u \<and> u \<le> 57) \<or> (97 \<le> u \<and> u \<le> 102) \<or> (65 \<le> u \<and> u \<le> 70)"

definition simple_escape :: "nat \<Rightarrow> bool" where
  "simple_escape u \<longleftrightarrow> u \<in> {34, 92, 47, 98, 102, 110, 114, 116}"

text \<open>\<open>/\\(?:["\\\/bfnrt]|u[0-9a-fA-F]{4})/g\<close> replaced by \<open>@\<close>\<close>

fun strip_escapes :: "units \<Rightarrow> units" where
  "strip_escapes (u # v # us) =
     (if u = 92 then
        (if simple_escape v then 64 # strip_escapes us
         else if v = 117 \<and> 4 \<le> length us \<and> list_all is_hex (take 4 us) then 64 # strip_escapes (drop 4 us)
         else u # strip_escapes (v # us))
      else u # strip_escapes (v # us))"
| "strip_escapes us = us"

text \<open>The rest of a string literal \<open>[^"\\\n\r]*"\<close> after its opening quote.\<close>

fun close_string :: "units \<Rightarrow> units option" where
  "close_string [] = None"
| "close_string (u # us) =
     (if u = 34 then Some us else if u = 92 \<or> u = 10 \<or> u = 13 then None else close_string us)"

text \<open>A value token at the front of the text, in the order of the alternatives; the result is what follows it.\<close>

definition simple_token :: "units \<Rightarrow> units option" where
  "simple_token us =
     (case us of
        [] \<Rightarrow> None
      | u # t \<Rightarrow>
          (case (if u = 34 then close_string t else None) of
             Some r \<Rightarrow> Some r
           | None \<Rightarrow>
               if is_prefix_of (ascii ''true'') us then Some (drop 4 us)
               else if is_prefix_of (ascii ''false'') us then Some (drop 5 us)
               else if is_prefix_of (ascii ''null'') us then Some (drop 4 us)
               else map_option snd (scan_number us)))"

lemma close_string_shorter: "close_string us = Some r \<Longrightarrow> length r < length us"
  by (induction us arbitrary: r) (auto split: if_splits intro: less_SucI)

lemma scan_number_shorter: "scan_number us = Some (d, r) \<Longrightarrow> length r < length us"
proof -
  assume a: "scan_number us = Some (d, r)"
  then obtain q where q: "scan_num (unit_chars us) = Some (d, q)" "r = drop (length us - length q) us"
    by (auto simp: scan_number_def split: option.splits)
  have frac: "length u \<le> length s" if "scan_frac s = (fs, u)" for s fs u
    using that length_dropWhile_le [of is_digit] by (cases s) (auto simp: scan_frac_def le_SucI split: if_splits)
  have ex: "length v \<le> length s" if "scan_exp s = (x, v)" for s x v
  proof (cases s)
    case (Cons c t)
    have "length (dropWhile is_digit (tl t)) \<le> length t" "length (dropWhile is_digit t) \<le> length t"
      using length_dropWhile_le [of is_digit "tl t"] length_dropWhile_le [of is_digit t] by simp_all
    with that Cons show ?thesis by (auto simp: scan_exp_def Let_def split: if_splits)
  qed (use that in \<open>simp add: scan_exp_def\<close>)
  have "length q < length (unit_chars us)"
  proof -
    let ?s = "unit_chars us"
    let ?t = "if ?s \<noteq> [] \<and> hd ?s = CHR ''-'' then tl ?s else ?s"
    have ds: "takeWhile is_digit ?t \<noteq> []" using q(1) by (auto simp: scan_num_def Let_def split: if_splits)
    obtain fs u where u: "scan_frac (dropWhile is_digit ?t) = (fs, u)" by fastforce
    obtain x v where v: "scan_exp u = (x, v)" by fastforce
    have "q = v" using q(1) ds u v by (simp add: scan_num_def Let_def)
    moreover have "length (dropWhile is_digit ?t) < length ?t"
    proof -
      have "length ?t = length (takeWhile is_digit ?t) + length (dropWhile is_digit ?t)"
        by (metis length_append takeWhile_dropWhile_id)
      with ds show ?thesis by (cases "takeWhile is_digit ?t") auto
    qed
    moreover have "length ?t \<le> length ?s" by simp
    ultimately show ?thesis using frac [OF u] ex [OF v] by simp
  qed
  then show ?thesis using q(2) by (simp add: unit_chars_def)
qed

lemma simple_token_shorter: "simple_token us = Some r \<Longrightarrow> length r < length us"
proof (cases us)
  case (Cons u t)
  assume "simple_token us = Some r"
  with Cons show ?thesis
    using close_string_shorter [of t r] scan_number_shorter [of us]
    by (auto simp: simple_token_def is_prefix_of_iff split: option.splits if_splits)
qed (simp add: simple_token_def)

function (sequential) strip_tokens :: "units \<Rightarrow> units" where
  "strip_tokens [] = []"
| "strip_tokens (u # us) =
     (case simple_token (u # us) of
        Some r \<Rightarrow> 93 # strip_tokens r
      | None \<Rightarrow> u # strip_tokens us)"
  by pat_completeness auto
termination
  by (relation "measure length") (auto dest: simple_token_shorter)

text \<open>\<open>(?:\s*\[)+\<close> at the front of a text, as far as it goes.\<close>

function (sequential) open_brackets :: "units \<Rightarrow> units option" where
  "open_brackets us =
     (case dropWhile is_ws us of
        [] \<Rightarrow> None
      | u # r \<Rightarrow> if u = 91 then (case open_brackets r of Some r' \<Rightarrow> Some r' | None \<Rightarrow> Some r) else None)"
  by pat_completeness auto
termination
proof (relation "measure length")
  fix us u r
  assume "dropWhile is_ws us = u # r"
  then show "(r, us) \<in> measure length"
    using length_dropWhile_le [of is_ws us] by simp
qed simp

declare open_brackets.simps [simp del]

lemma open_brackets_shorter: "open_brackets us = Some r \<Longrightarrow> length r < length us"
proof (induction us arbitrary: r rule: open_brackets.induct)
  case (1 us)
  from 1(2) obtain q where q: "dropWhile is_ws us = 91 # q" "r = q \<or> open_brackets q = Some r"
    by (subst (asm) open_brackets.simps) (auto split: list.splits if_splits option.splits)
  have "length q < length us" using q(1) length_dropWhile_le [of is_ws us] by simp
  with q 1(1) show ?case by fastforce
qed

text \<open>\<open>/(?:^|:|,)(?:\s*\[)+/g\<close> deleted; the flag says that the scan is at the start of the text.\<close>

function (sequential) strip_brackets :: "bool \<Rightarrow> units \<Rightarrow> units" where
  "strip_brackets start us =
     (case (if start then open_brackets us else None) of
        Some r \<Rightarrow> strip_brackets False r
      | None \<Rightarrow>
          (case us of
             [] \<Rightarrow> []
           | u # t \<Rightarrow>
               (case (if u = 58 \<or> u = 44 then open_brackets t else None) of
                  Some r \<Rightarrow> strip_brackets False r
                | None \<Rightarrow> u # strip_brackets False t)))"
  by pat_completeness auto
termination
  by (relation "measure (\<lambda>(b, us). length us)")
    (auto dest!: open_brackets_shorter split: if_splits)

declare strip_brackets.simps [simp del]

definition bare_unit :: "nat \<Rightarrow> bool" where
  "bare_unit u \<longleftrightarrow> u \<in> {93, 44, 58, 123, 125} \<or> is_ws u"

definition looks_safe :: "units \<Rightarrow> bool" where
  "looks_safe s = list_all bare_unit (strip_brackets True (strip_tokens (strip_escapes s)))"

end
