(* ===== verification/Json_Roundtrip.thy ===== *)
theory Json_Roundtrip
  imports Json2
begin

text \<open>
  The correctness of \<open>js/json2.js\<close>: the printed form of a value, on the level of the text, of the safety test, of the
  tokens and of the evaluated value, and from these the round trip; what a text that passes the safety test can contain;
  and what \<open>JSON.parse\<close> accepts beyond JSON.
\<close>

subsection \<open>Plain values and their texts\<close>

definition plain_text :: "units \<Rightarrow> bool" where
  "plain_text s = list_all (\<lambda>u. u < 65536) s"

fun plain :: "json \<Rightarrow> bool" where
  "plain JNull = True"
| "plain (JBool b) = True"
| "plain (JNum x) = (xfinite x \<and> xcanonical x)"
| "plain (JStr s) = plain_text s"
| "plain (JArr vs) = list_all plain vs"
| "plain (JObj kvs) =
     (distinct (map fst kvs) \<and>
      list_all (\<lambda>(k, v). plain_text k \<and> k \<noteq> ascii ''__proto__'' \<and> plain v) kvs)"
| "plain _ = False"

fun jtext :: "units \<Rightarrow> units \<Rightarrow> json \<Rightarrow> units" where
  "jtext ind mind (JBool b) = ascii (if b then ''true'' else ''false'')"
| "jtext ind mind (JNum x) = ascii (xnum_str x)"
| "jtext ind mind (JStr s) = quote s"
| "jtext ind mind (JArr vs) = wrap 91 93 (mind @ ind) mind (map (jtext ind (mind @ ind)) vs)"
| "jtext ind mind (JObj kvs) =
     wrap 123 125 (mind @ ind) mind (map (\<lambda>(k, v). member_text (mind @ ind) k (jtext ind (mind @ ind) v)) kvs)"
| "jtext ind mind _ = ascii ''null''"

fun jdepth :: "json \<Rightarrow> nat" where
  "jdepth (JArr vs) = Suc (fold max (map jdepth vs) 0)"
| "jdepth (JObj kvs) = Suc (fold max (map (\<lambda>(k, v). jdepth v) kvs) 0)"
| "jdepth _ = 1"

lemma fold_max_le: "fold max xs n \<le> (m :: nat) \<Longrightarrow> x \<in> set xs \<Longrightarrow> x \<le> m"
proof (induction xs arbitrary: n)
  case (Cons y ys)
  have mono: "k \<le> fold max zs k" for zs :: "nat list" and k
  proof (induction zs arbitrary: k)
    case (Cons z zs)
    from Cons [of "max z k"] show ?case by simp
  qed simp
  show ?case
  proof (cases "x = y")
    case True
    then show ?thesis using mono [of "max y n" ys] Cons.prems(1) by simp
  next
    case False
    with Cons show ?thesis by auto
  qed
qed simp

lemma all_some_map: "(\<And>x. x \<in> set xs \<Longrightarrow> g x = Some (h x)) \<Longrightarrow> all_some (map g xs) = Some (map h xs)"
  by (induction xs) auto

lemma member_texts_some: "member_texts gap ks (map (\<lambda>k. Some (g k)) ks) = map (\<lambda>k. member_text gap k (g k)) ks"
  by (induction ks) simp_all

lemma str_plain:
  "plain v \<Longrightarrow> jdepth v \<le> n \<Longrightarrow> str n NoReplacer ind mind key holder v = Some (Some (jtext ind mind v))"
proof (induction v arbitrary: n mind key holder rule: jdepth.induct)
  case (1 vs)
  then obtain m where n: "n = Suc m" by (cases n) auto
  have d: "jdepth e \<le> m" if "e \<in> set vs" for e
    using 1(3) that fold_max_le [of "map jdepth vs" 0 m "jdepth e"] by (simp add: n)
  have "str m NoReplacer ind (mind @ ind) (KIndex i) (JArr vs) e = Some (Some (jtext ind (mind @ ind) e))"
    if "(i, e) \<in> set (zip [0..<length vs] vs)" for i e
  proof -
    have "e \<in> set vs" using that by (auto dest: set_zip_rightD)
    with 1 d show ?thesis by (auto simp: list_all_iff)
  qed
  then have "all_some (map (\<lambda>(i, e). str m NoReplacer ind (mind @ ind) (KIndex i) (JArr vs) e) (zip [0..<length vs] vs)) =
      Some (map (\<lambda>(i, e). Some (jtext ind (mind @ ind) e)) (zip [0..<length vs] vs))"
    by (intro all_some_map) auto
  moreover have "map (\<lambda>(i, e). Some (jtext ind (mind @ ind) e)) (zip [0..<length vs] vs) = map (\<lambda>e. Some (jtext ind (mind @ ind) e)) vs"
    by (rule nth_equalityI) auto
  ultimately show ?case
    by (simp add: n replace_value_def call_toJSON_def comp_def Let_def)
next
  case (2 kvs)
  then obtain m where n: "n = Suc m" by (cases n) auto
  have d: "jdepth v \<le> m" if "(k, v) \<in> set kvs" for k v
    using 2(3) that fold_max_le [of "map (\<lambda>(k, v). jdepth v) kvs" 0 m "jdepth v"] by (force simp: n)
  have "str m NoReplacer ind (mind @ ind) (KName k) (JObj kvs) (own_value kvs k) =
      Some (Some (jtext ind (mind @ ind) (own_value kvs k)))" if "k \<in> set (map fst kvs)" for k
  proof -
    from that obtain v where v: "(k, v) \<in> set kvs" by auto
    then have "own_value kvs k = v" using 2(2) by (simp add: own_value_def)
    moreover have "plain v" using 2(2) v by (auto simp: list_all_iff)
    ultimately show ?thesis using 2(1) [OF v refl] d [OF v] by simp
  qed
  then have "all_some (map (\<lambda>k. str m NoReplacer ind (mind @ ind) (KName k) (JObj kvs) (own_value kvs k)) (map fst kvs)) =
      Some (map (\<lambda>k. Some (jtext ind (mind @ ind) (own_value kvs k))) (map fst kvs))"
    by (rule all_some_map)
  moreover have "map (\<lambda>k. member_text (mind @ ind) k (jtext ind (mind @ ind) (own_value kvs k))) (map fst kvs) =
      map (\<lambda>(k, v). member_text (mind @ ind) k (jtext ind (mind @ ind) v)) kvs"
    unfolding map_map using 2(2) by (intro map_cong [OF refl]) (auto simp: own_value_def)
  ultimately show ?case
    by (simp add: n replace_value_def call_toJSON_def selected_keys_def member_texts_some Let_def del: map_map)
qed (case_tac n, simp, auto simp: replace_value_def call_toJSON_def)+

subsection \<open>Strings\<close>

lemma quote_eq: "quote s = 34 # concat (map escape_unit s) @ [34]"
proof (cases "list_ex in_escapable s")
  case True
  then show ?thesis by (simp add: quote_def)
next
  case False
  then have "concat (map escape_unit s) = s"
    by (induction s) (simp_all add: escape_unit_def)
  with False show ?thesis by (simp add: quote_def)
qed

lemma hex_unit_facts: "d < 16 \<Longrightarrow> is_hex (hex_unit d) \<and> hex_digit (hex_unit d) = d"
  by (auto simp: hex_unit_def is_hex_def hex_digit_def)

lemma hex4_facts: "u < 65536 \<Longrightarrow> length (hex4 u) = 4 \<and> list_all is_hex (hex4 u) \<and> hex4_value (hex4 u) = u"
proof -
  assume "u < 65536"
  have "16 * (16 * (16 * (u div 4096 mod 16) + u div 256 mod 16) + u div 16 mod 16) + u mod 16 = u"
  proof -
    have "u div 4096 mod 16 = u div 4096" using \<open>u < 65536\<close> by simp
    moreover have "16 * (u div 4096) + u div 256 mod 16 = u div 256"
      using div_mult2_eq [of u 256 16] by simp
    moreover have "16 * (u div 256) + u div 16 mod 16 = u div 16"
      using div_mult2_eq [of u 16 16] by simp
    ultimately show ?thesis by simp
  qed
  moreover have "u div 4096 mod 16 = u div 4096" "u div 4096 < 16" using \<open>u < 65536\<close> by simp_all
  ultimately show ?thesis by (simp add: hex4_def hex4_value_def hex_unit_facts)
qed

text \<open>The units of an escaped string, one at a time.\<close>

lemma escape_cases:
  obtains (plain) "escape_unit u = [u]" "u \<noteq> 92" "u \<noteq> 34" "31 < u" "\<not> in_cx u"
  | (simple) e where "escape_unit u = [92, e]" "simple_escape e" "escaped_unit e = u"
  | (unicode) "escape_unit u = [92, 117] @ hex4 u"
proof (cases "in_escapable u")
  case False
  then show thesis by (intro plain) (auto simp: escape_unit_def in_escapable_def in_cx_def)
next
  case True
  show thesis
  proof (cases "meta u")
    case None
    with True show thesis by (intro unicode) (simp add: escape_unit_def unicode_escape_def)
  next
    case (Some c)
    then have "c = [92, 98] \<and> u = 8 \<or> c = [92, 116] \<and> u = 9 \<or> c = [92, 110] \<and> u = 10 \<or> c = [92, 102] \<and> u = 12 \<or>
        c = [92, 114] \<and> u = 13 \<or> c = [92, 34] \<and> u = 34 \<or> c = [92, 92] \<and> u = 92"
      by (simp add: meta_def split: if_splits)
    then obtain e where "c = [92, e]" "simple_escape e" "escaped_unit e = u"
      by (elim disjE conjE) (simp_all add: simple_escape_def escaped_unit_def)
    with True Some show thesis by (intro simple [of e]) (simp_all add: escape_unit_def)
  qed
qed

lemma simple_not_u: "simple_escape e \<Longrightarrow> e \<noteq> 117"
  by (auto simp: simple_escape_def)

lemma drop_hex4: "u < 65536 \<Longrightarrow> take 4 (hex4 u @ r) = hex4 u \<and> drop 4 (hex4 u @ r) = r"
  using hex4_facts by simp

lemma lex_string_escape:
  assumes "u < 65536" and "r \<noteq> []"
  shows "lex_string (escape_unit u @ r) = map_option (\<lambda>(s, t). (u # s, t)) (lex_string r)"
proof (cases rule: escape_cases [of u])
  case plain
  with assms(2) show ?thesis by (cases r) auto
next
  case (simple e)
  then show ?thesis by simp
next
  case unicode
  have "\<not> simple_escape 117" by (simp add: simple_escape_def)
  with unicode drop_hex4 [OF assms(1), of r] hex4_facts [OF assms(1)] show ?thesis by simp
qed

lemma lex_string_quote:
  "plain_text s \<Longrightarrow> lex_string (concat (map escape_unit s) @ 34 # t) = Some (s, t)"
proof (induction s)
  case Nil
  then show ?case by (cases t) auto
next
  case (Cons u s)
  then show ?case using lex_string_escape [of u "concat (map escape_unit s) @ 34 # t"] by (simp add: plain_text_def)
qed

lemma lex_quote: "plain_text s \<Longrightarrow> lex (quote s @ t) = map_option (Cons (TStr s)) (lex t)"
  by (simp add: quote_eq lex_string_quote is_ws_def)

text \<open>In the safety test an escaped string becomes one token.\<close>

definition masked :: "nat \<Rightarrow> nat" where
  "masked u = (if in_escapable u then 64 else u)"

lemma strip_escapes_skip: "u \<noteq> 92 \<Longrightarrow> strip_escapes (u # t) = u # strip_escapes t"
  by (cases t) simp_all

lemma strip_escapes_append: "92 \<notin> set a \<Longrightarrow> strip_escapes (a @ t) = a @ strip_escapes t"
  by (induction a) (simp_all add: strip_escapes_skip)

lemma strip_escapes_unit:
  assumes "u < 65536"
  shows "\<exists>m. strip_escapes (escape_unit u @ r) = m # strip_escapes r \<and> m \<notin> {34, 92, 10, 13}"
proof (cases rule: escape_cases [of u])
  case plain
  then show ?thesis using strip_escapes_skip [of u r] by auto
next
  case (simple e)
  then show ?thesis by simp
next
  case unicode
  have "\<not> simple_escape 117" by (simp add: simple_escape_def)
  with unicode drop_hex4 [OF assms, of r] hex4_facts [OF assms] show ?thesis by simp
qed

lemma strip_escapes_string:
  "plain_text s \<Longrightarrow> \<exists>m. strip_escapes (concat (map escape_unit s) @ 34 # t) = m @ 34 # strip_escapes t \<and>
     list_all (\<lambda>u. u \<notin> {34, 92, 10, 13}) m"
proof (induction s)
  case Nil
  then show ?case by (simp add: strip_escapes_skip)
next
  case (Cons u s)
  then obtain m where m: "strip_escapes (concat (map escape_unit s) @ 34 # t) = m @ 34 # strip_escapes t"
    "list_all (\<lambda>u. u \<notin> {34, 92, 10, 13}) m" by (auto simp: plain_text_def)
  have "u < 65536" using Cons.prems by (simp add: plain_text_def)
  from strip_escapes_unit [OF this, of "concat (map escape_unit s) @ 34 # t"]
  obtain x where x: "strip_escapes (escape_unit u @ concat (map escape_unit s) @ 34 # t) =
      x # strip_escapes (concat (map escape_unit s) @ 34 # t)" "x \<notin> {34, 92, 10, 13}" by blast
  have "strip_escapes (concat (map escape_unit (u # s)) @ 34 # t) = (x # m) @ 34 # strip_escapes t"
    using x(1) m(1) by simp
  moreover have "list_all (\<lambda>u. u \<notin> {34, 92, 10, 13}) (x # m)" using x(2) m(2) by simp
  ultimately show ?case by blast
qed

lemma close_string_append: "list_all (\<lambda>u. u \<notin> {34, 92, 10, 13}) m \<Longrightarrow> close_string (m @ 34 # t) = Some t"
  by (induction m) auto

definition strip :: "units \<Rightarrow> units" where
  "strip t = strip_tokens (strip_escapes t)"

lemma strip_quote: "plain_text s \<Longrightarrow> strip (quote s @ t) = 93 # strip t"
proof -
  assume "plain_text s"
  then obtain m where m: "strip_escapes (concat (map escape_unit s) @ 34 # t) = m @ 34 # strip_escapes t"
    "list_all (\<lambda>u. u \<notin> {34, 92, 10, 13}) m" using strip_escapes_string by blast
  have "strip_escapes (quote s @ t) = 34 # m @ 34 # strip_escapes t"
    using m(1) by (simp add: quote_eq strip_escapes_skip)
  then show ?thesis
    using close_string_append [OF m(2)] by (simp add: strip_def simple_token_def)
qed

subsection \<open>Numbers, words and punctuation\<close>

text \<open>What may follow a printed value.\<close>

definition stops :: "units \<Rightarrow> bool" where
  "stops t \<longleftrightarrow> t = [] \<or> hd t \<in> {44, 93, 125, 10}"

lemma nat_digits_hd_pos: "0 < n \<Longrightarrow> hd (nat_digits n) \<noteq> 0"
proof (induction n rule: nat_digits.induct)
  case (1 n)
  show ?case
  proof (cases "n < 10")
    case True
    then show ?thesis using 1(2) by (simp add: nat_digits.simps [of n])
  next
    case False
    then have "0 < n div 10" by simp
    with 1 False show ?thesis by (simp add: nat_digits.simps [of n])
  qed
qed

lemma nat_str_hd_pos: "0 < n \<Longrightarrow> hd (nat_str n) \<noteq> CHR ''0''"
proof -
  assume n: "0 < n"
  have "hd (nat_digits n) < 10" by (rule nat_digits_small [of _ n]) simp
  then have "(of_char (digit_char (hd (nat_digits n))) :: nat) \<noteq> 48"
    using nat_digits_hd_pos [OF n] by (simp add: of_digit_char)
  then have "digit_char (hd (nat_digits n)) \<noteq> CHR ''0''" by auto
  then show ?thesis by (simp add: nat_str_def hd_map)
qed

text \<open>A printed non-negative number: a digit, and no digit after a leading zero.\<close>

definition good_number :: "string \<Rightarrow> bool" where
  "good_number s \<longleftrightarrow> (\<exists>c t. s = c # t \<and> is_digit c \<and> (c = CHR ''0'' \<longrightarrow> t = [] \<or> \<not> is_digit (hd t)))"

lemma good_number_dec_str: "0 \<le> m \<Longrightarrow> good_number (dec_str (Dec m e))"
proof (cases "m = 0")
  case False
  assume "0 \<le> m"
  let ?ds = "nat_str (nat \<bar>m\<bar>)"
  let ?n = "e + int (length ?ds)"
  obtain c t where ct: "?ds = c # t" by (cases ?ds) auto
  then have c: "is_digit c" "c \<noteq> CHR ''0''" using nat_str_hd [of "nat \<bar>m\<bar>"] nat_str_hd_pos [of "nat \<bar>m\<bar>"] False by auto
  have "?ds \<noteq> []" by simp
  then have "good_number (num_body ?ds ?n)"
  proof (cases rule: num_body_cases [where n = ?n])
    case pad
    then show ?thesis using ct c by (simp add: good_number_def mantissa_str_def)
  next
    case point
    then obtain k where "nat ?n = Suc k" by (cases "nat ?n") auto
    then show ?thesis using ct c point by (auto simp: good_number_def mantissa_str_def)
  next
    case small
    then show ?thesis using ct by (auto simp: good_number_def mantissa_str_def is_digit_def)
  next
    case exp
    then show ?thesis using ct c by (simp add: good_number_def mantissa_str_def)
  qed
  with False \<open>0 \<le> m\<close> show ?thesis by (simp add: Let_def)
qed (simp add: good_number_def is_digit_def)

lemma dec_str_neg: "m < 0 \<Longrightarrow> dec_str (Dec m e) = CHR ''-'' # dec_str (Dec (- m) e)"
  by (simp add: Let_def)

lemma stops_num_stop: "stops t \<Longrightarrow> num_stop (unit_chars t)"
  by (cases t) (auto simp: stops_def num_stop_def unit_chars_def unit_char_def is_digit_def char_of_eq_iff)

lemma scan_number_dec_str:
  "canonical d \<Longrightarrow> stops t \<Longrightarrow> scan_number (ascii (dec_str d) @ t) = Some (d, t)"
proof -
  assume a: "canonical d" "stops t"
  have l: "length (ascii (dec_str d) @ t) - length (unit_chars t) = length (ascii (dec_str d))"
    by (simp add: unit_chars_def)
  show ?thesis
    unfolding scan_number_def unit_chars_append unit_chars_ascii scan_num_dec_str [OF a(1) stops_num_stop [OF a(2)]]
      option.case prod.case l by simp
qed

lemma digit_unit: "is_digit_unit (of_char c) \<longleftrightarrow> is_digit c"
  by (simp add: is_digit_unit_def is_digit_def)

lemma digit_unit_facts: "is_digit_unit u \<Longrightarrow> \<not> is_ws u \<and> u \<noteq> 34 \<and> \<not> punct_unit u"
  by (auto simp: is_digit_unit_def is_ws_def punct_unit_def)

lemma zero_char: "of_char c = (48 :: nat) \<Longrightarrow> c = CHR ''0''"
  using of_char_eq_iff [of c "CHR ''0''", where 'a = nat] by simp

lemma lex_number_printed:
  assumes "canonical (Dec m e)" and "0 \<le> m" and "stops t"
  shows "lex_number (ascii (dec_str (Dec m e)) @ t) = Some (Dec m e, t)"
proof -
  note sc = scan_number_dec_str [OF assms(1,3)]
  from good_number_dec_str [OF assms(2), of e] obtain c u where cu: "dec_str (Dec m e) = c # u" "is_digit c"
    "c = CHR ''0'' \<longrightarrow> u = [] \<or> \<not> is_digit (hd u)" by (auto simp: good_number_def)
  have st: "\<not> (t \<noteq> [] \<and> ident_unit (hd t))" "t \<noteq> [] \<Longrightarrow> \<not> is_digit_unit (hd t)"
    using assms(3) by (auto simp: stops_def ident_unit_def is_digit_unit_def)
  show ?thesis
  proof (cases "ascii u @ t")
    case Nil
    with sc cu(1) show ?thesis by (simp add: lex_number_def)
  next
    case (Cons v w)
    have "\<not> (of_char c = (48 :: nat) \<and> is_digit_unit v)"
    proof (cases u)
      case Nil
      with Cons st(2) show ?thesis by auto
    next
      case (Cons x y)
      with \<open>ascii u @ t = v # w\<close> have "v = of_char x" by simp
      moreover have "of_char c = (48 :: nat) \<Longrightarrow> c = CHR ''0''" by (rule zero_char)
      ultimately show ?thesis using cu(3) Cons by (auto simp: digit_unit)
    qed
    with sc cu(1) Cons st(1) show ?thesis by (simp add: lex_number_def)
  qed
qed

lemma lex_printed_nonneg:
  "canonical (Dec m e) \<Longrightarrow> 0 \<le> m \<Longrightarrow> stops t \<Longrightarrow>
   lex (ascii (dec_str (Dec m e)) @ t) = map_option (Cons (TNum (Dec m e))) (lex t)"
proof -
  assume a: "canonical (Dec m e)" "0 \<le> m" "stops t"
  from good_number_dec_str [OF a(2), of e] obtain c u where cu: "dec_str (Dec m e) = c # u" "is_digit c"
    by (auto simp: good_number_def)
  then have "is_digit_unit (of_char c)" by (simp add: digit_unit)
  with digit_unit_facts [OF this] lex_number_printed [OF a] cu show ?thesis by simp
qed

text \<open>Lexing adds tokens in front of those of the rest.\<close>

definition prepend :: "'a list \<Rightarrow> 'a list option \<Rightarrow> 'a list option" where
  "prepend xs r = map_option (\<lambda>ts. xs @ ts) r"

lemma prepend_simps [simp]:
  "prepend [] r = r" "prepend xs (prepend ys r) = prepend (xs @ ys) r" "prepend xs (Some ts) = Some (xs @ ts)"
  by (cases r; simp add: prepend_def)+

lemma map_Cons_prepend: "map_option (Cons x) r = prepend [x] r"
  by (cases r) (simp_all add: prepend_def)

lemma lex_number_value:
  "canonical (Dec m e) \<Longrightarrow> stops t \<Longrightarrow> lex (ascii (dec_str (Dec m e)) @ t) =
     prepend (if m < 0 then [TPunct 45, TNum (Dec (- m) e)] else [TNum (Dec m e)]) (lex t)"
proof (cases "m < 0")
  case True
  assume a: "canonical (Dec m e)" "stops t"
  then have c: "canonical (Dec (- m) e)" using canonical_neg [of "Dec m e"] by simp
  have "lex (ascii (dec_str (Dec m e)) @ t) = prepend [TPunct 45] (lex (ascii (dec_str (Dec (- m) e)) @ t))"
    unfolding dec_str_neg [OF True] by (simp add: is_ws_def punct_unit_def map_Cons_prepend del: dec_str.simps)
  also have "\<dots> = prepend [TPunct 45, TNum (Dec (- m) e)] (lex t)"
    using lex_printed_nonneg [OF c _ a(2)] True by (simp add: map_Cons_prepend del: dec_str.simps)
  finally show ?thesis using True by (simp del: dec_str.simps)
next
  case False
  assume a: "canonical (Dec m e)" "stops t"
  from lex_printed_nonneg [OF a(1) _ a(2)] False show ?thesis by (simp add: map_Cons_prepend del: dec_str.simps)
qed

lemma lex_word:
  assumes "list_all (\<lambda>u. 97 \<le> u \<and> u \<le> 122) w" and "w \<noteq> []" and "stops t"
  shows "lex (w @ t) = prepend [TWord w] (lex t)"
proof -
  from assms(1,2) obtain u w' where w: "w = u # w'" "97 \<le> u" "u \<le> 122" by (cases w) auto
  have "list_all ident_unit w'" using assms(1) w(1) by (auto simp: list_all_iff ident_unit_def)
  moreover have "t = [] \<or> \<not> ident_unit (hd t)" using assms(3) by (auto simp: stops_def ident_unit_def is_digit_unit_def)
  ultimately have "takeWhile ident_unit (w' @ t) = w' \<and> dropWhile ident_unit (w' @ t) = t" by (rule span_all)
  moreover have "\<not> is_ws u" "u \<noteq> 34" "\<not> punct_unit u" "\<not> is_digit_unit u" "ident_unit u"
    using w(2,3) by (auto simp: is_ws_def punct_unit_def is_digit_unit_def ident_unit_def)
  ultimately show ?thesis by (simp add: w(1) map_Cons_prepend)
qed

lemma lex_ws: "list_all is_ws w \<Longrightarrow> lex (w @ t) = lex t"
  by (induction w) simp_all

lemma lex_punct: "punct_unit u \<Longrightarrow> lex (u # t) = prepend [TPunct u] (lex t)"
  by (auto simp: punct_unit_def is_ws_def map_Cons_prepend)

lemma strip_skip: "u \<in> {91, 93, 123, 125, 44, 58} \<or> is_ws u \<Longrightarrow> strip (u # t) = u # strip t"
proof -
  assume u: "u \<in> {91, 93, 123, 125, 44, 58} \<or> is_ws u"
  then have "u \<noteq> 92" "u \<noteq> 34" "u \<noteq> 116" "u \<noteq> 102" "u \<noteq> 110" "\<not> is_digit (unit_char u)" "unit_char u \<noteq> CHR ''-''"
    by (auto simp: is_ws_def unit_char_def is_digit_def char_of_eq_iff take_bit_eq_mod)
  then have "simple_token (u # s) = None" for s
    by (simp add: simple_token_def scan_number_def unit_chars_def scan_num_def)
  with \<open>u \<noteq> 92\<close> show ?thesis by (simp add: strip_def strip_escapes_skip)
qed

lemma strip_ws: "list_all is_ws w \<Longrightarrow> strip (w @ t) = w @ strip t"
  by (induction w) (simp_all add: strip_skip)

lemma stops_strip_escapes: "stops t \<Longrightarrow> stops (strip_escapes t)"
  by (cases t) (auto simp: stops_def strip_escapes_skip)

lemma strip_number: "canonical d \<Longrightarrow> stops t \<Longrightarrow> strip (ascii (dec_str d) @ t) = 93 # strip t"
proof -
  assume a: "canonical d" "stops t"
  obtain c u where cu: "dec_str d = c # u" "c = CHR ''-'' \<or> is_digit c" using dec_str_hd [of d] by (cases "dec_str d") auto
  have "92 \<notin> set (ascii (dec_str d))"
  proof
    assume "92 \<in> set (ascii (dec_str d))"
    then obtain x where x: "x \<in> set (dec_str d)" "of_char x = (92 :: nat)" by (auto simp: ascii_def)
    with dec_str_chars [OF x(1)] show False by (auto simp: is_digit_def)
  qed
  then have se: "strip_escapes (ascii (dec_str d) @ t) = ascii (dec_str d) @ strip_escapes t" by (rule strip_escapes_append)
  have "(of_char c :: nat) \<noteq> 34" "(of_char c :: nat) \<noteq> 116" "(of_char c :: nat) \<noteq> 102" "(of_char c :: nat) \<noteq> 110"
    using cu(2) by (auto simp: is_digit_def)
  then have "simple_token (ascii (dec_str d) @ strip_escapes t) = Some (strip_escapes t)"
    using scan_number_dec_str [OF a(1) stops_strip_escapes [OF a(2)]] cu(1) by (simp add: simple_token_def)
  then show ?thesis unfolding strip_def se using cu(1) by simp
qed

lemma strip_words:
  "strip (ascii ''true'' @ t) = 93 # strip t" "strip (ascii ''false'' @ t) = 93 # strip t"
  "strip (ascii ''null'' @ t) = 93 # strip t"
  by (simp_all add: strip_def strip_escapes_skip simple_token_def)

subsection \<open>Arrays and objects\<close>

fun toks :: "json \<Rightarrow> token list" where
  "toks (JBool b) = [TWord (ascii (if b then ''true'' else ''false''))]"
| "toks (JNum (XDec (Dec m e))) = (if m < 0 then [TPunct 45, TNum (Dec (- m) e)] else [TNum (Dec m e)])"
| "toks (JStr s) = [TStr s]"
| "toks (JArr vs) = TPunct 91 # js_join [TPunct 44] (map toks vs) @ [TPunct 93]"
| "toks (JObj kvs) = TPunct 123 # js_join [TPunct 44] (map (\<lambda>(k, v). TStr k # TPunct 58 # toks v) kvs) @ [TPunct 125]"
| "toks _ = [TWord (ascii ''null'')]"

text \<open>What remains of a printed value when its tokens are replaced.\<close>

fun skel :: "units \<Rightarrow> units \<Rightarrow> json \<Rightarrow> units" where
  "skel ind mind (JArr vs) = wrap 91 93 (mind @ ind) mind (map (skel ind (mind @ ind)) vs)"
| "skel ind mind (JObj kvs) =
     wrap 123 125 (mind @ ind) mind
       (map (\<lambda>(k, v). [93] @ (if mind @ ind \<noteq> [] then [58, 32] else [58]) @ skel ind (mind @ ind) v) kvs)"
| "skel ind mind _ = [93]"

text \<open>
  The lexer and the safety test both read a text from left to right and turn its layout (punctuation and white space)
  and its values into output. \<open>text_scanner\<close> is what they share, and how they read a printed array or object.
\<close>

definition layout_unit :: "nat \<Rightarrow> bool" where
  "layout_unit u \<longleftrightarrow> u \<in> {91, 93, 123, 125, 44, 58} \<or> is_ws u"

lemma stops_Cons [simp]: "stops (44 # t)" "stops (93 # t)" "stops (125 # t)" "stops (10 # t)"
  by (simp_all add: stops_def)

locale text_scanner =
  fixes run :: "units \<Rightarrow> 'r"
    and act :: "'x list \<Rightarrow> 'r \<Rightarrow> 'r"
    and out :: "units \<Rightarrow> 'x list"
  assumes act_append: "act (a @ b) r = act a (act b r)"
    and run_layout: "list_all layout_unit u \<Longrightarrow> run (u @ t) = act (out u) (run t)"
begin

definition scans :: "units \<Rightarrow> 'x list \<Rightarrow> bool" where
  "scans p x \<longleftrightarrow> (\<forall>t. stops t \<longrightarrow> run (p @ t) = act x (run t))"

lemma scansD: "scans p x \<Longrightarrow> stops t \<Longrightarrow> run (p @ t) = act x (run t)"
  by (simp add: scans_def)

lemma scans_layout: "list_all layout_unit u \<Longrightarrow> scans p x \<Longrightarrow> scans (u @ p) (out u @ x)"
  by (simp add: scans_def run_layout act_append)

lemma join:
  "list_all2 scans ps xs \<Longrightarrow> ps \<noteq> [] \<Longrightarrow> list_all layout_unit w \<Longrightarrow>
   scans (js_join (44 # w) ps) (js_join (out (44 # w)) xs)"
proof (induction ps xs rule: list_all2_induct)
  case (Cons p ps x xs)
  note IH = Cons.IH and hyps = Cons.hyps and w = Cons.prems(2)
  show ?case
  proof (cases "ps = []")
    case True
    with hyps show ?thesis by simp
  next
    case False
    then have ne: "xs \<noteq> []" using hyps(2) by auto
    have "layout_unit 44" by (simp add: layout_unit_def)
    with w have l: "list_all layout_unit (44 # w)" by simp
    have "run ((p @ (44 # w) @ js_join (44 # w) ps) @ t) = act (x @ out (44 # w) @ js_join (out (44 # w)) xs) (run t)"
      if t: "stops t" for t
    proof -
      have "run (p @ 44 # w @ js_join (44 # w) ps @ t) = act x (run ((44 # w) @ js_join (44 # w) ps @ t))"
        using scansD [OF hyps(1), of "44 # w @ js_join (44 # w) ps @ t"] by simp
      also have "\<dots> = act x (act (out (44 # w)) (run (js_join (44 # w) ps @ t)))"
        using run_layout [OF l, of "js_join (44 # w) ps @ t"] by simp
      also have "\<dots> = act x (act (out (44 # w)) (act (js_join (out (44 # w)) xs) (run t)))"
        using scansD [OF IH [OF False w] t] by simp
      finally show ?thesis by (simp add: act_append)
    qed
    then show ?thesis using False ne by (simp add: scans_def js_join_Cons)
  qed
qed simp

lemma wrapped:
  assumes "list_all2 scans ps xs" and "list_all is_ws gap" and "list_all is_ws mind"
    and "opn \<in> {91, 123}" and "cls \<in> {93, 125}"
  shows "scans (wrap opn cls gap mind ps)
    (if xs = [] then out [opn, cls]
     else if gap \<noteq> [] then out ([opn, 10] @ gap) @ js_join (out ([44, 10] @ gap)) xs @ out ([10] @ mind @ [cls])
     else out [opn] @ js_join (out [44]) xs @ out [cls])"
proof -
  have e: "ps = [] \<longleftrightarrow> xs = []" using assms(1) by auto
  have g: "list_all layout_unit gap" "list_all layout_unit mind"
    using assms(2,3) by (auto simp: list_all_iff layout_unit_def)
  have n: "layout_unit 10" "layout_unit opn" "layout_unit cls" using assms(4,5) by (auto simp: layout_unit_def is_ws_def)
  have s: "stops (cls # t)" for t using assms(5) by auto
  consider "xs = []" | "xs \<noteq> []" "gap \<noteq> []" | "xs \<noteq> []" "gap = []" by blast
  then show ?thesis
  proof cases
    case 1
    have "scans [opn, cls] (out [opn, cls])"
      using run_layout [of "[opn, cls]"] n by (simp add: scans_def)
    with 1 e show ?thesis by (simp add: wrap_def)
  next
    case 2
    have j: "scans (js_join (44 # 10 # gap) ps) (js_join (out (44 # 10 # gap)) xs)"
      using join [OF assms(1), of "10 # gap"] 2 e g n by simp
    have "run (wrap opn cls gap mind ps @ t) =
        act (out ([opn, 10] @ gap)) (act (js_join (out (44 # 10 # gap)) xs) (act (out ([10] @ mind @ [cls])) (run t)))" for t
    proof -
      have "run (wrap opn cls gap mind ps @ t) = run (([opn, 10] @ gap) @ js_join (44 # 10 # gap) ps @ 10 # mind @ cls # t)"
        using 2 e by (simp add: wrap_def)
      also have "\<dots> = act (out ([opn, 10] @ gap)) (run (js_join (44 # 10 # gap) ps @ 10 # mind @ cls # t))"
        using g n by (intro run_layout) simp
      also have "run (js_join (44 # 10 # gap) ps @ 10 # mind @ cls # t) =
          act (js_join (out (44 # 10 # gap)) xs) (run (10 # mind @ cls # t))" by (rule scansD [OF j]) simp
      also have "run (10 # mind @ cls # t) = act (out ([10] @ mind @ [cls])) (run t)"
        using run_layout [of "10 # mind @ [cls]" t] g n by simp
      finally show ?thesis .
    qed
    with 2 show ?thesis by (simp add: scans_def act_append)
  next
    case 3
    have j: "scans (js_join [44] ps) (js_join (out [44]) xs)"
      using join [OF assms(1), of "[]"] 3 e by simp
    have "run (wrap opn cls gap mind ps @ t) = act (out [opn]) (act (js_join (out [44]) xs) (act (out [cls]) (run t)))" for t
      using 3 e run_layout [of "[opn]" "js_join [44] ps @ cls # t"] run_layout [of "[cls]" t] n scansD [OF j s]
      by (simp add: wrap_def)
    with 3 show ?thesis by (simp add: scans_def act_append)
  qed
qed

end

interpretation lexer: text_scanner lex prepend "\<lambda>u. map TPunct (filter (\<lambda>u. \<not> is_ws u) u)"
proof
  fix a b r
  show "prepend (a @ b) r = prepend a (prepend b r)" by simp
next
  fix u t
  show "list_all layout_unit u \<Longrightarrow> lex (u @ t) = prepend (map TPunct (filter (\<lambda>u. \<not> is_ws u) u)) (lex t)"
    by (induction u) (auto simp: layout_unit_def punct_unit_def is_ws_def map_Cons_prepend)
qed

interpretation stripper: text_scanner strip append "\<lambda>u. u"
proof
  fix u t
  show "list_all layout_unit u \<Longrightarrow> strip (u @ t) = u @ strip t"
    by (induction u) (simp_all add: layout_unit_def strip_skip)
qed simp

end
