(* ===== verification/Json_Parse.thy ===== *)
theory Json_Parse
  imports Json_Roundtrip
begin

text \<open>
  The second half of the correctness of \<open>js/json2.js\<close>: a printed value passes the safety test, lexes to its tokens and
  evaluates to itself, hence the round trip. Then what the safety test guarantees of any text it accepts, and what
  \<open>JSON.parse\<close> accepts that is not JSON.
\<close>

subsection \<open>The printed value as read by the lexer and the safety test\<close>

lemma list_all2_maps: "(\<And>x. x \<in> set xs \<Longrightarrow> R (g x) (h x)) \<Longrightarrow> list_all2 R (map g xs) (map h xs)"
  by (induction xs) simp_all

lemma lexer_out:
  "list_all is_ws w \<Longrightarrow> filter (\<lambda>u. \<not> is_ws u) w = []"
  by (induction w) simp_all

lemma punct_not_ws: "u \<in> {91, 93, 123, 125, 44, 58} \<Longrightarrow> \<not> is_ws u" "is_ws 10" "is_ws 32"
  by (auto simp: is_ws_def)

lemma lexer_wrapped:
  assumes "list_all2 lexer.scans ps xs" and "list_all is_ws gap" and "list_all is_ws mind"
    and "opn \<in> {91, 123}" and "cls \<in> {93, 125}"
  shows "lexer.scans (wrap opn cls gap mind ps) (TPunct opn # js_join [TPunct 44] xs @ [TPunct cls])"
proof -
  have p: "\<not> is_ws opn" "\<not> is_ws cls" "\<not> is_ws 44" using assms(4,5) punct_not_ws(1) by auto
  have "(if xs = [] then map TPunct (filter (\<lambda>u. \<not> is_ws u) [opn, cls])
     else if gap \<noteq> [] then map TPunct (filter (\<lambda>u. \<not> is_ws u) ([opn, 10] @ gap)) @
         js_join (map TPunct (filter (\<lambda>u. \<not> is_ws u) ([44, 10] @ gap))) xs @ map TPunct (filter (\<lambda>u. \<not> is_ws u) ([10] @ mind @ [cls]))
     else map TPunct (filter (\<lambda>u. \<not> is_ws u) [opn]) @ js_join (map TPunct (filter (\<lambda>u. \<not> is_ws u) [44])) xs @
         map TPunct (filter (\<lambda>u. \<not> is_ws u) [cls])) = TPunct opn # js_join [TPunct 44] xs @ [TPunct cls]"
    using p punct_not_ws(2) lexer_out [OF assms(2)] lexer_out [OF assms(3)] by simp
  with lexer.wrapped [OF assms] show ?thesis by (simp only:)
qed

lemma stripper_wrapped:
  assumes "list_all2 stripper.scans ps xs" and "list_all is_ws gap" and "list_all is_ws mind"
    and "opn \<in> {91, 123}" and "cls \<in> {93, 125}"
  shows "stripper.scans (wrap opn cls gap mind ps) (wrap opn cls gap mind xs)"
  using stripper.wrapped [OF assms] by (simp add: wrap_def split: if_splits)

lemma lexer_member:
  assumes "plain_text k" and "lexer.scans v ts"
  shows "lexer.scans (member_text gap k v) (TStr k # TPunct 58 # ts)"
  unfolding lexer.scans_def
proof (intro allI impI)
  fix t
  assume "stops t"
  then have v: "lex (v @ t) = prepend ts (lex t)" by (rule lexer.scansD [OF assms(2)])
  have "lex ((if gap \<noteq> [] then [58, 32] else [58]) @ v @ t) = prepend (TPunct 58 # ts) (lex t)"
    using v by (simp add: is_ws_def punct_unit_def map_Cons_prepend)
  then show "lex (member_text gap k v @ t) = prepend (TStr k # TPunct 58 # ts) (lex t)"
    using lex_quote [OF assms(1), of "(if gap \<noteq> [] then [58, 32] else [58]) @ v @ t"]
    by (simp add: member_text_def map_Cons_prepend)
qed

lemma stripper_member:
  assumes "plain_text k" and "stripper.scans v s"
  shows "stripper.scans (member_text gap k v) ([93] @ (if gap \<noteq> [] then [58, 32] else [58]) @ s)"
  unfolding stripper.scans_def
proof (intro allI impI)
  fix t
  assume "stops t"
  then have v: "strip (v @ t) = s @ strip t" by (rule stripper.scansD [OF assms(2)])
  have "strip ((if gap \<noteq> [] then [58, 32] else [58]) @ v @ t) = (if gap \<noteq> [] then [58, 32] else [58]) @ s @ strip t"
    using v by (simp add: strip_skip punct_not_ws)
  then show "strip (member_text gap k v @ t) = ([93] @ (if gap \<noteq> [] then [58, 32] else [58]) @ s) @ strip t"
    using strip_quote [OF assms(1), of "(if gap \<noteq> [] then [58, 32] else [58]) @ v @ t"]
    by (simp add: member_text_def)
qed

lemma scans_word: "list_all (\<lambda>u. 97 \<le> u \<and> u \<le> 122) w \<Longrightarrow> w \<noteq> [] \<Longrightarrow> lexer.scans w [TWord w]"
  by (simp add: lexer.scans_def lex_word)

lemma lexer_text:
  "plain v \<Longrightarrow> list_all is_ws ind \<Longrightarrow> list_all is_ws mind \<Longrightarrow> lexer.scans (jtext ind mind v) (toks v)"
proof (induction ind mind v rule: jtext.induct)
  case (1 ind mind b)
  show ?case unfolding jtext.simps toks.simps by (rule scans_word) simp_all
next
  case (2 ind mind x)
  then obtain d where "x = XDec d" by (cases x) auto
  moreover obtain m e where "d = Dec m e" by (cases d) auto
  ultimately show ?case using 2 lex_number_value [of m e] by (simp add: lexer.scans_def del: dec_str.simps)
next
  case (3 ind mind s)
  then show ?case by (simp add: lexer.scans_def lex_quote map_Cons_prepend)
next
  case (4 ind mind vs)
  have "list_all2 lexer.scans (map (jtext ind (mind @ ind)) vs) (map toks vs)"
    using 4 by (intro list_all2_maps) (auto simp: list_all_iff)
  then show ?case using 4(3,4) by (simp add: lexer_wrapped)
next
  case (5 ind mind kvs)
  have "lexer.scans (member_text (mind @ ind) k (jtext ind (mind @ ind) v)) (TStr k # TPunct 58 # toks v)"
    if kv: "(k, v) \<in> set kvs" for k v
  proof (rule lexer_member)
    have p: "plain_text k" "plain v" using 5(2) kv by (auto simp: list_all_iff)
    show "plain_text k" by (rule p(1))
    show "lexer.scans (jtext ind (mind @ ind) v) (toks v)"
      using 5(1) [OF kv refl p(2) 5(3)] 5(3,4) by simp
  qed
  then have "list_all2 lexer.scans (map (\<lambda>(k, v). member_text (mind @ ind) k (jtext ind (mind @ ind) v)) kvs)
      (map (\<lambda>(k, v). TStr k # TPunct 58 # toks v) kvs)"
    by (intro list_all2_maps) auto
  then show ?case using 5(3,4) by (simp add: lexer_wrapped)
next
  case "6_4"
  show ?case unfolding jtext.simps toks.simps by (rule scans_word) simp_all
qed (simp_all)

lemma stripper_text:
  "plain v \<Longrightarrow> list_all is_ws ind \<Longrightarrow> list_all is_ws mind \<Longrightarrow> stripper.scans (jtext ind mind v) (skel ind mind v)"
proof (induction ind mind v rule: jtext.induct)
  case (1 ind mind b)
  then show ?case by (cases b) (simp_all add: stripper.scans_def strip_words del: ascii_simps)
next
  case (2 ind mind x)
  then obtain d where "x = XDec d" by (cases x) auto
  with 2 strip_number [of d] show ?case by (simp add: stripper.scans_def)
next
  case (3 ind mind s)
  then show ?case by (simp add: stripper.scans_def strip_quote)
next
  case (4 ind mind vs)
  have "list_all2 stripper.scans (map (jtext ind (mind @ ind)) vs) (map (skel ind (mind @ ind)) vs)"
    using 4 by (intro list_all2_maps) (auto simp: list_all_iff)
  then show ?case using 4(3,4) by (simp add: stripper_wrapped)
next
  case (5 ind mind kvs)
  have "stripper.scans (member_text (mind @ ind) k (jtext ind (mind @ ind) v))
      ([93] @ (if mind @ ind \<noteq> [] then [58, 32] else [58]) @ skel ind (mind @ ind) v)" if kv: "(k, v) \<in> set kvs" for k v
  proof (rule stripper_member)
    have p: "plain_text k" "plain v" using 5(2) kv by (auto simp: list_all_iff)
    show "plain_text k" by (rule p(1))
    show "stripper.scans (jtext ind (mind @ ind) v) (skel ind (mind @ ind) v)"
      using 5(1) [OF kv refl p(2) 5(3)] 5(3,4) by simp
  qed
  then have "list_all2 stripper.scans (map (\<lambda>(k, v). member_text (mind @ ind) k (jtext ind (mind @ ind) v)) kvs)
      (map (\<lambda>(k, v). [93] @ (if mind @ ind \<noteq> [] then [58, 32] else [58]) @ skel ind (mind @ ind) v) kvs)"
    by (intro list_all2_maps) auto
  then have "stripper.scans (wrap 123 125 (mind @ ind) mind (map (\<lambda>(k, v). member_text (mind @ ind) k (jtext ind (mind @ ind) v)) kvs))
      (wrap 123 125 (mind @ ind) mind (map (\<lambda>(k, v). [93] @ (if mind @ ind \<noteq> [] then [58, 32] else [58]) @ skel ind (mind @ ind) v) kvs))"
    using 5(3,4) by (intro stripper_wrapped) simp_all
  then show ?case by (simp only: jtext.simps skel.simps)
next
  case "6_4"
  then show ?case by (simp add: stripper.scans_def strip_words del: ascii_simps)
qed simp_all

subsection \<open>The brackets of a printed value\<close>

definition ok_rest :: "units \<Rightarrow> bool" where
  "ok_rest s = list_all bare_unit (strip_brackets False s)"

definition ok_value :: "units \<Rightarrow> bool" where
  "ok_value s = list_all bare_unit (strip_brackets True s)"

lemma strip_brackets_False: "strip_brackets False [] = []"
  "strip_brackets False (u # t) =
     (case (if u = 58 \<or> u = 44 then open_brackets t else None) of
        Some r \<Rightarrow> strip_brackets False r | None \<Rightarrow> u # strip_brackets False t)"
  by (subst strip_brackets.simps; simp)+

lemma strip_brackets_True:
  "strip_brackets True s = (case open_brackets s of Some r \<Rightarrow> strip_brackets False r | None \<Rightarrow> strip_brackets False s)"
  by (subst strip_brackets.simps) (auto simp: strip_brackets.simps [of False s] split: option.splits)

lemma ok_rest_bare: "bare_unit u \<Longrightarrow> u \<noteq> 58 \<Longrightarrow> u \<noteq> 44 \<Longrightarrow> ok_rest (u # t) = ok_rest t"
  by (simp add: ok_rest_def strip_brackets_False)

lemma ok_rest_delim: "u = 58 \<or> u = 44 \<Longrightarrow> ok_rest (u # t) = ok_value t"
  by (auto simp: ok_rest_def ok_value_def strip_brackets_False strip_brackets_True bare_unit_def split: option.splits)

lemma ok_rest_ws: "list_all is_ws w \<Longrightarrow> ok_rest (w @ t) = ok_rest t"
proof (induction w)
  case (Cons u w)
  then have "bare_unit u" "u \<noteq> 58" "u \<noteq> 44" by (auto simp: bare_unit_def is_ws_def)
  with Cons ok_rest_bare [of u "w @ t"] show ?case by simp
qed simp

lemma ok_value_ws: "list_all is_ws w \<Longrightarrow> ok_value (w @ t) = ok_value t"
proof -
  assume w: "list_all is_ws w"
  have "dropWhile is_ws (w @ t) = dropWhile is_ws t" using w by (induction w) simp_all
  then have "open_brackets (w @ t) = open_brackets t"
    by (subst (1 2) open_brackets.simps) simp
  with ok_rest_ws [OF w, of t] show ?thesis
    by (simp add: ok_value_def ok_rest_def strip_brackets_True split: option.splits)
qed

lemma ok_value_open: "ok_value (91 # t) = ok_value t"
  by (simp add: ok_value_def strip_brackets_True open_brackets.simps [of "91 # t"] is_ws_def split: option.splits)

lemma ok_value_bare: "bare_unit u \<Longrightarrow> \<not> is_ws u \<Longrightarrow> u \<noteq> 58 \<Longrightarrow> u \<noteq> 44 \<Longrightarrow> ok_value (u # t) = ok_rest t"
proof -
  assume u: "bare_unit u" "\<not> is_ws u" "u \<noteq> 58" "u \<noteq> 44"
  then have "u \<noteq> 91" by (auto simp: bare_unit_def)
  with u have "open_brackets (u # t) = None" by (simp add: open_brackets.simps [of "u # t"])
  with ok_rest_bare [OF u(1,3,4), of t] show ?thesis by (simp add: ok_value_def ok_rest_def strip_brackets_True)
qed

text \<open>A value is fine where a value may stand, whatever is fine after it.\<close>

definition fine :: "units \<Rightarrow> bool" where
  "fine k \<longleftrightarrow> (\<forall>t. ok_rest t \<longrightarrow> ok_value (k @ t))"

lemma fine_join:
  "list_all fine ks \<Longrightarrow> ks \<noteq> [] \<Longrightarrow> list_all is_ws w \<Longrightarrow> ok_rest t \<Longrightarrow> ok_value (js_join (44 # w) ks @ t)"
proof (induction ks)
  case (Cons k ks)
  show ?case
  proof (cases "ks = []")
    case True
    with Cons show ?thesis by (simp add: fine_def)
  next
    case False
    with Cons have "ok_value (w @ js_join (44 # w) ks @ t)" by (simp add: ok_value_ws)
    then have "ok_rest (44 # w @ js_join (44 # w) ks @ t)" by (simp add: ok_rest_delim)
    with Cons.prems(1) False show ?thesis by (simp add: fine_def js_join_Cons)
  qed
qed simp

lemma ok_rest_close: "ok_rest (93 # t) = ok_rest t" "ok_rest (125 # t) = ok_rest t"
  by (rule ok_rest_bare; simp add: bare_unit_def)+

lemma fine_array:
  assumes "list_all fine ks" and "list_all is_ws gap" and "list_all is_ws mind"
  shows "fine (wrap 91 93 gap mind ks)"
  unfolding fine_def
proof (intro allI impI)
  fix t
  assume t: "ok_rest t"
  have n: "is_ws 10" by (simp add: is_ws_def)
  have bare: "bare_unit 93" "\<not> is_ws 93" by (simp_all add: bare_unit_def is_ws_def)
  have c: "ok_rest (10 # mind @ 93 # t)" using ok_rest_ws [of "10 # mind" "93 # t"] assms(3) n t by (simp add: ok_rest_close)
  consider "ks = []" | "ks \<noteq> []" "gap \<noteq> []" | "ks \<noteq> []" "gap = []" by blast
  then show "ok_value (wrap 91 93 gap mind ks @ t)"
  proof cases
    case 1
    then show ?thesis using t bare by (simp add: wrap_def ok_value_open ok_value_bare)
  next
    case 2
    have "ok_value ((10 # gap) @ js_join (44 # 10 # gap) ks @ 10 # mind @ 93 # t)"
      using ok_value_ws [of "10 # gap"] fine_join [OF assms(1) 2(1), of "10 # gap"] c assms(2) n by simp
    with 2 show ?thesis by (simp add: wrap_def ok_value_open)
  next
    case 3
    have "ok_value (js_join [44] ks @ 93 # t)" using fine_join [OF assms(1) 3(1), of "[]"] t by (simp add: ok_rest_close)
    with 3 show ?thesis by (simp add: wrap_def ok_value_open)
  qed
qed

lemma fine_object:
  assumes "list_all fine ks" and "list_all is_ws gap" and "list_all is_ws mind"
  shows "fine (wrap 123 125 gap mind (map (\<lambda>k. [93] @ (if gap \<noteq> [] then [58, 32] else [58]) @ k) ks))"
  unfolding fine_def
proof (intro allI impI)
  fix t
  assume t: "ok_rest t"
  let ?part = "\<lambda>k. [93] @ (if gap \<noteq> [] then [58, 32] else [58]) @ k"
  have ws: "is_ws 10" "is_ws 32" by (simp_all add: is_ws_def)
  have open_: "ok_value (123 # s) = ok_rest s" for s by (rule ok_value_bare) (simp_all add: bare_unit_def is_ws_def)
  have tok: "ok_value (93 # s) = ok_rest s" for s by (rule ok_value_bare) (simp_all add: bare_unit_def is_ws_def)
  have "fine (?part k)" if "fine k" for k
    unfolding fine_def
  proof (intro allI impI)
    fix u
    assume "ok_rest u"
    with that have "ok_value (k @ u)" by (simp add: fine_def)
    then have "ok_rest ((if gap \<noteq> [] then [58, 32] else [58]) @ k @ u)"
      using ok_value_ws [of "[32]" "k @ u"] ws by (simp add: ok_rest_delim)
    then show "ok_value (?part k @ u)" by (simp add: tok)
  qed
  then have parts: "list_all fine (map ?part ks)" using assms(1) by (simp add: list_all_iff)
  have head: "ok_value (js_join sep (map ?part ks) @ u) \<Longrightarrow> ok_rest (js_join sep (map ?part ks) @ u)" if "ks \<noteq> []" for sep u
  proof -
    from that obtain s where "js_join sep (map ?part ks) @ u = 93 # s"
      by (cases ks rule: remdups_adj.cases) auto
    then show "ok_value (js_join sep (map ?part ks) @ u) \<Longrightarrow> ok_rest (js_join sep (map ?part ks) @ u)"
      by (simp add: tok ok_rest_close)
  qed
  have c: "ok_rest (10 # mind @ 125 # t)" using ok_rest_ws [of "10 # mind" "125 # t"] assms(3) ws t by (simp add: ok_rest_close)
  consider "ks = []" | "ks \<noteq> []" "gap \<noteq> []" | "ks \<noteq> []" "gap = []" by blast
  then show "ok_value (wrap 123 125 gap mind (map ?part ks) @ t)"
  proof cases
    case 1
    then show ?thesis using t by (simp add: wrap_def open_ ok_rest_close)
  next
    case 2
    have "ok_value (js_join (44 # 10 # gap) (map ?part ks) @ 10 # mind @ 125 # t)"
      using fine_join [OF parts, of "10 # gap" "10 # mind @ 125 # t"] 2 c assms(2) ws by simp
    from head [OF 2(1) this] have "ok_rest ((10 # gap) @ js_join (44 # 10 # gap) (map ?part ks) @ 10 # mind @ 125 # t)"
      using ok_rest_ws [of "10 # gap"] assms(2) ws by (simp del: append_Cons)
    with 2 show ?thesis unfolding wrap_def by (simp add: open_)
  next
    case 3
    have "ok_value (js_join [44] (map ?part ks) @ 125 # t)"
      using fine_join [OF parts, of "[]" "125 # t"] 3 t by (simp add: ok_rest_close)
    from head [OF 3(1) this] 3 show ?thesis unfolding wrap_def by (simp add: open_)
  qed
qed

lemma fine_skel: "list_all is_ws ind \<Longrightarrow> list_all is_ws mind \<Longrightarrow> fine (skel ind mind v)"
proof (induction ind mind v rule: skel.induct)
  case (1 ind mind vs)
  have "list_all fine (map (skel ind (mind @ ind)) vs)" using 1 by (auto simp: list_all_iff)
  with 1(2,3) show ?case by (simp add: fine_array)
next
  case (2 ind mind kvs)
  have "fine (skel ind (mind @ ind) v)" if "(k, v) \<in> set kvs" for k v
    using 2(1) [OF that refl] 2(2,3) by simp
  then have "list_all fine (map (\<lambda>(k, v). skel ind (mind @ ind) v) kvs)" by (auto simp: list_all_iff)
  note part = fine_object [OF this, of "mind @ ind" mind]
  have "map (\<lambda>k. [93] @ (if mind @ ind \<noteq> [] then [58, 32] else [58]) @ k) (map (\<lambda>(k, v). skel ind (mind @ ind) v) kvs) =
      map (\<lambda>(k, v). [93] @ (if mind @ ind \<noteq> [] then [58, 32] else [58]) @ skel ind (mind @ ind) v) kvs"
    by (simp add: comp_def split_beta)
  with part 2(2,3) show ?case unfolding skel.simps by (simp only: list_all_append)
qed (simp_all add: fine_def ok_value_bare bare_unit_def is_ws_def)

lemma printed_looks_safe:
  "plain v \<Longrightarrow> list_all is_ws ind \<Longrightarrow> looks_safe (jtext ind [] v)"
proof -
  assume v: "plain v" and ind: "list_all is_ws ind"
  have "strip (jtext ind [] v @ []) = skel ind [] v @ strip []"
    by (rule stripper.scansD [OF stripper_text [OF v ind]]) (simp_all add: stops_def)
  then have "strip (jtext ind [] v) = skel ind [] v" by (simp add: strip_def)
  moreover have "ok_rest []" by (simp add: ok_rest_def strip_brackets_False)
  then have "ok_value (skel ind [] v @ [])"
    using fine_skel [OF ind, of "[]" v, unfolded fine_def, rule_format, of "[]"] by simp
  ultimately show ?thesis by (simp add: looks_safe_def ok_value_def strip_def)
qed

text \<open>A printed value has nothing for the first stage to replace.\<close>

lemma ascii_no_cx [simp]: "0 < u \<Longrightarrow> u < 128 \<Longrightarrow> \<not> in_cx u"
  by (simp add: in_cx_def)

lemma escape_no_cx: "u < 65536 \<Longrightarrow> list_all (\<lambda>x. \<not> in_cx x) (escape_unit u)"
proof (cases rule: escape_cases [of u])
  case (simple e)
  moreover from simple(2) have "\<not> in_cx e" by (intro ascii_no_cx) (auto simp: simple_escape_def)
  ultimately show ?thesis by simp
next
  case unicode
  moreover have "\<not> in_cx (hex_unit d)" if "d < 16" for d :: nat
    using that by (simp add: hex_unit_def)
  ultimately show ?thesis by (simp add: hex4_def)
qed simp

lemma quote_no_cx: "plain_text s \<Longrightarrow> list_all (\<lambda>x. \<not> in_cx x) (quote s)"
proof -
  assume "plain_text s"
  then have "list_all (\<lambda>x. \<not> in_cx x) (concat (map escape_unit s))"
    using escape_no_cx by (induction s) (simp_all add: plain_text_def)
  then show ?thesis by (simp add: quote_eq)
qed

lemma join_no_cx:
  "list_all (list_all P) ps \<Longrightarrow> list_all P sep \<Longrightarrow> list_all P (js_join sep ps)"
  by (induction sep ps rule: js_join.induct) auto

lemma wrap_no_cx:
  "list_all (list_all (\<lambda>x. \<not> in_cx x)) ps \<Longrightarrow> list_all (\<lambda>x. \<not> in_cx x) gap \<Longrightarrow> list_all (\<lambda>x. \<not> in_cx x) mind \<Longrightarrow>
   opn \<in> {91, 123} \<Longrightarrow> cls \<in> {93, 125} \<Longrightarrow> list_all (\<lambda>x. \<not> in_cx x) (wrap opn cls gap mind ps)"
  by (auto simp: wrap_def intro!: join_no_cx)

lemma text_no_cx:
  "plain v \<Longrightarrow> list_all (\<lambda>x. \<not> in_cx x) ind \<Longrightarrow> list_all (\<lambda>x. \<not> in_cx x) mind \<Longrightarrow>
   list_all (\<lambda>x. \<not> in_cx x) (jtext ind mind v)"
proof (induction ind mind v rule: jtext.induct)
  case (2 ind mind x)
  then obtain d where d: "x = XDec d" by (cases x) auto
  have "\<not> in_cx (of_char c)" if "c \<in> set (dec_str d)" for c
    using dec_str_chars [OF that] by (auto simp: is_digit_def)
  with d show ?case by (simp add: ascii_def list_all_iff)
next
  case (3 ind mind s)
  then show ?case by (simp add: quote_no_cx)
next
  case (4 ind mind vs)
  have "list_all (list_all (\<lambda>x. \<not> in_cx x)) (map (jtext ind (mind @ ind)) vs)" using 4 by (auto simp: list_all_iff)
  with 4(3,4) show ?case by (simp add: wrap_no_cx)
next
  case (5 ind mind kvs)
  have "list_all (\<lambda>x. \<not> in_cx x) (member_text (mind @ ind) k (jtext ind (mind @ ind) v))" if kv: "(k, v) \<in> set kvs" for k v
  proof -
    have "plain_text k" "plain v" using 5(2) kv by (auto simp: list_all_iff)
    with 5(1) [OF kv refl] 5(3,4) quote_no_cx show ?thesis by (simp add: member_text_def)
  qed
  then have "list_all (list_all (\<lambda>x. \<not> in_cx x)) (map (\<lambda>(k, v). member_text (mind @ ind) k (jtext ind (mind @ ind) v)) kvs)"
    by (auto simp: list_all_iff)
  with 5(3,4) show ?case by (simp add: wrap_no_cx)
qed simp_all

lemma replace_cx_id: "list_all (\<lambda>x. \<not> in_cx x) s \<Longrightarrow> replace_cx s = s"
  by (auto simp: replace_cx_def list_ex_iff list_all_iff)

subsection \<open>Evaluating the tokens\<close>

definition after_value :: "token list \<Rightarrow> bool" where
  "after_value r \<longleftrightarrow> r = [] \<or> hd r \<in> {TPunct 44, TPunct 93, TPunct 125}"

definition evals_to :: "json \<Rightarrow> bool" where
  "evals_to v \<longleftrightarrow> (\<forall>n r. 2 * length (toks v) \<le> n \<longrightarrow> after_value r \<longrightarrow> p_assign n (toks v @ r) = Some (v, r))"

lemma minuses_after: "after_value r \<Longrightarrow> minuses v r = (v, r)"
  by (cases "(v, r)" rule: minuses.cases) (auto simp: after_value_def)

lemma toks_nonempty: "toks v \<noteq> []"
  by (cases v rule: toks.cases) auto

lemma toks_hd: "hd (toks v) \<noteq> TPunct 93 \<and> hd (toks v) \<noteq> TPunct 44"
  by (cases v rule: toks.cases) auto

lemma elems_eval:
  "list_all evals_to vs \<Longrightarrow> 2 * length (js_join [TPunct 44] (map toks vs)) + 1 \<le> n \<Longrightarrow>
   p_elems n acc (js_join [TPunct 44] (map toks vs) @ TPunct 93 # r) = Some (acc @ vs, r)"
proof (induction vs arbitrary: n acc)
  case Nil
  then obtain m where "n = Suc m" by (cases n) auto
  then show ?case by simp
next
  case (Cons v vs)
  obtain m where n: "n = Suc m" using Cons.prems(2) by (cases n) auto
  obtain t ts where t: "toks v = t # ts" using toks_nonempty [of v] by (cases "toks v") auto
  have th: "t \<noteq> TPunct 93" "t \<noteq> TPunct 44" using toks_hd [of v] t by auto
  show ?case
  proof (cases "vs = []")
    case True
    have "p_assign m (toks v @ TPunct 93 # r) = Some (v, TPunct 93 # r)"
      using Cons.prems True n by (simp add: evals_to_def after_value_def)
    with True n t th show ?thesis by simp
  next
    case False
    let ?rest = "js_join [TPunct 44] (map toks vs) @ TPunct 93 # r"
    have "p_assign m (toks v @ TPunct 44 # ?rest) = Some (v, TPunct 44 # ?rest)"
      using Cons.prems False n by (simp add: evals_to_def after_value_def js_join_Cons)
    moreover have "p_elems m (acc @ [v]) ?rest = Some ((acc @ [v]) @ vs, r)"
      using Cons.prems False n by (intro Cons.IH) (simp_all add: js_join_Cons)
    ultimately show ?thesis using False n t th by (simp add: js_join_Cons)
  qed
qed

lemma update_new: "k \<notin> fst ` set acc \<Longrightarrow> AList.update k v acc = acc @ [(k, v)]"
  by (induction acc) auto

lemma members_eval:
  "list_all (\<lambda>(k, v). k \<noteq> ascii ''__proto__'' \<and> evals_to v) kvs \<Longrightarrow> distinct (map fst (acc @ kvs)) \<Longrightarrow>
   2 * length (js_join [TPunct 44] (map (\<lambda>(k, v). TStr k # TPunct 58 # toks v) kvs)) + 1 \<le> n \<Longrightarrow>
   p_members n acc (js_join [TPunct 44] (map (\<lambda>(k, v). TStr k # TPunct 58 # toks v) kvs) @ TPunct 125 # r) = Some (acc @ kvs, r)"
proof (induction kvs arbitrary: n acc)
  case Nil
  then obtain m where "n = Suc m" by (cases n) auto
  then show ?case by simp
next
  case (Cons kv kvs)
  obtain k v where kv: "kv = (k, v)" by (cases kv)
  obtain m where n: "n = Suc m" using Cons.prems(3) by (cases n) auto
  have new: "add_member k v acc = acc @ [(k, v)]"
    using Cons.prems(1,2) kv by (simp add: add_member_def update_new del: ascii_simps)
  show ?case
  proof (cases "kvs = []")
    case True
    have "p_assign m (toks v @ TPunct 125 # r) = Some (v, TPunct 125 # r)"
      using Cons.prems True n kv by (simp add: evals_to_def after_value_def)
    with True n kv new show ?thesis by (simp add: key_text_def)
  next
    case False
    let ?rest = "js_join [TPunct 44] (map (\<lambda>(k, v). TStr k # TPunct 58 # toks v) kvs) @ TPunct 125 # r"
    have "p_assign m (toks v @ TPunct 44 # ?rest) = Some (v, TPunct 44 # ?rest)"
      using Cons.prems False n kv by (simp add: evals_to_def after_value_def js_join_Cons)
    moreover have "p_members m (acc @ [(k, v)]) ?rest = Some ((acc @ [(k, v)]) @ kvs, r)"
      using Cons.prems False n kv by (intro Cons.IH) (simp_all add: js_join_Cons del: ascii_simps)
    ultimately show ?thesis using False n kv new by (simp add: js_join_Cons key_text_def)
  qed
qed

lemma plain_evals: "plain v \<Longrightarrow> evals_to v"
proof (induction v rule: toks.induct)
  case (1 b)
  show ?case unfolding evals_to_def
  proof (intro allI impI)
    fix n r
    assume "2 * length (toks (JBool b)) \<le> n" "after_value r"
    then show "p_assign n (toks (JBool b) @ r) = Some (JBool b, r)"
      by (cases n; cases b) (simp_all add: word_value_def minuses_after)
  qed
next
  case (2 m e)
  show ?case unfolding evals_to_def
  proof (intro allI impI)
    fix n r
    assume "2 * length (toks (JNum (XDec (Dec m e)))) \<le> n" "after_value r"
    then show "p_assign n (toks (JNum (XDec (Dec m e))) @ r) = Some (JNum (XDec (Dec m e)), r)"
      by (cases n; cases "m < 0") (simp_all add: minuses_after)
  qed
next
  case (3 s)
  show ?case unfolding evals_to_def
  proof (intro allI impI)
    fix n r
    assume "2 * length (toks (JStr s)) \<le> n" "after_value r"
    then show "p_assign n (toks (JStr s) @ r) = Some (JStr s, r)"
      by (cases n) (simp_all add: minuses_after)
  qed
next
  case (4 vs)
  then have vs: "list_all evals_to vs" by (simp add: list_all_iff)
  show ?case unfolding evals_to_def
  proof (intro allI impI)
    fix n r
    assume a: "2 * length (toks (JArr vs)) \<le> n" "after_value r"
    then obtain m where n: "n = Suc m" by (cases n) auto
    have "p_elems m [] (js_join [TPunct 44] (map toks vs) @ TPunct 93 # r) = Some ([] @ vs, r)"
      using a n by (intro elems_eval [OF vs]) simp
    with n a(2) show "p_assign n (toks (JArr vs) @ r) = Some (JArr vs, r)" by (simp add: minuses_after)
  qed
next
  case (5 kvs)
  then have kvs: "list_all (\<lambda>(k, v). k \<noteq> ascii ''__proto__'' \<and> evals_to v) kvs" "distinct (map fst ([] @ kvs))"
    by (auto simp: list_all_iff simp del: ascii_simps)
  show ?case unfolding evals_to_def
  proof (intro allI impI)
    fix n r
    assume a: "2 * length (toks (JObj kvs)) \<le> n" "after_value r"
    then obtain m where n: "n = Suc m" by (cases n) auto
    have "p_members m [] (js_join [TPunct 44] (map (\<lambda>(k, v). TStr k # TPunct 58 # toks v) kvs) @ TPunct 125 # r) = Some ([] @ kvs, r)"
      using a n by (intro members_eval [OF kvs]) simp
    with n a(2) show "p_assign n (toks (JObj kvs) @ r) = Some (JObj kvs, r)" by (simp add: minuses_after)
  qed
next
  case "6_4"
  show ?case unfolding evals_to_def
  proof (intro allI impI)
    fix n r
    assume "2 * length (toks JNull) \<le> n" "after_value r"
    then show "p_assign n (toks JNull @ r) = Some (JNull, r)"
      by (cases n) (simp_all add: word_value_def minuses_after)
  qed
qed simp_all


subsection \<open>Enough fuel for eval\<close>

lemma minuses_shorter: "length (snd (minuses v ts)) \<le> length ts"
  by (induction v ts rule: minuses.induct) auto

lemma assign_shorter:
  "(p_assign n ts = Some (v, r) \<longrightarrow> length r < length ts) \<and>
   (p_elems n acc ts = Some (vs, r) \<longrightarrow> length r < length ts) \<and>
   (p_members n kacc ts = Some (kvs, r) \<longrightarrow> length r < length ts)"
proof (induction n arbitrary: ts v r acc vs kacc kvs)
  case 0
  then show ?case by simp
next
  case (Suc n)
  have el: "p_elems n acc ts = Some (vs, r) \<Longrightarrow> length r < length ts" for acc ts vs r using Suc by blast
  have me: "p_members n acc ts = Some (vs, r) \<Longrightarrow> length r < length ts" for acc ts vs r using Suc by blast
  have as: "p_assign n ts = Some (v, r) \<Longrightarrow> length r < length ts" for v ts r using Suc by blast
  have m: "minuses v q = (v', r) \<Longrightarrow> length r \<le> length q" for v q v' r
    using minuses_shorter [of v q] by simp
  have "length r < length ts" if "p_assign (Suc n) ts = Some (v, r)"
  proof (cases ts)
    case (Cons t q)
    show ?thesis
    proof (cases t)
      case (TPunct p)
      then show ?thesis using that Cons
        by (auto split: if_splits list.splits token.splits dest!: el me m)
    qed (use that Cons in \<open>auto dest!: m\<close>)
  qed (use that in simp)
  moreover have "length r < length ts" if "p_elems (Suc n) acc ts = Some (vs, r)"
  proof (cases ts)
    case (Cons t q)
    consider "t = TPunct 93" | "t = TPunct 44" | "t \<noteq> TPunct 93" "t \<noteq> TPunct 44" by blast
    then show ?thesis
    proof cases
      case 3
      with that Cons obtain v t' r' where a: "p_assign n ts = Some (v, t' # r')"
          "r = r' \<or> p_elems n (acc @ [v]) r' = Some (vs, r)"
        by (auto split: option.splits list.splits if_splits)
      from as [OF a(1)] a(2) el show ?thesis by fastforce
    qed (use that Cons el in fastforce)+
  qed (use that in simp)
  moreover have "length r < length ts" if "p_members (Suc n) kacc ts = Some (kvs, r)"
  proof (cases ts)
    case (Cons t q)
    show ?thesis
    proof (cases "t = TPunct 125")
      case False
      with that Cons obtain k c r' v t' r'' where a: "key_text t = Some k" "q = c # r'" "p_assign n r' = Some (v, t' # r'')"
          "r = r'' \<or> p_members n (add_member k v kacc) r'' = Some (kvs, r)"
        by (auto split: option.splits list.splits if_splits)
      from as [OF a(3)] a(2,4) me Cons show ?thesis by fastforce
    qed (use that Cons in simp)
  qed (use that in simp)
  ultimately show ?case by blast
qed

lemmas p_shorter = assign_shorter [THEN conjunct1, rule_format] assign_shorter [THEN conjunct2, THEN conjunct1, rule_format]
  assign_shorter [THEN conjunct2, THEN conjunct2, rule_format]

text \<open>More fuel than twice the number of tokens changes nothing.\<close>

definition stable :: "nat \<Rightarrow> bool" where
  "stable k \<longleftrightarrow>
     (\<forall>ts m n. length ts = k \<longrightarrow> 2 * k + 1 \<le> m \<longrightarrow> 2 * k + 1 \<le> n \<longrightarrow> p_assign m ts = p_assign n ts) \<and>
     (\<forall>ts acc m n. length ts = k \<longrightarrow> 2 * k + 2 \<le> m \<longrightarrow> 2 * k + 2 \<le> n \<longrightarrow> p_elems m acc ts = p_elems n acc ts) \<and>
     (\<forall>ts acc m n. length ts = k \<longrightarrow> 2 * k + 2 \<le> m \<longrightarrow> 2 * k + 2 \<le> n \<longrightarrow> p_members m acc ts = p_members n acc ts)"

lemma stable_assign: "stable k \<Longrightarrow> length ts = k \<Longrightarrow> 2 * k + 1 \<le> m \<Longrightarrow> 2 * k + 1 \<le> n \<Longrightarrow> p_assign m ts = p_assign n ts"
  unfolding stable_def by blast

lemma stable_lists:
  "stable k \<Longrightarrow> length ts = k \<Longrightarrow> 2 * k + 2 \<le> m \<Longrightarrow> 2 * k + 2 \<le> n \<Longrightarrow> p_elems m acc ts = p_elems n acc ts"
  "stable k \<Longrightarrow> length ts = k \<Longrightarrow> 2 * k + 2 \<le> m \<Longrightarrow> 2 * k + 2 \<le> n \<Longrightarrow> p_members m kacc ts = p_members n kacc ts"
  unfolding stable_def by blast+

lemma stable_all: "stable k"
proof (induction k rule: less_induct)
  case (less k)
  have as: "p_assign m ts = p_assign n ts" if b: "length ts = k" "2 * k + 1 \<le> m" "2 * k + 1 \<le> n" for ts m n
  proof -
    obtain m' n' where mn: "m = Suc m'" "n = Suc n'" using b(2,3) by (cases m; cases n) auto
    show ?thesis
    proof (cases ts)
      case (Cons t r)
      then have "length r < k" using b(1) by simp
      from less [OF this] have "p_elems m' [] r = p_elems n' [] r" "p_members m' [] r = p_members n' [] r"
        using b Cons mn by (auto intro!: stable_lists)
      then show ?thesis unfolding mn p_assign.simps Cons by (simp split: token.splits)
    qed (simp add: mn)
  qed
  have el: "p_elems m acc ts = p_elems n acc ts" if b: "length ts = k" "2 * k + 2 \<le> m" "2 * k + 2 \<le> n" for ts acc m n
  proof -
    obtain m' n' where mn: "m = Suc m'" "n = Suc n'" using b(2,3) by (cases m; cases n) auto
    have a: "p_assign m' ts = p_assign n' ts" using b mn by (intro as) auto
    have l: "p_elems m' acc' r = p_elems n' acc' r" if r: "length r < k" for acc' r
      using less [OF r] \<open>2 * k + 2 \<le> m\<close> \<open>2 * k + 2 \<le> n\<close> mn r by (intro stable_lists(1) [of "length r"]) auto
    have sh: "length r < k" if "p_assign n' ts = Some (v, t' # r)" for v t' r
      using p_shorter(1) [OF that] \<open>length ts = k\<close> by simp
    show ?thesis
      unfolding mn p_elems.simps a
      using l sh b(1) by (cases ts) (auto split: option.splits list.splits)
  qed
  have me: "p_members m acc ts = p_members n acc ts" if b: "length ts = k" "2 * k + 2 \<le> m" "2 * k + 2 \<le> n" for ts acc m n
  proof -
    obtain m' n' where mn: "m = Suc m'" "n = Suc n'" using b(2,3) by (cases m; cases n) auto
    have a: "p_assign m' r = p_assign n' r" if r: "length r < k" for r
      using less [OF r] \<open>2 * k + 2 \<le> m\<close> \<open>2 * k + 2 \<le> n\<close> mn r by (intro stable_assign [of "length r"]) auto
    have l: "p_members m' acc' r = p_members n' acc' r" if r: "length r < k" for acc' r
      using less [OF r] \<open>2 * k + 2 \<le> m\<close> \<open>2 * k + 2 \<le> n\<close> mn r by (intro stable_lists(2) [of "length r"]) auto
    show ?thesis
    proof (cases ts)
      case (Cons t r)
      show ?thesis
      proof (cases r)
        case (Cons c r')
        have "length r' < k" using \<open>ts = t # r\<close> Cons b(1) by simp
        moreover have "length r'' < k" if "p_assign n' r' = Some (v, t' # r'')" for v t' r''
          using p_shorter(1) [OF that] \<open>length r' < k\<close> by simp
        ultimately show ?thesis unfolding mn p_members.simps \<open>ts = t # r\<close> Cons
          using a [of r'] l by (auto split: option.splits list.splits)
      qed (simp add: mn Cons split: option.splits)
    qed (simp add: mn)
  qed
  from as el me show ?case unfolding stable_def by blast
qed

lemma p_expr_fuel:
  "2 * length ts + 2 \<le> m \<Longrightarrow> 2 * length ts + 2 \<le> n \<Longrightarrow> p_expr m ts = p_expr n ts"
proof (induction "length ts" arbitrary: ts m n rule: less_induct)
  case less
  obtain m' n' where mn: "m = Suc m'" "n = Suc n'" using less.prems by (cases m; cases n) auto
  have a: "p_assign m' ts = p_assign n' ts" using less.prems mn by (intro stable_assign [OF stable_all refl]) auto
  have "p_expr m' r = p_expr n' r" if "p_assign n' ts = Some (v, t # r)" for v t r
    using p_shorter(1) [OF that] less.prems mn by (intro less.hyps) auto
  then show ?case unfolding mn p_expr.simps a by (auto split: option.splits list.splits)
qed

lemma eval_tokens: "plain v \<Longrightarrow> p_expr (eval_fuel (toks v)) (toks v) = Some v"
proof -
  assume "plain v"
  then have "evals_to v" by (rule plain_evals)
  then have "p_assign (2 * length (toks v) + 2) (toks v @ []) = Some (v, [])"
    by (simp only: evals_to_def) (simp add: after_value_def del: p_assign.simps)
  then show ?thesis by (simp add: eval_fuel_def numeral_3_eq_3 del: p_assign.simps)
qed

subsection \<open>What the safety test guarantees\<close>

text \<open>The text outside its string literals; from a literal that does not end, everything.\<close>

function (sequential) outside_strings :: "units \<Rightarrow> units" where
  "outside_strings [] = []"
| "outside_strings (u # us) =
     (if u = 34 then (case lex_string us of None \<Rightarrow> u # us | Some (s, r) \<Rightarrow> outside_strings r)
      else u # outside_strings us)"
  by pat_completeness auto
termination
  by (relation "measure length") (auto dest: lex_string_shorter)

text \<open>The units that may occur there: layout, digits and number signs, and lower-case letters with \<open>E\<close>.\<close>

definition code_unit :: "nat \<Rightarrow> bool" where
  "code_unit u \<longleftrightarrow> bare_unit u \<or> u = 91 \<or> is_digit_unit u \<or> u \<in> {43, 45, 46, 69} \<or> u \<in> set (ascii ''truefalsn'')"

definition num_unit :: "nat \<Rightarrow> bool" where
  "num_unit u \<longleftrightarrow> is_digit_unit u \<or> u \<in> {43, 45, 46, 69, 101}"

definition num_char :: "char \<Rightarrow> bool" where
  "num_char c \<longleftrightarrow> is_digit c \<or> c \<in> {CHR ''+'', CHR ''-'', CHR ''.'', CHR ''E'', CHR ''e''}"

lemma scan_frac_split: "scan_frac s = (fs, u) \<Longrightarrow> \<exists>w. s = w @ u \<and> list_all num_char w"
proof (cases s)
  case (Cons c t)
  assume a: "scan_frac s = (fs, u)"
  have "t = takeWhile is_digit t @ dropWhile is_digit t" by simp
  moreover have "list_all num_char (CHR ''.'' # takeWhile is_digit t)"
    by (auto simp: list_all_iff num_char_def dest: set_takeWhileD)
  moreover have "c \<noteq> CHR ''.'' \<Longrightarrow> u = s" "c = CHR ''.'' \<Longrightarrow> u = dropWhile is_digit t"
    using a Cons by (simp_all add: scan_frac_def)
  ultimately show ?thesis using Cons
    by (cases "c = CHR ''.''") (auto intro: exI [of _ "CHR ''.'' # takeWhile is_digit t"] exI [of _ "[]"])
qed (simp add: scan_frac_def)

lemma scan_exp_split: "scan_exp s = (x, u) \<Longrightarrow> \<exists>w. s = w @ u \<and> list_all num_char w"
proof -
  assume a: "scan_exp s = (x, u)"
  show ?thesis
  proof (cases "u = s")
    case False
    with a obtain c t where s: "s = c # t" "c = CHR ''e'' \<or> c = CHR ''E''"
      by (cases s) (auto simp: scan_exp_def split: if_splits)
    let ?sg = "t \<noteq> [] \<and> hd t \<in> {CHR ''-'', CHR ''+''}"
    let ?u = "if ?sg then tl t else t"
    have u: "u = dropWhile is_digit ?u" using a s False by (auto simp: scan_exp_def Let_def split: if_splits)
    have "t = (if ?sg then [hd t] else []) @ takeWhile is_digit ?u @ dropWhile is_digit ?u" by simp
    then have "s = (c # (if ?sg then [hd t] else []) @ takeWhile is_digit ?u) @ u" using s u by simp
    moreover have "list_all num_char (c # (if ?sg then [hd t] else []) @ takeWhile is_digit ?u)"
      using s(2) by (auto simp: list_all_iff num_char_def dest: set_takeWhileD)
    ultimately show ?thesis by blast
  qed (rule exI [of _ "[]"], simp)
qed

lemma scan_num_split: "scan_num s = Some (d, r) \<Longrightarrow> \<exists>w. s = w @ r \<and> list_all num_char w"
proof -
  assume a: "scan_num s = Some (d, r)"
  define sg where "sg = (if s \<noteq> [] \<and> hd s = CHR ''-'' then ''-'' else [])"
  define t where "t = (if s \<noteq> [] \<and> hd s = CHR ''-'' then tl s else s)"
  have s: "s = sg @ t" by (cases s) (auto simp: sg_def t_def)
  obtain fs u where u: "scan_frac (dropWhile is_digit t) = (fs, u)" by fastforce
  obtain x v where v: "scan_exp u = (x, v)" by fastforce
  have "takeWhile is_digit t \<noteq> []" using a unfolding scan_num_def t_def [symmetric] Let_def by (auto split: if_splits)
  then have r: "r = v" using a u v unfolding scan_num_def t_def [symmetric] Let_def by simp
  from scan_frac_split [OF u] obtain w1 where w1: "dropWhile is_digit t = w1 @ u" "list_all num_char w1" by blast
  from scan_exp_split [OF v] obtain w2 where w2: "u = w2 @ v" "list_all num_char w2" by blast
  have "t = takeWhile is_digit t @ w1 @ w2 @ r"
    using takeWhile_dropWhile_id [of is_digit t] w1(1) w2(1) r by simp
  then have "s = (sg @ takeWhile is_digit t @ w1 @ w2) @ r" using s by simp
  moreover have "list_all num_char (takeWhile is_digit t)"
    by (auto simp: list_all_iff num_char_def dest: set_takeWhileD)
  then have "list_all num_char (sg @ takeWhile is_digit t @ w1 @ w2)"
    using w1(2) w2(2) by (simp add: sg_def num_char_def)
  ultimately show ?thesis by blast
qed

lemma num_unit_char: "num_char (unit_char u) \<Longrightarrow> num_unit u"
proof (cases "u < 256")
  case True
  assume a: "num_char (unit_char u)"
  have "of_char (char_of u :: char) = u" using True by simp
  with a True show ?thesis
    by (auto simp: num_char_def num_unit_def unit_char_def is_digit_def is_digit_unit_def char_of_eq_iff take_bit_eq_mod)
qed (auto simp: unit_char_def num_char_def is_digit_def split: if_splits)

lemma scan_number_split: "scan_number s = Some (d, r) \<Longrightarrow> \<exists>w. s = w @ r \<and> list_all num_unit w"
proof -
  assume "scan_number s = Some (d, r)"
  then obtain q where q: "scan_num (unit_chars s) = Some (d, q)" "r = drop (length s - length q) s"
    by (auto simp: scan_number_def split: option.splits)
  from scan_num_split [OF q(1)] obtain w where w: "unit_chars s = w @ q" "list_all num_char w" by blast
  let ?k = "length s - length q"
  have "length w = ?k" using w(1) by (metis add_diff_cancel_right' length_append length_map unit_chars_def)
  then have "unit_chars (take ?k s) = w" using w(1) by (simp add: unit_chars_def take_map [symmetric])
  then have "list_all num_unit (take ?k s)"
    using w(2) num_unit_char by (auto simp: list_all_iff unit_chars_def)
  then show ?thesis using q(2) by (metis append_take_drop_id)
qed

lemma strip_escapes_back:
  "strip_escapes s = w @ r' \<Longrightarrow> list_all (\<lambda>u. u \<noteq> 64 \<and> u \<noteq> 92) w \<Longrightarrow> \<exists>r. s = w @ r \<and> strip_escapes r = r'"
proof (induction w arbitrary: s)
  case Nil
  then show ?case by simp
next
  case (Cons x w)
  then obtain u us where s: "s = u # us" by (cases s) auto
  have "u \<noteq> 92"
  proof
    assume u: "u = 92"
    have "strip_escapes s = 64 # tl (strip_escapes s) \<or> strip_escapes s = 92 # tl (strip_escapes s)"
      by (cases us) (simp_all add: s u)
    with Cons.prems show False by auto
  qed
  then have "strip_escapes s = u # strip_escapes us" by (simp add: s strip_escapes_skip)
  with Cons s show ?case by auto
qed

lemma close_string_back:
  "close_string (strip_escapes us) = Some r' \<Longrightarrow> \<exists>x r. lex_string us = Some (x, r) \<and> strip_escapes r = r'"
proof (induction us rule: lex_string.induct)
  case (2 u)
  then show ?case by (auto split: if_splits)
next
  case (3 u v us)
  show ?case
  proof (cases "u = 92")
    case True
    with 3 show ?thesis by (auto split: if_splits)
  next
    case False
    with 3 show ?thesis by (auto simp: strip_escapes_skip split: if_splits)
  qed
qed simp

definition word_unit :: "nat \<Rightarrow> bool" where
  "word_unit u \<longleftrightarrow> num_unit u \<or> u \<in> set (ascii ''truefalsn'')"

lemma word_unit_facts: "word_unit u \<Longrightarrow> u \<noteq> 64 \<and> u \<noteq> 92 \<and> u \<noteq> 34 \<and> code_unit u"
  by (auto simp: word_unit_def num_unit_def is_digit_unit_def code_unit_def)

lemma simple_token_word:
  "simple_token (u # us) = Some r \<Longrightarrow> u \<noteq> 34 \<Longrightarrow> \<exists>w. u # us = w @ r \<and> w \<noteq> [] \<and> list_all word_unit w"
proof -
  assume a: "simple_token (u # us) = Some r" "u \<noteq> 34"
  have kw: "\<exists>w. u # us = w @ r \<and> w \<noteq> [] \<and> list_all word_unit w"
    if "is_prefix_of k (u # us)" "r = drop m (u # us)" "length k = m" "k \<noteq> []" "list_all word_unit k" for k m
    using that by (auto simp: is_prefix_of_iff)
  consider "is_prefix_of (ascii ''true'') (u # us)" "r = drop 4 (u # us)"
    | "is_prefix_of (ascii ''false'') (u # us)" "r = drop 5 (u # us)"
    | "is_prefix_of (ascii ''null'') (u # us)" "r = drop 4 (u # us)"
    | d where "scan_number (u # us) = Some (d, r)"
    using a by (auto simp: simple_token_def simp del: ascii_simps split: if_splits)
  then show ?thesis
  proof cases
    case 1
    show ?thesis by (rule kw [of "ascii ''true''" 4]) (use 1 in \<open>simp_all add: word_unit_def\<close>)
  next
    case 2
    show ?thesis by (rule kw [of "ascii ''false''" 5]) (use 2 in \<open>simp_all add: word_unit_def\<close>)
  next
    case 3
    show ?thesis by (rule kw [of "ascii ''null''" 4]) (use 3 in \<open>simp_all add: word_unit_def\<close>)
  next
    case (4 d)
    from scan_number_split [OF this] obtain w where w: "u # us = w @ r" "list_all num_unit w" by blast
    moreover have "w \<noteq> []" using scan_number_shorter [OF 4] w(1) by auto
    ultimately show ?thesis by (auto simp: list_all_iff word_unit_def)
  qed
qed

lemma outside_append: "34 \<notin> set w \<Longrightarrow> outside_strings (w @ r) = w @ outside_strings r"
  by (induction w) auto

lemma outside_code:
  "list_all (\<lambda>u. bare_unit u \<or> u = 91) (strip s) \<Longrightarrow> list_all code_unit (outside_strings s)"
proof (induction "length s" arbitrary: s rule: less_induct)
  case less
  show ?case
  proof (cases s)
    case (Cons u us)
    have odd: "\<not> bare_unit 34 \<and> \<not> bare_unit 64 \<and> \<not> bare_unit 92" by (simp add: bare_unit_def is_ws_def)
    have no_token: "simple_token (64 # t) = None" "simple_token (92 # t) = None" for t
      by (simp_all add: simple_token_def scan_number_def unit_chars_def unit_char_def scan_num_def is_digit_def char_of_eq_iff)
    have "u \<noteq> 92"
    proof
      assume u: "u = 92"
      have "strip_escapes s = 64 # tl (strip_escapes s) \<or> strip_escapes s = 92 # tl (strip_escapes s)"
        by (cases us) (simp_all add: Cons u)
      then obtain x t where x: "strip_escapes s = x # t" "x = 64 \<or> x = 92" by blast
      then have "strip s = x # strip_tokens t" using no_token by (auto simp: strip_def)
      with less.prems odd x(2) show False by auto
    qed
    then have se: "strip_escapes s = u # strip_escapes us" by (simp add: Cons strip_escapes_skip)
    show ?thesis
    proof (cases "simple_token (u # strip_escapes us)")
      case None
      then have st: "strip s = u # strip us" by (simp add: strip_def se)
      with less.prems odd have "u \<noteq> 34" "code_unit u" by (auto simp: code_unit_def)
      moreover have "list_all code_unit (outside_strings us)" using less Cons st by simp
      ultimately show ?thesis by (simp add: Cons)
    next
      case (Some r')
      then have st: "strip s = 93 # strip_tokens r'" by (simp add: strip_def se)
      show ?thesis
      proof (cases "u = 34")
        case True
        have "close_string (strip_escapes us) = Some r'"
          using Some True
          by (simp add: simple_token_def scan_number_def unit_chars_def unit_char_def scan_num_def is_digit_def
              char_of_eq_iff split: option.splits)
        from close_string_back [OF this] obtain x r where r: "lex_string us = Some (x, r)" "strip_escapes r = r'" by blast
        have "list_all code_unit (outside_strings r)"
          using lex_string_shorter [OF r(1)] less Cons st r(2) by (simp add: strip_def)
        with True r(1) Cons show ?thesis by simp
      next
        case False
        from simple_token_word [OF Some False] obtain w where
          w: "u # strip_escapes us = w @ r'" "w \<noteq> []" "list_all word_unit w" by blast
        then have "list_all (\<lambda>u. u \<noteq> 64 \<and> u \<noteq> 92) w" using word_unit_facts by (auto simp: list_all_iff)
        from strip_escapes_back [OF _ this] se w(1) obtain r where r: "s = w @ r" "strip_escapes r = r'" by auto
        have "list_all code_unit (outside_strings r)"
          using less.hyps [of r] less.prems st r w(2) by (simp add: strip_def)
        moreover have "34 \<notin> set w" "list_all code_unit w"
          using w(3) word_unit_facts by (auto simp: list_all_iff)
        ultimately show ?thesis by (simp add: r(1) outside_append)
      qed
    qed
  qed simp
qed

lemma open_brackets_split:
  "open_brackets s = Some r \<Longrightarrow> \<exists>w. s = w @ r \<and> list_all (\<lambda>u. is_ws u \<or> u = 91) w"
proof (induction s arbitrary: r rule: open_brackets.induct)
  case (1 us)
  from 1(2) obtain q where q: "dropWhile is_ws us = 91 # q" "r = q \<or> open_brackets q = Some r"
    by (subst (asm) open_brackets.simps) (auto split: list.splits if_splits option.splits)
  have us: "us = (takeWhile is_ws us @ [91]) @ q"
    using q(1) takeWhile_dropWhile_id [of is_ws us] by simp
  have ws: "list_all (\<lambda>u. is_ws u \<or> u = 91) (takeWhile is_ws us @ [91])"
    by (auto simp: list_all_iff dest: set_takeWhileD)
  from q(2) show ?case
  proof
    assume "r = q"
    with us ws show ?thesis by blast
  next
    assume "open_brackets q = Some r"
    from 1(1) [OF q(1) _ this] obtain w where "q = w @ r" "list_all (\<lambda>u. is_ws u \<or> u = 91) w" by blast
    with us ws show ?thesis by (intro exI [of _ "(takeWhile is_ws us @ [91]) @ w"]) simp
  qed
qed

lemma strip_brackets_units:
  "list_all bare_unit (strip_brackets b s) \<Longrightarrow> list_all (\<lambda>u. bare_unit u \<or> u = 91) s"
proof (induction b s rule: strip_brackets.induct)
  case (1 b s)
  have bare: "is_ws u \<Longrightarrow> bare_unit u" for u by (simp add: bare_unit_def)
  show ?case
  proof (cases "if b then open_brackets s else None")
    case (Some r)
    then have "list_all bare_unit (strip_brackets False r)" using 1(4) by (simp add: strip_brackets.simps [of b s])
    with 1(3) [OF Some] have "list_all (\<lambda>u. bare_unit u \<or> u = 91) r" by simp
    moreover obtain w where "s = w @ r" "list_all (\<lambda>u. is_ws u \<or> u = 91) w"
      using open_brackets_split [of s r] Some by (auto split: if_splits)
    ultimately show ?thesis using bare by (auto simp: list_all_iff)
  next
    case None
    show ?thesis
    proof (cases s)
      case (Cons u t)
      have sb: "strip_brackets b s = (case (if u = 58 \<or> u = 44 then open_brackets t else None) of
          Some r \<Rightarrow> strip_brackets False r | None \<Rightarrow> u # strip_brackets False t)"
        by (subst strip_brackets.simps) (simp only: None [unfolded Cons] option.case Cons list.case)
      show ?thesis
      proof (cases "if u = 58 \<or> u = 44 then open_brackets t else None")
        case (Some r)
        then have "list_all bare_unit (strip_brackets False r)" using 1(4) sb by simp
        with 1(2) [OF None Cons Some] have "list_all (\<lambda>u. bare_unit u \<or> u = 91) r" by simp
        moreover obtain w where "t = w @ r" "list_all (\<lambda>u. is_ws u \<or> u = 91) w"
          using open_brackets_split [of t r] Some by (auto split: if_splits)
        moreover have "bare_unit u" using Some by (auto simp: bare_unit_def split: if_splits)
        ultimately show ?thesis using bare Cons by (auto simp: list_all_iff)
      next
        case N: None
        then have "bare_unit u" "list_all bare_unit (strip_brackets False t)" using 1(4) sb by simp_all
        with 1(1) [OF None Cons N] Cons show ?thesis by simp
      qed
    qed simp
  qed
qed

lemma looks_safe_outside: "looks_safe s \<Longrightarrow> list_all code_unit (outside_strings s)"
  by (rule outside_code) (use strip_brackets_units in \<open>simp add: looks_safe_def strip_def\<close>)

lemma stringify_plain:
  assumes "plain v" and "jdepth v \<le> n"
  shows "stringify n v NoReplacer sp = Inr (Some (Some (jtext (indent_of sp) [] v)))"
  using assms by (simp add: stringify_def str_plain)

lemma parse_printed:
  assumes "plain v" and ind: "list_all (\<lambda>u. u \<in> {9, 10, 13, 32}) ind"
  shows "json_parse (jtext ind [] v) None = Inr v"
proof -
  let ?t = "jtext ind [] v"
  have ws: "list_all is_ws ind" and cx: "list_all (\<lambda>x. \<not> in_cx x) ind"
    using ind by (auto simp: list_all_iff is_ws_def)
  have "lex (?t @ []) = prepend (toks v) (lex [])"
    by (rule lexer.scansD [OF lexer_text [OF assms(1) ws]]) (simp_all add: stops_def)
  then have "eval_text ?t = Some v" using eval_tokens [OF assms(1)] by (simp add: eval_text_def)
  moreover have "replace_cx ?t = ?t" using text_no_cx [OF assms(1) cx] by (simp add: replace_cx_id)
  ultimately show ?thesis
    using printed_looks_safe [OF assms(1) ws] by (simp add: json_parse_def)
qed

text \<open>The lexer and the safety test on texts that are not JSON.\<close>

lemma scan_number_ascii:
  "scan_num s = Some (d, r) \<Longrightarrow> scan_number (ascii s) = Some (d, drop (length s - length r) (ascii s))"
  by (simp add: scan_number_def ascii_def [symmetric]) (simp add: ascii_def)

lemma scan_number_none: "scan_num s = None \<Longrightarrow> scan_number (ascii s) = None"
  by (simp add: scan_number_def)

lemma scan_small:
  "scan_number [49, 45, 50] = Some (Dec 1 0, [45, 50])" "scan_number [45, 50] = Some (Dec (- 2) 0, [])"
  "scan_number [50] = Some (Dec 2 0, [])" "scan_number [49, 44, 50] = Some (Dec 1 0, [44, 50])"
  "scan_number [44, 50] = None"
  using scan_number_ascii [of "''1-2''" "Dec 1 0" "''-2''"] scan_number_ascii [of "''-2''" "Dec (- 2) 0" "[]"]
    scan_number_ascii [of "''2''" "Dec 2 0" "[]"] scan_number_ascii [of "''1,2''" "Dec 1 0" "'',2''"]
    scan_number_none [of "'',2''"]
  by (simp_all add: scan_num_def is_digit_def scan_frac_def scan_exp_def digits_value_def canon.simps)

lemma looks_safe_small: "looks_safe [49, 45, 50]" "looks_safe [49, 44, 50]"
  by (simp_all add: looks_safe_def simple_token_def scan_small strip_brackets.simps open_brackets.simps
    is_ws_def bare_unit_def)

lemma eval_small:
  "eval_text [49, 45, 50] = Some (JNum (XDec (Dec (- 1) 0)))" "eval_text [49, 44, 50] = Some (JNum (XDec (Dec 2 0)))"
  by (simp_all add: eval_text_def lex_number_def scan_small is_ws_def punct_unit_def is_digit_unit_def ident_unit_def
    eval_fuel_def json_number_def canon.simps numeral_3_eq_3)

subsection \<open>Properties\<close>

text \<open>C6: the round trip: \<open>JSON.stringify\<close> of a plain value (null, Booleans, finite numbers, strings, arrays and
  objects of these, with distinct keys none of which is \<open>__proto__\<close>), with any indentation by white space, always
  yields a text, recursing no deeper than the value, and \<open>JSON.parse\<close> of that text yields the value back.\<close>

theorem json_roundtrip:
  assumes "plain v" and "list_all (\<lambda>u. u \<in> {9, 10, 13, 32}) (indent_of sp)" and "jdepth v \<le> n"
  shows "\<exists>t. stringify n v NoReplacer sp = Inr (Some (Some t)) \<and> json_parse t None = Inr v"
  using stringify_plain [OF assms(1,3), of sp] parse_printed [OF assms(1,2)] by blast

definition ex_json :: json where
  "ex_json = JObj [([97], JArr [JNum (XDec (Dec (- 15) (- 1))), JStr [34, 0x2028], JNull]), ([], JBool True)]"

theorem json_roundtrip_witness:
  "\<exists>t. stringify 3 ex_json NoReplacer (SpaceCount 2) = Inr (Some (Some t)) \<and> json_parse t None = Inr ex_json"
  by (rule json_roundtrip) (simp_all add: ex_json_def indent_of_def plain_text_def numeral_2_eq_2)



text \<open>The parser accepts more than JSON: the safety test and \<open>eval\<close> let arithmetic and the comma operator
  through, so that the texts \<open>1-2\<close> and \<open>1,2\<close> parse to \<open>-1\<close> and \<open>2\<close> although neither is a JSON text.\<close>

lemma json_accepts_more:
  "json_parse (ascii ''1-2'') None = Inr (JNum (XDec (Dec (- 1) 0))) \<and>
   json_parse (ascii ''1,2'') None = Inr (JNum (XDec (Dec 2 0)))"
proof -
  have "replace_cx (ascii ''1-2'') = [49, 45, 50]" "replace_cx (ascii ''1,2'') = [49, 44, 50]"
    by (subst replace_cx_id; simp add: in_cx_def ascii_def)+
  then show ?thesis by (simp add: json_parse_def looks_safe_small eval_small)
qed

end
