(* ===== verification/Uri_Component.thy ===== *)
theory Uri_Component
  imports Json2
begin

text \<open>
  Library functions for the scripts that handle free text (\<open>js/jquery.cookie.js\<close>, \<open>js/nano.js\<close>): \<open>String(v)\<close>, and
  \<open>encodeURIComponent\<close> and \<open>decodeURIComponent\<close> on code units, with the pairing of
  surrogates and the UTF-8 bytes written out; \<open>None\<close> is a thrown \<open>URIError\<close>. The theory shows that decoding undoes
  encoding and that an encoded text consists of letters, digits and \<open>- _ . ! ~ * ' ( ) %\<close> only.
\<close>

subsection \<open>Conversion to text\<close>

text \<open>\<open>String(v)\<close>; how dates and functions are spelled depends on the browser and is the argument \<open>spell\<close>.\<close>

fun value_string :: "(json \<Rightarrow> units) \<Rightarrow> json \<Rightarrow> units" where
  "value_string spell (JStr s) = s"
| "value_string spell (JNum x) = ascii (xnum_str x)"
| "value_string spell (JBool b) = ascii (if b then ''true'' else ''false'')"
| "value_string spell JNull = ascii ''null''"
| "value_string spell (JArr vs) =
     js_join [44] (map (\<lambda>v. case v of JNull \<Rightarrow> [] | JUndef \<Rightarrow> [] | JHole \<Rightarrow> [] | _ \<Rightarrow> value_string spell v) vs)"
| "value_string spell (JObj _) = ascii ''[object Object]''"
| "value_string spell JUndef = ascii ''undefined''"
| "value_string spell JHole = ascii ''undefined''"
| "value_string spell v = spell v"

subsection \<open>Encoding\<close>

definition uri_unreserved :: "nat \<Rightarrow> bool" where
  "uri_unreserved u \<longleftrightarrow> (65 \<le> u \<and> u \<le> 90) \<or> (97 \<le> u \<and> u \<le> 122) \<or> is_digit_unit u \<or>
     u \<in> {33, 39, 40, 41, 42, 45, 46, 95, 126}"

definition high_surrogate :: "nat \<Rightarrow> bool" where
  "high_surrogate u \<longleftrightarrow> 0xD800 \<le> u \<and> u \<le> 0xDBFF"

definition low_surrogate :: "nat \<Rightarrow> bool" where
  "low_surrogate u \<longleftrightarrow> 0xDC00 \<le> u \<and> u \<le> 0xDFFF"

fun code_points :: "units \<Rightarrow> nat list option" where
  "code_points [] = Some []"
| "code_points [u] = (if high_surrogate u \<or> low_surrogate u then None else Some [u])"
| "code_points (u # v # us) =
     (if low_surrogate u then None
      else if high_surrogate u then
        (if low_surrogate v
         then map_option ((#) ((u - 0xD800) * 0x400 + (v - 0xDC00) + 0x10000)) (code_points us)
         else None)
      else map_option ((#) u) (code_points (v # us)))"

definition utf8 :: "nat \<Rightarrow> nat list" where
  "utf8 c =
     (if c < 0x80 then [c]
      else if c < 0x800 then [0xC0 + c div 64, 0x80 + c mod 64]
      else if c < 0x10000 then [0xE0 + c div 4096, 0x80 + c div 64 mod 64, 0x80 + c mod 64]
      else [0xF0 + c div 262144, 0x80 + c div 4096 mod 64, 0x80 + c div 64 mod 64, 0x80 + c mod 64])"

definition upper_hex :: "nat \<Rightarrow> nat" where
  "upper_hex d = (if d < 10 then 48 + d else 55 + d)"

definition percent :: "nat \<Rightarrow> units" where
  "percent b = [37, upper_hex (b div 16), upper_hex (b mod 16)]"

definition encode_point :: "nat \<Rightarrow> units" where
  "encode_point c = (if uri_unreserved c then [c] else concat (map percent (utf8 c)))"

definition encodeURIComponent :: "units \<Rightarrow> units option" where
  "encodeURIComponent s = map_option (\<lambda>cs. concat (map encode_point cs)) (code_points s)"

subsection \<open>Decoding\<close>

fun percent_byte :: "units \<Rightarrow> (nat \<times> units) option" where
  "percent_byte (p # a # b # us) =
     (if p = 37 \<and> is_hex a \<and> is_hex b then Some (hex_digit a * 16 + hex_digit b, us) else None)"
| "percent_byte _ = None"

text \<open>The value of \<open>n\<close> continuation bytes after the leading bits \<open>acc\<close>.\<close>

fun continuation :: "nat \<Rightarrow> nat \<Rightarrow> units \<Rightarrow> (nat \<times> units) option" where
  "continuation 0 acc us = Some (acc, us)"
| "continuation (Suc n) acc us =
     (case percent_byte us of
        None \<Rightarrow> None
      | Some (b, r) \<Rightarrow> if b div 64 = 2 then continuation n (acc * 64 + b mod 64) r else None)"

text \<open>Refused are overlong forms, surrogates and points beyond the last.\<close>

definition checked :: "nat \<Rightarrow> (nat \<times> units) option \<Rightarrow> (nat \<times> units) option" where
  "checked low r =
     (case r of
        None \<Rightarrow> None
      | Some (c, us) \<Rightarrow>
          if low \<le> c \<and> c \<le> 0x10FFFF \<and> \<not> high_surrogate c \<and> \<not> low_surrogate c then Some (c, us) else None)"

definition percent_point :: "units \<Rightarrow> (nat \<times> units) option" where
  "percent_point us =
     (case percent_byte us of
        None \<Rightarrow> None
      | Some (b, r) \<Rightarrow>
          if b < 0x80 then Some (b, r)
          else if b < 0xC0 then None
          else if b < 0xE0 then checked 0x80 (continuation 1 (b - 0xC0) r)
          else if b < 0xF0 then checked 0x800 (continuation 2 (b - 0xE0) r)
          else if b < 0xF8 then checked 0x10000 (continuation 3 (b - 0xF0) r)
          else None)"

definition utf16 :: "nat \<Rightarrow> units" where
  "utf16 c = (if c < 0x10000 then [c] else [0xD800 + (c - 0x10000) div 0x400, 0xDC00 + (c - 0x10000) mod 0x400])"

lemma percent_byte_shorter: "percent_byte us = Some (b, r) \<Longrightarrow> length r < length us"
  by (induction us rule: percent_byte.induct) (auto split: if_splits)

lemma continuation_shorter: "continuation n acc us = Some (c, r) \<Longrightarrow> length r \<le> length us"
  by (induction n acc us rule: continuation.induct) (force split: option.splits if_splits dest: percent_byte_shorter)+

lemma checked_Some: "checked low x = Some (c, r) \<Longrightarrow> x = Some (c, r)"
  by (auto simp: checked_def split: option.splits if_splits)

lemma percent_point_shorter: "percent_point us = Some (c, r) \<Longrightarrow> length r < length us"
  by (auto simp: percent_point_def split: option.splits if_splits
      dest!: checked_Some percent_byte_shorter continuation_shorter)

function (sequential) decodeURIComponent :: "units \<Rightarrow> units option" where
  "decodeURIComponent [] = Some []"
| "decodeURIComponent (u # us) =
     (if u \<noteq> 37 then map_option ((#) u) (decodeURIComponent us)
      else (case percent_point (u # us) of
              None \<Rightarrow> None
            | Some (c, r) \<Rightarrow> map_option ((@) (utf16 c)) (decodeURIComponent r)))"
  by pat_completeness auto

termination
  by (relation "measure length") (auto dest: percent_point_shorter)

declare decodeURIComponent.simps(2) [simp del]

subsection \<open>Decoding undoes encoding\<close>

lemma upper_hex_ok: "d < 16 \<Longrightarrow> is_hex (upper_hex d) \<and> hex_digit (upper_hex d) = d"
  by (auto simp: upper_hex_def is_hex_def hex_digit_def)

lemma percent_byte_percent: "b < 256 \<Longrightarrow> percent_byte (percent b @ r) = Some (b, r)"
  by (simp add: percent_def upper_hex_ok)

lemma continuation_percent:
  assumes "d < 64"
  shows "continuation (Suc n) acc (percent (128 + d) @ r) = continuation n (acc * 64 + d) r"
proof -
  have "(128 + d) div 64 = 2" using assms div_mult_self1 [of 64 d 2] by (simp add: add.commute)
  moreover have "(128 + d) mod 64 = d" using assms mod_mult_self1 [of d 2 64] by (simp add: add.commute)
  ultimately show ?thesis using assms by (simp add: percent_byte_percent)
qed

definition scalar :: "nat \<Rightarrow> bool" where
  "scalar c \<longleftrightarrow> c \<le> 0x10FFFF \<and> \<not> high_surrogate c \<and> \<not> low_surrogate c"

lemma base64_digits:
  fixes c :: nat
  shows "c div 64 * 64 + c mod 64 = c"
    and "(c div 4096 * 64 + c div 64 mod 64) = c div 64"
    and "(c div 262144 * 64 + c div 4096 mod 64) = c div 4096"
  using div_mult_mod_eq [of "c div 64" 64] div_mult_mod_eq [of "c div 4096" 64]
  by (simp_all add: div_mult2_eq [symmetric])

lemma percent_point_utf8:
  assumes "scalar c"
  shows "percent_point (concat (map percent (utf8 c)) @ r) = Some (c, r)"
proof -
  have top: "c < 0x110000" using assms by (simp add: scalar_def)
  consider "c < 0x80" | "0x80 \<le> c" "c < 0x800" | "0x800 \<le> c" "c < 0x10000" | "0x10000 \<le> c" by linarith
  then show ?thesis
  proof cases
    case 1
    then show ?thesis by (simp add: utf8_def percent_point_def percent_byte_percent)
  next
    case 2
    then have "c div 64 < 32" "\<not> c div 64 < 0" by auto
    with 2 assms show ?thesis
      by (simp add: utf8_def percent_point_def percent_byte_percent continuation_percent checked_def scalar_def
          numeral_2_eq_2 del: continuation.simps(2))
  next
    case 3
    then have "c div 4096 < 16" by auto
    with 3 assms show ?thesis
      by (simp add: utf8_def percent_point_def percent_byte_percent continuation_percent checked_def scalar_def
          base64_digits numeral_2_eq_2 del: continuation.simps(2))
  next
    case 4
    then have "c div 262144 < 8" using top by auto
    with 4 assms show ?thesis
      by (simp add: utf8_def percent_point_def percent_byte_percent continuation_percent checked_def scalar_def
          base64_digits numeral_3_eq_3 del: continuation.simps(2))
  qed
qed

lemma percent_utf8_Cons: "\<exists>t. concat (map percent (utf8 c)) = 37 # t"
  by (auto simp: utf8_def percent_def)

lemma decode_encode_point:
  assumes "scalar c"
  shows "decodeURIComponent (encode_point c @ r) = map_option ((@) (utf16 c)) (decodeURIComponent r)"
proof (cases "uri_unreserved c")
  case True
  then have "c \<noteq> 37" "c < 0x10000" by (auto simp: uri_unreserved_def is_digit_unit_def)
  with True show ?thesis by (simp add: encode_point_def decodeURIComponent.simps(2) utf16_def) (cases "decodeURIComponent r"; simp)
next
  case False
  obtain t where t: "concat (map percent (utf8 c)) = 37 # t" using percent_utf8_Cons by blast
  have "percent_point (37 # t @ r) = Some (c, r)" using percent_point_utf8 [OF assms, of r] by (simp add: t)
  with False show ?thesis by (simp add: encode_point_def t decodeURIComponent.simps(2))
qed

definition unit_text :: "units \<Rightarrow> bool" where
  "unit_text s \<longleftrightarrow> list_all (\<lambda>u. u < 0x10000) s \<and> code_points s \<noteq> None"

lemma code_points_scalar:
  "code_points s = Some cs \<Longrightarrow> list_all (\<lambda>u. u < 0x10000) s \<Longrightarrow> list_all scalar cs \<and> concat (map utf16 cs) = s"
proof (induction s arbitrary: cs rule: code_points.induct)
  case (3 u v us)
  show ?case
  proof (cases "high_surrogate u")
    case True
    with 3(3) have lo: "low_surrogate v" by (auto simp: high_surrogate_def low_surrogate_def split: if_splits)
    let ?c = "(u - 0xD800) * 0x400 + (v - 0xDC00) + 0x10000"
    obtain ds where ds: "code_points us = Some ds" "cs = ?c # ds"
      using 3(3) True lo by (auto simp: high_surrogate_def low_surrogate_def split: if_splits)
    have v: "v - 0xDC00 < 0x400" using lo by (auto simp: low_surrogate_def)
    have u: "u - 0xD800 < 0x400" using True by (auto simp: high_surrogate_def)
    have "?c - 0x10000 = (u - 0xD800) * 0x400 + (v - 0xDC00)" by simp
    moreover have "(k * 0x400 + d) div 0x400 = k" "(k * 0x400 + d) mod 0x400 = d" if "d < 0x400" for k d :: nat
      using that by auto
    ultimately have "utf16 ?c = [0xD800 + (u - 0xD800), 0xDC00 + (v - 0xDC00)]" using v by (simp only: utf16_def) simp
    then have "utf16 ?c = [u, v]" using True lo by (simp add: high_surrogate_def low_surrogate_def)
    moreover have "scalar ?c" using u v by (auto simp: scalar_def high_surrogate_def low_surrogate_def)
    ultimately show ?thesis using 3(1) [OF _ True lo ds(1)] 3(4) lo True ds(2)
      by (auto simp: high_surrogate_def low_surrogate_def)
  next
    case False
    with 3(3) have "\<not> low_surrogate u" by (auto split: if_splits)
    with False 3(3) obtain ds where "code_points (v # us) = Some ds" "cs = u # ds" by auto
    with 3(2) [OF \<open>\<not> low_surrogate u\<close> False] 3(4) \<open>\<not> low_surrogate u\<close> False show ?thesis
      by (auto simp: scalar_def utf16_def)
  qed
qed (auto simp: scalar_def utf16_def split: if_splits)

lemma decode_encode_points:
  "list_all scalar cs \<Longrightarrow> decodeURIComponent (concat (map encode_point cs)) = Some (concat (map utf16 cs))"
  by (induction cs) (simp_all add: decode_encode_point)

lemma decode_encode:
  assumes "unit_text s"
  shows "\<exists>t. encodeURIComponent s = Some t \<and> decodeURIComponent t = Some s"
proof -
  obtain cs where cs: "code_points s = Some cs" using assms by (auto simp: unit_text_def)
  with code_points_scalar [of s cs] assms show ?thesis
    by (auto simp: encodeURIComponent_def decode_encode_points unit_text_def)
qed

subsection \<open>The alphabet of encoded texts\<close>

definition uri_unit :: "nat \<Rightarrow> bool" where
  "uri_unit u \<longleftrightarrow> uri_unreserved u \<or> u = 37"

lemma upper_hex_unit: "d < 16 \<Longrightarrow> uri_unit (upper_hex d)"
  by (auto simp: uri_unit_def uri_unreserved_def upper_hex_def is_digit_unit_def)

lemma percent_units: "b < 256 \<Longrightarrow> list_all uri_unit (percent b)"
  by (simp add: percent_def upper_hex_unit) (simp add: uri_unit_def)

lemma utf8_bytes: "scalar c \<Longrightarrow> b \<in> set (utf8 c) \<Longrightarrow> b < 256"
proof -
  assume "scalar c"
  then have "c div 262144 < 8" "c < 0x10000 \<Longrightarrow> c div 4096 < 16" "c < 0x800 \<Longrightarrow> c div 64 < 32"
    by (auto simp: scalar_def)
  moreover have "n mod 64 < 64" for n :: nat by simp
  ultimately show "b \<in> set (utf8 c) \<Longrightarrow> b < 256"
    by (fastforce simp: utf8_def split: if_splits)
qed

lemma encode_point_units:
  assumes "scalar c"
  shows "list_all uri_unit (encode_point c)"
proof (cases "uri_unreserved c")
  case True
  then show ?thesis by (simp add: encode_point_def uri_unit_def)
next
  case False
  have "list_all uri_unit (percent b)" if "b \<in> set (utf8 c)" for b
    using that assms by (intro percent_units utf8_bytes)
  with False show ?thesis by (auto simp: encode_point_def list_all_iff)
qed

lemma encoded_units:
  assumes "encodeURIComponent s = Some t" and "list_all (\<lambda>u. u < 0x10000) s"
  shows "list_all uri_unit t"
proof -
  obtain cs where cs: "code_points s = Some cs" "t = concat (map encode_point cs)"
    using assms(1) by (auto simp: encodeURIComponent_def)
  with code_points_scalar [OF cs(1) assms(2)] show ?thesis
    using encode_point_units by (fastforce simp: list_all_iff)
qed

end
