(* ===== verification/Cookie.thy ===== *)
theory Cookie
  imports Uri_Component Json_Parse
begin

text \<open>
  \<open>js/jquery.cookie.js\<close>: writing, reading and removing cookies, as plain text or as JSON, raw or encoded. The plug-in works
  on \<open>document.cookie\<close>, which is modelled as a jar of cookies with the two accessors of a browser; what the page cannot
  decide (the text of a date so many days from now, whether an expiry text lies in the past, whether a cookie with given
  attributes reaches this page) is the record \<open>host\<close>, an argument of the definitions.
\<close>

subsection \<open>The document's cookies\<close>

record host =
  h_days :: "xnum \<Rightarrow> units"
  h_past :: "units \<Rightarrow> bool"
  h_reaches :: "units option \<Rightarrow> units option \<Rightarrow> bool"
  h_text :: "json \<Rightarrow> units"

record cookie =
  ck_name :: units
  ck_value :: units
  ck_path :: "units option"
  ck_domain :: "units option"

type_synonym jar = "cookie list"

definition blank :: "nat \<Rightarrow> bool" where
  "blank u \<longleftrightarrow> u = 32 \<or> u = 9"

definition trim_units :: "units \<Rightarrow> units" where
  "trim_units s = rev (dropWhile blank (rev (dropWhile blank s)))"

text \<open>A part \<open>name=value\<close> of the assigned text, split at its first equals sign.\<close>

definition name_value :: "units \<Rightarrow> (units \<times> units) option" where
  "name_value p =
     (if 61 \<in> set p
      then Some (trim_units (takeWhile (\<lambda>u. u \<noteq> 61) p), trim_units (tl (dropWhile (\<lambda>u. u \<noteq> 61) p)))
      else None)"

definition attribute :: "string \<Rightarrow> units list \<Rightarrow> units option" where
  "attribute k parts =
     map_of (rev (List.map_filter name_value parts)) (ascii k)"

definition same_cookie :: "cookie \<Rightarrow> cookie \<Rightarrow> bool" where
  "same_cookie c d \<longleftrightarrow> ck_name c = ck_name d \<and> ck_path c = ck_path d \<and> ck_domain c = ck_domain d"

fun put_cookie :: "cookie \<Rightarrow> jar \<Rightarrow> jar" where
  "put_cookie c [] = [c]"
| "put_cookie c (d # ds) = (if same_cookie c d then c # ds else d # put_cookie c ds)"

text \<open>\<open>document.cookie = text\<close>: stores, replaces or, with an expiry in the past, deletes one cookie.\<close>

definition set_cookie :: "host \<Rightarrow> units \<Rightarrow> jar \<Rightarrow> jar" where
  "set_cookie h t jar =
     (let parts = js_split 59 t
      in case name_value (hd parts) of
           None \<Rightarrow> jar
         | Some (n, v) \<Rightarrow>
             if n = [] then jar
             else
               (let c = \<lparr>ck_name = n, ck_value = v, ck_path = attribute ''path'' (tl parts),
                         ck_domain = attribute ''domain'' (tl parts)\<rparr>
                in case attribute ''expires'' (tl parts) of
                     Some e \<Rightarrow> if h_past h e then filter (\<lambda>d. \<not> same_cookie c d) jar else put_cookie c jar
                   | None \<Rightarrow> put_cookie c jar))"

text \<open>\<open>document.cookie\<close> as the page reads it.\<close>

definition visible :: "host \<Rightarrow> jar \<Rightarrow> jar" where
  "visible h jar = filter (\<lambda>c. h_reaches h (ck_path c) (ck_domain c)) jar"

definition document_cookie :: "host \<Rightarrow> jar \<Rightarrow> units" where
  "document_cookie h jar = js_join [59, 32] (map (\<lambda>c. ck_name c @ [61] @ ck_value c) (visible h jar))"

subsection \<open>The plug-in\<close>

datatype expiry = NoExpiry | Days xnum | DateText units

record cookie_options =
  ko_expires :: expiry
  ko_path :: "units option"
  ko_domain :: "units option"
  ko_secure :: "bool option"

record cookie_config =
  kc_json :: bool
  kc_raw :: bool
  kc_defaults :: cookie_options

definition no_options :: cookie_options where
  "no_options = \<lparr>ko_expires = NoExpiry, ko_path = None, ko_domain = None, ko_secure = None\<rparr>"

definition given :: "'a option \<Rightarrow> 'a option \<Rightarrow> 'a option" where
  "given dflt x = (case x of None \<Rightarrow> dflt | Some _ \<Rightarrow> x)"

definition extend_options :: "cookie_options \<Rightarrow> cookie_options \<Rightarrow> cookie_options" where
  "extend_options d ob =
     \<lparr>ko_expires = (if ko_expires ob = NoExpiry then ko_expires d else ko_expires ob),
      ko_path = given (ko_path d) (ko_path ob), ko_domain = given (ko_domain d) (ko_domain ob),
      ko_secure = given (ko_secure d) (ko_secure ob)\<rparr>"

definition pluses :: "units \<Rightarrow> units" where
  "pluses s = map (\<lambda>u. if u = 43 then 32 else u) s"

definition raw :: "units \<Rightarrow> units option" where
  "raw s = Some s"

definition decoded :: "units \<Rightarrow> units option" where
  "decoded s = decodeURIComponent (pluses s)"

text \<open>\<open>s.replace(/\\"/g, '"')\<close> and \<open>s.replace(/\\\\/g, '\\')\<close>: a backslash in front of \<open>c\<close> is dropped.\<close>

fun drop_backslash :: "nat \<Rightarrow> units \<Rightarrow> units" where
  "drop_backslash c (u # v # us) =
     (if u = 92 \<and> v = c then c # drop_backslash c us else u # drop_backslash c (v # us))"
| "drop_backslash c us = us"

definition unquoted :: "units \<Rightarrow> units" where
  "unquoted s =
     (if s \<noteq> [] \<and> hd s = 34 then drop_backslash 92 (drop_backslash 34 (butlast (tl s))) else s)"

definition converted :: "cookie_config \<Rightarrow> units \<Rightarrow> json" where
  "converted cfg s =
     (if kc_json cfg then (case json_parse (unquoted s) None of Inl _ \<Rightarrow> JUndef | Inr v \<Rightarrow> v) else JStr (unquoted s))"

text \<open>The text that is stored; \<open>None\<close> is \<open>undefined\<close>. The fuel of \<open>stringify\<close> is the depth of the value.\<close>

definition value_text :: "host \<Rightarrow> cookie_config \<Rightarrow> json \<Rightarrow> units option" where
  "value_text h cfg v =
     (if kc_json cfg
      then (case stringify (jdepth v) v NoReplacer NoSpace of Inr (Some t) \<Rightarrow> t | _ \<Rightarrow> None)
      else Some (value_string (h_text h) v))"

text \<open>An element of the array that \<open>join('')\<close> concatenates; \<open>undefined\<close> is spelled only by \<open>encodeURIComponent\<close>.\<close>

definition stored :: "cookie_config \<Rightarrow> units option \<Rightarrow> units option" where
  "stored cfg t =
     (if kc_raw cfg then Some (case t of None \<Rightarrow> [] | Some s \<Rightarrow> s)
      else encodeURIComponent (case t of None \<Rightarrow> ascii ''undefined'' | Some s \<Rightarrow> s))"

definition expires_text :: "host \<Rightarrow> expiry \<Rightarrow> units" where
  "expires_text h e =
     (case e of NoExpiry \<Rightarrow> [] | Days n \<Rightarrow> ascii ''; expires='' @ h_days h n | DateText t \<Rightarrow> ascii ''; expires='' @ t)"

definition attr_text :: "string \<Rightarrow> units option \<Rightarrow> units" where
  "attr_text k x = (case x of None \<Rightarrow> [] | Some s \<Rightarrow> if s = [] then [] else ascii (''; '' @ k @ ''='') @ s)"

definition cookie_text :: "host \<Rightarrow> cookie_config \<Rightarrow> units option \<Rightarrow> json \<Rightarrow> cookie_options \<Rightarrow> units option" where
  "cookie_text h cfg key v ob =
     (let ob = extend_options (kc_defaults cfg) ob
      in case (stored cfg key, stored cfg (value_text h cfg v)) of
           (Some k, Some t) \<Rightarrow>
             Some (k @ [61] @ t @ expires_text h (ko_expires ob) @ attr_text ''path'' (ko_path ob) @
               attr_text ''domain'' (ko_domain ob) @ (if ko_secure ob = Some True then ascii ''; secure'' else []))
         | _ \<Rightarrow> None)"

text \<open>\<open>s.split('; ')\<close>\<close>

fun split_cookies :: "units \<Rightarrow> units list" where
  "split_cookies (u # v # us) =
     (if u = 59 \<and> v = 32 then [] # split_cookies us
      else (case split_cookies (v # us) of [] \<Rightarrow> [[u]] | w # ws \<Rightarrow> (u # w) # ws))"
| "split_cookies us = [us]"

datatype uri_error = URIError

fun read_cookies ::
  "cookie_config \<Rightarrow> units option \<Rightarrow> units list \<Rightarrow> (units \<times> json) list \<Rightarrow> uri_error + json" where
  "read_cookies cfg key [] acc = Inr (if key = None \<or> key = Some [] then JObj acc else JUndef)"
| "read_cookies cfg key (c # cs) acc =
     (let decode = (if kc_raw cfg then raw else decoded);
          parts = js_split 61 c
      in case (decode (hd parts), decode (js_join [61] (tl parts))) of
           (Some name, Some cookie) \<Rightarrow>
             if key \<noteq> None \<and> key \<noteq> Some [] then
               (if key = Some name then Inr (converted cfg cookie) else read_cookies cfg key cs acc)
             else read_cookies cfg key cs (AList.update name (converted cfg cookie) acc)
         | _ \<Rightarrow> Inl URIError)"

definition cookie_read :: "host \<Rightarrow> cookie_config \<Rightarrow> units option \<Rightarrow> jar \<Rightarrow> uri_error + json" where
  "cookie_read h cfg key jar = read_cookies cfg key (split_cookies (document_cookie h jar)) []"

text \<open>\<open>$.cookie(key, value, options)\<close>\<close>

definition cookie_call ::
  "host \<Rightarrow> cookie_config \<Rightarrow> units option \<Rightarrow> json \<Rightarrow> cookie_options \<Rightarrow> jar \<Rightarrow> (uri_error + json) \<times> jar" where
  "cookie_call h cfg key v ob jar =
     (if v \<noteq> JUndef then
        (case cookie_text h cfg key v ob of
           None \<Rightarrow> (Inl URIError, jar)
         | Some t \<Rightarrow> (Inr (JStr t), set_cookie h t jar))
      else (cookie_read h cfg key jar, jar))"

definition removeCookie ::
  "host \<Rightarrow> cookie_config \<Rightarrow> units option \<Rightarrow> cookie_options \<Rightarrow> jar \<Rightarrow> (uri_error + bool) \<times> jar" where
  "removeCookie h cfg key ob jar =
     (case cookie_call h cfg key JUndef no_options jar of
        (Inl e, jar) \<Rightarrow> (Inl e, jar)
      | (Inr v, jar) \<Rightarrow>
          if v = JUndef then (Inr False, jar)
          else (case cookie_call h cfg key (JStr []) (ob\<lparr>ko_expires := Days (XDec (Dec (- 1) 0))\<rparr>) jar of
                  (Inl e, jar) \<Rightarrow> (Inl e, jar)
                | (Inr _, jar) \<Rightarrow> (Inr True, jar)))"

subsection \<open>Lemmas: what the browser makes of the assigned text\<close>

definition clean :: "units \<Rightarrow> bool" where
  "clean s \<longleftrightarrow> 59 \<notin> set s \<and> trim_units s = s"

lemma uri_unit_clean: "list_all uri_unit s \<Longrightarrow> clean s \<and> 61 \<notin> set s \<and> 34 \<notin> set s \<and> pluses s = s"
proof -
  assume s: "list_all uri_unit s"
  have u: "u \<noteq> 59" "u \<noteq> 61" "u \<noteq> 34" "u \<noteq> 43" "\<not> blank u" if "uri_unit u" for u
    using that by (auto simp: uri_unit_def uri_unreserved_def is_digit_unit_def blank_def)
  have trim: "dropWhile blank t = t" if "list_all uri_unit t" for t
    using that u by (cases t) auto
  have "trim_units s = s" using s by (simp add: trim_units_def trim)
  moreover have "pluses s = s" using s u unfolding pluses_def by (intro map_idI) (auto simp: list_all_iff)
  ultimately show ?thesis using s u by (auto simp: clean_def list_all_iff)
qed

lemma split_attributes:
  fixes w :: units
  assumes "59 \<notin> set w" and "\<forall>a\<in>set as. 59 \<notin> set a"
  shows "js_split 59 (w @ concat (map (\<lambda>a. 59 # 32 # a) as)) = w # map ((#) 32) as"
  using assms
proof (induction as arbitrary: w)
  case Nil
  then show ?case by (simp add: js_split_no_sep)
next
  case (Cons a as)
  have "js_split 59 (w @ 59 # (32 # a) @ concat (map (\<lambda>a. 59 # 32 # a) as)) = w # (32 # a) # map ((#) 32) as"
    using Cons.prems Cons.IH [of "32 # a"] by (subst js_split_append) simp_all
  then show ?case by simp
qed

lemma trim_blank: "blank u \<Longrightarrow> trim_units (u # s) = trim_units s"
  by (simp add: trim_units_def)

lemma name_value_eq: "61 \<notin> set n \<Longrightarrow> name_value (n @ 61 # v) = Some (trim_units n, trim_units v)"
  by (simp add: name_value_def takeWhile_append dropWhile_append)

definition nonempty :: "units option \<Rightarrow> units option" where
  "nonempty x = (if x = Some [] then None else x)"

definition expiry_time :: "host \<Rightarrow> expiry \<Rightarrow> units option" where
  "expiry_time h e = (case e of NoExpiry \<Rightarrow> None | Days n \<Rightarrow> Some (h_days h n) | DateText t \<Rightarrow> Some t)"

definition attr_part :: "string \<Rightarrow> units option \<Rightarrow> units list" where
  "attr_part k x = (case x of None \<Rightarrow> [] | Some s \<Rightarrow> [ascii k @ 61 # s])"

definition attr_parts :: "host \<Rightarrow> cookie_options \<Rightarrow> units list" where
  "attr_parts h ob =
     attr_part ''expires'' (expiry_time h (ko_expires ob)) @ attr_part ''path'' (nonempty (ko_path ob)) @
     attr_part ''domain'' (nonempty (ko_domain ob)) @ (if ko_secure ob = Some True then [ascii ''secure''] else [])"

lemma attribute_text:
  "expires_text h (ko_expires ob) @ attr_text ''path'' (ko_path ob) @ attr_text ''domain'' (ko_domain ob) @
     (if ko_secure ob = Some True then ascii ''; secure'' else []) =
   concat (map (\<lambda>a. 59 # 32 # a) (attr_parts h ob))"
  by (auto simp: attr_parts_def expires_text_def attr_text_def attr_part_def expiry_time_def nonempty_def
      split: option.splits expiry.splits)

definition clean_option :: "units option \<Rightarrow> bool" where
  "clean_option x = (case x of None \<Rightarrow> True | Some s \<Rightarrow> clean s)"

definition clean_options :: "host \<Rightarrow> cookie_options \<Rightarrow> bool" where
  "clean_options h ob \<longleftrightarrow> clean_option (expiry_time h (ko_expires ob)) \<and> clean_option (ko_path ob) \<and> clean_option (ko_domain ob)"

lemma clean_parts: "clean_options h ob \<Longrightarrow> a \<in> set (attr_parts h ob) \<Longrightarrow> 59 \<notin> set a"
  by (auto simp: clean_options_def clean_option_def clean_def attr_parts_def attr_part_def nonempty_def
      split: option.splits if_splits)

lemma name_value_attr:
  "clean s \<Longrightarrow> name_value (32 # 101 # 120 # 112 # 105 # 114 # 101 # 115 # 61 # s) = Some (ascii ''expires'', s)"
  "clean s \<Longrightarrow> name_value (32 # 112 # 97 # 116 # 104 # 61 # s) = Some (ascii ''path'', s)"
  "clean s \<Longrightarrow> name_value (32 # 100 # 111 # 109 # 97 # 105 # 110 # 61 # s) = Some (ascii ''domain'', s)"
  "name_value (32 # ascii ''secure'') = None"
  by (simp_all add: name_value_def trim_units_def clean_def blank_def)

definition pair_of :: "string \<Rightarrow> units option \<Rightarrow> (units \<times> units) list" where
  "pair_of k x = (case x of None \<Rightarrow> [] | Some s \<Rightarrow> [(ascii k, s)])"

lemma map_of_pair [simp]: "map_of (pair_of k x) = (\<lambda>n. if n = ascii k then x else None)"
  by (auto simp: pair_of_def fun_eq_iff split: option.splits)

lemma rev_pair [simp]: "rev (pair_of k x) = pair_of k x"
  by (simp add: pair_of_def split: option.splits)

lemma map_filter_append: "List.map_filter g (xs @ ys) = List.map_filter g xs @ List.map_filter g ys"
  by (simp add: List.map_filter_def)

lemma parts_found:
  assumes "clean_option x"
  shows "List.map_filter name_value (map ((#) 32) (attr_part ''expires'' x)) = pair_of ''expires'' x"
    and "List.map_filter name_value (map ((#) 32) (attr_part ''path'' x)) = pair_of ''path'' x"
    and "List.map_filter name_value (map ((#) 32) (attr_part ''domain'' x)) = pair_of ''domain'' x"
  using assms by (cases x; simp add: clean_option_def attr_part_def pair_of_def name_value_attr List.map_filter_simps)+

lemma attributes_found:
  assumes "clean_options h ob"
  shows "attribute ''path'' (map ((#) 32) (attr_parts h ob)) = nonempty (ko_path ob)"
    and "attribute ''domain'' (map ((#) 32) (attr_parts h ob)) = nonempty (ko_domain ob)"
    and "attribute ''expires'' (map ((#) 32) (attr_parts h ob)) = expiry_time h (ko_expires ob)"
proof -
  have "clean_option (nonempty (ko_path ob))" "clean_option (nonempty (ko_domain ob))"
    using assms by (auto simp: clean_options_def clean_option_def nonempty_def)
  moreover have "List.map_filter name_value (map ((#) 32) (if ko_secure ob = Some True then [ascii ''secure''] else [])) = []"
    using name_value_attr(4) by (simp add: List.map_filter_simps)
  ultimately have "List.map_filter name_value (map ((#) 32) (attr_parts h ob)) =
      pair_of ''expires'' (expiry_time h (ko_expires ob)) @ pair_of ''path'' (nonempty (ko_path ob)) @
      pair_of ''domain'' (nonempty (ko_domain ob))"
    using assms by (simp add: attr_parts_def clean_options_def map_filter_append parts_found)
  then show "attribute ''path'' (map ((#) 32) (attr_parts h ob)) = nonempty (ko_path ob)"
    and "attribute ''domain'' (map ((#) 32) (attr_parts h ob)) = nonempty (ko_domain ob)"
    and "attribute ''expires'' (map ((#) 32) (attr_parts h ob)) = expiry_time h (ko_expires ob)"
    by (simp_all add: attribute_def map_add_def split: option.splits)
qed

definition stored_cookie :: "units \<Rightarrow> units \<Rightarrow> cookie_options \<Rightarrow> cookie" where
  "stored_cookie k t ob = \<lparr>ck_name = k, ck_value = t, ck_path = nonempty (ko_path ob), ck_domain = nonempty (ko_domain ob)\<rparr>"

definition expired_options :: "host \<Rightarrow> cookie_options \<Rightarrow> bool" where
  "expired_options h ob = (case expiry_time h (ko_expires ob) of None \<Rightarrow> False | Some e \<Rightarrow> h_past h e)"

lemma set_cookie_text:
  assumes "list_all uri_unit k" and "list_all uri_unit t" and "k \<noteq> []" and "clean_options h ob"
  shows "set_cookie h (k @ 61 # t @ concat (map (\<lambda>a. 59 # 32 # a) (attr_parts h ob))) jar =
    (if expired_options h ob then filter (\<lambda>d. \<not> same_cookie (stored_cookie k t ob) d) jar
     else put_cookie (stored_cookie k t ob) jar)"
proof -
  note k = uri_unit_clean [OF assms(1)] and t = uri_unit_clean [OF assms(2)]
  have "js_split 59 ((k @ 61 # t) @ concat (map (\<lambda>a. 59 # 32 # a) (attr_parts h ob))) =
      (k @ 61 # t) # map ((#) 32) (attr_parts h ob)"
    using k t clean_parts [OF assms(4)] by (intro split_attributes) (auto simp: clean_def)
  then show ?thesis
    using k t assms(3) by (simp add: set_cookie_def name_value_eq attributes_found [OF assms(4)] clean_def
        stored_cookie_def expired_options_def split: option.splits)
qed

subsection \<open>Lemmas: reading\<close>

lemma split_cookies_plain: "59 \<notin> set w \<Longrightarrow> split_cookies w = [w]"
  by (induction w rule: split_cookies.induct) auto

lemma split_cookies_sep: "59 \<notin> set w \<Longrightarrow> split_cookies (w @ 59 # 32 # s) = w # split_cookies s"
proof (induction w)
  case (Cons u w)
  then have "split_cookies (w @ 59 # 32 # s) = w # split_cookies s" by simp
  with Cons.prems show ?case by (cases w) auto
qed simp

lemma split_cookies_join:
  "ws \<noteq> [] \<Longrightarrow> (\<And>w. w \<in> set ws \<Longrightarrow> 59 \<notin> set w) \<Longrightarrow> split_cookies (js_join [59, 32] ws) = ws"
proof (induction ws)
  case (Cons w ws)
  show ?case
  proof (cases "ws = []")
    case True
    with Cons show ?thesis by (simp add: split_cookies_plain)
  next
    case False
    with Cons show ?thesis by (simp add: js_join_Cons split_cookies_sep)
  qed
qed simp

definition cookie_pair :: "cookie \<Rightarrow> units" where
  "cookie_pair c = ck_name c @ 61 # ck_value c"

text \<open>What the plug-in can read: a cookie without separators in it whose escapes are well formed.\<close>

definition readable :: "cookie \<Rightarrow> bool" where
  "readable c \<longleftrightarrow> 59 \<notin> set (cookie_pair c) \<and> 61 \<notin> set (ck_name c) \<and>
     decoded (ck_name c) \<noteq> None \<and> decoded (ck_value c) \<noteq> None"

lemma read_step:
  assumes "\<not> kc_raw cfg" and "readable c" and "k \<noteq> []"
  shows "read_cookies cfg (Some k) (cookie_pair c # ws) acc =
    (if decoded (ck_name c) = Some k then Inr (converted cfg (the (decoded (ck_value c))))
     else read_cookies cfg (Some k) ws acc)"
proof -
  have "js_split 61 (cookie_pair c) = ck_name c # js_split 61 (ck_value c)"
    using assms(2) by (simp add: cookie_pair_def readable_def js_split_append)
  then show ?thesis using assms by (auto simp: readable_def js_join_split)
qed

lemma read_cookies_first:
  assumes "\<not> kc_raw cfg" and "k \<noteq> []" and "\<forall>d\<in>set cs. readable d"
  shows "read_cookies cfg (Some k) (map cookie_pair cs) acc =
    (case find (\<lambda>c. decoded (ck_name c) = Some k) cs of
       None \<Rightarrow> Inr JUndef
     | Some c \<Rightarrow> Inr (converted cfg (the (decoded (ck_value c)))))"
  using assms(3) by (induction cs) (use assms(1,2) in \<open>simp_all add: read_step del: read_cookies.simps(2)\<close>)

lemma cookie_read_first:
  assumes "\<not> kc_raw cfg" and "k \<noteq> []" and "\<forall>d\<in>set (visible h jar). readable d"
  shows "cookie_read h cfg (Some k) jar =
    (case find (\<lambda>c. decoded (ck_name c) = Some k) (visible h jar) of
       None \<Rightarrow> Inr JUndef
     | Some c \<Rightarrow> Inr (converted cfg (the (decoded (ck_value c)))))"
proof (cases "visible h jar = []")
  case True
  then show ?thesis using assms(1,2)
    by (simp add: cookie_read_def document_cookie_def decoded_def pluses_def)
next
  case False
  have "document_cookie h jar = js_join [59, 32] (map cookie_pair (visible h jar))"
    by (simp add: document_cookie_def cookie_pair_def [abs_def])
  moreover have "split_cookies \<dots> = map cookie_pair (visible h jar)"
    using False assms(3) by (intro split_cookies_join) (auto simp: readable_def)
  ultimately show ?thesis
    using read_cookies_first [OF assms] by (simp add: cookie_read_def)
qed

text \<open>Where a stored cookie ends up: in the place of the cookie it replaces, or at the end.\<close>

lemma put_cookie_split:
  "\<exists>pre post. put_cookie c jar = pre @ c # post \<and> (\<forall>d\<in>set pre. d \<in> set jar \<and> \<not> same_cookie c d) \<and> set post \<subseteq> set jar"
proof (induction jar)
  case Nil
  then show ?case by (intro exI [of _ "[]"]) simp
next
  case (Cons d ds)
  then obtain pre post where IH: "put_cookie c ds = pre @ c # post"
      "\<forall>d\<in>set pre. d \<in> set ds \<and> \<not> same_cookie c d" "set post \<subseteq> set ds" by blast
  show ?case
  proof (cases "same_cookie c d")
    case True
    then show ?thesis by (intro exI [of _ "[]"] exI [of _ ds]) auto
  next
    case False
    with IH show ?thesis by (intro exI [of _ "d # pre"] exI [of _ post]) auto
  qed
qed

text \<open>The jar of a page on which a cookie \<open>c\<close> named \<open>k\<close> can be told apart from all others.\<close>

definition jar_ok :: "host \<Rightarrow> units \<Rightarrow> cookie \<Rightarrow> jar \<Rightarrow> bool" where
  "jar_ok h k c jar \<longleftrightarrow>
     list_all (\<lambda>d. readable d \<and> (decoded (ck_name d) = Some k \<longrightarrow> same_cookie c d)) (visible h jar)"

lemma find_stored:
  assumes "jar_ok h k c jar" and "readable c" and "decoded (ck_name c) = Some k" and "h_reaches h (ck_path c) (ck_domain c)"
  shows "find (\<lambda>c. decoded (ck_name c) = Some k) (visible h (put_cookie c jar)) = Some c \<and>
    (\<forall>d\<in>set (visible h (put_cookie c jar)). readable d)"
proof -
  obtain pre post where p: "put_cookie c jar = pre @ c # post"
      "\<forall>d\<in>set pre. d \<in> set jar \<and> \<not> same_cookie c d" "set post \<subseteq> set jar"
    using put_cookie_split by blast
  have "find (\<lambda>c. decoded (ck_name c) = Some k) (visible h pre @ c # visible h post) = Some c"
    using p(2) assms(1,3) by (induction pre) (auto simp: jar_ok_def visible_def list_all_iff)
  moreover have "\<forall>d\<in>set (visible h (put_cookie c jar)). readable d"
    using p assms(1,2) by (auto simp: jar_ok_def visible_def list_all_iff)
  ultimately show ?thesis using assms(4) by (simp add: p(1) visible_def)
qed

subsection \<open>Lemmas: a written cookie is read back\<close>

lemma encoded_cookie:
  assumes "unit_text s"
  obtains t where "encodeURIComponent s = Some t" "list_all uri_unit t" "decoded t = Some s" "s \<noteq> [] \<Longrightarrow> t \<noteq> []"
proof -
  from decode_encode [OF assms] obtain t where t: "encodeURIComponent s = Some t" "decodeURIComponent t = Some s" by blast
  moreover have u: "list_all uri_unit t" using encoded_units [OF t(1)] assms by (simp add: unit_text_def)
  moreover have "s \<noteq> [] \<Longrightarrow> t \<noteq> []" using t(2) by auto
  ultimately show thesis using that [of t] uri_unit_clean [OF u] by (auto simp: decoded_def)
qed

lemma readable_stored:
  assumes "list_all uri_unit k" "list_all uri_unit t" "decoded k \<noteq> None" "decoded t \<noteq> None"
  shows "readable (stored_cookie k t ob)"
  using assms uri_unit_clean [OF assms(1)] uri_unit_clean [OF assms(2)]
  by (simp add: readable_def stored_cookie_def cookie_pair_def clean_def)

lemma cookie_text_eq:
  assumes "\<not> kc_raw cfg" and "encodeURIComponent k = Some k'" and "value_text h cfg v = Some s" and "encodeURIComponent s = Some t"
  shows "cookie_text h cfg (Some k) v ob =
    Some (k' @ 61 # t @ concat (map (\<lambda>a. 59 # 32 # a) (attr_parts h (extend_options (kc_defaults cfg) ob))))"
  using assms by (simp add: cookie_text_def stored_def Let_def attribute_text [symmetric])

text \<open>The cookie that \<open>$.cookie(k, v, ob)\<close> stores, when the names and texts can be encoded.\<close>

definition written :: "host \<Rightarrow> cookie_config \<Rightarrow> units \<Rightarrow> json \<Rightarrow> cookie_options \<Rightarrow> cookie" where
  "written h cfg k v ob =
     stored_cookie (the (stored cfg (Some k))) (the (stored cfg (value_text h cfg v))) (extend_options (kc_defaults cfg) ob)"

text \<open>A page on which the cookie \<open>k\<close> with options \<open>ob\<close> can be kept: its attributes are free of separators, it reaches this
  page, and every other cookie of the page is readable and differs from it in its name.\<close>

definition keeps_cookie :: "host \<Rightarrow> cookie_config \<Rightarrow> units \<Rightarrow> json \<Rightarrow> cookie_options \<Rightarrow> jar \<Rightarrow> bool" where
  "keeps_cookie h cfg k v ob jar \<longleftrightarrow>
     (let ob' = extend_options (kc_defaults cfg) ob
      in \<not> kc_raw cfg \<and> unit_text k \<and> k \<noteq> [] \<and> clean_options h ob' \<and>
         h_reaches h (nonempty (ko_path ob')) (nonempty (ko_domain ob')) \<and> jar_ok h k (written h cfg k v ob) jar)"

lemma cookie_write:
  assumes "keeps_cookie h cfg k v ob jar" and "v \<noteq> JUndef" and "value_text h cfg v = Some s" and "unit_text s"
  shows "\<exists>r. cookie_call h cfg (Some k) v ob jar =
      (Inr r, if expired_options h (extend_options (kc_defaults cfg) ob)
              then filter (\<lambda>d. \<not> same_cookie (written h cfg k v ob) d) jar
              else put_cookie (written h cfg k v ob) jar)"
    and "readable (written h cfg k v ob)"
    and "decoded (ck_name (written h cfg k v ob)) = Some k"
    and "decoded (ck_value (written h cfg k v ob)) = Some s"
proof -
  have k: "unit_text k" "k \<noteq> []" "\<not> kc_raw cfg" and c: "clean_options h (extend_options (kc_defaults cfg) ob)"
    using assms(1) by (simp_all add: keeps_cookie_def Let_def)
  obtain k' where k': "encodeURIComponent k = Some k'" "list_all uri_unit k'" "decoded k' = Some k" "k' \<noteq> []"
    using encoded_cookie [OF k(1)] k(2) by metis
  obtain t where t: "encodeURIComponent s = Some t" "list_all uri_unit t" "decoded t = Some s"
    using encoded_cookie [OF assms(4)] by metis
  have w: "written h cfg k v ob = stored_cookie k' t (extend_options (kc_defaults cfg) ob)"
    using k(3) k'(1) t(1) assms(3) by (simp add: written_def stored_def)
  show "\<exists>r. cookie_call h cfg (Some k) v ob jar =
      (Inr r, if expired_options h (extend_options (kc_defaults cfg) ob)
              then filter (\<lambda>d. \<not> same_cookie (written h cfg k v ob) d) jar
              else put_cookie (written h cfg k v ob) jar)"
    using assms(2) cookie_text_eq [OF k(3) k'(1) assms(3) t(1), of ob] set_cookie_text [OF k'(2) t(2) k'(4) c, of jar]
    by (simp add: cookie_call_def w)
  show "readable (written h cfg k v ob)"
    using readable_stored [OF k'(2) t(2)] k'(3) t(3) by (simp add: w)
  show "decoded (ck_name (written h cfg k v ob)) = Some k" "decoded (ck_value (written h cfg k v ob)) = Some s"
    using k'(3) t(3) by (simp_all add: w stored_cookie_def)
qed

lemma read_written:
  assumes "keeps_cookie h cfg k v ob jar" and "v \<noteq> JUndef" and "value_text h cfg v = Some s" and "unit_text s"
    and "\<not> expired_options h (extend_options (kc_defaults cfg) ob)"
  shows "\<exists>r. cookie_call h cfg (Some k) v ob jar = (Inr r, put_cookie (written h cfg k v ob) jar)"
    and "cookie_call h cfg (Some k) JUndef no_options (put_cookie (written h cfg k v ob) jar) =
      (Inr (converted cfg s), put_cookie (written h cfg k v ob) jar)"
proof -
  note w = cookie_write [OF assms(1-4)]
  show "\<exists>r. cookie_call h cfg (Some k) v ob jar = (Inr r, put_cookie (written h cfg k v ob) jar)"
    using w(1) assms(5) by simp
  have "h_reaches h (ck_path (written h cfg k v ob)) (ck_domain (written h cfg k v ob))"
    using assms(1) by (simp add: keeps_cookie_def written_def stored_cookie_def Let_def)
  moreover have "jar_ok h k (written h cfg k v ob) jar" "\<not> kc_raw cfg" "k \<noteq> []"
    using assms(1) by (simp_all add: keeps_cookie_def Let_def)
  ultimately show "cookie_call h cfg (Some k) JUndef no_options (put_cookie (written h cfg k v ob) jar) =
      (Inr (converted cfg s), put_cookie (written h cfg k v ob) jar)"
    using find_stored [OF _ w(2,3)] w(4) by (simp add: cookie_call_def cookie_read_first)
qed

text \<open>Only the JSON texts of strings begin with a quotation mark.\<close>

lemma json_number_front: "take 1 (ascii (dec_str d)) \<noteq> [34]"
proof (cases d)
  case (Dec m e)
  show ?thesis
  proof (cases "0 \<le> m")
    case True
    from good_number_dec_str [OF this, of e] obtain c t where "dec_str (Dec m e) = c # t" "is_digit c"
      unfolding good_number_def by blast
    then show ?thesis by (auto simp: Dec is_digit_def)
  next
    case False
    then show ?thesis by (simp add: Dec Let_def)
  qed
qed

lemma json_text_front: "plain v \<Longrightarrow> (\<forall>s. v \<noteq> JStr s) \<Longrightarrow> unquoted (jtext ind mind v) = jtext ind mind v"
proof -
  assume v: "plain v" "\<forall>s. v \<noteq> JStr s"
  then have "take 1 (jtext ind mind v) \<noteq> [34]"
  proof (cases v)
    case (JNum x)
    with v(1) obtain d where "x = XDec d" by (cases x) auto
    with JNum json_number_front show ?thesis by simp
  qed (auto simp: wrap_def)
  then show ?thesis by (cases "jtext ind mind v") (simp_all add: unquoted_def)
qed

lemma value_text_json: "kc_json cfg \<Longrightarrow> plain v \<Longrightarrow> value_text h cfg v = Some (jtext [] [] v)"
  by (simp add: value_text_def stringify_plain indent_of_def)

lemma drop_backslash_none: "92 \<notin> set s \<Longrightarrow> drop_backslash c s = s"
  by (induction c s rule: drop_backslash.induct) auto

subsection \<open>Properties\<close>

text \<open>C12: text cookies round-trip: on a page where the cookie can be kept and with an expiry that is not in the past, \<open>$.cookie(k, s)\<close>
  stores any well-formed text that does not begin with a quotation mark (spaces, separators, plus signs and characters
  outside ASCII included) and \<open>$.cookie(k)\<close> then returns exactly it, whatever other cookies the page has.\<close>

theorem cookie_roundtrip:
  assumes "keeps_cookie h cfg k (JStr s) ob jar" and "\<not> kc_json cfg" and "unit_text s" and "take 1 s \<noteq> [34]"
    and "\<not> expired_options h (extend_options (kc_defaults cfg) ob)"
  shows "\<exists>r jar'. cookie_call h cfg (Some k) (JStr s) ob jar = (Inr r, jar') \<and>
    cookie_call h cfg (Some k) JUndef no_options jar' = (Inr (JStr s), jar')"
proof -
  have "value_text h cfg (JStr s) = Some s" using assms(2) by (simp add: value_text_def)
  moreover have "converted cfg s = JStr s"
    using assms(2,4) by (cases s) (simp_all add: converted_def unquoted_def)
  ultimately show ?thesis using read_written [OF assms(1) _ _ assms(3,5)] by fastforce
qed

definition ex_host :: host where
  "ex_host = \<lparr>h_days = (\<lambda>n. if n = XDec (Dec (- 1) 0) then ascii ''before'' else ascii ''after''),
     h_past = (\<lambda>t. t = ascii ''before''), h_reaches = (\<lambda>_ _. True), h_text = (\<lambda>_. [])\<rparr>"

definition ex_config :: "bool \<Rightarrow> cookie_config" where
  "ex_config js = \<lparr>kc_json = js, kc_raw = False, kc_defaults = no_options\<lparr>ko_path := Some [47]\<rparr>\<rparr>"

definition ex_jar :: jar where
  "ex_jar = [\<lparr>ck_name = [98], ck_value = [50], ck_path = Some [47], ck_domain = None\<rparr>]"

lemma ex_keeps:
  assumes "ob = no_options \<or> ob = no_options\<lparr>ko_expires := Days (XDec (Dec (- 1) 0))\<rparr>"
    and "k = 97 \<or> k = 98"
  shows "keeps_cookie ex_host (ex_config js) [k] v ob ex_jar"
proof -
  have "decoded [98] = Some [98]" "decoded [50] = Some [50]"
    by (simp_all add: decoded_def pluses_def decodeURIComponent.simps)
  moreover have "unit_text [k]" using assms(2) by (auto simp: unit_text_def high_surrogate_def low_surrogate_def)
  moreover have "encodeURIComponent [98] = Some [98]"
    by (simp add: encodeURIComponent_def high_surrogate_def low_surrogate_def encode_point_def uri_unreserved_def)
  then have "ck_name (written ex_host (ex_config js) [98] v ob) = [98]"
    by (simp add: written_def stored_cookie_def stored_def ex_config_def)
  then have "k = 98 \<Longrightarrow> same_cookie (written ex_host (ex_config js) [k] v ob) (hd ex_jar)"
    using assms(1) by (auto simp: same_cookie_def ex_jar_def written_def stored_cookie_def extend_options_def ex_config_def
        no_options_def given_def nonempty_def)
  ultimately show "keeps_cookie ex_host (ex_config js) [k] v ob ex_jar"
    using assms by (auto simp: keeps_cookie_def ex_host_def ex_config_def extend_options_def no_options_def given_def ex_jar_def
        jar_ok_def visible_def readable_def cookie_pair_def clean_options_def clean_option_def clean_def expiry_time_def
        trim_units_def blank_def nonempty_def)
qed

lemma ex_lasting: "\<not> expired_options ex_host (extend_options (kc_defaults (ex_config js)) no_options)"
  by (simp add: expired_options_def expiry_time_def ex_config_def extend_options_def no_options_def)

theorem cookie_roundtrip_witness:
  "\<exists>r jar'. cookie_call ex_host (ex_config False) (Some [97]) (JStr [59, 32, 43, 0xD83D, 0xDE00]) no_options ex_jar = (Inr r, jar') \<and>
    cookie_call ex_host (ex_config False) (Some [97]) JUndef no_options jar' = (Inr (JStr [59, 32, 43, 0xD83D, 0xDE00]), jar')"
  by (rule cookie_roundtrip)
    (simp_all add: ex_keeps ex_lasting, simp_all add: ex_config_def unit_text_def high_surrogate_def low_surrogate_def)

text \<open>JSON cookies: with \<open>$.cookie.json\<close> set, every plain value other than a string (numbers, booleans, \<open>null\<close>, arrays and
  objects nested to any depth, with strings inside them) is stored and read back as the same value.\<close>

lemma cookie_json_roundtrip:
  assumes "keeps_cookie h cfg k v ob jar" and "kc_json cfg" and "plain v" and "\<forall>s. v \<noteq> JStr s"
    and "unit_text (jtext [] [] v)" and "\<not> expired_options h (extend_options (kc_defaults cfg) ob)"
  shows "\<exists>r jar'. cookie_call h cfg (Some k) v ob jar = (Inr r, jar') \<and>
    cookie_call h cfg (Some k) JUndef no_options jar' = (Inr v, jar')"
proof -
  have "v \<noteq> JUndef" using assms(3) by auto
  moreover have "converted cfg (jtext [] [] v) = v"
    using assms(2) parse_printed [OF assms(3), of "[]"] by (simp add: converted_def json_text_front [OF assms(3,4)])
  ultimately show ?thesis
    using read_written [OF assms(1) _ value_text_json [OF assms(2,3)] assms(5,6)] by fastforce
qed

lemma cookie_json_roundtrip_example:
  "\<exists>r jar'. cookie_call ex_host (ex_config True) (Some [97]) (JArr [JNull, JStr [233]]) no_options ex_jar = (Inr r, jar') \<and>
    cookie_call ex_host (ex_config True) (Some [97]) JUndef no_options jar' = (Inr (JArr [JNull, JStr [233]]), jar')"
  by (rule cookie_json_roundtrip)
    (simp_all add: ex_keeps ex_lasting, simp_all add: ex_config_def unit_text_def high_surrogate_def low_surrogate_def plain_text_def
      wrap_def quote_def in_escapable_def)

text \<open>JSON strings do not survive: with \<open>$.cookie.json\<close> set, a string cookie is stored with its quotation marks, which reading
  takes for the quotes of an old cookie format and removes before \<open>JSON.parse\<close>. A string without characters to escape
  is therefore read as the value that its text denotes, and as \<open>undefined\<close> when it denotes none.\<close>

lemma cookie_json_string_unquoted:
  assumes "keeps_cookie h cfg k (JStr s) ob jar" and "kc_json cfg" and "unit_text s" and "\<not> list_ex in_escapable s"
    and "\<not> expired_options h (extend_options (kc_defaults cfg) ob)"
  shows "\<exists>r jar'. cookie_call h cfg (Some k) (JStr s) ob jar = (Inr r, jar') \<and>
    cookie_call h cfg (Some k) JUndef no_options jar' =
      (Inr (case json_parse s None of Inl _ \<Rightarrow> JUndef | Inr v \<Rightarrow> v), jar')"
proof -
  have "92 \<notin> set s" using assms(4) by (auto simp: list_ex_iff in_escapable_def)
  then have "converted cfg (quote s) = (case json_parse s None of Inl _ \<Rightarrow> JUndef | Inr v \<Rightarrow> v)"
    using assms(2,4) by (simp add: converted_def unquoted_def quote_def butlast_append drop_backslash_none)
  moreover have "value_text h cfg (JStr s) = Some (quote s)"
    using value_text_json [OF assms(2), of "JStr s"] assms(3) by (simp add: plain_text_def unit_text_def)
  moreover have "unit_text (quote s)"
  proof -
    have q: "code_points (u # t) = map_option ((#) u) (code_points t)" if "u = 34" for u t
      using that by (cases t) (simp_all add: high_surrogate_def low_surrogate_def)
    have "code_points (t @ [34]) = map_option (\<lambda>cs. cs @ [34]) (code_points t)" if "code_points t \<noteq> None" for t
      using that
      by (induction t rule: code_points.induct)
        (auto simp: high_surrogate_def low_surrogate_def split: if_splits)
    then show ?thesis using assms(3,4) by (auto simp: quote_def unit_text_def q)
  qed
  ultimately show ?thesis using read_written [OF assms(1) _ _ _ assms(5)] by fastforce
qed

lemma cookie_json_string_unquoted_example:
  "\<exists>jar'. cookie_call ex_host (ex_config True) (Some [97]) JUndef no_options jar' = (Inr JUndef, jar') \<and>
    jar' = snd (cookie_call ex_host (ex_config True) (Some [97]) (JStr (ascii ''on'')) no_options ex_jar)"
proof -
  have "replace_cx (ascii ''on'') = [111, 110]" by (subst replace_cx_id; simp add: in_cx_def ascii_def)
  moreover have "\<not> looks_safe [111, 110]"
    by (simp add: looks_safe_def strip_tokens.simps strip_brackets.simps simple_token_def scan_number_def unit_chars_def unit_char_def
        scan_num_def open_brackets.simps bare_unit_def is_digit_def is_ws_def ascii_def Let_def)
  ultimately have "json_parse (ascii ''on'') None = Inl SyntaxError" by (simp add: json_parse_def)
  moreover have "\<exists>r jar'. cookie_call ex_host (ex_config True) (Some [97]) (JStr (ascii ''on'')) no_options ex_jar = (Inr r, jar') \<and>
    cookie_call ex_host (ex_config True) (Some [97]) JUndef no_options jar' =
      (Inr (case json_parse (ascii ''on'') None of Inl _ \<Rightarrow> JUndef | Inr v \<Rightarrow> v), jar')"
    by (rule cookie_json_string_unquoted)
      (simp_all add: ex_keeps ex_lasting, simp_all add: ex_config_def unit_text_def high_surrogate_def low_surrogate_def in_escapable_def)
  ultimately show ?thesis by auto
qed

text \<open>\<open>$.removeCookie\<close>: on a page where the cookie can be kept and minus one day is in the past, removing a cookie that is there
  returns \<open>true\<close>, deletes exactly that cookie from the jar, and a later read finds nothing; removing one that is not there
  returns \<open>false\<close> and changes nothing.\<close>

lemma removeCookie_removes:
  assumes "keeps_cookie h cfg k (JStr []) (ob\<lparr>ko_expires := Days (XDec (Dec (- 1) 0))\<rparr>) jar"
    and "h_past h (h_days h (XDec (Dec (- 1) 0)))" and "cookie_read h cfg (Some k) jar = Inr v"
  shows "\<exists>c. ck_path c = nonempty (given (ko_path (kc_defaults cfg)) (ko_path ob)) \<and> decoded (ck_name c) = Some k \<and>
    removeCookie h cfg (Some k) ob jar = (Inr (v \<noteq> JUndef), if v = JUndef then jar else filter (\<lambda>d. \<not> same_cookie c d) jar) \<and>
    cookie_read h cfg (Some k) (snd (removeCookie h cfg (Some k) ob jar)) = Inr JUndef"
proof -
  let ?ob = "ob\<lparr>ko_expires := Days (XDec (Dec (- 1) 0))\<rparr>"
  let ?s = "if kc_json cfg then quote [] else []"
  let ?c = "written h cfg k (JStr []) ?ob"
  have s: "value_text h cfg (JStr []) = Some ?s" "unit_text ?s"
    using value_text_json [of cfg "JStr []" h]
    by (simp_all add: value_text_def plain_text_def unit_text_def quote_def high_surrogate_def low_surrogate_def)
  note w = cookie_write [OF assms(1) _ s, simplified]
  have "expired_options h (extend_options (kc_defaults cfg) ?ob)"
    using assms(2) by (simp add: expired_options_def expiry_time_def extend_options_def)
  with w(1) obtain r where r: "cookie_call h cfg (Some k) (JStr []) ?ob jar = (Inr r, filter (\<lambda>d. \<not> same_cookie ?c d) jar)"
    by auto
  have rm: "removeCookie h cfg (Some k) ob jar = (Inr (v \<noteq> JUndef), if v = JUndef then jar else filter (\<lambda>d. \<not> same_cookie ?c d) jar)"
    using r assms(3) by (simp add: removeCookie_def cookie_call_def [of _ _ _ JUndef])
  have ok: "jar_ok h k ?c jar" and k: "k \<noteq> []" "\<not> kc_raw cfg" using assms(1) by (simp_all add: keeps_cookie_def Let_def)
  let ?jar = "filter (\<lambda>d. \<not> same_cookie ?c d) jar"
  have vis: "visible h ?jar = filter (\<lambda>d. \<not> same_cookie ?c d) (visible h jar)"
    by (simp add: visible_def conj_commute)
  have "find (\<lambda>c. decoded (ck_name c) = Some k) (visible h ?jar) = None"
    using ok by (auto simp: vis find_None_iff jar_ok_def list_all_iff)
  then have "cookie_read h cfg (Some k) ?jar = Inr JUndef"
    using ok k by (subst cookie_read_first) (auto simp: vis jar_ok_def list_all_iff)
  with rm assms(3) w(3) show ?thesis
    by (intro exI [of _ ?c]) (simp add: written_def stored_cookie_def extend_options_def)
qed

lemma removeCookie_removes_example:
  "\<exists>jar. removeCookie ex_host (ex_config False) (Some [98]) no_options ex_jar = (Inr True, jar) \<and>
     cookie_read ex_host (ex_config False) (Some [98]) jar = Inr JUndef"
proof -
  have "h_past ex_host (h_days ex_host (XDec (Dec (- 1) 0)))" by (simp add: ex_host_def)
  moreover have "cookie_read ex_host (ex_config False) (Some [98]) ex_jar = Inr (JStr [50])" by code_simp
  ultimately show ?thesis
    using removeCookie_removes [of ex_host "ex_config False" "[98]" no_options ex_jar] ex_keeps [where k = 98] by fastforce
qed

end
