(* ===== verification/Nano.thy ===== *)
theory Nano
  imports Uri_Component
begin

text \<open>
  \<open>js/nano.js\<close>: the template function \<open>nano(template, data)\<close>, which replaces every \<open>{a.b.c}\<close> of a text by the value found
  along that path of the data. The scan of the regular expression \<open>/\{([\w\.]*)\}/g\<close> is written out; reading a property of
  \<open>undefined\<close> or \<open>null\<close> throws.
\<close>

definition word_or_dot :: "nat \<Rightarrow> bool" where
  "word_or_dot u \<longleftrightarrow> (65 \<le> u \<and> u \<le> 90) \<or> (97 \<le> u \<and> u \<le> 122) \<or> is_digit_unit u \<or> u = 95 \<or> u = 46"

datatype nano_error = CannotRead units

text \<open>\<open>v[k]\<close>, own properties only; arrays and strings have their elements and \<open>length\<close>.\<close>

definition indexed :: "(nat \<Rightarrow> json) \<Rightarrow> nat \<Rightarrow> units \<Rightarrow> json" where
  "indexed elem_at n k =
     (if k = ascii ''length'' then JNum (XDec (canon (int n) 0))
      else (case List.find (\<lambda>i. ascii (nat_str i) = k) [0..<n] of None \<Rightarrow> JUndef | Some i \<Rightarrow> elem_at i))"

fun property_of :: "json \<Rightarrow> units \<Rightarrow> nano_error + json" where
  "property_of JUndef k = Inl (CannotRead k)"
| "property_of JHole k = Inl (CannotRead k)"
| "property_of JNull k = Inl (CannotRead k)"
| "property_of (JObj kvs) k = Inr (own_value kvs k)"
| "property_of (JArr vs) k = Inr (indexed (\<lambda>i. vs ! i) (length vs) k)"
| "property_of (JStr s) k = Inr (indexed (\<lambda>i. JStr [s ! i]) (length s) k)"
| "property_of _ k = Inr JUndef"

fun follow :: "json \<Rightarrow> units list \<Rightarrow> nano_error + json" where
  "follow v [] = Inr v"
| "follow v (k # ks) = (case property_of v k of Inl e \<Rightarrow> Inl e | Inr w \<Rightarrow> follow w ks)"

definition field_text :: "(json \<Rightarrow> units) \<Rightarrow> json \<Rightarrow> units \<Rightarrow> nano_error + units" where
  "field_text spell data key =
     (case follow data (js_split 46 key) of
        Inl e \<Rightarrow> Inl e
      | Inr v \<Rightarrow> Inr (if v \<noteq> JUndef \<and> v \<noteq> JHole \<and> v \<noteq> JNull then value_string spell v else []))"

definition prepend_text :: "units \<Rightarrow> nano_error + units \<Rightarrow> nano_error + units" where
  "prepend_text t r = (case r of Inl e \<Rightarrow> Inl e | Inr s \<Rightarrow> Inr (t @ s))"

function (sequential) nano :: "(json \<Rightarrow> units) \<Rightarrow> units \<Rightarrow> json \<Rightarrow> nano_error + units" where
  "nano spell [] data = Inr []"
| "nano spell (u # us) data =
     (if u = 123 \<and> take 1 (dropWhile word_or_dot us) = [125] then
        (case field_text spell data (takeWhile word_or_dot us) of
           Inl e \<Rightarrow> Inl e
         | Inr t \<Rightarrow> prepend_text t (nano spell (drop 1 (dropWhile word_or_dot us)) data))
      else prepend_text [u] (nano spell us data))"
  by pat_completeness auto

termination
  by (relation "measure (\<lambda>(_, t, _). length t)") (auto simp: less_Suc_eq_le le_diff_conv intro: le_SucI length_dropWhile_le)

declare nano.simps(2) [simp del]

subsection \<open>Templates as sequences of pieces\<close>

datatype piece = Lit units | Field units

fun piece_ok :: "piece \<Rightarrow> bool" where
  "piece_ok (Lit t) = (123 \<notin> set t)"
| "piece_ok (Field k) = list_all word_or_dot k"

fun piece_source :: "piece \<Rightarrow> units" where
  "piece_source (Lit t) = t"
| "piece_source (Field k) = 123 # k @ [125]"

fun piece_text :: "(json \<Rightarrow> units) \<Rightarrow> json \<Rightarrow> piece \<Rightarrow> nano_error + units" where
  "piece_text spell data (Lit t) = Inr t"
| "piece_text spell data (Field k) = field_text spell data k"

fun fill_pieces :: "(json \<Rightarrow> units) \<Rightarrow> json \<Rightarrow> piece list \<Rightarrow> nano_error + units" where
  "fill_pieces spell data [] = Inr []"
| "fill_pieces spell data (p # ps) =
     (case piece_text spell data p of Inl e \<Rightarrow> Inl e | Inr t \<Rightarrow> prepend_text t (fill_pieces spell data ps))"

lemma prepend_Nil [simp]: "prepend_text [] r = r"
  by (cases r) (simp_all add: prepend_text_def)

lemma prepend_prepend [simp]: "prepend_text s (prepend_text t r) = prepend_text (s @ t) r"
  by (cases r) (simp_all add: prepend_text_def)

lemma nano_literal: "123 \<notin> set t \<Longrightarrow> nano spell (t @ s) data = prepend_text t (nano spell s data)"
  by (induction t) (simp_all add: nano.simps(2))

lemma nano_field:
  assumes "list_all word_or_dot k"
  shows "nano spell (123 # k @ 125 # s) data =
    (case field_text spell data k of Inl e \<Rightarrow> Inl e | Inr t \<Rightarrow> prepend_text t (nano spell s data))"
proof -
  have "\<not> word_or_dot 125" by (simp add: word_or_dot_def is_digit_unit_def)
  then have "takeWhile word_or_dot (k @ 125 # s) = k" "dropWhile word_or_dot (k @ 125 # s) = 125 # s"
    using assms by (simp_all add: list_all_iff takeWhile_append dropWhile_append)
  then show ?thesis by (simp add: nano.simps(2) split: sum.splits)
qed

subsection \<open>Property\<close>

text \<open>A template is filled piece by piece: on a text made of literals without braces and of fields \<open>{path}\<close>, \<open>nano\<close> copies the
  literals and replaces each field by the text of the value on its path (nothing for \<open>undefined\<close> and \<open>null\<close>), in order; the
  first path that leads through \<open>undefined\<close> or \<open>null\<close> makes the whole call throw.\<close>

lemma nano_fills:
  assumes "list_all piece_ok ps"
  shows "nano spell (concat (map piece_source ps)) data = fill_pieces spell data ps"
  using assms
proof (induction ps)
  case (Cons p ps)
  then show ?case by (cases p) (simp_all add: nano_literal nano_field split: sum.splits)
qed simp

lemma nano_fills_example:
  "nano (\<lambda>_. []) (ascii ''Hi {u.name}!'') (JObj [(ascii ''u'', JObj [(ascii ''name'', JStr (ascii ''Bo''))])]) = Inr (ascii ''Hi Bo!'')"
  using nano_fills [of "[Lit (ascii ''Hi ''), Field (ascii ''u.name''), Lit (ascii ''!'')]" "\<lambda>_. []"
      "JObj [(ascii ''u'', JObj [(ascii ''name'', JStr (ascii ''Bo''))])]"]
  by (simp add: word_or_dot_def is_digit_unit_def field_text_def own_value_def prepend_text_def)

end
