(* ===== verification/Log_Socket.thy ===== *)
theory Log_Socket
  imports Jq_Dom
begin

text \<open>
  \<open>js/LogWebSocket.js\<close>: the viewer that shows a server's log over a web socket. The constructor opens the socket that the
  browser offers; its three handlers write into the target element. The state is the line counter of the closure and the
  content of the target (\<open>None\<close> when the page has no such element); a handler ends normally or with an exception, and the
  events of the socket arrive in any order.
\<close>

record log_options =
  lo_target :: string
  lo_uri :: string
  lo_server_name :: string
  lo_max_line :: xnum
  lo_protocol :: string
  lo_log_type :: string

datatype socket_kind = MozWebSocket | WebSocket

record log_viewer =
  lv_options :: log_options
  lv_socket :: "(socket_kind \<times> string) option"
  lv_open :: bool
  lv_count :: nat
  lv_html :: "string option"
  lv_alerts :: "string list"

definition log_url :: "log_options \<Rightarrow> string" where
  "log_url ob = lo_protocol ob @ ''://'' @ lo_uri ob @ ''?serverName='' @ lo_server_name ob @ ''&log_type='' @ lo_log_type ob"

text \<open>\<open>new LogWebSocket(options)\<close> in a browser with or without the two socket classes.\<close>

definition new_log :: "bool \<Rightarrow> bool \<Rightarrow> string option \<Rightarrow> log_options \<Rightarrow> log_viewer" where
  "new_log hasMoz hasWs target ob =
     (let w = \<lparr>lv_options = ob, lv_socket = None, lv_open = False, lv_count = 0, lv_html = target, lv_alerts = []\<rparr>
      in if hasMoz then w\<lparr>lv_socket := Some (MozWebSocket, log_url ob), lv_open := True\<rparr>
         else if hasWs then w\<lparr>lv_socket := Some (WebSocket, log_url ob), lv_open := True\<rparr>
         else w\<lparr>lv_alerts := [''Your browser does not support Web Socket.'']\<rparr>)"

definition log_onopen :: "log_viewer \<Rightarrow> log_viewer \<times> (js_error + unit)" where
  "log_onopen w =
     (case lv_html w of
        None \<Rightarrow> (w, Inl (TypeError ''innerHTML''))
      | Some _ \<Rightarrow>
          (w\<lparr>lv_html := Some (''connect to the '' @ lo_server_name (lv_options w) @ ''.'' @ lo_log_type (lv_options w))\<rparr>, Inr ()))"

text \<open>
  \<open>appendTextArea\<close>: the variable \<open>el\<close> is declared below the line that empties it, so that this line reads \<open>undefined\<close>.
\<close>

definition appendTextArea :: "string \<Rightarrow> log_viewer \<Rightarrow> log_viewer \<times> (js_error + unit)" where
  "appendTextArea newData w =
     (if xless (lo_max_line (lv_options w)) (XDec (canon (int (lv_count w)) 0)) then (w, Inl (TypeError ''innerHTML''))
      else (case lv_html w of
              None \<Rightarrow> (w, Inl (TypeError ''innerHTML''))
            | Some t \<Rightarrow> (w\<lparr>lv_html := Some (t @ ''<br>'' @ newData), lv_count := Suc (lv_count w)\<rparr>, Inr ())))"

definition log_onmessage :: "string \<Rightarrow> log_viewer \<Rightarrow> log_viewer \<times> (js_error + unit)" where
  "log_onmessage data w = appendTextArea data w"

definition log_onclose :: "log_viewer \<Rightarrow> log_viewer \<times> (js_error + unit)" where
  "log_onclose w = appendTextArea ''Web Socket closed'' w"

text \<open>\<open>close()\<close> fails when the constructor found no socket class.\<close>

definition log_close :: "log_viewer \<Rightarrow> log_viewer \<times> (js_error + unit)" where
  "log_close w =
     (case lv_socket w of
        None \<Rightarrow> (w, Inl (TypeError ''close''))
      | Some _ \<Rightarrow> (w\<lparr>lv_open := False\<rparr>, Inr ()))"

datatype log_event = OnOpen | OnMessage string | OnClose

fun log_handle :: "log_viewer \<Rightarrow> log_event \<Rightarrow> log_viewer \<times> (js_error + unit)" where
  "log_handle w OnOpen = log_onopen w"
| "log_handle w (OnMessage d) = log_onmessage d w"
| "log_handle w OnClose = log_onclose w"

text \<open>A run: the viewer after a sequence of events and what each handler ended with.\<close>

fun log_run :: "log_viewer \<Rightarrow> log_event list \<Rightarrow> log_viewer \<times> (js_error + unit) list" where
  "log_run w [] = (w, [])"
| "log_run w (e # es) = (let (w, r) = log_handle w e; (w, rs) = log_run w es in (w, r # rs))"

subsection \<open>Lemmas\<close>

lemma dec_val_canon_int: "dec_val (canon (int n) 0) = of_nat n"
  by (simp add: dec_val_canon)

lemma count_within:
  "xless (XDec (canon (int m) 0)) (XDec (canon (int n) 0)) \<longleftrightarrow> m < n"
  by (simp add: dec_less_val dec_val_canon_int)

lemma log_full:
  assumes "lo_max_line (lv_options w) = XDec (canon (int m) 0)" and "m < lv_count w"
  shows "log_run w (map OnMessage ds) = (w, replicate (length ds) (Inl (TypeError ''innerHTML'')))"
  using assms by (induction ds) (simp_all add: log_onmessage_def appendTextArea_def count_within del: xless.simps)

lemma log_fills:
  assumes "lo_max_line (lv_options w) = XDec (canon (int m) 0)" and "lv_html w = Some t" and "lv_count w + k = Suc m"
  shows "log_run w (map OnMessage ds) =
    (w\<lparr>lv_html := Some (t @ concat (map ((@) ''<br>'') (take k ds))), lv_count := lv_count w + min k (length ds)\<rparr>,
     replicate (min k (length ds)) (Inr ()) @ replicate (length ds - k) (Inl (TypeError ''innerHTML'')))"
  using assms
proof (induction ds arbitrary: w t k)
  case (Cons d ds)
  show ?case
  proof (cases k)
    case 0
    with Cons.prems log_full [of w m "d # ds"] show ?thesis by simp
  next
    case (Suc j)
    then have "\<not> m < lv_count w" using Cons.prems(3) by simp
    then have "log_handle w (OnMessage d) = (w\<lparr>lv_html := Some (t @ ''<br>'' @ d), lv_count := Suc (lv_count w)\<rparr>, Inr ())"
      using Cons.prems by (simp add: log_onmessage_def appendTextArea_def count_within del: xless.simps)
    with Cons.IH [of "w\<lparr>lv_html := Some (t @ ''<br>'' @ d), lv_count := Suc (lv_count w)\<rparr>" "t @ ''<br>'' @ d" j] Cons.prems Suc
    show ?thesis by simp
  qed
qed simp

subsection \<open>Property\<close>

text \<open>C40: the log stops for good at its limit: a viewer that shows nothing yet appends the first \<open>max_line + 1\<close> messages; the
  handler of every later message throws, because clearing the text uses a variable that is not assigned yet, and the
  shown text and the counter never change again.\<close>

theorem log_stops_at_limit:
  assumes "lo_max_line (lv_options w) = XDec (canon (int m) 0)" and "lv_html w = Some t" and "lv_count w = 0"
  shows "log_run w (map OnMessage ds) =
    (w\<lparr>lv_html := Some (t @ concat (map ((@) ''<br>'') (take (Suc m) ds))), lv_count := min (Suc m) (length ds)\<rparr>,
     replicate (min (Suc m) (length ds)) (Inr ()) @ replicate (length ds - Suc m) (Inl (TypeError ''innerHTML'')))"
  using log_fills [OF assms(1,2), of "Suc m" ds] assms(3) by simp

definition ex_log_options :: log_options where
  "ex_log_options = \<lparr>lo_target = ''log'', lo_uri = ''h:1/ws'', lo_server_name = ''s'', lo_max_line = XDec (Dec 1 0),
     lo_protocol = ''ws'', lo_log_type = ''log''\<rparr>"

theorem log_stops_at_limit_witness:
  "log_run (new_log False True (Some []) ex_log_options) (map OnMessage [''a'', ''b'', ''c'', ''d'']) =
     ((new_log False True (Some []) ex_log_options)\<lparr>lv_html := Some ''<br>a<br>b'', lv_count := 2\<rparr>,
      [Inr (), Inr (), Inl (TypeError ''innerHTML''), Inl (TypeError ''innerHTML'')])"
proof -
  have "canon (int 1) 0 = Dec 1 0" by (simp add: canon.simps)
  then show ?thesis
    using log_stops_at_limit [of "new_log False True (Some []) ex_log_options" 1 "[]" "[''a'', ''b'', ''c'', ''d'']"]
    by (simp add: new_log_def ex_log_options_def numeral_2_eq_2)
qed

end
