(* ===== verification/Dom_Tree.thy ===== *)
theory Dom_Tree
  imports Jq_Dom
begin

text \<open>
  A page as a tree of elements with identities, for the widgets that search, clone, append to and empty parts of the page
  (\<open>fuelux/dist/tree.js\<close>, \<open>js/panelLoading.plugin.js\<close>). \<open>nodes\<close> lists a subtree in document order, \<open>find_class\<close> is
  \<open>$n.find('.c')\<close>, \<open>map_info\<close> changes elements without changing the shape, \<open>at_node\<close> changes one node, and \<open>clone\<close> copies a
  subtree under fresh identities and without its data, as jQuery does.
\<close>

subsection \<open>Elements and trees\<close>

record tinfo =
  ti_tag :: string
  ti_classes :: "string list"
  ti_html :: string
  ti_data :: "jval obj"
  ti_shown :: bool

datatype dnode = DNode (nid: nat) (info: tinfo) (kids: "dnode list")

definition has_class :: "string \<Rightarrow> dnode \<Rightarrow> bool" where
  "has_class c n \<longleftrightarrow> c \<in> set (ti_classes (info n))"

definition add_class :: "string \<Rightarrow> tinfo \<Rightarrow> tinfo" where
  "add_class c e = (if c \<in> set (ti_classes e) then e else e\<lparr>ti_classes := ti_classes e @ [c]\<rparr>)"

definition remove_class :: "string \<Rightarrow> tinfo \<Rightarrow> tinfo" where
  "remove_class c e = e\<lparr>ti_classes := filter (\<lambda>d. d \<noteq> c) (ti_classes e)\<rparr>"

fun nodes :: "dnode \<Rightarrow> dnode list" where
  "nodes (DNode i e ks) = DNode i e ks # concat (map nodes ks)"

definition below :: "dnode \<Rightarrow> dnode list" where
  "below n = concat (map nodes (kids n))"

definition find_class :: "string \<Rightarrow> dnode \<Rightarrow> dnode list" where
  "find_class c n = filter (has_class c) (below n)"

definition find_tag :: "string \<Rightarrow> dnode \<Rightarrow> dnode list" where
  "find_tag t n = filter (\<lambda>m. ti_tag (info m) = t) (below n)"

definition node_at :: "nat \<Rightarrow> dnode \<Rightarrow> dnode option" where
  "node_at i t = List.find (\<lambda>n. nid n = i) (nodes t)"

definition parent_at :: "nat \<Rightarrow> dnode \<Rightarrow> dnode option" where
  "parent_at i t = List.find (\<lambda>n. i \<in> set (map nid (kids n))) (nodes t)"

fun map_info :: "(nat \<Rightarrow> tinfo \<Rightarrow> tinfo) \<Rightarrow> dnode \<Rightarrow> dnode" where
  "map_info g (DNode i e ks) = DNode i (g i e) (map (map_info g) ks)"

definition on_ids :: "nat list \<Rightarrow> (tinfo \<Rightarrow> tinfo) \<Rightarrow> dnode \<Rightarrow> dnode" where
  "on_ids is f t = map_info (\<lambda>i e. if i \<in> set is then f e else e) t"

fun at_node :: "nat \<Rightarrow> (dnode \<Rightarrow> dnode) \<Rightarrow> dnode \<Rightarrow> dnode" where
  "at_node i f (DNode j e ks) =
     (let n = DNode j e (map (at_node i f) ks) in if j = i then f n else n)"

fun map_nodes :: "(tinfo \<Rightarrow> bool) \<Rightarrow> (dnode \<Rightarrow> dnode) \<Rightarrow> dnode \<Rightarrow> dnode" where
  "map_nodes P f (DNode i e ks) =
     (let n = DNode i e (map (map_nodes P f) ks) in if P e then f n else n)"

text \<open>\<open>$n.find(P).each(f)\<close>: the change reaches the descendants of \<open>n\<close>, not \<open>n\<close> itself.\<close>

definition map_below :: "(tinfo \<Rightarrow> bool) \<Rightarrow> (dnode \<Rightarrow> dnode) \<Rightarrow> dnode \<Rightarrow> dnode" where
  "map_below P f n = DNode (nid n) (info n) (map (map_nodes P f) (kids n))"

definition set_html :: "string \<Rightarrow> dnode \<Rightarrow> dnode" where
  "set_html t n = DNode (nid n) ((info n)\<lparr>ti_html := t\<rparr>) []"

definition set_info :: "(tinfo \<Rightarrow> tinfo) \<Rightarrow> dnode \<Rightarrow> dnode" where
  "set_info f n = DNode (nid n) (f (info n)) (kids n)"

definition append_kid :: "dnode \<Rightarrow> dnode \<Rightarrow> dnode" where
  "append_kid m n = DNode (nid n) (info n) (kids n @ [m])"

definition empty_node :: "dnode \<Rightarrow> dnode" where
  "empty_node n = DNode (nid n) ((info n)\<lparr>ti_html := []\<rparr>) []"

fun clone :: "nat \<Rightarrow> dnode \<Rightarrow> dnode \<times> nat"
  and clone_all :: "nat \<Rightarrow> dnode list \<Rightarrow> dnode list \<times> nat" where
  "clone k (DNode i e ks) =
     (case clone_all (Suc k) ks of (ks', k') \<Rightarrow> (DNode k (e\<lparr>ti_data := []\<rparr>) ks', k'))"
| "clone_all k [] = ([], k)"
| "clone_all k (n # ns) =
     (case clone k n of (n', k') \<Rightarrow> case clone_all k' ns of (ns', k'') \<Rightarrow> (n' # ns', k''))"

subsection \<open>Lemmas\<close>

lemma nodes_Cons: "nodes n = n # below n"
  by (cases n) (simp add: below_def)

lemma nodes_self [simp]: "n \<in> set (nodes n)"
  by (simp add: nodes_Cons)

lemma nid_map_info [simp]: "nid (map_info g n) = nid n" "info (map_info g n) = g (nid n) (info n)"
    "kids (map_info g n) = map (map_info g) (kids n)"
  by (cases n; simp)+

lemma nodes_map_info: "nodes (map_info g t) = map (map_info g) (nodes t)"
  by (induction t) (simp add: map_concat comp_def cong: map_cong)

lemma below_map_info: "below (map_info g t) = map (map_info g) (below t)"
  by (simp add: below_def nodes_map_info map_concat comp_def)

lemma node_at_map_info: "node_at i (map_info g t) = map_option (map_info g) (node_at i t)"
proof -
  have "List.find (\<lambda>n. nid n = i) (map (map_info g) ns) = map_option (map_info g) (List.find (\<lambda>n. nid n = i) ns)" for ns
    by (induction ns) auto
  then show ?thesis by (simp add: node_at_def nodes_map_info)
qed

lemma node_at_Some: "node_at i t = Some n \<Longrightarrow> n \<in> set (nodes t) \<and> nid n = i"
  by (auto simp: node_at_def find_Some_iff)

lemma nid_at_node [simp]: "(\<And>n. nid (f n) = nid n) \<Longrightarrow> nid (at_node i f t) = nid t"
  by (cases t) (simp add: Let_def)

text \<open>A change at a node that a subtree does not have leaves the subtree alone.\<close>

lemma at_node_id: "i \<notin> nid ` set (nodes t) \<Longrightarrow> at_node i f t = t"
  by (induction t) (auto simp: Let_def intro!: map_idI)

text \<open>\<open>sub_classes c n\<close>: the identities of the descendants with class \<open>c\<close>.\<close>

definition class_ids :: "string \<Rightarrow> dnode \<Rightarrow> nat list" where
  "class_ids c n = map nid (find_class c n)"

lemma class_ids_kids: "class_ids c n = concat (map (\<lambda>k. map nid (filter (has_class c) (nodes k))) (kids n))"
  by (simp add: class_ids_def find_class_def below_def filter_concat map_concat comp_def)

end
