(* ===== verification/Panel_Loading.thy ===== *)
theory Panel_Loading
  imports Dom_Tree
begin

text \<open>
  \<open>js/panelLoading.plugin.js\<close>: the overlay that marks a panel as loading. Starting wraps the contents of the panel into a
  container and appends an overlay and an info panel to it; stopping fades both out, and the callbacks of the fades, which
  arrive later, remove them and unwrap the container. The panel is a \<^typ>\<open>dnode\<close> (a text node is a node with tag
  \<open>#text\<close>); the fades in progress are the list \<open>pl_fading\<close>. Sizes, colours and opacity have no effect on the structure and are
  left out.
\<close>

subsection \<open>State and settings\<close>

record panel_settings =
  ps_setLoading :: "bool option"
  ps_text :: string
  ps_textClass :: "string option"
  ps_loaderClass :: string

definition panel_defaults :: panel_settings where
  "panel_defaults = \<lparr>ps_setLoading = None, ps_text = ''Loading...'', ps_textClass = None, ps_loaderClass = ''progress-striped active''\<rparr>"

datatype fade = FadeInfo nat | FadeOverlay nat

record panel =
  pl_base :: dnode
  pl_next :: nat
  pl_fading :: "fade list"

definition upd_base :: "(dnode \<Rightarrow> dnode) \<Rightarrow> panel \<Rightarrow> panel" where
  "upd_base f w = w\<lparr>pl_base := f (pl_base w)\<rparr>"

definition div_node :: "nat \<Rightarrow> string list \<Rightarrow> dnode list \<Rightarrow> dnode" where
  "div_node i cs ks = DNode i \<lparr>ti_tag = ''div'', ti_classes = cs, ti_html = [], ti_data = [], ti_shown = True\<rparr> ks"

text \<open>\<open>$(this).remove()\<close>\<close>

fun remove_node :: "nat \<Rightarrow> dnode \<Rightarrow> dnode" where
  "remove_node i (DNode j e ks) = DNode j e (map (remove_node i) (filter (\<lambda>k. nid k \<noteq> i) ks))"

subsection \<open>Operations\<close>

definition removeLoadStuff :: "dnode \<Rightarrow> dnode" where
  "removeLoadStuff b =
     (let b = (if has_class ''panel-loading-base-element'' b then set_info (remove_class ''panel-loading-base-element'') b else b)
      in DNode (nid b) (info b)
           (concat (map (\<lambda>k. if has_class ''panel-loading-container'' k \<and> kids k \<noteq> [] then kids k else [k]) (kids b))))"

text \<open>The info panel: an optional line of text and the progress bar. The default settings name no text class, so that its
  class is the word \<open>undefined\<close>.\<close>

definition info_panel :: "nat \<Rightarrow> panel_settings \<Rightarrow> dnode" where
  "info_panel i st =
     div_node i [''panel-loading-info-panel'']
       ((if ps_text st = [] then []
         else [DNode (i + 3) \<lparr>ti_tag = ''span'', ti_classes = [case ps_textClass st of None \<Rightarrow> ''undefined'' | Some c \<Rightarrow> c],
                 ti_html = ps_text st, ti_data = [], ti_shown = True\<rparr> []]) @
        [div_node (i + 1) (''progress'' # js_split (CHR '' '') (ps_loaderClass st)) [div_node (i + 2) [''bar''] []]])"

definition panel_start :: "panel_settings \<Rightarrow> panel \<Rightarrow> panel" where
  "panel_start st w =
     (let i = pl_next w;
          b = (if has_class ''panel-loading-base-element'' (pl_base w) then pl_base w
               else set_info (add_class ''panel-loading-base-element'') (pl_base w));
          container = div_node i [''panel-loading-container'']
            (kids b @ [div_node (i + 1) [''panel-loading-overlay''] [], info_panel (i + 2) st])
      in w\<lparr>pl_base := DNode (nid b) (info b) [container], pl_next := i + 6\<rparr>)"

definition panel_stop :: "panel \<Rightarrow> panel" where
  "panel_stop w =
     (let overlay = map nid (find_class ''panel-loading-overlay'' (pl_base w));
          loadingPanel = map nid (find_class ''panel-loading-info-panel'' (pl_base w));
          w = (if overlay = [] then upd_base removeLoadStuff w else w)
      in w\<lparr>pl_fading := pl_fading w @ map FadeInfo loadingPanel @ map FadeOverlay overlay\<rparr>)"

definition panelLoading :: "panel_settings \<Rightarrow> panel \<Rightarrow> panel" where
  "panelLoading st w =
     (let setLoad = (case ps_setLoading st of
                       None \<Rightarrow> \<not> has_class ''panel-loading-base-element'' (pl_base w)
                     | Some b \<Rightarrow> b)
      in if setLoad then panel_start st w else panel_stop w)"

text \<open>The callback of one fade, \<open>k\<close>-th in the list.\<close>

definition fade_done :: "nat \<Rightarrow> panel \<Rightarrow> panel" where
  "fade_done k w =
     (if k < length (pl_fading w)
      then (let f = pl_fading w ! k;
                w = w\<lparr>pl_fading := take k (pl_fading w) @ drop (Suc k) (pl_fading w)\<rparr>
            in case f of
                 FadeInfo i \<Rightarrow> upd_base (remove_node i) w
               | FadeOverlay i \<Rightarrow> upd_base (\<lambda>b. removeLoadStuff (remove_node i b)) w)
      else w)"

subsection \<open>Lemmas\<close>

text \<open>Contents that do not come from this plug-in and do not use its identities.\<close>

definition foreign :: "nat \<Rightarrow> dnode \<Rightarrow> bool" where
  "foreign k t \<longleftrightarrow> (\<forall>n\<in>set (nodes t). nid n < k \<and> \<not> has_class ''panel-loading-overlay'' n \<and>
     \<not> has_class ''panel-loading-info-panel'' n \<and> \<not> has_class ''panel-loading-container'' n)"

lemma foreign_kid: "foreign k t \<Longrightarrow> nid t < k \<and> \<not> has_class ''panel-loading-container'' t"
  using nodes_self by (auto simp: foreign_def)

lemma remove_foreign: "foreign k t \<Longrightarrow> k \<le> i \<Longrightarrow> remove_node i t = t"
proof (induction t)
  case (DNode j e ks)
  have f: "foreign k x" if "x \<in> set ks" for x using DNode.prems(1) that by (auto simp: foreign_def)
  have "nid x \<noteq> i" if "x \<in> set ks" for x using foreign_kid [OF f [OF that]] DNode.prems(2) by auto
  then have "filter (\<lambda>x. nid x \<noteq> i) ks = ks" by (simp add: filter_id_conv)
  then show ?case using DNode.IH f DNode.prems(2) by (simp add: map_idI)
qed

lemma remove_all_foreign:
  assumes "\<forall>x\<in>set ks. foreign k x" and "k \<le> i"
  shows "filter (\<lambda>x. nid x \<noteq> i) ks = ks" and "map (remove_node i) ks = ks"
proof -
  have "nid x \<noteq> i" if "x \<in> set ks" for x using foreign_kid [of k x] assms that by auto
  then show "filter (\<lambda>x. nid x \<noteq> i) ks = ks" by (simp add: filter_id_conv)
  show "map (remove_node i) ks = ks" using remove_foreign assms by (intro map_idI) auto
qed

lemma foreign_find:
  assumes "\<forall>x\<in>set ks. foreign k x"
  shows "filter (has_class ''panel-loading-overlay'') (concat (map nodes ks)) = []"
    and "filter (has_class ''panel-loading-info-panel'') (concat (map nodes ks)) = []"
  using assms by (auto simp: foreign_def filter_empty_conv)

lemma unwrap_foreign:
  assumes "\<forall>x\<in>set ks. foreign k x"
  shows "concat (map (\<lambda>x. if has_class ''panel-loading-container'' x \<and> kids x \<noteq> [] then kids x else [x]) ks) = ks"
  using assms foreign_kid by (induction ks) auto

text \<open>A panel that is loading: its contents, the overlay and the info panel in one container.\<close>

lemma started:
  assumes "\<not> has_class ''panel-loading-base-element'' (DNode b e ks)"
  shows "panel_start st \<lparr>pl_base = DNode b e ks, pl_next = k, pl_fading = []\<rparr> =
    \<lparr>pl_base = DNode b (add_class ''panel-loading-base-element'' e)
       [div_node k [''panel-loading-container''] (ks @ [div_node (k + 1) [''panel-loading-overlay''] [], info_panel (k + 2) st])],
     pl_next = k + 6, pl_fading = []\<rparr>"
  using assms by (simp add: panel_start_def set_info_def Let_def)

lemma info_panel_foreign: "ps_textClass st = None \<Longrightarrow> ps_loaderClass st = ''progress-striped active'' \<Longrightarrow>
  find_class ''panel-loading-overlay'' (info_panel i st) = [] \<and> find_class ''panel-loading-info-panel'' (info_panel i st) = []"
  by (simp add: info_panel_def find_class_def below_def div_node_def has_class_def)

lemma stopped:
  assumes "\<forall>x\<in>set ks. foreign k x" and "ps_textClass st = None" "ps_loaderClass st = ''progress-striped active''"
  defines "c \<equiv> div_node k [''panel-loading-container''] (ks @ [div_node (k + 1) [''panel-loading-overlay''] [], info_panel (k + 2) st])"
  shows "panel_stop \<lparr>pl_base = DNode b e [c], pl_next = n, pl_fading = []\<rparr> =
    \<lparr>pl_base = DNode b e [c], pl_next = n, pl_fading = [FadeInfo (k + 2), FadeOverlay (k + 1)]\<rparr>"
proof -
  have fc: "find_class d (DNode b e [c]) = filter (has_class d) [c] @ filter (has_class d) (concat (map nodes ks)) @
      filter (has_class d) [div_node (k + 1) [''panel-loading-overlay''] []] @
      filter (has_class d) [info_panel (k + 2) st] @ find_class d (info_panel (k + 2) st)" for d
    using nodes_Cons [of "info_panel (k + 2) st"] by (simp add: find_class_def below_def c_def div_node_def)
  have cls: "has_class d c \<longleftrightarrow> d = ''panel-loading-container''" "has_class d (info_panel i st) \<longleftrightarrow> d = ''panel-loading-info-panel''"
    "has_class d (div_node i ds ns) \<longleftrightarrow> d \<in> set ds" "nid (info_panel i st) = i" "nid (div_node i ds ns) = i" for d i ds ns
    by (simp_all add: c_def info_panel_def div_node_def has_class_def)
  have "map nid (find_class ''panel-loading-overlay'' (DNode b e [c])) = [k + 1]"
    "map nid (find_class ''panel-loading-info-panel'' (DNode b e [c])) = [k + 2]"
    unfolding fc foreign_find [OF assms(1)] info_panel_foreign [OF assms(2,3), THEN conjunct1] info_panel_foreign [OF assms(2,3), THEN conjunct2]
    by (simp_all add: cls)
  then show ?thesis by (simp add: panel_stop_def)
qed

lemma removed_class:
  assumes "c \<notin> set (ti_classes e)"
  shows "remove_class c (add_class c e) = e"
proof -
  have "filter (\<lambda>d. d \<noteq> c) (ti_classes e) = ti_classes e" using assms by (auto simp: filter_id_conv)
  with assms show ?thesis by (cases e) (simp add: add_class_def remove_class_def)
qed

lemma remove_info [simp]: "remove_node (Suc k) (info_panel (Suc (Suc k)) st) = info_panel (Suc (Suc k)) st" "nid (info_panel i st) = i"
  by (simp_all add: info_panel_def div_node_def)

subsection \<open>Property\<close>

text \<open>C23: marking a panel as loading and back is harmless: calling the plug-in twice and letting both fades end, in either order, gives
  back exactly the contents and classes that the panel had before. The one exception is an empty panel whose info panel
  disappears first, as it does since its fade starts first: the then empty container is not unwrapped and stays behind.\<close>

theorem panel_restores:
  assumes "ks = kids b" and "\<forall>x\<in>set ks. foreign k x" and "\<not> has_class ''panel-loading-base-element'' b"
    and "ps_setLoading st = None" and "ps_textClass st = None" and "ps_loaderClass st = ''progress-striped active''"
  defines "w \<equiv> panelLoading st (panelLoading st \<lparr>pl_base = b, pl_next = k, pl_fading = []\<rparr>)"
  shows "pl_base (fade_done 0 (fade_done 1 w)) = b \<and> pl_fading (fade_done 0 (fade_done 1 w)) = [] \<and>
    pl_base (fade_done 0 (fade_done 0 w)) =
      DNode (nid b) (info b) (if ks = [] then [div_node k [''panel-loading-container''] []] else ks)"
proof -
  obtain i e where b: "b = DNode i e ks" using assms(1) by (cases b) simp
  let ?e = "add_class ''panel-loading-base-element'' e"
  let ?c = "\<lambda>ns. div_node k [''panel-loading-container''] ns"
  let ?o = "div_node (k + 1) [''panel-loading-overlay''] []" and ?p = "info_panel (k + 2) st"
  have e: "''panel-loading-base-element'' \<notin> set (ti_classes e)" using assms(3) by (simp add: b has_class_def)
  have add: "''panel-loading-base-element'' \<in> set (ti_classes ?e)" by (simp add: add_class_def)
  then have w: "w = \<lparr>pl_base = DNode i ?e [?c (ks @ [?o, ?p])], pl_next = k + 6, pl_fading = [FadeInfo (k + 2), FadeOverlay (k + 1)]\<rparr>"
    using started [of i e ks st k] stopped [OF assms(2,5,6), of i ?e "k + 6"] assms(3,4)
    by (simp add: w_def panelLoading_def b has_class_def)
  have un: "removeLoadStuff (DNode i ?e [?c ns]) = DNode i e (if ns = [] then [?c []] else ns)" for ns
    using removed_class [OF e] add by (simp add: removeLoadStuff_def has_class_def div_node_def set_info_def Let_def)
  have o: "remove_node (k + 1) (DNode i ?e [?c (ks @ [?o, ?p])]) = DNode i ?e [?c (ks @ [?p])]"
    using remove_all_foreign [OF assms(2), of "k + 1"] by (simp add: div_node_def)
  have p: "remove_node (k + 2) (DNode i ?e [?c (ks @ [?o, ?p])]) = DNode i ?e [?c (ks @ [?o])]"
    "remove_node (k + 1) (DNode i ?e [?c (ks @ [?o])]) = DNode i ?e [?c ks]"
    using remove_all_foreign [OF assms(2), of "k + 2"] remove_all_foreign [OF assms(2), of "k + 1"] by (simp_all add: div_node_def)
  have r: "remove_node (k + 2) (DNode i e (ks @ [?p])) = DNode i e ks"
    using remove_all_foreign [OF assms(2), of "k + 2"] by simp
  define B where "B = DNode i ?e [?c (ks @ [?o, ?p])]"
  define k1 k2 where "k1 = k + 1" and "k2 = k + 2"
  have w': "w = \<lparr>pl_base = B, pl_next = k + 6, pl_fading = [FadeInfo k2, FadeOverlay k1]\<rparr>"
    by (simp only: w B_def k1_def k2_def)
  have "pl_base (fade_done 0 (fade_done 1 w)) = remove_node k2 (removeLoadStuff (remove_node k1 B))"
    "pl_fading (fade_done 0 (fade_done 1 w)) = []"
    "pl_base (fade_done 0 (fade_done 0 w)) = removeLoadStuff (remove_node k1 (remove_node k2 B))"
    by (simp_all add: w' fade_done_def upd_base_def)
  moreover have "removeLoadStuff (remove_node k1 B) = DNode i e (ks @ [?p])" unfolding B_def k1_def o un by simp
  moreover have "removeLoadStuff (remove_node k1 (remove_node k2 B)) = DNode i e (if ks = [] then [?c []] else ks)"
    unfolding B_def k1_def k2_def p un ..
  moreover have "remove_node k2 (DNode i e (ks @ [?p])) = b" unfolding k2_def r b ..
  ultimately show ?thesis by (simp add: b)
qed

definition ex_panel :: dnode where
  "ex_panel = div_node 0 [''panel''] [div_node 1 [''rows''] []]"

theorem panel_restores_witness:
  "pl_base (fade_done 0 (fade_done 0 (panelLoading panel_defaults (panelLoading panel_defaults \<lparr>pl_base = ex_panel, pl_next = 2, pl_fading = []\<rparr>)))) =
     ex_panel"
  using panel_restores [of "kids ex_panel" ex_panel 2 panel_defaults]
  by (simp add: ex_panel_def div_node_def foreign_def has_class_def panel_defaults_def)

end
