(* ===== verification/Tree_Widget.thy ===== *)
theory Tree_Widget
  imports Dom_Tree "HOL-Library.Multiset"
begin

text \<open>
  \<open>fuelux/dist/tree.js\<close>: the tree of folders and items. The widget finds two templates in its element, clones them for the
  entries that the data source delivers, opens and closes folders and keeps a selection in the class \<open>tree-selected\<close>. The
  page is a \<^typ>\<open>dnode\<close>; requests to the data source are pending until the event \<open>Deliver\<close> answers one of them, in any
  order; the data source is an argument.
\<close>

subsection \<open>State\<close>

datatype tree_event = TLoaded | TSelected "jval obj list" | TOpened "jval obj" | TClosed "jval obj"

record tree_request =
  rq_el :: nat
  rq_loader :: "nat option"
  rq_data :: "jval obj"

record tree =
  tw_page :: dnode
  tw_id :: nat
  tw_next :: nat
  tw_multiSelect :: bool
  tw_cacheItems :: bool
  tw_loadingHTML :: string
  tw_pending :: "tree_request list"
  tw_events :: "tree_event list"

definition element :: "tree \<Rightarrow> dnode option" where
  "element w = node_at (tw_id w) (tw_page w)"

definition el_find :: "string \<Rightarrow> tree \<Rightarrow> dnode list" where
  "el_find c w = (case element w of None \<Rightarrow> [] | Some n \<Rightarrow> find_class c n)"

definition upd_page :: "(dnode \<Rightarrow> dnode) \<Rightarrow> tree \<Rightarrow> tree" where
  "upd_page f w = w\<lparr>tw_page := f (tw_page w)\<rparr>"

definition trigger :: "tree_event \<Rightarrow> tree \<Rightarrow> tree" where
  "trigger e w = w\<lparr>tw_events := tw_events w @ [e]\<rparr>"

definition first_id :: "dnode list \<Rightarrow> nat list" where
  "first_id ns = map nid (take 1 ns)"

definition node_data :: "nat \<Rightarrow> tree \<Rightarrow> jval obj" where
  "node_data i w = (case node_at i (tw_page w) of None \<Rightarrow> [] | Some n \<Rightarrow> ti_data (info n))"

definition set_shown :: "bool \<Rightarrow> tinfo \<Rightarrow> tinfo" where
  "set_shown b e = e\<lparr>ti_shown := b\<rparr>"

subsection \<open>Filling a folder\<close>

text \<open>\<open>$entity.find('.c').html(name)\<close>; an absent name changes nothing.\<close>

definition name_below :: "string \<Rightarrow> jval option \<Rightarrow> dnode \<Rightarrow> dnode" where
  "name_below c name n =
     (case name of
        None \<Rightarrow> n
      | Some Undefined \<Rightarrow> n
      | Some v \<Rightarrow> map_below (\<lambda>e. c \<in> set (ti_classes e)) (set_html (js_string v)) n)"

definition put_data :: "jval obj \<Rightarrow> tinfo \<Rightarrow> tinfo" where
  "put_data v e = e\<lparr>ti_data := js_extend (ti_data e) v\<rparr>"

definition folder_entity :: "tree \<Rightarrow> jval obj \<Rightarrow> dnode \<Rightarrow> dnode" where
  "folder_entity w v n =
     (let n = set_info (set_shown True) n;
          n = name_below ''tree-folder-name'' (map_of v ''name'') n;
          n = map_below (\<lambda>e. ''tree-loader'' \<in> set (ti_classes e)) (set_html (tw_loadingHTML w)) n
      in map_below (\<lambda>e. ''tree-folder-header'' \<in> set (ti_classes e)) (set_info (put_data v)) n)"

definition item_entity :: "jval obj \<Rightarrow> dnode \<Rightarrow> dnode" where
  "item_entity v n =
     (let n = set_info (set_shown True) n;
          n = name_below ''tree-item-name'' (map_of v ''name'') n
      in set_info (put_data v) n)"

text \<open>The clone for one entry, with the next free identity; \<open>None\<close> when there is no template or no such type.\<close>

definition new_entity :: "tree \<Rightarrow> jval obj \<Rightarrow> (dnode \<times> nat) option" where
  "new_entity w v =
     (if map_of v ''type'' = Some (Str ''folder'') then
        (case el_find ''tree-folder'' w of
           [] \<Rightarrow> None
         | t # _ \<Rightarrow> (case clone (tw_next w) t of (n, k) \<Rightarrow> Some (folder_entity w v n, k)))
      else if map_of v ''type'' = Some (Str ''item'') then
        (case el_find ''tree-item'' w of
           [] \<Rightarrow> None
         | t # _ \<Rightarrow> (case clone (tw_next w) t of (n, k) \<Rightarrow> Some (item_entity v n, k)))
      else None)"

text \<open>The node that receives the entries of a request: the content of the folder, or the element itself.\<close>

definition receiver :: "nat \<Rightarrow> tree \<Rightarrow> nat option" where
  "receiver i w =
     (case node_at i (tw_page w) of
        None \<Rightarrow> None
      | Some n \<Rightarrow>
          if has_class ''tree-folder-header'' n then
            (case parent_at i (tw_page w) of
               None \<Rightarrow> None
             | Some p \<Rightarrow> (case find_class ''tree-folder-content'' p of [] \<Rightarrow> None | c # _ \<Rightarrow> Some (nid c)))
          else Some i)"

definition add_entry :: "nat \<Rightarrow> tree \<Rightarrow> jval obj \<Rightarrow> tree" where
  "add_entry i w v =
     (case new_entity w v of
        None \<Rightarrow> w
      | Some (n, k) \<Rightarrow>
          (case receiver i w of
             None \<Rightarrow> w\<lparr>tw_next := k\<rparr>
           | Some c \<Rightarrow> (upd_page (at_node c (append_kid n)) w)\<lparr>tw_next := k\<rparr>))"

definition tree_populate :: "nat \<Rightarrow> tree \<Rightarrow> tree" where
  "tree_populate i w =
     (let loader = (case parent_at i (tw_page w) of None \<Rightarrow> [] | Some p \<Rightarrow> first_id (find_class ''tree-loader'' p));
          w = upd_page (on_ids loader (set_shown True)) w
      in w\<lparr>tw_pending := tw_pending w @
             [\<lparr>rq_el = i, rq_loader = (case loader of [] \<Rightarrow> None | l # _ \<Rightarrow> Some l), rq_data = node_data i w\<rparr>]\<rparr>)"

text \<open>The callback that \<open>populate\<close> passes to the data source.\<close>

definition tree_answer :: "tree_request \<Rightarrow> jval obj list \<Rightarrow> tree \<Rightarrow> tree" where
  "tree_answer rq items w =
     (let w = upd_page (on_ids (case rq_loader rq of None \<Rightarrow> [] | Some l \<Rightarrow> [l]) (set_shown False)) w;
          w = foldl (add_entry (rq_el rq)) w items
      in trigger TLoaded w)"

definition tree_render :: "tree \<Rightarrow> tree" where
  "tree_render w = tree_populate (tw_id w) w"

subsection \<open>Selecting\<close>

definition icon_ids :: "dnode list \<Rightarrow> nat list" where
  "icon_ids ns = concat (map (\<lambda>n. map nid (find_tag ''i'' n)) ns)"

definition icon_off :: "tinfo \<Rightarrow> tinfo" where
  "icon_off e = add_class ''tree-dot'' (remove_class ''icon-ok'' e)"

definition icon_on :: "tinfo \<Rightarrow> tinfo" where
  "icon_on e = add_class ''icon-ok'' (remove_class ''tree-dot'' e)"

definition unselect :: "dnode list \<Rightarrow> dnode \<Rightarrow> dnode" where
  "unselect ns t = on_ids (icon_ids ns) icon_off (on_ids (map nid ns) (remove_class ''tree-selected'') t)"

definition tree_selectItem :: "nat \<Rightarrow> tree \<Rightarrow> tree" where
  "tree_selectItem i w =
     (case node_at i (tw_page w) of
        None \<Rightarrow> w
      | Some el \<Rightarrow>
          (let all = el_find ''tree-selected'' w;
               data = (if tw_multiSelect w then map (\<lambda>n. ti_data (info n)) (filter (\<lambda>n. nid n \<noteq> i) all)
                       else if map nid (take 1 all) \<noteq> [i] then [ti_data (info el)] else []);
               w = (if \<not> tw_multiSelect w \<and> map nid (take 1 all) \<noteq> [i] then upd_page (unselect all) w else w);
               was = (case node_at i (tw_page w) of None \<Rightarrow> False | Some n \<Rightarrow> has_class ''tree-selected'' n);
               w = (if was then upd_page (unselect [el]) w
                    else upd_page (\<lambda>t. on_ids (icon_ids [el]) icon_on (on_ids [i] (add_class ''tree-selected'') t)) w);
               data = (if \<not> was \<and> tw_multiSelect w then data @ [ti_data (info el)] else data)
           in if data \<noteq> [] then trigger (TSelected data) w else w))"

definition tree_selectedItems :: "tree \<Rightarrow> jval obj list" where
  "tree_selectedItems w = map (\<lambda>n. ti_data (info n)) (el_find ''tree-selected'' w)"

subsection \<open>Opening and closing\<close>

definition swap_icon :: "string \<Rightarrow> string \<Rightarrow> dnode \<Rightarrow> dnode \<Rightarrow> dnode" where
  "swap_icon c d p t = on_ids (first_id (find_class c p)) (\<lambda>e. add_class d (remove_class c e)) t"

definition tree_selectFolder :: "nat \<Rightarrow> tree \<Rightarrow> tree" where
  "tree_selectFolder i w =
     (case (node_at i (tw_page w), parent_at i (tw_page w)) of
        (Some el, Some p) \<Rightarrow>
          if find_class ''icon-folder-close'' el \<noteq> [] then
            (let w = (if list_ex (\<lambda>n. kids n \<noteq> []) (find_class ''tree-folder-content'' p)
                      then upd_page (on_ids (first_id (find_class ''tree-folder-content'' p)) (set_shown True)) w
                      else tree_populate i w);
                 w = upd_page (swap_icon ''icon-folder-close'' ''icon-folder-open'' p) w
             in trigger (TOpened (ti_data (info el))) w)
          else
            (let w = (if tw_cacheItems w
                      then upd_page (on_ids (first_id (find_class ''tree-folder-content'' p)) (set_shown False)) w
                      else (case find_class ''tree-folder-content'' p of
                              [] \<Rightarrow> w
                            | c # _ \<Rightarrow> upd_page (at_node (nid c) empty_node) w));
                 p' = (case node_at (nid p) (tw_page w) of None \<Rightarrow> p | Some n \<Rightarrow> n);
                 w = upd_page (swap_icon ''icon-folder-open'' ''icon-folder-close'' p') w
             in trigger (TClosed (ti_data (info el))) w)
      | _ \<Rightarrow> w)"

subsection \<open>Constructor and events\<close>

record tree_options =
  top_multiSelect :: "bool option"
  top_cacheItems :: "bool option"
  top_loadingHTML :: "string option"

definition new_tree :: "dnode \<Rightarrow> nat \<Rightarrow> nat \<Rightarrow> tree_options \<Rightarrow> tree" where
  "new_tree page i free ob =
     tree_render \<lparr>tw_page = page, tw_id = i, tw_next = free,
       tw_multiSelect = (case top_multiSelect ob of None \<Rightarrow> False | Some b \<Rightarrow> b),
       tw_cacheItems = (case top_cacheItems ob of None \<Rightarrow> True | Some b \<Rightarrow> b),
       tw_loadingHTML = (case top_loadingHTML ob of None \<Rightarrow> ''<div>Loading...</div>'' | Some t \<Rightarrow> t),
       tw_pending = [], tw_events = []\<rparr>"

datatype tree_input = ItemClick nat | FolderClick nat | Deliver nat

text \<open>A click reaches the handler of an element that has the class the handler is bound to and is rendered: neither it nor an
  element around it is hidden.\<close>

fun rendered :: "dnode \<Rightarrow> nat list" where
  "rendered (DNode i e ks) = (if ti_shown e then i # concat (map rendered ks) else [])"

definition clicked :: "string \<Rightarrow> nat \<Rightarrow> tree \<Rightarrow> bool" where
  "clicked c i w \<longleftrightarrow> i \<in> set (map nid (el_find c w)) \<and> i \<in> set (rendered (tw_page w))"

fun tree_handle :: "(jval obj \<Rightarrow> jval obj list) \<Rightarrow> tree \<Rightarrow> tree_input \<Rightarrow> tree" where
  "tree_handle source w (ItemClick i) = (if clicked ''tree-item'' i w then tree_selectItem i w else w)"
| "tree_handle source w (FolderClick i) = (if clicked ''tree-folder-header'' i w then tree_selectFolder i w else w)"
| "tree_handle source w (Deliver k) =
     (if k < length (tw_pending w)
      then (let rq = tw_pending w ! k
            in tree_answer rq (source (rq_data rq)) (w\<lparr>tw_pending := take k (tw_pending w) @ drop (Suc k) (tw_pending w)\<rparr>))
      else w)"

text \<open>\<open>$el.tree(m, v)\<close>; \<open>v\<close> is the element that \<open>selectItem\<close>, \<open>selectFolder\<close> and \<open>populate\<close> take.\<close>

definition tree_call :: "tree \<Rightarrow> string \<Rightarrow> nat \<Rightarrow> tree \<times> (js_error + jval obj list option)" where
  "tree_call w m v =
     (if m = ''render'' then (tree_render w, Inr None)
      else if m = ''populate'' then (tree_populate v w, Inr None)
      else if m = ''selectItem'' then (tree_selectItem v w, Inr None)
      else if m = ''selectFolder'' then (tree_selectFolder v w, Inr None)
      else if m = ''selectedItems'' then (w, Inr (Some (tree_selectedItems w)))
      else (w, Inl (TypeError m)))"

definition tree_plugin ::
  "tree_options plugin_arg \<Rightarrow> nat \<Rightarrow> (dnode \<times> nat \<times> nat, tree) host list \<Rightarrow>
   (dnode \<times> nat \<times> nat, tree) host list \<times> (js_error + jval obj list option)" where
  "tree_plugin opt v hs =
     plugin (\<lambda>(page, i, free) ob. new_tree page i free
       (case ob of None \<Rightarrow> \<lparr>top_multiSelect = None, top_cacheItems = None, top_loadingHTML = None\<rparr> | Some x \<Rightarrow> x)) tree_call opt v hs"

subsection \<open>Lemmas: the selection\<close>

definition ids :: "dnode \<Rightarrow> nat list" where
  "ids t = map nid (nodes t)"

definition selected :: "tree \<Rightarrow> nat list" where
  "selected w = map nid (el_find ''tree-selected'' w)"

lemma class_change [simp]:
  "c \<in> set (ti_classes (add_class d e)) \<longleftrightarrow> c = d \<or> c \<in> set (ti_classes e)"
  "c \<in> set (ti_classes (remove_class d e)) \<longleftrightarrow> c \<noteq> d \<and> c \<in> set (ti_classes e)"
  by (auto simp: add_class_def remove_class_def)

lemma info_change [simp]:
  "ti_data (add_class c e) = ti_data e" "ti_data (remove_class c e) = ti_data e"
  "ti_shown (add_class c e) = ti_shown e" "ti_shown (remove_class c e) = ti_shown e"
  "ti_data (set_shown b e) = ti_data e" "ti_classes (set_shown b e) = ti_classes e" "ti_shown (set_shown b e) = b"
  by (simp_all add: add_class_def remove_class_def set_shown_def)

lemma upd_page_fields [simp]:
  "tw_page (upd_page f w) = f (tw_page w)" "tw_id (upd_page f w) = tw_id w" "tw_next (upd_page f w) = tw_next w"
  "tw_multiSelect (upd_page f w) = tw_multiSelect w" "tw_events (upd_page f w) = tw_events w"
  by (simp_all add: upd_page_def)

lemma trigger_fields [simp]:
  "tw_page (trigger e w) = tw_page w" "tw_id (trigger e w) = tw_id w" "tw_next (trigger e w) = tw_next w"
  "tw_multiSelect (trigger e w) = tw_multiSelect w" "tw_events (trigger e w) = tw_events w @ [e]"
  by (simp_all add: trigger_def)

text \<open>Changing elements in place: what the search finds afterwards.\<close>

lemma el_find_map_info:
  assumes "tw_page w' = map_info g (tw_page w)" and "tw_id w' = tw_id w"
  shows "el_find c w' = map (map_info g)
    (filter (\<lambda>n. c \<in> set (ti_classes (g (nid n) (info n)))) (case element w of None \<Rightarrow> [] | Some n \<Rightarrow> below n))"
  by (simp add: el_find_def element_def assms node_at_map_info find_class_def below_map_info filter_map comp_def has_class_def
      split: option.splits)

lemma selected_map_info:
  assumes "tw_page w' = map_info g (tw_page w)" and "tw_id w' = tw_id w"
  shows "selected w' = map nid
    (filter (\<lambda>n. ''tree-selected'' \<in> set (ti_classes (g (nid n) (info n)))) (case element w of None \<Rightarrow> [] | Some n \<Rightarrow> below n))"
  by (simp add: selected_def el_find_map_info [OF assms])

text \<open>The changes of \<open>selectItem\<close>, composed: who is selected, and the data of every element.\<close>

definition marks :: "(nat \<Rightarrow> tinfo \<Rightarrow> tinfo) \<Rightarrow> (nat \<Rightarrow> bool \<Rightarrow> bool) \<Rightarrow> bool" where
  "marks g m \<longleftrightarrow> (\<forall>i e. (''tree-selected'' \<in> set (ti_classes (g i e)) \<longleftrightarrow> m i (''tree-selected'' \<in> set (ti_classes e))) \<and>
     ti_data (g i e) = ti_data e \<and> ti_shown (g i e) = ti_shown e \<and>
     (\<forall>c\<in>{''tree-folder'', ''tree-item'', ''tree-loader'', ''tree-folder-content'', ''tree-folder-header''}.
        c \<in> set (ti_classes (g i e)) \<longleftrightarrow> c \<in> set (ti_classes e)))"

lemma map_info_map_info: "map_info g (map_info h t) = map_info (\<lambda>i e. g i (h i e)) t"
  by (induction t) simp

lemma unselect_marks:
  "\<exists>g. marks g (\<lambda>i b. b \<and> i \<notin> nid ` set ns) \<and> (\<forall>t. unselect ns t = map_info g t)"
  by (rule exI [of _ "\<lambda>i e. (\<lambda>e. if i \<in> set (icon_ids ns) then icon_off e else e)
        (if i \<in> nid ` set ns then remove_class ''tree-selected'' e else e)"])
    (auto simp: marks_def unselect_def on_ids_def map_info_map_info icon_off_def)

lemma select_marks:
  "\<exists>g. marks g (\<lambda>j b. b \<or> j = i) \<and>
    (\<forall>t. on_ids (icon_ids ns) icon_on (on_ids [i] (add_class ''tree-selected'') t) = map_info g t)"
  by (rule exI [of _ "\<lambda>j e. (\<lambda>e. if j \<in> set (icon_ids ns) then icon_on e else e)
        (if j = i then add_class ''tree-selected'' e else e)"])
    (auto simp: marks_def on_ids_def map_info_map_info icon_on_def)

lemma marks_comp: "marks g m \<Longrightarrow> marks h m' \<Longrightarrow> marks (\<lambda>i e. g i (h i e)) (\<lambda>i b. m i (m' i b))"
  by (simp add: marks_def)

lemma marks_id: "marks (\<lambda>i e. e) (\<lambda>i b. b)"
  by (simp add: marks_def)

lemma map_info_id: "map_info (\<lambda>i e. e) t = t"
  by (induction t) (simp add: map_idI)

definition inside :: "tree \<Rightarrow> dnode list" where
  "inside w = (case element w of None \<Rightarrow> [] | Some n \<Rightarrow> below n)"

lemma el_find_inside: "el_find c w = filter (has_class c) (inside w)"
  by (simp add: el_find_def inside_def find_class_def split: option.splits)

lemma selected_marks:
  assumes "tw_page w' = map_info g (tw_page w)" and "tw_id w' = tw_id w" and "marks g m"
  shows "selected w' = map nid (filter (\<lambda>n. m (nid n) (has_class ''tree-selected'' n)) (inside w))"
    and "tree_selectedItems w' = map (\<lambda>n. ti_data (info n)) (filter (\<lambda>n. m (nid n) (has_class ''tree-selected'' n)) (inside w))"
  using assms(3)
  by (simp_all add: selected_map_info [OF assms(1,2)] tree_selectedItems_def el_find_map_info [OF assms(1,2)] marks_def
      inside_def has_class_def)

lemma nodes_trans: "n \<in> set (nodes t) \<Longrightarrow> set (nodes n) \<subseteq> set (nodes t)"
  by (induction t) fastforce

lemma ids_Node: "ids (DNode i e ks) = i # concat (map ids ks)"
  by (simp add: ids_def [abs_def] map_concat comp_def)

lemma distinct_ids_node: "n \<in> set (nodes t) \<Longrightarrow> distinct (ids t) \<Longrightarrow> distinct (ids n)"
proof (induction t)
  case (DNode i e ks)
  show ?case
  proof (cases "n = DNode i e ks")
    case False
    with DNode.prems(1) obtain k where k: "k \<in> set ks" "n \<in> set (nodes k)" by auto
    then have "distinct (ids k)" using DNode.prems(2) by (auto simp: ids_Node distinct_concat_iff)
    with DNode.IH k show ?thesis by blast
  qed (use DNode.prems in simp)
qed

lemma distinct_ids_inj: "distinct (ids t) \<Longrightarrow> m \<in> set (nodes t) \<Longrightarrow> n \<in> set (nodes t) \<Longrightarrow> nid m = nid n \<Longrightarrow> m = n"
  by (auto simp: ids_def distinct_map dest: inj_onD)

lemma node_at_eq: "distinct (ids t) \<Longrightarrow> n \<in> set (nodes t) \<Longrightarrow> node_at (nid n) t = Some n"
proof -
  assume t: "distinct (ids t)" and n: "n \<in> set (nodes t)"
  then obtain m where m: "node_at (nid n) t = Some m"
    by (cases "node_at (nid n) t") (auto simp: node_at_def find_None_iff)
  then have "m = n" using node_at_Some [OF m] distinct_ids_inj [OF t _ n, of m] by auto
  with m show ?thesis by simp
qed

lemma inside_nodes: "n \<in> set (inside w) \<Longrightarrow> n \<in> set (nodes (tw_page w))"
proof -
  assume n: "n \<in> set (inside w)"
  then obtain m where m: "element w = Some m" "n \<in> set (below m)" by (cases "element w") (auto simp: inside_def)
  then show ?thesis
    using nodes_trans [of m "tw_page w"] node_at_Some [of _ _ m] by (auto simp: element_def nodes_Cons)
qed

lemma inside_distinct: "distinct (ids (tw_page w)) \<Longrightarrow> distinct (map nid (inside w))"
proof (cases "element w")
  case (Some m)
  assume "distinct (ids (tw_page w))"
  then have "distinct (ids m)"
    using Some node_at_Some [of "tw_id w" "tw_page w" m] distinct_ids_node [of m "tw_page w"] by (simp add: element_def)
  with Some show ?thesis by (simp add: inside_def ids_def nodes_Cons)
qed (simp add: inside_def)

text \<open>Which elements are selected after a click on element \<open>i\<close>, from which were before.\<close>

definition toggled :: "tree \<Rightarrow> nat \<Rightarrow> nat \<Rightarrow> bool \<Rightarrow> bool" where
  "toggled w i j b \<longleftrightarrow>
     (if tw_multiSelect w then (if j = i then \<not> b else b)
      else if take 1 (selected w) = [i] then b \<and> j \<noteq> i
      else j = i \<or> b \<and> j \<notin> set (selected w))"

text \<open>One click as a single change of the page.\<close>

lemma selected_iff: "distinct (ids (tw_page w)) \<Longrightarrow> n \<in> set (inside w) \<Longrightarrow> nid n \<in> set (selected w) \<longleftrightarrow> has_class ''tree-selected'' n"
  using distinct_ids_inj [of "tw_page w"] inside_nodes by (fastforce simp: selected_def el_find_inside)

definition announced :: "tree \<Rightarrow> dnode \<Rightarrow> jval obj list" where
  "announced w el =
     (if tw_multiSelect w then map (\<lambda>n. ti_data (info n)) (filter (\<lambda>n. nid n \<noteq> nid el) (el_find ''tree-selected'' w)) @
         (if has_class ''tree-selected'' el then [] else [ti_data (info el)])
      else if take 1 (selected w) \<noteq> [nid el] then [ti_data (info el)] else [])"

definition selected_by :: "tree \<Rightarrow> dnode \<Rightarrow> (nat \<Rightarrow> tinfo \<Rightarrow> tinfo) \<Rightarrow> tree" where
  "selected_by w el g =
     w\<lparr>tw_page := map_info g (tw_page w),
       tw_events := tw_events w @ (if announced w el = [] then [] else [TSelected (announced w el)])\<rparr>"

lemma selectItem_toggle:
  assumes d: "distinct (ids (tw_page w))" and el: "el \<in> set (inside w)"
    and mode: "tw_multiSelect w \<or> take 1 (selected w) = [nid el]"
  shows "\<exists>g. marks g (\<lambda>j b. if has_class ''tree-selected'' el then b \<and> j \<noteq> nid el else b \<or> j = nid el) \<and>
    tree_selectItem (nid el) w = selected_by w el g"
proof -
  note at = node_at_eq [OF d inside_nodes [OF el]]
  obtain g where g: "marks g (\<lambda>j b. b \<and> j \<notin> nid ` set [el])" "\<forall>t. unselect [el] t = map_info g t"
    using unselect_marks by blast
  obtain h where h: "marks h (\<lambda>j b. b \<or> j = nid el)"
      "\<forall>t. on_ids (icon_ids [el]) icon_on (on_ids [nid el] (add_class ''tree-selected'') t) = map_info h t"
    using select_marks by blast
  have first: "map nid (take 1 (el_find ''tree-selected'' w)) = take 1 (selected w)" by (simp add: selected_def take_map)
  have sel: "take 1 (selected w) = [nid el] \<Longrightarrow> has_class ''tree-selected'' el"
    using selected_iff [OF d el] by (metis in_set_takeD list.set_intros(1))
  show ?thesis
  proof (cases "has_class ''tree-selected'' el")
    case True
    with g mode at first show ?thesis
      by (intro exI [of _ g]) (auto simp: tree_selectItem_def selected_by_def announced_def upd_page_def trigger_def Let_def)
  next
    case False
    with sel mode have "tw_multiSelect w" by blast
    with h False at first show ?thesis
      by (intro exI [of _ h]) (auto simp: tree_selectItem_def selected_by_def announced_def upd_page_def trigger_def Let_def)
  qed
qed

lemma selectItem_single:
  assumes d: "distinct (ids (tw_page w))" and el: "el \<in> set (inside w)"
    and mode: "\<not> tw_multiSelect w" "take 1 (selected w) \<noteq> [nid el]"
  shows "\<exists>g. marks g (\<lambda>j b. b \<and> j \<notin> set (selected w) \<or> j = nid el) \<and> tree_selectItem (nid el) w = selected_by w el g"
proof -
  note at = node_at_eq [OF d inside_nodes [OF el]]
  let ?all = "el_find ''tree-selected'' w"
  obtain g where g: "marks g (\<lambda>j b. b \<and> j \<notin> nid ` set ?all)" "\<forall>t. unselect ?all t = map_info g t"
    using unselect_marks by blast
  obtain h where h: "marks h (\<lambda>j b. b \<or> j = nid el)"
      "\<forall>t. on_ids (icon_ids [el]) icon_on (on_ids [nid el] (add_class ''tree-selected'') t) = map_info h t"
    using select_marks by blast
  have first: "map nid (take 1 ?all) = take 1 (selected w)" by (simp add: selected_def take_map)
  have "\<not> has_class ''tree-selected'' (map_info g el)"
    using g(1) selected_iff [OF d el] by (auto simp: has_class_def marks_def selected_def)
  with g(2) h(2) at first mode
  have "tree_selectItem (nid el) w = selected_by w el (\<lambda>i e. h i (g i e))"
    by (simp add: tree_selectItem_def selected_by_def announced_def upd_page_def trigger_def Let_def node_at_map_info map_info_map_info)
  moreover have "marks (\<lambda>i e. h i (g i e)) (\<lambda>j b. b \<and> j \<notin> set (selected w) \<or> j = nid el)"
    using marks_comp [OF h(1) g(1)] by (simp add: selected_def)
  ultimately show ?thesis by blast
qed

lemma selectItem_marks:
  assumes "distinct (ids (tw_page w))" and "el \<in> set (inside w)"
  shows "\<exists>g m. marks g m \<and> (\<forall>n\<in>set (inside w). m (nid n) (has_class ''tree-selected'' n) = toggled w (nid el) (nid n) (has_class ''tree-selected'' n)) \<and>
      (\<forall>j b. m j b \<longrightarrow> b \<or> j = nid el) \<and> tree_selectItem (nid el) w = selected_by w el g"
proof (cases "tw_multiSelect w \<or> take 1 (selected w) = [nid el]")
  case True
  let ?s = "has_class ''tree-selected''"
  let ?m = "\<lambda>j b. if ?s el then b \<and> j \<noteq> nid el else b \<or> j = nid el"
  obtain g where g: "marks g ?m" "tree_selectItem (nid el) w = selected_by w el g"
    using selectItem_toggle [OF assms True] by blast
  have same: "n = el" if "n \<in> set (inside w)" "nid n = nid el" for n
    using that distinct_ids_inj [OF assms(1)] inside_nodes assms(2) by blast
  have sel: "take 1 (selected w) = [nid el] \<Longrightarrow> ?s el"
    using selected_iff [OF assms] by (metis in_set_takeD list.set_intros(1))
  have "?m (nid n) (?s n) = toggled w (nid el) (nid n) (?s n)" if "n \<in> set (inside w)" for n
    using same [OF that] sel True by (cases "nid n = nid el") (auto simp: toggled_def)
  with g show ?thesis by (intro exI [of _ g] exI [of _ ?m]) auto
next
  case False
  then show ?thesis using selectItem_single [OF assms] by (fastforce simp: toggled_def)
qed

lemma filter_one: "distinct (map nid ns) \<Longrightarrow> n \<in> set ns \<Longrightarrow> filter (\<lambda>m. nid m = nid n) ns = [n]"
  by (induction ns) (auto simp: filter_empty_conv image_iff)

lemma toggled_selection:
  assumes d: "distinct (ids (tw_page w))" and el: "el \<in> set (inside w)"
  defines "w' \<equiv> tree_selectItem (nid el) w"
  shows "selected w' = map nid (filter (\<lambda>n. toggled w (nid el) (nid n) (has_class ''tree-selected'' n)) (inside w))"
    and "tree_selectedItems w' =
      map (\<lambda>n. ti_data (info n)) (filter (\<lambda>n. toggled w (nid el) (nid n) (has_class ''tree-selected'' n)) (inside w))"
    and "tw_events w' = tw_events w @ (if announced w el = [] then [] else [TSelected (announced w el)])"
proof -
  obtain g m where g: "marks g m"
      "\<forall>n\<in>set (inside w). m (nid n) (has_class ''tree-selected'' n) = toggled w (nid el) (nid n) (has_class ''tree-selected'' n)"
      "w' = selected_by w el g"
    using selectItem_marks [OF d el] unfolding w'_def by blast
  have page: "tw_page w' = map_info g (tw_page w)" "tw_id w' = tw_id w" by (simp_all add: g(3) selected_by_def)
  have "filter (\<lambda>n. m (nid n) (has_class ''tree-selected'' n)) (inside w) =
      filter (\<lambda>n. toggled w (nid el) (nid n) (has_class ''tree-selected'' n)) (inside w)"
    using g(2) by (intro filter_cong) auto
  with selected_marks [OF page g(1)]
  show "selected w' = map nid (filter (\<lambda>n. toggled w (nid el) (nid n) (has_class ''tree-selected'' n)) (inside w))"
    and "tree_selectedItems w' =
      map (\<lambda>n. ti_data (info n)) (filter (\<lambda>n. toggled w (nid el) (nid n) (has_class ''tree-selected'' n)) (inside w))"
    by simp_all
  show "tw_events w' = tw_events w @ (if announced w el = [] then [] else [TSelected (announced w el)])"
    by (simp add: g(3) selected_by_def)
qed

lemma toggled_single:
  assumes d: "distinct (ids (tw_page w))" and el: "el \<in> set (inside w)" and "\<not> tw_multiSelect w" and "length (selected w) \<le> 1"
  shows "filter (\<lambda>n. toggled w (nid el) (nid n) (has_class ''tree-selected'' n)) (inside w) = (if selected w = [nid el] then [] else [el])"
proof -
  have t: "toggled w (nid el) (nid n) (has_class ''tree-selected'' n) \<longleftrightarrow> selected w \<noteq> [nid el] \<and> nid n = nid el"
    if "n \<in> set (inside w)" for n
    using selected_iff [OF d that] assms(3,4) by (cases "selected w") (auto simp: toggled_def)
  show ?thesis
    using filter_one [OF inside_distinct [OF d] el] by (auto simp: filter_empty_conv t cong: filter_cong)
qed

lemma announced_multi:
  assumes d: "distinct (ids (tw_page w))" and el: "el \<in> set (inside w)" and "tw_multiSelect w"
  shows "mset (announced w el) = mset (tree_selectedItems (tree_selectItem (nid el) w))"
proof -
  let ?s = "has_class ''tree-selected''" and ?d = "\<lambda>n. ti_data (info n)" and ?F = "\<lambda>P. filter P (inside w)"
  have same: "n = el" if "n \<in> set (inside w)" "nid n = nid el" for n
    using that distinct_ids_inj [OF d] inside_nodes el by blast
  have "?F (\<lambda>n. toggled w (nid el) (nid n) (?s n)) = ?F (\<lambda>n. nid n \<noteq> nid el \<and> ?s n \<or> nid n = nid el \<and> \<not> ?s el)"
    using assms(3) same by (intro filter_cong) (auto simp: toggled_def)
  moreover have "mset (?F (\<lambda>n. nid n \<noteq> nid el \<and> ?s n \<or> nid n = nid el \<and> \<not> ?s el)) =
      mset (?F (\<lambda>n. nid n \<noteq> nid el \<and> ?s n)) + mset (?F (\<lambda>n. nid n = nid el \<and> \<not> ?s el))"
    by (simp add: mset_filter) (rule multiset_eqI, auto)
  moreover have "?F (\<lambda>n. nid n = nid el \<and> \<not> ?s el) = (if ?s el then [] else [el])"
    using filter_one [OF inside_distinct [OF d] el] by simp
  ultimately have "mset (tree_selectedItems (tree_selectItem (nid el) w)) =
      image_mset ?d (mset (?F (\<lambda>n. nid n \<noteq> nid el \<and> ?s n))) + image_mset ?d (mset (if ?s el then [] else [el]))"
    by (simp only: toggled_selection(2) [OF d el] mset_map image_mset_union)
  then show ?thesis using assms(3) by (simp add: announced_def el_find_inside conj_commute)
qed

subsection \<open>Properties: the selection\<close>


end
