(* ===== verification/Tree_Runs.thy ===== *)
theory Tree_Runs
  imports Tree_Widget
begin

text \<open>
  Runs of the tree widget: the markup that the widget needs (an element whose first two children are the hidden templates
  of a folder and of an item), how each operation changes identities and selection, and the invariant that with single
  selection at most one item is ever selected, through clicks, answers of the data source in any order and folders that
  are emptied on closing.
\<close>

subsection \<open>Multisets of identities\<close>

lemma distinct_mset_le: "mset xs \<subseteq># mset ys \<Longrightarrow> distinct ys \<Longrightarrow> distinct xs"
proof -
  assume le: "mset xs \<subseteq># mset ys" and d: "distinct ys"
  have "count (mset xs) a \<le> 1" for a
    using mset_subset_eq_count [OF le, of a] d by (metis distinct_count_atmost_1 le_trans nle_le not_one_le_zero zero_le)
  then show ?thesis by (metis count_mset_0_iff distinct_count_atmost_1 le_less_Suc_eq less_one linorder_not_less nle_le One_nat_def)
qed

lemma mset_ids_Node: "mset (ids (DNode i e ks)) = add_mset i (\<Sum>k\<leftarrow>ks. mset (ids k))"
  by (simp add: ids_Node mset_concat comp_def)

lemma sum_list_msubset: "(\<And>x. x \<in> set xs \<Longrightarrow> f x \<subseteq># g x) \<Longrightarrow> (\<Sum>x\<leftarrow>xs. f x :: 'a multiset) \<subseteq># (\<Sum>x\<leftarrow>xs. g x)"
  by (induction xs) (auto intro: subset_mset.add_mono)

lemma node_changes [simp]:
  "append_kid n (DNode i e ks) = DNode i e (ks @ [n])"
  "empty_node (DNode i e ks) = DNode i (e\<lparr>ti_html := []\<rparr>) []"
  by (simp_all add: append_kid_def empty_node_def)

lemma ids_append:
  "mset (ids (at_node c (append_kid n) t)) = mset (ids t) + repeat_mset (count (mset (ids t)) c) (mset (ids n))"
proof (induction t)
  case (DNode i e ks)
  have "(\<Sum>k\<leftarrow>ks. mset (ids (at_node c (append_kid n) k))) =
      (\<Sum>k\<leftarrow>ks. mset (ids k)) + repeat_mset (\<Sum>k\<leftarrow>ks. count (mset (ids k)) c) (mset (ids n))"
    using DNode by (induction ks) (simp_all add: repeat_mset_distrib ac_simps)
  moreover have "count (\<Sum>k\<leftarrow>ks. mset (ids k)) c = (\<Sum>k\<leftarrow>ks. count (mset (ids k)) c)" by (induction ks) simp_all
  ultimately show ?case
    by (simp add: mset_ids_Node Let_def comp_def)
qed

lemma ids_empty: "mset (ids (at_node c empty_node t)) \<subseteq># mset (ids t)"
proof (induction t)
  case (DNode i e ks)
  then have "(\<Sum>k\<leftarrow>ks. mset (ids (at_node c empty_node k))) \<subseteq># (\<Sum>k\<leftarrow>ks. mset (ids k))" by (intro sum_list_msubset)
  then show ?case by (simp add: mset_ids_Node Let_def comp_def)
qed

lemma ids_map_info [simp]: "ids (map_info g t) = ids t"
  by (simp add: ids_def nodes_map_info)

lemma ids_map_nodes:
  assumes "\<And>n. mset (ids (f n)) \<subseteq># mset (ids n)"
  shows "mset (ids (map_nodes P f t)) \<subseteq># mset (ids t)"
proof (induction t)
  case (DNode i e ks)
  let ?n = "DNode i e (map (map_nodes P f) ks)"
  from DNode have "(\<Sum>k\<leftarrow>ks. mset (ids (map_nodes P f k))) \<subseteq># (\<Sum>k\<leftarrow>ks. mset (ids k))" by (intro sum_list_msubset)
  then have n: "mset (ids ?n) \<subseteq># mset (ids (DNode i e ks))" by (simp add: mset_ids_Node comp_def)
  then have "mset (ids (f ?n)) \<subseteq># mset (ids (DNode i e ks))" using assms subset_mset.order_trans by blast
  with n show ?case by (simp add: Let_def)
qed

lemma ids_map_below:
  assumes "\<And>n. mset (ids (f n)) \<subseteq># mset (ids n)"
  shows "mset (ids (map_below P f t)) \<subseteq># mset (ids t)"
proof (cases t)
  case (DNode i e ks)
  have "(\<Sum>k\<leftarrow>ks. mset (ids (map_nodes P f k))) \<subseteq># (\<Sum>k\<leftarrow>ks. mset (ids k))"
    using assms by (intro sum_list_msubset ids_map_nodes)
  then show ?thesis by (simp add: DNode map_below_def mset_ids_Node comp_def)
qed

lemma ids_set_html: "mset (ids (set_html t n)) \<subseteq># mset (ids n)"
  by (cases n) (simp add: set_html_def mset_ids_Node)

lemma ids_set_info [simp]: "ids (set_info f n) = ids n"
  by (cases n) (simp add: set_info_def ids_Node)

subsection \<open>Subtrees without a selection\<close>

definition unsel :: "dnode \<Rightarrow> bool" where
  "unsel n \<longleftrightarrow> (\<forall>m\<in>set (nodes n). \<not> has_class ''tree-selected'' m)"

lemma unsel_Node: "unsel (DNode i e ks) \<longleftrightarrow> ''tree-selected'' \<notin> set (ti_classes e) \<and> (\<forall>k\<in>set ks. unsel k)"
  by (auto simp: unsel_def has_class_def)

lemma unsel_sub: "unsel t \<Longrightarrow> n \<in> set (nodes t) \<Longrightarrow> unsel n"
  using nodes_trans by (fastforce simp: unsel_def)

lemma unsel_clone:
  "unsel n \<Longrightarrow> unsel (fst (clone k n))"
  "\<forall>n\<in>set ns. unsel n \<Longrightarrow> \<forall>m\<in>set (fst (clone_all k ns)). unsel m"
  by (induction k n and k ns rule: clone_clone_all.induct) (auto simp: unsel_Node split: prod.splits)

lemma clone_ids:
  "ids (fst (clone k n)) = [k..<snd (clone k n)] \<and> k < snd (clone k n)"
  "concat (map ids (fst (clone_all k ns))) = [k..<snd (clone_all k ns)] \<and> k \<le> snd (clone_all k ns)"
proof (induction k n and k ns rule: clone_clone_all.induct)
  case (1 k i e ks)
  then show ?case by (auto simp: ids_Node upt_rec [of k] split: prod.splits)
next
  case (3 k n ns)
  obtain n' k' where n: "clone k n = (n', k')" by (cases "clone k n")
  obtain ns' k'' where ns: "clone_all k' ns = (ns', k'')" by (cases "clone_all k' ns")
  from 3(1) 3(2) [OF n [symmetric]] show ?case
    using upt_add_eq_append [of k k' "k'' - k'"] by (simp add: n ns)
qed simp

lemma unsel_map_nodes:
  assumes "\<And>n. unsel n \<Longrightarrow> unsel (f n)"
  shows "unsel t \<Longrightarrow> unsel (map_nodes P f t)"
proof (induction t)
  case (DNode i e ks)
  then have "unsel (DNode i e (map (map_nodes P f) ks))" by (simp add: unsel_Node)
  with assms show ?case by (simp add: Let_def)
qed

lemma unsel_map_below: "(\<And>n. unsel n \<Longrightarrow> unsel (f n)) \<Longrightarrow> unsel t \<Longrightarrow> unsel (map_below P f t)"
  by (cases t) (simp add: map_below_def unsel_Node unsel_map_nodes)

lemma unsel_set_html: "unsel n \<Longrightarrow> unsel (set_html t n)"
  by (cases n) (simp add: set_html_def unsel_Node)

lemma unsel_set_info: "ti_classes (f (info n)) = ti_classes (info n) \<Longrightarrow> unsel n \<Longrightarrow> unsel (set_info f n)"
  by (cases n) (simp add: set_info_def unsel_Node)

lemma entity_ok:
  "unsel n \<Longrightarrow> unsel (folder_entity w v n)" "unsel n \<Longrightarrow> unsel (item_entity v n)"
  "mset (ids (folder_entity w v n)) \<subseteq># mset (ids n)" "mset (ids (item_entity v n)) \<subseteq># mset (ids n)"
proof -
  have name: "unsel m \<Longrightarrow> unsel (name_below c x m)" "mset (ids (name_below c x m)) \<subseteq># mset (ids m)" for c x m
    by (auto simp: name_below_def intro!: unsel_map_below unsel_set_html ids_map_below ids_set_html
        split: option.splits jval.splits)
  have shown: "unsel m \<Longrightarrow> unsel (set_info (set_shown True) m)" for m by (rule unsel_set_info) simp
  have data: "unsel m \<Longrightarrow> unsel (set_info (put_data v) m)" for m by (rule unsel_set_info) (simp add: put_data_def)
  show "unsel n \<Longrightarrow> unsel (folder_entity w v n)" "unsel n \<Longrightarrow> unsel (item_entity v n)"
    by (auto simp: folder_entity_def item_entity_def Let_def intro!: unsel_map_below unsel_set_html name shown data)
  have "mset (ids (map_below P (set_info (put_data v)) m)) \<subseteq># mset (ids m)" for P m by (rule ids_map_below) simp
  moreover have "mset (ids (map_below P (set_html h) m)) \<subseteq># mset (ids m)" for P h m by (intro ids_map_below ids_set_html)
  ultimately show "mset (ids (folder_entity w v n)) \<subseteq># mset (ids n)" "mset (ids (item_entity v n)) \<subseteq># mset (ids n)"
    using name(2) [of _ _ "set_info (set_shown True) n"] by (simp_all add: folder_entity_def item_entity_def Let_def)
      (meson subset_mset.order_trans)
qed

subsection \<open>The markup\<close>

definition template :: "string \<Rightarrow> dnode \<Rightarrow> bool" where
  "template c n \<longleftrightarrow> has_class c n \<and> \<not> ti_shown (info n) \<and> unsel n \<and>
     \<not> has_class ''tree-loader'' n \<and> \<not> has_class ''tree-folder-content'' n"

definition shape :: "nat \<Rightarrow> dnode \<Rightarrow> bool" where
  "shape te t \<longleftrightarrow> (\<exists>pid pe pre e F I rest post. t = DNode pid pe (pre @ DNode te e (F # I # rest) # post) \<and>
     template ''tree-folder'' F \<and> template ''tree-item'' I \<and>
     ''tree-folder-content'' \<notin> set (ti_classes pe) \<and> ''tree-folder-content'' \<notin> set (ti_classes e))"

lemma shape_element:
  assumes "shape te t" and "distinct (ids t)"
  obtains e F I rest where "node_at te t = Some (DNode te e (F # I # rest))"
    "template ''tree-folder'' F" "template ''tree-item'' I" "te \<noteq> nid t"
    "''tree-folder-content'' \<notin> set (ti_classes e)" "''tree-folder-content'' \<notin> set (ti_classes (info t))"
proof -
  obtain pid pe pre e F I rest post where t: "t = DNode pid pe (pre @ DNode te e (F # I # rest) # post)"
    "template ''tree-folder'' F" "template ''tree-item'' I"
    "''tree-folder-content'' \<notin> set (ti_classes pe)" "''tree-folder-content'' \<notin> set (ti_classes e)"
    using assms(1) unfolding shape_def by blast
  have "DNode te e (F # I # rest) \<in> set (nodes t)" by (simp add: t(1))
  from node_at_eq [OF assms(2) this] have "node_at te t = Some (DNode te e (F # I # rest))" by simp
  moreover have "te \<noteq> nid t" using assms(2) by (auto simp: t(1) ids_Node)
  moreover have "info t = pe" by (simp add: t(1))
  ultimately show thesis using t that by metis
qed

text \<open>Nothing inside a hidden element is rendered.\<close>

lemma rendered_ids: "set (rendered t) \<subseteq> set (ids t)"
  by (induction t) (auto simp: ids_Node)

lemma hidden_not_rendered:
  "distinct (ids t) \<Longrightarrow> n \<in> set (nodes t) \<Longrightarrow> \<not> ti_shown (info n) \<Longrightarrow> m \<in> set (nodes n) \<Longrightarrow> nid m \<notin> set (rendered t)"
proof (induction t)
  case (DNode i e ks)
  show ?case
  proof (cases "n = DNode i e ks")
    case False
    then obtain k where k: "k \<in> set ks" "n \<in> set (nodes k)" using DNode.prems(2) by auto
    have mk: "nid m \<in> set (ids k)" using nodes_trans [OF k(2)] DNode.prems(4) by (auto simp: ids_def)
    have d: "distinct (ids k)" "i \<notin> set (ids k)" "\<And>k'. k' \<in> set ks \<Longrightarrow> k' \<noteq> k \<Longrightarrow> ids k' \<noteq> ids k \<Longrightarrow> set (ids k') \<inter> set (ids k) = {}"
      using DNode.prems(1) k(1) by (auto simp: ids_Node distinct_concat_iff)
    have ne: "ids k' \<noteq> ids k" if "k' \<in> set ks" "k' \<noteq> k" for k'
    proof
      assume "ids k' = ids k"
      then have "nid k' = nid k" by (cases k; cases k') (simp add: ids_Node)
      moreover have "x \<in> set (nodes (DNode i e ks))" if "x \<in> set ks" for x using that nodes_self by fastforce
      ultimately show False using distinct_ids_inj [OF DNode.prems(1), of k' k] that k(1) by blast
    qed
    have "nid m \<notin> set (rendered k')" if "k' \<in> set ks" for k'
    proof (cases "k' = k")
      case True
      then show ?thesis using DNode.IH [OF k(1) d(1) k(2) DNode.prems(3,4)] by simp
    next
      case False
      then show ?thesis using d(3) [OF that False ne [OF that False]] mk rendered_ids [of k'] by blast
    qed
    with mk d(2) show ?thesis by auto
  qed (use DNode.prems in simp)
qed

text \<open>In-place changes that keep the markup: the structural classes stay, only loaders and contents are shown, and only a
  rendered element becomes selected.\<close>

definition harmless :: "dnode \<Rightarrow> (nat \<Rightarrow> tinfo \<Rightarrow> tinfo) \<Rightarrow> bool" where
  "harmless t g \<longleftrightarrow> (\<forall>n\<in>set (nodes t). let e = info n; e' = g (nid n) e in
     (\<forall>c\<in>{''tree-folder'', ''tree-item'', ''tree-loader'', ''tree-folder-content''}. c \<in> set (ti_classes e') \<longleftrightarrow> c \<in> set (ti_classes e)) \<and>
     (ti_shown e' \<longrightarrow> ti_shown e \<or> has_class ''tree-loader'' n \<or> has_class ''tree-folder-content'' n) \<and>
     (''tree-selected'' \<in> set (ti_classes e') \<longrightarrow> has_class ''tree-selected'' n \<or> nid n \<in> set (rendered t)))"

lemma template_map_info:
  assumes "harmless t g" and "distinct (ids t)" and "n \<in> set (nodes t)" and "template c n" and "c \<in> {''tree-folder'', ''tree-item''}"
  shows "template c (map_info g n)"
proof -
  have "\<not> has_class ''tree-selected'' (map_info g m)" if m: "m \<in> set (nodes n)" for m
  proof -
    have "m \<in> set (nodes t)" using m nodes_trans assms(3) by blast
    then have "''tree-selected'' \<in> set (ti_classes (g (nid m) (info m))) \<longrightarrow> has_class ''tree-selected'' m \<or> nid m \<in> set (rendered t)"
      using assms(1) by (auto simp: harmless_def Let_def)
    moreover have "nid m \<notin> set (rendered t)" "\<not> has_class ''tree-selected'' m"
      using hidden_not_rendered [OF assms(2,3) _ m] assms(4) m by (auto simp: template_def unsel_def)
    ultimately show ?thesis by (simp add: has_class_def)
  qed
  then have "unsel (map_info g n)" by (simp add: unsel_def nodes_map_info)
  with assms show ?thesis by (auto simp: template_def harmless_def Let_def has_class_def)
qed

lemma shape_map_info:
  assumes "shape te t" and "harmless t g" and "distinct (ids t)"
  shows "shape te (map_info g t)"
proof -
  obtain pid pe pre e F I rest post where t: "t = DNode pid pe (pre @ DNode te e (F # I # rest) # post)"
    "template ''tree-folder'' F" "template ''tree-item'' I"
    "''tree-folder-content'' \<notin> set (ti_classes pe)" "''tree-folder-content'' \<notin> set (ti_classes e)"
    using assms(1) unfolding shape_def by blast
  have "F \<in> set (nodes t)" "I \<in> set (nodes t)" by (simp_all add: t(1))
  then have "template ''tree-folder'' (map_info g F)" "template ''tree-item'' (map_info g I)"
    using template_map_info [OF assms(2,3)] t(2,3) by blast+
  moreover have "t \<in> set (nodes t)" "DNode te e (F # I # rest) \<in> set (nodes t)" by (simp, simp add: t(1))
  then have "''tree-folder-content'' \<notin> set (ti_classes (g pid pe))" "''tree-folder-content'' \<notin> set (ti_classes (g te e))"
    using assms(2) t(4,5) unfolding harmless_def Let_def by (force simp: t(1))+
  ultimately show ?thesis unfolding shape_def t(1) by (simp, blast)
qed

lemma unsel_append: "unsel n \<Longrightarrow> unsel t \<Longrightarrow> unsel (at_node c (append_kid n) t)"
  by (induction t) (auto simp: unsel_Node Let_def)

lemma unsel_empty: "unsel t \<Longrightarrow> unsel (at_node c empty_node t)"
  by (induction t) (auto simp: unsel_Node Let_def)

lemma template_changes:
  "template k t \<Longrightarrow> unsel n \<Longrightarrow> template k (at_node c (append_kid n) t)"
  "template k t \<Longrightarrow> template k (at_node c empty_node t)"
proof -
  have "has_class d (at_node c (append_kid n) t) = has_class d t" "ti_shown (info (at_node c (append_kid n) t)) = ti_shown (info t)"
    "has_class d (at_node c empty_node t) = has_class d t" "ti_shown (info (at_node c empty_node t)) = ti_shown (info t)" for d
    by (cases t; simp add: has_class_def Let_def)+
  then show "template k t \<Longrightarrow> unsel n \<Longrightarrow> template k (at_node c (append_kid n) t)"
    "template k t \<Longrightarrow> template k (at_node c empty_node t)"
    by (simp_all add: template_def unsel_append unsel_empty)
qed

lemma shape_append:
  assumes "shape te t" and "unsel n"
  shows "shape te (at_node c (append_kid n) t)"
proof -
  obtain pid pe pre e F I rest post where t: "t = DNode pid pe (pre @ DNode te e (F # I # rest) # post)"
    "template ''tree-folder'' F" "template ''tree-item'' I"
    "''tree-folder-content'' \<notin> set (ti_classes pe)" "''tree-folder-content'' \<notin> set (ti_classes e)"
    using assms(1) unfolding shape_def by blast
  let ?T = "at_node c (append_kid n)"
  have "?T (DNode te e (F # I # rest)) = DNode te e (?T F # ?T I # map ?T rest @ (if te = c then [n] else []))"
    by (simp add: Let_def)
  then have "?T t = DNode pid pe (map ?T pre @ DNode te e (?T F # ?T I # map ?T rest @ (if te = c then [n] else [])) #
      map ?T post @ (if pid = c then [n] else []))"
    by (simp add: t(1) Let_def del: at_node.simps) (simp add: Let_def)
  then show ?thesis unfolding shape_def using template_changes(1) t(2-5) assms(2) by blast
qed

lemma shape_empty:
  assumes "shape te t" and "c \<noteq> te" and "c \<noteq> nid t"
  shows "shape te (at_node c empty_node t)"
proof -
  obtain pid pe pre e F I rest post where t: "t = DNode pid pe (pre @ DNode te e (F # I # rest) # post)"
    "template ''tree-folder'' F" "template ''tree-item'' I"
    "''tree-folder-content'' \<notin> set (ti_classes pe)" "''tree-folder-content'' \<notin> set (ti_classes e)"
    using assms(1) unfolding shape_def by blast
  let ?T = "at_node c empty_node"
  have "?T t = DNode pid pe (map ?T pre @ DNode te e (?T F # ?T I # map ?T rest) # map ?T post)"
    using assms(2,3) by (simp add: t(1) Let_def)
  then show ?thesis unfolding shape_def using template_changes(2) t(2-5) by blast
qed

subsection \<open>The invariant\<close>

definition page_ok :: "nat \<Rightarrow> nat \<Rightarrow> dnode \<Rightarrow> bool" where
  "page_ok te k t \<longleftrightarrow> shape te t \<and> distinct (ids t) \<and> (\<forall>i\<in>set (ids t). i < k)"

definition tree_ok :: "tree \<Rightarrow> bool" where
  "tree_ok w \<longleftrightarrow> page_ok (tw_id w) (tw_next w) (tw_page w) \<and> (tw_multiSelect w \<or> length (selected w) \<le> 1)"

lemma page_ok_map_info: "page_ok te k t \<Longrightarrow> harmless t g \<Longrightarrow> page_ok te k (map_info g t)"
  by (simp add: page_ok_def shape_map_info)

lemma page_ok_empty: "page_ok te k t \<Longrightarrow> c \<noteq> te \<Longrightarrow> c \<noteq> nid t \<Longrightarrow> page_ok te k (at_node c empty_node t)"
  using ids_empty [of c t] set_mset_mono [OF ids_empty, of c t]
  by (auto simp: page_ok_def shape_empty dest: distinct_mset_le)

lemma page_ok_append:
  assumes "page_ok te k t" and "unsel n" and "mset (ids n) \<subseteq># mset [k..<k']" and "k \<le> k'"
  shows "page_ok te k' (at_node c (append_kid n) t)"
proof -
  have n: "distinct (ids n)" "set (ids n) \<subseteq> {k..<k'}"
    using distinct_mset_le [OF assms(3)] set_mset_mono [OF assms(3)] by auto
  define j where "j = count (mset (ids t)) c"
  have j: "j \<le> 1" using assms(1) by (simp add: page_ok_def distinct_count_atmost_1 j_def)
  have le: "mset (ids (at_node c (append_kid n) t)) \<subseteq># mset (ids t @ ids n)"
    unfolding ids_append j_def [symmetric] using j by (cases j) simp_all
  have "set (ids t) \<inter> set (ids n) = {}" using assms(1) n(2) by (fastforce simp: page_ok_def)
  then have "distinct (ids t @ ids n)" using assms(1) n(1) by (simp add: page_ok_def)
  moreover have "set (ids (at_node c (append_kid n) t)) \<subseteq> set (ids t) \<union> set (ids n)" using set_mset_mono [OF le] by simp
  ultimately show ?thesis
    using assms(1,2,4) n(2) distinct_mset_le [OF le] by (fastforce simp: page_ok_def shape_append)
qed

text \<open>How many elements below the widget's element are selected.\<close>

definition sels :: "dnode \<Rightarrow> nat" where
  "sels t = length (filter (has_class ''tree-selected'') (nodes t))"

lemma sels_Node: "sels (DNode i e ks) = (if ''tree-selected'' \<in> set (ti_classes e) then 1 else 0) + (\<Sum>k\<leftarrow>ks. sels k)"
  by (simp add: sels_def [abs_def] has_class_def filter_concat length_concat comp_def)

lemma sels_unsel: "unsel n \<Longrightarrow> sels n = 0"
  by (simp add: unsel_def sels_def)

lemma sels_append: "unsel n \<Longrightarrow> sels (at_node c (append_kid n) t) = sels t"
  by (induction t) (simp add: sels_Node Let_def sels_unsel comp_def cong: map_cong)

lemma sels_empty: "sels (at_node c empty_node t) \<le> sels t"
proof (induction t)
  case (DNode i e ks)
  then have "(\<Sum>k\<leftarrow>ks. sels (at_node c empty_node k)) \<le> (\<Sum>k\<leftarrow>ks. sels k)" by (intro sum_list_mono)
  then show ?case by (simp add: sels_Node Let_def comp_def)
qed

lemma selected_sels: "element w = Some n \<Longrightarrow> length (selected w) = sels n - (if has_class ''tree-selected'' n then 1 else 0)"
  by (cases n) (simp add: selected_def el_find_def find_class_def sels_def nodes_Cons)

text \<open>The element of the changed page is the changed element.\<close>

lemma at_node_kid:
  assumes "f = append_kid n \<or> f = empty_node \<and> c \<noteq> i" and "k \<in> set ks"
  shows "at_node c f k \<in> set (nodes (at_node c f (DNode i e ks)))"
proof -
  have "at_node c f k \<in> set (kids (at_node c f (DNode i e ks)))" using assms by (auto simp: Let_def)
  moreover have "m \<in> set (nodes t)" if "m \<in> set (kids t)" for m t using that nodes_self by (cases t) fastforce
  ultimately show ?thesis by blast
qed

lemma element_change:
  assumes "page_ok te k t" and "node_at te (at_node c f t) = Some m" and "f = append_kid n \<or> f = empty_node \<and> c \<noteq> te \<and> c \<noteq> nid t"
    and "distinct (ids (at_node c f t))"
  shows "\<exists>m0. node_at te t = Some m0 \<and> m = at_node c f m0"
proof -
  obtain pid pe pre e F I rest post where t: "t = DNode pid pe (pre @ DNode te e (F # I # rest) # post)"
    using assms(1) unfolding page_ok_def shape_def by blast
  let ?E = "DNode te e (F # I # rest)"
  have E: "node_at te t = Some ?E" using node_at_eq [of t ?E] assms(1) by (simp add: page_ok_def t)
  have "at_node c f ?E \<in> set (nodes (at_node c f t))"
    unfolding t by (rule at_node_kid [of _ n]) (use assms(3) in \<open>auto simp: t\<close>)
  moreover have "nid (at_node c f ?E) = te" using assms(3) by (auto simp: Let_def)
  ultimately have "node_at te (at_node c f t) = Some (at_node c f ?E)" using node_at_eq [OF assms(4)] by metis
  with assms(2) E show ?thesis by simp
qed

subsection \<open>Every step keeps the invariant\<close>

lemma ok_element: "page_ok (tw_id w) k (tw_page w) \<Longrightarrow> \<exists>m. element w = Some m"
  using shape_element [of "tw_id w" "tw_page w"] by (metis element_def page_ok_def)

lemma tree_ok_change:
  assumes "tree_ok w" and f: "f = append_kid n \<and> unsel n \<or> f = empty_node \<and> c \<noteq> tw_id w \<and> c \<noteq> nid (tw_page w)"
    and ok: "page_ok (tw_id w) k (at_node c f (tw_page w))"
  shows "tree_ok ((upd_page (at_node c f) w)\<lparr>tw_next := k\<rparr>)"
proof -
  let ?w = "(upd_page (at_node c f) w)\<lparr>tw_next := k\<rparr>"
  obtain m where m: "element ?w = Some m" using ok_element [of ?w k] ok by auto
  obtain m0 where m0: "element w = Some m0" "m = at_node c f m0"
    using element_change [of "tw_id w" "tw_next w" "tw_page w" c f m n] m ok f assms(1)
    by (auto simp: element_def tree_ok_def page_ok_def)
  have "has_class ''tree-selected'' m = has_class ''tree-selected'' m0"
    using f m0(2) by (cases m0) (auto simp: has_class_def Let_def)
  moreover have "sels m \<le> sels m0" using f m0(2) sels_append sels_empty by auto
  ultimately have "length (selected ?w) \<le> length (selected w)" by (simp add: selected_sels m m0)
  with assms(1) ok show ?thesis by (auto simp: tree_ok_def)
qed

lemma tree_ok_inplace:
  assumes "tree_ok w" and "harmless (tw_page w) g"
    and "\<And>i e. ''tree-selected'' \<in> set (ti_classes (g i e)) \<Longrightarrow> ''tree-selected'' \<in> set (ti_classes e)"
    and "tw_page w' = map_info g (tw_page w)" "tw_id w' = tw_id w" "tw_next w' = tw_next w" "tw_multiSelect w' = tw_multiSelect w"
  shows "tree_ok w'"
proof -
  have "filter (\<lambda>n. ''tree-selected'' \<in> set (ti_classes (g (nid n) (info n)))) (inside w) =
      filter (\<lambda>n. ''tree-selected'' \<in> set (ti_classes (g (nid n) (info n)))) (el_find ''tree-selected'' w)"
    using assms(3) by (auto simp: el_find_inside has_class_def intro!: filter_cong)
  then have "length (selected w') \<le> length (selected w)"
    using selected_map_info [OF assms(4,5)] by (simp add: inside_def [symmetric] selected_def)
  with assms show ?thesis by (auto simp: tree_ok_def page_ok_map_info)
qed

lemma harmless_on_ids:
  assumes "\<And>e. (\<forall>c\<in>{''tree-folder'', ''tree-item'', ''tree-loader'', ''tree-folder-content'', ''tree-selected''}.
      c \<in> set (ti_classes (f e)) \<longleftrightarrow> c \<in> set (ti_classes e))"
    and "\<And>n. n \<in> set (nodes t) \<Longrightarrow> nid n \<in> set is \<Longrightarrow> ti_shown (f (info n)) \<Longrightarrow>
      ti_shown (info n) \<or> has_class ''tree-loader'' n \<or> has_class ''tree-folder-content'' n"
  shows "harmless t (\<lambda>i e. if i \<in> set is then f e else e)"
  using assms by (auto simp: harmless_def Let_def has_class_def)

lemma tree_ok_on_ids:
  assumes "tree_ok w"
    and "\<And>e. (\<forall>c\<in>{''tree-folder'', ''tree-item'', ''tree-loader'', ''tree-folder-content'', ''tree-selected''}.
      c \<in> set (ti_classes (f e)) \<longleftrightarrow> c \<in> set (ti_classes e))"
    and "\<And>n. n \<in> set (nodes (tw_page w)) \<Longrightarrow> nid n \<in> set is \<Longrightarrow> ti_shown (f (info n)) \<Longrightarrow>
      ti_shown (info n) \<or> has_class ''tree-loader'' n \<or> has_class ''tree-folder-content'' n"
  shows "tree_ok (upd_page (on_ids is f) w)"
  using assms(2)
  by (intro tree_ok_inplace [OF assms(1) harmless_on_ids [OF assms(2,3)]]) (auto simp: on_ids_def split: if_splits)

text \<open>The first element of a class below a node of the page.\<close>

lemma first_id_class:
  assumes "distinct (ids t)" and "p \<in> set (nodes t)" and "n \<in> set (nodes t)" and "nid n \<in> set (first_id (find_class c p))"
  shows "has_class c n"
proof -
  obtain m where m: "m \<in> set (find_class c p)" "nid m = nid n" using assms(4) by (auto simp: first_id_def dest: in_set_takeD)
  then have "m \<in> set (nodes t)" using nodes_trans [OF assms(2)] by (auto simp: find_class_def nodes_Cons)
  then have "m = n" using distinct_ids_inj [OF assms(1) _ assms(3) m(2)] by blast
  with m(1) show ?thesis by (simp add: find_class_def)
qed

lemma parent_at_Some: "parent_at i t = Some p \<Longrightarrow> p \<in> set (nodes t)"
  by (auto simp: parent_at_def find_Some_iff)

lemma tree_ok_show:
  assumes "tree_ok w" and "p \<in> set (nodes (tw_page w))" and "c = ''tree-loader'' \<or> c = ''tree-folder-content''"
  shows "tree_ok (upd_page (on_ids (first_id (find_class c p)) (set_shown b)) w)"
proof (rule tree_ok_on_ids [OF assms(1)])
  fix n
  assume "n \<in> set (nodes (tw_page w))" "nid n \<in> set (first_id (find_class c p))"
  then have "has_class c n" using first_id_class assms(1,2) by (auto simp: tree_ok_def page_ok_def)
  then show "ti_shown (info n) \<or> has_class ''tree-loader'' n \<or> has_class ''tree-folder-content'' n" using assms(3) by auto
qed simp

lemma tree_ok_fields: "tree_ok w \<Longrightarrow> tree_ok (w\<lparr>tw_pending := ps\<rparr>)" "tree_ok w \<Longrightarrow> tree_ok (trigger e w)"
  by (simp_all add: tree_ok_def selected_def el_find_def element_def trigger_def)

lemma populate_ok: "tree_ok w \<Longrightarrow> tree_ok (tree_populate i w)"
proof -
  assume w: "tree_ok w"
  have "tree_ok (upd_page (on_ids [] (set_shown True)) w)" by (rule tree_ok_on_ids [OF w]) simp_all
  with tree_ok_show [OF w parent_at_Some] show ?thesis
    by (auto simp: tree_populate_def Let_def intro!: tree_ok_fields split: option.splits)
qed

text \<open>The templates that are cloned are the ones of the markup, or hidden copies inside them.\<close>

lemma template_found:
  assumes "page_ok (tw_id w) k (tw_page w)" and "c = ''tree-folder'' \<or> c = ''tree-item''" and "el_find c w = t # ts"
  shows "unsel t"
proof -
  have "shape (tw_id w) (tw_page w)" "distinct (ids (tw_page w))" using assms(1) by (simp_all add: page_ok_def)
  then obtain e F I rest where "node_at (tw_id w) (tw_page w) = Some (DNode (tw_id w) e (F # I # rest))"
    and E: "template ''tree-folder'' F" "template ''tree-item'' I"
    by (rule shape_element)
  then have found: "filter (has_class c) (nodes F) @ filter (has_class c) (nodes I @ concat (map nodes rest)) = t # ts"
    using assms(3) by (simp add: el_find_def element_def find_class_def below_def)
  show ?thesis
  proof (cases "filter (has_class c) (nodes F)")
    case (Cons m ms)
    have "m \<in> set (filter (has_class c) (nodes F))" by (simp only: Cons list.set_intros)
    moreover have "t = m" using found by (simp add: Cons)
    ultimately have "t \<in> set (nodes F)" by simp
    with E(1) show ?thesis using unsel_sub by (auto simp: template_def)
  next
    case Nil
    then have "c \<noteq> ''tree-folder''" using E(1) by (cases F) (auto simp: template_def)
    with assms(2) E(2) have "has_class c I" by (simp add: template_def)
    with Nil found have "t = I" by (simp add: nodes_Cons)
    with E(2) show ?thesis by (simp add: template_def)
  qed
qed

lemma new_entity_ok:
  assumes "page_ok (tw_id w) k (tw_page w)" and "new_entity w v = Some (n, k')"
  shows "unsel n" and "mset (ids n) \<subseteq># mset [tw_next w..<k']" and "tw_next w \<le> k'"
proof -
  obtain m ts c n0 where m: "c = ''tree-folder'' \<or> c = ''tree-item''" "el_find c w = m # ts" "clone (tw_next w) m = (n0, k')"
    "n = folder_entity w v n0 \<or> n = item_entity v n0"
    using assms(2) by (auto simp: new_entity_def split: if_splits list.splits prod.splits)
  have "unsel n0" using unsel_clone(1) [OF template_found [OF assms(1) m(1,2)], of "tw_next w"] by (simp add: m(3))
  with m(4) show "unsel n" using entity_ok(1,2) by blast
  have "ids n0 = [tw_next w..<k'] \<and> tw_next w < k'" using clone_ids(1) [of "tw_next w" m] by (simp add: m(3))
  with m(4) show "mset (ids n) \<subseteq># mset [tw_next w..<k']" "tw_next w \<le> k'"
    using entity_ok(3) [of w v n0] entity_ok(4) [of v n0] by auto
qed

lemma add_entry_ok: "tree_ok w \<Longrightarrow> tree_ok (add_entry i w v)"
proof (cases "new_entity w v")
  case (Some p)
  assume w: "tree_ok w"
  obtain n k where p: "p = (n, k)" by (cases p)
  have ok: "page_ok (tw_id w) (tw_next w) (tw_page w)" using w by (simp add: tree_ok_def)
  note n = new_entity_ok [OF ok Some [unfolded p]]
  have "page_ok (tw_id w) k (tw_page w)" using ok n(3) by (fastforce simp: page_ok_def)
  then have "tree_ok (w\<lparr>tw_next := k\<rparr>)"
    using w by (simp add: tree_ok_def selected_def el_find_def element_def)
  with w n show ?thesis
    by (auto simp: add_entry_def Some p split: option.splits intro!: tree_ok_change page_ok_append [OF ok])
qed (simp add: add_entry_def)

lemma answer_ok: "tree_ok w \<Longrightarrow> tree_ok (tree_answer rq items w)"
proof -
  assume w: "tree_ok w"
  have "tree_ok (foldl (add_entry i) u items)" if "tree_ok u" for u i
    using that by (induction items arbitrary: u) (simp_all add: add_entry_ok)
  moreover have "tree_ok (upd_page (on_ids is (set_shown False)) w)" for "is"
    by (rule tree_ok_on_ids [OF w]) simp_all
  ultimately show ?thesis by (simp add: tree_answer_def Let_def tree_ok_fields(2))
qed

lemma selectItem_ok:
  assumes "tree_ok w" and "clicked ''tree-item'' i w"
  shows "tree_ok (tree_selectItem i w)"
proof -
  have d: "distinct (ids (tw_page w))" using assms(1) by (simp add: tree_ok_def page_ok_def)
  obtain el where el: "el \<in> set (inside w)" "nid el = i" using assms(2) by (auto simp: clicked_def el_find_inside)
  obtain g m where g: "marks g m" "\<forall>j b. m j b \<longrightarrow> b \<or> j = nid el" "tree_selectItem (nid el) w = selected_by w el g"
    using selectItem_marks [OF d el(1)] by blast
  have "harmless (tw_page w) g"
    unfolding harmless_def Let_def has_class_def
  proof (intro ballI conjI impI)
    fix n
    assume "''tree-selected'' \<in> set (ti_classes (g (nid n) (info n)))"
    then have "m (nid n) (''tree-selected'' \<in> set (ti_classes (info n)))" using g(1) by (simp add: marks_def)
    with g(2) have "''tree-selected'' \<in> set (ti_classes (info n)) \<or> nid n = i" unfolding el(2) by metis
    then show "''tree-selected'' \<in> set (ti_classes (info n)) \<or> nid n \<in> set (rendered (tw_page w))"
      using assms(2) by (auto simp: clicked_def)
  qed (use g(1) in \<open>auto simp: marks_def\<close>)
  then have "page_ok (tw_id w) (tw_next w) (map_info g (tw_page w))"
    using assms(1) by (simp add: tree_ok_def page_ok_map_info)
  moreover have "\<not> tw_multiSelect w \<Longrightarrow> length (selected (tree_selectItem (nid el) w)) \<le> 1"
    using toggled_selection(1) [OF d el(1)] toggled_single [OF d el(1)] assms(1) by (auto simp: tree_ok_def)
  moreover have "tw_multiSelect (tree_selectItem i w) = tw_multiSelect w" "tw_id (tree_selectItem i w) = tw_id w"
    "tw_next (tree_selectItem i w) = tw_next w" "tw_page (tree_selectItem i w) = map_info g (tw_page w)"
    using g(3) el(2) by (simp_all add: selected_by_def)
  ultimately show ?thesis using el(2) by (auto simp: tree_ok_def)
qed

lemma swap_ok: "tree_ok w \<Longrightarrow> (c, d) \<in> {(''icon-folder-close'', ''icon-folder-open''), (''icon-folder-open'', ''icon-folder-close'')} \<Longrightarrow>
  tree_ok (upd_page (swap_icon c d p) w)"
  unfolding swap_icon_def [abs_def] by (rule tree_ok_on_ids) auto

lemma empty_ok:
  assumes "tree_ok w" and "p \<in> set (nodes (tw_page w))" and "find_class ''tree-folder-content'' p = c # cs"
  shows "tree_ok (upd_page (at_node (nid c) empty_node) w)"
proof -
  have ok: "page_ok (tw_id w) (tw_next w) (tw_page w)" using assms(1) by (simp add: tree_ok_def)
  obtain e ks where E: "node_at (tw_id w) (tw_page w) = Some (DNode (tw_id w) e ks)"
    "''tree-folder-content'' \<notin> set (ti_classes e)" "''tree-folder-content'' \<notin> set (ti_classes (info (tw_page w)))"
    using shape_element [of "tw_id w" "tw_page w"] ok unfolding page_ok_def by blast
  have "has_class ''tree-folder-content'' n" if "n \<in> set (nodes (tw_page w))" "nid n = nid c" for n
    using first_id_class [OF _ assms(2) that(1)] ok that(2) assms(3) by (simp add: page_ok_def first_id_def)
  from this [of "tw_page w"] this [of "DNode (tw_id w) e ks"] have c: "nid c \<noteq> tw_id w" "nid c \<noteq> nid (tw_page w)"
    using node_at_Some [OF E(1)] E(2,3) by (auto simp: has_class_def)
  then have "tree_ok ((upd_page (at_node (nid c) empty_node) w)\<lparr>tw_next := tw_next w\<rparr>)"
    using page_ok_empty [OF ok] by (intro tree_ok_change [OF assms(1)]) auto
  then show ?thesis by (simp add: upd_page_def)
qed

lemma selectFolder_ok: "tree_ok w \<Longrightarrow> tree_ok (tree_selectFolder i w)"
proof -
  assume w: "tree_ok w"
  consider "tree_selectFolder i w = w"
    | el p where "node_at i (tw_page w) = Some el" "parent_at i (tw_page w) = Some p"
    by (cases "node_at i (tw_page w)"; cases "parent_at i (tw_page w)") (auto simp: tree_selectFolder_def)
  then show ?thesis
  proof cases
    case 2
    note p = parent_at_Some [OF 2(2)]
    have e: "tree_ok (case find_class ''tree-folder-content'' p of [] \<Rightarrow> w | c # _ \<Rightarrow> upd_page (at_node (nid c) empty_node) w)"
      using w empty_ok [OF w p] by (auto split: list.splits)
    from 2 show ?thesis
      by (auto simp: tree_selectFolder_def Let_def intro!: tree_ok_fields(2) swap_ok populate_ok w e tree_ok_show [OF w p])
  qed (use w in simp)
qed

lemma tree_handle_ok: "tree_ok w \<Longrightarrow> tree_ok (tree_handle source w x)"
  by (cases x) (simp_all add: selectItem_ok selectFolder_ok answer_ok tree_ok_fields(1) Let_def)

interpretation tree_runs: step_system "tree_handle source" tree_ok for source
  by unfold_locales (rule tree_handle_ok)

subsection \<open>Property\<close>

text \<open>C18: single selection is single: on a page with the widget's markup, whatever items and folders are clicked and in whatever
  order the data source answers, a tree without multiple selection never has more than one selected item, the identities
  of the page stay distinct and the two templates stay hidden and unselected.\<close>

theorem tree_single_selection:
  assumes "tree_ok w" and "\<not> tw_multiSelect (foldl (tree_handle source) w xs)"
  shows "length (selected (foldl (tree_handle source) w xs)) \<le> 1 \<and>
    page_ok (tw_id (foldl (tree_handle source) w xs)) (tw_next (foldl (tree_handle source) w xs)) (tw_page (foldl (tree_handle source) w xs))"
  using tree_runs.run_ok [OF assms(1), of source xs] assms(2) by (simp add: tree_ok_def)

definition ex_node :: "nat \<Rightarrow> string \<Rightarrow> string list \<Rightarrow> bool \<Rightarrow> dnode list \<Rightarrow> dnode" where
  "ex_node i tag cs sh ks = DNode i \<lparr>ti_tag = tag, ti_classes = cs, ti_html = [], ti_data = [], ti_shown = sh\<rparr> ks"

definition ex_page :: dnode where
  "ex_page = ex_node 0 ''div'' [] True [ex_node 1 ''div'' [''tree''] True
     [ex_node 2 ''div'' [''tree-folder''] False
        [ex_node 3 ''div'' [''tree-folder-header''] True [ex_node 4 ''i'' [''icon-folder-close''] True [], ex_node 5 ''div'' [''tree-folder-name''] True []],
         ex_node 6 ''div'' [''tree-folder-content''] True [], ex_node 7 ''div'' [''tree-loader''] False []],
      ex_node 8 ''div'' [''tree-item''] False [ex_node 9 ''i'' [''tree-dot''] True [], ex_node 10 ''div'' [''tree-item-name''] True []]]]"

definition ex_rows :: "jval obj list" where
  "ex_rows = [[(''type'', Str ''folder''), (''name'', Str ''F'')], [(''type'', Str ''item''), (''name'', Str ''A'')],
     [(''type'', Str ''item''), (''name'', Str ''B'')]]"

definition ex_tree :: tree where
  "ex_tree = new_tree ex_page 1 11 \<lparr>top_multiSelect = None, top_cacheItems = None, top_loadingHTML = None\<rparr>"

lemma ex_tree_ok: "tree_ok ex_tree"
proof -
  have "page_ok 1 11 ex_page"
    unfolding page_ok_def
  proof (intro conjI)
    show "shape 1 ex_page"
      unfolding shape_def ex_page_def ex_node_def
      by (rule exI, rule exI, rule exI [of _ "[]"]) (auto simp: template_def has_class_def unsel_def)
  qed (simp_all add: ex_page_def ex_node_def ids_def)
  then show ?thesis
    unfolding ex_tree_def new_tree_def tree_render_def
    by (intro populate_ok) (simp add: tree_ok_def selected_def el_find_def element_def node_at_def find_class_def below_def
        ex_page_def ex_node_def has_class_def)
qed

theorem tree_single_selection_witness:
  "selected (foldl (tree_handle (\<lambda>_. ex_rows)) ex_tree [Deliver 0, ItemClick 17, ItemClick 20]) = [20] \<and>
   length (selected (foldl (tree_handle (\<lambda>_. ex_rows)) ex_tree [Deliver 0, ItemClick 17, FolderClick 12, Deliver 0, ItemClick 20])) \<le> 1"
proof
  show "selected (foldl (tree_handle (\<lambda>_. ex_rows)) ex_tree [Deliver 0, ItemClick 17, ItemClick 20]) = [20]" by code_simp
  have "\<not> tw_multiSelect (foldl (tree_handle (\<lambda>_. ex_rows)) ex_tree [Deliver 0, ItemClick 17, FolderClick 12, Deliver 0, ItemClick 20])"
    by code_simp
  from tree_single_selection [OF ex_tree_ok this]
  show "length (selected (foldl (tree_handle (\<lambda>_. ex_rows)) ex_tree [Deliver 0, ItemClick 17, FolderClick 12, Deliver 0, ItemClick 20])) \<le> 1"
    by (rule conjunct1)
qed


end
