(* ===== verification/Marathon.thy ===== *)
theory Marathon
  imports Jq_Dom Json_Parse Uri_Component
begin

text \<open>
  \<open>marathon/js/marathon.js\<close>: the page of the Marathon console. Modelled are the live filter of the list of applications with
  its delayed reaction to keys, the lightbox (model and view), the application model with the requests it sends, its view,
  and the form for a new application. Of Backbone the script uses that \<open>set\<close> announces a change exactly when the value
  changes and that listeners run in the order they were bound; the answers of the dialogs \<open>confirm\<close> and \<open>prompt\<close> are inputs.
\<close>

subsection \<open>The live filter\<close>

record list_item =
  it_title :: "string option"   \<comment> \<open>the text of its first \<open>h1\<close>\<close>
  it_class :: string            \<comment> \<open>its second class, the identity of the application\<close>
  it_display :: string

record live_filter =
  lf_items :: "list_item list"
  lf_oldDisplay :: string
  lf_input :: string
  lf_timers :: "nat list"
  lf_next :: nat
  lf_keyTimeout :: "nat option"
  lf_calls :: "(nat \<times> string list) list"

definition new_filter :: "list_item list \<Rightarrow> live_filter" where
  "new_filter items =
     \<lparr>lf_items = items, lf_oldDisplay = (case items of [] \<Rightarrow> ''block'' | x # _ \<Rightarrow> it_display x), lf_input = [], lf_timers = [],
      lf_next = 0, lf_keyTimeout = None, lf_calls = [(length items, [])]\<rparr>"

definition title_matches :: "string \<Rightarrow> string \<Rightarrow> bool" where
  "title_matches filt t \<longleftrightarrow> index_of filt (to_lower t) \<noteq> None"

definition show_item :: "string \<Rightarrow> list_item \<Rightarrow> list_item" where
  "show_item old x = (if it_display x = ''none'' then x\<lparr>it_display := old\<rparr> else x)"

definition hide_item :: "list_item \<Rightarrow> list_item" where
  "hide_item x = (if it_display x \<noteq> ''none'' then x\<lparr>it_display := ''none''\<rparr> else x)"

text \<open>The loop of the \<open>change\<close> handler; an item without a title stops it with an exception.\<close>

fun filter_items :: "string \<Rightarrow> string \<Rightarrow> list_item list \<Rightarrow> list_item list \<times> (js_error + string list)" where
  "filter_items filt old [] = ([], Inr [])"
| "filter_items filt old (x # xs) =
     (case it_title x of
        None \<Rightarrow> (x # xs, Inl (TypeError ''textContent''))
      | Some t \<Rightarrow>
          (case filter_items filt old xs of
             (ys, r) \<Rightarrow>
               if title_matches filt t then (show_item old x # ys, map_sum id ((#) (it_class x)) r)
               else (hide_item x # ys, r)))"

definition filter_change :: "live_filter \<Rightarrow> live_filter \<times> (js_error + unit)" where
  "filter_change w =
     (case filter_items (to_lower (lf_input w)) (lf_oldDisplay w) (lf_items w) of
        (xs, Inl e) \<Rightarrow> (w\<lparr>lf_items := xs\<rparr>, Inl e)
      | (xs, Inr shown) \<Rightarrow> (w\<lparr>lf_items := xs, lf_calls := lf_calls w @ [(length shown, shown)]\<rparr>, Inr ()))"

definition filter_keydown :: "live_filter \<Rightarrow> live_filter" where
  "filter_keydown w =
     (let h = lf_next w;
          timers = (case lf_keyTimeout w of None \<Rightarrow> lf_timers w | Some k \<Rightarrow> filter (\<lambda>t. t \<noteq> k) (lf_timers w))
      in w\<lparr>lf_timers := timers @ [h], lf_next := Suc h, lf_keyTimeout := Some h\<rparr>)"

text \<open>What happens to the input: a key changes its text, after which the browser runs the handler; a timer fires.\<close>

datatype filter_event = TypeText string | TimerFires nat | ChangeEvent

fun filter_handle :: "live_filter \<Rightarrow> filter_event \<Rightarrow> live_filter" where
  "filter_handle w (TypeText t) = (filter_keydown w)\<lparr>lf_input := t\<rparr>"
| "filter_handle w (TimerFires h) =
     (if h \<in> set (lf_timers w) then fst (filter_change (w\<lparr>lf_timers := filter (\<lambda>t. t \<noteq> h) (lf_timers w)\<rparr>)) else w)"
| "filter_handle w ChangeEvent = fst (filter_change w)"

subsection \<open>The lightbox\<close>

record lightbox =
  lb_open :: bool
  lb_lock :: bool
  lb_color :: string
  lb_content :: "string option"
  lb_shown :: bool             \<comment> \<open>the element, kept by \<open>toggle\<close>\<close>
  lb_html :: string            \<comment> \<open>what \<open>.lb-content\<close> holds\<close>
  lb_css :: "string option"
  lb_closes :: nat             \<comment> \<open>how often the model announced \<open>close\<close>\<close>

definition lb_toggle :: "lightbox \<Rightarrow> lightbox" where
  "lb_toggle w = w\<lparr>lb_shown := lb_open w\<rparr>"

definition lb_set_open :: "bool \<Rightarrow> lightbox \<Rightarrow> lightbox" where
  "lb_set_open b w = (if lb_open w = b then w else lb_toggle (w\<lparr>lb_open := b\<rparr>))"

definition lb_updateContent :: "lightbox \<Rightarrow> lightbox" where
  "lb_updateContent w = w\<lparr>lb_html := (case lb_content w of None \<Rightarrow> [] | Some c \<Rightarrow> c)\<rparr>"

definition lb_setContent :: "string \<Rightarrow> lightbox \<Rightarrow> lightbox" where
  "lb_setContent c w = (if lb_content w = Some c then w else lb_updateContent (w\<lparr>lb_content := Some c\<rparr>))"

definition lb_setColor :: "string \<Rightarrow> lightbox \<Rightarrow> lightbox" where
  "lb_setColor c w = (if lb_color w = c then w else w\<lparr>lb_color := c, lb_css := Some c\<rparr>)"

definition lb_close :: "lightbox \<Rightarrow> lightbox" where
  "lb_close w = lb_set_open False (w\<lparr>lb_closes := Suc (lb_closes w)\<rparr>)"

definition lb_dismiss :: "lightbox \<Rightarrow> lightbox" where
  "lb_dismiss w = (if lb_lock w then w else lb_close w)"

definition new_lightbox :: "string option \<Rightarrow> lightbox" where
  "new_lightbox content =
     (let w = lb_toggle \<lparr>lb_open = False, lb_lock = False, lb_color = ''rgba(0,0,0,0.9)'', lb_content = None, lb_shown = True,
                         lb_html = [], lb_css = None, lb_closes = 0\<rparr>
      in case content of None \<Rightarrow> w | Some c \<Rightarrow> if c = [] then w else lb_setContent c w)"

text \<open>Where a click falls: on a closing element of the content, elsewhere in the content, or on the backdrop. The handlers run from the inside out
  until one stops the propagation.\<close>

datatype lb_place = OnCloser | InContent | OnBackdrop

fun lb_click :: "lb_place \<Rightarrow> lightbox \<Rightarrow> lightbox" where
  "lb_click OnCloser w = lb_close w"
| "lb_click InContent w = w"
| "lb_click OnBackdrop w = lb_dismiss w"

datatype lb_call = LbOpen | LbClose | LbDismiss | LbLock bool | LbContent string | LbColor string | LbClick lb_place

fun lb_step :: "lightbox \<Rightarrow> lb_call \<Rightarrow> lightbox" where
  "lb_step w LbOpen = lb_set_open True w"
| "lb_step w LbClose = lb_close w"
| "lb_step w LbDismiss = lb_dismiss w"
| "lb_step w (LbLock b) = w\<lparr>lb_lock := b\<rparr>"
| "lb_step w (LbContent c) = lb_setContent c w"
| "lb_step w (LbColor c) = lb_setColor c w"
| "lb_step w (LbClick p) = lb_click p w"

subsection \<open>The application model and its requests\<close>

type_synonym attrs = "(units \<times> json) list"

definition item_defaults :: "nat \<Rightarrow> attrs" where
  "item_defaults n =
     [(ascii ''id'', JStr (ascii (''app_'' @ nat_str n))), (ascii ''cmd'', JStr (ascii ''sleep 10'')),
      (ascii ''mem'', JNum (XDec (Dec 1 1))), (ascii ''cpus'', JNum (XDec (Dec 1 (- 1)))),
      (ascii ''instances'', JNum (XDec (Dec 1 0))), (ascii ''uris'', JArr [])]"

definition new_item :: "nat \<Rightarrow> attrs \<Rightarrow> attrs" where
  "new_item n a = fold (\<lambda>(k, v) acc. AList.update k v acc) a (item_defaults n)"

text \<open>A request: its address, the method behind the emulated \<open>POST\<close>, and its body.\<close>

record request =
  sq_url :: string
  sq_override :: "string option"
  sq_body :: "units option"

definition json_body :: "attrs \<Rightarrow> units option" where
  "json_body a = (case stringify (jdepth (JObj a)) (JObj a) NoReplacer NoSpace of Inr (Some t) \<Rightarrow> t | _ \<Rightarrow> None)"

definition item_sync :: "string \<Rightarrow> attrs \<Rightarrow> request" where
  "item_sync m a =
     (if m = ''delete'' then \<lparr>sq_url = ''/v1/apps/stop.do'', sq_override = Some ''DELETE'', sq_body = json_body a\<rparr>
      else if m = ''scale'' then \<lparr>sq_url = ''/v1/apps/scale.do'', sq_override = None, sq_body = json_body a\<rparr>
      else \<lparr>sq_url = ''/v1/apps/start.do'', sq_override = (if m = ''update'' then Some ''PUT'' else None), sq_body = json_body a\<rparr>)"

text \<open>\<open>save\<close> creates a model without an identity and updates one that has one; the defaults always give one.\<close>

definition save_method :: "attrs \<Rightarrow> string" where
  "save_method a =
     (case map_of a (ascii ''id'') of
        None \<Rightarrow> ''create'' | Some v \<Rightarrow> if v = JNull \<or> v = JUndef then ''create'' else ''update'')"

subsection \<open>The views\<close>

datatype view_error = MissingField units | UrisNotArray

text \<open>The interpolated fields of the template; a field that the model lacks is a reference to an undeclared name.\<close>

definition template_field :: "(json \<Rightarrow> units) \<Rightarrow> attrs \<Rightarrow> string \<Rightarrow> view_error + units" where
  "template_field spell a k =
     (case map_of a (ascii k) of
        None \<Rightarrow> Inl (MissingField (ascii k))
      | Some v \<Rightarrow> Inr (if v = JNull \<or> v = JUndef then [] else value_string spell v))"

fun template_fields :: "(json \<Rightarrow> units) \<Rightarrow> attrs \<Rightarrow> string list \<Rightarrow> view_error + units list" where
  "template_fields spell a [] = Inr []"
| "template_fields spell a (k # ks) =
     (case template_field spell a k of
        Inl e \<Rightarrow> Inl e
      | Inr t \<Rightarrow> map_sum id ((#) t) (template_fields spell a ks))"

text \<open>\<open>data()\<close> and the template: the addresses are joined by \<open><li>\<close> and counted.\<close>

definition view_data :: "(json \<Rightarrow> units) \<Rightarrow> attrs \<Rightarrow> view_error + attrs" where
  "view_data spell a =
     (case map_of a (ascii ''uris'') of
        Some (JArr us) \<Rightarrow>
          Inr (AList.update (ascii ''uriCount'') (JNum (XDec (canon (int (length us)) 0)))
            (AList.update (ascii ''uris'')
              (JStr (js_join (ascii ''<li>'') (map (\<lambda>v. if v = JNull \<or> v = JUndef \<or> v = JHole then [] else value_string spell v) us))) a))
      | _ \<Rightarrow> Inl UrisNotArray)"

definition app_render :: "(json \<Rightarrow> units) \<Rightarrow> attrs \<Rightarrow> view_error + units list" where
  "app_render spell a =
     (case view_data spell a of
        Inl e \<Rightarrow> Inl e
      | Inr d \<Rightarrow> template_fields spell d [''id'', ''cmd'', ''uriCount'', ''uris'', ''mem'', ''cpus'', ''instances''])"

record app_model =
  am_cid :: nat
  am_attrs :: attrs

record app_view =
  vw_cid :: nat
  vw_fields :: "units list"

record console =
  cs_models :: "app_model list"
  cs_views :: "app_view list"
  cs_requests :: "request list"
  cs_next :: nat
  cs_lightbox :: lightbox

definition new_console :: console where
  "new_console = \<lparr>cs_models = [], cs_views = [], cs_requests = [], cs_next = 0, cs_lightbox = new_lightbox None\<rparr>"

definition find_model :: "nat \<Rightarrow> console \<Rightarrow> app_model option" where
  "find_model c w = List.find (\<lambda>m. am_cid m = c) (cs_models w)"

definition send :: "request \<Rightarrow> console \<Rightarrow> console" where
  "send r w = w\<lparr>cs_requests := cs_requests w @ [r]\<rparr>"

text \<open>\<open>HomeView.add\<close>: a new view in front of the add button; an exception of the template leaves no view.\<close>

definition home_add :: "(json \<Rightarrow> units) \<Rightarrow> app_model \<Rightarrow> console \<Rightarrow> console \<times> (view_error + unit)" where
  "home_add spell m w =
     (case app_render spell (am_attrs m) of
        Inl e \<Rightarrow> (w, Inl e)
      | Inr t \<Rightarrow> (w\<lparr>cs_views := cs_views w @ [\<lparr>vw_cid = am_cid m, vw_fields = t\<rparr>]\<rparr>, Inr ()))"

text \<open>\<open>model.set('instances', n)\<close>: a real change renders the view of the model again.\<close>

definition set_instances :: "(json \<Rightarrow> units) \<Rightarrow> app_model \<Rightarrow> json \<Rightarrow> console \<Rightarrow> console \<times> (view_error + app_model)" where
  "set_instances spell m n w =
     (if map_of (am_attrs m) (ascii ''instances'') = Some n then (w, Inr m)
      else
        (let m' = m\<lparr>am_attrs := AList.update (ascii ''instances'') n (am_attrs m)\<rparr>;
             w = w\<lparr>cs_models := map (\<lambda>x. if am_cid x = am_cid m then m' else x) (cs_models w)\<rparr>
         in case app_render spell (am_attrs m') of
              Inl e \<Rightarrow> (w, Inl e)
            | Inr t \<Rightarrow>
                (w\<lparr>cs_views := map (\<lambda>v. if vw_cid v = am_cid m then v\<lparr>vw_fields := t\<rparr> else v) (cs_views w)\<rparr>, Inr m')))"

definition item_scale :: "(json \<Rightarrow> units) \<Rightarrow> app_model \<Rightarrow> json \<Rightarrow> console \<Rightarrow> console" where
  "item_scale spell m n w =
     (case set_instances spell m n w of
        (w, Inl e) \<Rightarrow> w
      | (w, Inr m') \<Rightarrow> send (item_sync ''scale'' (am_attrs m')) w)"

text \<open>The three actions of a list entry; the last argument is the answer of the dialog.\<close>

definition app_suspend :: "(json \<Rightarrow> units) \<Rightarrow> nat \<Rightarrow> bool \<Rightarrow> console \<Rightarrow> console" where
  "app_suspend spell c confirmed w =
     (case find_model c w of
        None \<Rightarrow> w
      | Some m \<Rightarrow> if confirmed then item_scale spell m (JNum (XDec (Dec 0 0))) w else w)"

definition app_scale :: "(json \<Rightarrow> units) \<Rightarrow> nat \<Rightarrow> units option \<Rightarrow> console \<Rightarrow> console" where
  "app_scale spell c answer w =
     (case (find_model c w, answer) of
        (Some m, Some t) \<Rightarrow> if t = [] then w else item_scale spell m (JStr t) w
      | _ \<Rightarrow> w)"

definition app_destroy :: "nat \<Rightarrow> bool \<Rightarrow> console \<Rightarrow> console" where
  "app_destroy c confirmed w =
     (case find_model c w of
        None \<Rightarrow> w
      | Some m \<Rightarrow>
          if \<not> confirmed then w
          else
            (let w = (if save_method (am_attrs m) = ''create'' then w else send (item_sync ''delete'' (am_attrs m)) w)
             in w\<lparr>cs_models := filter (\<lambda>x. am_cid x \<noteq> c) (cs_models w), cs_views := filter (\<lambda>v. vw_cid v \<noteq> c) (cs_views w)\<rparr>))"

subsection \<open>The form for a new application\<close>

definition parse_uris :: "units \<Rightarrow> units list" where
  "parse_uris val = filter (\<lambda>s. s \<noteq> []) (map (filter (\<lambda>u. u \<noteq> 32)) (js_split 44 val))"

definition form_data :: "(units \<times> units) list \<Rightarrow> attrs" where
  "form_data inputs =
     fold (\<lambda>(name, val) d. AList.update name (if name = ascii ''uris'' then JArr (map JStr (parse_uris val)) else JStr val) d) inputs []"

text \<open>\<open>collection.create(data)\<close>: a model whose identity is taken is not added, but it is saved all the same.\<close>

definition create_app :: "(json \<Rightarrow> units) \<Rightarrow> attrs \<Rightarrow> console \<Rightarrow> console \<times> (view_error + unit)" where
  "create_app spell data w =
     (let m = \<lparr>am_cid = cs_next w, am_attrs = new_item (cs_next w) data\<rparr>;
          w = w\<lparr>cs_next := Suc (cs_next w)\<rparr>;
          taken = list_ex (\<lambda>x. map_of (am_attrs x) (ascii ''id'') = map_of (am_attrs m) (ascii ''id'')) (cs_models w);
          (w, r) = (if taken then (w, Inr ()) else home_add spell m (w\<lparr>cs_models := cs_models w @ [m]\<rparr>))
      in case r of
           Inl e \<Rightarrow> (w, Inl e)
         | Inr _ \<Rightarrow> (send (item_sync (save_method (am_attrs m)) (am_attrs m)) w, Inr ()))"

definition form_save :: "(json \<Rightarrow> units) \<Rightarrow> (units \<times> units) list \<Rightarrow> console \<Rightarrow> console" where
  "form_save spell inputs w =
     (case create_app spell (form_data inputs) w of
        (w, Inl e) \<Rightarrow> w
      | (w, Inr _) \<Rightarrow> w\<lparr>cs_lightbox := lb_close (cs_lightbox w)\<rparr>)"

definition home_addNew :: "string \<Rightarrow> console \<Rightarrow> console" where
  "home_addNew form w = w\<lparr>cs_lightbox := lb_set_open True (lb_setContent form (cs_lightbox w))\<rparr>"

datatype console_event =
    Suspend nat bool
  | Scale nat "units option"
  | Destroy nat bool
  | AddNew string
  | SaveForm "(units \<times> units) list"
  | BoxCall lb_call

fun console_step :: "(json \<Rightarrow> units) \<Rightarrow> console \<Rightarrow> console_event \<Rightarrow> console" where
  "console_step spell w (Suspend c b) = app_suspend spell c b w"
| "console_step spell w (Scale c t) = app_scale spell c t w"
| "console_step spell w (Destroy c b) = app_destroy c b w"
| "console_step spell w (AddNew form) = home_addNew form w"
| "console_step spell w (SaveForm inputs) = form_save spell inputs w"
| "console_step spell w (BoxCall x) = w\<lparr>cs_lightbox := lb_step (cs_lightbox w) x\<rparr>"

text \<open>The answer to the first \<open>fetch\<close>: every application gets a view, until one cannot be rendered.\<close>

fun home_render :: "(json \<Rightarrow> units) \<Rightarrow> app_model list \<Rightarrow> console \<Rightarrow> console \<times> (view_error + unit)" where
  "home_render spell [] w = (w, Inr ())"
| "home_render spell (m # ms) w =
     (case home_add spell m w of (w, Inl e) \<Rightarrow> (w, Inl e) | (w, Inr _) \<Rightarrow> home_render spell ms w)"

definition fetch_done :: "(json \<Rightarrow> units) \<Rightarrow> attrs list \<Rightarrow> console \<Rightarrow> console \<times> (view_error + unit)" where
  "fetch_done spell rows w =
     (let n = cs_next w;
          ms = map (\<lambda>(i, a). \<lparr>am_cid = n + i, am_attrs = new_item (n + i) a\<rparr>) (zip [0..<length rows] rows)
      in home_render spell ms (w\<lparr>cs_models := ms, cs_next := n + length rows\<rparr>))"

end
