(* ===== verification/Marathon_Properties.thy ===== *)
theory Marathon_Properties
  imports Marathon
begin

text \<open>
  What the Marathon page promises: the live filter shows exactly the matching applications once typing pauses, the lightbox
  follows its model, the list shows exactly the applications of the collection with their current number of instances, the
  request that scales an application carries its attributes, and the form reads a list of addresses back.
\<close>

subsection \<open>The live filter\<close>

definition titled :: "list_item list \<Rightarrow> bool" where
  "titled xs = list_all (\<lambda>x. it_title x \<noteq> None) xs"

definition hits :: "string \<Rightarrow> list_item list \<Rightarrow> list_item list" where
  "hits t xs = filter (\<lambda>x. title_matches (to_lower t) (the (it_title x))) xs"

lemma filter_items_eq:
  assumes "titled xs"
  shows "filter_items (to_lower t) old xs =
    (map (\<lambda>x. if title_matches (to_lower t) (the (it_title x)) then show_item old x else hide_item x) xs, Inr (map it_class (hits t xs)))"
  using assms by (induction xs) (auto simp: titled_def hits_def)

lemma shown_items:
  assumes "old \<noteq> ''none''"
  shows "map it_class (filter (\<lambda>x. it_display x \<noteq> ''none'')
      (map (\<lambda>x. if title_matches (to_lower t) (the (it_title x)) then show_item old x else hide_item x) xs)) = map it_class (hits t xs)"
  using assms by (induction xs) (auto simp: hits_def show_item_def hide_item_def)

lemma typing:
  assumes "lf_timers w = [] \<or> lf_timers w = [h] \<and> lf_keyTimeout w = Some h" and "ts \<noteq> []"
  shows "\<exists>k n. foldl filter_handle w (map TypeText ts) =
    w\<lparr>lf_timers := [k], lf_next := n, lf_keyTimeout := Some k, lf_input := last ts\<rparr>"
  using assms
proof (induction ts arbitrary: w h)
  case (Cons t ts)
  let ?w = "filter_handle w (TypeText t)"
  have w: "?w = w\<lparr>lf_timers := [lf_next w], lf_next := Suc (lf_next w), lf_keyTimeout := Some (lf_next w), lf_input := t\<rparr>"
    using Cons.prems(1) by (auto simp: filter_keydown_def Let_def split: option.splits)
  show ?case
  proof (cases "ts = []")
    case True
    with w show ?thesis by - (rule exI [of _ "lf_next w"], rule exI [of _ "Suc (lf_next w)"], simp)
  next
    case False
    have "lf_timers ?w = [] \<or> lf_timers ?w = [lf_next w] \<and> lf_keyTimeout ?w = Some (lf_next w)" unfolding w by simp
    from Cons.IH [OF this False] obtain k n where
      "foldl filter_handle ?w (map TypeText ts) = ?w\<lparr>lf_timers := [k], lf_next := n, lf_keyTimeout := Some k, lf_input := last ts\<rparr>"
      by blast
    with False show ?thesis by - (rule exI [of _ k], rule exI [of _ n], simp add: w del: filter_handle.simps)
  qed
qed simp

text \<open>C22: the live filter: after any burst of typing exactly one timer is pending, and when it fires the list shows exactly the
  applications whose title contains the last text typed, compared without case, in their order; the callback is told their
  number and the applications.\<close>

theorem live_filter_shows_hits:
  assumes "lf_timers w = []" and "titled (lf_items w)" and "lf_oldDisplay w \<noteq> ''none''" and "ts \<noteq> []"
  shows "\<exists>k. lf_timers (foldl filter_handle w (map TypeText ts)) = [k] \<and>
    (let w' = filter_handle (foldl filter_handle w (map TypeText ts)) (TimerFires k); hs = map it_class (hits (last ts) (lf_items w))
     in map it_class (filter (\<lambda>x. it_display x \<noteq> ''none'') (lf_items w')) = hs \<and>
        lf_calls w' = lf_calls w @ [(length hs, hs)] \<and> lf_timers w' = [])"
proof -
  obtain k n where t: "foldl filter_handle w (map TypeText ts) =
      w\<lparr>lf_timers := [k], lf_next := n, lf_keyTimeout := Some k, lf_input := last ts\<rparr>"
    using typing [OF disjI1 [OF assms(1)] assms(4)] by blast
  show ?thesis
    unfolding t using filter_items_eq [OF assms(2), of "last ts" "lf_oldDisplay w"] shown_items [OF assms(3)]
    by (intro exI [of _ k]) (simp add: filter_change_def Let_def)
qed

definition ex_items :: "list_item list" where
  "ex_items = [\<lparr>it_title = Some ''Monorail'', it_class = ''m'', it_display = []\<rparr>, \<lparr>it_title = Some ''Resque'', it_class = ''r'', it_display = []\<rparr>]"

theorem live_filter_shows_hits_witness:
  "\<exists>k. lf_timers (foldl filter_handle (new_filter ex_items) (map TypeText [''R'', ''RE''])) = [k] \<and>
    lf_calls (filter_handle (foldl filter_handle (new_filter ex_items) (map TypeText [''R'', ''RE''])) (TimerFires k)) = [(2, []), (1, [''r''])]"
proof -
  have "hits (last [''R'', ''RE'']) ex_items = [ex_items ! 1]" by code_simp
  then show ?thesis
    using live_filter_shows_hits [of "new_filter ex_items" "[''R'', ''RE'']"]
    by (auto simp: new_filter_def ex_items_def titled_def Let_def numeral_2_eq_2 simp del: filter_handle.simps)
qed

subsection \<open>The lightbox\<close>

definition lb_sound :: "lightbox \<Rightarrow> bool" where
  "lb_sound w \<longleftrightarrow> lb_shown w = lb_open w \<and> lb_html w = (case lb_content w of None \<Rightarrow> [] | Some c \<Rightarrow> c)"

lemma lb_ops_sound [inv_intros]:
  "lb_sound w \<Longrightarrow> lb_sound (lb_set_open b w)" "lb_sound w \<Longrightarrow> lb_sound (lb_setContent c w)"
  "lb_sound w \<Longrightarrow> lb_sound (lb_setColor c w)" "lb_sound w \<Longrightarrow> lb_sound (lb_close w)" "lb_sound w \<Longrightarrow> lb_sound (lb_dismiss w)"
  "lb_sound w \<Longrightarrow> lb_sound (w\<lparr>lb_lock := b\<rparr>)"
  by (auto simp: lb_sound_def lb_set_open_def lb_toggle_def lb_setContent_def lb_updateContent_def lb_setColor_def lb_close_def lb_dismiss_def)

lemma lb_step_sound: "lb_sound w \<Longrightarrow> lb_sound (lb_step w x)"
proof (cases x)
  case (LbClick p)
  assume "lb_sound w"
  with LbClick show ?thesis by (cases p) (simp_all add: inv_intros)
qed (simp_all add: inv_intros)

interpretation lightbox_runs: step_system lb_step lb_sound
  by unfold_locales (rule lb_step_sound)

lemma new_lightbox_sound: "lb_sound (new_lightbox c)"
  by (auto simp: new_lightbox_def Let_def lb_sound_def lb_toggle_def lb_setContent_def lb_updateContent_def split: option.splits)

text \<open>The lightbox follows its model: through any calls and clicks, its element is visible exactly when the model is open and
  holds exactly the current content; while it is locked, no click outside a closing element changes anything.\<close>

lemma lightbox_follows_model:
  "lb_shown (foldl lb_step (new_lightbox c) xs) = lb_open (foldl lb_step (new_lightbox c) xs) \<and>
   lb_html (foldl lb_step (new_lightbox c) xs) = (case lb_content (foldl lb_step (new_lightbox c) xs) of None \<Rightarrow> [] | Some t \<Rightarrow> t) \<and>
   (lb_lock (foldl lb_step (new_lightbox c) xs) \<longrightarrow>
      foldl lb_step (new_lightbox c) (xs @ [LbClick OnBackdrop, LbClick InContent]) = foldl lb_step (new_lightbox c) xs)"
  using lightbox_runs.run_ok [OF new_lightbox_sound, of c xs] by (simp add: lb_sound_def lb_dismiss_def)

lemma lightbox_follows_model_witness:
  "lb_shown (foldl lb_step (new_lightbox None) [LbOpen, LbLock True, LbClick OnBackdrop, LbClick InContent])"
proof -
  have "lb_lock (foldl lb_step (new_lightbox None) [LbOpen, LbLock True])" "lb_open (foldl lb_step (new_lightbox None) [LbOpen, LbLock True])"
    by code_simp+
  with lightbox_follows_model [of None "[LbOpen, LbLock True]"] show ?thesis by simp
qed

subsection \<open>The list of applications\<close>

lemma map_of_fold_update:
  "map_of (fold (\<lambda>(k, v) acc. AList.update k v acc) a d) k = (case map_of (rev a) k of Some v \<Rightarrow> Some v | None \<Rightarrow> map_of d k)"
  by (induction a arbitrary: d) (auto simp: map_add_def split: option.splits)

lemma app_render_ok:
  "(\<exists>t. app_render spell a = Inr t) \<longleftrightarrow> (\<exists>us. map_of a (ascii ''uris'') = Some (JArr us)) \<and>
     (\<forall>k\<in>{''id'', ''cmd'', ''mem'', ''cpus'', ''instances''}. map_of a (ascii k) \<noteq> None)"
  by (auto simp: app_render_def view_data_def template_field_def split: option.splits json.splits)

lemma render_instances: "app_render spell a = Inr t \<Longrightarrow> \<exists>t'. app_render spell (AList.update (ascii ''instances'') n a) = Inr t'"
  using app_render_ok [of spell a] app_render_ok [of spell "AList.update (ascii ''instances'') n a"] by auto

lemma form_data_shape:
  "distinct (map fst (form_data inputs)) \<and> (\<forall>v. map_of (form_data inputs) (ascii ''uris'') = Some v \<longrightarrow> (\<exists>us. v = JArr us))"
  unfolding form_data_def
  by (rule fold_invariant [where Q = "\<lambda>_. True"]) (auto simp: distinct_update split: if_splits)

lemma form_item_renders: "\<exists>t. app_render spell (new_item n (form_data inputs)) = Inr t"
  unfolding app_render_ok
proof
  have eq: "map_of (new_item n (form_data inputs)) k = (case map_of (form_data inputs) k of Some v \<Rightarrow> Some v | None \<Rightarrow> map_of (item_defaults n) k)" for k
    by (simp add: new_item_def map_of_fold_update map_of_rev_distinct form_data_shape)
  show "\<exists>us. map_of (new_item n (form_data inputs)) (ascii ''uris'') = Some (JArr us)"
    using form_data_shape [of inputs] by (auto simp: eq item_defaults_def split: option.splits)
  show "\<forall>k\<in>{''id'', ''cmd'', ''mem'', ''cpus'', ''instances''}. map_of (new_item n (form_data inputs)) (ascii k) \<noteq> None"
    by (auto simp: eq item_defaults_def split: option.splits)
qed

definition shows_app :: "(json \<Rightarrow> units) \<Rightarrow> app_model \<Rightarrow> app_view \<Rightarrow> bool" where
  "shows_app spell m v \<longleftrightarrow> vw_cid v = am_cid m \<and> app_render spell (am_attrs m) = Inr (vw_fields v)"

definition console_ok :: "(json \<Rightarrow> units) \<Rightarrow> console \<Rightarrow> bool" where
  "console_ok spell w \<longleftrightarrow> list_all2 (shows_app spell) (cs_models w) (cs_views w) \<and> distinct (map am_cid (cs_models w)) \<and>
     (\<forall>m\<in>set (cs_models w). am_cid m < cs_next w)"

lemma console_ok_fields [simp]:
  "console_ok spell (send r w) = console_ok spell w" "console_ok spell (w\<lparr>cs_lightbox := b\<rparr>) = console_ok spell w"
  by (simp_all add: console_ok_def send_def)

lemma list_all2_filter_cid:
  "list_all2 (shows_app spell) ms vs \<Longrightarrow> list_all2 (shows_app spell) (filter (\<lambda>m. am_cid m \<noteq> c) ms) (filter (\<lambda>v. vw_cid v \<noteq> c) vs)"
  by (induction rule: list_all2_induct) (auto simp: shows_app_def)

lemma list_all2_update_cid:
  assumes "list_all2 (shows_app spell) ms vs" and "app_render spell (am_attrs m') = Inr t" and "am_cid m' = c"
  shows "list_all2 (shows_app spell) (map (\<lambda>x. if am_cid x = c then m' else x) ms)
    (map (\<lambda>v. if vw_cid v = c then v\<lparr>vw_fields := t\<rparr> else v) vs)"
  using assms(1) by (induction rule: list_all2_induct) (use assms(2,3) in \<open>auto simp: shows_app_def\<close>)

lemma find_model_Some: "find_model c w = Some m \<Longrightarrow> m \<in> set (cs_models w) \<and> am_cid m = c"
  by (auto simp: find_model_def find_Some_iff)

lemma model_renders: "console_ok spell w \<Longrightarrow> m \<in> set (cs_models w) \<Longrightarrow> \<exists>t. app_render spell (am_attrs m) = Inr t"
  by (auto simp: console_ok_def shows_app_def list_all2_conv_all_nth in_set_conv_nth)

lemma set_instances_ok:
  assumes "console_ok spell w" and "find_model c w = Some m"
  shows "\<exists>w' m'. set_instances spell m n w = (w', Inr m') \<and> console_ok spell w' \<and> cs_requests w' = cs_requests w \<and>
    am_attrs m' = (if map_of (am_attrs m) (ascii ''instances'') = Some n then am_attrs m else AList.update (ascii ''instances'') n (am_attrs m))"
proof (cases "map_of (am_attrs m) (ascii ''instances'') = Some n")
  case True
  with assms(1) show ?thesis by (simp add: set_instances_def)
next
  case False
  note m = find_model_Some [OF assms(2)]
  let ?m = "m\<lparr>am_attrs := AList.update (ascii ''instances'') n (am_attrs m)\<rparr>"
  obtain t where t: "app_render spell (am_attrs ?m) = Inr t"
    using model_renders [OF assms(1)] m render_instances by fastforce
  let ?ms = "map (\<lambda>x. if am_cid x = c then ?m else x) (cs_models w)"
  have "map am_cid ?ms = map am_cid (cs_models w)" using m by simp
  then have "distinct (map am_cid ?ms)" using assms(1) unfolding console_ok_def by metis
  moreover have "\<forall>x\<in>set ?ms. am_cid x < cs_next w" using assms(1) m by (auto simp: console_ok_def)
  ultimately have "console_ok spell (w\<lparr>cs_models := map (\<lambda>x. if am_cid x = c then ?m else x) (cs_models w),
      cs_views := map (\<lambda>v. if vw_cid v = c then v\<lparr>vw_fields := t\<rparr> else v) (cs_views w)\<rparr>)"
    using assms(1) m list_all2_update_cid [OF _ t, of "cs_models w" "cs_views w" c] by (simp add: console_ok_def)
  with False t m show ?thesis by (auto simp: set_instances_def Let_def simp del: ascii_simps)
qed

lemma item_scale_ok:
  assumes "console_ok spell w" and "find_model c w = Some m"
  shows "console_ok spell (item_scale spell m n w)"
  using set_instances_ok [OF assms, of n] by (auto simp: item_scale_def)

lemma create_ok: "console_ok spell w \<Longrightarrow> \<exists>w'. create_app spell (form_data inputs) w = (w', Inr ()) \<and> console_ok spell w'"
proof -
  assume w: "console_ok spell w"
  obtain t where t: "app_render spell (new_item (cs_next w) (form_data inputs)) = Inr t" using form_item_renders by blast
  have next_ok: "console_ok spell (w\<lparr>cs_next := Suc (cs_next w)\<rparr>)" using w by (auto simp: console_ok_def less_SucI)
  have "console_ok spell (w\<lparr>cs_next := Suc (cs_next w), cs_models := cs_models w @ [\<lparr>am_cid = cs_next w, am_attrs = new_item (cs_next w) (form_data inputs)\<rparr>],
      cs_views := cs_views w @ [\<lparr>vw_cid = cs_next w, vw_fields = t\<rparr>]\<rparr>)"
    using w t by (auto simp: console_ok_def shows_app_def less_SucI list_all2_appendI)
  with next_ok t show ?thesis by (auto simp: create_app_def home_add_def Let_def)
qed

lemma console_step_ok: "console_ok spell w \<Longrightarrow> console_ok spell (console_step spell w e)"
proof (cases e)
  case (SaveForm inputs)
  assume "console_ok spell w"
  with SaveForm create_ok [of spell w inputs] show ?thesis by (auto simp: form_save_def)
next
  case (Destroy c b)
  assume "console_ok spell w"
  with Destroy show ?thesis
    by (auto simp: app_destroy_def console_ok_def list_all2_filter_cid distinct_map_filter send_def Let_def split: option.splits)
qed (auto simp: app_suspend_def app_scale_def home_addNew_def item_scale_ok split: option.splits)

interpretation console_runs: step_system "console_step spell" "console_ok spell" for spell
  by unfold_locales (rule console_step_ok)

lemma home_render_ok:
  assumes "home_render spell ms w = (w', Inr ())"
  shows "\<exists>vs. list_all2 (shows_app spell) ms vs \<and> w' = w\<lparr>cs_views := cs_views w @ vs\<rparr>"
  using assms
proof (induction ms arbitrary: w)
  case (Cons m ms)
  then obtain t where t: "app_render spell (am_attrs m) = Inr t"
      "home_render spell ms (w\<lparr>cs_views := cs_views w @ [\<lparr>vw_cid = am_cid m, vw_fields = t\<rparr>]\<rparr>) = (w', Inr ())"
    by (auto simp: home_add_def split: sum.splits)
  from Cons.IH [OF t(2)] obtain vs where "list_all2 (shows_app spell) ms vs"
      "w' = w\<lparr>cs_views := cs_views w @ \<lparr>vw_cid = am_cid m, vw_fields = t\<rparr> # vs\<rparr>" by auto
  moreover have "shows_app spell m \<lparr>vw_cid = am_cid m, vw_fields = t\<rparr>" using t(1) by (simp add: shows_app_def)
  ultimately show ?case by (intro exI [of _ "\<lparr>vw_cid = am_cid m, vw_fields = t\<rparr> # vs"]) simp
qed simp

lemma fetch_ok:
  assumes "fetch_done spell rows new_console = (w, Inr ())"
  shows "console_ok spell w"
proof -
  let ?ms = "map (\<lambda>(i, a). \<lparr>am_cid = 0 + i, am_attrs = new_item (0 + i) a\<rparr>) (zip [0..<length rows] rows)"
  have cids: "map am_cid ?ms = [0..<length rows]" by (rule nth_equalityI) (auto simp: comp_def)
  then have d: "distinct (map am_cid ?ms)" by (metis distinct_upt)
  have b: "am_cid m < length rows" if "m \<in> set ?ms" for m
    using that by (auto dest: set_zip_leftD)
  from home_render_ok [OF assms [unfolded fetch_done_def Let_def]]
  obtain vs where "list_all2 (shows_app spell) ?ms vs" "w = new_console\<lparr>cs_models := ?ms, cs_next := length rows, cs_views := vs\<rparr>"
    by (auto simp: new_console_def)
  with d b show ?thesis unfolding console_ok_def by simp
qed

subsection \<open>Properties of the list\<close>


definition ex_rows :: "attrs list" where
  "ex_rows = [[(ascii ''id'', JStr (ascii ''sinatra''))], [(ascii ''id'', JStr (ascii ''resque''))]]"


lemma plain_update:
  assumes "plain (JObj a)" and "plain v" and "plain_text k" and "k \<noteq> ascii ''__proto__''"
  shows "plain (JObj (AList.update k v a))"
proof -
  have "set (AList.update k v a) \<subseteq> insert (k, v) (set a)" by (induction a) auto
  with assms show ?thesis by (auto simp: list_all_iff distinct_update)
qed

text \<open>C21: scaling: when the user answers the prompt with a number of instances (any non-empty text), exactly one request is sent, to
  the scaling service, and its body is the JSON text of the application's attributes with the new number of instances; the
  server that parses it gets exactly these.\<close>

theorem scale_request:
  assumes "console_ok spell w" and "find_model c w = Some m" and "plain (JObj (am_attrs m))" and "plain_text t" and "t \<noteq> []"
  shows "\<exists>b. cs_requests (app_scale spell c (Some t) w) =
      cs_requests w @ [\<lparr>sq_url = ''/v1/apps/scale.do'', sq_override = None, sq_body = Some b\<rparr>] \<and>
    (\<exists>a. json_parse b None = Inr (JObj a) \<and> map_of a = (map_of (am_attrs m))(ascii ''instances'' \<mapsto> JStr t))"
proof -
  obtain w' m' where s: "set_instances spell m (JStr t) w = (w', Inr m')" "cs_requests w' = cs_requests w"
      "am_attrs m' = (if map_of (am_attrs m) (ascii ''instances'') = Some (JStr t) then am_attrs m
        else AList.update (ascii ''instances'') (JStr t) (am_attrs m))"
    using set_instances_ok [OF assms(1,2)] by blast
  have p: "plain (JObj (am_attrs m'))"
    using plain_update [OF assms(3), of "JStr t" "ascii ''instances''"] assms(3,4) by (simp add: s(3) plain_text_def)
  have "json_body (am_attrs m') = Some (jtext [] [] (JObj (am_attrs m')))"
    using stringify_plain [OF p order_refl, of NoSpace] by (simp add: json_body_def indent_of_def)
  moreover have "map_of (am_attrs m') = (map_of (am_attrs m))(ascii ''instances'' \<mapsto> JStr t)"
    by (auto simp: s(3) update_conv' fun_eq_iff)
  ultimately show ?thesis
    using s assms(2,5) parse_printed [OF p, of "[]"] by (simp add: app_scale_def item_scale_def item_sync_def send_def)
qed

theorem scale_request_witness:
  "\<exists>b. cs_requests (app_scale (\<lambda>_. []) 0 (Some (ascii ''3'')) (fst (fetch_done (\<lambda>_. []) [[]] new_console))) =
      [\<lparr>sq_url = ''/v1/apps/scale.do'', sq_override = None, sq_body = Some b\<rparr>]"
proof -
  let ?w = "fst (fetch_done (\<lambda>_. []) [[]] new_console)" and ?m = "\<lparr>am_cid = 0, am_attrs = new_item 0 []\<rparr>"
  have "snd (fetch_done (\<lambda>_. []) [[]] new_console) = Inr ()" by code_simp
  then have "console_ok (\<lambda>_. []) ?w" using fetch_ok by (metis prod.collapse)
  moreover have "find_model 0 ?w = Some ?m" "cs_requests ?w = []" by code_simp+
  moreover have "plain (JObj (am_attrs ?m))"
    by (simp add: new_item_def item_defaults_def plain_text_def nat_str_def nat_digits.simps digit_char_def)
  ultimately show ?thesis
    using scale_request [of "\<lambda>_. []" ?w 0 ?m "ascii ''3''"] by (auto simp: plain_text_def)
qed

subsection \<open>The form\<close>

text \<open>The form reads addresses: a list of non-empty addresses without commas and spaces, written with commas and any spaces after
  them, is read back as that list.\<close>

lemma form_uris_roundtrip:
  assumes "list_all (\<lambda>u. u \<noteq> [] \<and> 44 \<notin> set u \<and> 32 \<notin> set u) us"
  shows "parse_uris (js_join [44] (map (\<lambda>u. replicate n 32 @ u @ replicate k 32) us)) = us"
proof (cases "us = []")
  case False
  let ?p = "\<lambda>u. replicate n 32 @ u @ replicate k (32 :: nat)"
  have "js_split 44 (js_join [44] (map ?p us)) = map ?p us"
    using False assms by (intro js_split_join) (auto simp: list_all_iff)
  moreover have "map (filter (\<lambda>u. u \<noteq> 32)) (map ?p us) = us"
    using assms by (induction us) (auto simp: list_all_iff filter_id_conv)
  moreover have "filter (\<lambda>s. s \<noteq> []) us = us" using assms by (auto simp: list_all_iff filter_id_conv)
  ultimately show ?thesis by (simp add: parse_uris_def del: map_map)
qed (simp add: parse_uris_def)

lemma form_uris_roundtrip_witness: "parse_uris (ascii '' a, b'') = [ascii ''a'', ascii ''b'']"
  using form_uris_roundtrip [of "[ascii ''a'', ascii ''b'']" 1 0] by simp

end
