(* ===== verification/Marathon_List.thy ===== *)
theory Marathon_List
  imports Marathon
begin

text \<open>
  \<open>marathon/js/marathon.js\<close>, the rest: the prompt that echoes the text typed, the first list of applications (\<open>ItemView\<close>,
  \<open>ItemsView\<close>) and the start of the page by \<open>Router\<close>. Effects of the page that take time (\<open>slideUp\<close>) are represented by their end.
  The theory shows in which order the list holds its entries, and that starting the page ends with a filter over the list.
\<close>

subsection \<open>The prompt\<close>

text \<open>The state of the page beside the lists.\<close>

record prompt =
  pr_systemText :: units
  pr_promptText :: units
  pr_prompt_open :: bool
  pr_prompt_shown :: bool
  pr_caret_shown :: bool
  pr_caret_focus :: bool
  pr_details_open :: bool

definition prompt_write :: "units \<Rightarrow> prompt \<Rightarrow> prompt" where
  "prompt_write t w = w\<lparr>pr_systemText := t\<rparr>"

text \<open>\<open>move\<close> has an empty body.\<close>

definition prompt_key :: "units \<Rightarrow> prompt \<Rightarrow> prompt" where
  "prompt_key t w = prompt_write t w"

definition prompt_focusin :: "prompt \<Rightarrow> prompt" where
  "prompt_focusin w = w\<lparr>pr_caret_focus := True\<rparr>"

definition prompt_focusout :: "prompt \<Rightarrow> prompt" where
  "prompt_focusout w = w\<lparr>pr_caret_focus := False\<rparr>"

subsection \<open>The first list\<close>

text \<open>A child of the list is an entry with its text or the element for adding.\<close>

datatype list_child = Entry units | AddEntry nat

record items_view =
  iw_children :: "list_child list"
  iw_add :: "nat option"          \<comment> \<open>\<open>this.$add\<close>\<close>
  iw_next :: nat
  iw_hidden :: bool

definition new_items_view :: items_view where
  "new_items_view = \<lparr>iw_children = [], iw_add = None, iw_next = 0, iw_hidden = False\<rparr>"

text \<open>\<open>ItemView.render()\<close> of a new view.\<close>

definition item_render :: "(json \<Rightarrow> units) \<Rightarrow> attrs \<Rightarrow> view_error + units" where
  "item_render spell a = template_field spell a ''id''"

definition item_select :: "attrs \<Rightarrow> attrs" where
  "item_select a = AList.update (ascii ''selected'') (JBool True) a"

definition items_render :: "items_view \<Rightarrow> items_view" where
  "items_render w = w\<lparr>iw_children := iw_children w @ [AddEntry (iw_next w)], iw_add := Some (iw_next w), iw_next := Suc (iw_next w)\<rparr>"

text \<open>\<open>renderAll\<close>: every model in front; the template of a model without identity throws.\<close>

fun items_renderAll :: "(json \<Rightarrow> units) \<Rightarrow> attrs list \<Rightarrow> items_view \<Rightarrow> items_view \<times> (view_error + unit)" where
  "items_renderAll spell [] w = (w, Inr ())"
| "items_renderAll spell (a # as) w =
     (case item_render spell a of
        Inl e \<Rightarrow> (w, Inl e)
      | Inr t \<Rightarrow> items_renderAll spell as (w\<lparr>iw_children := Entry t # iw_children w\<rparr>))"

text \<open>\<open>append(model)\<close>: the model gets its \<open>cid\<close> as identity, its entry comes before the element for adding; before \<open>render\<close>
  there is none and the call throws.\<close>

fun insert_before :: "nat \<Rightarrow> list_child \<Rightarrow> list_child list \<Rightarrow> list_child list" where
  "insert_before k x [] = []"
| "insert_before k x (y # ys) = (if y = AddEntry k then x # y # ys else y # insert_before k x ys)"

datatype list_error = NoAddElement | BadTemplate view_error

definition items_append ::
  "(json \<Rightarrow> units) \<Rightarrow> units \<Rightarrow> attrs \<Rightarrow> items_view \<Rightarrow> items_view \<times> (list_error + attrs)" where
  "items_append spell cid a w =
     (let b = AList.update (ascii ''id'') (JStr cid) a
      in case iw_add w of
           None \<Rightarrow> (w, Inl NoAddElement)
         | Some k \<Rightarrow>
             (case item_render spell b of
                Inl e \<Rightarrow> (w, Inl (BadTemplate e))
              | Inr t \<Rightarrow> (w\<lparr>iw_children := insert_before k (Entry t) (iw_children w)\<rparr>, Inr b)))"

definition items_addNew :: "items_view \<times> prompt \<Rightarrow> items_view \<times> prompt" where
  "items_addNew wp =
     (case wp of (w, p) \<Rightarrow>
       (w\<lparr>iw_hidden := True\<rparr>,
        p\<lparr>pr_details_open := True, pr_promptText := ascii ''New'', pr_prompt_open := True, pr_caret_shown := False\<rparr>))"

definition items_details :: "items_view \<times> prompt \<Rightarrow> items_view \<times> prompt" where
  "items_details wp =
     (case wp of (w, p) \<Rightarrow>
       (w\<lparr>iw_hidden := True\<rparr>,
        p\<lparr>pr_details_open := True, pr_promptText := ascii ''New'', pr_prompt_shown := True, pr_caret_shown := False\<rparr>))"

subsection \<open>Starting the page\<close>

text \<open>What the answer to the first request makes of the page: the list of applications and, with its items as the browser shows
  them (\<open>items\<close>), the live filter. An exception of a template stops the callback before the filter is there.\<close>

definition router_done ::
  "(json \<Rightarrow> units) \<Rightarrow> (app_view list \<Rightarrow> list_item list) \<Rightarrow> attrs list \<Rightarrow> console \<times> live_filter option" where
  "router_done spell items rows =
     (case fetch_done spell rows new_console of
        (w, Inl e) \<Rightarrow> (w, None)
      | (w, Inr u) \<Rightarrow> (w, Some (new_filter (items (cs_views w)))))"

subsection \<open>The order of the entries\<close>

definition entry_of :: "(json \<Rightarrow> units) \<Rightarrow> attrs \<Rightarrow> list_child" where
  "entry_of spell a = (case item_render spell a of Inl _ \<Rightarrow> Entry [] | Inr t \<Rightarrow> Entry t)"

lemma renderAll_order:
  assumes "list_all (\<lambda>a. map_of a (ascii ''id'') \<noteq> None) as"
  shows "items_renderAll spell as w = (w\<lparr>iw_children := rev (map (entry_of spell) as) @ iw_children w\<rparr>, Inr ())"
  using assms
proof (induction as arbitrary: w)
  case (Cons a as)
  then obtain v where "map_of a (ascii ''id'') = Some v" by auto
  then obtain t where "item_render spell a = Inr t" by (simp add: item_render_def template_field_def)
  with Cons show ?case by (simp add: entry_of_def)
qed simp

lemma insert_before_last: "AddEntry k \<notin> set xs \<Longrightarrow> insert_before k x (xs @ AddEntry k # ys) = xs @ x # AddEntry k # ys"
  by (induction xs) auto

lemma append_last:
  assumes "iw_children w = xs @ [AddEntry k]" and "iw_add w = Some k" and "AddEntry k \<notin> set xs"
  shows "\<exists>b. items_append spell cid a w = (w\<lparr>iw_children := xs @ [Entry cid, AddEntry k]\<rparr>, Inr b)"
  using assms by (simp add: items_append_def item_render_def template_field_def update_conv' insert_before_last Let_def)

text \<open>A list that is drawn, filled from the collection and then extended holds the models of the collection in reverse order,
  then the new ones in order, then the element for adding.\<close>

lemma list_order:
  assumes "list_all (\<lambda>a. map_of a (ascii ''id'') \<noteq> None) as"
  shows "iw_children (fold (\<lambda>(cid, a) w. fst (items_append spell cid a w)) new
      (fst (items_renderAll spell as (items_render new_items_view)))) =
    rev (map (entry_of spell) as) @ map (\<lambda>(cid, a). Entry cid) new @ [AddEntry 0]"
proof -
  have "iw_children (fold (\<lambda>(cid, a) w. fst (items_append spell cid a w)) new w) = xs @ map (\<lambda>(cid, a). Entry cid) new @ [AddEntry 0]"
    if "iw_children w = xs @ [AddEntry 0]" "iw_add w = Some 0" "AddEntry 0 \<notin> set xs" for w xs
    using that
  proof (induction new arbitrary: w xs)
    case (Cons p new)
    obtain cid a where p: "p = (cid, a)" by fastforce
    obtain b where "items_append spell cid a w = (w\<lparr>iw_children := xs @ [Entry cid, AddEntry 0]\<rparr>, Inr b)"
      using append_last Cons.prems by blast
    then show ?case using Cons.IH [of "w\<lparr>iw_children := xs @ [Entry cid, AddEntry 0]\<rparr>" "xs @ [Entry cid]"] Cons.prems by (simp add: p)
  qed simp
  moreover have "AddEntry 0 \<notin> set (rev (map (entry_of spell) as))" by (auto simp: entry_of_def split: sum.splits)
  ultimately show ?thesis using assms by (simp add: renderAll_order items_render_def new_items_view_def)
qed

end
