(* ===== verification/Require_Env.thy ===== *)
theory Require_Env
  imports Js_Prelude
begin

text \<open>
  \<open>js/require.js\<close>, its surroundings: the iteration helpers, the lookup of globals, the guard that decides whether the script
  starts, the functions that a module gets as its own \<open>require\<close> and how their arguments are sorted, the script elements that
  \<open>req.load\<close> makes with their listeners, and the search for the script that runs in old Internet Explorers.
  The theory shows that a module's own \<open>require\<close> passes on its arguments with the module as the place to resolve names from, and
  that every script element names its module and is answered once.
\<close>

subsection \<open>Iteration\<close>

text \<open>\<open>each(ary, func)\<close>: the function gets element and index and may stop by answering true; falsy elements, here \<open>None\<close>, are
  skipped. The state is what the function changes.\<close>

fun each_from :: "nat \<Rightarrow> 'a option list \<Rightarrow> ('a \<Rightarrow> nat \<Rightarrow> 's \<Rightarrow> bool \<times> 's) \<Rightarrow> 's \<Rightarrow> 's" where
  "each_from i [] func s = s"
| "each_from i (None # xs) func s = each_from (Suc i) xs func s"
| "each_from i (Some x # xs) func s = (case func x i s of (stop, s') \<Rightarrow> if stop then s' else each_from (Suc i) xs func s')"

definition each :: "'a option list option \<Rightarrow> ('a \<Rightarrow> nat \<Rightarrow> 's \<Rightarrow> bool \<times> 's) \<Rightarrow> 's \<Rightarrow> 's" where
  "each ary func s = (case ary of None \<Rightarrow> s | Some xs \<Rightarrow> each_from 0 xs func s)"

text \<open>\<open>eachReverse\<close>: the first \<open>n\<close> elements from the last one down.\<close>

fun each_down :: "nat \<Rightarrow> 'a option list \<Rightarrow> ('a \<Rightarrow> nat \<Rightarrow> 's \<Rightarrow> bool \<times> 's) \<Rightarrow> 's \<Rightarrow> 's" where
  "each_down 0 xs func s = s"
| "each_down (Suc n) xs func s =
     (case xs ! n of
        None \<Rightarrow> each_down n xs func s
      | Some x \<Rightarrow> (case func x n s of (stop, s') \<Rightarrow> if stop then s' else each_down n xs func s'))"

definition eachReverse :: "'a option list option \<Rightarrow> ('a \<Rightarrow> nat \<Rightarrow> 's \<Rightarrow> bool \<times> 's) \<Rightarrow> 's \<Rightarrow> 's" where
  "eachReverse ary func s = (case ary of None \<Rightarrow> s | Some xs \<Rightarrow> each_down (length xs) xs func s)"

fun eachProp :: "'v obj \<Rightarrow> ('v \<Rightarrow> string \<Rightarrow> 's \<Rightarrow> bool \<times> 's) \<Rightarrow> 's \<Rightarrow> 's" where
  "eachProp [] func s = s"
| "eachProp ((k, v) # m) func s = (case func v k s of (stop, s') \<Rightarrow> if stop then s' else eachProp m func s')"

text \<open>For a function that does not look at the index, going down is going up the reversed array.\<close>

lemma each_from_shift: "each_from i xs (\<lambda>x _. func x) s = each_from j xs (\<lambda>x _. func x) s"
proof (induction xs arbitrary: i j s)
  case (Cons x xs)
  then show ?case by (cases x) (auto split: prod.split)
qed simp

lemma each_down_rev:
  "n \<le> length xs \<Longrightarrow> each_down n xs (\<lambda>x _. func x) s = each_from 0 (rev (take n xs)) (\<lambda>x _. func x) s"
proof (induction n arbitrary: s)
  case (Suc n)
  then have "rev (take (Suc n) xs) = xs ! n # rev (take n xs)" by (simp add: take_Suc_conv_app_nth)
  moreover have "each_from (Suc 0) ys (\<lambda>x _. func x) t = each_from 0 ys (\<lambda>x _. func x) t" for ys t by (rule each_from_shift)
  ultimately show ?case using Suc by (cases "xs ! n") (auto split: prod.split)
qed simp

lemma eachReverse_rev: "eachReverse (Some xs) (\<lambda>x _. func x) s = each (Some (rev xs)) (\<lambda>x _. func x) s"
  by (simp add: eachReverse_def each_def each_down_rev)

subsection \<open>Globals\<close>

datatype gval = GUndef | GObj "(string \<times> gval) list"

fun global_parts :: "string list \<Rightarrow> gval \<Rightarrow> gval option" where
  "global_parts [] g = Some g"
| "global_parts (p # ps) g =
     (if p = [] then global_parts ps g
      else (case g of
              GUndef \<Rightarrow> None
            | GObj m \<Rightarrow> global_parts ps (case map_of m p of None \<Rightarrow> GUndef | Some v \<Rightarrow> v)))"

text \<open>\<open>getGlobal(value)\<close>; \<open>Inl\<close> returns the falsy value itself, \<open>None\<close> is a thrown \<open>TypeError\<close>.\<close>

definition getGlobal :: "gval \<Rightarrow> string option \<Rightarrow> (string option + gval) option" where
  "getGlobal g value =
     (case value of
        None \<Rightarrow> Some (Inl value)
      | Some v \<Rightarrow> if v = [] then Some (Inl value) else map_option Inr (global_parts (js_split (CHR ''.'') v) g))"

text \<open>A path that ends early makes the lookup throw instead of answering \<open>undefined\<close>.\<close>

lemma getGlobal_missing:
  assumes "map_of m a = None" and "a \<noteq> []" and "b \<noteq> []" and "CHR ''.'' \<notin> set a" and "CHR ''.'' \<notin> set b"
  shows "getGlobal (GObj m) (Some a) = Some (Inr GUndef)" "getGlobal (GObj m) (Some (a @ ''.'' @ b)) = None"
  using assms by (simp_all add: getGlobal_def js_split_no_sep js_split_append)

subsection \<open>Starting\<close>

datatype 'c existing = Missing | Function | Object 'c

datatype 'c boot = NotStarted | Started 'c

text \<open>The guard at the top: another loader wins, objects in the place of the loader are its configuration.\<close>

definition boot :: "bool \<Rightarrow> 'c existing \<Rightarrow> 'c existing \<Rightarrow> 'c \<Rightarrow> 'c boot" where
  "boot define_there requirejs require' cfg =
     (if define_there then NotStarted
      else (case requirejs of
              Function \<Rightarrow> NotStarted
            | Missing \<Rightarrow> (case require' of Object c \<Rightarrow> Started c | _ \<Rightarrow> Started cfg)
            | Object c \<Rightarrow> (case require' of Object c' \<Rightarrow> Started c' | _ \<Rightarrow> Started c)))"

subsection \<open>A module's own require\<close>

text \<open>The arguments of a call: a name, an array, a function, a module map or nothing.\<close>

datatype 'm arg = AName string | ADeps "string list" | AFun nat | AMap 'm | ANone

text \<open>\<open>makeContextModuleFunc(func, relMap)\<close>: the map is the last argument.\<close>

definition makeContextModuleFunc :: "('m arg list \<Rightarrow> 'r) \<Rightarrow> 'm arg \<Rightarrow> 'm arg list \<Rightarrow> 'r" where
  "makeContextModuleFunc func relMap args = func (args @ [relMap])"

fun is_fun :: "'m arg \<Rightarrow> bool" where
  "is_fun (AFun _) = True"
| "is_fun _ = False"

definition nth_arg :: "'m arg list \<Rightarrow> nat \<Rightarrow> 'm arg" where
  "nth_arg args i = (if i < length args then args ! i else ANone)"

datatype 'm require_call = InvalidCall | GetModule string "'m arg" | LoadModules "string list" "'m arg" "'m arg" "'m arg"

text \<open>The beginning of \<open>context.require(deps, callback, errback, relMap)\<close>: which call it is, with callback, error callback and
  map sorted out.\<close>

definition require_args :: "'m arg list \<Rightarrow> 'm require_call option" where
  "require_args args =
     (let callback = nth_arg args 1; errback = nth_arg args 2; relMap = nth_arg args 3
      in case nth_arg args 0 of
           AName n \<Rightarrow> Some (if is_fun callback then InvalidCall else GetModule n callback)
         | ADeps ds \<Rightarrow>
             (let (errback, relMap) = (if errback \<noteq> ANone \<and> \<not> is_fun errback then (ANone, errback) else (errback, relMap));
                  (callback, relMap) = (if callback \<noteq> ANone \<and> \<not> is_fun callback then (ANone, callback) else (callback, relMap))
              in Some (LoadModules ds callback errback relMap))
         | _ \<Rightarrow> None)"

text \<open>\<open>makeRequire(mod)\<close>: the function a module gets as \<open>require\<close>.\<close>

definition makeRequire :: "'m arg \<Rightarrow> 'm arg list \<Rightarrow> 'm require_call option" where
  "makeRequire relMap = makeContextModuleFunc require_args relMap"

text \<open>The methods that \<open>addRequireMethods\<close> hangs on it, with the name under which the context has them.\<close>

definition addRequireMethods :: "string obj" where
  "addRequireMethods =
     [(''toUrl'', ''toUrl''), (''undef'', ''undef''), (''defined'', ''requireDefined''), (''specified'', ''requireSpecified'')]"

text \<open>Every way to call a module's own \<open>require\<close> reaches the context with the arguments in their places and with the module as
  the place that relative names are resolved from.\<close>

lemma makeRequire_calls:
  "makeRequire (AMap m) [AName n] = Some (GetModule n (AMap m))"
  "makeRequire (AMap m) [ADeps ds] = Some (LoadModules ds ANone ANone (AMap m))"
  "makeRequire (AMap m) [ADeps ds, AFun cb] = Some (LoadModules ds (AFun cb) ANone (AMap m))"
  "makeRequire (AMap m) [ADeps ds, AFun cb, AFun eb] = Some (LoadModules ds (AFun cb) (AFun eb) (AMap m))"
  "makeRequire (AMap m) [AName n, AFun cb] = Some InvalidCall"
  by (simp_all add: makeRequire_def makeContextModuleFunc_def require_args_def nth_arg_def)

subsection \<open>Script elements\<close>

datatype listener = OnLoad | OnError | OnReadyState

record script_node =
  sn_xhtml :: bool
  sn_type :: string
  sn_context :: string
  sn_module :: string
  sn_src :: string
  sn_listeners :: "listener list"
  sn_interactive :: bool

text \<open>The browser: whether its elements have \<open>attachEvent\<close> (and \<open>detachEvent\<close>), whether it is native, and whether it is Opera.\<close>

record browser =
  br_attachEvent :: bool
  br_native :: bool
  br_opera :: bool

definition uses_attach :: "browser \<Rightarrow> bool" where
  "uses_attach b \<longleftrightarrow> br_attachEvent b \<and> br_native b \<and> \<not> br_opera b"

text \<open>The children of the head: scripts, other elements, and the base element, before which scripts are put.\<close>

datatype head_child = Script script_node | OtherChild | BaseElement

record load_env =
  le_browser :: browser
  le_head :: "head_child list"
  le_useInteractive :: bool

definition load_node :: "browser \<Rightarrow> bool \<Rightarrow> string option \<Rightarrow> string \<Rightarrow> string \<Rightarrow> string \<Rightarrow> script_node" where
  "load_node b xhtml scriptType contextName moduleName url =
     \<lparr>sn_xhtml = xhtml,
      sn_type = (case scriptType of None \<Rightarrow> ''text/javascript'' | Some t \<Rightarrow> if t = [] then ''text/javascript'' else t),
      sn_context = contextName, sn_module = moduleName, sn_src = url,
      sn_listeners = (if uses_attach b then [OnReadyState] else [OnLoad, OnError]), sn_interactive = False\<rparr>"

fun put_script :: "script_node \<Rightarrow> head_child list \<Rightarrow> head_child list" where
  "put_script n [] = [Script n]"
| "put_script n (c # cs) = (if c = BaseElement then Script n # c # cs else c # put_script n cs)"

definition req_load :: "load_env \<Rightarrow> bool \<Rightarrow> string option \<Rightarrow> string \<Rightarrow> string \<Rightarrow> string \<Rightarrow> load_env" where
  "req_load e xhtml scriptType contextName moduleName url =
     e\<lparr>le_useInteractive := (le_useInteractive e \<or> uses_attach (le_browser e)),
       le_head := put_script (load_node (le_browser e) xhtml scriptType contextName moduleName url) (le_head e)\<rparr>"

text \<open>What \<open>req.load\<close> does where: a worker imports the script at once and then completes the load of its module.\<close>

datatype load_action = AddScript load_env | ImportAndComplete string string | NoLoad

definition load_action ::
  "bool \<Rightarrow> bool \<Rightarrow> load_env \<Rightarrow> bool \<Rightarrow> string option \<Rightarrow> string \<Rightarrow> string \<Rightarrow> string \<Rightarrow> load_action" where
  "load_action isBrowser isWebWorker e xhtml scriptType contextName moduleName url =
     (if isBrowser then AddScript (req_load e xhtml scriptType contextName moduleName url)
      else if isWebWorker then ImportAndComplete url moduleName
      else NoLoad)"

text \<open>\<open>removeListener\<close>: with \<open>detachEvent\<close> only the event that has a name there.\<close>

definition removeListener :: "browser \<Rightarrow> listener \<Rightarrow> listener option \<Rightarrow> script_node \<Rightarrow> script_node" where
  "removeListener b name ieName n =
     (if br_attachEvent b \<and> \<not> br_opera b
      then (case ieName of None \<Rightarrow> n | Some i \<Rightarrow> n\<lparr>sn_listeners := filter (\<lambda>l. l \<noteq> i) (sn_listeners n)\<rparr>)
      else n\<lparr>sn_listeners := filter (\<lambda>l. l \<noteq> name) (sn_listeners n)\<rparr>)"

definition getScriptData :: "browser \<Rightarrow> script_node \<Rightarrow> script_node \<times> string" where
  "getScriptData b n = (removeListener b OnError None (removeListener b OnLoad (Some OnReadyState) n), sn_module n)"

text \<open>A script element answers once: the first event gives the name of its module and takes all listeners away, in every browser
  whose \<open>attachEvent\<close>, if there is one, is its own.\<close>

lemma script_answers_once:
  assumes "br_attachEvent b \<longrightarrow> br_native b"
  shows "getScriptData b (load_node b xhtml t c m url) = ((load_node b xhtml t c m url)\<lparr>sn_listeners := []\<rparr>, m)"
  using assms by (auto simp: getScriptData_def removeListener_def load_node_def uses_attach_def)

text \<open>With an \<open>attachEvent\<close> that a script has added, the listeners are added in the standard way and taken away in the other:
  they stay.\<close>

lemma script_keeps_listeners:
  "sn_listeners (fst (getScriptData \<lparr>br_attachEvent = True, br_native = False, br_opera = False\<rparr>
     (load_node \<lparr>br_attachEvent = True, br_native = False, br_opera = False\<rparr> xhtml t c m url))) = [OnLoad, OnError]"
  by (simp add: getScriptData_def removeListener_def load_node_def uses_attach_def)

lemma put_script_before_base: "BaseElement \<notin> set cs \<Longrightarrow> put_script n (cs @ BaseElement # ds) = cs @ Script n # BaseElement # ds"
  by (induction cs) auto

lemma put_script_last: "BaseElement \<notin> set cs \<Longrightarrow> put_script n cs = cs @ [Script n]"
  by (induction cs) auto

subsection \<open>The running script\<close>

text \<open>\<open>getInteractiveScript\<close> with its memory.\<close>

definition getInteractiveScript :: "script_node list \<Rightarrow> script_node option \<Rightarrow> script_node option" where
  "getInteractiveScript scripts memory =
     (case memory of
        Some n \<Rightarrow>
          if sn_interactive n then memory
          else eachReverse (Some (map Some scripts)) (\<lambda>x _ s. if sn_interactive x then (True, Some x) else (False, s)) memory
      | None \<Rightarrow> eachReverse (Some (map Some scripts)) (\<lambda>x _ s. if sn_interactive x then (True, Some x) else (False, s)) memory)"

definition find_interactive :: "script_node \<Rightarrow> script_node option \<Rightarrow> bool \<times> script_node option" where
  "find_interactive x s = (if sn_interactive x then (True, Some x) else (False, s))"

lemma each_find: "each_from i (map Some xs) (\<lambda>x _. find_interactive x) s =
    (case List.find sn_interactive xs of None \<Rightarrow> s | Some x \<Rightarrow> Some x)"
  by (induction xs arbitrary: i) (auto simp: find_interactive_def)

text \<open>The search finds the last interactive script of the page; without any it answers the remembered one, interactive or not.\<close>

lemma getInteractiveScript_last:
  assumes "\<not> (\<exists>n. memory = Some n \<and> sn_interactive n)"
  shows "getInteractiveScript scripts memory = (case List.find sn_interactive (rev scripts) of None \<Rightarrow> memory | Some x \<Rightarrow> Some x)"
proof -
  have "(\<lambda>x (_::nat) s. if sn_interactive x then (True, Some x) else (False, s)) = (\<lambda>x _. find_interactive x)"
    by (simp add: find_interactive_def fun_eq_iff)
  then show ?thesis
    using assms each_find [of 0 "rev scripts" memory]
    by (cases memory) (simp_all add: getInteractiveScript_def eachReverse_rev each_def rev_map)
qed

text \<open>The name that an anonymous \<open>define\<close> gets in such a browser: of the script being added, else of the running one.\<close>

definition interactive_name :: "load_env \<Rightarrow> script_node option \<Rightarrow> script_node option \<Rightarrow> string option \<Rightarrow> string option" where
  "interactive_name e adding running name =
     (if le_useInteractive e then
        (case (case adding of Some n \<Rightarrow> Some n | None \<Rightarrow> running) of
           None \<Rightarrow> name
         | Some n \<Rightarrow> if name = None \<or> name = Some [] then Some (sn_module n) else name)
      else name)"

end
