(* ===== verification/Form_Fields.thy ===== *)
theory Form_Fields
  imports Uri_Component
begin

text \<open>
  \<open>jquery/jquery.form.js\<close>, first part: which values the fields of a form contribute (\<open>fieldValue\<close>, \<open>formToArray\<close>), their
  serialisation and its inverse (\<open>deepSerialize\<close>), and clearing, resetting, enabling and selecting of fields. A form is the list
  of its elements in document order, an element is known by its number. A thrown \<open>URIError\<close> of the encoding is \<open>None\<close>.
  The theory shows that a serialised list of pairs is read back exactly, which fields contribute, and what clearing leaves.
\<close>

subsection \<open>Fields and forms\<close>

record option_el =
  op_value :: units
  op_text :: units
  op_specified :: "bool option"   \<comment> \<open>the flag of its attribute \<open>value\<close>, if it has one\<close>
  op_selected :: bool
  op_default :: bool

record field =
  fl_id :: nat
  fl_tag :: string
  fl_type :: string               \<comment> \<open>the property \<open>type\<close>\<close>
  fl_type_attr :: "string option" \<comment> \<open>the attribute \<open>type\<close>\<close>
  fl_dom_id :: units              \<comment> \<open>the attribute \<open>id\<close>\<close>
  fl_name :: units
  fl_value :: units
  fl_value_attr :: "units option" \<comment> \<open>the attribute \<open>value\<close>\<close>
  fl_checked :: bool
  fl_disabled :: bool
  fl_options :: "option_el list"
  fl_files :: "units list"
  fl_owned :: bool                \<comment> \<open>it has a form\<close>
  fl_defaultValue :: units
  fl_defaultChecked :: bool

text \<open>\<open>clk\<close>, \<open>clk_x\<close> and \<open>clk_y\<close> are the properties that \<open>captureSubmittingElement\<close> leaves at the form.\<close>

record form =
  fm_fields :: "field list"       \<comment> \<open>all elements of the form in document order\<close>
  fm_clk :: "nat option"
  fm_clk_x :: int
  fm_clk_y :: int

text \<open>\<open>form.elements\<close>: the listed controls, without image buttons.\<close>

definition listed_tags :: "string list" where
  "listed_tags = [''input'', ''select'', ''textarea'', ''button'', ''fieldset'', ''object'', ''output'', ''keygen'']"

definition form_elements :: "form \<Rightarrow> field list" where
  "form_elements fm = filter (\<lambda>x. fl_tag x \<in> set listed_tags \<and> fl_type x \<noteq> ''image'') (fm_fields fm)"

text \<open>\<open>$(el).val()\<close> of a field that is no select: its text without carriage returns.\<close>

definition field_val :: "field \<Rightarrow> units" where
  "field_val x = filter (\<lambda>u. u \<noteq> 13) (fl_value x)"

definition selected_index :: "field \<Rightarrow> nat option" where
  "selected_index x = List.find (\<lambda>i. op_selected (fl_options x ! i)) [0..<length (fl_options x)]"

subsection \<open>Values\<close>

datatype fvalue = VNull | VText units | VList "units list"

definition option_value :: "option_el \<Rightarrow> units" where
  "option_value ob = (if op_value ob = [] \<and> op_specified ob = Some False then op_text ob else op_value ob)"

text \<open>The condition of \<open>$.fieldValue\<close> for a field that is not \<^emph>\<open>successful\<close>; \<open>clk\<close> is the button its form remembers.\<close>

definition unsuccessful :: "nat option \<Rightarrow> field \<Rightarrow> bool" where
  "unsuccessful clk x \<longleftrightarrow>
     fl_name x = [] \<or> fl_disabled x \<or> fl_type x = ''reset'' \<or> fl_type x = ''button'' \<or>
     (fl_type x = ''checkbox'' \<or> fl_type x = ''radio'') \<and> \<not> fl_checked x \<or>
     (fl_type x = ''submit'' \<or> fl_type x = ''image'') \<and> fl_owned x \<and> clk \<noteq> Some (fl_id x) \<or>
     fl_tag x = ''select'' \<and> selected_index x = None"

definition select_value :: "field \<Rightarrow> fvalue" where
  "select_value x =
     (case selected_index x of
        None \<Rightarrow> VNull
      | Some i \<Rightarrow>
          if fl_type x = ''select-one'' then VText (option_value (fl_options x ! i))
          else VList (map option_value (filter op_selected (fl_options x))))"

text \<open>\<open>$.fieldValue(el, successful)\<close>\<close>

definition field_value :: "nat option \<Rightarrow> bool \<Rightarrow> field \<Rightarrow> fvalue" where
  "field_value clk successful x =
     (if successful \<and> unsuccessful clk x then VNull
      else if fl_tag x = ''select'' then select_value x
      else VText (field_val x))"

text \<open>\<open>$set.fieldValue(successful)\<close>\<close>

definition field_values :: "nat option \<Rightarrow> bool \<Rightarrow> field list \<Rightarrow> units list" where
  "field_values clk successful xs =
     concat (map (\<lambda>x. case field_value clk successful x of VNull \<Rightarrow> [] | VText v \<Rightarrow> [v] | VList vs \<Rightarrow> vs) xs)"

text \<open>The value of a pair is a text or a file.\<close>

datatype pdata = DText units | DFile units

type_synonym pair = "units \<times> pdata"

definition image_pairs :: "form \<Rightarrow> field \<Rightarrow> pair list" where
  "image_pairs fm x =
     [(fl_name x, DText (field_val x)),
      (fl_name x @ ascii ''.x'', DText (ascii (int_str (fm_clk_x fm)))),
      (fl_name x @ ascii ''.y'', DText (ascii (int_str (fm_clk_y fm))))]"

text \<open>One turn of the loop of \<open>formToArray\<close>; \<open>fileapi\<close> says that the browser lists the chosen files.\<close>

definition field_pairs :: "bool \<Rightarrow> bool \<Rightarrow> form \<Rightarrow> field \<Rightarrow> pair list" where
  "field_pairs fileapi semantic fm x =
     (let n = fl_name x
      in if n = [] \<or> fl_disabled x then []
         else if semantic \<and> fm_clk fm \<noteq> None \<and> fl_type x = ''image'' then
           (if fm_clk fm = Some (fl_id x) then image_pairs fm x else [])
         else (case field_value (fm_clk fm) True x of
                 VList vs \<Rightarrow> map (\<lambda>v. (n, DText v)) vs
               | v \<Rightarrow>
                   if fileapi \<and> fl_type x = ''file'' then
                     (if fl_files x = [] then [(n, DText [])] else map (\<lambda>w. (n, DFile w)) (fl_files x))
                   else (case v of VText t \<Rightarrow> [(n, DText t)] | _ \<Rightarrow> [])))"

text \<open>The image button that was clicked, which \<open>form.elements\<close> does not list.\<close>

definition clicked_image_pairs :: "form \<Rightarrow> pair list" where
  "clicked_image_pairs fm =
     (case fm_clk fm of
        None \<Rightarrow> []
      | Some c \<Rightarrow>
          (case List.find (\<lambda>x. fl_id x = c) (fm_fields fm) of
             None \<Rightarrow> []
           | Some x \<Rightarrow>
               if fl_name x \<noteq> [] \<and> \<not> fl_disabled x \<and> fl_type x = ''image'' then image_pairs fm x else []))"

definition formToArray :: "bool \<Rightarrow> bool \<Rightarrow> form \<Rightarrow> pair list" where
  "formToArray fileapi semantic fm =
     concat (map (field_pairs fileapi semantic fm) (if semantic then fm_fields fm else form_elements fm)) @
     (if semantic then [] else clicked_image_pairs fm)"

subsection \<open>Serialisation\<close>

text \<open>\<open>$.param(a)\<close> of an array of names and values: encoded, joined by ampersands, encoded spaces replaced by plus signs. A
  file is spelled \<open>[object File]\<close>.\<close>

definition data_text :: "pdata \<Rightarrow> units" where
  "data_text d = (case d of DText t \<Rightarrow> t | DFile _ \<Rightarrow> ascii ''[object File]'')"

fun plus_spaces :: "units \<Rightarrow> units" where
  "plus_spaces (u # v # w # us) =
     (if u = 37 \<and> v = 50 \<and> w = 48 then 43 # plus_spaces us else u # plus_spaces (v # w # us))"
| "plus_spaces us = us"

fun encode_pairs :: "pair list \<Rightarrow> units list option" where
  "encode_pairs [] = Some []"
| "encode_pairs ((n, v) # ps) =
     (case (encodeURIComponent n, encodeURIComponent (data_text v), encode_pairs ps) of
        (Some n', Some v', Some ws) \<Rightarrow> Some ((n' @ [61] @ v') # ws)
      | _ \<Rightarrow> None)"

definition param :: "pair list \<Rightarrow> units option" where
  "param a = map_option (\<lambda>ws. plus_spaces (js_join [38] ws)) (encode_pairs a)"

definition formSerialize :: "bool \<Rightarrow> bool \<Rightarrow> form \<Rightarrow> units option" where
  "formSerialize fileapi semantic fm = param (formToArray fileapi semantic fm)"

definition fieldSerialize :: "nat option \<Rightarrow> bool \<Rightarrow> field list \<Rightarrow> units option" where
  "fieldSerialize clk successful xs =
     param (concat (map (\<lambda>x. if fl_name x = [] then []
       else (case field_value clk successful x of
               VNull \<Rightarrow> []
             | VText v \<Rightarrow> [(fl_name x, DText v)]
             | VList vs \<Rightarrow> map (\<lambda>v. (fl_name x, DText v)) vs)) xs))"

text \<open>\<open>deepSerialize\<close>: a query string taken apart again; the value of a part without an equals sign is the text of
  \<open>decodeURIComponent(undefined)\<close>.\<close>

definition unplus :: "units \<Rightarrow> units" where
  "unplus s = map (\<lambda>u. if u = 43 then 32 else u) s"

fun decode_parts :: "units list \<Rightarrow> (units \<times> units) list option" where
  "decode_parts [] = Some []"
| "decode_parts (w # ws) =
     (let part = js_split 61 (unplus w)
      in case (decodeURIComponent (part ! 0),
               if length part < 2 then Some (ascii ''undefined'') else decodeURIComponent (part ! 1), decode_parts ws) of
           (Some n, Some v, Some ps) \<Rightarrow> Some ((n, v) # ps)
         | _ \<Rightarrow> None)"

definition deepSerialize :: "pair list \<Rightarrow> (units \<times> units) list option" where
  "deepSerialize extraData = (case param extraData of None \<Rightarrow> None | Some q \<Rightarrow> decode_parts (js_split 38 q))"

subsection \<open>Changing fields\<close>

definition text_type :: "string \<Rightarrow> bool" where
  "text_type t \<longleftrightarrow> to_lower t \<in> set [''color'', ''date'', ''datetime'', ''email'', ''month'', ''number'', ''password'', ''range'',
     ''search'', ''tel'', ''text'', ''time'', ''url'', ''week'']"

text \<open>What \<open>includeHidden\<close> may be: absent, true, or a selector, given by the fields it matches.\<close>

datatype include_hidden = HiddenNo | HiddenAll | HiddenMatching "field \<Rightarrow> bool"

definition unselect_options :: "field \<Rightarrow> field" where
  "unselect_options x = x\<lparr>fl_options := map (\<lambda>ob. ob\<lparr>op_selected := False\<rparr>) (fl_options x)\<rparr>"

text \<open>The body of \<open>clearFields\<close>; old Internet Explorers replace a file input by a copy, which has lost its files as well.\<close>

definition clear_field :: "include_hidden \<Rightarrow> field \<Rightarrow> field" where
  "clear_field h x =
     (if text_type (fl_type x) \<or> fl_tag x = ''textarea'' then x\<lparr>fl_value := []\<rparr>
      else if fl_type x = ''checkbox'' \<or> fl_type x = ''radio'' then x\<lparr>fl_checked := False\<rparr>
      else if fl_tag x = ''select'' then unselect_options x
      else if fl_type x = ''file'' then x\<lparr>fl_value := [], fl_files := []\<rparr>
      else (case h of
              HiddenNo \<Rightarrow> x
            | HiddenAll \<Rightarrow> if index_of ''hidden'' (fl_type x) \<noteq> None then x\<lparr>fl_value := []\<rparr> else x
            | HiddenMatching P \<Rightarrow> if P x then x\<lparr>fl_value := []\<rparr> else x))"

definition clearFields :: "include_hidden \<Rightarrow> field list \<Rightarrow> field list" where
  "clearFields h xs = map (clear_field h) xs"

definition clearForm :: "include_hidden \<Rightarrow> form \<Rightarrow> form" where
  "clearForm h fm =
     fm\<lparr>fm_fields :=
       map (\<lambda>x. if fl_tag x \<in> set [''input'', ''select'', ''textarea''] then clear_field h x else x) (fm_fields fm)\<rparr>"

definition reset_field :: "field \<Rightarrow> field" where
  "reset_field x =
     x\<lparr>fl_value := fl_defaultValue x, fl_checked := fl_defaultChecked x, fl_files := [],
       fl_options := map (\<lambda>ob. ob\<lparr>op_selected := op_default ob\<rparr>) (fl_options x)\<rparr>"

datatype form_error = BadUri | NotAFunction | NoUrl

text \<open>\<open>form.reset\<close> is the method of the browser unless fields of that name or id hide it: a single one is a node, which the
  guard of \<open>resetForm\<close> finds, several are a list, an object without \<open>nodeType\<close> that is then called.\<close>

definition resetForm :: "form \<Rightarrow> form_error + form" where
  "resetForm fm =
     (case filter (\<lambda>x. fl_name x = ascii ''reset'' \<or> fl_dom_id x = ascii ''reset'') (form_elements fm) of
        [] \<Rightarrow> Inr (fm\<lparr>fm_fields := map reset_field (fm_fields fm)\<rparr>)
      | [_] \<Rightarrow> Inr fm
      | _ \<Rightarrow> Inl NotAFunction)"

definition enable :: "bool option \<Rightarrow> field list \<Rightarrow> field list" where
  "enable b xs = map (\<lambda>x. x\<lparr>fl_disabled := \<not> (case b of None \<Rightarrow> True | Some v \<Rightarrow> v)\<rparr>) xs"

text \<open>\<open>selected(b)\<close> of check boxes and radio buttons, and of one option of a select.\<close>

definition select_fields :: "bool \<Rightarrow> field list \<Rightarrow> field list" where
  "select_fields b xs = map (\<lambda>x. if fl_type x = ''checkbox'' \<or> fl_type x = ''radio'' then x\<lparr>fl_checked := b\<rparr> else x) xs"

definition select_option :: "bool \<Rightarrow> nat \<Rightarrow> field \<Rightarrow> field" where
  "select_option b i x =
     (let y = (if b \<and> fl_type x = ''select-one'' then unselect_options x else x)
      in y\<lparr>fl_options := (fl_options y)[i := (fl_options y ! i)\<lparr>op_selected := b\<rparr>]\<rparr>)"

subsection \<open>Reading a query back\<close>

text \<open>The text of a code point inside a query.\<close>

definition query_point :: "nat \<Rightarrow> units" where
  "query_point c = (if c = 32 then [43] else encode_point c)"

definition query_text :: "nat list \<Rightarrow> units" where
  "query_text cs = concat (map query_point cs)"

lemma plus_spaces_Cons [simp]: "u \<noteq> 37 \<Longrightarrow> plus_spaces (u # us) = u # plus_spaces us"
  by (cases us; cases "tl us") auto

lemma upper_hex_digits:
  assumes "d < 16"
  shows "upper_hex d \<noteq> 37" "upper_hex d = 50 \<longleftrightarrow> d = 2" "upper_hex d = 48 \<longleftrightarrow> d = 0"
  using assms by (auto simp: upper_hex_def)

lemma plus_spaces_percent:
  assumes "b < 256"
  shows "plus_spaces (percent b @ r) = (if b = 32 then [43] else percent b) @ plus_spaces r"
proof -
  have d: "b div 16 < 16" "b mod 16 < 16" using assms by auto
  have "b = 32 \<longleftrightarrow> b div 16 = 2 \<and> b mod 16 = 0" using div_mult_mod_eq [of b 16] by auto
  then show ?thesis
    using upper_hex_digits [OF d(1)] upper_hex_digits [OF d(2)] by (simp add: percent_def)
qed

lemma plus_spaces_bytes:
  "list_all (\<lambda>b. b < 256 \<and> b \<noteq> 32) bs \<Longrightarrow> plus_spaces (concat (map percent bs) @ r) = concat (map percent bs) @ plus_spaces r"
  by (induction bs) (simp_all add: plus_spaces_percent)

lemma utf8_no_space: "c \<noteq> 32 \<Longrightarrow> 32 \<notin> set (utf8 c)"
  by (auto simp: utf8_def)

lemma plus_spaces_point:
  assumes "scalar c"
  shows "plus_spaces (encode_point c @ r) = query_point c @ plus_spaces r"
proof (cases "uri_unreserved c")
  case True
  then have "c \<noteq> 37" "c \<noteq> 32" by (auto simp: uri_unreserved_def is_digit_unit_def)
  with True show ?thesis by (simp add: encode_point_def query_point_def)
next
  case no: False
  show ?thesis
  proof (cases "c = 32")
    case True
    then show ?thesis using no by (simp add: query_point_def encode_point_def utf8_def plus_spaces_percent)
  next
    case False
    then have "list_all (\<lambda>b. b < 256 \<and> b \<noteq> 32) (utf8 c)"
      using utf8_bytes [OF assms] utf8_no_space by (auto simp: list_all_iff)
    then show ?thesis using no False by (simp add: query_point_def encode_point_def plus_spaces_bytes)
  qed
qed

lemma plus_spaces_points:
  "list_all scalar cs \<Longrightarrow> plus_spaces (concat (map encode_point cs) @ r) = query_text cs @ plus_spaces r"
  by (induction cs) (simp_all add: plus_spaces_point query_text_def)

lemma query_point_units:
  assumes "scalar c"
  shows "38 \<notin> set (query_point c)" "61 \<notin> set (query_point c)"
  using encode_point_units [OF assms]
  by (auto simp: query_point_def list_all_iff uri_unit_def uri_unreserved_def is_digit_unit_def)

lemma query_text_units:
  assumes "list_all scalar cs"
  shows "38 \<notin> set (query_text cs)" "61 \<notin> set (query_text cs)"
  using assms query_point_units by (fastforce simp: query_text_def list_all_iff)+

lemma unplus_point:
  assumes "scalar c"
  shows "unplus (query_point c) = (if c = 32 then [32] else encode_point c)"
proof -
  have "u \<noteq> 43" if "u \<in> set (encode_point c)" for u
    using that encode_point_units [OF assms] by (auto simp: list_all_iff uri_unit_def uri_unreserved_def is_digit_unit_def)
  then show ?thesis by (simp add: unplus_def query_point_def map_idI)
qed

lemma unplus_simps [simp]:
  "unplus [] = []" "unplus (u # us) = (if u = 43 then 32 else u) # unplus us" "unplus (a @ b) = unplus a @ unplus b"
  by (simp_all add: unplus_def)

lemma unplus_keeps: "c \<noteq> 32 \<Longrightarrow> c \<notin> set s \<Longrightarrow> c \<notin> set (unplus s)"
  by (auto simp: unplus_def split: if_splits)

lemma decode_query_text:
  "list_all scalar cs \<Longrightarrow> decodeURIComponent (unplus (query_text cs)) = Some (concat (map utf16 cs))"
proof (induction cs)
  case (Cons c cs)
  then show ?case
    by (cases "c = 32")
      (simp_all add: query_text_def unplus_point decode_encode_point decodeURIComponent.simps(2) utf16_def)
qed (simp add: query_text_def unplus_def)

text \<open>One pair: its text in the query and what it is read as.\<close>

definition pair_ok :: "pair \<Rightarrow> bool" where
  "pair_ok p \<longleftrightarrow> unit_text (fst p) \<and> unit_text (data_text (snd p))"

definition pair_texts :: "pair list \<Rightarrow> (units \<times> units) list" where
  "pair_texts a = map (\<lambda>(n, v). (n, data_text v)) a"

definition query_part :: "pair \<Rightarrow> units" where
  "query_part p = query_text (the (code_points (fst p))) @ [61] @ query_text (the (code_points (data_text (snd p))))"

lemma unit_text_points:
  assumes "unit_text s"
  shows "code_points s = Some (the (code_points s))" "list_all scalar (the (code_points s))"
    "concat (map utf16 (the (code_points s))) = s"
  using assms code_points_scalar [of s "the (code_points s)"] by (auto simp: unit_text_def)

lemma query_part_split:
  assumes "pair_ok p"
  shows "38 \<notin> set (query_part p)"
    "js_split 61 (unplus (query_part p)) =
       [unplus (query_text (the (code_points (fst p)))), unplus (query_text (the (code_points (data_text (snd p)))))]"
proof -
  have s: "list_all scalar (the (code_points (fst p)))" "list_all scalar (the (code_points (data_text (snd p))))"
    using assms unit_text_points by (auto simp: pair_ok_def)
  then show "38 \<notin> set (query_part p)" by (simp add: query_part_def query_text_units)
  show "js_split 61 (unplus (query_part p)) =
       [unplus (query_text (the (code_points (fst p)))), unplus (query_text (the (code_points (data_text (snd p)))))]"
    using s by (simp add: query_part_def js_split_append js_split_no_sep unplus_keeps query_text_units)
qed

lemma decode_query_parts:
  "list_all pair_ok a \<Longrightarrow> decode_parts (map query_part a) = Some (pair_texts a)"
proof (induction a)
  case (Cons p a)
  then have "unit_text (fst p)" "unit_text (data_text (snd p))" by (simp_all add: pair_ok_def)
  with Cons show ?case
    by (cases p) (simp add: query_part_split decode_query_text unit_text_points(2,3) pair_texts_def)
qed (simp add: pair_texts_def)

definition encoded_part :: "pair \<Rightarrow> units" where
  "encoded_part p =
     concat (map encode_point (the (code_points (fst p)))) @ [61] @
     concat (map encode_point (the (code_points (data_text (snd p)))))"

lemma encode_pairs_ok: "list_all pair_ok a \<Longrightarrow> encode_pairs a = Some (map encoded_part a)"
proof (induction a)
  case (Cons p a)
  then have "unit_text (fst p)" "unit_text (data_text (snd p))" by (simp_all add: pair_ok_def)
  with unit_text_points(1) Cons show ?case
    by (cases p) (simp add: encodeURIComponent_def encoded_part_def unit_text_def split: option.split, fastforce)
qed simp

lemma plus_spaces_part:
  assumes "pair_ok p"
  shows "plus_spaces (encoded_part p @ r) = query_part p @ plus_spaces r"
proof -
  have s: "list_all scalar (the (code_points (fst p)))" "list_all scalar (the (code_points (data_text (snd p))))"
    using assms unit_text_points by (auto simp: pair_ok_def)
  then show ?thesis by (simp add: encoded_part_def query_part_def plus_spaces_points)
qed

lemma plus_spaces_join:
  "list_all pair_ok a \<Longrightarrow> plus_spaces (js_join [38] (map encoded_part a)) = js_join [38] (map query_part a)"
proof (induction a rule: induct_list012)
  case (2 p)
  then show ?case using plus_spaces_part [of p "[]"] by simp
next
  case (3 p q a)
  then show ?case using plus_spaces_part [of p] by simp
qed simp

text \<open>\<open>$.param\<close> of well-formed texts is the parts of the pairs, joined.\<close>

lemma param_ok: "list_all pair_ok a \<Longrightarrow> param a = Some (js_join [38] (map query_part a))"
  by (simp add: param_def encode_pairs_ok plus_spaces_join)

lemma split_parts:
  "list_all pair_ok a \<Longrightarrow> a \<noteq> [] \<Longrightarrow> js_split 38 (js_join [38] (map query_part a)) = map query_part a"
  by (subst js_split_join) (auto simp: list_all_iff query_part_split)

text \<open>Reading a query: the inverse that a server applies.\<close>

definition read_query :: "units \<Rightarrow> (units \<times> units) list option" where
  "read_query q = (if q = [] then Some [] else decode_parts (js_split 38 q))"

lemma query_part_nonempty [simp]: "query_part p \<noteq> []"
  by (simp add: query_part_def)

lemma join_parts_empty [simp]: "js_join [38] (map query_part a) = [] \<longleftrightarrow> a = []"
  by (cases a rule: remdups_adj.cases) simp_all

lemma read_query_param: "list_all pair_ok a \<Longrightarrow> read_query (js_join [38] (map query_part a)) = Some (pair_texts a)"
  by (cases "a = []") (simp_all add: read_query_def split_parts decode_query_parts, simp add: pair_texts_def)

text \<open>C13: Extra data survive the way through \<open>deepSerialize\<close>: a non-empty list of pairs of well-formed texts is encoded by
  \<open>$.param\<close> and read back exactly, in order, whatever characters (ampersands, equals signs, plus signs, blanks, characters outside
  the basic plane) it contains; a file is read as the text \<open>[object File]\<close>.
\<close>

theorem deepSerialize_roundtrip:
  assumes "list_all pair_ok a" and "a \<noteq> []"
  shows "deepSerialize a = Some (pair_texts a)"
  using assms by (simp add: deepSerialize_def param_ok split_parts decode_query_parts)

theorem deepSerialize_roundtrip_witness:
  "list_all pair_ok [(ascii ''a b&='', DText [43, 37, 0xD83D, 0xDE00]), ([], DFile (ascii ''x'')), (ascii ''a'', DText [])] \<and>
   deepSerialize [(ascii ''a b&='', DText [43, 37, 0xD83D, 0xDE00]), ([], DFile (ascii ''x'')), (ascii ''a'', DText [])] =
     Some [(ascii ''a b&='', [43, 37, 0xD83D, 0xDE00]), ([], ascii ''[object File]''), (ascii ''a'', [])]"
  using deepSerialize_roundtrip
    [of "[(ascii ''a b&='', DText [43, 37, 0xD83D, 0xDE00]), ([], DFile (ascii ''x'')), (ascii ''a'', DText [])]"]
  by (simp add: pair_ok_def unit_text_def data_text_def pair_texts_def high_surrogate_def low_surrogate_def)

text \<open>Without any pair the query is empty, and splitting it makes one pair up: \<open>''\<close> with the value \<open>undefined\<close>.\<close>

lemma deepSerialize_empty: "deepSerialize [] = Some [([], ascii ''undefined'')]"
  by (simp add: deepSerialize_def param_def unplus_def)

subsection \<open>What clearing leaves\<close>

text \<open>The types the browser gives the elements.\<close>

definition control_wf :: "field \<Rightarrow> bool" where
  "control_wf x \<longleftrightarrow>
     (fl_tag x = ''select'' \<longrightarrow> fl_type x = ''select-one'' \<or> fl_type x = ''select-multiple'') \<and>
     (fl_tag x = ''textarea'' \<longrightarrow> fl_type x = ''textarea'')"

definition clearable :: "field \<Rightarrow> bool" where
  "clearable x \<longleftrightarrow> fl_tag x = ''textarea'' \<or> fl_tag x = ''select'' \<or>
     fl_tag x = ''input'' \<and> (text_type (fl_type x) \<or> fl_type x = ''checkbox'' \<or> fl_type x = ''radio'' \<or> fl_type x = ''file'')"

text \<open>What a cleared field still contributes.\<close>

definition blank_pairs :: "field \<Rightarrow> pair list" where
  "blank_pairs x =
     (if fl_name x = [] \<or> fl_disabled x \<or> fl_tag x = ''select'' \<or> fl_type x = ''checkbox'' \<or> fl_type x = ''radio'' then []
      else [(fl_name x, DText [])])"

definition clear_element :: "include_hidden \<Rightarrow> field \<Rightarrow> field" where
  "clear_element h x = (if fl_tag x \<in> set [''input'', ''select'', ''textarea''] then clear_field h x else x)"

lemma clearForm_element: "clearForm h fm = fm\<lparr>fm_fields := map (clear_element h) (fm_fields fm)\<rparr>"
  by (simp add: clearForm_def clear_element_def)

lemma not_text_types:
  "\<not> text_type ''reset''" "\<not> text_type ''button''" "\<not> text_type ''checkbox''" "\<not> text_type ''radio''"
  "\<not> text_type ''submit''" "\<not> text_type ''image''" "\<not> text_type ''file''" "\<not> text_type ''select-one''"
  "\<not> text_type ''select-multiple''" "\<not> text_type ''textarea''"
  by code_simp+

lemma find_none: "List.find P xs = None \<longleftrightarrow> (\<forall>x\<in>set xs. \<not> P x)"
  by (auto simp: find_None_iff)

lemma selected_index_unselected: "selected_index (unselect_options x) = None"
  by (auto simp: selected_index_def unselect_options_def find_none)

lemma clear_element_keeps [simp]:
  "fl_id (clear_element h x) = fl_id x" "fl_tag (clear_element h x) = fl_tag x" "fl_type (clear_element h x) = fl_type x"
  "fl_name (clear_element h x) = fl_name x" "fl_disabled (clear_element h x) = fl_disabled x"
  by (simp_all add: clear_element_def clear_field_def unselect_options_def split: include_hidden.split)

lemma clear_element_other: "\<not> clearable x \<Longrightarrow> clear_element HiddenNo x = x"
  by (auto simp: clear_element_def clear_field_def clearable_def)

lemma clearForm_clk [simp]:
  "fm_clk (clearForm h fm) = fm_clk fm" "image_pairs (clearForm h fm) = image_pairs fm"
  by (simp_all add: clearForm_def image_pairs_def fun_eq_iff)

lemma field_pairs_form: "field_pairs fileapi semantic (clearForm h fm) x = field_pairs fileapi semantic fm x"
  by (simp only: field_pairs_def clearForm_clk)

lemma text_type_other:
  assumes "text_type t"
  shows "t \<noteq> ''reset''" "t \<noteq> ''button''" "t \<noteq> ''checkbox''" "t \<noteq> ''radio''" "t \<noteq> ''submit''" "t \<noteq> ''image''" "t \<noteq> ''file''"
  using assms not_text_types by metis+

lemma field_pairs_value:
  assumes "fl_type x \<noteq> ''image''" and "fl_type x = ''file'' \<longrightarrow> fl_files x = []"
    and "\<not> (fl_name x = [] \<or> fl_disabled x) \<Longrightarrow> field_value (fm_clk fm) True x = (if b then VNull else VText [])"
    and "b \<longrightarrow> fl_type x \<noteq> ''file''"
  shows "field_pairs fileapi semantic fm x = (if fl_name x = [] \<or> fl_disabled x \<or> b then [] else [(fl_name x, DText [])])"
  using assms by (cases b) (simp_all add: field_pairs_def Let_def)

lemma field_value_blank:
  assumes "fl_value x = []" and "fl_tag x \<noteq> ''select''" and "\<not> (fl_name x = [] \<or> fl_disabled x)"
    and "fl_type x \<notin> {''reset'', ''button'', ''checkbox'', ''radio'', ''submit'', ''image''}"
  shows "field_value clk True x = VText []"
  using assms by (simp add: field_value_def field_val_def unsuccessful_def)

lemma field_pairs_cleared:
  assumes "clearable x" and "control_wf x"
  shows "field_pairs fileapi semantic fm (clear_element HiddenNo x) = blank_pairs x"
proof -
  consider "fl_tag x = ''select''" "fl_type x = ''select-one'' \<or> fl_type x = ''select-multiple''"
    | "fl_tag x = ''textarea''" "fl_type x = ''textarea''"
    | "fl_tag x = ''input''" "text_type (fl_type x)"
    | "fl_tag x = ''input''" "fl_type x = ''checkbox'' \<or> fl_type x = ''radio''"
    | "fl_tag x = ''input''" "fl_type x = ''file''"
    using assms by (auto simp: clearable_def control_wf_def)
  then show ?thesis
  proof cases
    case 1
    then have c: "clear_element HiddenNo x = unselect_options x"
      by (auto simp: clear_element_def clear_field_def not_text_types)
    have "field_value (fm_clk fm) True (unselect_options x) = VNull"
      using 1(1) selected_index_unselected [of x] by (simp add: field_value_def unsuccessful_def) (simp add: unselect_options_def)
    then show ?thesis using 1 field_pairs_value [of "unselect_options x" fm True]
      by (auto simp: c [symmetric] blank_pairs_def)
  next
    case 2
    then have c: "clear_element HiddenNo x = x\<lparr>fl_value := []\<rparr>" by (simp add: clear_element_def clear_field_def)
    show ?thesis using 2 field_pairs_value [of "x\<lparr>fl_value := []\<rparr>" fm False] field_value_blank [of "x\<lparr>fl_value := []\<rparr>"]
      by (simp add: c blank_pairs_def)
  next
    case 3
    then have c: "clear_element HiddenNo x = x\<lparr>fl_value := []\<rparr>" by (simp add: clear_element_def clear_field_def)
    show ?thesis
      using 3(1) text_type_other [OF 3(2)] field_pairs_value [of "x\<lparr>fl_value := []\<rparr>" fm False]
        field_value_blank [of "x\<lparr>fl_value := []\<rparr>"]
      by (simp add: c blank_pairs_def)
  next
    case 4
    then have c: "clear_element HiddenNo x = x\<lparr>fl_checked := False\<rparr>"
      by (auto simp: clear_element_def clear_field_def not_text_types)
    have "field_value (fm_clk fm) True (x\<lparr>fl_checked := False\<rparr>) = VNull"
      using 4(2) by (auto simp: field_value_def unsuccessful_def)
    then show ?thesis using 4 field_pairs_value [of "x\<lparr>fl_checked := False\<rparr>" fm True] by (auto simp: c blank_pairs_def)
  next
    case 5
    then have c: "clear_element HiddenNo x = x\<lparr>fl_value := [], fl_files := []\<rparr>"
      by (simp add: clear_element_def clear_field_def not_text_types)
    show ?thesis
      using 5 field_pairs_value [of "x\<lparr>fl_value := [], fl_files := []\<rparr>" fm False]
        field_value_blank [of "x\<lparr>fl_value := [], fl_files := []\<rparr>"]
      by (simp add: c blank_pairs_def)
  qed
qed

lemma field_pairs_clear_element:
  "control_wf x \<Longrightarrow>
   field_pairs fileapi semantic (clearForm HiddenNo fm) (clear_element HiddenNo x) =
     (if clearable x then blank_pairs x else field_pairs fileapi semantic fm x)"
  by (simp add: field_pairs_form field_pairs_cleared clear_element_other)

lemma find_map: "List.find P (map g xs) = map_option g (List.find (P \<circ> g) xs)"
  by (induction xs) auto

lemma image_not_cleared: "control_wf x \<Longrightarrow> fl_type x = ''image'' \<Longrightarrow> clear_element HiddenNo x = x"
  by (rule clear_element_other) (auto simp: clearable_def control_wf_def not_text_types)

lemma clicked_image_clear:
  assumes "list_all control_wf (fm_fields fm)"
  shows "clicked_image_pairs (clearForm HiddenNo fm) = clicked_image_pairs fm"
proof (cases "fm_clk fm")
  case (Some c)
  have fields: "fm_fields (clearForm HiddenNo fm) = map (clear_element HiddenNo) (fm_fields fm)"
    by (simp add: clearForm_element)
  show ?thesis
  proof (cases "List.find (\<lambda>x. fl_id x = c) (fm_fields fm)")
    case None
    then show ?thesis using Some by (simp add: clicked_image_pairs_def fields find_map comp_def)
  next
    case (Some x)
    then have "control_wf x" using assms by (auto simp: list_all_iff find_Some_iff)
    with Some \<open>fm_clk fm = Some c\<close> image_not_cleared [of x] show ?thesis
      by (auto simp: clicked_image_pairs_def fields find_map comp_def)
  qed
qed (simp add: clicked_image_pairs_def)

lemma form_elements_clear: "form_elements (clearForm h fm) = map (clear_element h) (form_elements fm)"
  by (simp add: form_elements_def clearForm_element filter_map comp_def)

text \<open>C16: What a cleared form submits: every text field, text area and file input is submitted as empty, selects, check boxes and
  radio buttons contribute nothing, and every other field (buttons, hidden fields, the clicked image) contributes exactly what it
  did before.
\<close>

theorem clearForm_clears:
  assumes "list_all control_wf (fm_fields fm)"
  shows "formToArray fileapi semantic (clearForm HiddenNo fm) =
    concat (map (\<lambda>x. if clearable x then blank_pairs x else field_pairs fileapi semantic fm x)
      (if semantic then fm_fields fm else form_elements fm)) @
    (if semantic then [] else clicked_image_pairs fm)"
proof -
  let ?els = "if semantic then fm_fields fm else form_elements fm"
  have els: "(if semantic then fm_fields (clearForm HiddenNo fm) else form_elements (clearForm HiddenNo fm)) =
      map (clear_element HiddenNo) ?els"
    by (cases semantic) (simp_all add: form_elements_clear, simp add: clearForm_element)
  have "set ?els \<subseteq> set (fm_fields fm)" by (auto simp: form_elements_def)
  then have "map (\<lambda>x. field_pairs fileapi semantic (clearForm HiddenNo fm) (clear_element HiddenNo x)) ?els =
      map (\<lambda>x. if clearable x then blank_pairs x else field_pairs fileapi semantic fm x) ?els"
    using assms by (intro map_cong refl field_pairs_clear_element) (auto simp only: list_all_iff)
  then show ?thesis
    by (simp only: formToArray_def els clicked_image_clear [OF assms] map_map comp_def)
qed

text \<open>A form with a text, a check box, a hidden field and two buttons, the second of which was clicked.\<close>

definition ex_field :: "nat \<Rightarrow> string \<Rightarrow> string \<Rightarrow> string \<Rightarrow> field" where
  "ex_field i tp n v =
     \<lparr>fl_id = i, fl_tag = ''input'', fl_type = tp, fl_type_attr = Some tp, fl_dom_id = [], fl_name = ascii n, fl_value = ascii v,
      fl_value_attr = None, fl_checked = True, fl_disabled = False, fl_options = [], fl_files = [], fl_owned = True,
      fl_defaultValue = [], fl_defaultChecked = False\<rparr>"

definition ex_form :: form where
  "ex_form =
     \<lparr>fm_fields = [ex_field 0 ''text'' ''t'' ''a b'', ex_field 1 ''checkbox'' ''c'' ''1'', ex_field 2 ''hidden'' ''h'' ''k'',
        ex_field 3 ''submit'' ''s'' ''x'', ex_field 4 ''submit'' ''u'' ''y''],
      fm_clk = Some 4, fm_clk_x = 0, fm_clk_y = 0\<rparr>"

theorem clearForm_clears_witness:
  "list_all control_wf (fm_fields ex_form) \<and>
   formToArray True False ex_form =
     [(ascii ''t'', DText (ascii ''a b'')), (ascii ''c'', DText (ascii ''1'')), (ascii ''h'', DText (ascii ''k'')),
      (ascii ''u'', DText (ascii ''y''))] \<and>
   formToArray True False (clearForm HiddenNo ex_form) =
     [(ascii ''t'', DText []), (ascii ''h'', DText (ascii ''k'')), (ascii ''u'', DText (ascii ''y''))]"
proof -
  have wf: "list_all control_wf (fm_fields ex_form)" by code_simp
  have "formToArray True False ex_form =
     [(ascii ''t'', DText (ascii ''a b'')), (ascii ''c'', DText (ascii ''1'')), (ascii ''h'', DText (ascii ''k'')),
      (ascii ''u'', DText (ascii ''y''))]" by code_simp
  moreover have "concat (map (\<lambda>x. if clearable x then blank_pairs x else field_pairs True False ex_form x) (form_elements ex_form)) @
      clicked_image_pairs ex_form =
     [(ascii ''t'', DText []), (ascii ''h'', DText (ascii ''k'')), (ascii ''u'', DText (ascii ''y''))]" by code_simp
  ultimately show ?thesis using wf clearForm_clears [OF wf, of True False] by simp
qed

end
