(* ===== verification/Form_Submit.thy ===== *)
theory Form_Submit
  imports Form_Fields
begin

text \<open>
  \<open>jquery/jquery.form.js\<close>, second part: the preparation of a request by \<open>ajaxSubmit\<close> with its hooks, the callbacks on success,
  the binding of a form by \<open>ajaxForm\<close> and the handlers of \<open>submit\<close> and \<open>click\<close>. What the page and the hooks of the caller answer
  are arguments; the hooks may change the array of pairs, not the options. The request is what is handed to \<open>$.ajax\<close>, or to the
  upload through a frame (theory \<open>Form_Upload\<close>).
\<close>

subsection \<open>Options and requests\<close>

record ajax_options =
  aj_type :: "units option"
  aj_url :: "units option"
  aj_data :: "pair list option"
  aj_semantic :: bool
  aj_resetForm :: bool
  aj_clearForm :: bool
  aj_includeHidden :: include_hidden
  aj_iframe :: "bool option"
  aj_dataType :: "units option"
  aj_target :: bool
  aj_replaceTarget :: bool
  aj_success :: bool
  aj_delegation :: bool
  aj_veto :: bool                            \<comment> \<open>a \<open>form-pre-serialize\<close> listener vetoes\<close>
  aj_beforeSerialize :: bool                 \<comment> \<open>the hook does not answer \<open>false\<close>\<close>
  aj_beforeSubmit :: "pair list \<Rightarrow> pair list option"   \<comment> \<open>the array as the hook leaves it, or refusal\<close>
  aj_validate :: bool                        \<comment> \<open>no \<open>form-submit-validate\<close> listener vetoes\<close>

text \<open>What a form answers for a property: a text, an element that the name of a field puts there, or nothing.\<close>

datatype prop_value = PText units | PElement | PMissing

record form_page =
  fp_href :: units
  fp_hasProp :: bool
  fp_method :: "prop_value \<times> units option"   \<comment> \<open>property and attribute \<open>method\<close>\<close>
  fp_action :: "prop_value \<times> units option"
  fp_enctype :: "units option"
  fp_encoding :: "units option"
  fp_fileapi :: bool
  fp_formdata :: bool

datatype transport = Plain | FileXhr "(units \<times> pdata) list" | Frame

record ajax_request =
  ar_url :: "units option"
  ar_type :: units
  ar_data :: "units option"
  ar_transport :: transport

definition attr2 :: "form_page \<Rightarrow> prop_value \<times> units option \<Rightarrow> units option" where
  "attr2 pg pa = (if \<not> fp_hasProp pg then snd pa else (case fst pa of PText s \<Rightarrow> Some s | _ \<Rightarrow> snd pa))"

text \<open>\<open>a || b\<close> for texts that may be missing.\<close>

definition or_text :: "units option \<Rightarrow> units option \<Rightarrow> units option" where
  "or_text a b = (if a = None \<or> a = Some [] then b else a)"

definition trim_ws :: "units \<Rightarrow> units" where
  "trim_ws s = rev (dropWhile is_ws (rev (dropWhile is_ws s)))"

definition submit_method :: "form_page \<Rightarrow> ajax_options \<Rightarrow> units option" where
  "submit_method pg ob = or_text (aj_type ob) (attr2 pg (fp_method pg))"

text \<open>The address: of the options, of the form or of the page, without its fragment; \<open>None\<close> is \<open>undefined\<close>.\<close>

definition submit_url :: "form_page \<Rightarrow> ajax_options \<Rightarrow> units option" where
  "submit_url pg ob =
     (let action = or_text (aj_url ob) (attr2 pg (fp_action pg));
          trimmed = (case action of None \<Rightarrow> [] | Some u \<Rightarrow> trim_ws u);
          url = (if trimmed = [] then fp_href pg else trimmed);
          clean = takeWhile (\<lambda>u. u \<noteq> 35) url
      in case aj_url ob of
           Some u \<Rightarrow> Some u
         | None \<Rightarrow> if url \<noteq> [] \<and> clean = [] then None else Some clean)"

definition submit_type :: "form_page \<Rightarrow> ajax_options \<Rightarrow> units" where
  "submit_type pg ob =
     (case aj_type ob of
        Some t \<Rightarrow> t
      | None \<Rightarrow> (case or_text (submit_method pg ob) (Some (ascii ''GET'')) of Some t \<Rightarrow> t | None \<Rightarrow> []))"

definition upper_unit :: "nat \<Rightarrow> nat" where
  "upper_unit u = (if 97 \<le> u \<and> u \<le> 122 then u - 32 else u)"

definition is_get :: "units \<Rightarrow> bool" where
  "is_get t \<longleftrightarrow> map upper_unit t = ascii ''GET''"

definition join_queries :: "units \<Rightarrow> units \<Rightarrow> units" where
  "join_queries q qx = (if qx = [] then q else if q = [] then qx else q @ [38] @ qx)"

definition get_url :: "units \<Rightarrow> units \<Rightarrow> units" where
  "get_url url q = url @ (if 63 \<in> set url then [38] else [63]) @ q"

text \<open>\<open>$('input[type=file]:enabled[value!=""]', form)\<close>: an input without the attribute \<open>value\<close> is selected too.\<close>

definition hasFileInputs :: "form \<Rightarrow> bool" where
  "hasFileInputs fm =
     list_ex (\<lambda>x. fl_tag x = ''input'' \<and> fl_type_attr x = Some ''file'' \<and> \<not> fl_disabled x \<and> fl_value_attr x \<noteq> Some [])
       (fm_fields fm)"

definition multipart :: "form_page \<Rightarrow> bool" where
  "multipart pg \<longleftrightarrow>
     fp_enctype pg = Some (ascii ''multipart/form-data'') \<or> fp_encoding pg = Some (ascii ''multipart/form-data'')"

subsection \<open>Submitting\<close>

text \<open>\<open>fileUploadXhr(a)\<close>: the form data are the pairs and the extra data, the method is \<open>POST\<close> unless one is given.\<close>

definition fileUploadXhr :: "form_page \<Rightarrow> ajax_options \<Rightarrow> pair list \<Rightarrow> units option \<Rightarrow> form_error + ajax_request option" where
  "fileUploadXhr pg ob a url =
     (case (case aj_data ob of None \<Rightarrow> Some [] | Some d \<Rightarrow> deepSerialize d) of
        None \<Rightarrow> Inl BadUri
      | Some extra \<Rightarrow>
          Inr (Some \<lparr>ar_url = url,
            ar_type = (case or_text (submit_method pg ob) (Some (ascii ''POST'')) of Some t \<Rightarrow> t | None \<Rightarrow> []),
            ar_data = None,
            ar_transport = FileXhr (a @ map (\<lambda>(n, v). (n, DText v)) extra)\<rparr>))"

text \<open>The end of \<open>ajaxSubmit\<close>: the way the request is sent.\<close>

definition send_request ::
  "form_page \<Rightarrow> ajax_options \<Rightarrow> form \<Rightarrow> pair list \<Rightarrow> units option \<Rightarrow> units option \<Rightarrow> form_error + ajax_request option" where
  "send_request pg ob fm a url data =
     (let upload = hasFileInputs fm \<or> multipart pg;
          fileAPI = fp_fileapi pg \<and> fp_formdata pg;
          type = submit_type pg ob
      in if aj_iframe ob \<noteq> Some False \<and> (aj_iframe ob = Some True \<or> upload \<and> \<not> fileAPI) then
           Inr (Some \<lparr>ar_url = url, ar_type = type, ar_data = data, ar_transport = Frame\<rparr>)
         else if upload \<and> fileAPI then fileUploadXhr pg ob a url
         else Inr (Some \<lparr>ar_url = url, ar_type = type, ar_data = data, ar_transport = Plain\<rparr>))"

text \<open>The middle: the query goes into the address of a \<open>GET\<close> request, otherwise it is the data.\<close>

definition place_query ::
  "form_page \<Rightarrow> ajax_options \<Rightarrow> form \<Rightarrow> pair list \<Rightarrow> units \<Rightarrow> form_error + ajax_request option" where
  "place_query pg ob fm a q =
     (if is_get (submit_type pg ob) then
        (case submit_url pg ob of
           None \<Rightarrow> Inl NoUrl
         | Some url \<Rightarrow> send_request pg ob fm a (Some (get_url url q)) None)
      else send_request pg ob fm a (submit_url pg ob) (Some q))"

text \<open>\<open>ajaxSubmit\<close>: \<open>Inr None\<close> when nothing is selected or a hook stops the submission, otherwise the request.\<close>

definition ajaxSubmit :: "form_page \<Rightarrow> ajax_options \<Rightarrow> form option \<Rightarrow> form_error + ajax_request option" where
  "ajaxSubmit pg ob sel =
     (case sel of
        None \<Rightarrow> Inr None
      | Some fm \<Rightarrow>
          if aj_veto ob \<or> \<not> aj_beforeSerialize ob then Inr None
          else
            (case (case aj_data ob of None \<Rightarrow> Some [] | Some d \<Rightarrow> param d) of
               None \<Rightarrow> Inl BadUri
             | Some qx \<Rightarrow>
                 (case aj_beforeSubmit ob (formToArray (fp_fileapi pg) (aj_semantic ob) fm) of
                    None \<Rightarrow> Inr None
                  | Some a \<Rightarrow>
                      if \<not> aj_validate ob then Inr None
                      else (case param a of
                              None \<Rightarrow> Inl BadUri
                            | Some q \<Rightarrow> place_query pg ob fm a (join_queries q qx)))))"

subsection \<open>Callbacks on success\<close>

datatype callback = CbReset | CbClear | CbLoad bool | CbSuccess

definition success_callbacks :: "ajax_options \<Rightarrow> callback list" where
  "success_callbacks ob =
     (if aj_resetForm ob then [CbReset] else []) @ (if aj_clearForm ob then [CbClear] else []) @
     (if (aj_dataType ob = None \<or> aj_dataType ob = Some []) \<and> aj_target ob then [CbLoad (aj_replaceTarget ob)]
      else if aj_success ob then [CbSuccess] else [])"

text \<open>\<open>options.success\<close>: the callbacks in order; a thrown error leaves out the rest. The second result lists the callbacks that
  ran.\<close>

fun run_callbacks :: "ajax_options \<Rightarrow> callback list \<Rightarrow> form \<Rightarrow> (form_error \<times> form + form) \<times> callback list" where
  "run_callbacks ob [] fm = (Inr fm, [])"
| "run_callbacks ob (CbReset # cs) fm =
     (case resetForm fm of
        Inl e \<Rightarrow> (Inl (e, fm), [])
      | Inr fm' \<Rightarrow> (case run_callbacks ob cs fm' of (r, t) \<Rightarrow> (r, CbReset # t)))"
| "run_callbacks ob (CbClear # cs) fm =
     (case run_callbacks ob cs (clearForm (aj_includeHidden ob) fm) of (r, t) \<Rightarrow> (r, CbClear # t))"
| "run_callbacks ob (c # cs) fm = (case run_callbacks ob cs fm of (r, t) \<Rightarrow> (r, c # t))"

definition ajax_success :: "ajax_options \<Rightarrow> form \<Rightarrow> (form_error \<times> form + form) \<times> callback list" where
  "ajax_success ob fm = run_callbacks ob (success_callbacks ob) fm"

subsection \<open>Handlers\<close>

text \<open>A click: the pointer's offset in the clicked element if the browser gives it, its place on the page, and the place of
  the clicked element or of the button. \<open>around\<close> is the closest element around the clicked one with \<open>type=submit\<close>. The timer
  that forgets the button again is the event \<open>forget_clk\<close>; the places it sets to \<open>null\<close> are not read before the next click.\<close>

record click =
  ck_target :: field
  ck_around :: "field option"
  ck_offset :: "(int \<times> int) option"
  ck_page :: "int \<times> int"
  ck_origin :: "int \<times> int"

definition captureSubmittingElement :: "click \<Rightarrow> form \<Rightarrow> form" where
  "captureSubmittingElement e fm =
     (let t = ck_target e;
          target = (if fl_type_attr t = Some ''submit'' \<or> fl_type_attr t = Some ''image'' then Some t else ck_around e)
      in case target of
           None \<Rightarrow> fm
         | Some b \<Rightarrow>
             (let fm' = fm\<lparr>fm_clk := Some (fl_id b)\<rparr>
              in if fl_type b = ''image'' then
                   (case ck_offset e of
                      Some (x, y) \<Rightarrow> fm'\<lparr>fm_clk_x := x, fm_clk_y := y\<rparr>
                    | None \<Rightarrow>
                        fm'\<lparr>fm_clk_x := fst (ck_page e) - fst (ck_origin e), fm_clk_y := snd (ck_page e) - snd (ck_origin e)\<rparr>)
                 else fm'))"

definition forget_clk :: "form \<Rightarrow> form" where
  "forget_clk fm = fm\<lparr>fm_clk := None, fm_clk_x := 0, fm_clk_y := 0\<rparr>"

text \<open>The handlers of a form, with the event and the namespace they are bound under; a foreign handler may prevent the default
  action.\<close>

datatype handler = HDoAjaxSubmit ajax_options | HCapture ajax_options | HForeign bool

record binding =
  bd_event :: string
  bd_ns :: string
  bd_handler :: handler

definition plugin_binding :: "binding \<Rightarrow> bool" where
  "plugin_binding b \<longleftrightarrow> (bd_event b = ''submit'' \<or> bd_event b = ''click'') \<and> bd_ns b = ''form-plugin''"

definition ajaxFormUnbind :: "binding list \<Rightarrow> binding list" where
  "ajaxFormUnbind bs = filter (\<lambda>b. \<not> plugin_binding b) bs"

definition plugin_bindings :: "ajax_options \<Rightarrow> binding list" where
  "plugin_bindings ob =
     [\<lparr>bd_event = ''submit'', bd_ns = ''form-plugin'', bd_handler = HDoAjaxSubmit ob\<rparr>,
      \<lparr>bd_event = ''click'', bd_ns = ''form-plugin'', bd_handler = HCapture ob\<rparr>]"

text \<open>The forms a selector matches with their handlers, the handlers the document has for that selector, and the calls that wait
  for the document.\<close>

record form_host =
  fh_forms :: "binding list list"
  fh_document :: "binding list"
  fh_ready :: bool
  fh_selector :: bool
  fh_waiting :: "ajax_options list"

text \<open>\<open>.off(event, selector, handler)\<close> removes only the handlers of the plug-in itself.\<close>

definition own_handler :: "binding \<Rightarrow> bool" where
  "own_handler b \<longleftrightarrow> plugin_binding b \<and>
     (case bd_handler b of
        HDoAjaxSubmit _ \<Rightarrow> bd_event b = ''submit'' | HCapture _ \<Rightarrow> bd_event b = ''click'' | HForeign _ \<Rightarrow> False)"

definition ajaxForm :: "ajax_options \<Rightarrow> form_host \<Rightarrow> form_host" where
  "ajaxForm ob h =
     (if \<not> aj_delegation ob \<and> fh_forms h = [] then
        (if \<not> fh_ready h \<and> fh_selector h then h\<lparr>fh_waiting := fh_waiting h @ [ob]\<rparr> else h)
      else if aj_delegation ob then
        h\<lparr>fh_document := filter (\<lambda>b. \<not> own_handler b) (fh_document h) @ plugin_bindings ob\<rparr>
      else h\<lparr>fh_forms := map (\<lambda>bs. ajaxFormUnbind bs @ plugin_bindings ob) (fh_forms h)\<rparr>)"

text \<open>The document becomes ready: the selector matches the forms that are there now, and the waiting calls are made.\<close>

definition document_ready :: "binding list list \<Rightarrow> form_host \<Rightarrow> form_host" where
  "document_ready forms h = fold ajaxForm (fh_waiting h) (h\<lparr>fh_forms := forms, fh_ready := True, fh_waiting := []\<rparr>)"

text \<open>\<open>doAjaxSubmit\<close>: nothing for a cancelled event; otherwise the default is prevented and the form submitted.\<close>

definition doAjaxSubmit ::
  "form_page \<Rightarrow> ajax_options \<Rightarrow> form \<Rightarrow> bool \<Rightarrow> bool \<times> (form_error + ajax_request option) option" where
  "doAjaxSubmit pg ob fm prevented = (if prevented then (True, None) else (True, Some (ajaxSubmit pg ob (Some fm))))"

text \<open>A submit event: the handlers in order of binding, those of the document last; the results of the calls of \<open>ajaxSubmit\<close>. A
  thrown error ends the event.\<close>

fun fire_submit :: "form_page \<Rightarrow> form \<Rightarrow> bool \<Rightarrow> binding list \<Rightarrow> bool \<times> (form_error + ajax_request option) list" where
  "fire_submit pg fm prevented [] = (prevented, [])"
| "fire_submit pg fm prevented (b # bs) =
     (if bd_event b \<noteq> ''submit'' then fire_submit pg fm prevented bs
      else
        (case bd_handler b of
           HForeign p \<Rightarrow> fire_submit pg fm (prevented \<or> p) bs
         | HCapture _ \<Rightarrow> fire_submit pg fm prevented bs
         | HDoAjaxSubmit ob \<Rightarrow>
             (case doAjaxSubmit pg ob fm prevented of
                (p, None) \<Rightarrow> fire_submit pg fm p bs
              | (p, Some (Inl e)) \<Rightarrow> (p, [Inl e])
              | (p, Some (Inr r)) \<Rightarrow> (case fire_submit pg fm p bs of (p', rs) \<Rightarrow> (p', Inr r # rs)))))"

definition submit_event :: "form_page \<Rightarrow> form \<Rightarrow> form_host \<Rightarrow> nat \<Rightarrow> bool \<times> (form_error + ajax_request option) list" where
  "submit_event pg fm h i = fire_submit pg fm False (fh_forms h ! i @ fh_document h)"

subsection \<open>What a request carries\<close>

lemma join_queries_parts:
  "join_queries (js_join [38] (map query_part a)) (js_join [38] (map query_part d)) = js_join [38] (map query_part (a @ d))"
  by (auto simp: join_queries_def js_join_append)

definition extra_pairs :: "ajax_options \<Rightarrow> pair list" where
  "extra_pairs ob = (case aj_data ob of None \<Rightarrow> [] | Some d \<Rightarrow> d)"

text \<open>No hook, listener or veto stops the submission; \<open>a\<close> is the array that \<open>beforeSubmit\<close> leaves.\<close>

definition goes_ahead :: "form_page \<Rightarrow> ajax_options \<Rightarrow> form \<Rightarrow> pair list \<Rightarrow> bool" where
  "goes_ahead pg ob fm a \<longleftrightarrow>
     \<not> aj_veto ob \<and> aj_beforeSerialize ob \<and> aj_validate ob \<and>
     aj_beforeSubmit ob (formToArray (fp_fileapi pg) (aj_semantic ob) fm) = Some a \<and>
     list_all pair_ok a \<and> list_all pair_ok (extra_pairs ob)"

lemma ajaxSubmit_goes_ahead:
  assumes "goes_ahead pg ob fm a"
  shows "ajaxSubmit pg ob (Some fm) = place_query pg ob fm a (js_join [38] (map query_part (a @ extra_pairs ob)))"
proof -
  have "(case aj_data ob of None \<Rightarrow> Some [] | Some d \<Rightarrow> param d) = Some (js_join [38] (map query_part (extra_pairs ob)))"
    using assms by (cases "aj_data ob") (simp_all add: goes_ahead_def extra_pairs_def param_ok)
  then show ?thesis
    using assms join_queries_parts [of a "extra_pairs ob"]
    by (simp add: ajaxSubmit_def goes_ahead_def param_ok)
qed


definition ex_options :: ajax_options where
  "ex_options =
     \<lparr>aj_type = None, aj_url = None, aj_data = Some [(ascii ''k'', DText (ascii ''&''))], aj_semantic = False, aj_resetForm = False,
      aj_clearForm = False, aj_includeHidden = HiddenNo, aj_iframe = None, aj_dataType = None, aj_target = False,
      aj_replaceTarget = False, aj_success = True, aj_delegation = False, aj_veto = False, aj_beforeSerialize = True,
      aj_beforeSubmit = Some, aj_validate = True\<rparr>"

definition ex_page :: form_page where
  "ex_page =
     \<lparr>fp_href = ascii ''h'', fp_hasProp = True, fp_method = (PText (ascii ''get''), None), fp_action = (PText (ascii ''u?v#w''), None),
      fp_enctype = None, fp_encoding = None, fp_fileapi = True, fp_formdata = True\<rparr>"


text \<open>A submission that a hook stops sends nothing.\<close>

lemma ajaxSubmit_stopped:
  assumes "aj_veto ob \<or> \<not> aj_beforeSerialize ob \<or>
      (aj_data ob = None \<and> (\<not> aj_validate ob \<or> aj_beforeSubmit ob (formToArray (fp_fileapi pg) (aj_semantic ob) fm) = None))"
  shows "ajaxSubmit pg ob (Some fm) = Inr None"
  using assms by (auto simp: ajaxSubmit_def split: option.split)

text \<open>The fragment is cut off only from addresses of the form or the page: an address of the options overrides the cleaned one, and
  the query of a \<open>GET\<close> request ends up in its fragment.\<close>

lemma option_url_keeps_fragment:
  "submit_url pg (ex_options\<lparr>aj_url := Some (ascii ''u#w'')\<rparr>) = Some (ascii ''u#w'')" "get_url (ascii ''u#w'') q = ascii ''u#w?'' @ q"
  by (simp_all add: submit_url_def get_url_def Let_def)

subsection \<open>Binding a form\<close>

text \<open>Handlers of the plug-in are bound under its namespace only, each for its event.\<close>

definition binding_wf :: "binding \<Rightarrow> bool" where
  "binding_wf b \<longleftrightarrow> (case bd_handler b of HForeign _ \<Rightarrow> True | _ \<Rightarrow> own_handler b)"

definition host_wf :: "form_host \<Rightarrow> bool" where
  "host_wf h \<longleftrightarrow> list_all (list_all binding_wf) (fh_forms h) \<and> list_all binding_wf (fh_document h)"

lemma plugin_bindings_wf: "list_all binding_wf (plugin_bindings ob)"
  by (simp add: plugin_bindings_def binding_wf_def own_handler_def plugin_binding_def)

lemma filter_wf: "list_all P xs \<Longrightarrow> list_all P (filter Q xs)"
  by (auto simp: list_all_iff)

lemma ajaxForm_wf [inv_intros]: "host_wf h \<Longrightarrow> host_wf (ajaxForm ob h)"
  by (auto simp: host_wf_def ajaxForm_def ajaxFormUnbind_def plugin_bindings_wf filter_wf list.pred_map
      elim!: list.pred_mono_strong)

lemma fire_submit_prevented: "fire_submit pg fm True bs = (True, [])"
  by (induction bs) (auto simp: doAjaxSubmit_def split: handler.split)

definition allows_default :: "binding \<Rightarrow> bool" where
  "allows_default b \<longleftrightarrow> bd_event b = ''submit'' \<longrightarrow> (case bd_handler b of HForeign p \<Rightarrow> \<not> p | _ \<Rightarrow> True)"

lemma fire_submit_foreign:
  "list_all binding_wf bs \<Longrightarrow> list_all (\<lambda>b. \<not> plugin_binding b \<and> allows_default b) bs \<Longrightarrow>
   fire_submit pg fm False (bs @ cs) = fire_submit pg fm False cs"
  by (induction bs)
    (auto simp: binding_wf_def own_handler_def plugin_binding_def allows_default_def split: handler.splits)

lemma fire_submit_own:
  "fire_submit pg fm False (plugin_bindings ob @ cs) = (True, [ajaxSubmit pg ob (Some fm)])"
  by (auto simp: plugin_bindings_def doAjaxSubmit_def fire_submit_prevented split: sum.split)

text \<open>C17: However often and with whatever options a form was bound before, after \<open>ajaxForm(options)\<close> one submit event calls
  \<open>ajaxSubmit\<close> exactly once, with the latest options, and the browser does not submit the form itself, provided no handler of
  the page cancels the event.
\<close>

theorem ajaxForm_submits_once:
  assumes "host_wf h" and "\<not> aj_delegation ob" and "i < length (fh_forms h)" and "list_all allows_default (fh_forms h ! i)"
  shows "submit_event pg fm (ajaxForm ob (fold ajaxForm obs h)) i = (True, [ajaxSubmit pg ob (Some fm)])"
proof -
  define inv where "inv g \<longleftrightarrow> host_wf g \<and> i < length (fh_forms g) \<and> list_all allows_default (fh_forms g ! i)" for g
  have own: "list_all allows_default (plugin_bindings o')" for o' by (simp add: plugin_bindings_def allows_default_def)
  have keep: "inv (ajaxForm o' g)" if "inv g" for o' g
    using that own ajaxForm_wf [of g o']
    by (auto simp: inv_def ajaxForm_def ajaxFormUnbind_def filter_wf)
  have "inv (fold ajaxForm obs g)" if "inv g" for g using that by (induction obs arbitrary: g) (simp_all add: keep)
  then have i: "inv (fold ajaxForm obs h)" (is "inv ?g") using assms by (simp add: inv_def)
  then have "fh_forms ?g \<noteq> []" by (auto simp: inv_def)
  then have "fh_forms (ajaxForm ob ?g) ! i = ajaxFormUnbind (fh_forms ?g ! i) @ plugin_bindings ob"
    using i assms(2) by (simp add: ajaxForm_def inv_def)
  moreover have "list_all binding_wf (ajaxFormUnbind (fh_forms ?g ! i))"
    unfolding ajaxFormUnbind_def using i by (intro filter_wf) (simp add: inv_def host_wf_def list_all_length)
  moreover have "list_all (\<lambda>b. \<not> plugin_binding b \<and> allows_default b) (ajaxFormUnbind (fh_forms ?g ! i))"
    using i by (auto simp: inv_def ajaxFormUnbind_def list_all_iff)
  ultimately show ?thesis by (simp add: submit_event_def fire_submit_foreign fire_submit_own)
qed

theorem ajaxForm_submits_once_witness:
  "submit_event ex_page ex_form
     (ajaxForm ex_options (ajaxForm (ex_options\<lparr>aj_veto := True\<rparr>)
       \<lparr>fh_forms = [[\<lparr>bd_event = ''submit'', bd_ns = [], bd_handler = HForeign False\<rparr>]], fh_document = [], fh_ready = True,
        fh_selector = True, fh_waiting = []\<rparr>)) 0 = (True, [ajaxSubmit ex_page ex_options (Some ex_form)])"
  using ajaxForm_submits_once
    [of "\<lparr>fh_forms = [[\<lparr>bd_event = ''submit'', bd_ns = [], bd_handler = HForeign False\<rparr>]], fh_document = [], fh_ready = True,
        fh_selector = True, fh_waiting = []\<rparr>" ex_options 0 ex_page ex_form "[ex_options\<lparr>aj_veto := True\<rparr>]"]
  by (simp add: host_wf_def binding_wf_def allows_default_def ex_options_def)

subsection \<open>The clicked button\<close>

text \<open>The button a click leaves is submitted with its name and value, and no other owned button is.\<close>

lemma captured_button_pairs:
  assumes "fl_type_attr (ck_target e) = Some ''submit''" and "fl_type (ck_target e) = ''submit''"
    and "fl_tag (ck_target e) \<noteq> ''select''" and "fl_name (ck_target e) \<noteq> []" and "\<not> fl_disabled (ck_target e)"
  shows "field_pairs fileapi semantic (captureSubmittingElement e fm) (ck_target e) =
    [(fl_name (ck_target e), DText (field_val (ck_target e)))]"
  using assms by (simp add: captureSubmittingElement_def field_pairs_def field_value_def unsuccessful_def)

lemma other_button_pairs:
  assumes "fl_type x = ''submit'' \<or> fl_type x = ''image''" and "fl_owned x" and "fm_clk fm \<noteq> Some (fl_id x)"
  shows "field_pairs fileapi semantic fm x = []"
  using assms by (auto simp: field_pairs_def field_value_def unsuccessful_def Let_def)

lemma other_field_pairs:
  assumes "fm_clk fm = Some c" and "fl_id x \<noteq> c"
  shows "field_pairs fileapi False fm x = field_pairs fileapi False (forget_clk fm) x"
proof -
  have "unsuccessful (Some c) x = unsuccessful None x" using assms(2) by (auto simp: unsuccessful_def)
  then have v: "field_value (Some c) True x = field_value None True x" by (simp add: field_value_def)
  have "fm_clk (forget_clk fm) = None" by (simp add: forget_clk_def)
  with assms(1) v show ?thesis by (simp add: field_pairs_def Let_def del: split_paired_Ex)
qed

text \<open>A click on a submit button followed by the submission: the form sends what it would send without any button, with the
  name and the value of the clicked one at its place, and nothing of the other buttons.\<close>

lemma click_then_submit:
  assumes "fl_type_attr (ck_target e) = Some ''submit''" and "fl_type (ck_target e) = ''submit''"
    and "fl_tag (ck_target e) \<noteq> ''select''" and "fl_name (ck_target e) \<noteq> []" and "\<not> fl_disabled (ck_target e)"
    and "ck_target e \<in> set (fm_fields fm)" and "distinct (map fl_id (fm_fields fm))"
  shows "formToArray fileapi False (captureSubmittingElement e fm) =
    concat (map (\<lambda>x. if fl_id x = fl_id (ck_target e) then [(fl_name x, DText (field_val x))]
      else field_pairs fileapi False (forget_clk fm) x) (form_elements fm))"
proof -
  let ?b = "ck_target e" let ?f = "captureSubmittingElement e fm"
  have f: "?f = fm\<lparr>fm_clk := Some (fl_id ?b)\<rparr>" using assms(1,2) by (simp add: captureSubmittingElement_def)
  have same: "x = ?b" if "x \<in> set (fm_fields fm)" "fl_id x = fl_id ?b" for x
    using that assms(6,7) by (metis distinct_map inj_onD)
  have "field_pairs fileapi False ?f x =
      (if fl_id x = fl_id ?b then [(fl_name x, DText (field_val x))] else field_pairs fileapi False (forget_clk fm) x)"
    if "x \<in> set (form_elements fm)" for x
  proof (cases "fl_id x = fl_id ?b")
    case True
    then have "x = ?b" using that same by (auto simp: form_elements_def)
    then show ?thesis using captured_button_pairs [OF assms(1-5)] by simp
  next
    case False
    have "forget_clk ?f = forget_clk fm" by (simp add: f forget_clk_def)
    with False other_field_pairs [of ?f "fl_id ?b" x] show ?thesis by (simp add: f)
  qed
  then have pairs: "map (field_pairs fileapi False ?f) (form_elements fm) =
      map (\<lambda>x. if fl_id x = fl_id ?b then [(fl_name x, DText (field_val x))] else field_pairs fileapi False (forget_clk fm) x)
        (form_elements fm)" by simp
  obtain y where y: "List.find (\<lambda>x. fl_id x = fl_id ?b) (fm_fields fm) = Some y"
    using assms(6) by (cases "List.find (\<lambda>x. fl_id x = fl_id ?b) (fm_fields fm)") (auto simp: find_None_iff)
  then have "y \<in> set (fm_fields fm)" "fl_id y = fl_id ?b" by (auto simp: find_Some_iff)
  then have "y = ?b" by (rule same)
  then have "clicked_image_pairs ?f = []" using y assms(2) by (simp add: clicked_image_pairs_def f)
  moreover have "form_elements ?f = form_elements fm" by (simp add: form_elements_def f)
  ultimately show ?thesis by (simp only: formToArray_def if_False pairs append_Nil2)
qed

text \<open>A button without the attribute \<open>type\<close> submits the form in the browser, but its click is not captured.\<close>

lemma plain_button_not_captured:
  "fl_type_attr (ck_target e) = None \<Longrightarrow> ck_around e = None \<Longrightarrow> captureSubmittingElement e fm = fm"
  by (simp add: captureSubmittingElement_def)

text \<open>Two fields that are named \<open>reset\<close> make the callback of a successful request throw.\<close>

lemma reset_two_fields:
  "resetForm (ex_form\<lparr>fm_fields := [ex_field 0 ''text'' ''reset'' [], ex_field 1 ''text'' ''reset'' []]\<rparr>) = Inl NotAFunction"
  by code_simp

end
