(* ===== verification/Form_Upload.thy ===== *)
theory Form_Upload
  imports Form_Submit
begin

text \<open>
  \<open>jquery/jquery.form.js\<close>, third part: \<open>fileUploadIframe\<close>, the upload through a hidden frame that stands in for a request. The
  state is the mock request object, the deferred object, jQuery's counter of active requests, the attributes of the form and a
  trace of what is called; the loading of the frame, the time-out, the failed check for an aborted server and a call of \<open>abort\<close>
  are events. Parsers of JSON and XML, the filter of the caller and global evaluation are arguments.
  The theory shows that an upload settles at most once and completes once, when it settles, what it leaves of the form, and that
  the counter of active requests is not restored by an abort.
\<close>

subsection \<open>Settings and state\<close>

record up_settings =
  us_global :: bool
  us_success :: bool              \<comment> \<open>the callback is given\<close>
  us_error :: bool
  us_complete :: bool
  us_timeout :: bool
  us_iframeTarget :: "units option option"   \<comment> \<open>a frame of the page, with its name\<close>
  us_iframeSrc :: units
  us_dataType :: "units option"
  us_textarea :: bool
  us_url :: units
  us_skipEncodingOverride :: bool
  us_extraData :: "(units \<times> units) list option"
  us_beforeSend :: bool           \<comment> \<open>the hook does not answer \<open>false\<close>\<close>
  us_beforeSend_aborts :: bool    \<comment> \<open>the hook aborts the request\<close>

datatype settled = Resolved "units option" | Rejected string

datatype up_call =
    AjaxStart | AjaxSend | AjaxSuccess | AjaxError | AjaxComplete | AjaxStop
  | CallSuccess | CallError string | CallComplete string

text \<open>The attributes of the form element that the upload sets.\<close>

record form_attrs =
  fa_action :: "units option"
  fa_target :: "units option"
  fa_method :: "units option"
  fa_multipart :: bool

record upload =
  up_aborted :: bool
  up_responseText :: "units option"
  up_status :: xnum
  up_statusText :: units
  up_dataType :: "units option"
  up_processed :: bool            \<comment> \<open>\<open>callbackProcessed\<close>\<close>
  up_timedOut :: bool
  up_domCheckCount :: nat
  up_listening :: bool            \<comment> \<open>\<open>cb\<close> is bound to the loading of the frame\<close>
  up_requeued :: bool             \<comment> \<open>a timer will call \<open>cb\<close> again\<close>
  up_timer :: bool
  up_frame :: bool                \<comment> \<open>the new frame is in the page\<close>
  up_active :: int                \<comment> \<open>\<open>$.active\<close>\<close>
  up_deferred :: "settled list"   \<comment> \<open>calls of \<open>resolve\<close> and \<open>reject\<close>; only the first counts\<close>
  up_trace :: "up_call list"

definition up_call :: "up_call list \<Rightarrow> upload \<Rightarrow> upload" where
  "up_call cs u = u\<lparr>up_trace := up_trace u @ cs\<rparr>"

definition up_settle :: "settled \<Rightarrow> upload \<Rightarrow> upload" where
  "up_settle d u = u\<lparr>up_deferred := up_deferred u @ [d]\<rparr>"

definition fresh_upload :: "up_settings \<Rightarrow> int \<Rightarrow> upload" where
  "fresh_upload s active =
     \<lparr>up_aborted = False, up_responseText = None, up_status = XDec (Dec 0 0), up_statusText = ascii ''n/a'',
      up_dataType = us_dataType s, up_processed = False, up_timedOut = False, up_domCheckCount = 50, up_listening = False,
      up_requeued = False, up_timer = False, up_frame = False, up_active = active, up_deferred = [], up_trace = []\<rparr>"

subsection \<open>Starting\<close>

text \<open>\<open>xhr.abort(status)\<close>\<close>

definition upload_abort :: "up_settings \<Rightarrow> string \<Rightarrow> upload \<Rightarrow> upload" where
  "upload_abort s status u =
     (let e = (if status = ''timeout'' then ''timeout'' else ''aborted'')
      in up_call ((if us_error s then [CallError e] else []) @ (if us_global s then [AjaxError] else []) @
           (if us_complete s then [CallComplete e] else [])) (u\<lparr>up_aborted := True\<rparr>))"

text \<open>The start up to \<open>beforeSend\<close>; \<open>False\<close> when the upload ends there.\<close>

definition upload_begin :: "up_settings \<Rightarrow> int \<Rightarrow> bool \<times> upload" where
  "upload_begin s active =
     (let u = fresh_upload s active;
          u = (if us_global s then (if active = 0 then up_call [AjaxStart] u else u)\<lparr>up_active := active + 1\<rparr> else u);
          u = (if us_global s then up_call [AjaxSend] u else u);
          u = (if us_beforeSend_aborts s then upload_abort s [] u else u)
      in if \<not> us_beforeSend s then
           (False, up_settle (Rejected []) (if us_global s then u\<lparr>up_active := up_active u - 1\<rparr> else u))
         else if up_aborted u then (False, up_settle (Rejected []) u)
         else (True, u))"

text \<open>The data beside the fields: the extra data, the submitting element and the token against forged requests.\<close>

definition submitting_data :: "form \<Rightarrow> (units \<times> units) list" where
  "submitting_data fm =
     (case fm_clk fm of
        None \<Rightarrow> []
      | Some c \<Rightarrow>
          (case List.find (\<lambda>x. fl_id x = c) (fm_fields fm) of
             None \<Rightarrow> []
           | Some x \<Rightarrow>
               if fl_name x \<noteq> [] \<and> \<not> fl_disabled x then
                 (fl_name x, fl_value x) #
                 (if fl_type x = ''image''
                  then [(fl_name x @ ascii ''.x'', ascii (int_str (fm_clk_x fm))), (fl_name x @ ascii ''.y'', ascii (int_str (fm_clk_y fm)))]
                  else [])
               else []))"

definition csrf_data :: "units option \<Rightarrow> units option \<Rightarrow> (units \<times> units) list" where
  "csrf_data csrf_param csrf_token =
     (case (or_text csrf_param None, or_text csrf_token None) of (Some p, Some t) \<Rightarrow> [(p, t)] | _ \<Rightarrow> [])"

definition put_all :: "(units \<times> units) list \<Rightarrow> (units \<times> units) list \<Rightarrow> (units \<times> units) list" where
  "put_all m ps = fold (\<lambda>(k, v) o'. AList.update k v o') ps m"

definition frame_extraData ::
  "up_settings \<Rightarrow> form \<Rightarrow> units option \<Rightarrow> units option \<Rightarrow> (units \<times> units) list" where
  "frame_extraData s fm csrf_param csrf_token =
     put_all (case us_extraData s of None \<Rightarrow> [] | Some d \<Rightarrow> d) (submitting_data fm @ csrf_data csrf_param csrf_token)"

text \<open>\<open>doSubmit\<close>: what the browser is told to submit, and the attributes that remain. \<open>frameName\<close> is the name of the frame,
  \<open>a\<close> and \<open>t\<close> are what \<open>attr2\<close> answers for action and target; a missing action is written back as \<open>undefined\<close>.\<close>

record frame_submission =
  fs_attrs :: form_attrs
  fs_extra :: "(units \<times> units) list"

definition is_post :: "units \<Rightarrow> bool" where
  "is_post m \<longleftrightarrow> index_of (ascii ''POST'') (map upper_unit m) \<noteq> None"

definition doSubmit ::
  "up_settings \<Rightarrow> units option \<Rightarrow> units \<Rightarrow> units option \<Rightarrow> units option \<Rightarrow> (units \<times> units) list \<Rightarrow> form_attrs \<Rightarrow>
     frame_submission \<times> form_attrs" where
  "doSubmit s method frameName t a extra attrs =
     (let nomethod = (method = None \<or> method = Some []);
          b = attrs\<lparr>fa_target := Some frameName\<rparr>;
          b = (if nomethod then b\<lparr>fa_method := Some (ascii ''POST'')\<rparr> else b);
          b = (if a \<noteq> Some (us_url s) then b\<lparr>fa_action := Some (us_url s)\<rparr> else b);
          b = (if \<not> us_skipEncodingOverride s \<and> (nomethod \<or> is_post (the method)) then b\<lparr>fa_multipart := True\<rparr> else b)
      in (\<lparr>fs_attrs = b, fs_extra = extra\<rparr>,
          b\<lparr>fa_action := Some (case a of None \<Rightarrow> ascii ''undefined'' | Some v \<Rightarrow> v),
            fa_target := or_text t None\<rparr>))"

text \<open>The name of the frame: of the target of the settings, if it has one, otherwise the new one.\<close>

definition frame_name :: "up_settings \<Rightarrow> units \<Rightarrow> units" where
  "frame_name s new =
     (case us_iframeTarget s of
        None \<Rightarrow> new
      | Some n \<Rightarrow> (case or_text n (Some new) of Some m \<Rightarrow> m | None \<Rightarrow> new))"

definition upload_submit :: "up_settings \<Rightarrow> upload \<Rightarrow> upload" where
  "upload_submit s u =
     u\<lparr>up_timer := us_timeout s, up_frame := (us_iframeTarget s = None), up_listening := (us_iframeTarget s = None)\<rparr>"

subsection \<open>The answer\<close>

text \<open>What is found in the document of the frame.\<close>

record frame_doc =
  fd_href :: units
  fd_xml :: bool                  \<comment> \<open>it is an XML document\<close>
  fd_parsererror :: bool          \<comment> \<open>its root is \<open>parsererror\<close>\<close>
  fd_blank_body :: bool           \<comment> \<open>its body is missing or empty\<close>
  fd_html :: "units option"       \<comment> \<open>the contents of its root\<close>
  fd_status :: "string option"
  fd_statusText :: "units option"
  fd_textarea :: "(units \<times> string option \<times> units option) option"
  fd_pre :: "units option"
  fd_body_text :: "units option"

record up_browser =
  ub_opera :: bool
  ub_parseJSON :: "units \<Rightarrow> bool"     \<comment> \<open>the text is accepted\<close>
  ub_dataFilter :: "units \<Rightarrow> units option"   \<comment> \<open>the filtered text, or a thrown error; \<open>Some\<close> when there is no filter\<close>
  ub_globalEval :: "units \<Rightarrow> bool"    \<comment> \<open>the script runs without an error\<close>

text \<open>\<open>Number(attribute) || old\<close> and \<open>attribute || old\<close>\<close>

definition emulated_status :: "string option \<Rightarrow> xnum \<Rightarrow> xnum" where
  "emulated_status attr old =
     (let n = (case attr of None \<Rightarrow> XDec (Dec 0 0) | Some t \<Rightarrow> to_number t)
      in if n = XNaN \<or> n = XDec (Dec 0 0) then old else n)"

definition emulated_text :: "units option \<Rightarrow> units \<Rightarrow> units" where
  "emulated_text attr old = (case or_text attr (Some old) of Some t \<Rightarrow> t | None \<Rightarrow> old)"

definition lower_unit :: "nat \<Rightarrow> nat" where
  "lower_unit u = (if 65 \<le> u \<and> u \<le> 90 then u + 32 else u)"

definition lower_type :: "units option \<Rightarrow> units" where
  "lower_type t = map lower_unit (case t of None \<Rightarrow> [] | Some d \<Rightarrow> d)"

definition has_part :: "string \<Rightarrow> units \<Rightarrow> bool" where
  "has_part p t \<longleftrightarrow> index_of (ascii p) t \<noteq> None"

text \<open>The middle of \<open>cb\<close>: the text, the status and the type of the answer.\<close>

definition take_answer :: "up_settings \<Rightarrow> frame_doc \<Rightarrow> upload \<Rightarrow> upload" where
  "take_answer s doc u =
     (let isXml = (up_dataType u = Some (ascii ''xml'') \<or> fd_xml doc);
          u = u\<lparr>up_responseText := fd_html doc\<rparr>;
          u = (if isXml then u\<lparr>up_dataType := Some (ascii ''xml'')\<rparr> else u);
          u = (if fd_html doc \<noteq> None
               then u\<lparr>up_status := emulated_status (fd_status doc) (up_status u),
                      up_statusText := emulated_text (fd_statusText doc) (up_statusText u)\<rparr>
               else u);
          dt = lower_type (up_dataType u);
          scr = (has_part ''json'' dt \<or> has_part ''script'' dt \<or> has_part ''text'' dt)
      in if scr \<or> us_textarea s then
           (case fd_textarea doc of
              Some (v, st, tx) \<Rightarrow>
                u\<lparr>up_responseText := Some v, up_status := emulated_status st (up_status u),
                  up_statusText := emulated_text tx (up_statusText u)\<rparr>
            | None \<Rightarrow>
                if scr then
                  (case fd_pre doc of
                     Some t \<Rightarrow> u\<lparr>up_responseText := Some t\<rparr>
                   | None \<Rightarrow> (case fd_body_text doc of Some t \<Rightarrow> u\<lparr>up_responseText := Some t\<rparr> | None \<Rightarrow> u))
                else u)
         else u)"

text \<open>\<open>httpData\<close>: whether the answer can be read as its type says; the content type is the type of the settings. The filter of
  the caller is applied to texts; for an XML document it is taken to succeed.\<close>

definition httpData :: "up_browser \<Rightarrow> frame_doc \<Rightarrow> upload \<Rightarrow> bool" where
  "httpData br doc u =
     (let dt = lower_type (up_dataType u);
          ct = (case up_dataType u of None \<Rightarrow> [] | Some t \<Rightarrow> t);
          xml = (dt = ascii ''xml'' \<or> dt = [] \<and> has_part ''xml'' ct)
      in if xml then \<not> fd_parsererror doc
         else (case up_responseText u of
                 None \<Rightarrow> True
               | Some t \<Rightarrow>
                   (case ub_dataFilter br t of
                      None \<Rightarrow> False
                    | Some d \<Rightarrow>
                        if dt = ascii ''json'' \<or> dt = [] \<and> has_part ''json'' ct then ub_parseJSON br d
                        else if dt = ascii ''script'' \<or> dt = [] \<and> has_part ''javascript'' ct then ub_globalEval br d
                        else True)))"

definition good_status :: "xnum \<Rightarrow> bool" where
  "good_status n \<longleftrightarrow> (\<not> xless n (XDec (Dec 2 2)) \<and> xless n (XDec (Dec 3 2)) \<and> n \<noteq> XNaN) \<or> n = XDec (Dec 304 0)"

text \<open>The end of \<open>cb\<close>: the calls in the order of \<open>$.ajax\<close>.\<close>

definition finish_upload :: "up_settings \<Rightarrow> string \<Rightarrow> upload \<Rightarrow> upload" where
  "finish_upload s status u =
     (let status = (if up_status u = XDec (Dec 0 0) then status
                    else if good_status (up_status u) then ''success'' else ''error'');
          u = (if status = ''success'' then
                 up_call (if us_global s then [AjaxSuccess] else [])
                   (up_settle (Resolved (up_responseText u)) (up_call (if us_success s then [CallSuccess] else []) u))
               else
                 up_call (if us_global s then [AjaxError] else [])
                   (up_settle (Rejected ''error'') (up_call (if us_error s then [CallError status] else []) u)));
          u = (if us_global s then up_call [AjaxComplete] u else u);
          u = (if us_global s
               then (let u = u\<lparr>up_active := up_active u - 1\<rparr> in if up_active u = 0 then up_call [AjaxStop] u else u)
               else u);
          u = (if us_complete s then up_call [CallComplete status] u else u)
      in u\<lparr>up_processed := True, up_timer := up_timer u \<and> \<not> us_timeout s\<rparr>)"

datatype cb_reason = CbLoaded | CbTimeout | CbServerAbort

text \<open>\<open>cb(e)\<close>; \<open>doc\<close> is \<open>None\<close> when the document of the frame cannot be reached.\<close>

definition upload_cb :: "up_browser \<Rightarrow> up_settings \<Rightarrow> cb_reason \<Rightarrow> frame_doc option \<Rightarrow> upload \<Rightarrow> upload" where
  "upload_cb br s e doc u =
     (if up_aborted u \<or> up_processed u then u
      else
        (case (if doc = None then CbServerAbort else e) of
           CbTimeout \<Rightarrow> up_settle (Rejected ''timeout'') (upload_abort s ''timeout'' u)
         | CbServerAbort \<Rightarrow> up_settle (Rejected ''error'') (upload_abort s ''server abort'' u)
         | CbLoaded \<Rightarrow>
             (case doc of
                None \<Rightarrow> u
              | Some d \<Rightarrow>
                  if fd_href d = us_iframeSrc s \<and> \<not> up_timedOut u then u
                  else
                    (let u = u\<lparr>up_listening := False\<rparr>;
                         isXml = (up_dataType u = Some (ascii ''xml'') \<or> fd_xml d)
                     in if up_timedOut u then finish_upload s ''error'' u
                        else if \<not> isXml \<and> ub_opera br \<and> fd_blank_body d \<and> up_domCheckCount u \<noteq> 1 then
                          u\<lparr>up_domCheckCount := up_domCheckCount u - 1, up_requeued := True\<rparr>
                        else
                          (let u = (if \<not> isXml \<and> ub_opera br \<and> fd_blank_body d then u\<lparr>up_domCheckCount := 0\<rparr> else u);
                               u = take_answer s d u
                           in finish_upload s (if httpData br d u then ''success'' else ''parsererror'') u)))))"

text \<open>The events of a running upload: the frame loads, the timer of a call that waits for the contents fires, the time is up,
  the check fails, the page aborts. The loading is noticed only while \<open>cb\<close> is bound to it. A failed check means that the state of the frame's document cannot be read.\<close>

datatype up_event = Loaded "frame_doc option" | Requeued "frame_doc option" | TimedOut "frame_doc option" | CheckFailed "frame_doc option" | Abort | Cleanup

fun upload_step :: "up_browser \<Rightarrow> up_settings \<Rightarrow> upload \<Rightarrow> up_event \<Rightarrow> upload" where
  "upload_step br s u (Loaded doc) = (if up_listening u then upload_cb br s CbLoaded doc u else u)"
| "upload_step br s u (Requeued doc) = (if up_requeued u then upload_cb br s CbLoaded doc (u\<lparr>up_requeued := False\<rparr>) else u)"
| "upload_step br s u (TimedOut doc) =
     (if up_timer u then upload_cb br s CbTimeout doc (u\<lparr>up_timedOut := True, up_timer := False\<rparr>) else u)"
| "upload_step br s u (CheckFailed doc) = (upload_cb br s CbServerAbort doc u)\<lparr>up_timer := False\<rparr>"
| "upload_step br s u Abort = upload_abort s [] u"
| "upload_step br s u Cleanup = (if up_processed u \<and> us_iframeTarget s = None then u\<lparr>up_frame := False\<rparr> else u)"

subsection \<open>One upload settles once\<close>

fun is_complete :: "up_call \<Rightarrow> bool" where
  "is_complete (CallComplete _) = True"
| "is_complete _ = False"

definition completes :: "upload \<Rightarrow> nat" where
  "completes u = length (filter is_complete (up_trace u))"

definition aborts :: "up_event list \<Rightarrow> nat" where
  "aborts es = length (filter (\<lambda>e. e = Abort) es)"

text \<open>\<open>n\<close> is the number of calls of \<open>abort\<close> by the page, \<open>active\<close> the counter before the upload.\<close>

definition up_ok :: "up_settings \<Rightarrow> int \<Rightarrow> nat \<Rightarrow> upload \<Rightarrow> bool" where
  "up_ok s active n u \<longleftrightarrow>
     length (up_deferred u) \<le> 1 \<and>
     (\<not> up_aborted u \<and> \<not> up_processed u \<longrightarrow> up_deferred u = []) \<and>
     (up_processed u \<longrightarrow> up_deferred u \<noteq> []) \<and>
     (us_complete s \<longrightarrow> completes u = n + length (up_deferred u)) \<and>
     (us_global s \<longrightarrow> up_active u = active + (if up_processed u then 0 else 1)) \<and>
     (\<not> up_processed u \<longrightarrow> 0 < up_domCheckCount u \<and> up_domCheckCount u \<le> 50)"

lemma up_ok_timer [simp]:
  "up_ok s active n (u\<lparr>up_timer := b\<rparr>) = up_ok s active n u" "up_ok s active n (u\<lparr>up_timedOut := c\<rparr>) = up_ok s active n u"
  "up_ok s active n (u\<lparr>up_frame := d\<rparr>) = up_ok s active n u" "up_ok s active n (u\<lparr>up_listening := d\<rparr>) = up_ok s active n u"
  "up_ok s active n (u\<lparr>up_requeued := d\<rparr>) = up_ok s active n u"
  by (simp_all add: up_ok_def completes_def)

lemma abort_up_ok: "up_ok s active n u \<Longrightarrow> up_ok s active (Suc n) (upload_abort s st u)"
  by (auto simp: up_ok_def upload_abort_def up_call_def completes_def Let_def)

lemma abort_settle_up_ok:
  assumes "up_ok s active n u" and "\<not> up_aborted u" and "\<not> up_processed u"
  shows "up_ok s active n (up_settle d (upload_abort s st u))"
  using assms by (auto simp: up_ok_def upload_abort_def up_settle_def up_call_def completes_def Let_def)

lemma take_answer_keeps [simp]:
  "up_aborted (take_answer s d u) = up_aborted u" "up_processed (take_answer s d u) = up_processed u"
  "up_deferred (take_answer s d u) = up_deferred u" "up_trace (take_answer s d u) = up_trace u"
  "up_active (take_answer s d u) = up_active u" "up_domCheckCount (take_answer s d u) = up_domCheckCount u"
  by (simp_all add: take_answer_def Let_def split: option.split prod.split)

lemma finish_upload_result:
  assumes "up_deferred u = []"
  shows "up_processed (finish_upload s st u)" "length (up_deferred (finish_upload s st u)) = 1"
    "up_aborted (finish_upload s st u) = up_aborted u"
    "us_global s \<Longrightarrow> up_active (finish_upload s st u) = up_active u - 1"
    "us_complete s \<Longrightarrow> completes (finish_upload s st u) = Suc (completes u)"
  using assms by (simp_all add: finish_upload_def Let_def up_call_def up_settle_def completes_def)

lemma finish_up_ok:
  assumes "\<not> up_processed u" and "up_deferred u = []" and "us_complete s \<longrightarrow> completes u = n"
    and "us_global s \<longrightarrow> up_active u = active + 1"
  shows "up_ok s active n (finish_upload s st u)"
  using finish_upload_result [OF assms(2), of s st] assms by (auto simp: up_ok_def)

lemma cb_up_ok: "up_ok s active n u \<Longrightarrow> up_ok s active n (upload_cb br s e doc u)"
proof (cases "up_aborted u \<or> up_processed u")
  case False
  assume ok: "up_ok s active n u"
  then have u: "up_deferred u = []" "us_complete s \<longrightarrow> completes u = n" "us_global s \<longrightarrow> up_active u = active + 1"
      "\<not> up_processed u"
    using False by (auto simp: up_ok_def)
  have fin: "up_ok s active n (finish_upload s st (take_answer s d (u\<lparr>up_listening := False, up_domCheckCount := k\<rparr>)))"
    for st d k by (rule finish_up_ok) (use u in \<open>simp_all add: completes_def\<close>)
  have fin': "up_ok s active n (finish_upload s st (take_answer s d (u\<lparr>up_listening := False\<rparr>)))" for st d
    by (rule finish_up_ok) (use u in \<open>simp_all add: completes_def\<close>)
  have fin0: "up_ok s active n (finish_upload s st (u\<lparr>up_listening := False\<rparr>))" for st
    by (rule finish_up_ok) (use u in \<open>simp_all add: completes_def\<close>)
  have wait: "up_ok s active n (u\<lparr>up_listening := False, up_domCheckCount := up_domCheckCount u - Suc 0\<rparr>)"
    if "up_domCheckCount u \<noteq> Suc 0" using ok that u(4) by (auto simp: up_ok_def completes_def)
  show ?thesis
    using ok False by (auto simp: upload_cb_def Let_def abort_settle_up_ok fin fin' fin0 wait split: cb_reason.split option.split)
qed (simp add: upload_cb_def)

lemma step_up_ok:
  "up_ok s active n u \<Longrightarrow> up_ok s active (n + aborts [e]) (upload_step br s u e)"
  by (cases e) (auto simp: aborts_def abort_up_ok cb_up_ok)

lemma run_up_ok: "up_ok s active 0 u \<Longrightarrow> up_ok s active (aborts es) (foldl (upload_step br s) u es)"
proof (induction es rule: rev_induct)
  case (snoc e es)
  then show ?case using step_up_ok [where n = "aborts es" and br = br and e = e] by (simp add: aborts_def)
qed (simp add: aborts_def)

lemma start_up_ok:
  assumes "fst (upload_begin s active)"
  shows "up_ok s active 0 (upload_submit s (snd (upload_begin s active)))"
  using assms
  by (auto simp: upload_begin_def Let_def upload_submit_def up_ok_def fresh_upload_def up_call_def up_settle_def completes_def
      upload_abort_def split: if_splits)

text \<open>C15: Whatever happens to an upload through a frame (the frame loads any document, any number of times, is unreachable, the time
  runs out, the server aborts, the page calls \<open>abort\<close>), its promise is settled at most once, and \<open>complete\<close> is called once for
  that and once per call of \<open>abort\<close>. The counter of active requests is restored exactly when an answer was processed: an upload
  that ended by a time-out or an abort keeps it raised.
\<close>

theorem upload_settles_once:
  assumes "fst (upload_begin s active)"
  shows "let u = foldl (upload_step br s) (upload_submit s (snd (upload_begin s active))) es
    in length (up_deferred u) \<le> 1 \<and>
       (us_complete s \<longrightarrow> completes u = aborts es + length (up_deferred u)) \<and>
       (us_global s \<longrightarrow> up_active u = active + (if up_processed u then 0 else 1))"
  using run_up_ok [OF start_up_ok [OF assms], where br = br and es = es] by (simp add: up_ok_def Let_def)

definition ex_settings :: up_settings where
  "ex_settings =
     \<lparr>us_global = True, us_success = True, us_error = True, us_complete = True, us_timeout = True, us_iframeTarget = None,
      us_iframeSrc = ascii ''about:blank'', us_dataType = None, us_textarea = False, us_url = ascii ''/up'',
      us_skipEncodingOverride = False, us_extraData = None, us_beforeSend = True, us_beforeSend_aborts = False\<rparr>"

definition ex_doc :: frame_doc where
  "ex_doc =
     \<lparr>fd_href = ascii ''/up'', fd_xml = False, fd_parsererror = False, fd_blank_body = False, fd_html = Some (ascii ''ok''),
      fd_status = None, fd_statusText = None, fd_textarea = None, fd_pre = None, fd_body_text = None\<rparr>"

definition ex_browser :: up_browser where
  "ex_browser = \<lparr>ub_opera = False, ub_parseJSON = (\<lambda>_. True), ub_dataFilter = Some, ub_globalEval = (\<lambda>_. True)\<rparr>"

theorem upload_settles_once_witness:
  "fst (upload_begin ex_settings 0) \<and>
   (let u = foldl (upload_step ex_browser ex_settings) (upload_submit ex_settings (snd (upload_begin ex_settings 0)))
      [TimedOut (Some ex_doc), Loaded (Some ex_doc)]
    in length (up_deferred u) \<le> 1 \<and> completes u = length (up_deferred u) \<and> up_active u = (if up_processed u then 0 else 1))"
proof -
  have b: "fst (upload_begin ex_settings 0)" by code_simp
  have a: "aborts [TimedOut (Some ex_doc), Loaded (Some ex_doc)] = 0" by (simp add: aborts_def)
  show ?thesis using upload_settles_once [OF b, of ex_browser "[TimedOut (Some ex_doc), Loaded (Some ex_doc)]"] b unfolding a Let_def
    by (simp add: ex_settings_def)
qed

text \<open>The time-out is such a case: the upload is over and the counter stays raised.\<close>

lemma timeout_keeps_active:
  "let u = foldl (upload_step ex_browser ex_settings) (upload_submit ex_settings (snd (upload_begin ex_settings 0)))
      [TimedOut (Some ex_doc), Loaded (Some ex_doc)]
   in up_deferred u = [Rejected ''timeout''] \<and> up_active u = 1"
  by code_simp

text \<open>One call of \<open>cb\<close> for a document other than the first one processes the answer, or waits for the contents once more.\<close>

lemma loaded_progress:
  assumes "\<not> up_aborted u" and "\<not> up_processed u" and "fd_href d \<noteq> us_iframeSrc s" and "up_deferred u = []"
  shows "up_processed (upload_cb br s CbLoaded (Some d) u) \<or>
    up_domCheckCount u \<noteq> 1 \<and> (let v = upload_cb br s CbLoaded (Some d) u in
      \<not> up_aborted v \<and> \<not> up_processed v \<and> up_deferred v = [] \<and> up_requeued v \<and> up_domCheckCount v = up_domCheckCount u - 1)"
  using assms by (auto simp: upload_cb_def Let_def finish_upload_result)

lemma run_done:
  "up_aborted u \<or> up_processed u \<Longrightarrow> up_processed (foldl (upload_step br s) u (replicate n (Requeued d))) = up_processed u"
proof (induction n arbitrary: u)
  case (Suc n)
  have "up_processed (upload_step br s u (Requeued d)) = up_processed u \<and> up_aborted (upload_step br s u (Requeued d)) = up_aborted u"
    using Suc.prems by (simp add: upload_cb_def)
  then show ?case using Suc.IH [of "upload_step br s u (Requeued d)"] Suc.prems by (simp del: upload_step.simps)
qed simp

lemma requeued_finishes:
  assumes "fd_href d \<noteq> us_iframeSrc s"
  shows "\<not> up_aborted u \<Longrightarrow> \<not> up_processed u \<Longrightarrow> up_deferred u = [] \<Longrightarrow> 0 < up_domCheckCount u \<Longrightarrow> up_domCheckCount u \<le> n \<Longrightarrow>
    up_requeued u \<Longrightarrow> up_processed (foldl (upload_step br s) u (replicate n (Requeued (Some d))))"
proof (induction n arbitrary: u)
  case (Suc n)
  let ?u = "u\<lparr>up_requeued := False\<rparr>" let ?v = "upload_step br s u (Requeued (Some d))"
  have v: "?v = upload_cb br s CbLoaded (Some d) ?u" using Suc.prems by simp
  show ?case
  proof (cases "up_processed ?v")
    case True
    then show ?thesis using run_done [of ?v] by (simp del: upload_step.simps)
  next
    case False
    then have "\<not> up_aborted ?v" "up_deferred ?v = []" "up_domCheckCount ?v = up_domCheckCount u - 1" "up_domCheckCount u \<noteq> 1"
        "up_requeued ?v"
      using loaded_progress [of ?u d s br] Suc.prems assms by (auto simp: Let_def v simp del: upload_step.simps)
    then show ?thesis using Suc.IH [of ?v] False Suc.prems(4,5) by (simp del: upload_step.simps)
  qed
qed simp

text \<open>An answer is processed in the end: when the new frame of a running upload shows a document other than its first one, this
  call of the handler or one of fifty repeated ones settles the promise, also in the browser whose contents arrive late.\<close>

lemma upload_answered:
  assumes "fst (upload_begin s active)" and "us_iframeTarget s = None" and "fd_href d \<noteq> us_iframeSrc s"
  defines "u \<equiv> upload_submit s (snd (upload_begin s active))"
  shows "up_processed (foldl (upload_step br s) u (Loaded (Some d) # replicate 50 (Requeued (Some d))))"
proof -
  have ok: "up_ok s active 0 u" unfolding u_def by (rule start_up_ok [OF assms(1)])
  have u: "\<not> up_aborted u" "\<not> up_processed u" "up_listening u"
    using assms(1,2) by (auto simp: u_def upload_begin_def upload_submit_def fresh_upload_def up_call_def up_settle_def
        upload_abort_def Let_def split: if_splits)
  then have d: "up_deferred u = []" "0 < up_domCheckCount u" "up_domCheckCount u \<le> 50" using ok by (auto simp: up_ok_def)
  let ?v = "upload_cb br s CbLoaded (Some d) u"
  have "upload_step br s u (Loaded (Some d)) = ?v" using u(3) by simp
  moreover have "up_processed (foldl (upload_step br s) ?v (replicate 50 (Requeued (Some d))))"
  proof (cases "up_processed ?v")
    case True
    then show ?thesis using run_done [of ?v] by simp
  next
    case False
    then show ?thesis
      using loaded_progress [OF u(1,2) assms(3) d(1), of br] d by (intro requeued_finishes [OF assms(3)]) (auto simp: Let_def)
  qed
  ultimately show ?thesis by (simp only: foldl_Cons)
qed

lemma upload_answered_example:
  "up_processed (foldl (upload_step ex_browser ex_settings) (upload_submit ex_settings (snd (upload_begin ex_settings 0)))
     (Loaded (Some ex_doc) # replicate 50 (Requeued (Some ex_doc))))"
  by (rule upload_answered) code_simp+

text \<open>With a frame of the page nothing is bound to its loading, so that no answer is ever noticed.\<close>

lemma target_frame_unanswered:
  assumes "us_iframeTarget s = Some n" and "fst (upload_begin s active)"
  shows "upload_step br s (upload_submit s (snd (upload_begin s active))) (Loaded d) = upload_submit s (snd (upload_begin s active))"
  using assms(1) by (simp add: upload_submit_def)

subsection \<open>What the upload leaves of the form\<close>

text \<open>Action and target are as \<open>attr2\<close> answered them before, so the address of the upload does not stay; a form without a method
  stays a \<open>POST\<close> form of multipart data.\<close>

lemma doSubmit_restores:
  assumes "a = Some v" and "fa_action attrs = a" and "fa_target attrs = t" and "t \<noteq> Some []"
  shows "fa_action (snd (doSubmit s m name t a extra attrs)) = fa_action attrs \<and>
    fa_target (snd (doSubmit s m name t a extra attrs)) = fa_target attrs"
  using assms by (cases t) (simp_all add: doSubmit_def Let_def or_text_def)

lemma doSubmit_sends:
  "fa_action (fs_attrs (fst (doSubmit s m name t a extra (attrs\<lparr>fa_action := a\<rparr>)))) = Some (us_url s) \<and>
   fa_target (fs_attrs (fst (doSubmit s m name t a extra attrs))) = Some name"
  by (simp add: doSubmit_def Let_def)

lemma doSubmit_keeps_post:
  "fa_method (snd (doSubmit s None name t a extra attrs)) = Some (ascii ''POST'') \<and>
   (\<not> us_skipEncodingOverride s \<longrightarrow> fa_multipart (snd (doSubmit s None name t a extra attrs)))"
  by (simp add: doSubmit_def Let_def)

text \<open>With a field named \<open>action\<close> in a form without that attribute \<open>attr2\<close> answers nothing, and the form gets the action
  \<open>undefined\<close>.\<close>

lemma doSubmit_undefined_action:
  "fa_action (snd (doSubmit s m name t None extra attrs)) = Some (ascii ''undefined'')"
  by (simp add: doSubmit_def Let_def)

end
