(* ===== verification/Carousel.thy ===== *)
theory Carousel
  imports Js_Number
begin

text \<open>
  \<open>js/tw.new.index.min.0.0.14.js\<close>: the picture carousel \<open>crImgScrollW\<close> and the repeating timer \<open>$Timer\<close>. Intervals of the browser
  are numbers; the firing of an interval, the end of an animation and the user's actions are events. Positions are whole pixels.
  The theory shows that the carousel always stands at a picture, with exactly the switch of that picture marked, that it goes
  round through the pictures, and how often a timer calls its function.
\<close>

subsection \<open>Intervals of the browser\<close>

record intervals =
  iv_running :: "nat list"
  iv_next :: nat

definition set_interval :: "intervals \<Rightarrow> nat \<times> intervals" where
  "set_interval v = (iv_next v, v\<lparr>iv_running := iv_running v @ [iv_next v], iv_next := Suc (iv_next v)\<rparr>)"

text \<open>\<open>clearInterval(h)\<close>; a handle that was never set clears nothing.\<close>

definition clear_interval :: "nat option \<Rightarrow> intervals \<Rightarrow> intervals" where
  "clear_interval h v = v\<lparr>iv_running := filter (\<lambda>i. Some i \<noteq> h) (iv_running v)\<rparr>"

subsection \<open>The carousel\<close>

text \<open>\<open>an_to\<close> is the position the view moves to, \<open>an_wrap\<close> says that it jumps back to the start at the end, \<open>an_index\<close> is the
  picture that is then current.\<close>

record animation =
  an_to :: int
  an_wrap :: bool
  an_index :: nat

record carousel =
  cr_num :: nat                   \<comment> \<open>the number of switches\<close>
  cr_w :: int
  cr_auto :: bool
  cr_now :: nat
  cr_t :: bool                    \<comment> \<open>no movement is under way\<close>
  cr_left :: "int option"         \<comment> \<open>the position of the view, \<open>None\<close> is \<open>auto\<close>\<close>
  cr_on :: "bool list"            \<comment> \<open>the switches with the class of the current one\<close>
  cr_anim :: "animation option"
  cr_pictures :: nat              \<comment> \<open>pictures in the view, the copy of the first included\<close>
  cr_tm :: "nat option"
  cr_intervals :: intervals

definition autoRun :: "carousel \<Rightarrow> carousel" where
  "autoRun c =
     (if cr_auto c then (case set_interval (cr_intervals c) of (h, v) \<Rightarrow> c\<lparr>cr_tm := Some h, cr_intervals := v\<rparr>) else c)"

definition stopRun :: "carousel \<Rightarrow> carousel" where
  "stopRun c = c\<lparr>cr_intervals := clear_interval (cr_tm c) (cr_intervals c)\<rparr>"

text \<open>\<open>swi.eq(i)\<close> of an index past the end is the empty set.\<close>

definition mark_switch :: "nat \<Rightarrow> bool \<Rightarrow> bool list \<Rightarrow> bool list" where
  "mark_switch i b xs = xs[i := b]"

definition change :: "nat \<Rightarrow> carousel \<Rightarrow> carousel" where
  "change f c = c\<lparr>cr_on := mark_switch f True (mark_switch (cr_now c) False (cr_on c)), cr_now := f\<rparr>"

definition changeTo :: "nat \<Rightarrow> carousel \<Rightarrow> carousel" where
  "changeTo h c =
     (if cr_now c = h \<or> \<not> cr_t c then c
      else
        (let g = (case cr_left c of None \<Rightarrow> 0 | Some l \<Rightarrow> l);
             j = g + (int (cr_now c) - int h) * cr_w c;
             k = (j = 0 \<and> g = - ((int (cr_num c) - 1) * cr_w c))
         in c\<lparr>cr_t := False,
              cr_anim := Some \<lparr>an_to = (if k then - (int (cr_num c) * cr_w c) else j), an_wrap = k, an_index = h\<rparr>\<rparr>))"

text \<open>The end of the animation: its callback.\<close>

definition animation_done :: "carousel \<Rightarrow> carousel" where
  "animation_done c =
     (case cr_anim c of
        None \<Rightarrow> c
      | Some a \<Rightarrow>
          (change (an_index a) (c\<lparr>cr_anim := None, cr_left := Some (if an_wrap a then 0 else an_to a)\<rparr>))\<lparr>cr_t := True\<rparr>)"

definition run :: "carousel \<Rightarrow> carousel" where
  "run c = (let f = cr_now c + 1 in changeTo (if f = cr_num c then 0 else f) c)"

definition click_switch :: "nat \<Rightarrow> carousel \<Rightarrow> carousel" where
  "click_switch f c = autoRun (stopRun (changeTo f c))"

text \<open>The constructor; \<open>imgs\<close> pictures, \<open>marked\<close> are the switches the page marks itself. \<open>_initView\<close> appends a copy of the first
  picture, if there is one.\<close>

definition carousel_init :: "nat \<Rightarrow> int option \<Rightarrow> bool option \<Rightarrow> nat \<Rightarrow> bool list \<Rightarrow> intervals \<Rightarrow> carousel" where
  "carousel_init num width auto imgs marked v =
     change 0 (autoRun
       \<lparr>cr_num = num, cr_w = (case width of None \<Rightarrow> 400 | Some w \<Rightarrow> w), cr_auto = (case auto of None \<Rightarrow> True | Some b \<Rightarrow> b),
        cr_now = 0, cr_t = True, cr_left = None, cr_on = marked, cr_anim = None,
        cr_pictures = (if imgs = 0 then 0 else imgs + 1), cr_tm = None, cr_intervals = v\<rparr>)"

datatype carousel_event = Tick nat | ClickSwitch nat | EnterView | LeaveView | AnimationDone

fun carousel_step :: "carousel \<Rightarrow> carousel_event \<Rightarrow> carousel" where
  "carousel_step c (Tick i) = (if i \<in> set (iv_running (cr_intervals c)) then run c else c)"
| "carousel_step c (ClickSwitch f) = (if f < cr_num c then click_switch f c else c)"
| "carousel_step c EnterView = stopRun c"
| "carousel_step c LeaveView = autoRun c"
| "carousel_step c AnimationDone = animation_done c"

subsection \<open>The carousel stands at a picture\<close>

definition place :: "carousel \<Rightarrow> int" where
  "place c = (case cr_left c of None \<Rightarrow> 0 | Some l \<Rightarrow> l)"

text \<open>At rest or moving, the current picture is one of them, its switch is the marked one and the view stands at it; a
  movement leads to the place of its picture, by way of the copy when it closes the circle.\<close>

definition carousel_ok :: "carousel \<Rightarrow> bool" where
  "carousel_ok c \<longleftrightarrow>
     cr_now c < cr_num c \<and> cr_on c = map (\<lambda>i. i = cr_now c) [0..<cr_num c] \<and> place c = - (int (cr_now c) * cr_w c) \<and>
     (cr_t c \<longleftrightarrow> cr_anim c = None) \<and>
     (case cr_anim c of
        None \<Rightarrow> True
      | Some a \<Rightarrow> an_index a < cr_num c \<and>
          (if an_wrap a then an_to a = - (int (cr_num c) * cr_w c) \<and> int (an_index a) * cr_w c = 0
           else an_to a = - (int (an_index a) * cr_w c)))"

lemma change_marks:
  assumes "cr_on c = map (\<lambda>i. i = cr_now c) [0..<cr_num c]" and "cr_now c < cr_num c" and "f < cr_num c"
  shows "cr_on (change f c) = map (\<lambda>i. i = f) [0..<cr_num c]"
  using assms by (auto simp: change_def mark_switch_def list_eq_iff_nth_eq nth_list_update)

lemma interval_parts [simp]:
  "cr_num (autoRun c) = cr_num c" "cr_now (autoRun c) = cr_now c" "cr_on (autoRun c) = cr_on c" "cr_left (autoRun c) = cr_left c"
  "cr_w (autoRun c) = cr_w c" "cr_t (autoRun c) = cr_t c" "cr_anim (autoRun c) = cr_anim c"
  "cr_num (stopRun c) = cr_num c" "cr_now (stopRun c) = cr_now c" "cr_on (stopRun c) = cr_on c" "cr_left (stopRun c) = cr_left c"
  "cr_w (stopRun c) = cr_w c" "cr_t (stopRun c) = cr_t c" "cr_anim (stopRun c) = cr_anim c"
  by (simp_all add: autoRun_def stopRun_def split: prod.split)

lemma interval_ok [inv_intros]: "carousel_ok (autoRun c) = carousel_ok c" "carousel_ok (stopRun c) = carousel_ok c"
  by (simp_all only: carousel_ok_def place_def interval_parts)

lemma changeTo_ok [inv_intros]:
  assumes "carousel_ok c" and "h < cr_num c"
  shows "carousel_ok (changeTo h c)"
proof (cases "cr_now c = h \<or> \<not> cr_t c")
  case False
  have g: "(case cr_left c of None \<Rightarrow> 0 | Some l \<Rightarrow> l) = - (int (cr_now c) * cr_w c)"
    using assms(1) by (simp add: carousel_ok_def place_def)
  have j: "- (int (cr_now c) * cr_w c) + (int (cr_now c) - int h) * cr_w c = - (int h * cr_w c)"
    by (simp add: algebra_simps)
  show ?thesis using False assms unfolding changeTo_def g j Let_def by (simp add: carousel_ok_def place_def)
qed (use assms in \<open>simp add: changeTo_def\<close>)

lemma carousel_run_ok [inv_intros]: "carousel_ok c \<Longrightarrow> carousel_ok (run c)"
  unfolding run_def Let_def by (rule changeTo_ok) (auto simp: carousel_ok_def)

lemma animation_done_ok [inv_intros]: "carousel_ok c \<Longrightarrow> carousel_ok (animation_done c)"
proof (cases "cr_anim c")
  case (Some a)
  assume ok: "carousel_ok c"
  let ?d = "c\<lparr>cr_anim := None, cr_left := Some (if an_wrap a then 0 else an_to a)\<rparr>"
  have "cr_on (change (an_index a) ?d) = map (\<lambda>i. i = an_index a) [0..<cr_num ?d]"
    using ok Some by (intro change_marks) (auto simp: carousel_ok_def)
  then show ?thesis
    using ok Some by (auto simp: carousel_ok_def animation_done_def place_def) (auto simp: change_def)
qed (simp add: animation_done_def)

lemma carousel_step_ok: "carousel_ok c \<Longrightarrow> carousel_ok (carousel_step c e)"
  by (cases e) (auto simp: click_switch_def interval_ok changeTo_ok carousel_run_ok animation_done_ok)

interpretation carousel: step_system carousel_step carousel_ok
  by unfold_locales (rule carousel_step_ok)

lemma carousel_init_ok:
  assumes "0 < num" and "length marked = num" and "list_all Not (tl marked)"
  shows "carousel_ok (carousel_init num width auto imgs marked v)"
proof -
  have "marked[0 := True] = map (\<lambda>i. i = 0) [0..<num]"
  proof (rule nth_equalityI)
    fix i assume "i < length (marked[0 := True])"
    then show "marked[0 := True] ! i = map (\<lambda>i. i = 0) [0..<num] ! i"
      using assms by (cases i) (simp_all add: list_all_length nth_tl)
  qed (use assms in simp)
  then show ?thesis
    using assms by (auto simp: carousel_init_def change_def mark_switch_def carousel_ok_def place_def)
qed

text \<open>C28: Whatever the user and the intervals do, a carousel with at least one switch stands at one of its pictures: at rest the view
  is exactly at the place of the current picture and exactly the switch of that picture is marked; a movement under way ends at the
  place of its picture, also when it closes the circle over the copy of the first picture.
\<close>

theorem carousel_stands_at_picture:
  assumes "0 < num" and "length marked = num" and "list_all Not (tl marked)"
  shows "let c = foldl carousel_step (carousel_init num width auto imgs marked v) es
    in cr_now c < cr_num c \<and> place c = - (int (cr_now c) * cr_w c) \<and> cr_on c = map (\<lambda>i. i = cr_now c) [0..<cr_num c] \<and>
       (let d = animation_done c in cr_t d \<and> cr_anim d = None \<and> place d = - (int (cr_now d) * cr_w d))"
proof -
  have ok: "carousel_ok (foldl carousel_step (carousel_init num width auto imgs marked v) es)" (is "carousel_ok ?c")
    using carousel.run_ok carousel_init_ok [OF assms] by blast
  moreover have "carousel_ok (animation_done ?c)" using ok by (rule animation_done_ok)
  moreover have "cr_anim (animation_done ?c) = None" by (simp add: animation_done_def change_def split: option.split)
  ultimately show ?thesis by (auto simp: carousel_ok_def Let_def)
qed

definition ex_intervals :: intervals where
  "ex_intervals = \<lparr>iv_running = [], iv_next = 1\<rparr>"

theorem carousel_stands_at_picture_witness:
  "(let c = foldl carousel_step (carousel_init 3 (Some 100) None 3 [False, False, False] ex_intervals)
      [ClickSwitch 2, AnimationDone, Tick 2]
    in cr_now c < cr_num c \<and> place c = - (int (cr_now c) * cr_w c) \<and> cr_on c = map (\<lambda>i. i = cr_now c) [0..<cr_num c] \<and>
       (let d = animation_done c in cr_t d \<and> cr_anim d = None \<and> place d = - (int (cr_now d) * cr_w d))) \<and>
   cr_anim (foldl carousel_step (carousel_init 3 (Some 100) None 3 [False, False, False] ex_intervals)
      [ClickSwitch 2, AnimationDone, Tick 2]) = Some \<lparr>an_to = -300, an_wrap = True, an_index = 0\<rparr>"
proof -
  have "cr_anim (foldl carousel_step (carousel_init 3 (Some 100) None 3 [False, False, False] ex_intervals)
      [ClickSwitch 2, AnimationDone, Tick 2]) = Some \<lparr>an_to = -300, an_wrap = True, an_index = 0\<rparr>" by code_simp
  then show ?thesis
    using carousel_stands_at_picture [of 3 "[False, False, False]" "Some 100" None 3 ex_intervals
      "[ClickSwitch 2, AnimationDone, Tick 2]"] by simp
qed

subsection \<open>Going round\<close>

text \<open>One turn: an interval fires and the movement ends.\<close>

definition turn :: "carousel \<Rightarrow> carousel" where
  "turn c = animation_done (run c)"

lemma turn_now:
  assumes "carousel_ok c" and "cr_t c"
  shows "cr_now (turn c) = (cr_now c + 1) mod cr_num c \<and> cr_t (turn c) \<and> cr_num (turn c) = cr_num c"
proof -
  have lt: "cr_now c < cr_num c" and none: "cr_anim c = None" using assms by (auto simp: carousel_ok_def)
  show ?thesis
  proof (cases "cr_num c = 1")
    case True
    then have "run c = c" using lt by (simp add: run_def changeTo_def)
    then show ?thesis using True lt none assms(2) by (simp add: turn_def animation_done_def)
  next
    case False
    let ?f = "if cr_now c + 1 = cr_num c then 0 else cr_now c + 1"
    have "?f \<noteq> cr_now c" using False lt by auto
    moreover have "?f = (cr_now c + 1) mod cr_num c" using lt by auto
    ultimately show ?thesis
      using assms(2) unfolding turn_def run_def Let_def by (simp add: changeTo_def Let_def animation_done_def change_def)
  qed
qed

lemma turn_ok: "carousel_ok c \<Longrightarrow> carousel_ok (turn c)"
  by (simp add: turn_def carousel_run_ok animation_done_ok)

lemma turns:
  assumes "carousel_ok c" and "cr_t c"
  shows "carousel_ok ((turn ^^ n) c) \<and> cr_t ((turn ^^ n) c) \<and> cr_num ((turn ^^ n) c) = cr_num c \<and>
    cr_now ((turn ^^ n) c) = (cr_now c + n) mod cr_num c"
proof (induction n)
  case 0
  then show ?case using assms by (simp add: carousel_ok_def)
next
  case (Suc n)
  then show ?case using turn_now [of "(turn ^^ n) c"] turn_ok [of "(turn ^^ n) c"] by (simp add: mod_Suc_eq)
qed

text \<open>Left alone, the carousel shows the pictures one after the other, for ever: after \<open>n\<close> turns from a state of rest it is at
  rest at the \<open>n\<close>-th picture after the current one, counted round.
\<close>

lemma carousel_goes_round:
  assumes "0 < num" and "length marked = num" and "list_all Not (tl marked)"
  shows "let c = (turn ^^ n) (carousel_init num width auto imgs marked v)
    in cr_now c = n mod num \<and> cr_t c \<and> place c = - (int (n mod num) * cr_w c)"
proof -
  let ?c = "carousel_init num width auto imgs marked v"
  have ok: "carousel_ok ?c" by (rule carousel_init_ok [OF assms])
  have "cr_t ?c" "cr_now ?c = 0" "cr_num ?c = num" by (simp_all add: carousel_init_def change_def)
  with turns [OF ok, of n] show ?thesis by (auto simp: carousel_ok_def Let_def)
qed

lemma carousel_goes_round_example:
  "let c = (turn ^^ 7) (carousel_init 3 None None 3 [True, False, False] ex_intervals)
   in cr_now c = 1 \<and> cr_t c \<and> place c = - cr_w c"
  using carousel_goes_round [of 3 "[True, False, False]" 7 None None 3 ex_intervals] by (simp add: Let_def)

text \<open>Without switches the index is never reset and the view moves away step by step.\<close>

lemma carousel_without_switches:
  "place ((turn ^^ 2) (carousel_init 0 None None 3 [] ex_intervals)) = -800"
  by code_simp

text \<open>A click while the pointer is over the view starts an interval that leaving the view does not know of.\<close>

lemma carousel_second_interval:
  "iv_running (cr_intervals (foldl carousel_step (carousel_init 3 None None 3 [True, False, False] ex_intervals)
     [EnterView, ClickSwitch 1, LeaveView])) = [2, 3]"
  by code_simp

subsection \<open>The timer\<close>

text \<open>\<open>tr_limit\<close> is the third argument of \<open>$Timer\<close>, 0 when it is missing; \<open>tr_calls\<close> counts the calls of the function.\<close>

record timer =
  tr_delay :: int
  tr_limit :: nat
  tr_e :: nat
  tr_a :: "nat option"
  tr_calls :: nat
  tr_intervals :: intervals

definition new_timer :: "int \<Rightarrow> nat \<Rightarrow> intervals \<Rightarrow> timer" where
  "new_timer delay limit v =
     \<lparr>tr_delay = delay, tr_limit = limit, tr_e = 0, tr_a = None, tr_calls = 0, tr_intervals = v\<rparr>"

definition timer_remove :: "timer \<Rightarrow> timer" where
  "timer_remove b = b\<lparr>tr_intervals := clear_interval (tr_a b) (tr_intervals b)\<rparr>"

definition timer_start :: "timer \<Rightarrow> timer" where
  "timer_start b = (case set_interval (tr_intervals b) of (h, v) \<Rightarrow> b\<lparr>tr_a := Some h, tr_intervals := v\<rparr>)"

definition timer_pause :: "timer \<Rightarrow> timer" where
  "timer_pause b = timer_remove b"

definition timer_stop :: "timer \<Rightarrow> timer" where
  "timer_stop b = (timer_remove b)\<lparr>tr_e := 0\<rparr>"

definition timer_setDelay :: "int \<Rightarrow> timer \<Rightarrow> timer" where
  "timer_setDelay g b = timer_start (timer_pause (b\<lparr>tr_delay := g\<rparr>))"

text \<open>An interval of the timer fires.\<close>

definition timer_fire :: "timer \<Rightarrow> timer" where
  "timer_fire b =
     (let b = b\<lparr>tr_calls := Suc (tr_calls b), tr_e := Suc (tr_e b)\<rparr>
      in if tr_limit b \<noteq> 0 \<and> tr_e b = tr_limit b then timer_remove b else b)"

datatype timer_event = Start | Pause | Stop | SetDelay int | Fire nat

fun timer_step :: "timer \<Rightarrow> timer_event \<Rightarrow> timer" where
  "timer_step b Start = timer_start b"
| "timer_step b Pause = timer_pause b"
| "timer_step b Stop = timer_stop b"
| "timer_step b (SetDelay g) = timer_setDelay g b"
| "timer_step b (Fire i) = (if i \<in> set (iv_running (tr_intervals b)) then timer_fire b else b)"

text \<open>The page uses the timer as meant: it starts it only when it does not run, starts it and changes its delay only before the
  last call, and does not stop it.\<close>

fun used_well :: "timer \<Rightarrow> timer_event list \<Rightarrow> bool" where
  "used_well b [] = True"
| "used_well b (e # es) =
     ((case e of
         Start \<Rightarrow> iv_running (tr_intervals b) = [] \<and> (tr_limit b = 0 \<or> tr_e b < tr_limit b)
       | SetDelay _ \<Rightarrow> tr_limit b = 0 \<or> tr_e b < tr_limit b
       | Stop \<Rightarrow> False
       | _ \<Rightarrow> True) \<and> used_well (timer_step b e) es)"

definition timer_ok :: "timer \<Rightarrow> bool" where
  "timer_ok b \<longleftrightarrow>
     (iv_running (tr_intervals b) = [] \<or> (\<exists>h. iv_running (tr_intervals b) = [h] \<and> tr_a b = Some h)) \<and>
     tr_calls b = tr_e b \<and>
     (tr_limit b \<noteq> 0 \<longrightarrow> tr_e b \<le> tr_limit b \<and> (tr_e b = tr_limit b \<longrightarrow> iv_running (tr_intervals b) = []))"

lemma remove_stops: "timer_ok b \<Longrightarrow> iv_running (tr_intervals (timer_remove b)) = []"
  by (auto simp: timer_ok_def timer_remove_def clear_interval_def)

lemma timer_parts [simp]:
  "tr_limit (timer_remove b) = tr_limit b" "tr_e (timer_remove b) = tr_e b" "tr_calls (timer_remove b) = tr_calls b"
  "tr_limit (timer_start b) = tr_limit b" "tr_e (timer_start b) = tr_e b" "tr_calls (timer_start b) = tr_calls b"
  by (simp_all add: timer_remove_def timer_start_def split: prod.split)

lemma start_runs:
  "iv_running (tr_intervals b) = [] \<Longrightarrow> \<exists>h. iv_running (tr_intervals (timer_start b)) = [h] \<and> tr_a (timer_start b) = Some h"
  by (simp add: timer_start_def set_interval_def)

lemma timer_step_ok:
  assumes "timer_ok b" and "used_well b (e # es)"
  shows "timer_ok (timer_step b e)"
proof (cases e)
  case Start
  then show ?thesis using assms start_runs [of b] by (auto simp: timer_ok_def)
next
  case (SetDelay g)
  let ?c = "timer_remove (b\<lparr>tr_delay := g\<rparr>)"
  have "iv_running (tr_intervals ?c) = []" using assms(1) by (intro remove_stops) (simp add: timer_ok_def)
  with SetDelay show ?thesis using assms start_runs [of ?c] by (auto simp: timer_ok_def timer_setDelay_def timer_pause_def)
next
  case (Fire i)
  show ?thesis
  proof (cases "i \<in> set (iv_running (tr_intervals b))")
    case True
    let ?c = "b\<lparr>tr_calls := Suc (tr_calls b), tr_e := Suc (tr_e b)\<rparr>"
    have "iv_running (tr_intervals (timer_remove ?c)) = []"
      using assms(1) by (auto simp: timer_remove_def clear_interval_def timer_ok_def)
    with True Fire assms(1) show ?thesis by (auto simp: timer_ok_def timer_fire_def Let_def)
  qed (use Fire assms in simp)
qed (use assms remove_stops [OF assms(1)] in \<open>auto simp: timer_ok_def timer_pause_def\<close>)

lemma timer_run_ok: "timer_ok b \<Longrightarrow> used_well b es \<Longrightarrow> timer_ok (foldl timer_step b es)"
proof (induction es arbitrary: b)
  case (Cons e es)
  then show ?case using timer_step_ok [of b e es] by simp
qed simp

lemma timer_limit_kept: "tr_limit (foldl timer_step b es) = tr_limit b"
proof (induction es arbitrary: b)
  case (Cons e es)
  have "tr_limit (timer_step b e) = tr_limit b"
    by (cases e) (simp_all add: timer_pause_def timer_stop_def timer_setDelay_def timer_fire_def Let_def)
  with Cons show ?case by simp
qed simp

text \<open>A timer that the page starts only when it does not run, and not again after its last call, calls its function at most as
  often as its limit says, has at most one interval running through any pauses and changes of the delay, and no interval once the
  limit is reached.
\<close>

lemma timer_keeps_limit:
  assumes "used_well (new_timer delay limit \<lparr>iv_running = [], iv_next = n\<rparr>) es" and "0 < limit"
  shows "let b = foldl timer_step (new_timer delay limit \<lparr>iv_running = [], iv_next = n\<rparr>) es
    in tr_calls b \<le> limit \<and> length (iv_running (tr_intervals b)) \<le> 1 \<and> (tr_calls b = limit \<longrightarrow> iv_running (tr_intervals b) = [])"
proof -
  let ?b = "new_timer delay limit \<lparr>iv_running = [], iv_next = n\<rparr>"
  have "timer_ok ?b" using assms(2) by (simp add: timer_ok_def new_timer_def)
  then have "timer_ok (foldl timer_step ?b es)" using assms(1) by (rule timer_run_ok)
  moreover have "tr_limit (foldl timer_step ?b es) = limit" by (simp add: timer_limit_kept new_timer_def)
  ultimately show ?thesis using assms(2) by (auto simp: timer_ok_def Let_def)
qed

lemma timer_keeps_limit_example:
  "used_well (new_timer 5 2 \<lparr>iv_running = [], iv_next = 1\<rparr>) [Start, Fire 1, Pause, Start, Fire 2, Fire 2] \<and>
   (let b = foldl timer_step (new_timer 5 2 \<lparr>iv_running = [], iv_next = 1\<rparr>) [Start, Fire 1, Pause, Start, Fire 2, Fire 2]
    in tr_calls b \<le> 2 \<and> length (iv_running (tr_intervals b)) \<le> 1)"
proof -
  have u: "used_well (new_timer 5 2 \<lparr>iv_running = [], iv_next = 1\<rparr>) [Start, Fire 1, Pause, Start, Fire 2, Fire 2]" by code_simp
  show ?thesis using timer_keeps_limit [OF u] u by (simp add: Let_def)
qed

text \<open>Used otherwise the limit is lost: a timer that is started again after its last call never stops by itself, because its count
  is past the limit it is compared with.\<close>

lemma timer_restarted_runs_on:
  "let b = foldl timer_step (new_timer 5 1 \<lparr>iv_running = [], iv_next = 1\<rparr>) [Start, Fire 1, Start, Fire 2, Fire 2, Fire 2]
   in tr_calls b = 4 \<and> iv_running (tr_intervals b) = [2]"
  by code_simp

end
