(* ===== verification/Passport.thy ===== *)
theory Passport
  imports Json_Text
begin

text \<open>
  \<open>js/tw.new.index.min.0.0.14.js\<close>: the login form \<open>PassportSC\<close>, the list of suggested addresses below its input and the decision
  whether a login is sent. The script extends a library of another site that is not part of the repository; what it calls of that
  library (\<open>strip\<close>, the test for cookies) is an argument, what only paints is left out. Texts are code units.
  The theory shows that the highlighted suggestion is always one of those shown, what is suggested, that exactly one of the two
  password inputs is shown, and when a login is sent.
\<close>

subsection \<open>State\<close>

text \<open>The hint in the input for the name.\<close>

definition hint :: units where
  "hint = [0x6635, 0x79F0, 47, 0x90AE, 0x7BB1, 47, 0x624B, 0x673A, 0x53F7]"

record passport =
  ps_emailInput :: units
  ps_email_blur :: bool           \<comment> \<open>the input has the class of an untouched one\<close>
  ps_passwdInput :: units
  ps_password_shown :: bool
  ps_password1_shown :: bool      \<comment> \<open>the text input that stands in for the password\<close>
  ps_remember :: bool             \<comment> \<open>the link for automatic login is marked\<close>
  ps_shown :: bool                \<comment> \<open>the list of suggestions is displayed\<close>
  ps_anchor :: bool               \<comment> \<open>the element for the list exists\<close>
  ps_items :: "(nat \<times> units) list"
  ps_curDSindex :: "nat option"   \<comment> \<open>\<open>None\<close> is -1\<close>
  ps_emailPostfix :: "units list"
  ps_autopad :: units
  ps_usePostFix :: bool
  ps_email :: units
  ps_eInterval :: bool
  ps_intervalCount :: nat
  ps_maxIntervalCount :: nat
  ps_usePost :: bool
  ps_showEmailInputTip :: bool
  ps_isShowRemPwdMsg :: bool
  ps_isSetFocus :: bool
  ps_cookie :: units              \<comment> \<open>the cookie \<open>pptmpuserid\<close>, empty when there is none\<close>

subsection \<open>Suggestions\<close>

text \<open>The regular expression \<open>/^[\u4e00-\u9fa5,a-zA-Z0-9-_.@]{1,100}$/\<close>\<close>

definition name_unit :: "nat \<Rightarrow> bool" where
  "name_unit u \<longleftrightarrow> (0x4E00 \<le> u \<and> u \<le> 0x9FA5) \<or> (97 \<le> u \<and> u \<le> 122) \<or> (65 \<le> u \<and> u \<le> 90) \<or> is_digit_unit u \<or>
     u \<in> {44, 45, 95, 46, 64}"

definition name_text :: "units \<Rightarrow> bool" where
  "name_text s \<longleftrightarrow> s \<noteq> [] \<and> length s \<le> 100 \<and> list_all name_unit s"

text \<open>The parts before and after the last at sign.\<close>

definition split_name :: "units \<Rightarrow> units \<times> units" where
  "split_name s = (case last_index_of [64] s of None \<Rightarrow> (s, []) | Some h \<Rightarrow> (take h s, drop (h + 1) s))"

definition item_text :: "passport \<Rightarrow> units \<Rightarrow> units \<Rightarrow> bool \<Rightarrow> nat \<Rightarrow> units" where
  "item_text p i y full pos =
     (if y = ascii ''mobile'' \<or> y = ascii ''uniqname'' then i
      else if full then (if ps_usePostFix p then y else take pos y)
      else if ps_usePostFix p then i @ [64] @ y else i)"

definition not_padded :: "passport \<Rightarrow> units \<Rightarrow> bool" where
  "not_padded p d \<longleftrightarrow> ps_autopad p \<noteq> [] \<and> last_index_of d (ps_autopad p) = None"

text \<open>One turn of the loop over the endings: \<open>i\<close> and \<open>m\<close> are the parts of the text, \<open>e\<close> is the domain that a full address has
  already given. The result is the text of the new suggestion, if there is one, and the new \<open>e\<close>.\<close>

definition suggest_full :: "passport \<Rightarrow> units \<Rightarrow> units \<Rightarrow> units \<Rightarrow> nat \<Rightarrow> units option \<times> units" where
  "suggest_full p i e y pos =
     (let x = take pos y; d = drop (pos + 1) y; e' = (if x = i then d else e)
      in if not_padded p d \<or> last_index_of i x \<noteq> Some 0 then (None, e)
         else if y = e' then (None, e')
         else (Some (item_text p i y True pos), e'))"

definition suggest :: "passport \<Rightarrow> units \<Rightarrow> units \<Rightarrow> units \<Rightarrow> units \<Rightarrow> units option \<times> units" where
  "suggest p i m e y =
     (let pos = (case last_index_of [64] y of None \<Rightarrow> 0 | Some k \<Rightarrow> k)
      in if m \<noteq> [] \<and> last_index_of m y \<noteq> Some 0 then (None, e)
         else if pos > 0 then suggest_full p i e y pos
         else if not_padded p y \<or> y = e then (None, e)
         else (Some (item_text p i y False 0), e))"

fun suggestions :: "passport \<Rightarrow> units \<Rightarrow> units \<Rightarrow> units \<Rightarrow> nat \<Rightarrow> units list \<Rightarrow> (nat \<times> units) list" where
  "suggestions p i m e j [] = []"
| "suggestions p i m e j (y # ys) =
     (case suggest p i m e y of
        (None, e') \<Rightarrow> suggestions p i m e' (Suc j) ys
      | (Some t, e') \<Rightarrow> (j, t) # suggestions p i m e' (Suc j) ys)"

text \<open>The endings: for a text that begins with 1, those for telephone numbers.\<close>

definition endings :: "passport \<Rightarrow> units list" where
  "endings p =
     (if ps_emailInput p \<noteq> [] \<and> hd (ps_emailInput p) = 49
      then [ascii ''mobile'', ascii ''qq.com'', ascii ''focus.cn''] @ (if ps_autopad p \<noteq> [] then [ps_autopad p] else [])
      else ps_emailPostfix p)"

text \<open>\<open>fillEmailSelect\<close>; the flag says that it threw a \<open>TypeError\<close>: the last statement reads the first element of the list also
  when it is empty, and without an element for the list nothing can be put there.\<close>

definition fillEmailSelect :: "passport \<Rightarrow> passport \<times> bool" where
  "fillEmailSelect p =
     (if \<not> name_text (ps_emailInput p) then (p\<lparr>ps_shown := False\<rparr>, False)
      else
        (case split_name (ps_emailInput p) of
           (i, m) \<Rightarrow>
             (let items = suggestions p i m [] 0 (endings p); q = p\<lparr>ps_shown := True\<rparr>
              in if items = [] then (p\<lparr>ps_shown := False, ps_curDSindex := None\<rparr>, \<not> ps_anchor p \<or> ps_items p = [])
                 else if \<not> ps_anchor p then (q, True)
                 else (q\<lparr>ps_items := items,
                         ps_curDSindex :=
                           (if ps_curDSindex p \<in> Some ` set (map fst items) then ps_curDSindex p else Some (fst (hd items)))\<rparr>,
                       False))))"

definition downDSindex :: "passport \<Rightarrow> passport" where
  "downDSindex p =
     (if ps_items p = [] then p
      else
        (let c = length (takeWhile (\<lambda>d. Some (fst d) \<noteq> ps_curDSindex p) (ps_items p))
         in p\<lparr>ps_curDSindex := Some (fst (if c \<ge> length (ps_items p) - 1 then ps_items p ! 0 else ps_items p ! (c + 1)))\<rparr>))"

definition findDSindex :: "nat option \<Rightarrow> passport \<Rightarrow> units option" where
  "findDSindex g p = map_option snd (List.find (\<lambda>d. Some (fst d) = g) (ps_items p))"

text \<open>The handler of the pointer moving over a suggestion.\<close>

definition over_item :: "nat \<Rightarrow> passport \<Rightarrow> passport" where
  "over_item j p = p\<lparr>ps_curDSindex := Some j\<rparr>"

definition changePass :: "passport \<Rightarrow> passport" where
  "changePass p = p\<lparr>ps_password1_shown := False, ps_password_shown := True\<rparr>"

text \<open>\<open>c.replace(/&amp;/g, "&")\<close>\<close>

fun replace_amp :: "units \<Rightarrow> units" where
  "replace_amp (a # b # c # d # g # us) =
     (if [a, b, c, d, g] = ascii ''&amp;'' then 38 # replace_amp us else a # replace_amp (b # c # d # g # us))"
| "replace_amp us = us"

definition doSelect :: "passport \<Rightarrow> passport" where
  "doSelect p =
     (let q = p\<lparr>ps_shown := False\<rparr>;
          q = (case findDSindex (ps_curDSindex q) q of
                 None \<Rightarrow> q
               | Some c \<Rightarrow> if c \<noteq> [] \<and> ps_emailInput q \<noteq> hint then q\<lparr>ps_emailInput := replace_amp c\<rparr> else q)
      in if ps_emailInput q \<noteq> [] \<and> ps_emailInput q \<noteq> hint then changePass q else q)"

subsection \<open>The form\<close>

definition checkMousedown :: "passport \<Rightarrow> passport" where
  "checkMousedown p = (if ps_emailInput p = hint then p\<lparr>ps_emailInput := []\<rparr> else p)"

definition password_blur :: "passport \<Rightarrow> passport" where
  "password_blur p = (if ps_passwdInput p = [] then p\<lparr>ps_password_shown := False, ps_password1_shown := True\<rparr> else p)"

definition email_blur :: "passport \<Rightarrow> passport" where
  "email_blur p = (if ps_emailInput p = [] then p\<lparr>ps_emailInput := hint, ps_email_blur := True\<rparr> else p)"

text \<open>The handlers of \<open>click\<close> and \<open>focus\<close>, which only one browser gets.\<close>

definition email_focus :: "bool \<Rightarrow> passport \<Rightarrow> passport" where
  "email_focus mozilla p =
     (if mozilla \<and> ps_emailInput p = hint then p\<lparr>ps_emailInput := [], ps_email_blur := False\<rparr> else p)"

definition toggle_remember :: "passport \<Rightarrow> passport" where
  "toggle_remember p = p\<lparr>ps_remember := \<not> ps_remember p\<rparr>"

definition draw_inputs :: "passport \<Rightarrow> passport" where
  "draw_inputs p =
     p\<lparr>ps_emailInput := hint, ps_email_blur := True, ps_passwdInput := [], ps_password_shown := False,
       ps_password1_shown := True, ps_remember := True\<rparr>"

definition autoFillUserId :: "passport \<Rightarrow> passport" where
  "autoFillUserId p =
     (if ps_showEmailInputTip p then p\<lparr>ps_showEmailInputTip := False\<rparr>
      else p\<lparr>ps_emailInput := (if ps_email p \<noteq> [] then ps_email p else ps_cookie p)\<rparr>)"

text \<open>The timer that \<open>autoFillUserId\<close> sets deletes the cookie.\<close>

definition forget_user :: "passport \<Rightarrow> passport" where
  "forget_user p = p\<lparr>ps_cookie := []\<rparr>"

text \<open>\<open>drawLoginForm\<close>; the form it draws has no input \<open>persistentcookie\<close>, so asking for the message about it throws. The
  flag of the middle says that the password is to be shown by a timer.\<close>

definition drawLoginForm :: "passport \<Rightarrow> passport \<times> bool \<times> bool" where
  "drawLoginForm p =
     (let q = draw_inputs p
      in if ps_isShowRemPwdMsg q then (q, False, True)
         else (let r = autoFillUserId q
               in (r, ps_emailInput r \<noteq> [] \<and> ps_isSetFocus r \<and> ps_emailInput r \<noteq> hint, False)))"

definition passport_init :: "passport \<Rightarrow> bool \<Rightarrow> passport" where
  "passport_init p selectorTitle = p\<lparr>ps_shown := False, ps_items := [], ps_anchor := selectorTitle\<rparr>"

subsection \<open>Login\<close>

datatype login = Busy | Report string | Post | Send units units bool

text \<open>\<open>doLogin()\<close>; \<open>strip\<close> is the library's.\<close>

definition doLogin :: "(units \<Rightarrow> units) \<Rightarrow> passport \<Rightarrow> passport \<times> login" where
  "doLogin strip p =
     (if ps_eInterval p then (p, Busy)
      else
        (let h = strip (ps_emailInput p); g = strip (ps_passwdInput p);
             q = p\<lparr>ps_intervalCount := 0, ps_email := h\<rparr>;
             e = (case last_index_of [64] h of None \<Rightarrow> h | Some k \<Rightarrow> drop (k + 1) h)
         in if h = [] then (q, Report ''1'')
            else if not_padded q e then (q\<lparr>ps_passwdInput := []\<rparr>, Report ''3'')
            else if g = [] then (changePass (q\<lparr>ps_passwdInput := []\<rparr>), Report ''4'')
            else if ps_usePost q then (q, Post)
            else (q, Send h g (ps_remember q))))"

datatype failure = FailReport string bool | FailRedirect

text \<open>\<open>loginFailCall()\<close> after the form is drawn again; the flag says that the password is shown.\<close>

definition fail_action :: "passport \<Rightarrow> string \<Rightarrow> bool \<Rightarrow> failure" where
  "fail_action p login_status cookies =
     (if ps_intervalCount p \<ge> ps_maxIntervalCount p then FailReport ''6'' True
      else if login_status = ''error3'' \<or> login_status = ''error2'' then FailReport ''5'' True
      else if login_status = ''error5'' then FailReport ''10'' False
      else if login_status = ''error13'' then FailRedirect
      else if \<not> cookies then FailReport ''11'' False
      else FailReport ''9'' True)"

definition loginFailCall :: "string \<Rightarrow> bool \<Rightarrow> passport \<Rightarrow> passport \<times> failure option" where
  "loginFailCall login_status cookies p =
     (case drawLoginForm p of
        (q, _, True) \<Rightarrow> (q, None)
      | (q, _, False) \<Rightarrow>
          (case fail_action q login_status cookies of
             FailReport n True \<Rightarrow> (changePass q, Some (FailReport n True))
           | a \<Rightarrow> (q, Some a)))"

subsection \<open>Events\<close>

datatype passport_event =
    TypeName units | Down | OverItem nat | SelectItem | MouseDown | EmailBlur | EmailFocus bool | TypePassword units | PasswordBlur
  | Password1Focus | ToggleRemember | DrawForm | ForgetUser | ShowPassword | Login "units \<Rightarrow> units" | LoginFailed string bool

fun passport_step :: "passport \<Rightarrow> passport_event \<Rightarrow> passport" where
  "passport_step p (TypeName s) = fst (fillEmailSelect (p\<lparr>ps_emailInput := s\<rparr>))"
| "passport_step p Down = downDSindex p"
| "passport_step p (OverItem j) = (if j \<in> set (map fst (ps_items p)) then over_item j p else p)"
| "passport_step p SelectItem = doSelect p"
| "passport_step p MouseDown = checkMousedown p"
| "passport_step p EmailBlur = email_blur p"
| "passport_step p (EmailFocus mozilla) = email_focus mozilla p"
| "passport_step p (TypePassword s) = p\<lparr>ps_passwdInput := s\<rparr>"
| "passport_step p PasswordBlur = password_blur p"
| "passport_step p Password1Focus = changePass p"
| "passport_step p ToggleRemember = toggle_remember p"
| "passport_step p DrawForm = fst (drawLoginForm p)"
| "passport_step p ForgetUser = forget_user p"
| "passport_step p ShowPassword = changePass p"
| "passport_step p (Login strip) = fst (doLogin strip p)"
| "passport_step p (LoginFailed st cookies) = fst (loginFailCall st cookies p)"

subsection \<open>What is suggested\<close>

lemma last_index_of_prefix: "last_index_of m y = Some 0 \<Longrightarrow> is_prefix_of m y"
  by (cases y) (auto split: option.splits if_splits)

lemma is_prefix_of_take: "is_prefix_of i (take n y) \<Longrightarrow> is_prefix_of i y"
proof -
  assume "is_prefix_of i (take n y)"
  then obtain t where "take n y = i @ t" by (auto simp: is_prefix_of_iff)
  then have "y = i @ t @ drop n y" by (metis append_assoc append_take_drop_id)
  then show ?thesis by (metis is_prefix_of_append)
qed

lemma suggest_extends:
  assumes "suggest p i m e y = (Some t, e')"
  shows "is_prefix_of i t \<and> is_prefix_of m y"
proof -
  have m: "is_prefix_of m y"
    using assms last_index_of_prefix [of m y] by (cases "m = []") (auto simp: suggest_def Let_def split: if_splits)
  have "is_prefix_of i t" if "suggest_full p i e y pos = (Some t, e')" for pos
  proof -
    have "is_prefix_of i (take pos y)" "t = item_text p i y True pos"
      using that last_index_of_prefix [of i "take pos y"] by (auto simp: suggest_full_def Let_def split: if_splits)
    then show ?thesis using is_prefix_of_take [of i pos y] is_prefix_of_append [of i "[]"] by (simp add: item_text_def)
  qed
  moreover have "is_prefix_of i (item_text p i y False 0)"
    using is_prefix_of_append [of i "[]"] by (simp add: item_text_def)
  ultimately show ?thesis using assms m by (auto simp: suggest_def Let_def split: if_splits)
qed

lemma suggestions_extend:
  "(k, t) \<in> set (suggestions p i m e j ys) \<Longrightarrow>
   j \<le> k \<and> k < j + length ys \<and> is_prefix_of i t \<and> is_prefix_of m (ys ! (k - j))"
proof (induction ys arbitrary: e j)
  case (Cons y ys)
  obtain r e' where r: "suggest p i m e y = (r, e')" by fastforce
  have rest: "j \<le> k \<and> k < j + length (y # ys) \<and> is_prefix_of i t \<and> is_prefix_of m ((y # ys) ! (k - j))"
    if "(k, t) \<in> set (suggestions p i m e' (Suc j) ys)"
  proof -
    have "Suc j \<le> k" using Cons.IH [OF that] by simp
    then have "k - j = Suc (k - Suc j)" by simp
    then show ?thesis using Cons.IH [OF that] by auto
  qed
  show ?case
  proof (cases r)
    case None
    then show ?thesis using Cons.prems rest by (simp add: r)
  next
    case (Some t')
    then consider "k = j" "t = t'" | "(k, t) \<in> set (suggestions p i m e' (Suc j) ys)" using Cons.prems by (auto simp: r)
    then show ?thesis
    proof cases
      case 1
      then show ?thesis using suggest_extends [of p i m e y t e'] Some r by simp
    qed (rule rest)
  qed
qed simp

lemma suggestions_distinct: "distinct (map fst (suggestions p i m e j ys))"
proof (induction ys arbitrary: e j)
  case (Cons y ys)
  have "j \<notin> fst ` set (suggestions p i m e' (Suc j) ys)" for e'
    using suggestions_extend [of _ _ p i m e' "Suc j" ys] by fastforce
  with Cons show ?case by (auto split: prod.split option.split)
qed simp

subsection \<open>The state stays well-formed\<close>

definition highlighted :: "passport \<Rightarrow> bool" where
  "highlighted p \<longleftrightarrow> ps_curDSindex p \<in> Some ` set (map fst (ps_items p))"

definition passport_ok :: "passport \<Rightarrow> bool" where
  "passport_ok p \<longleftrightarrow>
     distinct (map fst (ps_items p)) \<and> (ps_anchor p \<and> ps_shown p \<longrightarrow> highlighted p) \<and>
     ps_password_shown p \<noteq> ps_password1_shown p"

lemma fill_ok: "passport_ok p \<Longrightarrow> passport_ok (fst (fillEmailSelect p))"
  using suggestions_distinct
  by (auto simp: fillEmailSelect_def passport_ok_def highlighted_def Let_def split: prod.split intro!: image_eqI hd_in_set)

lemma down_ok: "passport_ok p \<Longrightarrow> passport_ok (downDSindex p)"
  by (auto simp: downDSindex_def passport_ok_def highlighted_def Let_def intro!: image_eqI)

lemma changePass_ok: "passport_ok p \<Longrightarrow> passport_ok (changePass p)"
  by (simp add: changePass_def passport_ok_def highlighted_def)

lemma select_ok: "passport_ok p \<Longrightarrow> passport_ok (doSelect p)"
  by (auto simp: doSelect_def passport_ok_def changePass_def Let_def split: option.split)

lemma draw_ok: "passport_ok p \<Longrightarrow> passport_ok (fst (drawLoginForm p))"
  by (simp add: drawLoginForm_def draw_inputs_def autoFillUserId_def passport_ok_def highlighted_def Let_def)

lemma login_ok: "passport_ok p \<Longrightarrow> passport_ok (fst (doLogin strip p))"
  by (simp add: doLogin_def changePass_def passport_ok_def highlighted_def Let_def)

lemma fail_ok: "passport_ok p \<Longrightarrow> passport_ok (fst (loginFailCall st cookies p))"
  using draw_ok [of p] changePass_ok
  by (auto simp: loginFailCall_def split: prod.split bool.split failure.split)

lemma inputs_ok:
  assumes "passport_ok p"
  shows "passport_ok (over_item j p) \<or> j \<notin> set (map fst (ps_items p))" "passport_ok (checkMousedown p)" "passport_ok (email_blur p)"
    "passport_ok (email_focus b p)" "passport_ok (password_blur p)" "passport_ok (toggle_remember p)" "passport_ok (forget_user p)"
    "passport_ok (p\<lparr>ps_passwdInput := s\<rparr>)" "passport_ok (p\<lparr>ps_emailInput := s\<rparr>)"
  using assms
  by (auto simp: over_item_def checkMousedown_def email_blur_def email_focus_def password_blur_def toggle_remember_def
      forget_user_def passport_ok_def highlighted_def)

lemma passport_step_ok: "passport_ok p \<Longrightarrow> passport_ok (passport_step p e)"
proof (cases e)
  case (OverItem j)
  assume "passport_ok p"
  then show ?thesis using inputs_ok(1) [of p j] OverItem by auto
qed (auto intro: fill_ok down_ok select_ok changePass_ok draw_ok login_ok fail_ok inputs_ok(2-))

interpretation passport: step_system passport_step passport_ok
  by unfold_locales (rule passport_step_ok)

lemma init_passport_ok: "passport_ok (fst (drawLoginForm (passport_init p title)))"
  by (simp add: drawLoginForm_def draw_inputs_def autoFillUserId_def passport_init_def passport_ok_def Let_def)


definition ex_passport :: passport where
  "ex_passport =
     \<lparr>ps_emailInput = [], ps_email_blur = True, ps_passwdInput = [], ps_password_shown = False, ps_password1_shown = False,
      ps_remember = True, ps_shown = False, ps_anchor = False, ps_items = [], ps_curDSindex = None,
      ps_emailPostfix = [ascii ''b.c'', ascii ''b.d'', ascii ''c.d''], ps_autopad = [], ps_usePostFix = True, ps_email = [],
      ps_eInterval = False, ps_intervalCount = 0, ps_maxIntervalCount = 9, ps_usePost = False, ps_showEmailInputTip = True,
      ps_isShowRemPwdMsg = False, ps_isSetFocus = True, ps_cookie = []\<rparr>"


text \<open>The arrow key goes through the suggestions in order and round.\<close>

lemma downDSindex_cycles:
  assumes "distinct (map fst (ps_items p))" and "k < length (ps_items p)" and "ps_curDSindex p = Some (fst (ps_items p ! k))"
  shows "ps_curDSindex (downDSindex p) = Some (fst (ps_items p ! (Suc k mod length (ps_items p))))"
proof -
  have "takeWhile (\<lambda>d. Some (fst d) \<noteq> ps_curDSindex p) (ps_items p) = take k (ps_items p)"
    using assms by (intro takeWhile_eq_take_P_nth) (auto simp: distinct_conv_nth)
  then have "length (takeWhile (\<lambda>d. Some (fst d) \<noteq> ps_curDSindex p) (ps_items p)) = k" using assms(2) by simp
  then show ?thesis using assms(2) by (auto simp: downDSindex_def Let_def le_eq_less_or_eq less_Suc_eq_le mod_Suc)
qed

text \<open>A text that fits no ending, when no suggestion was ever shown, makes the function throw.\<close>

lemma fill_throws_without_suggestion:
  "snd (fillEmailSelect ((passport_init ex_passport True)\<lparr>ps_emailInput := ascii ''a@z''\<rparr>))"
  by (simp add: passport_init_def ex_passport_def fillEmailSelect_def name_text_def name_unit_def is_digit_unit_def split_name_def
      endings_def suggest_def not_padded_def item_text_def Let_def)

subsection \<open>When a login is sent\<close>

definition domain_part :: "units \<Rightarrow> units" where
  "domain_part h = (case last_index_of [64] h of None \<Rightarrow> h | Some k \<Rightarrow> drop (k + 1) h)"

text \<open>A login is sent exactly when none is under way, name and password are not empty after stripping, and the domain of the
  name occurs in the domain that the page asks for, if it asks for one; it is sent with these two texts and the state of the mark
  for automatic login.
\<close>

lemma doLogin_sends_iff:
  "snd (doLogin strip p) = Send h g r \<longleftrightarrow>
     \<not> ps_eInterval p \<and> \<not> ps_usePost p \<and> h = strip (ps_emailInput p) \<and> h \<noteq> [] \<and> g = strip (ps_passwdInput p) \<and> g \<noteq> [] \<and>
     r = ps_remember p \<and> (ps_autopad p = [] \<or> last_index_of (domain_part h) (ps_autopad p) \<noteq> None)"
  by (auto simp: doLogin_def domain_part_def not_padded_def changePass_def Let_def)

text \<open>Any part of the domain will do, also the empty one of a name that ends in an at sign.\<close>

lemma domain_part_incomplete: "last_index_of (domain_part (h @ [64])) pad \<noteq> None"
proof -
  have "last_index_of [64] (h @ [64]) = Some (length h)" by (induction h) auto
  moreover have "last_index_of [] pad \<noteq> None" by (induction pad) auto
  ultimately show ?thesis by (simp add: domain_part_def)
qed

end
