(* ===== verification/Microblog.thy ===== *)
theory Microblog
  imports Uri_Component
begin

text \<open>
  \<open>js/tw.new.index.min.0.0.14.js\<close>: the small parts of the microblog page, its settings, the login window of another service and
  the counting of page views by a picture. The address of the page and the time are arguments.
  The theory shows that settings of the page win over the defaults, except for the address of uploads on one site, and what the
  counting picture is asked for.
\<close>

subsection \<open>Settings\<close>

datatype setting = SText string | SNum int | SBool bool | SObj | SFun

text \<open>The defaults; \<open>BACK_URL\<close> is the address of the page.\<close>

definition tw_defaults :: "string \<Rightarrow> setting obj" where
  "tw_defaults href =
    [(''VERSION'', SText ''0.1.''), (''BACK_URL'', SText href), (''NUM'', SNum 140), (''G_NUM'', SNum 10), (''MG_NUM'', SNum 10),
     (''CUT'', SNum 200), (''CA'', SBool True), (''CA_SRC'', SText ''other''), (''CA_SN'', SText []),
     (''UPURL'', SText ''http://up.t.sohu.com/twitter/upload.php''), (''C_AUTO'', SBool True), (''C_CACHE'', SBool False),
     (''C_TIP'', SBool False), (''C_ADD'', SBool True), (''C_SYS_TIP'', SText []), (''C_ADD_SUCCESS'', SFun),
     (''TW_DEL_SUCCESS'', SFun), (''ST_URL'', SText ''http://s6.cr.itc.cn/user''),
     (''TOPIC_SEARCH_URL'', SText ''/search/topic_inc.jsp''), (''UPLOAD_SWF'', SText ''http://t.sohu.com/t/swfupload.swf''),
     (''C_SWF'', SText ''http://s1.cr.itc.cn/img/s/i.gif''), (''I_SWF'', SText ''http://s2.cr.itc.cn/img/t/iptfile4.png''),
     (''AT_ADD'', SBool False), (''SUB_PG'', SBool False), (''SUB_PG_NUM'', SNum 5), (''PR_EMOTE'', SText []),
     (''MAP'', SText ''http://s2.cr.itc.cn/twitter/map/1.4/''),
     (''MAP_ENGINE'', SText ''http://lspengine.go2map.com/EngineV5/Engine''), (''MAP_ICON'', SText ''/t/''),
     (''IPLOC'', SText ''http://s1.cr.itc.cn/twitter/iploc/cr.iploc.min.js''), (''FED'', SBool False), (''FT'', SNum 5000),
     (''UPDATE_MODE'', SText ''direct''), (''SAD'', SText ''/t/twAction.jsp''), (''ADP'', SObj), (''RP_P'', SObj),
     (''STATIC_GROUPBY'', SBool True), (''USE_MEMO'', SBool False), (''LAZYLOAD_ONCE'', SBool False),
     (''ADD_REPLY_FUNC'', SText [])]"

definition on_chinaren :: "string \<Rightarrow> bool" where
  "on_chinaren href \<longleftrightarrow> (case index_of ''chinaren.com'' href of Some (Suc _) \<Rightarrow> True | _ \<Rightarrow> False)"

text \<open>The function that runs when the document is ready; the second result is \<open>window.HOST\<close>.\<close>

definition tw_ready :: "string \<Rightarrow> string \<Rightarrow> setting obj option \<Rightarrow> setting obj \<times> string" where
  "tw_ready href host given =
     (let c = js_extend (tw_defaults href) (case given of None \<Rightarrow> [] | Some g \<Rightarrow> g)
      in (if on_chinaren href then AList.update ''UPURL'' (SText ''http://upload.chinaren.com/twitter/upload.php'') c else c,
          ''http://'' @ host))"

lemma tw_ready_settings:
  assumes "given = None \<or> distinct (map fst (the given))"
  shows "map_of (fst (tw_ready href host given)) k =
    (if on_chinaren href \<and> k = ''UPURL'' then Some (SText ''http://upload.chinaren.com/twitter/upload.php'')
     else case map_of (case given of None \<Rightarrow> [] | Some g \<Rightarrow> g) k of
            Some v \<Rightarrow> Some v
          | None \<Rightarrow> map_of (tw_defaults href) k)"
  using assms by (cases given) (auto simp: tw_ready_def Let_def update_conv' js_extend_get map_of_rev_distinct split: option.split)

subsection \<open>Other windows and pictures\<close>

text \<open>\<open>MSNLogin\<close>: the address and the features of the window it opens.\<close>

definition MSNLogin :: "string \<Rightarrow> string \<times> string" where
  "MSNLogin host =
     (''https://consent.live.com/Connect.aspx'' @ ''?'' @ ''wrap_callback=http://'' @ host @
      ''/msn/callBack&wrap_client_id=000000004004F407&wrap_scope=WL_Activities.Update,WL_Contacts.View,WL_Profiles.View,Messenger.SignIn,IMControl.IMAllowAll,WL_Activities.View,WL_Photos.View&mkt=zh-cn&wrap_client_state=1'',
      ''top=0, left=0,height=400,width=500'')"

text \<open>\<open>CA.q(from)\<close>: the address of the counting picture; \<open>img\<close> says that the picture is in the page.\<close>

datatype count_result = NoPicture | Count units

definition CA_q :: "bool \<Rightarrow> nat \<Rightarrow> units \<Rightarrow> units option \<Rightarrow> count_result option" where
  "CA_q img time referrer source =
     (if \<not> img then Some NoPicture
      else
        (case (if referrer = [] then Some [] else map_option (\<lambda>r. [ascii ''r='' @ r]) (encodeURIComponent referrer)) of
           None \<Rightarrow> None
         | Some rs \<Rightarrow>
             Some (Count (ascii ''http://z.t.sohu.com/cc.gif?'' @
               js_join [38] ([ascii ''t='' @ ascii (nat_str time)] @ rs @
                 (case source of None \<Rightarrow> [] | Some f' \<Rightarrow> if f' = [] then [] else [ascii ''from='' @ f']))))))"

text \<open>The referrer can be read back from the address, whatever it contains.\<close>

lemma CA_q_referrer:
  assumes "unit_text referrer" and "referrer \<noteq> []"
  shows "\<exists>r. CA_q True time referrer None = Some (Count (ascii ''http://z.t.sohu.com/cc.gif?t='' @ ascii (nat_str time) @
      ascii ''&r='' @ r)) \<and> 38 \<notin> set r \<and> decodeURIComponent r = Some referrer"
proof -
  obtain r where r: "encodeURIComponent referrer = Some r" "decodeURIComponent r = Some referrer"
    using decode_encode [OF assms(1)] by blast
  have "list_all uri_unit r" using encoded_units [OF r(1)] assms(1) by (simp add: unit_text_def)
  then have "38 \<notin> set r" by (auto simp: list_all_iff uri_unit_def uri_unreserved_def is_digit_unit_def)
  with r assms(2) show ?thesis by (simp add: CA_q_def)
qed

end
