(* ===== verification/Bs_Typeahead.thy ===== *)
theory Bs_Typeahead
  imports Js_Prelude
begin

text \<open>
  The typeahead plug-in of Bootstrap 2.3.2 as \<open>fuelux/dist/all.js\<close> bundles it (module
  \<open>bootstrap/bootstrap-typeahead\<close>): the text field, its list of suggestions, the key and mouse handlers.
  The options that replace \<open>matcher\<close>, \<open>sorter\<close>, \<open>highlighter\<close> or \<open>updater\<close> are not set; the source is an array or
  a function, which may answer at once or later (the event \<open>TaDeliver\<close>, at any time and in any order).
  The lemmas show what the list contains and in which order, that the highlighting only adds marks, that exactly
  one suggestion is active whatever happens, and which one the keys choose.
\<close>

subsection \<open>State\<close>

datatype ta_source = TaArray "string list" | TaFunction "string \<Rightarrow> string list option"

record ta_options =
  to_source :: ta_source
  to_items :: nat
  to_minLength :: nat

record ta_entry =
  te_value :: string
  te_html :: string
  te_active :: bool

record typeahead =
  ta_opts :: ta_options
  ta_val :: string
  ta_query :: string
  ta_menu :: "ta_entry list"
  ta_visible :: bool
  ta_shown :: bool
  ta_focused :: bool
  ta_mousedover :: bool
  ta_suppress :: bool
  ta_changes :: "string list"

definition ta_new :: "ta_options \<Rightarrow> string \<Rightarrow> typeahead" where
  "ta_new ops v =
     \<lparr>ta_opts = ops, ta_val = v, ta_query = [], ta_menu = [], ta_visible = False, ta_shown = False,
      ta_focused = False, ta_mousedover = False, ta_suppress = False, ta_changes = []\<rparr>"

definition ta_defaults :: ta_options where
  "ta_defaults = \<lparr>to_source = TaArray [], to_items = 8, to_minLength = 1\<rparr>"

subsection \<open>Matching, sorting and highlighting\<close>

definition ta_matcher :: "string \<Rightarrow> string \<Rightarrow> bool" where
  "ta_matcher q item \<longleftrightarrow> index_of (to_lower q) (to_lower item) \<noteq> None"

text \<open>
  The loop of \<open>sorter\<close> ends at the first falsy item, the empty string included; its three lists are the
  accumulators.
\<close>

fun ta_sort_loop :: "string \<Rightarrow> string list \<Rightarrow> string list \<Rightarrow> string list \<Rightarrow> string list \<Rightarrow> string list" where
  "ta_sort_loop q [] bw cs ci = bw @ cs @ ci"
| "ta_sort_loop q (item # items) bw cs ci =
     (if item = [] then bw @ cs @ ci
      else if index_of (to_lower q) (to_lower item) = Some 0 then ta_sort_loop q items (bw @ [item]) cs ci
      else if index_of q item \<noteq> None then ta_sort_loop q items bw (cs @ [item]) ci
      else ta_sort_loop q items bw cs (ci @ [item]))"

definition ta_sorter :: "string \<Rightarrow> string list \<Rightarrow> string list" where
  "ta_sorter q items = ta_sort_loop q items [] [] []"

text \<open>
  \<open>item.replace(new RegExp('(' + query + ')', 'ig'), ...)\<close> with the special characters of the query escaped: every
  occurrence of the query from the left, ignoring case, is put into a \<open>strong\<close> element; the empty query matches at
  every position. \<open>ta_pieces\<close> splits the item into marked and unmarked pieces.
\<close>

function ta_pieces :: "string \<Rightarrow> string \<Rightarrow> (bool \<times> string) list" where
  "ta_pieces q [] = (if q = [] then [(True, [])] else [])"
| "ta_pieces q (c # s) =
     (if q = [] then (True, []) # (False, [c]) # ta_pieces q s
      else if is_prefix_of (to_lower q) (to_lower (c # s))
      then (True, take (length q) (c # s)) # ta_pieces q (drop (length q) (c # s))
      else (False, [c]) # ta_pieces q s)"
  by pat_completeness auto
termination
  by (relation "measure (\<lambda>(q, s). length s)") auto

definition ta_mark :: "bool \<times> string \<Rightarrow> string" where
  "ta_mark p = (if fst p then ''<strong>'' @ snd p @ ''</strong>'' else snd p)"

definition ta_highlighter :: "string \<Rightarrow> string \<Rightarrow> string" where
  "ta_highlighter q item = concat (map ta_mark (ta_pieces q item))"

subsection \<open>The list of suggestions\<close>

definition ta_entry_of :: "string \<Rightarrow> string \<Rightarrow> ta_entry" where
  "ta_entry_of q item = \<lparr>te_value = item, te_html = ta_highlighter q item, te_active = False\<rparr>"

fun ta_activate_first :: "ta_entry list \<Rightarrow> ta_entry list" where
  "ta_activate_first [] = []"
| "ta_activate_first (e # es) = e\<lparr>te_active := True\<rparr> # es"

definition ta_render :: "string list \<Rightarrow> typeahead \<Rightarrow> typeahead" where
  "ta_render items t = t\<lparr>ta_menu := ta_activate_first (map (ta_entry_of (ta_query t)) items)\<rparr>"

definition ta_show :: "typeahead \<Rightarrow> typeahead" where
  "ta_show t = t\<lparr>ta_visible := True, ta_shown := True\<rparr>"

definition ta_hide :: "typeahead \<Rightarrow> typeahead" where
  "ta_hide t = t\<lparr>ta_visible := False, ta_shown := False\<rparr>"

definition ta_process :: "string list \<Rightarrow> typeahead \<Rightarrow> typeahead" where
  "ta_process items t =
     (let found = ta_sorter (ta_query t) (filter (ta_matcher (ta_query t)) items)
      in if found = [] then (if ta_shown t then ta_hide t else t)
         else ta_show (ta_render (take (to_items (ta_opts t)) found) t))"

definition ta_lookup :: "typeahead \<Rightarrow> typeahead" where
  "ta_lookup t0 =
     (let t = t0\<lparr>ta_query := ta_val t0\<rparr>
      in if ta_query t = [] \<or> length (ta_query t) < to_minLength (ta_opts t)
         then (if ta_shown t then ta_hide t else t)
         else (case (case to_source (ta_opts t) of TaFunction g \<Rightarrow> g (ta_query t) | TaArray xs \<Rightarrow> Some xs) of
                 Some items \<Rightarrow> ta_process items t
               | None \<Rightarrow> t))"

text \<open>
  \<open>active.next()\<close> and \<open>active.prev()\<close> on the whole set of active entries, and the wrap to the first or last entry
  when that set is empty.
\<close>

definition ta_flags :: "ta_entry list \<Rightarrow> bool list" where
  "ta_flags es = map te_active es"

definition ta_set_flags :: "bool list \<Rightarrow> ta_entry list \<Rightarrow> ta_entry list" where
  "ta_set_flags bs es = map2 (\<lambda>b e. e\<lparr>te_active := b\<rparr>) bs es"

definition ta_only :: "nat \<Rightarrow> nat \<Rightarrow> bool list" where
  "ta_only n i = map (\<lambda>j. j = i) [0..<n]"

definition ta_next :: "typeahead \<Rightarrow> typeahead" where
  "ta_next t =
     (let bs = ta_flags (ta_menu t); nx = take (length bs) (False # bs)
      in t\<lparr>ta_menu := ta_set_flags (if True \<in> set nx then nx else ta_only (length bs) 0) (ta_menu t)\<rparr>)"

definition ta_prev :: "typeahead \<Rightarrow> typeahead" where
  "ta_prev t =
     (let bs = ta_flags (ta_menu t); pv = drop 1 bs @ (if bs = [] then [] else [False])
      in t\<lparr>ta_menu := ta_set_flags (if True \<in> set pv then pv else ta_only (length bs) (length bs - 1)) (ta_menu t)\<rparr>)"

text \<open>\<open>val(undefined)\<close> writes the empty string.\<close>

definition ta_select :: "typeahead \<Rightarrow> typeahead" where
  "ta_select t =
     (let v = (case List.find te_active (ta_menu t) of Some e \<Rightarrow> te_value e | None \<Rightarrow> [])
      in ta_hide (t\<lparr>ta_val := v, ta_changes := ta_changes t @ [v]\<rparr>))"

subsection \<open>The handlers\<close>

definition ta_move :: "nat \<Rightarrow> typeahead \<Rightarrow> typeahead" where
  "ta_move key t =
     (if \<not> ta_shown t then t
      else if key = 38 then ta_prev t
      else if key = 40 then ta_next t
      else t)"

text \<open>Whether \<open>move\<close> prevents the default and stops the propagation of the key event.\<close>

definition ta_move_prevents :: "nat \<Rightarrow> typeahead \<Rightarrow> bool" where
  "ta_move_prevents key t \<longleftrightarrow> ta_shown t \<and> key \<in> {9, 13, 27, 38, 40}"

definition ta_keydown :: "nat \<Rightarrow> typeahead \<Rightarrow> typeahead" where
  "ta_keydown key t = ta_move key (t\<lparr>ta_suppress := key \<in> {40, 38, 9, 13, 27}\<rparr>)"

definition ta_keypress :: "nat \<Rightarrow> typeahead \<Rightarrow> typeahead" where
  "ta_keypress key t = (if ta_suppress t then t else ta_move key t)"

definition ta_keyup :: "nat \<Rightarrow> typeahead \<Rightarrow> typeahead" where
  "ta_keyup key t =
     (if key \<in> {40, 38, 16, 17, 18} then t
      else if key \<in> {9, 13} then (if ta_shown t then ta_select t else t)
      else if key = 27 then (if ta_shown t then ta_hide t else t)
      else ta_lookup t)"

definition ta_focus :: "typeahead \<Rightarrow> typeahead" where
  "ta_focus t = t\<lparr>ta_focused := True\<rparr>"

definition ta_blur :: "typeahead \<Rightarrow> typeahead" where
  "ta_blur t0 =
     (let t = t0\<lparr>ta_focused := False\<rparr> in if \<not> ta_mousedover t \<and> ta_shown t then ta_hide t else t)"

definition ta_click :: "typeahead \<Rightarrow> typeahead" where
  "ta_click t = ta_focus (ta_select t)"

definition ta_mouseenter :: "nat \<Rightarrow> typeahead \<Rightarrow> typeahead" where
  "ta_mouseenter i t =
     t\<lparr>ta_mousedover := True, ta_menu := ta_set_flags (ta_only (length (ta_menu t)) i) (ta_menu t)\<rparr>"

definition ta_mouseleave :: "typeahead \<Rightarrow> typeahead" where
  "ta_mouseleave t0 =
     (let t = t0\<lparr>ta_mousedover := False\<rparr> in if \<not> ta_focused t \<and> ta_shown t then ta_hide t else t)"

text \<open>
  The mouse reaches the list only while it is visible, and enters one of the entries that exist; \<open>TaType\<close> is the
  browser's change of the field.
\<close>

datatype ta_event =
    TaType string | TaDeliver "string list" | TaKeydown nat | TaKeypress nat | TaKeyup nat
  | TaFocus | TaBlur | TaClick | TaMouseenter nat | TaMouseleave

fun ta_step :: "typeahead \<Rightarrow> ta_event \<Rightarrow> typeahead" where
  "ta_step t (TaType v) = t\<lparr>ta_val := v\<rparr>"
| "ta_step t (TaDeliver items) = ta_process items t"
| "ta_step t (TaKeydown k) = ta_keydown k t"
| "ta_step t (TaKeypress k) = ta_keypress k t"
| "ta_step t (TaKeyup k) = ta_keyup k t"
| "ta_step t TaFocus = ta_focus t"
| "ta_step t TaBlur = ta_blur t"
| "ta_step t TaClick = (if ta_visible t then ta_click t else t)"
| "ta_step t (TaMouseenter i) = (if ta_visible t \<and> i < length (ta_menu t) then ta_mouseenter i t else t)"
| "ta_step t TaMouseleave = ta_mouseleave t"

subsection \<open>Lemmas: sorting and highlighting\<close>

abbreviation ta_begins :: "string \<Rightarrow> string \<Rightarrow> bool" where
  "ta_begins q item \<equiv> index_of (to_lower q) (to_lower item) = Some 0"

abbreviation ta_contains :: "string \<Rightarrow> string \<Rightarrow> bool" where
  "ta_contains q item \<equiv> index_of q item \<noteq> None"

text \<open>The loop is a stable partition into three parts of what stands before the first empty item.\<close>

definition ta_ranked :: "string \<Rightarrow> string list \<Rightarrow> string list" where
  "ta_ranked q items =
     filter (ta_begins q) items @
     filter (\<lambda>i. \<not> ta_begins q i \<and> ta_contains q i) items @
     filter (\<lambda>i. \<not> ta_begins q i \<and> \<not> ta_contains q i) items"

lemma ta_sort_loop_ranked:
  "ta_sort_loop q items bw cs ci =
     (let its = takeWhile (\<lambda>i. i \<noteq> []) items
      in (bw @ filter (ta_begins q) its) @
         (cs @ filter (\<lambda>i. \<not> ta_begins q i \<and> ta_contains q i) its) @
         (ci @ filter (\<lambda>i. \<not> ta_begins q i \<and> \<not> ta_contains q i) its))"
  by (induction q items bw cs ci rule: ta_sort_loop.induct) (auto simp: Let_def)

lemma ta_sorter_ranked: "ta_sorter q items = ta_ranked q (takeWhile (\<lambda>i. i \<noteq> []) items)"
  by (simp add: ta_sorter_def ta_sort_loop_ranked ta_ranked_def Let_def)

lemma set_ta_ranked [simp]: "set (ta_ranked q items) = set items"
  by (auto simp: ta_ranked_def)

lemma ta_ranked_empty [simp]: "ta_ranked q items = [] \<longleftrightarrow> items = []"
  by (metis set_empty set_ta_ranked)

lemma length_ta_ranked [simp]: "length (ta_ranked q items) = length items"
  by (induction items) (auto simp: ta_ranked_def)

lemma takeWhile_nonempty: "[] \<notin> set items \<Longrightarrow> takeWhile (\<lambda>i. i \<noteq> []) items = items"
  by (auto simp: takeWhile_eq_all_conv)

lemma concat_ta_pieces: "concat (map snd (ta_pieces q s)) = s"
  by (induction q s rule: ta_pieces.induct) (auto simp: take_Cons' drop_Cons')

lemma ta_pieces_marked: "(True, p) \<in> set (ta_pieces q s) \<Longrightarrow> to_lower p = to_lower q"
proof (induction q s rule: ta_pieces.induct)
  case (2 q c s)
  have "to_lower (take (length q) (c # s)) = to_lower q" if "is_prefix_of (to_lower q) (to_lower (c # s))"
    using that by (auto simp: is_prefix_of_iff to_lower_def take_map [symmetric] simp flip: list.map(2))
  with 2 show ?case by (auto split: if_splits)
qed (auto split: if_splits)

lemma ta_pieces_complete:
  "index_of (to_lower q) (to_lower s) \<noteq> None \<Longrightarrow> \<exists>p. (True, p) \<in> set (ta_pieces q s)"
  by (induction q s rule: ta_pieces.induct) (auto simp: to_lower_def split: if_splits)

subsection \<open>Lemmas: the active suggestion\<close>

lemma ta_only_empty [simp]: "ta_only n i = [] \<longleftrightarrow> n = 0"
  by (simp add: ta_only_def)

lemma length_ta_only [simp]: "length (ta_only n i) = n"
  by (simp add: ta_only_def)

lemma nth_ta_only [simp]: "j < n \<Longrightarrow> ta_only n i ! j = (j = i)"
  by (simp add: ta_only_def)

lemma True_in_ta_only: "True \<in> set (ta_only n i) \<longleftrightarrow> i < n"
  by (auto simp: ta_only_def)

lemma length_ta_set_flags [simp]: "length bs = length es \<Longrightarrow> length (ta_set_flags bs es) = length es"
  by (simp add: ta_set_flags_def)

lemma ta_flags_set [simp]: "length bs = length es \<Longrightarrow> ta_flags (ta_set_flags bs es) = bs"
  by (rule nth_equalityI) (auto simp: ta_flags_def ta_set_flags_def)

lemma ta_values_set [simp]:
  "length bs = length es \<Longrightarrow> map te_value (ta_set_flags bs es) = map te_value es"
  "length bs = length es \<Longrightarrow> map te_html (ta_set_flags bs es) = map te_html es"
  by (rule nth_equalityI; auto simp: ta_set_flags_def)+

lemma length_ta_flags [simp]: "length (ta_flags es) = length es"
  by (simp add: ta_flags_def)

text \<open>Exactly entry \<open>a\<close> of the list is active.\<close>

definition ta_at :: "typeahead \<Rightarrow> nat \<Rightarrow> bool" where
  "ta_at t a \<longleftrightarrow> a < length (ta_menu t) \<and> ta_flags (ta_menu t) = ta_only (length (ta_menu t)) a"

lemma ta_shift_right: "a < n \<Longrightarrow> take n (False # ta_only n a) = (if Suc a < n then ta_only n (Suc a) else replicate n False)"
  by (rule nth_equalityI) (auto simp: nth_Cons' ta_only_def)

lemma ta_shift_left:
  "a < n \<Longrightarrow> drop (Suc 0) (ta_only n a) @ [False] = (if 0 < a then ta_only n (a - 1) else replicate n False)"
  by (rule nth_equalityI) (auto simp: nth_append)

lemma True_in_drop: "True \<in> set (drop (Suc 0) (ta_only n a)) \<longleftrightarrow> 0 < a \<and> a < n"
  by (auto simp: in_set_conv_nth intro!: exI [of _ "a - 1"])

lemma ta_next_at:
  assumes "ta_at t a"
  shows "ta_at (ta_next t) (Suc a mod length (ta_menu t))"
    and "map te_value (ta_menu (ta_next t)) = map te_value (ta_menu t)"
  using assms
  by (auto simp: ta_at_def ta_next_def Let_def ta_shift_right True_in_ta_only mod_Suc)

lemma ta_pred_mod: "Suc b < n \<Longrightarrow> (Suc b + (n - 1)) mod n = b"
proof -
  assume b: "Suc b < n"
  then have "Suc b + (n - 1) = b + n" by simp
  with b show ?thesis by (simp only:) simp
qed

lemma ta_prev_at:
  assumes "ta_at t a"
  shows "ta_at (ta_prev t) ((a + (length (ta_menu t) - 1)) mod length (ta_menu t))"
    and "map te_value (ta_menu (ta_prev t)) = map te_value (ta_menu t)"
proof -
  have n: "a < length (ta_menu t)" "ta_menu t \<noteq> []" using assms by (auto simp: ta_at_def)
  have eq: "(a + (length (ta_menu t) - 1)) mod length (ta_menu t) = (if 0 < a then a - 1 else length (ta_menu t) - 1)"
  proof (cases "0 < a")
    case True
    then show ?thesis using ta_pred_mod [of "a - 1" "length (ta_menu t)"] n by simp
  qed (use n in simp)
  show "ta_at (ta_prev t) ((a + (length (ta_menu t) - 1)) mod length (ta_menu t))"
    unfolding eq using assms n by (auto simp: ta_at_def ta_prev_def Let_def ta_shift_left True_in_ta_only True_in_drop)
  show "map te_value (ta_menu (ta_prev t)) = map te_value (ta_menu t)"
    using assms n by (auto simp: ta_at_def ta_prev_def Let_def ta_shift_left True_in_ta_only True_in_drop)
qed

lemma ta_at_find:
  assumes "ta_at t a"
  shows "List.find te_active (ta_menu t) = Some (ta_menu t ! a)"
proof -
  have "te_active (ta_menu t ! j) = (j = a)" if "j < length (ta_menu t)" for j
  proof -
    have "te_active (ta_menu t ! j) = ta_flags (ta_menu t) ! j" using that by (simp add: ta_flags_def)
    also have "\<dots> = (j = a)" using assms that by (simp add: ta_at_def)
    finally show ?thesis .
  qed
  with assms show ?thesis by (auto simp: find_Some_iff ta_at_def)
qed

lemma ta_activate_first_at:
  "items \<noteq> [] \<Longrightarrow> ta_flags (ta_activate_first (map (ta_entry_of q) items)) = ta_only (length items) 0"
  by (cases items; rule nth_equalityI) (auto simp: ta_flags_def ta_entry_of_def nth_Cons')

lemma length_ta_activate_first [simp]: "length (ta_activate_first es) = length es"
  by (cases es) auto

lemma ta_activate_first_values [simp]:
  "map te_value (ta_activate_first es) = map te_value es"
  "map te_html (ta_activate_first es) = map te_html es"
  by (cases es; simp)+

subsection \<open>The invariant\<close>

text \<open>
  What every handler keeps: the flag \<open>shown\<close> is the visibility of the list, a list that was rendered has one active
  entry, at most \<open>options.items\<close> of them, each of an offered item, and the field was only ever set to such items.
\<close>

definition ta_offers :: "string set \<Rightarrow> ta_options \<Rightarrow> bool" where
  "ta_offers offered ops \<longleftrightarrow>
     (case to_source ops of TaArray xs \<Rightarrow> set xs \<subseteq> offered
      | TaFunction g \<Rightarrow> \<forall>q xs. g q = Some xs \<longrightarrow> set xs \<subseteq> offered)"

definition ta_ok :: "string set \<Rightarrow> typeahead \<Rightarrow> bool" where
  "ta_ok offered t \<longleftrightarrow>
     ta_visible t = ta_shown t \<and>
     (ta_menu t \<noteq> [] \<longrightarrow> (\<exists>a. ta_at t a)) \<and>
     (ta_shown t \<longrightarrow> ta_menu t \<noteq> []) \<and>
     length (ta_menu t) \<le> to_items (ta_opts t) \<and> 0 < to_items (ta_opts t) \<and>
     ta_offers offered (ta_opts t) \<and>
     te_value ` set (ta_menu t) \<subseteq> offered \<and> set (ta_changes t) \<subseteq> offered"

fun ta_event_ok :: "string set \<Rightarrow> ta_event \<Rightarrow> bool" where
  "ta_event_ok offered (TaDeliver items) = (set items \<subseteq> offered)"
| "ta_event_ok offered _ = True"

lemma ta_same_values: "map te_value es' = map te_value es \<Longrightarrow> te_value ` set es' = te_value ` set es"
  by (metis list.set_map)

lemma ta_same_length: "map te_value es' = map te_value es \<Longrightarrow> length es' = length es"
  by (metis length_map)

lemma ta_menu_only_ok:
  assumes "ta_ok off t" "\<exists>a. ta_at t' a" "map te_value (ta_menu t') = map te_value (ta_menu t)"
    "ta_visible t' = ta_shown t'" "ta_shown t' \<longrightarrow> ta_shown t" "ta_opts t' = ta_opts t" "ta_changes t' = ta_changes t"
  shows "ta_ok off t'"
  using assms ta_same_values [OF assms(3)] ta_same_length [OF assms(3)]
  by (auto simp: ta_ok_def ta_at_def)

lemma ta_next_fields [simp]:
  "ta_visible (ta_next t) = ta_visible t" "ta_shown (ta_next t) = ta_shown t"
  "ta_opts (ta_next t) = ta_opts t" "ta_changes (ta_next t) = ta_changes t"
  "ta_visible (ta_prev t) = ta_visible t" "ta_shown (ta_prev t) = ta_shown t"
  "ta_opts (ta_prev t) = ta_opts t" "ta_changes (ta_prev t) = ta_changes t"
  by (simp_all add: ta_next_def ta_prev_def Let_def)

lemma ta_next_ok:
  assumes "ta_ok off t" "ta_shown t"
  shows "ta_ok off (ta_next t)" and "ta_ok off (ta_prev t)"
proof -
  obtain a where a: "ta_at t a" using assms by (auto simp: ta_ok_def)
  show "ta_ok off (ta_next t)"
    by (rule ta_menu_only_ok [OF assms(1)]) (use assms ta_next_at [OF a] in \<open>auto simp: ta_ok_def\<close>)
  show "ta_ok off (ta_prev t)"
    by (rule ta_menu_only_ok [OF assms(1)]) (use assms ta_prev_at [OF a] in \<open>auto simp: ta_ok_def\<close>)
qed

lemma ta_at_unchanged: "ta_menu t' = ta_menu t \<Longrightarrow> ta_at t' a = ta_at t a"
  by (simp add: ta_at_def)

lemma ta_hide_ok [inv_intros]: "ta_ok off t \<Longrightarrow> ta_ok off (ta_hide t)"
  by (auto simp: ta_ok_def ta_hide_def ta_at_def)

lemma ta_flag_ok [inv_intros]:
  "ta_ok off t \<Longrightarrow> ta_ok off (t\<lparr>ta_val := v\<rparr>)" "ta_ok off t \<Longrightarrow> ta_ok off (t\<lparr>ta_query := v\<rparr>)"
  "ta_ok off t \<Longrightarrow> ta_ok off (t\<lparr>ta_focused := b\<rparr>)" "ta_ok off t \<Longrightarrow> ta_ok off (t\<lparr>ta_mousedover := b\<rparr>)"
  "ta_ok off t \<Longrightarrow> ta_ok off (t\<lparr>ta_suppress := b\<rparr>)"
  by (auto simp: ta_ok_def ta_at_def)

lemma ta_move_ok [inv_intros]: "ta_ok off t \<Longrightarrow> ta_ok off (ta_move k t)"
  by (simp add: ta_move_def ta_next_ok)

lemma ta_render_at: "items \<noteq> [] \<Longrightarrow> ta_at (ta_render items t) 0"
  by (simp add: ta_at_def ta_render_def ta_activate_first_at)

lemma ta_render_values: "map te_value (ta_menu (ta_render items t)) = items"
  by (simp add: ta_render_def ta_entry_of_def comp_def)

lemma ta_sorter_subset: "set (ta_sorter q items) \<subseteq> set items"
  by (auto simp: ta_sorter_ranked dest: set_takeWhileD)

lemma ta_process_ok [inv_intros]:
  assumes ok: "ta_ok off t" and sub: "set items \<subseteq> off"
  shows "ta_ok off (ta_process items t)"
proof (cases "ta_sorter (ta_query t) (filter (ta_matcher (ta_query t)) items) = []")
  case True
  then show ?thesis using ok by (simp add: ta_process_def inv_intros)
next
  case False
  define found where "found = take (to_items (ta_opts t)) (ta_sorter (ta_query t) (filter (ta_matcher (ta_query t)) items))"
  have eq: "ta_process items t = ta_show (ta_render found t)"
    using False by (simp add: ta_process_def found_def)
  have ne: "found \<noteq> []" using False ok by (simp add: found_def ta_ok_def)
  have off: "set found \<subseteq> off"
    using sub ta_sorter_subset [of "ta_query t" "filter (ta_matcher (ta_query t)) items"]
    by (auto simp: found_def dest!: in_set_takeD)
  have vals: "te_value ` set (ta_menu (ta_render found t)) = set found"
    by (metis list.set_map ta_render_values)
  have len: "length (ta_menu (ta_render found t)) = length found"
    by (metis length_map ta_render_values)
  then have "ta_menu (ta_render found t) \<noteq> []" using ne by auto
  moreover have "ta_opts (ta_render found t) = ta_opts t" "ta_changes (ta_render found t) = ta_changes t"
    by (simp_all add: ta_render_def)
  moreover have "length found \<le> to_items (ta_opts t)" by (simp add: found_def)
  ultimately show ?thesis
    using ok off vals len ta_render_at [OF ne, of t]
    by (auto simp: eq ta_ok_def ta_show_def ta_at_def)
qed

lemma ta_lookup_ok [inv_intros]:
  assumes ok: "ta_ok off t"
  shows "ta_ok off (ta_lookup t)"
proof -
  have ok': "ta_ok off (t\<lparr>ta_query := ta_val t\<rparr>)" by (rule ta_flag_ok [OF ok])
  have src: "set items \<subseteq> off"
    if "(case to_source (ta_opts t) of TaFunction g \<Rightarrow> g q | TaArray xs \<Rightarrow> Some xs) = Some items" for items q
    using ok that by (auto simp: ta_ok_def ta_offers_def split: ta_source.splits)
  show ?thesis
    using ok' src by (auto simp: ta_lookup_def Let_def inv_intros split: option.splits)
qed

lemma ta_select_ok [inv_intros]:
  assumes ok: "ta_ok off t" and shown: "ta_shown t"
  shows "ta_ok off (ta_select t)"
proof -
  obtain a where a: "ta_at t a" using ok shown by (auto simp: ta_ok_def)
  then have "te_value (ta_menu t ! a) \<in> off" using ok by (auto simp: ta_ok_def ta_at_def)
  then have "ta_ok off (t\<lparr>ta_val := te_value (ta_menu t ! a), ta_changes := ta_changes t @ [te_value (ta_menu t ! a)]\<rparr>)"
    using ok by (auto simp: ta_ok_def ta_at_def)
  then show ?thesis by (simp add: ta_select_def ta_at_find [OF a] Let_def inv_intros)
qed

lemma ta_mouseenter_ok [inv_intros]:
  assumes ok: "ta_ok off t" and i: "i < length (ta_menu t)"
  shows "ta_ok off (ta_mouseenter i t)"
  by (rule ta_menu_only_ok [OF ok])
    (use ok i in \<open>auto intro!: exI [of _ i] simp: ta_mouseenter_def ta_ok_def ta_at_def\<close>)

lemma ta_handlers_ok [inv_intros]:
  assumes "ta_ok off t"
  shows "ta_ok off (ta_keydown k t)" "ta_ok off (ta_keypress k t)" "ta_ok off (ta_keyup k t)"
    "ta_ok off (ta_focus t)" "ta_ok off (ta_blur t)" "ta_ok off (ta_mouseleave t)"
    "ta_shown t \<Longrightarrow> ta_ok off (ta_click t)"
  using assms
  by (simp_all add: ta_keydown_def ta_keypress_def ta_keyup_def ta_focus_def ta_blur_def ta_mouseleave_def
      ta_click_def Let_def inv_intros)

lemma ta_step_ok [inv_intros]: "ta_ok off t \<Longrightarrow> ta_event_ok off e \<Longrightarrow> ta_ok off (ta_step t e)"
  by (cases e) (auto simp: ta_ok_def [of off t] intro!: inv_intros)

lemma ta_step_opts [simp]: "ta_opts (ta_step t e) = ta_opts t"
  by (cases e)
    (auto simp: ta_process_def ta_show_def ta_hide_def ta_render_def ta_keydown_def ta_keypress_def ta_keyup_def
      ta_move_def ta_select_def ta_lookup_def ta_focus_def ta_blur_def ta_click_def ta_mouseenter_def
      ta_mouseleave_def Let_def split: option.splits ta_source.splits)

lemma ta_run_ok:
  "ta_ok off t \<Longrightarrow> list_all (ta_event_ok off) es \<Longrightarrow> ta_ok off (foldl ta_step t es) \<and> ta_opts (foldl ta_step t es) = ta_opts t"
  by (induction es arbitrary: t) (auto simp: ta_step_ok ta_step_opts)

subsection \<open>Keys\<close>

text \<open>A key pressed and released on a browser that also sends \<open>keypress\<close>; the arrow keys are 38 (up) and 40 (down).\<close>

definition ta_press :: "typeahead \<Rightarrow> nat \<Rightarrow> typeahead" where
  "ta_press t k = foldl ta_step t [TaKeydown k, TaKeypress k, TaKeyup k]"

fun ta_cursor :: "nat \<Rightarrow> nat \<Rightarrow> nat list \<Rightarrow> nat" where
  "ta_cursor n a [] = a"
| "ta_cursor n a (k # ks) = ta_cursor n (if k = 40 then Suc a mod n else (a + (n - 1)) mod n) ks"

lemma mod_shift: "(x mod n + b - c) mod n = (x + b - c) mod (n :: int)"
  by (metis add_diff_eq mod_add_left_eq)

lemma ta_cursor_mod:
  "a < n \<Longrightarrow> set ks \<subseteq> {38, 40} \<Longrightarrow>
   int (ta_cursor n a ks) = (int a + int (count_list ks 40) - int (count_list ks 38)) mod int n"
proof (induction n a ks rule: ta_cursor.induct)
  case (2 n a k ks)
  show ?case
  proof (cases "k = 40")
    case True
    have "int (Suc a mod n) = (int a + 1) mod int n" by (simp add: zmod_int add.commute)
    with True 2 show ?thesis by (simp add: mod_shift algebra_simps)
  next
    case False
    with 2 have k: "k = 38" by auto
    have "int ((a + (n - 1)) mod n) = (int a + int n - 1) mod int n"
      using 2 by (simp add: zmod_int of_nat_diff)
    also have "\<dots> = (int a - 1) mod int n"
      by (metis add_diff_eq diff_add_eq mod_add_self2)
    finally have "int ((a + (n - 1)) mod n) = (int a - 1) mod int n" .
    with k 2 show ?thesis by (simp add: mod_shift algebra_simps)
  qed
qed simp

lemma ta_press_arrow:
  assumes at: "ta_at t a" and shown: "ta_shown t" and k: "k \<in> {38, 40}"
  shows "ta_at (ta_press t k) (ta_cursor (length (ta_menu t)) a [k]) \<and> ta_shown (ta_press t k) \<and>
         map te_value (ta_menu (ta_press t k)) = map te_value (ta_menu t) \<and>
         ta_changes (ta_press t k) = ta_changes t"
proof -
  define t' where "t' = t\<lparr>ta_suppress := True\<rparr>"
  have t': "ta_at t' a" "ta_menu t' = ta_menu t" "ta_shown t'" "ta_changes t' = ta_changes t"
    using at shown by (simp_all add: t'_def ta_at_def)
  have "ta_press t k = (if k = 40 then ta_next t' else ta_prev t')"
    using k shown
    by (auto simp: ta_press_def ta_keydown_def ta_keypress_def ta_keyup_def ta_move_def t'_def
        ta_next_def ta_prev_def Let_def)
  then show ?thesis
    using ta_next_at [OF t'(1)] ta_prev_at [OF t'(1)] t' by auto
qed

lemma ta_press_arrows:
  assumes "ta_at t a" "ta_shown t" "set ks \<subseteq> {38, 40}"
  shows "ta_at (foldl ta_press t ks) (ta_cursor (length (ta_menu t)) a ks) \<and> ta_shown (foldl ta_press t ks) \<and>
         map te_value (ta_menu (foldl ta_press t ks)) = map te_value (ta_menu t) \<and>
         ta_changes (foldl ta_press t ks) = ta_changes t"
  using assms
proof (induction ks arbitrary: t a)
  case (Cons k ks)
  have k: "k \<in> {38, 40}" using Cons.prems by simp
  note step = ta_press_arrow [OF Cons.prems(1,2) k]
  have len: "length (ta_menu (ta_press t k)) = length (ta_menu t)"
    using step by (metis length_map)
  show ?case
    using Cons.IH [of "ta_press t k" "ta_cursor (length (ta_menu t)) a [k]"] step Cons.prems(3) len
    by simp
qed simp

lemma ta_enter:
  assumes at: "ta_at t a" and shown: "ta_shown t"
  shows "ta_press t 13 = ta_hide (t\<lparr>ta_suppress := True, ta_val := te_value (ta_menu t ! a),
           ta_changes := ta_changes t @ [te_value (ta_menu t ! a)]\<rparr>)"
  using shown ta_at_find [OF at]
  by (simp add: ta_press_def ta_keydown_def ta_keypress_def ta_keyup_def ta_move_def ta_select_def Let_def ta_hide_def)

subsection \<open>Properties\<close>

definition ta_type :: "typeahead \<Rightarrow> string \<Rightarrow> nat \<Rightarrow> typeahead" where
  "ta_type t v k = foldl ta_step t [TaType v, TaKeyup k]"

lemma ta_process_result:
  assumes n: "0 < to_items (ta_opts t)" and plain: "[] \<notin> set items"
    and hits: "hits = filter (ta_matcher (ta_query t)) items"
  shows "ta_shown (ta_process items t) = (hits \<noteq> [])"
    and "hits \<noteq> [] \<Longrightarrow> map te_value (ta_menu (ta_process items t)) = take (to_items (ta_opts t)) (ta_ranked (ta_query t) hits)"
    and "hits \<noteq> [] \<Longrightarrow> ta_at (ta_process items t) 0"
    and "ta_visible t = ta_shown t \<Longrightarrow> ta_visible (ta_process items t) = ta_shown (ta_process items t)"
proof -
  have sorted: "ta_sorter (ta_query t) hits = ta_ranked (ta_query t) hits"
    using plain by (simp add: ta_sorter_ranked takeWhile_nonempty hits)
  show "ta_shown (ta_process items t) = (hits \<noteq> [])"
    by (simp add: ta_process_def sorted Let_def ta_show_def ta_hide_def flip: hits)
  show "ta_visible t = ta_shown t \<Longrightarrow> ta_visible (ta_process items t) = ta_shown (ta_process items t)"
    by (simp add: ta_process_def Let_def ta_show_def ta_hide_def)
  assume ne: "hits \<noteq> []"
  then have eq: "ta_process items t = ta_show (ta_render (take (to_items (ta_opts t)) (ta_ranked (ta_query t) hits)) t)"
    by (simp add: ta_process_def sorted Let_def flip: hits)
  show "map te_value (ta_menu (ta_process items t)) = take (to_items (ta_opts t)) (ta_ranked (ta_query t) hits)"
    by (simp add: eq ta_show_def ta_render_values)
  have "take (to_items (ta_opts t)) (ta_ranked (ta_query t) hits) \<noteq> []" using ne n by simp
  then show "ta_at (ta_process items t) 0"
    using ta_render_at by (simp add: eq ta_show_def ta_at_def)
qed

text \<open>C35: Typing a text into a field with suggestions from an array shows, when the text is long enough and something
  matches, exactly the first \<open>items\<close> matches, those that begin with the text first, then those that contain it, then
  the matches up to case, each group in the order of the source, with the first one active; otherwise the list is hidden.\<close>

theorem typeahead_suggests:
  fixes t :: typeahead
  assumes n: "0 < to_items (ta_opts t)" and plain: "[] \<notin> set xs" and src: "to_source (ta_opts t) = TaArray xs"
    and key: "k \<notin> {9, 13, 16, 17, 18, 27, 38, 40}" and min: "0 < to_minLength (ta_opts t)"
  shows "let s = ta_type t v k; hits = filter (ta_matcher v) xs
         in ta_shown s = (to_minLength (ta_opts t) \<le> length v \<and> hits \<noteq> []) \<and>
            (ta_shown s \<longrightarrow> map te_value (ta_menu s) = take (to_items (ta_opts t)) (ta_ranked v hits) \<and> ta_at s 0) \<and>
            ta_val s = v \<and> ta_changes s = ta_changes t"
proof -
  define u where "u = t\<lparr>ta_val := v, ta_query := v\<rparr>"
  have s: "ta_type t v k = (if length v < to_minLength (ta_opts t) then (if ta_shown u then ta_hide u else u)
                            else ta_process xs u)"
    using key src min by (auto simp: ta_type_def ta_keyup_def ta_lookup_def u_def Let_def)
  have u: "ta_opts u = ta_opts t" "ta_query u = v" "ta_val u = v" "ta_changes u = ta_changes t" by (simp_all add: u_def)
  have keep: "ta_val (ta_process xs u) = v \<and> ta_changes (ta_process xs u) = ta_changes t"
    using u by (simp add: ta_process_def Let_def ta_show_def ta_hide_def ta_render_def)
  note res = ta_process_result [of u xs "filter (ta_matcher v) xs", unfolded u, OF n plain refl]
  show ?thesis
    using keep res u by (auto simp: s Let_def ta_hide_def)
qed

theorem typeahead_suggests_witness:
  "map te_value (ta_menu (ta_type (ta_new \<lparr>to_source = TaArray [''Rebase'', ''abc'', ''About'', ''xAB'', ''c''],
       to_items = 3, to_minLength = 1\<rparr> []) ''ab'' 66)) = [''abc'', ''About'', ''xAB'']"
proof -
  have hits: "filter (ta_matcher ''ab'') [''Rebase'', ''abc'', ''About'', ''xAB'', ''c''] = [''abc'', ''About'', ''xAB'']"
    by code_simp
  have ranked: "ta_ranked ''ab'' [''abc'', ''About'', ''xAB''] = [''abc'', ''About'', ''xAB'']"
    by code_simp
  show ?thesis
    using typeahead_suggests [of "ta_new \<lparr>to_source = TaArray [''Rebase'', ''abc'', ''About'', ''xAB'', ''c''],
       to_items = 3, to_minLength = 1\<rparr> []" "[''Rebase'', ''abc'', ''About'', ''xAB'', ''c'']" 66 "''ab''",
       unfolded hits Let_def ranked]
    by (simp add: ta_new_def)
qed

text \<open>Whatever the user does and whatever the source answers, late answers included, the list is visible exactly when
  the plug-in takes it for shown, it is never empty then nor longer than \<open>items\<close>, exactly one suggestion is active, and the
  field is only ever set to a text the source offered.\<close>

lemma typeahead_one_active:
  fixes t :: typeahead
  assumes t: "t = foldl ta_step (ta_new ops v) es" and n: "0 < to_items ops"
    and src: "ta_offers off ops" and deliver: "list_all (ta_event_ok off) es"
  shows "ta_visible t = ta_shown t \<and>
         (ta_shown t \<longrightarrow> length (filter te_active (ta_menu t)) = 1 \<and> length (ta_menu t) \<le> to_items ops) \<and>
         set (ta_changes t) \<subseteq> off"
proof -
  have "ta_ok off (ta_new ops v)" using n src by (simp add: ta_ok_def ta_new_def)
  then have ok: "ta_ok off t" and opts: "ta_opts t = ops"
    using ta_run_ok [OF _ deliver, of "ta_new ops v"] unfolding t by (simp_all add: ta_new_def)
  have one: "length (filter te_active (ta_menu t)) = 1" if a: "ta_at t a" for a
  proof (rule length_filter_only)
    show "a < length (ta_menu t)" using a by (simp add: ta_at_def)
    fix i assume i: "i < length (ta_menu t)"
    then have "te_active (ta_menu t ! i) = ta_flags (ta_menu t) ! i" by (simp add: ta_flags_def)
    then show "te_active (ta_menu t ! i) = (i = a)" using a i by (simp add: ta_at_def)
  qed
  show ?thesis using ok one opts by (auto simp: ta_ok_def)
qed

lemma typeahead_one_active_example:
  "let t = foldl ta_step (ta_new \<lparr>to_source = TaArray [''one'', ''two'', ''once''], to_items = 8, to_minLength = 1\<rparr> [])
             [TaFocus, TaType ''on'', TaKeyup 78, TaKeydown 40]
   in ta_shown t \<and> length (filter te_active (ta_menu t)) = 1"
proof -
  have "ta_shown (foldl ta_step (ta_new \<lparr>to_source = TaArray [''one'', ''two'', ''once''], to_items = 8, to_minLength = 1\<rparr> [])
             [TaFocus, TaType ''on'', TaKeyup 78, TaKeydown 40])"
    by code_simp
  then show ?thesis
    using typeahead_one_active [OF refl, of "\<lparr>to_source = TaArray [''one'', ''two'', ''once''], to_items = 8, to_minLength = 1\<rparr>"
        "{''one'', ''two'', ''once''}" "[TaFocus, TaType ''on'', TaKeyup 78, TaKeydown 40]" "[]"]
    by (simp add: Let_def ta_offers_def)
qed

text \<open>In an open list the arrow keys move the active suggestion by one per key, round both ends, however the browser
  reports the keys, and the enter key sets the field to that suggestion, triggers one change and closes the list.\<close>

lemma typeahead_keys:
  assumes at: "ta_at t a" and shown: "ta_shown t" and keys: "set ks \<subseteq> {38, 40}"
  shows "let n = length (ta_menu t); s = ta_press (foldl ta_press t ks) 13;
             b = nat ((int a + int (count_list ks 40) - int (count_list ks 38)) mod int n)
         in b < n \<and> ta_val s = te_value (ta_menu t ! b) \<and> ta_changes s = ta_changes t @ [te_value (ta_menu t ! b)] \<and>
            \<not> ta_shown s \<and> \<not> ta_visible s"
proof -
  define n where "n = length (ta_menu t)"
  define u where "u = foldl ta_press t ks"
  have n: "a < n" using at by (simp add: ta_at_def n_def)
  note arrows = ta_press_arrows [OF at shown keys, folded n_def u_def]
  have b: "ta_cursor n a ks = nat ((int a + int (count_list ks 40) - int (count_list ks 38)) mod int n)"
    using ta_cursor_mod [OF n keys] by linarith
  have len: "length (ta_menu u) = n" using arrows by (metis length_map n_def)
  have lt: "ta_cursor n a ks < n" using arrows len by (simp add: ta_at_def)
  then have val: "te_value (ta_menu u ! ta_cursor n a ks) = te_value (ta_menu t ! ta_cursor n a ks)"
    using arrows len by (metis n_def nth_map)
  show ?thesis
    using arrows lt val ta_enter [of u "ta_cursor n a ks"]
    by (simp add: Let_def ta_hide_def flip: n_def u_def b)
qed

lemma typeahead_keys_example:
  "ta_val (ta_press (foldl ta_press (ta_process [''one'', ''two'', ''once'']
     ((ta_new ta_defaults [])\<lparr>ta_query := ''on''\<rparr>)) [40, 40, 40]) 13) = ''once''"
proof -
  define t where "t = ta_process [''one'', ''two'', ''once''] ((ta_new ta_defaults [])\<lparr>ta_query := ''on''\<rparr>)"
  have "map te_value (ta_menu t) = [''one'', ''once''] \<and> ta_flags (ta_menu t) = [True, False] \<and> ta_shown t"
    unfolding t_def by code_simp
  then have "ta_at t 0" "ta_shown t" "length (ta_menu t) = 2" "te_value (ta_menu t ! 1) = ''once''"
    by (auto simp: ta_at_def ta_only_def upt_rec)
  then show ?thesis
    using typeahead_keys [of t 0 "[40, 40, 40]"] by (simp add: Let_def flip: t_def)
qed

text \<open>
  \<open>process\<close> does not ask whether the text is still long enough: an answer that arrives after the field was cleared opens
  the list, with every item it holds.
\<close>

lemma typeahead_late_answer_opens:
  "let t = foldl ta_step (ta_new \<lparr>to_source = TaFunction (\<lambda>q. None), to_items = 8, to_minLength = 1\<rparr> [])
             [TaType ''on'', TaKeyup 78, TaType [], TaKeyup 8, TaDeliver [''one'', ''two'']]
   in ta_shown t \<and> ta_val t = [] \<and> map te_value (ta_menu t) = [''one'', ''two'']"
  by code_simp

text \<open>The loop of \<open>sorter\<close> drops everything after an empty item.\<close>

lemma typeahead_empty_item_cuts:
  "ta_sorter q (xs @ [] # ys) = ta_sorter q xs"
  by (simp add: ta_sorter_ranked takeWhile_tail)

end
