(* ===== verification/Bs_Modal.thy ===== *)
theory Bs_Modal
  imports Js_Prelude
begin

text \<open>
  The modal dialogue of Bootstrap 2.3.2 as \<open>fuelux/dist/all.js\<close> bundles it (module \<open>bootstrap/bootstrap-modal\<close>): the
  dialogue, its backdrops, the handlers it binds and the callbacks that wait for the end of a CSS transition or for the
  timer that replaces it. The end of a transition is an event of its own and may come at any time.
  \<open>mo_settle\<close> lets whatever is pending happen; the lemmas show that an action taken at rest and left to settle is an
  operation of a two-state switch, and what goes wrong when an action comes before the transition has ended.
\<close>

subsection \<open>State\<close>

datatype mo_backdrop_option = BdNone | BdClick | BdStatic

record mo_config =
  mc_backdrop :: mo_backdrop_option
  mc_keyboard :: bool
  mc_fade :: bool
  mc_support :: bool

datatype mo_note = NShow | NShown | NHide | NHidden | NFocus

text \<open>
  What waits for the end of a transition: on the element, the \<open>shown\<close> event or the rest of \<open>hideWithTransition\<close> with
  its timer; on a backdrop, the callback that \<open>show\<close> or \<open>hideModal\<close> passed to \<open>backdrop\<close>.
\<close>

datatype mo_end = EndShown | EndHide nat

datatype mo_callback = CbShow | CbRemove

record mo_backdrop =
  bd_id :: nat
  bd_in :: bool
  bd_on_end :: "mo_callback list"

record modal =
  mo_shown :: bool
  mo_visible :: bool
  mo_in :: bool
  mo_aria_hidden :: "bool option"
  mo_in_page :: bool
  mo_keyup :: nat
  mo_focusin :: nat
  mo_on_end :: "mo_end list"
  mo_timers :: "nat list"
  mo_fresh :: nat
  mo_backs :: "mo_backdrop list"
  mo_back :: "nat option"
  mo_log :: "mo_note list"

definition mo_new :: "bool \<Rightarrow> modal" where
  "mo_new in_page =
     \<lparr>mo_shown = False, mo_visible = False, mo_in = False, mo_aria_hidden = None, mo_in_page = in_page,
      mo_keyup = 0, mo_focusin = 0, mo_on_end = [], mo_timers = [], mo_fresh = 0, mo_backs = [], mo_back = None,
      mo_log = []\<rparr>"

definition mo_note :: "mo_note list \<Rightarrow> modal \<Rightarrow> modal" where
  "mo_note ns s = s\<lparr>mo_log := mo_log s @ ns\<rparr>"

text \<open>
  \<open>$.support.transition\<close>: the name of the event for the first property of CSS transitions that the style of an element has;
  \<open>mc_support\<close> says whether there is one.
\<close>

definition bs_transition_end :: "(string \<Rightarrow> bool) \<Rightarrow> string option" where
  "bs_transition_end has =
     map_option snd (List.find (\<lambda>(p, _). has p)
       [(''WebkitTransition'', ''webkitTransitionEnd''), (''MozTransition'', ''transitionend''),
        (''OTransition'', ''oTransitionEnd otransitionend''), (''transition'', ''transitionend'')])"

text \<open>\<open>$.support.transition && $element.hasClass('fade')\<close>.\<close>

definition mo_animates :: "mo_config \<Rightarrow> bool" where
  "mo_animates c \<longleftrightarrow> mc_support c \<and> mc_fade c"

subsection \<open>Showing and hiding\<close>

definition mo_enforceFocus :: "modal \<Rightarrow> modal" where
  "mo_enforceFocus s = s\<lparr>mo_focusin := Suc (mo_focusin s)\<rparr>"

definition mo_escape :: "mo_config \<Rightarrow> modal \<Rightarrow> modal" where
  "mo_escape c s =
     (if mo_shown s \<and> mc_keyboard c then s\<lparr>mo_keyup := Suc (mo_keyup s)\<rparr>
      else if \<not> mo_shown s then s\<lparr>mo_keyup := 0\<rparr>
      else s)"

definition mo_removeBackdrop :: "modal \<Rightarrow> modal" where
  "mo_removeBackdrop s =
     (case mo_back s of
        None \<Rightarrow> s
      | Some i \<Rightarrow> s\<lparr>mo_backs := filter (\<lambda>b. bd_id b \<noteq> i) (mo_backs s), mo_back := None\<rparr>)"

text \<open>The function that \<open>show\<close> passes to \<open>backdrop\<close>, and the one that \<open>hideModal\<close> passes.\<close>

definition mo_show_element :: "mo_config \<Rightarrow> modal \<Rightarrow> modal" where
  "mo_show_element c s0 =
     (let s = mo_enforceFocus (s0\<lparr>mo_in_page := True, mo_visible := True, mo_in := True, mo_aria_hidden := Some False\<rparr>)
      in if mo_animates c then s\<lparr>mo_on_end := mo_on_end s @ [EndShown]\<rparr>
         else mo_note [NFocus, NShown] s)"

definition mo_run_callback :: "mo_config \<Rightarrow> mo_callback \<Rightarrow> modal \<Rightarrow> modal" where
  "mo_run_callback c cb s =
     (case cb of
        CbShow \<Rightarrow> mo_show_element c s
      | CbRemove \<Rightarrow> mo_note [NHidden] (mo_removeBackdrop s))"

definition mo_backdrop :: "mo_config \<Rightarrow> mo_callback \<Rightarrow> modal \<Rightarrow> modal" where
  "mo_backdrop c cb s =
     (let later = (if mo_animates c then [cb] else []);
          now = (if mo_animates c then id else mo_run_callback c cb)
      in if mo_shown s \<and> mc_backdrop c \<noteq> BdNone
         then now (s\<lparr>mo_backs := mo_backs s @ [\<lparr>bd_id = mo_fresh s, bd_in = True, bd_on_end = later\<rparr>],
                     mo_back := Some (mo_fresh s), mo_fresh := Suc (mo_fresh s)\<rparr>)
         else if \<not> mo_shown s \<and> mo_back s \<noteq> None
         then now (s\<lparr>mo_backs := map (\<lambda>b. if Some (bd_id b) = mo_back s
                                         then b\<lparr>bd_in := False, bd_on_end := bd_on_end b @ later\<rparr> else b) (mo_backs s)\<rparr>)
         else mo_run_callback c cb s)"

definition mo_show :: "mo_config \<Rightarrow> bool \<Rightarrow> modal \<Rightarrow> modal" where
  "mo_show c prevented s0 =
     (let s = mo_note [NShow] s0
      in if mo_shown s \<or> prevented then s
         else mo_backdrop c CbShow (mo_escape c (s\<lparr>mo_shown := True\<rparr>)))"

definition mo_hideModal :: "mo_config \<Rightarrow> modal \<Rightarrow> modal" where
  "mo_hideModal c s = mo_backdrop c CbRemove (s\<lparr>mo_visible := False\<rparr>)"

definition mo_hideWithTransition :: "modal \<Rightarrow> modal" where
  "mo_hideWithTransition s =
     s\<lparr>mo_timers := mo_timers s @ [mo_fresh s], mo_on_end := mo_on_end s @ [EndHide (mo_fresh s)],
       mo_fresh := Suc (mo_fresh s)\<rparr>"

definition mo_hide :: "mo_config \<Rightarrow> bool \<Rightarrow> modal \<Rightarrow> modal" where
  "mo_hide c prevented s0 =
     (let s = mo_note [NHide] s0
      in if \<not> mo_shown s \<or> prevented then s
         else let s' = (mo_escape c (s\<lparr>mo_shown := False\<rparr>))\<lparr>mo_focusin := 0, mo_in := False, mo_aria_hidden := Some True\<rparr>
              in if mo_animates c then mo_hideWithTransition s' else mo_hideModal c s')"

definition mo_toggle :: "mo_config \<Rightarrow> bool \<Rightarrow> modal \<Rightarrow> modal" where
  "mo_toggle c prevented s = (if mo_shown s then mo_hide c prevented s else mo_show c prevented s)"

subsection \<open>The handlers\<close>

text \<open>The end of a transition of the element: its one-shot handlers, each unbound before it runs.\<close>

definition mo_run_end :: "mo_config \<Rightarrow> mo_end \<Rightarrow> modal \<Rightarrow> modal" where
  "mo_run_end c h s =
     (case h of
        EndShown \<Rightarrow> mo_note [NFocus, NShown] s
      | EndHide k \<Rightarrow> mo_hideModal c (s\<lparr>mo_timers := remove1 k (mo_timers s)\<rparr>))"

definition mo_element_end :: "mo_config \<Rightarrow> modal \<Rightarrow> modal" where
  "mo_element_end c s = fold (mo_run_end c) (mo_on_end s) (s\<lparr>mo_on_end := []\<rparr>)"

definition mo_timeout :: "mo_config \<Rightarrow> nat \<Rightarrow> modal \<Rightarrow> modal" where
  "mo_timeout c k s =
     (if k \<in> set (mo_timers s)
      then mo_hideModal c (s\<lparr>mo_timers := remove1 k (mo_timers s), mo_on_end := []\<rparr>) else s)"

definition mo_backdrop_end :: "mo_config \<Rightarrow> nat \<Rightarrow> modal \<Rightarrow> modal" where
  "mo_backdrop_end c i s =
     fold (mo_run_callback c) (concat (map bd_on_end (filter (\<lambda>b. bd_id b = i) (mo_backs s))))
       (s\<lparr>mo_backs := map (\<lambda>b. if bd_id b = i then b\<lparr>bd_on_end := []\<rparr> else b) (mo_backs s)\<rparr>)"

text \<open>A key released in the dialogue reaches every \<open>keyup\<close> handler that \<open>escape\<close> bound.\<close>

definition mo_key :: "mo_config \<Rightarrow> nat \<Rightarrow> bool \<Rightarrow> modal \<Rightarrow> modal" where
  "mo_key c key prevented s = (if key = 27 then (mo_hide c prevented ^^ mo_keyup s) s else s)"

definition mo_backdrop_click :: "mo_config \<Rightarrow> nat \<Rightarrow> bool \<Rightarrow> modal \<Rightarrow> modal" where
  "mo_backdrop_click c i prevented s =
     (if i \<notin> bd_id ` set (mo_backs s) then s
      else if mc_backdrop c = BdStatic then mo_note [NFocus] s
      else mo_hide c prevented s)"

text \<open>The focus moves to an element outside the dialogue: every \<open>focusin\<close> handler draws it back.\<close>

definition mo_focus_outside :: "modal \<Rightarrow> modal" where
  "mo_focus_outside s = mo_note (replicate (mo_focusin s) NFocus) s"

text \<open>The Boolean of an action says whether a listener prevents the event it triggers.\<close>

datatype mo_action =
    MShow bool | MHide bool | MToggle bool | MDismiss bool | MKey nat bool | MBackdropClick nat bool | MFocusOutside
  | MElementEnd | MTimeout nat | MBackdropEnd nat

fun mo_step :: "mo_config \<Rightarrow> modal \<Rightarrow> mo_action \<Rightarrow> modal" where
  "mo_step c s (MShow p) = mo_show c p s"
| "mo_step c s (MHide p) = mo_hide c p s"
| "mo_step c s (MToggle p) = mo_toggle c p s"
| "mo_step c s (MDismiss p) = mo_hide c p s"
| "mo_step c s (MKey k p) = mo_key c k p s"
| "mo_step c s (MBackdropClick i p) = mo_backdrop_click c i p s"
| "mo_step c s MFocusOutside = mo_focus_outside s"
| "mo_step c s MElementEnd = mo_element_end c s"
| "mo_step c s (MTimeout k) = mo_timeout c k s"
| "mo_step c s (MBackdropEnd i) = mo_backdrop_end c i s"

subsection \<open>At rest\<close>

text \<open>The dialogue stands open or closed and nothing is pending.\<close>

definition mo_rest :: "mo_config \<Rightarrow> bool \<Rightarrow> modal \<Rightarrow> bool" where
  "mo_rest c b s \<longleftrightarrow>
     mo_shown s = b \<and> mo_visible s = b \<and> mo_in s = b \<and> (mo_aria_hidden s = Some False) = b \<and> (b \<longrightarrow> mo_in_page s) \<and>
     mo_on_end s = [] \<and> mo_timers s = [] \<and>
     mo_keyup s = (if b \<and> mc_keyboard c then 1 else 0) \<and>
     mo_focusin s = (if b then 1 else 0) \<and>
     (if b \<and> mc_backdrop c \<noteq> BdNone
      then \<exists>i. mo_back s = Some i \<and> mo_backs s = [\<lparr>bd_id = i, bd_in = True, bd_on_end = []\<rparr>]
      else mo_back s = None \<and> mo_backs s = [])"

text \<open>
  Whatever is pending happens: the backdrop's transition ends, the timer fires first if the element's transition is
  late, the element's transition ends, and the backdrop's again.
\<close>

definition mo_backdrops_end :: "mo_config \<Rightarrow> modal \<Rightarrow> modal" where
  "mo_backdrops_end c s = fold (\<lambda>b. mo_backdrop_end c (bd_id b)) (mo_backs s) s"

definition mo_settle :: "mo_config \<Rightarrow> bool \<Rightarrow> modal \<Rightarrow> modal" where
  "mo_settle c late s0 =
     (let s1 = mo_backdrops_end c s0;
          s2 = (if late then fold (mo_timeout c) (mo_timers s1) s1 else s1);
          s3 = mo_element_end c s2
      in mo_backdrops_end c s3)"

text \<open>The switch: what an action makes of \<open>open\<close> or \<open>closed\<close>, and the events it triggers.\<close>

definition switch_show :: "bool \<Rightarrow> bool \<Rightarrow> bool \<times> mo_note list" where
  "switch_show b p = (if b \<or> p then (b, [NShow]) else (True, [NShow, NFocus, NShown]))"

definition switch_hide :: "bool \<Rightarrow> bool \<Rightarrow> bool \<times> mo_note list" where
  "switch_hide b p = (if \<not> b \<or> p then (b, [NHide]) else (False, [NHide, NHidden]))"

fun switch_step :: "mo_config \<Rightarrow> nat option \<Rightarrow> bool \<Rightarrow> mo_action \<Rightarrow> bool \<times> mo_note list" where
  "switch_step c i b (MShow p) = switch_show b p"
| "switch_step c i b (MHide p) = switch_hide b p"
| "switch_step c i b (MToggle p) = (if b then switch_hide b p else switch_show b p)"
| "switch_step c i b (MDismiss p) = switch_hide b p"
| "switch_step c i b (MKey k p) = (if k = 27 \<and> b \<and> mc_keyboard c then switch_hide b p else (b, []))"
| "switch_step c i b (MBackdropClick j p) =
     (if i \<noteq> Some j then (b, []) else if mc_backdrop c = BdStatic then (b, [NFocus]) else switch_hide b p)"
| "switch_step c i b MFocusOutside = (b, if b then [NFocus] else [])"
| "switch_step c i b _ = (b, [])"

subsection \<open>Lemmas\<close>

lemma bs_transition_none:
  "bs_transition_end has = None \<longleftrightarrow> \<not> has ''WebkitTransition'' \<and> \<not> has ''MozTransition'' \<and> \<not> has ''OTransition'' \<and> \<not> has ''transition''"
  by (simp add: bs_transition_end_def)

lemma mo_backdrop_end_rest:
  assumes "mo_rest c b s"
  shows "mo_backdrop_end c i s = s"
proof -
  have none: "bd_on_end x = []" if "x \<in> set (mo_backs s)" for x
    using assms that by (auto simp: mo_rest_def split: if_splits)
  have "map (\<lambda>b. if bd_id b = i then b\<lparr>bd_on_end := []\<rparr> else b) (mo_backs s) = mo_backs s"
    by (rule map_idI) (use none in auto)
  moreover have "concat (map bd_on_end (filter (\<lambda>b. bd_id b = i) (mo_backs s))) = []" using none by auto
  ultimately show ?thesis unfolding mo_backdrop_end_def by (simp only: fold_simps) simp
qed

lemma mo_idle_rest:
  assumes "mo_rest c b s"
  shows "mo_element_end c s = s" and "mo_timeout c k s = s"
  using assms by (simp_all add: mo_element_end_def mo_timeout_def mo_rest_def)

lemma mo_settle_rest:
  assumes "mo_rest c b s"
  shows "mo_settle c late s = s"
proof -
  have "fold (\<lambda>b. mo_backdrop_end c (bd_id b)) xs s = s" for xs
    by (induction xs) (simp_all add: mo_backdrop_end_rest [OF assms])
  then have ends: "mo_backdrops_end c s = s" by (simp add: mo_backdrops_end_def)
  moreover have "mo_timers s = []" using assms by (simp add: mo_rest_def)
  ultimately show ?thesis by (simp add: mo_settle_def Let_def mo_idle_rest [OF assms])
qed

lemma mo_rest_note [simp]: "mo_rest c b (mo_note ns s) = mo_rest c b s"
  by (simp add: mo_rest_def mo_note_def)

lemma mo_log_note [simp]: "mo_log (mo_note ns s) = mo_log s @ ns"
  by (simp add: mo_note_def)

lemmas mo_defs = mo_settle_def mo_backdrops_end_def mo_backdrop_end_def mo_element_end_def mo_timeout_def
  mo_run_end_def mo_hideModal_def mo_hideWithTransition_def mo_backdrop_def mo_run_callback_def
  mo_show_element_def mo_enforceFocus_def mo_escape_def mo_removeBackdrop_def mo_note_def Let_def

lemma mo_show_settles:
  assumes rest: "mo_rest c False s"
  shows "mo_rest c True (mo_settle c late (mo_show c False s))"
    and "mo_log (mo_settle c late (mo_show c False s)) = mo_log s @ [NShow, NFocus, NShown]"
proof -
  have s: "mo_backs s = []" "mo_on_end s = []" "mo_timers s = []" "\<not> mo_shown s" "mo_keyup s = 0" "mo_focusin s = 0"
      "mo_back s = None"
    using rest by (simp_all add: mo_rest_def)
  show "mo_rest c True (mo_settle c late (mo_show c False s))"
    by (cases "mo_animates c"; cases "mc_backdrop c = BdNone"; cases "mc_keyboard c"; cases late)
      (simp_all add: mo_show_def mo_defs mo_rest_def s)
  show "mo_log (mo_settle c late (mo_show c False s)) = mo_log s @ [NShow, NFocus, NShown]"
    by (cases "mo_animates c"; cases "mc_backdrop c = BdNone"; cases "mc_keyboard c"; cases late)
      (simp_all add: mo_show_def mo_defs s)
qed

lemma mo_hide_settles:
  assumes rest: "mo_rest c True s"
  shows "mo_rest c False (mo_settle c late (mo_hide c False s))"
    and "mo_log (mo_settle c late (mo_hide c False s)) = mo_log s @ [NHide, NHidden]"
proof -
  have s: "mo_on_end s = []" "mo_timers s = []" "mo_shown s"
    using rest by (simp_all add: mo_rest_def)
  consider (no) "mc_backdrop c = BdNone" "mo_backs s = []" "mo_back s = None"
    | (yes) i where "mc_backdrop c \<noteq> BdNone" "mo_backs s = [\<lparr>bd_id = i, bd_in = True, bd_on_end = []\<rparr>]" "mo_back s = Some i"
    using rest by (auto simp: mo_rest_def split: if_splits)
  note cs = this
  from cs show "mo_rest c False (mo_settle c late (mo_hide c False s))"
  proof cases
    case no
    then show ?thesis by (cases "mo_animates c"; cases late) (simp_all add: mo_hide_def mo_defs mo_rest_def s)
  next
    case yes
    then show ?thesis by (cases "mo_animates c"; cases late) (simp_all add: mo_hide_def mo_defs mo_rest_def s)
  qed
  from cs show "mo_log (mo_settle c late (mo_hide c False s)) = mo_log s @ [NHide, NHidden]"
  proof cases
    case no
    then show ?thesis by (cases "mo_animates c"; cases late) (simp_all add: mo_hide_def mo_defs s)
  next
    case yes
    then show ?thesis by (cases "mo_animates c"; cases late) (simp_all add: mo_hide_def mo_defs s)
  qed
qed

lemma mo_rest_shown: "mo_rest c b s \<Longrightarrow> mo_shown s = b"
  by (simp add: mo_rest_def)

lemma mo_show_switch:
  assumes rest: "mo_rest c b s"
  shows "mo_rest c (fst (switch_show b p)) (mo_settle c late (mo_show c p s)) \<and>
         mo_log (mo_settle c late (mo_show c p s)) = mo_log s @ snd (switch_show b p)"
proof (cases "b \<or> p")
  case True
  then have "mo_show c p s = mo_note [NShow] s" using mo_rest_shown [OF rest] by (auto simp: mo_show_def mo_note_def Let_def)
  then show ?thesis using True rest mo_settle_rest [of c b "mo_note [NShow] s"] by (simp add: switch_show_def)
next
  case False
  then show ?thesis using rest mo_show_settles by (simp add: switch_show_def)
qed

lemma mo_hide_switch:
  assumes rest: "mo_rest c b s"
  shows "mo_rest c (fst (switch_hide b p)) (mo_settle c late (mo_hide c p s)) \<and>
         mo_log (mo_settle c late (mo_hide c p s)) = mo_log s @ snd (switch_hide b p)"
proof (cases "\<not> b \<or> p")
  case True
  then have "mo_hide c p s = mo_note [NHide] s" using mo_rest_shown [OF rest] by (auto simp: mo_hide_def mo_note_def Let_def)
  then show ?thesis using True rest mo_settle_rest [of c b "mo_note [NHide] s"] by (simp add: switch_hide_def)
next
  case False
  then show ?thesis using rest mo_hide_settles by (simp add: switch_hide_def)
qed

subsection \<open>Properties\<close>

text \<open>C31: An action on a dialogue at rest, left to settle, is the action of a two-state switch with exactly its events, with
  or without animation and whether the end of the transition or the timer comes first: an open dialogue has one backdrop,
  one key handler and one focus handler as its options say, a closed one none.\<close>

theorem modal_is_switch:
  assumes rest: "mo_rest c b s"
  shows "mo_rest c (fst (switch_step c (mo_back s) b a)) (mo_settle c late (mo_step c s a)) \<and>
         mo_log (mo_settle c late (mo_step c s a)) = mo_log s @ snd (switch_step c (mo_back s) b a)"
proof -
  note stays = mo_settle_rest [OF rest]
  have quiet: "mo_settle c late (mo_note ns s) = mo_note ns s" for ns
    by (rule mo_settle_rest [of _ b]) (simp add: rest)
  show ?thesis
  proof (cases a)
    case (MToggle p)
    then show ?thesis
      using mo_rest_shown [OF rest] mo_show_switch [OF rest] mo_hide_switch [OF rest]
      by (cases b) (simp_all add: mo_toggle_def)
  next
    case (MKey k p)
    have "mo_keyup s = (if b \<and> mc_keyboard c then 1 else 0)" using rest by (simp add: mo_rest_def)
    then show ?thesis using MKey rest stays mo_hide_switch [OF rest] by (cases b) (simp_all add: mo_key_def)
  next
    case (MBackdropClick j p)
    have "bd_id ` set (mo_backs s) = set_option (mo_back s)"
      using rest by (auto simp: mo_rest_def split: if_splits)
    then show ?thesis
      using MBackdropClick rest stays quiet mo_hide_switch [OF rest]
      by (auto simp: mo_backdrop_click_def)
  next
    case MFocusOutside
    have "mo_focusin s = (if b then 1 else 0)" using rest by (simp add: mo_rest_def)
    then show ?thesis using MFocusOutside rest quiet by (simp add: mo_focus_outside_def)
  next
    case MElementEnd
    then show ?thesis using rest stays mo_idle_rest [OF rest] by simp
  next
    case (MTimeout k)
    then show ?thesis using rest stays mo_idle_rest [OF rest] by simp
  next
    case (MBackdropEnd i)
    then show ?thesis using rest stays mo_backdrop_end_rest [OF rest] by simp
  qed (use rest stays mo_rest_shown [OF rest] mo_show_switch [OF rest] mo_hide_switch [OF rest]
        in simp_all)
qed

theorem modal_is_switch_witness:
  "let c = \<lparr>mc_backdrop = BdClick, mc_keyboard = True, mc_fade = True, mc_support = True\<rparr>
   in mo_log (mo_settle c True (mo_step c (mo_new True) (MToggle False))) = [NShow, NFocus, NShown]"
  using modal_is_switch [of "\<lparr>mc_backdrop = BdClick, mc_keyboard = True, mc_fade = True, mc_support = True\<rparr>" False
      "mo_new True" "MToggle False" True]
  by (simp add: mo_rest_def mo_new_def switch_show_def Let_def)

text \<open>
  Before the transitions have ended it goes wrong. A dialogue hidden while its backdrop is still fading in is shown by the
  backdrop's callback after all, and then hidden by the timer, but keeps the class \<open>in\<close> and its focus handler: the page's
  focus is drawn to a dialogue that is not there.
\<close>

definition mo_fading :: mo_config where
  "mo_fading = \<lparr>mc_backdrop = BdClick, mc_keyboard = True, mc_fade = True, mc_support = True\<rparr>"

lemma modal_hidden_too_early:
  "let s = foldl (mo_step mo_fading) (mo_new True) [MShow False, MHide False, MBackdropEnd 0, MTimeout 1, MBackdropEnd 0]
   in \<not> mo_shown s \<and> \<not> mo_visible s \<and> mo_backs s = [] \<and> mo_timers s = [] \<and> mo_on_end s = [] \<and>
      mo_in s \<and> mo_focusin s = 1"
  by code_simp

text \<open>
  A dialogue shown again while it is fading out gets a second and a third backdrop; when everything has ended and it is
  hidden again, two of them stay on the page and the dialogue has forgotten them.
\<close>

lemma modal_shown_too_early:
  "let s = foldl (mo_step mo_fading) (mo_new True)
             [MShow False, MBackdropEnd 0, MElementEnd, MHide False, MShow False, MTimeout 1,
              MBackdropEnd 2, MBackdropEnd 3, MElementEnd, MHide False, MElementEnd]
   in \<not> mo_shown s \<and> mo_on_end s = [] \<and> mo_timers s = [] \<and> mo_back s = None \<and>
      mo_backs s = [\<lparr>bd_id = 0, bd_in = True, bd_on_end = []\<rparr>, \<lparr>bd_id = 2, bd_in = True, bd_on_end = []\<rparr>]"
  by code_simp

end
