(* ===== verification/Bs_Carousel.thy ===== *)
theory Bs_Carousel
  imports Js_Prelude
begin

text \<open>
  The carousel of Bootstrap 2.3.2 as \<open>fuelux/dist/all.js\<close> bundles it (module \<open>bootstrap/bootstrap-carousel\<close>): the items with
  their classes, the indicators, the interval, the handlers that wait for the end of a CSS transition and for the event
  \<open>slid\<close>, which an animated slide triggers from a timer of its own. The children of the container are its items and there
  is at least one.
  The lemmas show that exactly one item is active whatever happens and at most one interval runs, what each action does
  when it is left to settle, and that a slide that ends early leaves the carousel stuck.
\<close>

subsection \<open>State\<close>

datatype bc_type = BcNext | BcPrev

text \<open>
  The classes of an item: \<open>active\<close>, \<open>next\<close> or \<open>prev\<close> (the type of the slide), and \<open>left\<close> or \<open>right\<close> (its direction, given by
  the type: \<open>left\<close> for \<open>next\<close>).
\<close>

record bc_item =
  bi_active :: bool
  bi_types :: "bc_type set"
  bi_dirs :: "bc_type set"

datatype bc_slid_handler = SlidIndicator | SlidTo int

record bs_carousel =
  bc_items :: "bc_item list"
  bc_indicators :: "bool list option"
  bc_slide_class :: bool
  bc_support :: bool
  bc_interval_ms :: nat
  bc_hover :: bool
  bc_paused :: bool
  bc_sliding :: bool
  bc_interval :: "nat option"
  bc_timers :: "nat list"
  bc_fresh :: nat
  bc_on_end :: "(bc_type \<times> nat list \<times> nat list) list"
  bc_on_slid :: "bc_slid_handler list"
  bc_slids :: nat
  bc_log :: "(bc_type \<times> nat option) list"

definition bc_animated :: "bs_carousel \<Rightarrow> bool" where
  "bc_animated s \<longleftrightarrow> bc_support s \<and> bc_slide_class s"

definition bc_actives :: "bs_carousel \<Rightarrow> nat list" where
  "bc_actives s = filter (\<lambda>i. bi_active (bc_items s ! i)) [0..<length (bc_items s)]"

definition bc_at :: "nat list \<Rightarrow> (bc_item \<Rightarrow> bc_item) \<Rightarrow> bs_carousel \<Rightarrow> bs_carousel" where
  "bc_at is f s = s\<lparr>bc_items := map (\<lambda>(i, x). if i \<in> set is then f x else x) (enumerate 0 (bc_items s))\<rparr>"

text \<open>\<open>getActiveIndex\<close>; with no active item \<open>$items\<close> is empty and the index \<open>-1\<close>, here \<open>None\<close>.\<close>

definition bc_getActiveIndex :: "bs_carousel \<Rightarrow> nat option" where
  "bc_getActiveIndex s = (case bc_actives s of [] \<Rightarrow> None | i # _ \<Rightarrow> Some i)"

subsection \<open>The interval\<close>

text \<open>\<open>clearInterval(this.interval)\<close> and \<open>setInterval\<close>.\<close>

definition bc_clear :: "bs_carousel \<Rightarrow> bs_carousel" where
  "bc_clear s = (case bc_interval s of None \<Rightarrow> s | Some k \<Rightarrow> s\<lparr>bc_timers := removeAll k (bc_timers s)\<rparr>)"

definition bc_cycle :: "bool \<Rightarrow> bs_carousel \<Rightarrow> bs_carousel" where
  "bc_cycle e s0 =
     (let s = bc_clear (if e then s0 else s0\<lparr>bc_paused := False\<rparr>)
      in if bc_interval_ms s \<noteq> 0 \<and> \<not> bc_paused s
         then s\<lparr>bc_interval := Some (bc_fresh s), bc_timers := bc_timers s @ [bc_fresh s], bc_fresh := Suc (bc_fresh s)\<rparr>
         else s)"

text \<open>The end of a transition runs the one-shot handlers that \<open>slide\<close> bound on the element.\<close>

definition bc_finish :: "bc_type \<times> nat list \<times> nat list \<Rightarrow> bs_carousel \<Rightarrow> bs_carousel" where
  "bc_finish h s =
     (case h of (ty, nx, act) \<Rightarrow>
        (bc_at act (\<lambda>x. x\<lparr>bi_active := False, bi_dirs := bi_dirs x - {ty}\<rparr>)
          (bc_at nx (\<lambda>x. x\<lparr>bi_types := bi_types x - {ty}, bi_dirs := bi_dirs x - {ty}, bi_active := True\<rparr>) s))
          \<lparr>bc_sliding := False, bc_slids := Suc (bc_slids s)\<rparr>)"

definition bc_transition_end :: "bs_carousel \<Rightarrow> bs_carousel" where
  "bc_transition_end s = fold bc_finish (bc_on_end s) (s\<lparr>bc_on_end := []\<rparr>)"

definition bc_pause :: "bool \<Rightarrow> bs_carousel \<Rightarrow> bs_carousel" where
  "bc_pause e s0 =
     (let s = (if e then s0 else s0\<lparr>bc_paused := True\<rparr>);
          s' = (if list_ex (\<lambda>x. bi_types x \<noteq> {}) (bc_items s) \<and> bc_support s
                then bc_cycle True (bc_transition_end s) else s)
      in (bc_clear s')\<lparr>bc_interval := None\<rparr>)"

subsection \<open>Sliding\<close>

definition bc_siblings :: "bc_type \<Rightarrow> nat list \<Rightarrow> nat \<Rightarrow> nat list" where
  "bc_siblings ty is n =
     (case ty of
        BcNext \<Rightarrow> filter (\<lambda>i. i < n) (map Suc is)
      | BcPrev \<Rightarrow> map (\<lambda>i. i - 1) (filter (\<lambda>i. 0 < i) is))"

definition bc_fallback :: "bc_type \<Rightarrow> nat \<Rightarrow> nat list" where
  "bc_fallback ty n = (if n = 0 then [] else case ty of BcNext \<Rightarrow> [0] | BcPrev \<Rightarrow> [n - 1])"

definition bc_mark :: "bs_carousel \<Rightarrow> bs_carousel" where
  "bc_mark s =
     (case (bc_indicators s, bc_getActiveIndex s) of
        (Some fl, Some i) \<Rightarrow> s\<lparr>bc_indicators := Some (fl[i := True])\<rparr>
      | _ \<Rightarrow> s)"

text \<open>
  A slide without animation triggers \<open>slid\<close> itself. The only handlers bound then are those that mark an indicator: \<open>to\<close>
  defers itself only while \<open>sliding\<close> is set (\<open>bc_ok\<close> below).
\<close>

definition bc_slid_now :: "bs_carousel \<Rightarrow> bs_carousel" where
  "bc_slid_now s = (if SlidIndicator \<in> set (bc_on_slid s) then bc_mark s else s)\<lparr>bc_on_slid := []\<rparr>"

text \<open>
  \<open>slide\<close> in its parts: the next item, or the fallback at the end of the list; the carousel with its interval paused; the
  indicators cleared and the event \<open>slide\<close> triggered; the movement, which ends in \<open>bc_finish\<close> when it is animated.
\<close>

definition bc_target :: "bc_type \<Rightarrow> nat list option \<Rightarrow> bs_carousel \<Rightarrow> nat list" where
  "bc_target ty nx s =
     (let js = (case nx of Some js \<Rightarrow> js | None \<Rightarrow> bc_siblings ty (bc_actives s) (length (bc_items s)))
      in if js = [] then bc_fallback ty (length (bc_items s)) else js)"

definition bc_ready :: "bs_carousel \<Rightarrow> bs_carousel" where
  "bc_ready s = (if bc_interval s \<noteq> None then bc_pause False (s\<lparr>bc_sliding := True\<rparr>) else s\<lparr>bc_sliding := True\<rparr>)"

definition bc_announce :: "bc_type \<Rightarrow> nat list \<Rightarrow> bs_carousel \<Rightarrow> bs_carousel" where
  "bc_announce ty nx s =
     (let t = (case bc_indicators s of
                 None \<Rightarrow> s
               | Some fl \<Rightarrow> s\<lparr>bc_indicators := Some (map (\<lambda>_. False) fl), bc_on_slid := bc_on_slid s @ [SlidIndicator]\<rparr>)
      in t\<lparr>bc_log := bc_log t @ [(ty, case nx of [] \<Rightarrow> None | j # _ \<Rightarrow> Some j)]\<rparr>)"

definition bc_move :: "bc_type \<Rightarrow> nat list \<Rightarrow> nat list \<Rightarrow> bs_carousel \<Rightarrow> bs_carousel" where
  "bc_move ty act nx s =
     (if bc_animated s
      then (bc_at nx (\<lambda>x. x\<lparr>bi_dirs := insert ty (bi_dirs x)\<rparr>)
             (bc_at act (\<lambda>x. x\<lparr>bi_dirs := insert ty (bi_dirs x)\<rparr>)
               (bc_at nx (\<lambda>x. x\<lparr>bi_types := insert ty (bi_types x)\<rparr>) s)))
             \<lparr>bc_on_end := bc_on_end s @ [(ty, nx, act)]\<rparr>
      else bc_slid_now
             ((bc_at nx (\<lambda>x. x\<lparr>bi_active := True\<rparr>) (bc_at act (\<lambda>x. x\<lparr>bi_active := False\<rparr>) s))\<lparr>bc_sliding := False\<rparr>))"

definition bc_slide :: "bc_type \<Rightarrow> nat list option \<Rightarrow> bool \<Rightarrow> bs_carousel \<Rightarrow> bs_carousel" where
  "bc_slide ty nx prevented s =
     (let s1 = bc_ready s; js = bc_target ty nx s
      in if \<exists>j \<in> set js. bi_active (bc_items s1 ! j) then s1
         else if prevented then bc_announce ty js s1
         else if bc_interval s \<noteq> None then bc_cycle False (bc_move ty (bc_actives s) js (bc_announce ty js s1))
         else bc_move ty (bc_actives s) js (bc_announce ty js s1))"

definition bc_next :: "bool \<Rightarrow> bs_carousel \<Rightarrow> bs_carousel" where
  "bc_next prevented s = (if bc_sliding s then s else bc_slide BcNext None prevented s)"

definition bc_prev :: "bool \<Rightarrow> bs_carousel \<Rightarrow> bs_carousel" where
  "bc_prev prevented s = (if bc_sliding s then s else bc_slide BcPrev None prevented s)"

definition bc_to :: "int \<Rightarrow> bool \<Rightarrow> bs_carousel \<Rightarrow> bs_carousel" where
  "bc_to pos prevented s =
     (case bc_getActiveIndex s of
        None \<Rightarrow> s
      | Some a \<Rightarrow>
          if pos > int (length (bc_items s)) - 1 \<or> pos < 0 then s
          else if bc_sliding s then s\<lparr>bc_on_slid := bc_on_slid s @ [SlidTo pos]\<rparr>
          else if int a = pos then bc_cycle False (bc_pause False s)
          else bc_slide (if pos > int a then BcNext else BcPrev) (Some [nat pos]) prevented s)"

subsection \<open>Events\<close>

definition bc_tick :: "nat \<Rightarrow> bool \<Rightarrow> bs_carousel \<Rightarrow> bs_carousel" where
  "bc_tick k prevented s = (if k \<in> set (bc_timers s) then bc_next prevented s else s)"

definition bc_run_slid :: "bool \<Rightarrow> bc_slid_handler \<Rightarrow> bs_carousel \<Rightarrow> bs_carousel" where
  "bc_run_slid prevented h s = (case h of SlidIndicator \<Rightarrow> bc_mark s | SlidTo pos \<Rightarrow> bc_to pos prevented s)"

text \<open>The timer that a finished transition starts triggers \<open>slid\<close>.\<close>

definition bc_slid :: "bool \<Rightarrow> bs_carousel \<Rightarrow> bs_carousel" where
  "bc_slid prevented s =
     (if bc_slids s = 0 then s
      else fold (bc_run_slid prevented) (bc_on_slid s) (s\<lparr>bc_slids := bc_slids s - 1, bc_on_slid := []\<rparr>))"

datatype bc_event =
    BcDoNext bool | BcDoPrev bool | BcDoTo int bool | BcDoPause | BcDoCycle | BcEnter | BcLeave
  | BcTick nat bool | BcEnd | BcSlid bool

fun bc_step :: "bs_carousel \<Rightarrow> bc_event \<Rightarrow> bs_carousel" where
  "bc_step s (BcDoNext p) = bc_next p s"
| "bc_step s (BcDoPrev p) = bc_prev p s"
| "bc_step s (BcDoTo i p) = bc_to i p s"
| "bc_step s BcDoPause = bc_pause False s"
| "bc_step s BcDoCycle = bc_cycle False s"
| "bc_step s BcEnter = (if bc_hover s then bc_pause True s else s)"
| "bc_step s BcLeave = (if bc_hover s then bc_cycle True s else s)"
| "bc_step s (BcTick k p) = bc_tick k p s"
| "bc_step s BcEnd = bc_transition_end s"
| "bc_step s (BcSlid p) = bc_slid p s"

definition bc_settle :: "bs_carousel \<Rightarrow> bs_carousel" where
  "bc_settle s = bc_slid False (bc_transition_end s)"

subsection \<open>The active item\<close>

lemma bc_at_fields [simp]:
  "bc_indicators (bc_at is f s) = bc_indicators s" "bc_slide_class (bc_at is f s) = bc_slide_class s"
  "bc_support (bc_at is f s) = bc_support s" "bc_interval_ms (bc_at is f s) = bc_interval_ms s"
  "bc_paused (bc_at is f s) = bc_paused s" "bc_sliding (bc_at is f s) = bc_sliding s"
  "bc_interval (bc_at is f s) = bc_interval s" "bc_timers (bc_at is f s) = bc_timers s"
  "bc_fresh (bc_at is f s) = bc_fresh s" "bc_on_end (bc_at is f s) = bc_on_end s"
  "bc_on_slid (bc_at is f s) = bc_on_slid s" "bc_slids (bc_at is f s) = bc_slids s"
  "bc_hover (bc_at is f s) = bc_hover s"
  "length (bc_items (bc_at is f s)) = length (bc_items s)"
  by (simp_all add: bc_at_def)

lemma nth_bc_at: "i < length (bc_items s) \<Longrightarrow> bc_items (bc_at is f s) ! i = (if i \<in> set is then f (bc_items s ! i) else bc_items s ! i)"
  by (simp add: bc_at_def nth_enumerate_eq)

text \<open>Exactly item \<open>a\<close> is active.\<close>

definition bc_one :: "bs_carousel \<Rightarrow> nat \<Rightarrow> bool" where
  "bc_one s a \<longleftrightarrow> a < length (bc_items s) \<and> (\<forall>i < length (bc_items s). bi_active (bc_items s ! i) = (i = a))"

lemma bc_one_items: "bc_items t = bc_items s \<Longrightarrow> bc_one t a = bc_one s a"
  by (simp add: bc_one_def)

lemma bc_actives_one: "bc_one s a \<Longrightarrow> bc_actives s = [a]"
  unfolding bc_actives_def by (rule filter_upt_only) (auto simp: bc_one_def)

lemma bc_index_one: "bc_one s a \<Longrightarrow> bc_getActiveIndex s = Some a"
  by (simp add: bc_getActiveIndex_def bc_actives_one)

lemma bc_finish_one:
  assumes "bc_one s a" "j < length (bc_items s)" "j \<noteq> a"
  shows "bc_one (bc_finish (ty, [j], [a]) s) j"
  using assms by (auto simp: bc_finish_def bc_one_def nth_bc_at)

lemma bc_siblings_one:
  assumes "bc_one s a"
  shows "\<exists>j < length (bc_items s). (let js = bc_siblings ty [a] (length (bc_items s))
           in if js = [] then bc_fallback ty (length (bc_items s)) else js) = [j]"
  using assms by (cases ty) (auto simp: bc_siblings_def bc_fallback_def bc_one_def)

subsection \<open>The invariant\<close>

text \<open>
  One active item; a pending slide is the only one and leads away from it; at most one interval runs and it is the one the
  carousel remembers; without animation nothing is ever pending and no \<open>to\<close> waits unless \<open>sliding\<close> is stuck.
\<close>

definition bc_pending_ok :: "bs_carousel \<Rightarrow> nat \<Rightarrow> bool" where
  "bc_pending_ok s a \<longleftrightarrow>
     bc_on_end s = [] \<or>
     (\<exists>ty j. bc_on_end s = [(ty, [j], [a])] \<and> j < length (bc_items s) \<and> j \<noteq> a \<and> bc_sliding s)"

definition bc_timers_ok :: "bs_carousel \<Rightarrow> bool" where
  "bc_timers_ok s \<longleftrightarrow> bc_timers s = [] \<or> (\<exists>k. bc_timers s = [k] \<and> bc_interval s = Some k)"

definition bc_still_ok :: "bs_carousel \<Rightarrow> bool" where
  "bc_still_ok s \<longleftrightarrow>
     (\<not> bc_animated s \<longrightarrow> bc_on_end s = [] \<and> bc_slids s = 0 \<and>
        (\<not> bc_sliding s \<longrightarrow> (\<forall>p. SlidTo p \<notin> set (bc_on_slid s))))"

definition bc_ok :: "bs_carousel \<Rightarrow> bool" where
  "bc_ok s \<longleftrightarrow> (\<exists>a. bc_one s a \<and> bc_pending_ok s a) \<and> bc_timers_ok s \<and> bc_still_ok s"

lemma bc_timers_clear: "bc_timers_ok s \<Longrightarrow> bc_timers (bc_clear s) = []"
  by (auto simp: bc_timers_ok_def bc_clear_def split: option.splits)

lemma bc_clear_frame [simp]:
  "bc_items (bc_clear s) = bc_items s" "bc_on_end (bc_clear s) = bc_on_end s" "bc_sliding (bc_clear s) = bc_sliding s"
  "bc_support (bc_clear s) = bc_support s" "bc_slide_class (bc_clear s) = bc_slide_class s"
  "bc_slids (bc_clear s) = bc_slids s" "bc_on_slid (bc_clear s) = bc_on_slid s" "bc_indicators (bc_clear s) = bc_indicators s"
  "bc_interval_ms (bc_clear s) = bc_interval_ms s" "bc_paused (bc_clear s) = bc_paused s" "bc_hover (bc_clear s) = bc_hover s"
  by (simp_all add: bc_clear_def split: option.splits)

lemma bc_cycle_frame [simp]:
  "bc_items (bc_cycle e s) = bc_items s" "bc_on_end (bc_cycle e s) = bc_on_end s" "bc_sliding (bc_cycle e s) = bc_sliding s"
  "bc_support (bc_cycle e s) = bc_support s" "bc_slide_class (bc_cycle e s) = bc_slide_class s"
  "bc_slids (bc_cycle e s) = bc_slids s" "bc_on_slid (bc_cycle e s) = bc_on_slid s" "bc_indicators (bc_cycle e s) = bc_indicators s"
  by (simp_all add: bc_cycle_def Let_def)

lemma bc_cycle_timers: "bc_timers_ok s \<Longrightarrow> bc_timers_ok (bc_cycle e s)"
  using bc_timers_clear [of s] bc_timers_clear [of "s\<lparr>bc_paused := False\<rparr>"]
  by (auto simp: bc_cycle_def bc_timers_ok_def Let_def)

lemma bc_ok_items:
  assumes "bc_ok s" "bc_items t = bc_items s" "bc_on_end t = bc_on_end s" "bc_sliding t = bc_sliding s"
    "bc_support t = bc_support s" "bc_slide_class t = bc_slide_class s" "bc_slids t = bc_slids s" "bc_on_slid t = bc_on_slid s"
    "bc_timers_ok t"
  shows "bc_ok t"
  using assms by (simp add: bc_ok_def bc_pending_ok_def bc_still_ok_def bc_animated_def bc_one_def)

lemma bc_cycle_ok [inv_intros]: "bc_ok s \<Longrightarrow> bc_ok (bc_cycle e s)"
  by (rule bc_ok_items [of s]) (auto simp: bc_ok_def intro: bc_cycle_timers)

lemma bc_finish_frame [simp]:
  "bc_timers (bc_finish h s) = bc_timers s" "bc_interval (bc_finish h s) = bc_interval s"
  "bc_support (bc_finish h s) = bc_support s" "bc_slide_class (bc_finish h s) = bc_slide_class s"
  "bc_on_slid (bc_finish h s) = bc_on_slid s" "bc_on_end (bc_finish h s) = bc_on_end s"
  "bc_indicators (bc_finish h s) = bc_indicators s" "length (bc_items (bc_finish h s)) = length (bc_items s)"
  by (cases h; simp add: bc_finish_def)+

lemma bc_transition_end_idle: "bc_on_end s = [] \<Longrightarrow> bc_transition_end s = s"
  by (simp add: bc_transition_end_def)

lemma bc_transition_end_ok [inv_intros]:
  assumes ok: "bc_ok s"
  shows "bc_ok (bc_transition_end s)"
proof (cases "bc_on_end s = []")
  case True
  then show ?thesis using ok by (simp add: bc_transition_end_idle)
next
  case False
  then obtain a ty j where one: "bc_one s a" and p: "bc_on_end s = [(ty, [j], [a])]" "j < length (bc_items s)" "j \<noteq> a"
    using ok by (auto simp: bc_ok_def bc_pending_ok_def)
  have "bc_one (bc_transition_end s) j"
    using bc_finish_one [of "s\<lparr>bc_on_end := []\<rparr>" a j ty] one p by (simp add: bc_transition_end_def bc_one_def)
  moreover have "bc_animated s" using ok p by (auto simp: bc_ok_def bc_still_ok_def)
  ultimately show ?thesis
    using ok p by (auto simp: bc_ok_def bc_pending_ok_def bc_timers_ok_def bc_still_ok_def bc_animated_def bc_transition_end_def)
qed

lemma bc_pause_ok [inv_intros]:
  assumes "bc_ok s"
  shows "bc_ok (bc_pause e s)"
proof -
  have 1: "bc_ok (s\<lparr>bc_paused := b\<rparr>)" for b
    by (rule bc_ok_items [OF assms]) (use assms in \<open>auto simp: bc_ok_def bc_timers_ok_def\<close>)
  have 2: "bc_ok ((bc_clear t)\<lparr>bc_interval := None\<rparr>)" if "bc_ok t" for t
    by (rule bc_ok_items [OF that])
      (use that bc_timers_clear [of t] in \<open>auto simp: bc_ok_def bc_timers_ok_def\<close>)
  show ?thesis
    using assms 1 unfolding bc_pause_def Let_def by (auto intro!: 2 inv_intros)
qed

lemma bc_mark_frame [simp]:
  "bc_items (bc_mark s) = bc_items s" "bc_on_end (bc_mark s) = bc_on_end s" "bc_sliding (bc_mark s) = bc_sliding s"
  "bc_support (bc_mark s) = bc_support s" "bc_slide_class (bc_mark s) = bc_slide_class s"
  "bc_slids (bc_mark s) = bc_slids s" "bc_on_slid (bc_mark s) = bc_on_slid s"
  "bc_timers (bc_mark s) = bc_timers s" "bc_interval (bc_mark s) = bc_interval s"
  by (simp_all add: bc_mark_def split: option.splits)

lemma bc_slid_now_frame [simp]:
  "bc_items (bc_slid_now s) = bc_items s" "bc_on_end (bc_slid_now s) = bc_on_end s" "bc_sliding (bc_slid_now s) = bc_sliding s"
  "bc_support (bc_slid_now s) = bc_support s" "bc_slide_class (bc_slid_now s) = bc_slide_class s"
  "bc_slids (bc_slid_now s) = bc_slids s" "bc_on_slid (bc_slid_now s) = []"
  "bc_timers (bc_slid_now s) = bc_timers s" "bc_interval (bc_slid_now s) = bc_interval s"
  by (simp_all add: bc_slid_now_def)

lemma bc_pause_idle:
  assumes "bc_on_end s = []"
  shows "bc_items (bc_pause e s) = bc_items s" "bc_on_end (bc_pause e s) = []" "bc_sliding (bc_pause e s) = bc_sliding s"
    "bc_support (bc_pause e s) = bc_support s" "bc_slide_class (bc_pause e s) = bc_slide_class s"
    "bc_slids (bc_pause e s) = bc_slids s" "bc_on_slid (bc_pause e s) = bc_on_slid s"
    "bc_indicators (bc_pause e s) = bc_indicators s"
  using assms by (simp_all add: bc_pause_def Let_def bc_transition_end_idle)

lemma bc_ready_frame:
  assumes "bc_on_end s = []"
  shows "bc_items (bc_ready s) = bc_items s" "bc_on_end (bc_ready s) = []" "bc_sliding (bc_ready s)"
    "bc_support (bc_ready s) = bc_support s" "bc_slide_class (bc_ready s) = bc_slide_class s"
    "bc_slids (bc_ready s) = bc_slids s" "bc_on_slid (bc_ready s) = bc_on_slid s" "bc_indicators (bc_ready s) = bc_indicators s"
  using assms by (simp_all add: bc_ready_def bc_pause_idle)

lemma bc_announce_frame [simp]:
  "bc_items (bc_announce ty js s) = bc_items s" "bc_on_end (bc_announce ty js s) = bc_on_end s"
  "bc_sliding (bc_announce ty js s) = bc_sliding s"
  "bc_support (bc_announce ty js s) = bc_support s" "bc_slide_class (bc_announce ty js s) = bc_slide_class s"
  "bc_slids (bc_announce ty js s) = bc_slids s" "bc_timers (bc_announce ty js s) = bc_timers s"
  "bc_interval (bc_announce ty js s) = bc_interval s"
  by (simp_all add: bc_announce_def Let_def split: option.splits)

lemma bc_move_one:
  assumes "bc_one s a" "j < length (bc_items s)" "j \<noteq> a"
  shows "bc_one (bc_move ty [a] [j] s) (if bc_animated s then a else j)"
  using assms by (auto simp: bc_move_def bc_one_def nth_bc_at)

lemma bc_ready_ok:
  assumes ok: "bc_ok s" and idle: "bc_on_end s = []"
  shows "bc_ok (bc_ready s)"
proof -
  have "bc_ok (s\<lparr>bc_sliding := True\<rparr>)"
    using ok idle by (auto simp: bc_ok_def bc_pending_ok_def bc_timers_ok_def bc_still_ok_def bc_animated_def bc_one_def)
  then show ?thesis by (simp add: bc_ready_def inv_intros)
qed

lemma bc_announce_ok:
  assumes "bc_ok s" "bc_sliding s"
  shows "bc_ok (bc_announce ty js s)"
  using assms by (simp add: bc_ok_def bc_pending_ok_def bc_timers_ok_def bc_still_ok_def bc_animated_def bc_one_def)

lemma bc_move_ok:
  assumes ok: "bc_ok s" and idle: "bc_on_end s = []" "bc_sliding s" and one: "bc_one s a"
    and j: "j < length (bc_items s)" "j \<noteq> a"
  shows "bc_ok (bc_move ty [a] [j] s)"
proof (cases "bc_animated s")
  case True
  have "bc_one (bc_move ty [a] [j] s) a" using bc_move_one [OF one j, of ty] True by simp
  then show ?thesis
    using ok idle j True by (auto simp: bc_ok_def bc_pending_ok_def bc_timers_ok_def bc_still_ok_def bc_animated_def bc_move_def)
next
  case False
  have "bc_one (bc_move ty [a] [j] s) j" using bc_move_one [OF one j, of ty] False by simp
  then show ?thesis
    using ok idle False by (auto simp: bc_ok_def bc_pending_ok_def bc_timers_ok_def bc_still_ok_def bc_animated_def bc_move_def)
qed

lemma bc_slide_ok:
  assumes ok: "bc_ok s" and idle: "bc_on_end s = []" and one: "bc_one s a"
    and tgt: "bc_target ty nx s = [j]" "j < length (bc_items s)"
  shows "bc_ok (bc_slide ty nx p s)"
proof -
  note ready = bc_ready_frame [OF idle]
  have ok1: "bc_ok (bc_announce ty [j] (bc_ready s))"
    by (rule bc_announce_ok [OF bc_ready_ok [OF ok idle] ready(3)])
  have "bc_ok (bc_move ty [a] [j] (bc_announce ty [j] (bc_ready s)))" if "j \<noteq> a"
    by (rule bc_move_ok [OF ok1]) (use one tgt that ready in \<open>simp_all add: bc_one_def\<close>)
  moreover have "bi_active (bc_items s ! j) = (j = a)" using one tgt by (simp add: bc_one_def)
  ultimately show ?thesis
    using ok1 bc_ready_ok [OF ok idle]
    by (auto simp: bc_slide_def tgt bc_actives_one [OF one] ready Let_def inv_intros)
qed

lemma bc_target_None: "bc_one s a \<Longrightarrow> \<exists>j < length (bc_items s). bc_target ty None s = [j]"
  using bc_siblings_one [of s a ty] by (auto simp: bc_target_def bc_actives_one)

lemma bc_target_Some [simp]: "bc_target ty (Some [j]) s = [j]"
  by (simp add: bc_target_def)

lemma bc_slide_next_ok:
  assumes ok: "bc_ok s" and "\<not> bc_sliding s"
  shows "bc_ok (bc_slide ty None p s)"
proof -
  obtain a where one: "bc_one s a" and "bc_on_end s = []"
    using assms by (auto simp: bc_ok_def bc_pending_ok_def)
  then show ?thesis using bc_target_None [OF one] bc_slide_ok [OF ok] by blast
qed

lemma bc_next_ok [inv_intros]: "bc_ok s \<Longrightarrow> bc_ok (bc_next p s)" "bc_ok s \<Longrightarrow> bc_ok (bc_prev p s)"
  by (simp_all add: bc_next_def bc_prev_def bc_slide_next_ok)

lemma bc_ok_field [inv_intros]:
  "bc_ok s \<Longrightarrow> bc_animated s \<or> bc_sliding s \<Longrightarrow> bc_ok (s\<lparr>bc_on_slid := hs\<rparr>)"
  by (auto simp: bc_ok_def bc_pending_ok_def bc_timers_ok_def bc_still_ok_def bc_animated_def bc_one_def)

lemma bc_to_ok [inv_intros]:
  assumes ok: "bc_ok s"
  shows "bc_ok (bc_to pos p s)"
proof -
  obtain a where one: "bc_one s a" and pend: "bc_pending_ok s a" using ok by (auto simp: bc_ok_def)
  show ?thesis
  proof (cases "bc_sliding s \<or> pos > int (length (bc_items s)) - 1 \<or> pos < 0 \<or> int a = pos")
    case True
    then show ?thesis using ok by (auto simp: bc_to_def bc_index_one [OF one] intro!: inv_intros)
  next
    case False
    then have "bc_on_end s = []" "nat pos < length (bc_items s)" using pend by (auto simp: bc_pending_ok_def)
    then show ?thesis
      using False bc_slide_ok [OF ok _ one bc_target_Some] by (auto simp: bc_to_def bc_index_one [OF one])
  qed
qed

lemma bc_mark_ok [inv_intros]: "bc_ok s \<Longrightarrow> bc_ok (bc_mark s)"
  by (rule bc_ok_items [of s]) (auto simp: bc_ok_def bc_timers_ok_def)

lemma bc_run_slid_ok: "bc_ok s \<Longrightarrow> bc_ok (fold (bc_run_slid p) hs s)"
  by (induction hs arbitrary: s) (auto simp: bc_run_slid_def inv_intros split: bc_slid_handler.splits)

lemma bc_slid_ok [inv_intros]:
  assumes ok: "bc_ok s"
  shows "bc_ok (bc_slid p s)"
proof (cases "bc_slids s = 0")
  case True
  then show ?thesis using ok by (simp add: bc_slid_def)
next
  case False
  then have "bc_animated s" using ok by (auto simp: bc_ok_def bc_still_ok_def)
  then have "bc_ok (s\<lparr>bc_slids := bc_slids s - 1, bc_on_slid := []\<rparr>)"
    using ok by (auto simp: bc_ok_def bc_pending_ok_def bc_timers_ok_def bc_still_ok_def bc_animated_def bc_one_def)
  then show ?thesis using ok by (simp add: bc_slid_def bc_run_slid_ok)
qed

lemma bc_step_ok: "bc_ok s \<Longrightarrow> bc_ok (bc_step s e)"
  by (cases e) (auto simp: bc_tick_def inv_intros)

interpretation bc: step_system bc_step bc_ok
  by unfold_locales (rule bc_step_ok)

subsection \<open>Properties\<close>

definition bc_new :: "nat \<Rightarrow> nat \<Rightarrow> bool \<Rightarrow> bool \<Rightarrow> bool \<Rightarrow> nat \<Rightarrow> bs_carousel" where
  "bc_new n a inds slide support ms =
     \<lparr>bc_items = map (\<lambda>i. \<lparr>bi_active = (i = a), bi_types = {}, bi_dirs = {}\<rparr>) [0..<n],
      bc_indicators = (if inds then Some (map (\<lambda>i. i = a) [0..<n]) else None),
      bc_slide_class = slide, bc_support = support, bc_interval_ms = ms, bc_hover = True, bc_paused = False,
      bc_sliding = False, bc_interval = None, bc_timers = [], bc_fresh = 0, bc_on_end = [], bc_on_slid = [],
      bc_slids = 0, bc_log = []\<rparr>"

lemma bc_new_ok: "a < n \<Longrightarrow> bc_ok (bc_new n a inds slide support ms)"
  by (auto simp: bc_ok_def bc_new_def bc_one_def bc_pending_ok_def bc_timers_ok_def bc_still_ok_def)

lemma bc_one_filter: "bc_one s a \<Longrightarrow> length (filter bi_active (bc_items s)) = 1"
  by (rule length_filter_only) (auto simp: bc_one_def)

text \<open>Whatever the user, the interval, the ends of the transitions and the \<open>slid\<close> timers do and in whatever order, exactly one
  item of the carousel is active, at most one slide is under way, and at most one interval runs.\<close>

lemma bs_carousel_one_active:
  assumes "a < n"
  shows "let s = foldl bc_step (bc_new n a inds slide support ms) es
         in length (filter bi_active (bc_items s)) = 1 \<and> length (bc_on_end s) \<le> 1 \<and> length (bc_timers s) \<le> 1"
proof -
  have "bc_ok (foldl bc_step (bc_new n a inds slide support ms) es)"
    by (rule bc.run_ok [OF bc_new_ok [OF assms]])
  then show ?thesis
    using bc_one_filter by (auto simp: Let_def bc_ok_def bc_pending_ok_def bc_timers_ok_def)
qed

lemma bs_carousel_one_active_example:
  "let s = foldl bc_step (bc_new 3 0 True True True 5000) [BcDoCycle, BcTick 0 False, BcDoTo 2 False, BcEnd, BcSlid False]
   in length (filter bi_active (bc_items s)) = 1 \<and> length (bc_timers s) \<le> 1"
  using bs_carousel_one_active [of 0 3 True True True 5000
      "[BcDoCycle, BcTick 0 False, BcDoTo 2 False, BcEnd, BcSlid False]"]
  by (simp add: Let_def)

text \<open>The carousel stands at item \<open>a\<close>: nothing is pending and the indicators, if any, show it.\<close>

definition bc_rest :: "bs_carousel \<Rightarrow> nat \<Rightarrow> bool" where
  "bc_rest s a \<longleftrightarrow>
     bc_one s a \<and> bc_on_end s = [] \<and> bc_on_slid s = [] \<and> bc_slids s = 0 \<and> \<not> bc_sliding s \<and>
     (\<forall>i < length (bc_items s). bi_types (bc_items s ! i) = {} \<and> bi_dirs (bc_items s ! i) = {}) \<and>
     (bc_indicators s = None \<or> bc_indicators s = Some (map (\<lambda>i. i = a) [0..<length (bc_items s)]))"

text \<open>A slide from \<open>a\<close> to \<open>j\<close> that has begun.\<close>

definition bc_begun :: "bs_carousel \<Rightarrow> bc_type \<Rightarrow> nat \<Rightarrow> nat \<Rightarrow> bool" where
  "bc_begun s ty a j \<longleftrightarrow>
     bc_one s a \<and> j < length (bc_items s) \<and> j \<noteq> a \<and> bc_on_end s = [(ty, [j], [a])] \<and> bc_slids s = 0 \<and>
     (\<forall>i < length (bc_items s). bi_types (bc_items s ! i) = (if i = j then {ty} else {}) \<and>
        bi_dirs (bc_items s ! i) = (if i = j \<or> i = a then {ty} else {})) \<and>
     (bc_indicators s = None \<and> bc_on_slid s = [] \<or>
      bc_indicators s = Some (replicate (length (bc_items s)) False) \<and> bc_on_slid s = [SlidIndicator])"

lemma bc_flags_at: "j < n \<Longrightarrow> (replicate n False)[j := True] = map (\<lambda>i. i = j) [0..<n]"
  by (rule nth_equalityI) (auto simp: nth_list_update)

lemma bc_mark_at:
  "bc_one s j \<Longrightarrow> bc_indicators s = Some (replicate (length (bc_items s)) False) \<Longrightarrow>
   bc_indicators (bc_mark s) = Some (map (\<lambda>i. i = j) [0..<length (bc_items s)])"
  by (frule bc_index_one) (simp add: bc_mark_def bc_flags_at bc_one_def)

lemma bc_begun_settles:
  assumes "bc_begun s ty a j"
  shows "bc_rest (bc_settle s) j"
proof -
  define t where "t = bc_finish (ty, [j], [a]) (s\<lparr>bc_on_end := []\<rparr>)"
  define u where "u = t\<lparr>bc_slids := 0, bc_on_slid := []\<rparr>"
  have one: "bc_one u j"
    using assms bc_finish_one [of "s\<lparr>bc_on_end := []\<rparr>" a j ty] by (simp add: bc_begun_def bc_one_def t_def u_def)
  have clean: "bi_types (bc_items u ! i) = {} \<and> bi_dirs (bc_items u ! i) = {}" if "i < length (bc_items s)" for i
    using assms that by (auto simp: bc_begun_def t_def u_def bc_finish_def nth_bc_at)
  have len: "length (bc_items u) = length (bc_items s)" by (simp add: t_def u_def)
  have flags: "bc_sliding u = False" "bc_on_end u = []" "bc_on_slid u = []" "bc_slids u = 0" "bc_indicators u = bc_indicators s"
    by (simp_all add: t_def u_def bc_finish_def)
  have settle: "bc_settle s = fold (bc_run_slid False) (bc_on_slid s) u"
    using assms by (simp add: bc_settle_def bc_transition_end_def bc_slid_def bc_begun_def t_def u_def bc_finish_def)
  show ?thesis
  proof (cases "bc_indicators s")
    case None
    then have "bc_settle s = u" using assms by (simp add: settle bc_begun_def)
    then show ?thesis using one clean len flags None by (simp add: bc_rest_def)
  next
    case Some
    then have "bc_settle s = bc_mark u" "bc_indicators u = Some (replicate (length (bc_items u)) False)"
      using assms flags len by (simp_all add: settle bc_begun_def bc_run_slid_def)
    then show ?thesis using one clean len flags bc_mark_at [OF one] by (simp add: bc_rest_def bc_one_def)
  qed
qed

lemma bc_rest_settles: "bc_rest s a \<Longrightarrow> bc_settle s = s"
  by (simp add: bc_settle_def bc_slid_def bc_rest_def bc_transition_end_idle)

lemma bc_rest_cycle [simp]: "bc_rest (bc_cycle e s) a = bc_rest s a" "bc_begun (bc_cycle e s) ty a j = bc_begun s ty a j"
  by (simp_all add: bc_rest_def bc_begun_def bc_one_def)

lemma bc_announce_at:
  assumes "bc_rest s a"
  shows "(bc_indicators (bc_announce ty js (bc_ready s)) = None \<and> bc_on_slid (bc_announce ty js (bc_ready s)) = [] \<or>
          bc_indicators (bc_announce ty js (bc_ready s)) = Some (replicate (length (bc_items s)) False) \<and>
          bc_on_slid (bc_announce ty js (bc_ready s)) = [SlidIndicator])"
  using assms bc_ready_frame [of s]
  by (auto simp: bc_rest_def bc_announce_def Let_def map_replicate_const)

lemma bc_slide_settles:
  assumes rest: "bc_rest s a" and tgt: "bc_target ty nx s = [j]" and j: "j < length (bc_items s)" "j \<noteq> a"
  shows "bc_rest (bc_settle (bc_slide ty nx False s)) j"
proof -
  have one: "bc_one s a" and idle: "bc_on_end s = []" using rest by (simp_all add: bc_rest_def)
  note ready = bc_ready_frame [OF idle]
  define t where "t = bc_announce ty [j] (bc_ready s)"
  have t: "bc_items t = bc_items s" "bc_on_end t = []" "bc_slids t = 0"
    using rest by (simp_all add: t_def ready bc_rest_def)
  have one_t: "bc_one t a" using one t by (simp add: bc_one_def)
  note ind = bc_announce_at [OF rest, of ty "[j]", folded t_def]
  have slide: "bc_slide ty nx False s = (if bc_interval s \<noteq> None then bc_cycle False (bc_move ty [a] [j] t) else bc_move ty [a] [j] t)"
    using one j by (simp add: bc_slide_def tgt bc_actives_one [OF one] ready Let_def t_def bc_one_def)
  show ?thesis
  proof (cases "bc_animated t")
    case True
    have "bc_begun (bc_move ty [a] [j] t) ty a j"
      using bc_move_one [OF one_t, of j ty] True j t ind rest
      by (auto simp: bc_begun_def bc_move_def nth_bc_at bc_rest_def)
    then show ?thesis by (auto simp: slide bc_begun_settles)
  next
    case False
    define u where "u = (bc_at [j] (\<lambda>x. x\<lparr>bi_active := True\<rparr>) (bc_at [a] (\<lambda>x. x\<lparr>bi_active := False\<rparr>) t))\<lparr>bc_sliding := False\<rparr>"
    have u: "bc_one u j" "bc_indicators u = bc_indicators t" "bc_on_slid u = bc_on_slid t"
        "length (bc_items u) = length (bc_items s)"
      using one_t j t by (auto simp: u_def bc_one_def nth_bc_at)
    have "bc_rest (bc_slid_now u) j"
      using ind u bc_mark_at [OF u(1)] rest t
      by (auto simp: bc_rest_def bc_slid_now_def u_def nth_bc_at bc_one_def)
    then have "bc_rest (bc_move ty [a] [j] t) j" using False by (simp add: bc_move_def u_def)
    then have "bc_rest (bc_slide ty nx False s) j" by (auto simp: slide)
    then show ?thesis using bc_rest_settles by metis
  qed
qed

text \<open>C36: From rest, next, previous and \<open>to\<close>, left to settle, bring the carousel to rest at the next item, the previous one (round
  both ends) or the one asked for, with its indicator, animated or not and whether or not an interval runs.\<close>

theorem bs_carousel_moves:
  assumes rest: "bc_rest s a" and n: "2 \<le> length (bc_items s)"
  shows "bc_rest (bc_settle (bc_next False s)) ((a + 1) mod length (bc_items s)) \<and>
         bc_rest (bc_settle (bc_prev False s)) ((a + length (bc_items s) - 1) mod length (bc_items s)) \<and>
         (0 \<le> pos \<and> pos < int (length (bc_items s)) \<longrightarrow> bc_rest (bc_settle (bc_to pos False s)) (nat pos))"
proof (intro conjI impI)
  have one: "bc_one s a" and still: "\<not> bc_sliding s" using rest by (simp_all add: bc_rest_def)
  have a: "a < length (bc_items s)" using one by (simp add: bc_one_def)
  have fwd: "bc_target BcNext None s = [(a + 1) mod length (bc_items s)]"
    using a n by (auto simp: bc_target_def bc_actives_one [OF one] bc_siblings_def bc_fallback_def mod_Suc)
  have bwd: "bc_target BcPrev None s = [(a + length (bc_items s) - 1) mod length (bc_items s)]"
  proof (cases a)
    case (Suc b)
    then have "(a + length (bc_items s) - 1) mod length (bc_items s) = (b + length (bc_items s)) mod length (bc_items s)" by simp
    then show ?thesis using a Suc by (simp add: bc_target_def bc_actives_one [OF one] bc_siblings_def)
  qed (use a n in \<open>auto simp: bc_target_def bc_actives_one [OF one] bc_siblings_def bc_fallback_def\<close>)
  have lt: "i mod length (bc_items s) < length (bc_items s)" for i using a by (intro mod_less_divisor) linarith
  have ne: "(a + 1) mod length (bc_items s) \<noteq> a" using a n by (auto simp: mod_Suc)
  have ne': "(a + length (bc_items s) - 1) mod length (bc_items s) \<noteq> a"
  proof (cases a)
    case (Suc b)
    then have "(a + length (bc_items s) - 1) mod length (bc_items s) = (b + length (bc_items s)) mod length (bc_items s)" by simp
    then show ?thesis using a Suc by simp
  qed (use n in auto)
  show "bc_rest (bc_settle (bc_next False s)) ((a + 1) mod length (bc_items s))"
    using bc_slide_settles [OF rest fwd lt ne] still a by (simp add: bc_next_def)
  show "bc_rest (bc_settle (bc_prev False s)) ((a + length (bc_items s) - 1) mod length (bc_items s))"
    using bc_slide_settles [OF rest bwd lt ne'] still a by (simp add: bc_prev_def)
  assume pos: "0 \<le> pos \<and> pos < int (length (bc_items s))"
  show "bc_rest (bc_settle (bc_to pos False s)) (nat pos)"
  proof (cases "int a = pos")
    case True
    have "bc_rest (bc_pause False s) a"
      using rest bc_pause_idle [of s] by (simp add: bc_rest_def bc_one_def)
    then have "bc_rest (bc_to pos False s) (nat pos)"
      using True still pos by (auto simp: bc_to_def bc_index_one [OF one])
    then show ?thesis using bc_rest_settles by metis
  next
    case False
    then have "nat pos \<noteq> a" "nat pos < length (bc_items s)" using pos by auto
    then show ?thesis
      using bc_slide_settles [OF rest bc_target_Some] False still pos
      by (auto simp: bc_to_def bc_index_one [OF one])
  qed
qed

theorem bs_carousel_moves_witness:
  "bc_rest (bc_settle (bc_next False (bc_new 3 2 True True True 0))) 0 \<and>
   bc_rest (bc_settle (bc_to 1 False (bc_new 3 2 True True True 0))) 1"
proof -
  have "bc_rest (bc_new 3 2 True True True 0) 2" by (simp add: bc_rest_def bc_one_def bc_new_def)
  then show ?thesis
    using bs_carousel_moves [of "bc_new 3 2 True True True 0" 2 1] by (simp add: bc_new_def)
qed

text \<open>
  \<open>slide\<close> sets \<open>sliding\<close> before it looks whether there is anywhere to go and before it asks the listeners of \<open>slide\<close>. When it
  returns early, with a single item or because a listener prevented the event, nothing resets the flag: the carousel
  never moves again.
\<close>

definition bc_stuck :: "bs_carousel \<Rightarrow> bool" where
  "bc_stuck s \<longleftrightarrow> bc_sliding s \<and> bc_on_end s = [] \<and> bc_slids s = 0"

lemma bc_stuck_step:
  assumes "bc_stuck s"
  shows "bc_stuck (bc_step s e) \<and> bc_items (bc_step s e) = bc_items s"
  using assms bc_pause_idle [of s]
  by (cases e)
    (auto simp: bc_stuck_def bc_next_def bc_prev_def bc_to_def bc_tick_def bc_slid_def bc_transition_end_idle
      split: option.splits)

text \<open>A carousel whose slide ended early (a single item, or a listener that prevented \<open>slide\<close>) never moves again: no call,
  click, interval or transition changes its items any more.\<close>

lemma bs_carousel_stuck:
  assumes rest: "bc_rest s a" and early: "p \<or> length (bc_items s) = 1"
  shows "bc_items (foldl bc_step (bc_next p s) es) = bc_items s"
proof -
  have one: "bc_one s a" and idle: "bc_on_end s = []" using rest by (simp_all add: bc_rest_def)
  note ready = bc_ready_frame [OF idle]
  obtain j where j: "bc_target BcNext None s = [j]" "j < length (bc_items s)"
    using bc_target_None [OF one] by blast
  have act: "bi_active (bc_items s ! j) = (j = a)" using one j by (simp add: bc_one_def)
  have "bc_next p s = (if j = a then bc_ready s else bc_announce BcNext [j] (bc_ready s))"
    using rest early j act one by (auto simp: bc_next_def bc_rest_def bc_slide_def ready Let_def bc_one_def)
  then have stuck: "bc_stuck (bc_next p s)" and items: "bc_items (bc_next p s) = bc_items s"
    using rest by (auto simp: bc_stuck_def ready bc_rest_def)
  have "bc_stuck (foldl bc_step t es) \<and> bc_items (foldl bc_step t es) = bc_items t" if "bc_stuck t" for t
    using that by (induction es arbitrary: t) (auto simp: bc_stuck_step)
  then show ?thesis using stuck items by simp
qed

lemma bs_carousel_stuck_example:
  "bc_items (foldl bc_step (bc_next True (bc_new 3 0 False True True 5000)) [BcDoCycle, BcTick 0 False, BcEnd, BcDoTo 2 False])
     = bc_items (bc_new 3 0 False True True 5000)"
proof -
  have "bc_rest (bc_new 3 0 False True True 5000) 0" by (simp add: bc_rest_def bc_one_def bc_new_def)
  then show ?thesis
    using bs_carousel_stuck [of "bc_new 3 0 False True True 5000" 0 True "[BcDoCycle, BcTick 0 False, BcEnd, BcDoTo 2 False]"]
    by simp
qed

text \<open>
  A click on an indicator while the carousel slides pauses it, which ends the transition at once, and moves on before the
  event \<open>slid\<close> of the first slide is triggered; that event then runs the handlers of both slides, and none is left for the
  second: the carousel stands at item 2 and its indicators show item 1.
\<close>

lemma bs_carousel_wrong_indicator:
  "let s = foldl bc_step (bc_new 3 0 True True True 0)
             [BcDoNext False, BcDoPause, BcDoTo 2 False, BcDoCycle, BcSlid False, BcEnd, BcSlid False]
   in bc_actives s = [2] \<and> bc_indicators s = Some [False, True, False] \<and> bc_on_end s = [] \<and> bc_on_slid s = []"
  by code_simp

end
