(* ===== verification/Bs_Tabs.thy ===== *)
theory Bs_Tabs
  imports Js_Prelude
begin

text \<open>
  The tabs of Bootstrap 2.3.2 as \<open>fuelux/dist/all.js\<close> bundles them (module \<open>bootstrap/bootstrap-tab\<close>): one list of tabs, the
  list items of the links, and the panes they point to, all children of one container. Tab \<open>i\<close> shows the pane
  \<open>tb_target ! i\<close>. The end of the transition of a pane is an event of its own.
  The lemmas show that the marked tab is the one shown last, what a click does when it is left to settle, and that two
  clicks before the transition has ended leave two panes shown.
\<close>

subsection \<open>State\<close>

record tb_pane =
  tp_active :: bool
  tp_in :: bool
  tp_fade :: bool

text \<open>\<open>tb_pending\<close>: the handlers \<open>next\<close> bound on panes, each with the pane it is bound on, the panes found active, the pane to show, its tab
  and the tab that was active before.\<close>

record tb_wait =
  tw_on :: nat
  tw_active :: "nat list"
  tw_pane :: nat
  tw_tab :: nat
  tw_previous :: "nat option"

datatype tb_note = TbShow nat "nat option" | TbShown nat "nat option"

record tabs =
  tb_tabs :: "bool list"
  tb_target :: "nat list"
  tb_panes :: "tb_pane list"
  tb_support :: bool
  tb_pending :: "tb_wait list"
  tb_log :: "tb_note list"

definition tb_new :: "bool \<Rightarrow> bool \<Rightarrow> nat \<Rightarrow> nat \<Rightarrow> tabs" where
  "tb_new support fade n a =
     \<lparr>tb_tabs = map (\<lambda>i. i = a) [0..<n], tb_target = [0..<n],
      tb_panes = map (\<lambda>i. \<lparr>tp_active = (i = a), tp_in = (i = a \<and> fade), tp_fade = fade\<rparr>) [0..<n],
      tb_support = support, tb_pending = [], tb_log = []\<rparr>"

definition tb_actives :: "tabs \<Rightarrow> nat list" where
  "tb_actives s = filter (\<lambda>i. tp_active (tb_panes s ! i)) [0..<length (tb_panes s)]"

definition tb_at :: "nat list \<Rightarrow> (tb_pane \<Rightarrow> tb_pane) \<Rightarrow> tabs \<Rightarrow> tabs" where
  "tb_at is f s = s\<lparr>tb_panes := map (\<lambda>(i, x). if i \<in> set is then f x else x) (enumerate 0 (tb_panes s))\<rparr>"

subsection \<open>Operations\<close>

text \<open>\<open>$ul.find('.active:last a')[0]\<close>: the link of the last active tab.\<close>

definition tb_previous :: "tabs \<Rightarrow> nat option" where
  "tb_previous s =
     (case rev (filter (\<lambda>i. tb_tabs s ! i) [0..<length (tb_tabs s)]) of [] \<Rightarrow> None | i # _ \<Rightarrow> Some i)"

text \<open>\<open>activate(li, ul)\<close> has no callback and so no transition.\<close>

definition tb_mark :: "nat \<Rightarrow> tabs \<Rightarrow> tabs" where
  "tb_mark i s = s\<lparr>tb_tabs := map (\<lambda>j. j = i) [0..<length (tb_tabs s)]\<rparr>"

text \<open>The function \<open>next\<close> of \<open>activate\<close> for a pane, with its callback.\<close>

definition tb_next :: "bool \<Rightarrow> tb_wait \<Rightarrow> tabs \<Rightarrow> tabs" where
  "tb_next transition w s0 =
     (let s = tb_at (tw_active w) (\<lambda>x. x\<lparr>tp_active := False\<rparr>) s0;
          s' = tb_at [tw_pane w] (\<lambda>x. if transition then x\<lparr>tp_active := True, tp_in := True\<rparr>
                                        else x\<lparr>tp_active := True, tp_fade := False\<rparr>) s
      in s'\<lparr>tb_log := tb_log s' @ [TbShown (tw_tab w) (tw_previous w)]\<rparr>)"

text \<open>
  \<open>one\<close> binds the handler on every active pane; each binding runs once. In the model's runs at most the panes of a race
  are active together.
\<close>

definition tb_activate :: "nat \<Rightarrow> nat \<Rightarrow> nat option \<Rightarrow> tabs \<Rightarrow> tabs" where
  "tb_activate j i previous s =
     (let act = tb_actives s;
          transition = (tb_support s \<and> (\<exists>a \<in> set act. tp_fade (tb_panes s ! a)));
          w = (\<lambda>a. \<lparr>tw_on = a, tw_active = act, tw_pane = j, tw_tab = i, tw_previous = previous\<rparr>);
          s' = (if transition then s\<lparr>tb_pending := tb_pending s @ map w act\<rparr> else tb_next False (w 0) s)
      in tb_at act (\<lambda>x. x\<lparr>tp_in := False\<rparr>) s')"

definition tb_show :: "nat \<Rightarrow> bool \<Rightarrow> tabs \<Rightarrow> tabs" where
  "tb_show i prevented s0 =
     (if tb_tabs s0 ! i then s0
      else let previous = tb_previous s0; s = s0\<lparr>tb_log := tb_log s0 @ [TbShow i previous]\<rparr>
           in if prevented then s else tb_activate (tb_target s ! i) i previous (tb_mark i s))"

definition tb_pane_end :: "nat \<Rightarrow> tabs \<Rightarrow> tabs" where
  "tb_pane_end a s =
     fold (tb_next True) (filter (\<lambda>w. tw_on w = a) (tb_pending s))
       (s\<lparr>tb_pending := filter (\<lambda>w. tw_on w \<noteq> a) (tb_pending s)\<rparr>)"

datatype tb_event = TbClick nat bool | TbEnd nat

fun tb_step :: "tabs \<Rightarrow> tb_event \<Rightarrow> tabs" where
  "tb_step s (TbClick i p) = (if i < length (tb_tabs s) then tb_show i p s else s)"
| "tb_step s (TbEnd a) = tb_pane_end a s"

text \<open>The transition of the pane that is waiting ends.\<close>

definition tb_settle :: "tabs \<Rightarrow> tabs" where
  "tb_settle s = fold tb_pane_end (remdups (map tw_on (tb_pending s))) s"

subsection \<open>Lemmas\<close>

lemma tb_at_fields [simp]:
  "tb_tabs (tb_at is f s) = tb_tabs s" "tb_target (tb_at is f s) = tb_target s" "tb_support (tb_at is f s) = tb_support s"
  "tb_pending (tb_at is f s) = tb_pending s" "tb_log (tb_at is f s) = tb_log s"
  "length (tb_panes (tb_at is f s)) = length (tb_panes s)"
  by (simp_all add: tb_at_def)

lemma nth_tb_at: "i < length (tb_panes s) \<Longrightarrow> tb_panes (tb_at is f s) ! i = (if i \<in> set is then f (tb_panes s ! i) else tb_panes s ! i)"
  by (simp add: tb_at_def nth_enumerate_eq)

text \<open>
  Tab \<open>i\<close> stands open: it is the marked one, its pane is the only active one and nothing is pending. \<open>fading\<close> says whether the
  panes still have the class \<open>fade\<close>.
\<close>

definition tb_rest :: "tabs \<Rightarrow> nat \<Rightarrow> bool" where
  "tb_rest s i \<longleftrightarrow>
     i < length (tb_tabs s) \<and> tb_tabs s = map (\<lambda>j. j = i) [0..<length (tb_tabs s)] \<and>
     length (tb_target s) = length (tb_tabs s) \<and> set (tb_target s) \<subseteq> {..<length (tb_panes s)} \<and>
     (\<forall>j < length (tb_panes s). tp_active (tb_panes s ! j) = (j = tb_target s ! i)) \<and>
     (\<forall>j < length (tb_panes s). tp_fade (tb_panes s ! j) \<longrightarrow> tp_in (tb_panes s ! j) = (j = tb_target s ! i)) \<and>
     tb_pending s = []"

lemma tb_rest_target: "tb_rest s i \<Longrightarrow> k < length (tb_tabs s) \<Longrightarrow> tb_target s ! k < length (tb_panes s)"
  unfolding tb_rest_def by (metis lessThan_iff nth_mem subsetD)

lemma tb_rest_actives:
  assumes "tb_rest s i"
  shows "tb_actives s = [tb_target s ! i]"
  unfolding tb_actives_def
proof (rule filter_upt_only)
  show "tb_target s ! i < length (tb_panes s)" using assms tb_rest_target [OF assms] by (simp add: tb_rest_def)
qed (use assms in \<open>simp add: tb_rest_def\<close>)

lemma tb_rest_previous: "tb_rest s i \<Longrightarrow> tb_previous s = Some i"
proof -
  assume rest: "tb_rest s i"
  have nth: "tb_tabs s ! j = (j = i)" if "j < length (tb_tabs s)" for j
  proof -
    have "tb_tabs s ! j = map (\<lambda>j. j = i) [0..<length (tb_tabs s)] ! j" using rest by (metis tb_rest_def)
    then show ?thesis using that by simp
  qed
  have "filter (\<lambda>j. tb_tabs s ! j) [0..<length (tb_tabs s)] = [i]"
    by (rule filter_upt_only) (use rest nth in \<open>auto simp: tb_rest_def\<close>)
  then show ?thesis by (simp add: tb_previous_def)
qed

lemma tb_rest_notes [simp]: "tb_rest (s\<lparr>tb_log := l\<rparr>) i = tb_rest s i"
  by (simp add: tb_rest_def)

subsection \<open>Properties\<close>

text \<open>From rest, a click on a tab, left to settle, marks exactly that tab and shows exactly its pane, with or without
  animation; the events \<open>show\<close> and \<open>shown\<close> are triggered once each with the tab left behind, and a click on the open tab
  does nothing.\<close>

lemma tabs_show:
  assumes rest: "tb_rest s i" and k: "k < length (tb_tabs s)"
  shows "let t = tb_settle (tb_step s (TbClick k False))
         in tb_rest t k \<and>
            tb_log t = tb_log s @ (if k = i then [] else [TbShow k (Some i), TbShown k (Some i)])"
proof -
  have nth: "tb_tabs s ! j = (j = i)" if "j < length (tb_tabs s)" for j
  proof -
    have "tb_tabs s ! j = map (\<lambda>j. j = i) [0..<length (tb_tabs s)] ! j" using rest by (metis tb_rest_def)
    then show ?thesis using that by simp
  qed
  define a j where "a = tb_target s ! i" and "j = tb_target s ! k"
  have aj: "a < length (tb_panes s)" "j < length (tb_panes s)"
    using tb_rest_target [OF rest] k rest by (auto simp: a_def j_def tb_rest_def)
  have pend: "tb_pending s = []" using rest by (simp add: tb_rest_def)
  show ?thesis
  proof (cases "k = i")
    case True
    then have "tb_step s (TbClick k False) = s" using k nth by (simp add: tb_show_def)
    then show ?thesis using rest True pend by (simp add: tb_settle_def Let_def)
  next
    case False
    define w where "w b = \<lparr>tw_on = b, tw_active = [a], tw_pane = j, tw_tab = k, tw_previous = Some i\<rparr>" for b
    define u where "u = tb_mark k (s\<lparr>tb_log := tb_log s @ [TbShow k (Some i)]\<rparr>)"
    have u: "tb_panes u = tb_panes s" "tb_pending u = []" "tb_target u = tb_target s"
        "tb_tabs u = map (\<lambda>j. j = k) [0..<length (tb_tabs s)]" "tb_log u = tb_log s @ [TbShow k (Some i)]"
        "tb_support u = tb_support s"
      using pend by (simp_all add: u_def tb_mark_def)
    have act: "tb_actives u = [a]" using tb_rest_actives [OF rest] u by (simp add: tb_actives_def a_def)
    have step: "tb_step s (TbClick k False) = tb_activate j k (Some i) u"
      using False k nth tb_rest_previous [OF rest] by (simp add: tb_show_def Let_def u_def j_def tb_mark_def)
    have base: "length (tb_target s) = length (tb_tabs s)" "set (tb_target s) \<subseteq> {..<length (tb_panes s)}"
        "\<And>x. x < length (tb_panes s) \<Longrightarrow> tp_active (tb_panes s ! x) = (x = a)"
        "\<And>x. x < length (tb_panes s) \<Longrightarrow> tp_fade (tb_panes s ! x) \<Longrightarrow> tp_in (tb_panes s ! x) = (x = a)"
      using rest by (simp_all add: tb_rest_def a_def)
    show ?thesis
    proof (cases "tb_support s \<and> tp_fade (tb_panes s ! a)")
      case True
      then have act': "tb_activate j k (Some i) u = tb_at [a] (\<lambda>x. x\<lparr>tp_in := False\<rparr>) (u\<lparr>tb_pending := [w a]\<rparr>)"
        by (simp add: tb_activate_def act u w_def Let_def)
      have "tb_settle (tb_activate j k (Some i) u)
              = tb_next True (w a) ((tb_at [a] (\<lambda>x. x\<lparr>tp_in := False\<rparr>) (u\<lparr>tb_pending := [w a]\<rparr>))\<lparr>tb_pending := []\<rparr>)"
        by (simp add: act' tb_settle_def tb_pane_end_def w_def)
      then show ?thesis
        unfolding step Let_def using False k aj base u
        by (auto simp: tb_next_def tb_rest_def nth_tb_at w_def Let_def j_def [symmetric])
    next
      case no: False
      then have "tb_activate j k (Some i) u = tb_at [a] (\<lambda>x. x\<lparr>tp_in := False\<rparr>) (tb_next False (w 0) u)"
        using no by (auto simp: tb_activate_def act u w_def Let_def)
      moreover have "tb_pending (tb_at [a] (\<lambda>x. x\<lparr>tp_in := False\<rparr>) (tb_next False (w 0) u)) = []"
        by (simp add: tb_next_def u Let_def)
      ultimately have "tb_settle (tb_activate j k (Some i) u) = tb_at [a] (\<lambda>x. x\<lparr>tp_in := False\<rparr>) (tb_next False (w 0) u)"
        by (simp add: tb_settle_def)
      then show ?thesis
        unfolding step Let_def using no False k aj base u
        by (auto simp: tb_next_def tb_rest_def nth_tb_at w_def Let_def j_def [symmetric])
    qed
  qed
qed

lemma tabs_show_example:
  "tb_rest (tb_settle (tb_step (tb_new True True 3 0) (TbClick 2 False))) 2"
proof -
  have "tb_rest (tb_new True True 3 0) 0" by (auto simp: tb_rest_def tb_new_def)
  then show ?thesis using tabs_show [of "tb_new True True 3 0" 0 2] by (simp add: Let_def tb_new_def)
qed

text \<open>
  Two clicks before the first pane has faded out leave both panes active: each pending handler removes the pane that was
  active when it was bound.
\<close>

lemma tabs_two_panes:
  "let s = foldl tb_step (tb_new True True 3 0) [TbClick 1 False, TbClick 2 False, TbEnd 0]
   in tb_pending s = [] \<and> tb_tabs s = [False, False, True] \<and> tb_actives s = [1, 2]"
  by code_simp

end
