(* ===== verification/Bs_Scroll.thy ===== *)
theory Bs_Scroll
  imports Js_Prelude
begin

text \<open>
  What follows the scroll position in Bootstrap 2.3.2 as \<open>fuelux/dist/all.js\<close> bundles it: the scroll spy (module
  \<open>bootstrap/bootstrap-scrollspy\<close>), which marks the link of the part of the page in view, and the affix (module
  \<open>bootstrap/bootstrap-affix\<close>), which fixes an element to the window. Positions are whole pixels. What the page measures
  (positions, heights) is an input of the operations.
  The lemmas show which link is marked, that the spy alternates between two links on the border of two parts, and
  which of its three classes the affix has.
\<close>

subsection \<open>The scroll spy\<close>

text \<open>
  A link of the navigation: its target, the class \<open>active\<close> of its list item, and, when the item stands in a drop-down menu, the index
  of the link whose list item holds that menu.
\<close>

record spy_link =
  sl_target :: string
  sl_active :: bool
  sl_dropdown :: "nat option"

record spy =
  sp_offsets :: "int list"
  sp_targets :: "string list"
  sp_active :: "string option"
  sp_links :: "spy_link list"
  sp_offset_opt :: int
  sp_log :: "string list"

text \<open>
  \<open>refresh\<close>: \<open>pos h\<close> is the offset of the element that \<open>h\<close> selects, \<open>None\<close> when there is none or \<open>h\<close> is not of the form \<open>#name\<close>. The sort by
  offset keeps the order of links with equal offsets, as every current engine does.
\<close>

definition spy_hash :: "string \<Rightarrow> bool" where
  "spy_hash h =
     (case h of
        x # c # _ \<Rightarrow> x = CHR ''#'' \<and>
          (let n = (of_char c :: nat) in 48 \<le> n \<and> n \<le> 57 \<or> 65 \<le> n \<and> n \<le> 90 \<or> n = 95 \<or> 97 \<le> n \<and> n \<le> 122)
      | _ \<Rightarrow> False)"

definition spy_refresh :: "(string \<Rightarrow> int option) \<Rightarrow> spy \<Rightarrow> spy" where
  "spy_refresh pos s =
     (let found = concat (map (\<lambda>l. if spy_hash (sl_target l)
                                   then (case pos (sl_target l) of Some y \<Rightarrow> [(y, sl_target l)] | None \<Rightarrow> []) else [])
                             (sp_links s));
          sorted = sort_key fst found
      in s\<lparr>sp_offsets := map fst sorted, sp_targets := map snd sorted\<rparr>)"

definition spy_activate :: "string \<Rightarrow> spy \<Rightarrow> spy" where
  "spy_activate t s =
     (let off = map (\<lambda>l. l\<lparr>sl_active := False\<rparr>) (sp_links s);
          own = map (\<lambda>l. if sl_target l = t then l\<lparr>sl_active := True\<rparr> else l) off;
          menus = concat (map (\<lambda>l. if sl_target l = t then (case sl_dropdown l of Some d \<Rightarrow> [d] | None \<Rightarrow> []) else []) own)
      in s\<lparr>sp_active := Some t, sp_log := sp_log s @ [t],
           sp_links := map (\<lambda>(i, l). if i \<in> set menus then l\<lparr>sl_active := True\<rparr> else l) (enumerate 0 own)\<rparr>)"

text \<open>
  \<open>process\<close>. Outside the array \<open>offsets[i + 1]\<close> is \<open>undefined\<close>, and \<open>!offsets[i + 1]\<close> also holds for the offset 0. The loop runs down from
  the last index and compares with the target that was active before it began.
\<close>

definition spy_hit :: "spy \<Rightarrow> string option \<Rightarrow> int \<Rightarrow> nat \<Rightarrow> bool" where
  "spy_hit s before y i \<longleftrightarrow>
     before \<noteq> js_nth (sp_targets s) i \<and> sp_offsets s ! i \<le> y \<and>
     (case js_nth (sp_offsets s) (Suc i) of None \<Rightarrow> True | Some z \<Rightarrow> z = 0 \<or> y \<le> z)"

definition spy_process :: "int \<Rightarrow> int \<Rightarrow> spy \<Rightarrow> spy" where
  "spy_process scroll maxScroll s =
     (let y = scroll + sp_offset_opt s
      in if maxScroll \<le> y
         then (case sp_targets s of
                 [] \<Rightarrow> s
               | _ \<Rightarrow> if sp_active s \<noteq> Some (last (sp_targets s)) then spy_activate (last (sp_targets s)) s else s)
         else fold (\<lambda>i t. if spy_hit s (sp_active s) y i then spy_activate (sp_targets s ! i) t else t)
                (rev [0..<length (sp_offsets s)]) s)"

subsection \<open>The affix\<close>

datatype ax_place = AxTop | AxBottom

record affix =
  ax_affixed :: "ax_place option option"
  ax_unpin :: "int option"
  ax_classes :: "string list"

text \<open>
  What \<open>checkPosition\<close> reads: whether the element is visible, its position and height, the scroll position, the height of the document
  and the two offsets, functions already called and a number standing for both.
\<close>

record ax_page =
  pg_visible :: bool
  pg_top :: int
  pg_height :: int
  pg_scroll :: int
  pg_document :: int
  pg_offset_top :: "int option"
  pg_offset_bottom :: "int option"

definition ax_place_of :: "affix \<Rightarrow> ax_page \<Rightarrow> ax_place option" where
  "ax_place_of a p =
     (if (case ax_unpin a of None \<Rightarrow> False | Some u \<Rightarrow> pg_scroll p + u \<le> pg_top p) then None
      else if (case pg_offset_bottom p of None \<Rightarrow> False | Some b \<Rightarrow> pg_document p - b \<le> pg_top p + pg_height p) then Some AxBottom
      else if (case pg_offset_top p of None \<Rightarrow> False | Some t \<Rightarrow> pg_scroll p \<le> t) then Some AxTop
      else None)"

fun ax_class :: "ax_place option \<Rightarrow> string" where
  "ax_class None = ''affix''"
| "ax_class (Some AxTop) = ''affix-top''"
| "ax_class (Some AxBottom) = ''affix-bottom''"

definition ax_checkPosition :: "ax_page \<Rightarrow> affix \<Rightarrow> affix" where
  "ax_checkPosition p a =
     (if \<not> pg_visible p then a
      else let place = ax_place_of a p
           in if ax_affixed a = Some place then a
              else \<lparr>ax_affixed = Some place,
                    ax_unpin = (if place = Some AxBottom then Some (pg_top p - pg_scroll p) else None),
                    ax_classes = filter (\<lambda>c. c \<notin> {''affix'', ''affix-top'', ''affix-bottom''}) (ax_classes a) @ [ax_class place]\<rparr>)"

subsection \<open>Lemmas: the scroll spy\<close>

lemma spy_activate_frame [simp]:
  "sp_offsets (spy_activate t s) = sp_offsets s" "sp_targets (spy_activate t s) = sp_targets s"
  "sp_active (spy_activate t s) = Some t" "sp_offset_opt (spy_activate t s) = sp_offset_opt s"
  "length (sp_links (spy_activate t s)) = length (sp_links s)"
  "sp_log (spy_activate t s) = sp_log s @ [t]"
  by (simp_all add: spy_activate_def Let_def)

text \<open>The parts of the page: ascending offsets, none but the first 0, distinct targets.\<close>

definition spy_ok :: "spy \<Rightarrow> bool" where
  "spy_ok s \<longleftrightarrow>
     length (sp_targets s) = length (sp_offsets s) \<and> sorted (sp_offsets s) \<and> distinct (sp_offsets s) \<and>
     distinct (sp_targets s) \<and> (\<forall>i. 0 < i \<and> i < length (sp_offsets s) \<longrightarrow> sp_offsets s ! i \<noteq> 0)"

lemma spy_ok_less: "spy_ok s \<Longrightarrow> i < j \<Longrightarrow> j < length (sp_offsets s) \<Longrightarrow> sp_offsets s ! i < sp_offsets s ! j"
  using sorted_nth_mono [of "sp_offsets s" i j] nth_eq_iff_index_eq [of "sp_offsets s" i j]
  by (simp add: spy_ok_def)

text \<open>\<open>y\<close> is inside part \<open>k\<close>, on no border.\<close>

definition spy_inside :: "spy \<Rightarrow> int \<Rightarrow> nat \<Rightarrow> bool" where
  "spy_inside s y k \<longleftrightarrow>
     k < length (sp_offsets s) \<and> sp_offsets s ! k \<le> y \<and> (0 < k \<longrightarrow> sp_offsets s ! k < y) \<and>
     (Suc k < length (sp_offsets s) \<longrightarrow> y < sp_offsets s ! Suc k)"

lemma spy_hit_inside:
  assumes ok: "spy_ok s" and y: "spy_inside s y k" and i: "i < length (sp_offsets s)"
  shows "spy_hit s before y i = (i = k \<and> before \<noteq> Some (sp_targets s ! k))"
proof -
  have len: "length (sp_targets s) = length (sp_offsets s)" using ok by (simp add: spy_ok_def)
  consider "i < k" | "i = k" | "k < i" by linarith
  then show ?thesis
  proof cases
    case 1
    then have k: "Suc i < length (sp_offsets s)" using y by (simp add: spy_inside_def)
    have "sp_offsets s ! Suc i \<le> sp_offsets s ! k"
      using spy_ok_less [OF ok, of "Suc i" k] 1 y by (cases "Suc i = k") (auto simp: spy_inside_def)
    then have "sp_offsets s ! Suc i < y" using 1 y by (auto simp: spy_inside_def)
    moreover have "sp_offsets s ! Suc i \<noteq> 0" using ok k by (simp add: spy_ok_def)
    ultimately show ?thesis using 1 k by (simp add: spy_hit_def js_nth_def)
  next
    case 2
    then show ?thesis using y len by (auto simp: spy_hit_def js_nth_def spy_inside_def)
  next
    case 3
    have "sp_offsets s ! Suc k \<le> sp_offsets s ! i"
      using spy_ok_less [OF ok, of "Suc k" i] 3 i by (cases "Suc k = i") auto
    then have "y < sp_offsets s ! i" using y 3 i by (auto simp: spy_inside_def)
    then show ?thesis using 3 by (simp add: spy_hit_def)
  qed
qed

lemma spy_fold_one:
  assumes "\<And>i. i \<in> set is \<Longrightarrow> P i = (i = k \<and> b)" "distinct is" "k \<in> set is"
  shows "fold (\<lambda>i t. if P i then f i t else t) is s = (if b then f k s else s)"
proof -
  have none: "fold (\<lambda>i t. if P i then f i t else t) js t = t" if "\<And>i. i \<in> set js \<Longrightarrow> \<not> P i" for js t
    using that by (induction js arbitrary: t) auto
  obtain xs ys where parts: "is = xs @ k # ys" using assms(3) by (metis split_list)
  then have "\<And>i. i \<in> set xs \<Longrightarrow> \<not> P i" "\<And>i. i \<in> set ys \<Longrightarrow> \<not> P i" using assms by auto
  then show ?thesis using assms(1) [of k] assms(3) by (simp add: parts none)
qed

text \<open>A scroll to a position inside a part of the page makes that part's target the active one, at the bottom of the page the
  last; the event \<open>activate\<close> is triggered exactly when the active target changes.\<close>

lemma scrollspy_follows:
  assumes ok: "spy_ok s" and y: "spy_inside s (scroll + sp_offset_opt s) k"
    and j: "j = (if maxScroll \<le> scroll + sp_offset_opt s then length (sp_targets s) - 1 else k)"
  shows "sp_active (spy_process scroll maxScroll s) = Some (sp_targets s ! j) \<and>
         sp_log (spy_process scroll maxScroll s)
           = sp_log s @ (if sp_active s = Some (sp_targets s ! j) then [] else [sp_targets s ! j])"
proof (cases "maxScroll \<le> scroll + sp_offset_opt s")
  case True
  have "sp_targets s \<noteq> []" using ok y by (auto simp: spy_ok_def spy_inside_def)
  then show ?thesis using True j by (auto simp: spy_process_def Let_def last_conv_nth split: list.splits)
next
  case False
  have "spy_process scroll maxScroll s
          = (if sp_active s \<noteq> Some (sp_targets s ! k) then spy_activate (sp_targets s ! k) s else s)"
  proof -
    have "fold (\<lambda>i t. if spy_hit s (sp_active s) (scroll + sp_offset_opt s) i then spy_activate (sp_targets s ! i) t else t)
            (rev [0..<length (sp_offsets s)]) s
          = (if sp_active s \<noteq> Some (sp_targets s ! k) then spy_activate (sp_targets s ! k) s else s)"
      by (rule spy_fold_one) (use y in \<open>auto simp: spy_hit_inside [OF ok y] spy_inside_def\<close>)
    then show ?thesis using False by (simp add: spy_process_def Let_def)
  qed
  then show ?thesis using False j by auto
qed

lemma scrollspy_follows_example:
  "sp_active (spy_process 120 1000 (spy_refresh (\<lambda>h. if h = ''#a'' then Some 0 else if h = ''#b'' then Some 100 else None)
     \<lparr>sp_offsets = [], sp_targets = [], sp_active = None,
      sp_links = [\<lparr>sl_target = ''#b'', sl_active = False, sl_dropdown = None\<rparr>,
                  \<lparr>sl_target = ''#a'', sl_active = False, sl_dropdown = None\<rparr>],
      sp_offset_opt = 10, sp_log = []\<rparr>)) = Some ''#b''"
proof -
  define s where "s = spy_refresh (\<lambda>h. if h = ''#a'' then Some 0 else if h = ''#b'' then Some 100 else None)
     \<lparr>sp_offsets = [], sp_targets = [], sp_active = None,
      sp_links = [\<lparr>sl_target = ''#b'', sl_active = False, sl_dropdown = None\<rparr>,
                  \<lparr>sl_target = ''#a'', sl_active = False, sl_dropdown = None\<rparr>],
      sp_offset_opt = 10, sp_log = []\<rparr>"
  have s: "sp_offsets s = [0, 100]" "sp_targets s = [''#a'', ''#b'']" "sp_offset_opt s = 10"
    unfolding s_def by code_simp+
  have "spy_ok s" using s by (auto simp: spy_ok_def less_Suc_eq)
  moreover have "spy_inside s (120 + sp_offset_opt s) 1" by (simp add: spy_inside_def s)
  ultimately show ?thesis
    using scrollspy_follows [of s 120 1 1 1000] by (simp add: s flip: s_def)
qed

text \<open>
  On the border of two parts both conditions of the loop hold, and it compares with the target that was active before: each scroll
  event there marks the other of the two links.
\<close>

lemma scrollspy_alternates:
  assumes ok: "spy_ok s" and k: "Suc k < length (sp_offsets s)"
    and y: "scroll + sp_offset_opt s = sp_offsets s ! Suc k" "scroll + sp_offset_opt s < maxScroll"
  shows "sp_active s = Some (sp_targets s ! k) \<Longrightarrow> spy_hit s (sp_active s) (scroll + sp_offset_opt s) (Suc k)"
    and "sp_active s = Some (sp_targets s ! Suc k) \<Longrightarrow> spy_hit s (sp_active s) (scroll + sp_offset_opt s) k"
proof -
  have ne: "sp_targets s ! k \<noteq> sp_targets s ! Suc k" "length (sp_targets s) = length (sp_offsets s)"
    using ok k nth_eq_iff_index_eq [of "sp_targets s" k "Suc k"] by (auto simp: spy_ok_def)
  have lt: "Suc (Suc k) < length (sp_offsets s) \<Longrightarrow> sp_offsets s ! Suc k < sp_offsets s ! Suc (Suc k)"
    by (rule spy_ok_less [OF ok]) auto
  have lt': "sp_offsets s ! k < sp_offsets s ! Suc k" by (rule spy_ok_less [OF ok]) (use k in auto)
  show "sp_active s = Some (sp_targets s ! k) \<Longrightarrow> spy_hit s (sp_active s) (scroll + sp_offset_opt s) (Suc k)"
    using ne lt k by (auto simp: spy_hit_def js_nth_def y)
  show "sp_active s = Some (sp_targets s ! Suc k) \<Longrightarrow> spy_hit s (sp_active s) (scroll + sp_offset_opt s) k"
    using ne lt' k by (auto simp: spy_hit_def js_nth_def y)
qed

definition spy_border :: spy where
  "spy_border =
     \<lparr>sp_offsets = [0, 100], sp_targets = [''#a'', ''#b''], sp_active = Some ''#a'',
      sp_links = [\<lparr>sl_target = ''#a'', sl_active = True, sl_dropdown = None\<rparr>,
                  \<lparr>sl_target = ''#b'', sl_active = False, sl_dropdown = None\<rparr>],
      sp_offset_opt = 10, sp_log = []\<rparr>"

lemma scrollspy_alternates_example:
  "sp_log (spy_process 90 1000 (spy_process 90 1000 (spy_process 90 1000 spy_border))) = [''#b'', ''#a'', ''#b'']"
  by code_simp

subsection \<open>Lemmas: the affix\<close>

lemma ax_classes_exact:
  assumes "set (ax_classes a) \<inter> {''affix'', ''affix-top'', ''affix-bottom''} \<subseteq> (case ax_affixed a of None \<Rightarrow> {} | Some p \<Rightarrow> {ax_class p})"
    and "\<forall>p. ax_affixed a = Some p \<longrightarrow> ax_class p \<in> set (ax_classes a)" and "pg_visible p"
  shows "set (ax_classes (ax_checkPosition p a)) \<inter> {''affix'', ''affix-top'', ''affix-bottom''}
           = {ax_class (ax_place_of a p)}"
  using assms by (cases "ax_place_of a p" rule: ax_class.cases) (auto simp: ax_checkPosition_def Let_def)

text \<open>
  An affix at the bottom remembers how far it stands from the top of the window and lets go exactly when the page is scrolled back by
  more than it moved since.
\<close>

lemma ax_unpin_spec:
  "pg_visible p \<Longrightarrow> ax_affixed a \<noteq> Some (ax_place_of a p) \<Longrightarrow>
   ax_unpin (ax_checkPosition p a) = (if ax_place_of a p = Some AxBottom then Some (pg_top p - pg_scroll p) else None)"
  by (simp add: ax_checkPosition_def Let_def)

lemma ax_top:
  assumes "ax_unpin a = None" "pg_offset_bottom p = None" "pg_offset_top p = Some t" "pg_visible p"
  shows "ax_affixed (ax_checkPosition p a) = Some (if pg_scroll p \<le> t then Some AxTop else None)"
  using assms by (auto simp: ax_checkPosition_def ax_place_of_def Let_def)

end
