(* ===== verification/Bs_Menus.thy ===== *)
theory Bs_Menus
  imports Js_Prelude
begin

text \<open>
  What opens and closes in Bootstrap 2.3.2 as \<open>fuelux/dist/all.js\<close> bundles it: the drop-down menus of a page (module
  \<open>bootstrap/bootstrap-dropdown\<close>), the panels of an accordion (\<open>bootstrap-collapse\<close>), a button with its texts
  (\<open>bootstrap-button\<close>) and an alert (\<open>bootstrap-alert\<close>).
  The lemmas show that at most one menu and at most one panel is open whatever happens, where the arrow keys go, what a click on a
  panel's heading does when it is left to settle, and when a button gets its text back.
\<close>

subsection \<open>Drop-down menus\<close>

text \<open>
  A toggle with the number of its parent (the element \<open>getParent\<close> finds) and whether it is disabled; per parent whether it has the class
  \<open>open\<close> and how many items of its menu are visible; where the focus is; the backdrops of touch devices.
\<close>

record dd_toggle =
  dt_parent :: nat
  dt_disabled :: bool

datatype dd_focus = FocusElsewhere | FocusToggle nat | FocusItem nat nat

record dropdowns =
  dd_toggles :: "dd_toggle list"
  dd_open :: "bool list"
  dd_items :: "nat list"
  dd_focus :: dd_focus
  dd_touch :: bool
  dd_backdrops :: nat

definition dd_clearMenus :: "dropdowns \<Rightarrow> dropdowns" where
  "dd_clearMenus s =
     s\<lparr>dd_backdrops := 0,
       dd_open := map (\<lambda>(p, b). b \<and> p \<notin> dt_parent ` set (dd_toggles s)) (enumerate 0 (dd_open s))\<rparr>"

text \<open>A click on a toggle. A disabled one leaves the event to the page, whose handler closes the menus.\<close>

definition dd_click :: "nat \<Rightarrow> dropdowns \<Rightarrow> dropdowns" where
  "dd_click i s =
     (let t = dd_toggles s ! i; p = dt_parent t; isActive = dd_open s ! p; c = dd_clearMenus s
      in if dt_disabled t then c
         else (if isActive then c
               else c\<lparr>dd_backdrops := (if dd_touch s then Suc (dd_backdrops c) else dd_backdrops c),
                      dd_open := (dd_open c)[p := \<not> dd_open c ! p]\<rparr>)\<lparr>dd_focus := FocusToggle i\<rparr>)"

text \<open>The test \<open>/(38|40|27)/\<close> on the key code, and the item that an arrow key leads to (\<open>None\<close> is the index \<open>-1\<close>).\<close>

definition dd_key_matches :: "nat \<Rightarrow> bool" where
  "dd_key_matches k \<longleftrightarrow> (\<exists>w \<in> {''38'', ''40'', ''27''}. index_of w (nat_str k) \<noteq> None)"

definition dd_index :: "nat \<Rightarrow> nat \<Rightarrow> nat option \<Rightarrow> nat" where
  "dd_index k n focused =
     (let i = (case focused of None \<Rightarrow> -1 | Some j \<Rightarrow> int j);
          i1 = (if k = 38 \<and> i > 0 then i - 1 else i);
          i2 = (if k = 40 \<and> i1 < int n - 1 then i1 + 1 else i1)
      in nat (if i2 = -1 then 0 else i2))"

definition dd_focused :: "nat \<Rightarrow> dropdowns \<Rightarrow> nat option" where
  "dd_focused p s = (case dd_focus s of FocusItem q k \<Rightarrow> if q = p \<and> k < dd_items s ! p then Some k else None | _ \<Rightarrow> None)"

text \<open>
  \<open>keydown\<close> on a toggle (\<open>Inl\<close>) or on the menu of a parent (\<open>Inr\<close>). Escape puts the focus on the parent's toggle, the last if it has
  several, and clicks; a click on the menu itself reaches the page.
\<close>

definition dd_keydown :: "nat + nat \<Rightarrow> nat \<Rightarrow> dropdowns \<Rightarrow> dropdowns" where
  "dd_keydown on k s =
     (let p = (case on of Inl i \<Rightarrow> dt_parent (dd_toggles s ! i) | Inr q \<Rightarrow> q);
          disabled = (case on of Inl i \<Rightarrow> dt_disabled (dd_toggles s ! i) | Inr _ \<Rightarrow> False)
      in if \<not> dd_key_matches k \<or> disabled then s
         else if \<not> dd_open s ! p \<or> k = 27
         then let ts = filter (\<lambda>i. dt_parent (dd_toggles s ! i) = p) [0..<length (dd_toggles s)];
                  s1 = (if k = 27 \<and> ts \<noteq> [] then s\<lparr>dd_focus := FocusToggle (last ts)\<rparr> else s)
              in (case on of Inl i \<Rightarrow> dd_click i s1 | Inr _ \<Rightarrow> dd_clearMenus s1)
         else if dd_items s ! p = 0 then s
         else s\<lparr>dd_focus := FocusItem p (dd_index k (dd_items s ! p) (dd_focused p s))\<rparr>)"

text \<open>Clicks outside (or on a backdrop) close the menus; a click in a form inside a menu goes no further; the focus may go elsewhere.\<close>

datatype dd_event = DdClick nat | DdElsewhere | DdForm | DdKey "nat + nat" nat | DdBlur

definition dd_step :: "dropdowns \<Rightarrow> dd_event \<Rightarrow> dropdowns" where
  "dd_step s e =
     (case e of
        DdClick i \<Rightarrow> if i < length (dd_toggles s) then dd_click i s else s
      | DdElsewhere \<Rightarrow> dd_clearMenus s
      | DdForm \<Rightarrow> s
      | DdKey (Inl i) k \<Rightarrow> if i < length (dd_toggles s) then dd_keydown (Inl i) k s else s
      | DdKey (Inr p) k \<Rightarrow> if p < length (dd_open s) then dd_keydown (Inr p) k s else s
      | DdBlur \<Rightarrow> s\<lparr>dd_focus := FocusElsewhere\<rparr>)"

text \<open>At most one menu is open, and it is the menu of a toggle.\<close>

definition dd_ok :: "dropdowns \<Rightarrow> bool" where
  "dd_ok s \<longleftrightarrow>
     (\<forall>t \<in> set (dd_toggles s). dt_parent t < length (dd_open s)) \<and> length (dd_items s) = length (dd_open s) \<and>
     (\<forall>p < length (dd_open s). dd_open s ! p \<longrightarrow> p \<in> dt_parent ` set (dd_toggles s)) \<and>
     (\<forall>p < length (dd_open s). \<forall>q < length (dd_open s). dd_open s ! p \<and> dd_open s ! q \<longrightarrow> p = q)"

lemma dd_clear_nth:
  "p < length (dd_open s) \<Longrightarrow> dd_open (dd_clearMenus s) ! p = (dd_open s ! p \<and> p \<notin> dt_parent ` set (dd_toggles s))"
  by (simp add: dd_clearMenus_def nth_enumerate_eq)

lemma dd_clear_frame [simp]:
  "length (dd_open (dd_clearMenus s)) = length (dd_open s)" "dd_toggles (dd_clearMenus s) = dd_toggles s"
  "dd_items (dd_clearMenus s) = dd_items s" "dd_focus (dd_clearMenus s) = dd_focus s"
  by (simp_all add: dd_clearMenus_def)

lemma dd_ok_clear: "dd_ok s \<Longrightarrow> p < length (dd_open s) \<Longrightarrow> \<not> dd_open (dd_clearMenus s) ! p"
  by (auto simp: dd_ok_def dd_clear_nth)

lemma dd_clear_ok [inv_intros]: "dd_ok s \<Longrightarrow> dd_ok (dd_clearMenus s)"
  using dd_ok_clear [of s] by (simp add: dd_ok_def)

lemma dd_focus_ok [inv_intros]: "dd_ok s \<Longrightarrow> dd_ok (s\<lparr>dd_focus := f\<rparr>)"
  by (simp add: dd_ok_def)

lemma dd_click_open:
  assumes ok: "dd_ok s" and i: "i < length (dd_toggles s)" and p: "p < length (dd_open s)"
  shows "dd_open (dd_click i s) ! p =
           (\<not> dt_disabled (dd_toggles s ! i) \<and> p = dt_parent (dd_toggles s ! i) \<and> \<not> dd_open s ! p)"
proof -
  have "dt_parent (dd_toggles s ! i) < length (dd_open s)" using ok i by (simp add: dd_ok_def)
  then show ?thesis using dd_ok_clear [OF ok] p by (auto simp: dd_click_def Let_def nth_list_update)
qed

lemma dd_click_frame [simp]:
  "length (dd_open (dd_click i s)) = length (dd_open s)" "dd_toggles (dd_click i s) = dd_toggles s"
  "dd_items (dd_click i s) = dd_items s"
  by (simp_all add: dd_click_def Let_def)

lemma dd_click_ok [inv_intros]: "dd_ok s \<Longrightarrow> i < length (dd_toggles s) \<Longrightarrow> dd_ok (dd_click i s)"
  using dd_click_open [of s i] by (simp add: dd_ok_def)

lemma dd_keydown_ok [inv_intros]:
  assumes "dd_ok s" "case on of Inl i \<Rightarrow> i < length (dd_toggles s) | Inr p \<Rightarrow> True"
  shows "dd_ok (dd_keydown on k s)"
  using assms by (auto simp: dd_keydown_def Let_def inv_intros split: sum.splits)

lemma dd_step_ok: "dd_ok s \<Longrightarrow> dd_ok (dd_step s e)"
  by (auto simp: dd_step_def inv_intros split: dd_event.splits sum.splits)

interpretation dd: step_system dd_step dd_ok
  by unfold_locales (rule dd_step_ok)

lemma dd_index_bounds:
  "0 < n \<Longrightarrow> (case focused of None \<Rightarrow> True | Some j \<Rightarrow> j < n) \<Longrightarrow> dd_index k n focused < n"
  by (auto simp: dd_index_def Let_def split: option.splits)

lemma dd_index_moves:
  "dd_index k n None = 0"
  "dd_index 40 n (Some j) = (if Suc j < n then Suc j else j)"
  "dd_index 38 n (Some j) = j - 1"
  by (auto simp: dd_index_def Let_def)

text \<open>Whatever is clicked and pressed, at most one drop-down menu is open; a click on an enabled toggle then opens its menu if it
  was closed, closes it if it was open, and leaves every other menu closed.\<close>

lemma dropdown_one_open:
  assumes ok: "dd_ok s" and s': "s' = foldl dd_step s es"
  shows "length (filter id (dd_open s')) \<le> 1 \<and>
         (\<forall>i p. i < length (dd_toggles s') \<and> p < length (dd_open s') \<longrightarrow>
            dd_open (dd_click i s') ! p =
              (\<not> dt_disabled (dd_toggles s' ! i) \<and> p = dt_parent (dd_toggles s' ! i) \<and> \<not> dd_open s' ! p))"
proof -
  have ok': "dd_ok s'" unfolding s' by (rule dd.run_ok [OF ok])
  have "length (filter id (dd_open s')) \<le> 1"
    by (rule length_filter_unique) (use ok' in \<open>auto simp: dd_ok_def\<close>)
  then show ?thesis using dd_click_open [OF ok'] by simp
qed

lemma dropdown_one_open_example:
  "let s = \<lparr>dd_toggles = [\<lparr>dt_parent = 0, dt_disabled = False\<rparr>, \<lparr>dt_parent = 1, dt_disabled = False\<rparr>], dd_open = [False, False],
            dd_items = [3, 2], dd_focus = FocusElsewhere, dd_touch = False, dd_backdrops = 0\<rparr>
   in length (filter id (dd_open (foldl dd_step s [DdClick 0, DdClick 1, DdKey (Inl 1) 40]))) \<le> 1"
  using dropdown_one_open [of "\<lparr>dd_toggles = [\<lparr>dt_parent = 0, dt_disabled = False\<rparr>, \<lparr>dt_parent = 1, dt_disabled = False\<rparr>],
      dd_open = [False, False], dd_items = [3, 2], dd_focus = FocusElsewhere, dd_touch = False, dd_backdrops = 0\<rparr>" _
      "[DdClick 0, DdClick 1, DdKey (Inl 1) 40]", OF _ refl]
  by (simp add: dd_ok_def Let_def nth_Cons')

subsection \<open>The accordion\<close>

text \<open>
  The panels of one parent (or of none, \<open>ac_parent\<close> false). A panel's instance is created on first use and may be forgotten again; it is
  \<open>transitioning\<close> until its transition has ended, which without transitions is at once. A pending end belongs to an instance.
\<close>

record ac_panel =
  ap_in :: bool
  ap_data :: "nat option"
  ap_transitioning :: bool

datatype ac_kind = AcShow | AcHide

datatype ac_note = AcStart ac_kind nat | AcDone ac_kind nat

record accordion =
  ac_panels :: "ac_panel list"
  ac_parent :: bool
  ac_support :: bool
  ac_fresh :: nat
  ac_pending :: "(ac_kind \<times> nat \<times> nat option) list"
  ac_log :: "ac_note list"

definition ac_upd :: "nat \<Rightarrow> (ac_panel \<Rightarrow> ac_panel) \<Rightarrow> accordion \<Rightarrow> accordion" where
  "ac_upd i f s = s\<lparr>ac_panels := (ac_panels s)[i := f (ac_panels s ! i)]\<rparr>"

text \<open>\<open>complete\<close> resets the flag of its own instance.\<close>

definition ac_complete :: "ac_kind \<Rightarrow> nat \<Rightarrow> nat option \<Rightarrow> accordion \<Rightarrow> accordion" where
  "ac_complete kind i inst s =
     (ac_upd i (\<lambda>x. if ap_data x = inst then x\<lparr>ap_transitioning := False\<rparr> else x) s)\<lparr>ac_log := ac_log s @ [AcDone kind i]\<rparr>"

definition ac_transition :: "ac_kind \<Rightarrow> nat \<Rightarrow> bool \<Rightarrow> accordion \<Rightarrow> accordion" where
  "ac_transition kind i prevented s0 =
     (let s = s0\<lparr>ac_log := ac_log s0 @ [AcStart kind i]\<rparr>; inst = ap_data (ac_panels s ! i)
      in if prevented then s
         else let s' = ac_upd i (\<lambda>x. x\<lparr>ap_transitioning := True, ap_in := (kind = AcShow)\<rparr>) s
              in if ac_support s' then s'\<lparr>ac_pending := ac_pending s' @ [(kind, i, inst)]\<rparr> else ac_complete kind i inst s')"

definition ac_hide :: "nat \<Rightarrow> bool \<Rightarrow> accordion \<Rightarrow> accordion" where
  "ac_hide i prevented s =
     (if ap_transitioning (ac_panels s ! i) \<or> \<not> ap_in (ac_panels s ! i) then s
      else ac_transition AcHide i prevented s)"

definition ac_actives :: "accordion \<Rightarrow> nat list" where
  "ac_actives s = (if ac_parent s then filter (\<lambda>i. ap_in (ac_panels s ! i)) [0..<length (ac_panels s)] else [])"

text \<open>
  \<open>$panel.collapse('hide')\<close>: a panel without an instance gets one, whose constructor toggles it (it is open, so it closes) before \<open>hide\<close>
  is called on it.
\<close>

definition ac_new_data :: "nat \<Rightarrow> accordion \<Rightarrow> accordion" where
  "ac_new_data i s =
     (ac_upd i (\<lambda>x. x\<lparr>ap_data := Some (ac_fresh s), ap_transitioning := False\<rparr>) s)\<lparr>ac_fresh := Suc (ac_fresh s)\<rparr>"

definition ac_call_hide :: "bool \<Rightarrow> nat \<Rightarrow> accordion \<Rightarrow> accordion" where
  "ac_call_hide prevented i s =
     (if ap_data (ac_panels s ! i) = None then ac_hide i prevented (ac_hide i prevented (ac_new_data i s))
      else ac_hide i prevented s)"

definition ac_forget :: "nat \<Rightarrow> accordion \<Rightarrow> accordion" where
  "ac_forget i = ac_upd i (\<lambda>x. x\<lparr>ap_data := None, ap_transitioning := False\<rparr>)"

definition ac_show :: "nat \<Rightarrow> bool \<Rightarrow> bool \<Rightarrow> accordion \<Rightarrow> accordion" where
  "ac_show i prevented hide_prevented s =
     (if ap_transitioning (ac_panels s ! i) \<or> ap_in (ac_panels s ! i) then s
      else case ac_actives s of
             [] \<Rightarrow> ac_transition AcShow i prevented s
           | a # as \<Rightarrow>
               let hasData = ap_data (ac_panels s ! a) \<noteq> None
               in if hasData \<and> ap_transitioning (ac_panels s ! a) then s
                  else let s1 = fold (ac_call_hide hide_prevented) (a # as) s;
                           s2 = (if hasData then s1 else fold ac_forget (a # as) s1)
                       in ac_transition AcShow i prevented s2)"

definition ac_toggle :: "nat \<Rightarrow> bool \<Rightarrow> bool \<Rightarrow> accordion \<Rightarrow> accordion" where
  "ac_toggle i prevented hide_prevented s =
     (if ap_in (ac_panels s ! i) then ac_hide i prevented s else ac_show i prevented hide_prevented s)"

text \<open>A click on the heading of panel \<open>i\<close>: the first one creates the instance, whose constructor toggles.\<close>

definition ac_click :: "nat \<Rightarrow> bool \<Rightarrow> bool \<Rightarrow> accordion \<Rightarrow> accordion" where
  "ac_click i prevented hide_prevented s =
     ac_toggle i prevented hide_prevented (if ap_data (ac_panels s ! i) = None then ac_new_data i s else s)"

text \<open>The end of the transition of panel \<open>i\<close> runs its one-shot handlers.\<close>

definition ac_end :: "nat \<Rightarrow> accordion \<Rightarrow> accordion" where
  "ac_end i s =
     fold (\<lambda>(kind, j, inst). ac_complete kind j inst) (filter (\<lambda>(_, j, _). j = i) (ac_pending s))
       (s\<lparr>ac_pending := filter (\<lambda>(_, j, _). j \<noteq> i) (ac_pending s)\<rparr>)"

datatype ac_event = AcClick nat bool | AcEnd nat

definition ac_step :: "accordion \<Rightarrow> ac_event \<Rightarrow> accordion" where
  "ac_step s e =
     (case e of
        AcClick i p \<Rightarrow> if i < length (ac_panels s) then ac_click i p False s else s
      | AcEnd i \<Rightarrow> if i < length (ac_panels s) then ac_end i s else s)"

definition ac_ins :: "accordion \<Rightarrow> bool list" where
  "ac_ins s = map ap_in (ac_panels s)"

text \<open>At most one panel is open.\<close>

definition ac_ok :: "accordion \<Rightarrow> bool" where
  "ac_ok s \<longleftrightarrow>
     ac_parent s \<and> (\<forall>p < length (ac_ins s). \<forall>q < length (ac_ins s). ac_ins s ! p \<and> ac_ins s ! q \<longrightarrow> p = q)"

lemma ac_ins_upd: "i < length (ac_panels s) \<Longrightarrow> ac_ins (ac_upd i f s) = (ac_ins s)[i := ap_in (f (ac_panels s ! i))]"
  by (simp add: ac_ins_def ac_upd_def map_update)

lemma ac_upd_frame [simp]:
  "ac_parent (ac_upd i f s) = ac_parent s" "ac_support (ac_upd i f s) = ac_support s"
  "length (ac_panels (ac_upd i f s)) = length (ac_panels s)" "ac_log (ac_upd i f s) = ac_log s"
  "ac_pending (ac_upd i f s) = ac_pending s" "ac_fresh (ac_upd i f s) = ac_fresh s"
  by (simp_all add: ac_upd_def)

lemma ac_ins_same: "(\<And>x. ap_in (f x) = ap_in x) \<Longrightarrow> ac_ins (ac_upd i f s) = ac_ins s"
  by (cases "i < length (ac_panels s)") (auto simp: ac_ins_def ac_upd_def map_update list_update_same_conv list_update_beyond)

lemma ac_ins_fields [simp]:
  "ac_ins (s\<lparr>ac_log := l\<rparr>) = ac_ins s" "ac_ins (s\<lparr>ac_pending := q\<rparr>) = ac_ins s" "ac_ins (s\<lparr>ac_fresh := n\<rparr>) = ac_ins s"
  by (simp_all add: ac_ins_def)

lemma ac_ins_complete [simp]: "ac_ins (ac_complete kind i inst s) = ac_ins s"
  by (simp add: ac_complete_def ac_ins_same)

lemma ac_ins_new_data [simp]: "ac_ins (ac_new_data i s) = ac_ins s" "ac_ins (ac_forget i s) = ac_ins s"
  by (simp_all add: ac_new_data_def ac_forget_def ac_ins_same)

lemma ac_ins_transition:
  "i < length (ac_panels s) \<Longrightarrow>
   ac_ins (ac_transition kind i prevented s) = (if prevented then ac_ins s else (ac_ins s)[i := (kind = AcShow)])"
  by (simp add: ac_transition_def Let_def ac_ins_upd)

lemma ac_frame [simp]:
  "ac_parent (ac_complete kind i inst s) = ac_parent s" "length (ac_panels (ac_complete kind i inst s)) = length (ac_panels s)"
  "ac_parent (ac_transition kind i p s) = ac_parent s" "length (ac_panels (ac_transition kind i p s)) = length (ac_panels s)"
  "ac_parent (ac_new_data i s) = ac_parent s" "length (ac_panels (ac_new_data i s)) = length (ac_panels s)"
  "ac_parent (ac_forget i s) = ac_parent s" "length (ac_panels (ac_forget i s)) = length (ac_panels s)"
  "ac_parent (ac_hide i p s) = ac_parent s" "length (ac_panels (ac_hide i p s)) = length (ac_panels s)"
  "ac_parent (ac_call_hide p i s) = ac_parent s" "length (ac_panels (ac_call_hide p i s)) = length (ac_panels s)"
  by (simp_all add: ac_complete_def ac_transition_def ac_new_data_def ac_forget_def ac_hide_def ac_call_hide_def Let_def)

lemma length_ac_ins [simp]: "length (ac_ins s) = length (ac_panels s)"
  by (simp add: ac_ins_def)

lemma ac_ins_nth: "i < length (ac_panels s) \<Longrightarrow> ac_ins s ! i = ap_in (ac_panels s ! i)"
  by (simp add: ac_ins_def)

lemma ac_ins_hide:
  assumes "i < length (ac_panels s)" "\<not> ap_transitioning (ac_panels s ! i)"
  shows "ac_ins (ac_hide i False s) = (ac_ins s)[i := False]"
  using assms list_update_same_conv [of i "ac_ins s" False] by (auto simp: ac_hide_def ac_ins_transition ac_ins_nth)

lemma ac_ins_hide_sub: "i < length (ac_panels s) \<Longrightarrow> ac_ins (ac_hide i p s) \<in> {ac_ins s, (ac_ins s)[i := False]}"
  by (simp add: ac_hide_def ac_ins_transition)

lemma ac_new_data_nth: "i < length (ac_panels s) \<Longrightarrow> ac_panels (ac_new_data i s) ! i = (ac_panels s ! i)\<lparr>ap_data := Some (ac_fresh s), ap_transitioning := False\<rparr>"
  by (simp add: ac_new_data_def ac_upd_def)

lemma ac_ins_call_hide:
  assumes i: "i < length (ac_panels s)" and idle: "ap_data (ac_panels s ! i) \<noteq> None \<longrightarrow> \<not> ap_transitioning (ac_panels s ! i)"
  shows "ac_ins (ac_call_hide False i s) = (ac_ins s)[i := False]"
proof (cases "ap_data (ac_panels s ! i) = None")
  case True
  have "ac_ins (ac_hide i False (ac_new_data i s)) = (ac_ins s)[i := False]"
    using i by (subst ac_ins_hide) (simp_all add: ac_new_data_nth)
  then show ?thesis
    using True ac_ins_hide_sub [of i "ac_hide i False (ac_new_data i s)" False] i by (simp add: ac_call_hide_def)
next
  case False
  then show ?thesis using i idle ac_ins_hide [OF i] by (auto simp: ac_call_hide_def)
qed

lemma ac_actives_ok:
  assumes "ac_ok s" "ac_actives s = a # as"
  shows "as = [] \<and> a < length (ac_panels s) \<and> ac_ins s = (replicate (length (ac_panels s)) False)[a := True]"
proof -
  have act: "ac_actives s = filter (\<lambda>i. ac_ins s ! i) [0..<length (ac_panels s)]"
  proof -
    have "filter (\<lambda>i. ap_in (ac_panels s ! i)) [0..<length (ac_panels s)] = filter (\<lambda>i. ac_ins s ! i) [0..<length (ac_panels s)]"
      by (rule filter_cong) (simp_all add: ac_ins_nth)
    then show ?thesis using assms(1) by (simp add: ac_actives_def ac_ok_def)
  qed
  then have set: "set (a # as) = {i. i < length (ac_panels s) \<and> ac_ins s ! i}" using assms(2) by auto
  have d: "distinct (a # as)" using act assms(2) by (metis distinct_filter distinct_upt)
  have one: "p = q" if "p \<in> set (a # as)" "q \<in> set (a # as)" for p q
  proof -
    have "p < length (ac_ins s)" "q < length (ac_ins s)" "ac_ins s ! p" "ac_ins s ! q" using that unfolding set by simp_all
    then show ?thesis using assms(1) unfolding ac_ok_def by metis
  qed
  have "as = []"
  proof (cases as)
    case (Cons b bs)
    then show ?thesis using d one [of a b] by simp
  qed
  moreover have "a < length (ac_panels s)" "ac_ins s ! a" using set by auto
  moreover have "ac_ins s ! i = (i = a)" if "i < length (ac_panels s)" for i
  proof -
    have "i \<in> set (a # as) \<longleftrightarrow> ac_ins s ! i" using that unfolding set by simp
    then show ?thesis using \<open>as = []\<close> by simp
  qed
  ultimately show ?thesis by (auto intro!: nth_equalityI simp: nth_list_update split: if_splits)
qed

lemma ac_actives_none: "ac_parent s \<Longrightarrow> ac_actives s = [] \<Longrightarrow> i < length (ac_panels s) \<Longrightarrow> \<not> ac_ins s ! i"
  by (auto simp: ac_actives_def filter_empty_conv ac_ins_nth)

text \<open>What \<open>show\<close> makes of the panels: nothing while the open panel is still moving, and otherwise it alone is open.\<close>

lemma ac_ins_show:
  assumes ok: "ac_ok s" and i: "i < length (ac_panels s)"
  shows "ac_ins (ac_show i p False s) \<in>
           {ac_ins s, replicate (length (ac_panels s)) False, (replicate (length (ac_panels s)) False)[i := True]}"
proof (cases "ac_actives s")
  case Nil
  then have "ac_ins s = replicate (length (ac_panels s)) False"
    using ac_actives_none ok by (auto intro!: nth_equalityI simp: ac_ok_def)
  then show ?thesis using i Nil by (simp add: ac_show_def ac_ins_transition)
next
  case (Cons a as)
  note a = ac_actives_ok [OF ok Cons]
  have call: "ac_ins (ac_call_hide False a s) = replicate (length (ac_panels s)) False"
    if "ap_data (ac_panels s ! a) \<noteq> None \<longrightarrow> \<not> ap_transitioning (ac_panels s ! a)"
    using ac_ins_call_hide [OF _ that] a list_update_same_conv [of a "replicate (length (ac_panels s)) False" False] by simp
  show ?thesis
    using i a call Cons by (auto simp: ac_show_def ac_ins_transition Let_def)
qed

lemma ac_ok_ins:
  assumes ok: "ac_ok s" and par: "ac_parent t = ac_parent s" and len: "length (ac_panels t) = length (ac_panels s)"
    and ins: "ac_ins t \<in> {ac_ins s, (ac_ins s)[i := False], replicate (length (ac_panels s)) False,
                 (replicate (length (ac_panels s)) False)[i := True]}"
  shows "ac_ok t"
proof -
  consider "ac_ins t = ac_ins s" | "ac_ins t = (ac_ins s)[i := False]" | "ac_ins t = replicate (length (ac_panels s)) False"
    | "ac_ins t = (replicate (length (ac_panels s)) False)[i := True]"
    using ins by blast
  then have "p = q" if "p < length (ac_panels s)" "q < length (ac_panels s)" "ac_ins t ! p" "ac_ins t ! q" for p q
  proof cases
    case 1
    then show ?thesis using that ok by (simp add: ac_ok_def)
  next
    case 2
    then have "ac_ins s ! p" "ac_ins s ! q" using that by (cases "i = p"; cases "i = q"; simp)+
    then show ?thesis using that ok by (simp add: ac_ok_def)
  next
    case 3
    then show ?thesis using that by simp
  next
    case 4
    then show ?thesis using that by (cases "i = p"; cases "i = q"; simp)
  qed
  then show ?thesis using ok par len by (simp add: ac_ok_def)
qed

lemma ac_fold_frame:
  "(\<And>i s. ac_parent (f i s) = ac_parent s \<and> length (ac_panels (f i s)) = length (ac_panels s)) \<Longrightarrow>
   ac_parent (fold f is s) = ac_parent s \<and> length (ac_panels (fold f is s)) = length (ac_panels s)"
  by (induction "is" arbitrary: s) auto

lemma ac_show_frame [simp]:
  "ac_parent (ac_show i p q s) = ac_parent s" "length (ac_panels (ac_show i p q s)) = length (ac_panels s)"
  using ac_fold_frame [of "ac_call_hide q"] ac_fold_frame [of ac_forget]
  by (auto simp: ac_show_def Let_def split: list.splits)

lemma ac_new_data_ok: "ac_ok s \<Longrightarrow> ac_ok (ac_new_data i s)"
  by (simp add: ac_ok_def)

lemma ac_click_ok [inv_intros]:
  assumes ok: "ac_ok s" and i: "i < length (ac_panels s)"
  shows "ac_ok (ac_click i p False s)"
proof -
  have toggle: "ac_ok (ac_toggle i p False t)" if t: "ac_ok t" "i < length (ac_panels t)" for t
    by (rule ac_ok_ins [OF t(1) _ _, where i = i])
      (use ac_ins_hide_sub [OF t(2)] ac_ins_show [OF t] in \<open>auto simp: ac_toggle_def\<close>)
  show ?thesis using toggle ac_new_data_ok [OF ok] ok i by (simp add: ac_click_def)
qed

lemma ac_end_ins:
  "ac_ins (ac_end i s) = ac_ins s \<and> ac_parent (ac_end i s) = ac_parent s"
proof -
  have "ac_ins (fold (\<lambda>(kind, j, inst). ac_complete kind j inst) ws t) = ac_ins t \<and>
        ac_parent (fold (\<lambda>(kind, j, inst). ac_complete kind j inst) ws t) = ac_parent t" for ws t
    by (induction ws arbitrary: t) (simp_all add: split_beta)
  then show ?thesis by (simp add: ac_end_def)
qed

lemma ac_step_ok: "ac_ok s \<Longrightarrow> ac_ok (ac_step s e)"
proof (cases e)
  case (AcEnd i)
  assume ok: "ac_ok s"
  have "ac_ins (ac_end i s) = ac_ins s" "ac_parent (ac_end i s) = ac_parent s" using ac_end_ins by auto
  then have "ac_ok (ac_end i s) = ac_ok s" unfolding ac_ok_def by metis
  then show ?thesis using ok AcEnd by (simp add: ac_step_def)
qed (simp add: ac_step_def ac_click_ok)

interpretation ac: step_system ac_step ac_ok
  by unfold_locales (rule ac_step_ok)

text \<open>Whatever is clicked and whenever the transitions end, an accordion never has two open panels.\<close>

lemma accordion_one_open:
  assumes "ac_ok s"
  shows "length (filter ap_in (ac_panels (foldl ac_step s es))) \<le> 1"
proof -
  define t where "t = foldl ac_step s es"
  have ok: "ac_ok t" unfolding t_def by (rule ac.run_ok [OF assms])
  have one: "p = q" if "p < length (ac_panels t)" "q < length (ac_panels t)" "ap_in (ac_panels t ! p)" "ap_in (ac_panels t ! q)" for p q
    using that ok unfolding ac_ok_def by (metis ac_ins_nth length_ac_ins)
  show ?thesis unfolding t_def [symmetric] by (rule length_filter_unique) (rule one)
qed

definition ac_new :: "nat \<Rightarrow> nat \<Rightarrow> bool \<Rightarrow> accordion" where
  "ac_new n a support =
     \<lparr>ac_panels = map (\<lambda>i. \<lparr>ap_in = (i = a), ap_data = None, ap_transitioning = False\<rparr>) [0..<n],
      ac_parent = True, ac_support = support, ac_fresh = 0, ac_pending = [], ac_log = []\<rparr>"

lemma ac_new_ok: "ac_ok (ac_new n a support)"
  by (simp add: ac_ok_def ac_new_def ac_ins_def)

lemma accordion_one_open_example:
  "length (filter ap_in (ac_panels (foldl ac_step (ac_new 3 0 True) [AcClick 1 False, AcClick 2 False, AcEnd 0, AcEnd 1]))) \<le> 1"
  by (rule accordion_one_open [OF ac_new_ok])

text \<open>
  A click while the open panel is moving does nothing to it and leaves the clicked one closed; after the transition the same click moves
  the accordion on.
\<close>

lemma accordion_examples:
  "ac_ins (foldl ac_step (ac_new 3 0 True) [AcClick 1 False, AcClick 2 False]) = [False, True, False]"
  "ac_ins (foldl ac_step (ac_new 3 0 True) [AcClick 1 False, AcEnd 1, AcClick 2 False]) = [False, False, True]"
  by code_simp+

subsection \<open>Buttons\<close>

text \<open>
  A button: whether it is an \<open>input\<close> (its text is its value then), its data, its text, and what \<open>setTimeout\<close> still has to do. \<open>val\<close> and \<open>html\<close> called
  with \<open>undefined\<close> differ: the first empties the field, the second reads and changes nothing.
\<close>

record bs_button =
  bt_input :: bool
  bt_text :: string
  bt_data :: "string obj"
  bt_options :: "string obj"
  bt_disabled :: bool
  bt_timers :: "bool list"

definition bt_write :: "string option \<Rightarrow> bs_button \<Rightarrow> bs_button" where
  "bt_write v b = (case v of Some t \<Rightarrow> b\<lparr>bt_text := t\<rparr> | None \<Rightarrow> if bt_input b then b\<lparr>bt_text := []\<rparr> else b)"

definition bt_truthy :: "string obj \<Rightarrow> string \<Rightarrow> string option" where
  "bt_truthy ob k = (case map_of ob k of Some (c # cs) \<Rightarrow> Some (c # cs) | _ \<Rightarrow> None)"

definition bt_setState :: "string \<Rightarrow> bs_button \<Rightarrow> bs_button" where
  "bt_setState state b =
     (let key = state @ ''Text'';
          b1 = (if bt_truthy (bt_data b) ''resetText'' = None
                then b\<lparr>bt_data := AList.update ''resetText'' (bt_text b) (bt_data b)\<rparr> else b);
          v = (case bt_truthy (bt_data b1) key of Some t \<Rightarrow> Some t | None \<Rightarrow> map_of (bt_options b1) key);
          b2 = bt_write v b1
      in b2\<lparr>bt_timers := bt_timers b2 @ [key = ''loadingText'']\<rparr>)"

definition bt_timeout :: "bs_button \<Rightarrow> bs_button" where
  "bt_timeout b = (case bt_timers b of [] \<Rightarrow> b | d # ds \<Rightarrow> b\<lparr>bt_timers := ds, bt_disabled := d\<rparr>)"

text \<open>The states \<open>loading\<close> and \<open>reset\<close>: a button with a text gets it back, and is enabled again once the timers have run.\<close>

lemma bt_loading_reset:
  assumes ne: "bt_text b \<noteq> []" and fresh: "bt_truthy (bt_data b) ''resetText'' = None" and timers: "bt_timers b = []"
  shows "let c = (bt_timeout ^^ 2) (bt_setState ''reset'' (bt_setState ''loading'' b))
         in bt_text c = bt_text b \<and> \<not> bt_disabled c \<and> bt_timers c = []"
proof -
  obtain x xs where x: "bt_text b = x # xs" using ne by (cases "bt_text b") auto
  define c where "c = bt_setState ''loading'' b"
  have c: "bt_data c = AList.update ''resetText'' (x # xs) (bt_data b)" "bt_timers c = [True]"
    using fresh timers by (auto simp: c_def bt_setState_def bt_write_def Let_def x split: option.splits)
  have "bt_truthy (bt_data c) ''resetText'' = Some (x # xs)" by (simp add: bt_truthy_def c)
  then have "bt_text (bt_setState ''reset'' c) = x # xs" "bt_timers (bt_setState ''reset'' c) = [True, False]"
    using c by (simp_all add: bt_setState_def bt_write_def)
  then show ?thesis by (simp add: x bt_timeout_def numeral_2_eq_2 Let_def flip: c_def)
qed

text \<open>A button element without text is not reset: its text stays that of the loading state.\<close>

lemma bt_empty_not_reset:
  "bt_text (bt_setState ''reset'' (bt_setState ''loading''
     \<lparr>bt_input = False, bt_text = [], bt_data = [], bt_options = [(''loadingText'', ''loading...'')], bt_disabled = False, bt_timers = []\<rparr>))
     = ''loading...''"
  by code_simp

text \<open>\<open>toggle\<close> in a group: \<open>radio\<close> lists the buttons of the closest \<open>buttons-radio\<close> group, none without one.\<close>

definition bt_toggle :: "nat \<Rightarrow> nat list \<Rightarrow> bool list \<Rightarrow> bool list" where
  "bt_toggle i radio bs =
     (let cleared = map (\<lambda>(j, b). b \<and> j \<notin> set radio) (enumerate 0 bs) in cleared[i := \<not> cleared ! i])"

lemma bt_toggle_radio:
  "i < length bs \<Longrightarrow> i \<in> set radio \<Longrightarrow> j < length bs \<Longrightarrow> j \<in> set radio \<Longrightarrow> bt_toggle i radio bs ! j = (j = i)"
  by (auto simp: bt_toggle_def Let_def nth_list_update nth_enumerate_eq)

lemma bt_toggle_checkbox: "i < length bs \<Longrightarrow> j < length bs \<Longrightarrow> bt_toggle i [] bs ! j = (if j = i then \<not> bs ! j else bs ! j)"
  by (auto simp: bt_toggle_def Let_def nth_list_update nth_enumerate_eq)

subsection \<open>Alerts\<close>

text \<open>
  An alert on the page, its class \<open>in\<close>, and how many \<open>removeElement\<close> handlers wait for the end of its transition: \<open>close\<close> binds one per call, with
  \<open>on\<close>, and all of them run when it ends.
\<close>

record bs_alert =
  al_present :: bool
  al_in :: bool
  al_waiting :: nat
  al_closed :: nat

definition al_close :: "bool \<Rightarrow> bool \<Rightarrow> bs_alert \<Rightarrow> bs_alert" where
  "al_close animated prevented a =
     (if prevented then a
      else let b = a\<lparr>al_in := False\<rparr>
           in if animated then b\<lparr>al_waiting := Suc (al_waiting b)\<rparr>
              else b\<lparr>al_present := False, al_waiting := 0, al_closed := Suc (al_closed b)\<rparr>)"

definition al_end :: "bs_alert \<Rightarrow> bs_alert" where
  "al_end a = (if al_waiting a = 0 then a else a\<lparr>al_present := False, al_closed := al_closed a + al_waiting a, al_waiting := 0\<rparr>)"

lemma al_close_once:
  "al_waiting a = 0 \<Longrightarrow>
   (let b = al_end (al_close animated False a)
    in \<not> al_present b \<and> \<not> al_in b \<and> al_closed b = Suc (al_closed a) \<and> al_waiting b = 0)"
  by (simp add: al_close_def al_end_def Let_def)

text \<open>Two clicks while the alert fades out trigger \<open>closed\<close> twice.\<close>

lemma al_close_twice:
  "al_waiting a = 0 \<Longrightarrow> al_closed (al_end (al_close True False (al_close True False a))) = al_closed a + 2"
  by (simp add: al_close_def al_end_def Let_def)

end
