(* ===== verification/Bs_Tooltip.thy ===== *)
theory Bs_Tooltip
  imports Js_Prelude
begin

text \<open>
  Tooltips and popovers of Bootstrap 2.3.2 as \<open>fuelux/dist/all.js\<close> bundles them (modules \<open>bootstrap/bootstrap-tooltip\<close> and
  \<open>bootstrap-popover\<close>): one element without the option \<open>selector\<close>, its tip, the timer of the delays and the callbacks that take a fading
  tip off the page. A popover is a tooltip whose content may come from its own text. Where the tip is placed is not modelled.
  The lemmas show that a tooltip follows the mouse, what each action does when it is left to settle, and two cases in
  which a tip disappears under the mouse.
\<close>

subsection \<open>State\<close>

record tt_options =
  tto_delay_show :: nat
  tto_delay_hide :: nat
  tto_animation :: bool
  tto_support :: bool
  tto_popover :: bool

datatype tt_hover = HoverIn | HoverOut

datatype tt_note = TtShow | TtShown | TtHide | TtHidden

text \<open>
  \<open>tt_timers\<close> are the running timers of \<open>enter\<close> and \<open>leave\<close>, \<open>tt_timeout\<close> the one the tooltip remembers; \<open>tt_removals\<close> the timers of
  \<open>removeWithAnimation\<close> that run, \<open>tt_on_end\<close> its handlers for the end of the transition, each with its timer.
\<close>

record tooltip =
  tt_title :: string
  tt_content :: string
  tt_enabled :: bool
  tt_hover :: "tt_hover option"
  tt_timeout :: "nat option"
  tt_timers :: "(nat \<times> tt_hover) list"
  tt_fresh :: nat
  tt_attached :: bool
  tt_in :: bool
  tt_fade :: bool
  tt_shows :: "string \<times> string"
  tt_removals :: "nat list"
  tt_on_end :: "nat list"
  tt_log :: "tt_note list"

definition tt_new :: "string \<Rightarrow> string \<Rightarrow> tooltip" where
  "tt_new title content =
     \<lparr>tt_title = title, tt_content = content, tt_enabled = True, tt_hover = None, tt_timeout = None, tt_timers = [], tt_fresh = 0,
      tt_attached = False, tt_in = False, tt_fade = False, tt_shows = ([], []), tt_removals = [], tt_on_end = [], tt_log = []\<rparr>"

subsection \<open>Showing and hiding\<close>

definition tt_hasContent :: "tt_options \<Rightarrow> tooltip \<Rightarrow> bool" where
  "tt_hasContent c s \<longleftrightarrow> tt_title s \<noteq> [] \<or> (tto_popover c \<and> tt_content s \<noteq> [])"

definition tt_setContent :: "tt_options \<Rightarrow> tooltip \<Rightarrow> tooltip" where
  "tt_setContent c s = s\<lparr>tt_shows := (tt_title s, if tto_popover c then tt_content s else []), tt_fade := False, tt_in := False\<rparr>"

definition tt_show :: "tt_options \<Rightarrow> bool \<Rightarrow> tooltip \<Rightarrow> tooltip" where
  "tt_show c prevented s =
     (if \<not> (tt_hasContent c s \<and> tt_enabled s) then s
      else let s1 = s\<lparr>tt_log := tt_log s @ [TtShow]\<rparr>
           in if prevented then s1
              else let s2 = tt_setContent c s1;
                       s3 = (if tto_animation c then s2\<lparr>tt_fade := True\<rparr> else s2)
                   in s3\<lparr>tt_attached := True, tt_in := True, tt_log := tt_log s3 @ [TtShown]\<rparr>)"

definition tt_removeWithAnimation :: "tooltip \<Rightarrow> tooltip" where
  "tt_removeWithAnimation s =
     s\<lparr>tt_removals := tt_removals s @ [tt_fresh s], tt_on_end := tt_on_end s @ [tt_fresh s], tt_fresh := Suc (tt_fresh s)\<rparr>"

definition tt_hide :: "tt_options \<Rightarrow> bool \<Rightarrow> tooltip \<Rightarrow> tooltip" where
  "tt_hide c prevented s =
     (let s1 = s\<lparr>tt_log := tt_log s @ [TtHide]\<rparr>
      in if prevented then s1
         else let s2 = s1\<lparr>tt_in := False\<rparr>;
                  s3 = (if tto_support c \<and> tt_fade s2 then tt_removeWithAnimation s2 else s2\<lparr>tt_attached := False\<rparr>)
              in s3\<lparr>tt_log := tt_log s3 @ [TtHidden]\<rparr>)"

definition tt_toggle :: "tt_options \<Rightarrow> bool \<Rightarrow> tooltip \<Rightarrow> tooltip" where
  "tt_toggle c prevented s = (if tt_in s then tt_hide c prevented s else tt_show c prevented s)"

definition tt_enable :: "bool \<Rightarrow> tooltip \<Rightarrow> tooltip" where
  "tt_enable b s = s\<lparr>tt_enabled := b\<rparr>"

definition tt_toggleEnabled :: "tooltip \<Rightarrow> tooltip" where
  "tt_toggleEnabled s = s\<lparr>tt_enabled := \<not> tt_enabled s\<rparr>"

subsection \<open>Delays\<close>

definition tt_clear :: "tooltip \<Rightarrow> tooltip" where
  "tt_clear s = s\<lparr>tt_timers := filter (\<lambda>(k, _). Some k \<noteq> tt_timeout s) (tt_timers s)\<rparr>"

definition tt_wait :: "tt_hover \<Rightarrow> tooltip \<Rightarrow> tooltip" where
  "tt_wait h s =
     s\<lparr>tt_hover := Some h, tt_timeout := Some (tt_fresh s), tt_timers := tt_timers s @ [(tt_fresh s, h)],
       tt_fresh := Suc (tt_fresh s)\<rparr>"

definition tt_enter :: "tt_options \<Rightarrow> bool \<Rightarrow> tooltip \<Rightarrow> tooltip" where
  "tt_enter c prevented s = (if tto_delay_show c = 0 then tt_show c prevented s else tt_wait HoverIn (tt_clear s))"

definition tt_leave :: "tt_options \<Rightarrow> bool \<Rightarrow> tooltip \<Rightarrow> tooltip" where
  "tt_leave c prevented s =
     (let s1 = tt_clear s in if tto_delay_hide c = 0 then tt_hide c prevented s1 else tt_wait HoverOut s1)"

definition tt_timer :: "tt_options \<Rightarrow> nat \<Rightarrow> bool \<Rightarrow> tooltip \<Rightarrow> tooltip" where
  "tt_timer c k prevented s0 =
     (case map_of (tt_timers s0) k of
        None \<Rightarrow> s0
      | Some h \<Rightarrow>
          let s = s0\<lparr>tt_timers := filter (\<lambda>(j, _). j \<noteq> k) (tt_timers s0)\<rparr>
          in if tt_hover s \<noteq> Some h then s
             else (case h of HoverIn \<Rightarrow> tt_show c prevented s | HoverOut \<Rightarrow> tt_hide c prevented s))"

text \<open>The end of the tip's transition, and a timer of \<open>removeWithAnimation\<close>.\<close>

definition tt_end :: "tooltip \<Rightarrow> tooltip" where
  "tt_end s =
     (if tt_on_end s = [] then s
      else s\<lparr>tt_on_end := [], tt_removals := filter (\<lambda>k. k \<notin> set (tt_on_end s)) (tt_removals s), tt_attached := False\<rparr>)"

definition tt_removal :: "nat \<Rightarrow> tooltip \<Rightarrow> tooltip" where
  "tt_removal k s =
     (if k \<in> set (tt_removals s)
      then s\<lparr>tt_on_end := [], tt_removals := filter (\<lambda>j. j \<noteq> k) (tt_removals s), tt_attached := False\<rparr> else s)"

datatype tt_event =
    TtEnter | TtLeave | TtClick | TtTimer nat | TtEnd | TtRemoval nat | TtEnable bool | TtToggleEnabled

fun tt_step :: "tt_options \<Rightarrow> tooltip \<Rightarrow> tt_event \<Rightarrow> tooltip" where
  "tt_step c s TtEnter = tt_enter c False s"
| "tt_step c s TtLeave = tt_leave c False s"
| "tt_step c s TtClick = tt_toggle c False s"
| "tt_step c s (TtTimer k) = tt_timer c k False s"
| "tt_step c s TtEnd = tt_end s"
| "tt_step c s (TtRemoval k) = tt_removal k s"
| "tt_step c s (TtEnable b) = tt_enable b s"
| "tt_step c s TtToggleEnabled = tt_toggleEnabled s"

subsection \<open>The mouse\<close>

text \<open>
  A tooltip with both delays and without transition, moved over by the mouse: at most the remembered timer runs, it says what the mouse did
  last, and without it the tip is there exactly when the mouse came in last.
\<close>

definition tt_hover_ok :: "tooltip \<Rightarrow> bool" where
  "tt_hover_ok s \<longleftrightarrow>
     tt_attached s = tt_in s \<and> tt_removals s = [] \<and> tt_on_end s = [] \<and>
     (case tt_timers s of
        [] \<Rightarrow> tt_in s = (tt_hover s = Some HoverIn)
      | [(k, h)] \<Rightarrow> tt_timeout s = Some k \<and> tt_hover s = Some h
      | _ \<Rightarrow> False)"

definition tt_steady :: "tt_options \<Rightarrow> tooltip \<Rightarrow> bool" where
  "tt_steady c s \<longleftrightarrow> tt_hasContent c s \<and> tt_enabled s"

fun tt_last :: "tt_hover option \<Rightarrow> tt_event list \<Rightarrow> tt_hover option" where
  "tt_last h [] = h"
| "tt_last h (e # es) = tt_last (if e = TtEnter then Some HoverIn else if e = TtLeave then Some HoverOut else h) es"

lemma tt_hover_ok_cases:
  assumes "tt_hover_ok s"
  obtains (idle) "tt_timers s = []" "tt_in s = (tt_hover s = Some HoverIn)"
  | (waiting) k h where "tt_timers s = [(k, h)]" "tt_timeout s = Some k" "tt_hover s = Some h"
  using assms
  by (cases "tt_timers s"; cases "tl (tt_timers s)") (auto simp: tt_hover_ok_def)

lemma tt_hover_step:
  assumes ok: "tt_hover_ok s" and st: "tt_steady c s" and c: "0 < tto_delay_show c" "0 < tto_delay_hide c" "\<not> tto_support c"
    and e: "e \<in> {TtEnter, TtLeave} \<union> range TtTimer"
  shows "tt_hover_ok (tt_step c s e) \<and> tt_steady c (tt_step c s e) \<and>
         tt_hover (tt_step c s e) = tt_last (tt_hover s) [e]"
  using ok
proof (cases rule: tt_hover_ok_cases)
  case idle
  then show ?thesis
    using ok st c e
    by (auto simp: tt_hover_ok_def tt_steady_def tt_hasContent_def tt_enter_def tt_leave_def tt_wait_def tt_clear_def
        tt_timer_def Let_def)
next
  case (waiting k h)
  have cleared: "tt_timers (tt_clear s) = []" using waiting by (simp add: tt_clear_def)
  from e consider "e = TtEnter" | "e = TtLeave" | j where "e = TtTimer j" by auto
  then show ?thesis
  proof cases
    case 1
    then show ?thesis using ok st c waiting
      by (simp add: tt_hover_ok_def tt_steady_def tt_hasContent_def tt_enter_def tt_wait_def tt_clear_def)
  next
    case 2
    then show ?thesis using ok st c waiting
      by (simp add: tt_hover_ok_def tt_steady_def tt_hasContent_def tt_leave_def tt_wait_def tt_clear_def Let_def)
  next
    case 3
    then show ?thesis using ok st c waiting
      by (cases h)
        (auto simp: tt_hover_ok_def tt_steady_def tt_hasContent_def tt_timer_def tt_show_def tt_hide_def tt_setContent_def Let_def)
  qed
qed

lemma tt_hover_run:
  "tt_hover_ok s \<Longrightarrow> tt_steady c s \<Longrightarrow> 0 < tto_delay_show c \<Longrightarrow> 0 < tto_delay_hide c \<Longrightarrow> \<not> tto_support c \<Longrightarrow>
   set es \<subseteq> {TtEnter, TtLeave} \<union> range TtTimer \<Longrightarrow>
   tt_hover_ok (foldl (tt_step c) s es) \<and> tt_steady c (foldl (tt_step c) s es) \<and>
   tt_hover (foldl (tt_step c) s es) = tt_last (tt_hover s) es"
proof (induction es arbitrary: s)
  case (Cons e es)
  then have e: "e \<in> {TtEnter, TtLeave} \<union> range TtTimer" by simp
  note step = tt_hover_step [OF Cons.prems(1-5) e]
  show ?case using Cons.IH [of "tt_step c s e"] step Cons.prems by simp
qed simp



text \<open>
  \<open>enter\<close> with a delay for hiding but none for showing neither clears the timer nor notes that the mouse is back: the tip is taken away
  under the mouse.
\<close>

lemma tooltip_hides_under_mouse:
  "let c = \<lparr>tto_delay_show = 0, tto_delay_hide = 100, tto_animation = False, tto_support = False, tto_popover = False\<rparr>;
       s = foldl (tt_step c) (tt_new ''hi'' []) [TtEnter, TtLeave, TtEnter, TtTimer 0]
   in \<not> tt_attached s \<and> tt_timers s = []"
  by code_simp

text \<open>A tip shown again while it fades out is removed by the callback of the hide before.\<close>

lemma tooltip_removed_under_mouse:
  "let c = \<lparr>tto_delay_show = 0, tto_delay_hide = 0, tto_animation = True, tto_support = True, tto_popover = False\<rparr>;
       s = foldl (tt_step c) (tt_new ''hi'' []) [TtEnter, TtLeave, TtEnter, TtRemoval 0]
   in tt_in s \<and> \<not> tt_attached s \<and> tt_removals s = [] \<and> tt_on_end s = []"
  by code_simp

subsection \<open>Toggling\<close>

text \<open>A click on the element of a popover without a pending removal, left to settle: the tip comes with the current texts, or goes.\<close>

lemma tt_toggle_settles:
  assumes "tt_removals s = []" "tt_on_end s = []" "tt_attached s = tt_in s" "tt_hasContent c s" "tt_enabled s"
  shows "let t = tt_end (tt_toggle c False s)
         in tt_in t = (\<not> tt_in s) \<and> tt_attached t = tt_in t \<and> tt_removals t = [] \<and> tt_on_end t = [] \<and>
            (tt_in t \<longrightarrow> tt_shows t = (tt_title s, if tto_popover c then tt_content s else []))"
  using assms
  by (cases "tt_in s"; cases "tto_support c \<and> tt_fade s")
    (auto simp: tt_toggle_def tt_hide_def tt_show_def tt_setContent_def tt_removeWithAnimation_def tt_end_def tt_hasContent_def Let_def)

lemma tt_disabled: "\<not> tt_enabled s \<Longrightarrow> tt_show c p s = s"
  by (simp add: tt_show_def)

lemma tt_without_content: "\<not> tt_hasContent c s \<Longrightarrow> tt_show c p s = s"
  by (simp add: tt_show_def)

end
