(* ===== verification/Qunit_Diff.thy ===== *)
theory Qunit_Diff
  imports Js_Prelude "HOL-Library.Multiset"
begin

text \<open>
  \<open>QUnit.diff\<close> of \<open>fuelux/lib/qunit/qunit.js\<close>, which prints the words of two texts as kept, deleted and inserted, and the helper
  \<open>diff\<close> on arrays. A word whose row in the other text is known is \<open>Linked\<close> to it. The result is kept as a list of tokens;
  \<open>qd_render\<close> is the string.
  The lemmas show that the links are symmetric and join equal words, that the output without its deletions is the new text, when
  it also accounts for every word of the old one, and two cases in which it does not: a first word that is only deleted, and words
  that are names of properties of every object.
\<close>

subsection \<open>Words and spaces\<close>

definition qd_space :: "char \<Rightarrow> bool" where
  "qd_space c \<longleftrightarrow> (of_char c :: nat) \<in> {9, 10, 11, 12, 13, 32, 160}"

text \<open>\<open>s.replace(/\s+$/, "")\<close>, \<open>s.split(/\s+/)\<close> and \<open>s.match(/\s+/g)\<close>.\<close>

definition qd_trim :: "string \<Rightarrow> string" where
  "qd_trim s = rev (dropWhile qd_space (rev s))"

function qd_split :: "string \<Rightarrow> string list" where
  "qd_split s =
     (case dropWhile (\<lambda>c. \<not> qd_space c) s of
        [] \<Rightarrow> [s]
      | c # rest \<Rightarrow> takeWhile (\<lambda>c. \<not> qd_space c) s # qd_split (dropWhile qd_space rest))"
  by pat_completeness auto
termination
proof (relation "measure length", simp)
  fix s c rest
  assume "dropWhile (\<lambda>c. \<not> qd_space c) s = c # rest"
  then have "Suc (length rest) \<le> length s" by (metis length_Cons length_dropWhile_le)
  then show "(dropWhile qd_space rest, s) \<in> measure length"
    using length_dropWhile_le [of qd_space rest] by simp
qed

function qd_spaces :: "string \<Rightarrow> string list" where
  "qd_spaces s =
     (case dropWhile (\<lambda>c. \<not> qd_space c) s of
        [] \<Rightarrow> []
      | c # rest \<Rightarrow> (c # takeWhile qd_space rest) # qd_spaces (dropWhile qd_space rest))"
  by pat_completeness auto
termination
proof (relation "measure length", simp)
  fix s c rest
  assume "dropWhile (\<lambda>c. \<not> qd_space c) s = c # rest"
  then have "Suc (length rest) \<le> length s" by (metis length_Cons length_dropWhile_le)
  then show "(dropWhile qd_space rest, s) \<in> measure length"
    using length_dropWhile_le [of qd_space rest] by simp
qed

declare qd_split.simps [simp del] qd_spaces.simps [simp del]

definition qd_words :: "string \<Rightarrow> string list" where
  "qd_words s = (let t = qd_trim s in if t = [] then [] else qd_split t)"

definition qd_gaps :: "string \<Rightarrow> string list" where
  "qd_gaps s = qd_spaces (qd_trim s) @ ['' '']"

subsection \<open>Linking equal words\<close>

datatype qd_elem = Word (qd_text: string) | Linked (qd_text: string) (qd_row: nat)

fun qd_linked :: "qd_elem \<Rightarrow> bool" where
  "qd_linked (Word _) = False"
| "qd_linked (Linked _ _) = True"

text \<open>
  The tables \<open>ns\<close> and \<open>os\<close>: the rows of each word. They are plain objects, so a word that names a property every object inherits is
  found although it was never stored, and \<open>rows.push\<close> throws.
\<close>

definition qd_inherited :: "string set" where
  "qd_inherited =
     {''constructor'', ''toString'', ''toLocaleString'', ''valueOf'', ''hasOwnProperty'', ''isPrototypeOf'',
      ''propertyIsEnumerable'', ''__proto__'', ''__defineGetter__'', ''__defineSetter__'', ''__lookupGetter__'', ''__lookupSetter__''}"

definition qd_rows :: "nat list obj \<Rightarrow> string \<Rightarrow> nat list" where
  "qd_rows t w = (case map_of t w of Some rs \<Rightarrow> rs | None \<Rightarrow> [])"

fun qd_table :: "nat \<Rightarrow> string list \<Rightarrow> nat list obj \<Rightarrow> nat list obj option" where
  "qd_table i [] t = Some t"
| "qd_table i (w # ws) t =
     (if w \<in> qd_inherited then None else qd_table (Suc i) ws (AList.update w (qd_rows t w @ [i]) t))"

definition qd_link :: "nat \<Rightarrow> nat \<Rightarrow> qd_elem list \<times> qd_elem list \<Rightarrow> qd_elem list \<times> qd_elem list" where
  "qd_link i j s =
     (case s of (n, os) \<Rightarrow> (n[i := Linked (qd_text (n ! i)) j], os[j := Linked (qd_text (os ! j)) i]))"

text \<open>Words that occur once in each text.\<close>

definition qd_unique :: "nat list obj \<Rightarrow> nat list obj \<Rightarrow> qd_elem list \<times> qd_elem list \<Rightarrow> qd_elem list \<times> qd_elem list" where
  "qd_unique ns os s =
     fold (\<lambda>(w, rs) s. if length rs = 1 \<and> length (qd_rows os w) = 1 then qd_link (hd rs) (hd (qd_rows os w)) s else s) ns s"

text \<open>Equal neighbours of linked words, going down and then up.\<close>

definition qd_down :: "nat \<Rightarrow> qd_elem list \<times> qd_elem list \<Rightarrow> qd_elem list \<times> qd_elem list" where
  "qd_down i s =
     (case s of (n, os) \<Rightarrow>
        (case n ! i of
           Word _ \<Rightarrow> s
         | Linked _ r \<Rightarrow>
             if \<not> qd_linked (n ! Suc i) \<and> Suc r < length os \<and> \<not> qd_linked (os ! Suc r) \<and> n ! Suc i = os ! Suc r
             then qd_link (Suc i) (Suc r) s else s))"

definition qd_up :: "nat \<Rightarrow> qd_elem list \<times> qd_elem list \<Rightarrow> qd_elem list \<times> qd_elem list" where
  "qd_up i s =
     (case s of (n, os) \<Rightarrow>
        (case n ! i of
           Word _ \<Rightarrow> s
         | Linked _ r \<Rightarrow>
             if \<not> qd_linked (n ! (i - 1)) \<and> 0 < r \<and> \<not> qd_linked (os ! (r - 1)) \<and> n ! (i - 1) = os ! (r - 1)
             then qd_link (i - 1) (r - 1) s else s))"

definition qd_diff :: "string list \<Rightarrow> string list \<Rightarrow> (qd_elem list \<times> qd_elem list) option" where
  "qd_diff old new =
     (case qd_table 0 new [] of
        None \<Rightarrow> None
      | Some ns \<Rightarrow>
          (case qd_table 0 old [] of
             None \<Rightarrow> None
           | Some os \<Rightarrow>
               let s1 = qd_unique ns os (map Word new, map Word old);
                   s2 = fold qd_down [0..<length new - 1] s1
               in Some (fold qd_up (rev [1..<length new]) s2)))"

subsection \<open>The output\<close>

datatype qd_token = Del string string | Ins string string | Keep string string

fun qd_word :: "qd_token \<Rightarrow> string" where
  "qd_word (Del w _) = w"
| "qd_word (Ins w _) = w"
| "qd_word (Keep w _) = w"

fun qd_is_del :: "qd_token \<Rightarrow> bool" where
  "qd_is_del (Del _ _) = True"
| "qd_is_del _ = False"

fun qd_is_ins :: "qd_token \<Rightarrow> bool" where
  "qd_is_ins (Ins _ _) = True"
| "qd_is_ins _ = False"

text \<open>The unlinked words of the old text from row \<open>j\<close> on.\<close>

definition qd_deletions :: "qd_elem list \<Rightarrow> string list \<Rightarrow> nat \<Rightarrow> qd_token list" where
  "qd_deletions os gaps j =
     map (\<lambda>i. Del (qd_text (os ! i)) (gaps ! i)) [j..<j + length (takeWhile (\<lambda>e. \<not> qd_linked e) (drop j os))]"

definition qd_item :: "qd_elem list \<Rightarrow> string list \<Rightarrow> string list \<Rightarrow> qd_elem \<times> nat \<Rightarrow> qd_token list" where
  "qd_item os ogaps ngaps p =
     (case p of
        (Word w, i) \<Rightarrow> [Ins w (ngaps ! i)]
      | (Linked w r, i) \<Rightarrow> Keep w (ngaps ! i) # qd_deletions os ogaps (Suc r))"

definition qd_output :: "string list \<Rightarrow> string list \<Rightarrow> qd_elem list \<times> qd_elem list \<Rightarrow> qd_token list" where
  "qd_output ogaps ngaps s =
     (case s of (n, os) \<Rightarrow>
        (if n = [] then map (\<lambda>i. Del (qd_text (os ! i)) (ogaps ! i)) [0..<length os]
         else (if \<not> qd_linked (n ! 0) then qd_deletions os ogaps 0 else []) @
              concat (map (qd_item os ogaps ngaps) (zip n [0..<length n]))))"

definition qd_tokens :: "string \<Rightarrow> string \<Rightarrow> qd_token list option" where
  "qd_tokens old new = map_option (qd_output (qd_gaps old) (qd_gaps new)) (qd_diff (qd_words old) (qd_words new))"

fun qd_show :: "qd_token \<Rightarrow> string" where
  "qd_show (Del w g) = ''<del>'' @ w @ g @ ''</del>''"
| "qd_show (Ins w g) = ''<ins>'' @ w @ g @ ''</ins>''"
| "qd_show (Keep w g) = '' '' @ w @ g"

text \<open>\<open>None\<close> is the exception of \<open>rows.push\<close>.\<close>

definition qunit_diff :: "string \<Rightarrow> string \<Rightarrow> string option" where
  "qunit_diff old new = map_option (\<lambda>ts. concat (map qd_show ts)) (qd_tokens old new)"

subsection \<open>Lemmas: the links\<close>

lemma qd_table_rows:
  "qd_table i ws t = Some t' \<Longrightarrow>
   qd_rows t' x = qd_rows t x @ filter (\<lambda>j. ws ! (j - i) = x) [i..<i + length ws]"
proof (induction i ws t rule: qd_table.induct)
  case (2 i w ws t)
  then have IH: "qd_rows t' x = qd_rows (AList.update w (qd_rows t w @ [i]) t) x @ filter (\<lambda>j. ws ! (j - Suc i) = x) [Suc i..<Suc i + length ws]"
    by (auto split: if_splits)
  have shift: "filter (\<lambda>j. ws ! (j - Suc i) = x) [Suc i..<Suc i + length ws]
                 = filter (\<lambda>j. (w # ws) ! (j - i) = x) [Suc i..<Suc i + length ws]"
    by (rule filter_cong) (auto simp: nth_Cons' Suc_diff_le)
  have "[i..<i + length (w # ws)] = i # [Suc i..<Suc i + length ws]"
    by (subst upt_conv_Cons) (simp, simp del: upt_Suc)
  then show ?case using IH shift by (auto simp: qd_rows_def)
qed simp

lemma qd_table_distinct: "qd_table i ws t = Some t' \<Longrightarrow> distinct (map fst t) \<Longrightarrow> distinct (map fst t')"
  by (induction i ws t rule: qd_table.induct) (auto simp: distinct_update split: if_splits)

lemma qd_table_single:
  assumes "qd_table 0 ws [] = Some t" "length (qd_rows t w) = 1"
  shows "hd (qd_rows t w) < length ws \<and> ws ! hd (qd_rows t w) = w"
proof -
  have rows: "qd_rows t w = filter (\<lambda>j. ws ! j = w) [0..<length ws]"
    using qd_table_rows [OF assms(1), of w] by (simp add: qd_rows_def)
  have "hd (qd_rows t w) \<in> set (qd_rows t w)" using assms(2) by (cases "qd_rows t w") auto
  then show ?thesis using rows by auto
qed

text \<open>The texts stay, and links are symmetric and join equal words.\<close>

definition qd_inv :: "string list \<Rightarrow> string list \<Rightarrow> qd_elem list \<times> qd_elem list \<Rightarrow> bool" where
  "qd_inv new old s \<longleftrightarrow>
     map qd_text (fst s) = new \<and> map qd_text (snd s) = old \<and>
     (\<forall>i < length new. \<forall>t r. fst s ! i = Linked t r \<longrightarrow> r < length old \<and> snd s ! r = Linked t i) \<and>
     (\<forall>j < length old. \<forall>t r. snd s ! j = Linked t r \<longrightarrow> r < length new \<and> fst s ! r = Linked t j)"

lemma qd_inv_lengths: "qd_inv new old s \<Longrightarrow> length (fst s) = length new \<and> length (snd s) = length old"
  unfolding qd_inv_def by (metis length_map)

lemma qd_inv_link:
  "qd_inv new old s \<Longrightarrow> fst s ! i = Linked t r \<Longrightarrow> i < length new \<Longrightarrow> r < length old \<and> snd s ! r = Linked t i"
  "qd_inv new old s \<Longrightarrow> snd s ! j = Linked t r \<Longrightarrow> j < length old \<Longrightarrow> r < length new \<and> fst s ! r = Linked t j"
  unfolding qd_inv_def by blast+

lemma qd_text_inv: "qd_inv new old s \<Longrightarrow> i < length new \<Longrightarrow> qd_text (fst s ! i) = new ! i"
  unfolding qd_inv_def by (metis length_map nth_map)

lemma qd_text_inv': "qd_inv new old s \<Longrightarrow> i < length old \<Longrightarrow> qd_text (snd s ! i) = old ! i"
  unfolding qd_inv_def by (metis length_map nth_map)

lemma qd_link_inv:
  assumes inv: "qd_inv new old s" and i: "i < length new" "\<not> qd_linked (fst s ! i)"
    and j: "j < length old" "\<not> qd_linked (snd s ! j)" and eq: "new ! i = old ! j"
  shows "qd_inv new old (qd_link i j s)"
proof -
  obtain n os where s: "s = (n, os)" by (cases s)
  have len: "length n = length new" "length os = length old" using qd_inv_lengths [OF inv] by (simp_all add: s)
  have texts: "qd_text (n ! i) = new ! i" "qd_text (os ! j) = old ! j"
    using qd_text_inv [OF inv i(1)] qd_text_inv' [OF inv j(1)] by (simp_all add: s)
  have "map qd_text n = new" "map qd_text os = old" using inv by (simp_all add: qd_inv_def s)
  then have keep: "map qd_text (n[i := Linked (new ! i) j]) = new" "map qd_text (os[j := Linked (old ! j) i]) = old"
    by (simp_all add: map_update)
  have away: "r \<noteq> j \<and> k \<noteq> i" if "n ! k = Linked t r" "k < length new" for k t r
    using qd_inv_link(1) [OF inv, of k t r] that i j by (auto simp: s)
  have away': "r \<noteq> i \<and> k \<noteq> j" if "os ! k = Linked t r" "k < length old" for k t r
    using qd_inv_link(2) [OF inv, of k t r] that i j by (auto simp: s)
  have fwd: "r < length old \<and> os[j := Linked (old ! j) i] ! r = Linked t k"
    if "k < length new" "n[i := Linked (new ! i) j] ! k = Linked t r" for k t r
  proof (cases "k = i")
    case True
    then show ?thesis using that i j len eq by auto
  next
    case False
    then have "n ! k = Linked t r" using that by simp
    then show ?thesis using away [of k t r] qd_inv_link(1) [OF inv, of k t r] that len by (simp add: s)
  qed
  have bwd: "r < length new \<and> n[i := Linked (new ! i) j] ! r = Linked t k"
    if "k < length old" "os[j := Linked (old ! j) i] ! k = Linked t r" for k t r
  proof (cases "k = j")
    case True
    then show ?thesis using that i j len eq by auto
  next
    case False
    then have "os ! k = Linked t r" using that by simp
    then show ?thesis using away' [of k t r] qd_inv_link(2) [OF inv, of k t r] that len by (simp add: s)
  qed
  show ?thesis
    unfolding qd_inv_def qd_link_def s prod.case fst_conv snd_conv texts using keep fwd bwd by blast
qed

lemma qd_inv_start: "qd_inv new old (map Word new, map Word old)"
  by (simp add: qd_inv_def comp_def)

lemma qd_down_inv:
  assumes inv: "qd_inv new old s" and i: "Suc i < length new"
  shows "qd_inv new old (qd_down i s)"
proof (cases "fst s ! i")
  case Word
  then show ?thesis using inv by (simp add: qd_down_def split_beta)
next
  case (Linked t r)
  have "new ! Suc i = old ! Suc r" if "Suc r < length old" "fst s ! Suc i = snd s ! Suc r"
    using that qd_text_inv [OF inv i] qd_text_inv' [OF inv, of "Suc r"] by simp
  then show ?thesis
    using inv Linked qd_link_inv [OF inv, of "Suc i" "Suc r"] i qd_inv_lengths [OF inv]
    by (simp add: qd_down_def split_beta)
qed

lemma qd_up_inv:
  assumes inv: "qd_inv new old s" and i: "i < length new" "0 < i"
  shows "qd_inv new old (qd_up i s)"
proof (cases "fst s ! i")
  case Word
  then show ?thesis using inv by (simp add: qd_up_def split_beta)
next
  case (Linked t r)
  then have r: "r < length old" using qd_inv_link(1) [OF inv _ i(1)] by blast
  have "new ! (i - 1) = old ! (r - 1)" if "fst s ! (i - 1) = snd s ! (r - 1)"
    using that qd_text_inv [OF inv, of "i - 1"] qd_text_inv' [OF inv, of "r - 1"] r i by simp
  then show ?thesis
    using inv Linked qd_link_inv [OF inv, of "i - 1" "r - 1"] i r
    by (simp add: qd_up_def split_beta)
qed

text \<open>Linked words have been visited.\<close>

definition qd_seen :: "string set \<Rightarrow> qd_elem list \<times> qd_elem list \<Rightarrow> bool" where
  "qd_seen W s \<longleftrightarrow> (\<forall>e \<in> set (fst s) \<union> set (snd s). qd_linked e \<longrightarrow> qd_text e \<notin> W)"

lemma qd_unique_inv:
  assumes ns: "qd_table 0 new [] = Some ns" and os: "qd_table 0 old [] = Some os"
  shows "qd_inv new old (qd_unique ns os (map Word new, map Word old))"
proof -
  have run: "qd_inv new old s \<Longrightarrow> qd_seen (fst ` set ps) s \<Longrightarrow> distinct (map fst ps) \<Longrightarrow>
        (\<And>w rs. (w, rs) \<in> set ps \<Longrightarrow> rs = qd_rows ns w) \<Longrightarrow> qd_inv new old (qd_unique ps os s)" for ps s
  proof (induction ps arbitrary: s)
    case (Cons p ps)
    obtain w rs where p: "p = (w, rs)" by (cases p)
    have rs: "rs = qd_rows ns w" using Cons.prems(4) p by simp
    show ?case
    proof (cases "length rs = 1 \<and> length (qd_rows os w) = 1")
      case True
      define i j where "i = hd rs" and "j = hd (qd_rows os w)"
      have i: "i < length new" "new ! i = w" using qd_table_single [OF ns, of w] True rs by (simp_all add: i_def)
      have j: "j < length old" "old ! j = w" using qd_table_single [OF os, of w] True by (simp_all add: j_def)
      have len: "length (fst s) = length new" "length (snd s) = length old" using qd_inv_lengths [OF Cons.prems(1)] by auto
      have mem: "fst s ! i \<in> set (fst s)" "snd s ! j \<in> set (snd s)" using i j len by simp_all
      have free: "\<not> qd_linked (fst s ! i)" "\<not> qd_linked (snd s ! j)"
        using Cons.prems(2) mem qd_text_inv [OF Cons.prems(1) i(1)] qd_text_inv' [OF Cons.prems(1) j(1)] i j p
        by (auto simp: qd_seen_def)
      have inv: "qd_inv new old (qd_link i j s)"
        by (rule qd_link_inv [OF Cons.prems(1) i(1) free(1) j(1) free(2)]) (simp add: i j)
      have new_word: "(w, b) \<notin> set ps" for b using Cons.prems(3) p by force
      have seen: "qd_seen (fst ` set ps) (qd_link i j s)"
        using Cons.prems(2) p i j qd_text_inv [OF Cons.prems(1) i(1)] qd_text_inv' [OF Cons.prems(1) j(1)] new_word
        by (auto simp: qd_seen_def qd_link_def split_beta dest!: set_update_subset_insert [THEN subsetD])
      have "qd_unique (p # ps) os s = qd_unique ps os (qd_link i j s)"
        using True by (simp add: qd_unique_def p i_def j_def)
      then show ?thesis using Cons.IH [OF inv seen] Cons.prems(3,4) by simp
    next
      case False
      have "qd_unique (p # ps) os s = qd_unique ps os s" using False by (auto simp: qd_unique_def p)
      moreover have "qd_seen (fst ` set ps) s" using Cons.prems(2) by (auto simp: qd_seen_def)
      ultimately show ?thesis using Cons.IH [OF Cons.prems(1)] Cons.prems(3,4) by simp
    qed
  qed (simp add: qd_unique_def)
  have d: "distinct (map fst ns)" using qd_table_distinct [OF ns] by simp
  have rows: "(w, rs) \<in> set ns \<Longrightarrow> rs = qd_rows ns w" for w rs using d by (simp add: qd_rows_def)
  show ?thesis by (rule run [OF qd_inv_start _ d rows]) (auto simp: qd_seen_def)
qed

lemma qd_fold_inv:
  "(\<And>i s. i \<in> set is \<Longrightarrow> P s \<Longrightarrow> P (f i s)) \<Longrightarrow> P s \<Longrightarrow> P (fold f is s)"
  by (induction "is" arbitrary: s) auto

lemma qd_diff_inv:
  assumes "qd_diff old new = Some s"
  shows "qd_inv new old s"
proof -
  obtain ns os where t: "qd_table 0 new [] = Some ns" "qd_table 0 old [] = Some os"
    and s: "s = fold qd_up (rev [1..<length new]) (fold qd_down [0..<length new - 1] (qd_unique ns os (map Word new, map Word old)))"
    using assms by (auto simp: qd_diff_def Let_def split: option.splits)
  have "qd_inv new old (fold qd_down [0..<length new - 1] (qd_unique ns os (map Word new, map Word old)))"
    by (rule qd_fold_inv [where P = "qd_inv new old"]) (auto intro: qd_down_inv qd_unique_inv [OF t])
  then show ?thesis unfolding s
    by (rule qd_fold_inv [where P = "qd_inv new old", rotated]) (auto intro: qd_up_inv)
qed

subsection \<open>Lemmas: the output\<close>

lemma qd_deletions_del: "t \<in> set (qd_deletions os g j) \<Longrightarrow> qd_is_del t"
  by (auto simp: qd_deletions_def)

lemma qd_keep_no_del: "filter (\<lambda>t. \<not> qd_is_del t) (qd_deletions os g j) = []"
  using qd_deletions_del [of _ os g j] by (auto simp: filter_empty_conv)

lemma qd_item_new: "map qd_word (filter (\<lambda>t. \<not> qd_is_del t) (qd_item os og ng (e, i))) = [qd_text e]"
  by (cases e) (simp_all add: qd_item_def qd_keep_no_del)

text \<open>Without its deletions the output is the new text, word for word.\<close>

lemma qd_output_new:
  "map qd_word (filter (\<lambda>t. \<not> qd_is_del t) (qd_output og ng (n, os))) = map qd_text n"
proof -
  have "map qd_word (filter (\<lambda>t. \<not> qd_is_del t) (concat (map (qd_item os og ng) ps))) = map (qd_text \<circ> fst) ps" for ps
    by (induction ps) (auto simp: qd_item_new)
  then show ?thesis
    by (auto simp: qd_output_def filter_empty_conv qd_deletions_del map_fst_zip simp flip: map_map)
qed

text \<open>
  The old text from row \<open>j\<close> on consists of a run of unlinked words and, for each linked word, that word and the run after it.
\<close>

definition qd_run :: "qd_elem list \<Rightarrow> nat \<Rightarrow> qd_elem list" where
  "qd_run os j = takeWhile (\<lambda>e. \<not> qd_linked e) (drop j os)"

lemma qd_deletions_words: "map qd_word (qd_deletions os g j) = map qd_text (qd_run os j)"
proof -
  have "take (length (qd_run os j)) (drop j os) = qd_run os j"
    unfolding qd_run_def by (metis takeWhile_eq_take)
  moreover have "map (\<lambda>i. qd_text (os ! i)) [j..<j + m] = map qd_text (take m (drop j os))" if "j + m \<le> length os \<or> m = 0" for m
    by (rule nth_equalityI) (use that in auto)
  moreover have "j + length (qd_run os j) \<le> length os \<or> length (qd_run os j) = 0"
    using length_takeWhile_le [of "\<lambda>e. \<not> qd_linked e" "drop j os"]
    by (cases "j \<le> length os") (auto simp: qd_run_def)
  ultimately show ?thesis by (simp add: qd_deletions_def comp_def flip: qd_run_def)
qed

fun qd_runs :: "qd_elem list \<Rightarrow> qd_elem list list" where
  "qd_runs [] = []"
| "qd_runs (e # es) = (if qd_linked e then [e # takeWhile (\<lambda>e. \<not> qd_linked e) es] else []) @ qd_runs es"

lemma qd_runs_all: "mset (takeWhile (\<lambda>e. \<not> qd_linked e) es) + mset (concat (qd_runs es)) = mset es"
  by (induction es) auto

lemma qd_runs_rows:
  "qd_runs es = map (\<lambda>j. es ! j # takeWhile (\<lambda>e. \<not> qd_linked e) (drop (Suc j) es)) (filter (\<lambda>j. qd_linked (es ! j)) [0..<length es])"
proof (induction es)
  case (Cons e es)
  have "[0..<length (e # es)] = 0 # map Suc [0..<length es]" by (simp add: upt_conv_Cons map_Suc_upt del: upt_Suc)
  then show ?case using Cons by (simp add: filter_map comp_def)
qed simp

text \<open>The rows of the linked words of the new text are the linked rows of the old one, each once.\<close>

lemma qd_rows_bij:
  assumes inv: "qd_inv new old (n, os)"
  shows "mset (map (\<lambda>i. qd_row (n ! i)) (filter (\<lambda>i. qd_linked (n ! i)) [0..<length n]))
           = mset (filter (\<lambda>j. qd_linked (os ! j)) [0..<length os])"
proof -
  have len: "length n = length new" "length os = length old" using qd_inv_lengths [OF inv] by simp_all
  define I where "I = filter (\<lambda>i. qd_linked (n ! i)) [0..<length n]"
  have self: "n ! i = Linked (qd_text (n ! i)) (qd_row (n ! i))" if "i \<in> set I" for i
    using that by (cases "n ! i") (auto simp: I_def)
  have link: "qd_row (n ! i) < length os \<and> os ! qd_row (n ! i) = Linked (qd_text (n ! i)) i" if "i \<in> set I" for i
    using qd_inv_link(1) [OF inv, of i "qd_text (n ! i)" "qd_row (n ! i)"] self [OF that] that len by (simp add: I_def)
  have inj: "inj_on (\<lambda>i. qd_row (n ! i)) (set I)"
    by (rule inj_onI) (metis link qd_elem.inject(2))
  have image: "(\<lambda>i. qd_row (n ! i)) ` set I = {j. j < length os \<and> qd_linked (os ! j)}"
  proof (intro set_eqI iffI)
    fix j assume "j \<in> {j. j < length os \<and> qd_linked (os ! j)}"
    then obtain t r where "j < length os" "os ! j = Linked t r" by (cases "os ! j") auto
    then have "r < length n \<and> n ! r = Linked t j" using qd_inv_link(2) [OF inv, of j t r] len by simp
    then have "r \<in> set I" "qd_row (n ! r) = j" by (simp_all add: I_def)
    then show "j \<in> (\<lambda>i. qd_row (n ! i)) ` set I" by force
  qed (use link in auto)
  have "mset (map (\<lambda>i. qd_row (n ! i)) I) = mset_set ((\<lambda>i. qd_row (n ! i)) ` set I)"
    using inj by (subst mset_set_set [symmetric]) (auto simp: distinct_map I_def)
  also have "\<dots> = mset (filter (\<lambda>j. qd_linked (os ! j)) [0..<length os])"
    unfolding image by (subst mset_set_set [symmetric]) (auto intro: arg_cong [of _ _ mset_set])
  finally show ?thesis by (simp add: I_def)
qed

lemma qd_deletions_keep: "filter (\<lambda>t. \<not> qd_is_ins t) (qd_deletions os g j) = qd_deletions os g j"
  by (auto simp: qd_deletions_def filter_id_conv)

definition qd_old_run :: "qd_elem list \<Rightarrow> nat \<Rightarrow> string list" where
  "qd_old_run os j = qd_text (os ! j) # map qd_text (qd_run os (Suc j))"

lemma qd_items_old:
  assumes inv: "qd_inv new old (n, os)" and ks: "set ks \<subseteq> {..<length n}"
  shows "map qd_word (filter (\<lambda>t. \<not> qd_is_ins t) (concat (map (\<lambda>i. qd_item os og ng (n ! i, i)) ks)))
           = concat (map (\<lambda>i. qd_old_run os (qd_row (n ! i))) (filter (\<lambda>i. qd_linked (n ! i)) ks))"
  using ks
proof (induction ks)
  case (Cons i ks)
  have len: "length n = length new" using qd_inv_lengths [OF inv] by simp
  show ?case
  proof (cases "n ! i")
    case (Word w)
    then show ?thesis using Cons by (simp add: qd_item_def)
  next
    case (Linked w r)
    then have "os ! r = Linked w i" using qd_inv_link(1) [OF inv, of i w r] Cons.prems len by simp
    then show ?thesis
      using Cons Linked by (simp add: qd_item_def qd_deletions_keep qd_deletions_words qd_old_run_def)
  qed
qed simp

lemma mset_concat_map_cong: "mset js = mset ks \<Longrightarrow> mset (concat (map h js)) = mset (concat (map h ks))"
  by (simp add: mset_concat flip: sum_mset_sum_list)

text \<open>The runs of the linked rows and the leading run are all words of the old text.\<close>

lemma qd_output_old:
  assumes inv: "qd_inv new old (n, os)" and first: "n = [] \<or> \<not> qd_linked (n ! 0) \<or> qd_linked (os ! 0)"
  shows "mset (map qd_word (filter (\<lambda>t. \<not> qd_is_ins t) (qd_output og ng (n, os)))) = mset old"
proof -
  have texts: "map qd_text os = old" using inv by (simp add: qd_inv_def)
  show ?thesis
  proof (cases "n = []")
    case True
    have "map (\<lambda>i. qd_text (os ! i)) [0..<length os] = old" unfolding texts [symmetric] by (rule nth_equalityI) auto
    moreover have "filter (\<lambda>t. \<not> qd_is_ins t) (map (\<lambda>i. Del (qd_text (os ! i)) (og ! i)) xs) = map (\<lambda>i. Del (qd_text (os ! i)) (og ! i)) xs" for xs
      by (simp add: filter_map comp_def)
    ultimately show ?thesis using True by (simp add: qd_output_def comp_def)
  next
    case False
    define J where "J = filter (\<lambda>j. qd_linked (os ! j)) [0..<length os]"
    define I where "I = filter (\<lambda>i. qd_linked (n ! i)) [0..<length n]"
    have zip: "zip n [0..<length n] = map (\<lambda>i. (n ! i, i)) [0..<length n]"
      by (rule nth_equalityI) auto
    have items: "map qd_word (filter (\<lambda>t. \<not> qd_is_ins t) (concat (map (qd_item os og ng) (zip n [0..<length n]))))
                   = concat (map (qd_old_run os) (map (\<lambda>i. qd_row (n ! i)) I))"
      using qd_items_old [OF inv, of "[0..<length n]" og ng] by (simp add: zip comp_def I_def lessThan_atLeast0)
    have runs: "concat (map (qd_old_run os) J) = map qd_text (concat (qd_runs os))"
      by (simp add: qd_runs_rows J_def map_concat comp_def qd_old_run_def [abs_def] qd_run_def)
    have "mset (concat (map (qd_old_run os) (map (\<lambda>i. qd_row (n ! i)) I))) = mset (map qd_text (concat (qd_runs os)))"
      unfolding runs [symmetric] by (rule mset_concat_map_cong) (simp only: I_def J_def qd_rows_bij [OF inv])
    moreover have "map qd_word (filter (\<lambda>t. \<not> qd_is_ins t) (if \<not> qd_linked (n ! 0) then qd_deletions os og 0 else []))
                     = map qd_text (takeWhile (\<lambda>e. \<not> qd_linked e) os)"
    proof (cases "qd_linked (n ! 0)")
      case True
      then have "takeWhile (\<lambda>e. \<not> qd_linked e) os = []" using first False by (cases os) auto
      then show ?thesis using True by simp
    next
      case no: False
      then show ?thesis by (simp add: qd_deletions_keep qd_deletions_words qd_run_def)
    qed
    ultimately have "mset (map qd_word (filter (\<lambda>t. \<not> qd_is_ins t) (qd_output og ng (n, os))))
                       = mset (map qd_text (takeWhile (\<lambda>e. \<not> qd_linked e) os)) + mset (map qd_text (concat (qd_runs os)))"
      using False items by (simp add: qd_output_def)
    also have "\<dots> = image_mset qd_text (mset (takeWhile (\<lambda>e. \<not> qd_linked e) os) + mset (concat (qd_runs os)))" by simp
    also have "\<dots> = mset old" unfolding qd_runs_all texts [symmetric] by simp
    finally show ?thesis .
  qed
qed

lemma qd_table_None: "qd_table i ws t = None \<longleftrightarrow> (\<exists>w \<in> set ws. w \<in> qd_inherited)"
  by (induction i ws t rule: qd_table.induct) auto

lemma qd_diff_None: "qd_diff old new = None \<longleftrightarrow> (\<exists>w \<in> set old \<union> set new. w \<in> qd_inherited)"
  using qd_table_None [of 0 new "[]"] qd_table_None [of 0 old "[]"]
  by (auto simp: qd_diff_def Let_def split: option.splits)

subsection \<open>Properties\<close>

text \<open>C33: When no word is the name of a property that every object inherits, the output of \<open>QUnit.diff\<close> without its deletions is the new
  text, word for word; and unless the first new word is kept and the first old word is not, the output without its insertions
  holds exactly the words of the old text.\<close>

theorem qunit_diff_accounts:
  assumes plain: "(set (qd_words old) \<union> set (qd_words new)) \<inter> qd_inherited = {}"
  shows "\<exists>n os ts. qd_diff (qd_words old) (qd_words new) = Some (n, os) \<and> qd_tokens old new = Some ts \<and>
           map qd_word (filter (\<lambda>t. \<not> qd_is_del t) ts) = qd_words new \<and>
           (n = [] \<or> \<not> qd_linked (n ! 0) \<or> qd_linked (os ! 0) \<longrightarrow>
             mset (map qd_word (filter (\<lambda>t. \<not> qd_is_ins t) ts)) = mset (qd_words old))"
proof -
  have "qd_diff (qd_words old) (qd_words new) \<noteq> None" using plain by (auto simp: qd_diff_None)
  then obtain n os where d: "qd_diff (qd_words old) (qd_words new) = Some (n, os)" by auto
  have inv: "qd_inv (qd_words new) (qd_words old) (n, os)" by (rule qd_diff_inv [OF d])
  then have "map qd_text n = qd_words new" by (simp add: qd_inv_def)
  then show ?thesis
    using d qd_output_new qd_output_old [OF inv] by (simp add: qd_tokens_def)
qed

theorem qunit_diff_accounts_witness:
  "\<exists>n os ts. qd_diff (qd_words ''the quick fox'') (qd_words ''the fox runs'') = Some (n, os) \<and>
     qd_tokens ''the quick fox'' ''the fox runs'' = Some ts \<and>
     map qd_word (filter (\<lambda>t. \<not> qd_is_del t) ts) = [''the'', ''fox'', ''runs'']"
proof -
  have w: "qd_words ''the quick fox'' = [''the'', ''quick'', ''fox'']" "qd_words ''the fox runs'' = [''the'', ''fox'', ''runs'']"
    by code_simp+
  have "(set (qd_words ''the quick fox'') \<union> set (qd_words ''the fox runs'')) \<inter> qd_inherited = {}"
    unfolding w by (auto simp: qd_inherited_def)
  from qunit_diff_accounts [OF this] show ?thesis
    unfolding w by (elim exE conjE) (intro exI conjI, assumption+)
qed

lemma qunit_diff_example:
  "qunit_diff ''the quick brown fox jumped over'' ''the quick fox jumps over'' =
     Some '' the  quick <del>brown </del> fox <del>jumped </del><ins>jumps </ins> over ''"
  by code_simp

text \<open>
  A first word that is only deleted is lost when the first new word is kept: the leading deletions are printed only in front of an
  inserted word.
\<close>

lemma qunit_diff_loses_first: "qunit_diff ''a b'' ''b'' = Some '' b ''"
  by code_simp

text \<open>A text with the word \<open>constructor\<close> cannot be compared.\<close>

lemma qunit_diff_constructor: "qunit_diff ''a constructor'' ''a'' = None"
  by code_simp

end
