(* ===== verification/Qunit_Equiv.thy ===== *)
theory Qunit_Equiv
  imports Js_Number "HOL-Library.Multiset" "HOL-Library.List_Lexorder" "HOL-Library.Char_ord"
begin

text \<open>
  \<open>QUnit.equiv\<close> of \<open>fuelux/lib/qunit/qunit.js\<close>, the comparison behind \<open>deepEqual\<close>, on plain data (no functions, dates, regular
  expressions, wrapper objects or cycles, so the stacks \<open>callers\<close> and \<open>parents\<close> never decide), and the helpers \<open>diff\<close> and \<open>extend\<close>. Two
  arrays or objects of the model stand for different objects, so \<open>===\<close> holds between primitive values only. An object is the list of
  its enumerable properties in the order \<open>for (i in a)\<close> visits them; \<open>proto\<close> says whether it has \<open>Object.prototype\<close> or no
  prototype.
  The lemmas show that the comparison is equality of values up to the order of properties, and so an equivalence.
\<close>

datatype qv =
    QUndefined
  | QNull
  | QBool bool
  | QNum jnum
  | QStr string
  | QArr "qv list"
  | QObj bool "(string \<times> qv) list"

datatype q_type = TUndefined | TNull | TBoolean | TNumber | TNan | TString | TArray | TObject

fun q_objectType :: "qv \<Rightarrow> q_type" where
  "q_objectType QUndefined = TUndefined"
| "q_objectType QNull = TNull"
| "q_objectType (QBool _) = TBoolean"
| "q_objectType (QNum x) = (if x = NaN then TNan else TNumber)"
| "q_objectType (QStr _) = TString"
| "q_objectType (QArr _) = TArray"
| "q_objectType (QObj _ _) = TObject"

text \<open>\<open>a === b\<close> for values that are not the same object.\<close>

fun q_identical :: "qv \<Rightarrow> qv \<Rightarrow> bool" where
  "q_identical QUndefined QUndefined = True"
| "q_identical QNull QNull = True"
| "q_identical (QBool a) (QBool b) = (a = b)"
| "q_identical (QNum a) (QNum b) = (a = b \<and> a \<noteq> NaN)"
| "q_identical (QStr a) (QStr b) = (a = b)"
| "q_identical _ _ = False"

definition q_get :: "(string \<times> qv) list \<Rightarrow> string \<Rightarrow> qv" where
  "q_get ps k = (case map_of ps k of Some v \<Rightarrow> v | None \<Rightarrow> QUndefined)"

text \<open>
  \<open>a.constructor\<close>: an own property of that name hides the inherited \<open>Object\<close>; an object without prototype inherits none. \<open>None\<close> is
  \<open>Object\<close>.
\<close>

definition q_constructor :: "bool \<Rightarrow> (string \<times> qv) list \<Rightarrow> qv option" where
  "q_constructor proto ps =
     (case map_of ps ''constructor'' of Some v \<Rightarrow> Some v | None \<Rightarrow> if proto then None else Some QUndefined)"

definition q_same_constructor :: "qv option \<Rightarrow> qv option \<Rightarrow> bool" where
  "q_same_constructor a b =
     (case (a, b) of (None, None) \<Rightarrow> True | (Some v, Some w) \<Rightarrow> q_identical v w | _ \<Rightarrow> False)"

fun q_equiv :: "qv \<Rightarrow> qv \<Rightarrow> bool"
  and q_equiv_array :: "qv list \<Rightarrow> qv list \<Rightarrow> bool"
  and q_equiv_props :: "(string \<times> qv) list \<Rightarrow> (string \<times> qv) list \<Rightarrow> bool" where
  "q_equiv a b =
     (if q_identical a b then True
      else if a = QNull \<or> b = QNull \<or> a = QUndefined \<or> b = QUndefined \<or> q_objectType a \<noteq> q_objectType b then False
      else case a of
             QNum x \<Rightarrow> x = NaN
           | QArr xs \<Rightarrow> (case b of QArr ys \<Rightarrow> length xs = length ys \<and> q_equiv_array xs ys | _ \<Rightarrow> False)
           | QObj p ps \<Rightarrow>
               (case b of
                  QObj q qs \<Rightarrow>
                    (q_same_constructor (q_constructor p ps) (q_constructor q qs) \<or> p \<noteq> q) \<and>
                    q_equiv_props ps qs \<and> sort (map fst ps) = sort (map fst qs)
                | _ \<Rightarrow> False)
           | _ \<Rightarrow> False)"
| "q_equiv_array [] ys = True"
| "q_equiv_array (x # xs) [] = True"
| "q_equiv_array (x # xs) (y # ys) = (q_equiv x y \<and> q_equiv_array xs ys)"
| "q_equiv_props [] qs = True"
| "q_equiv_props ((k, v) # ps) qs = (q_equiv v (q_get qs k) \<and> q_equiv_props ps qs)"

declare q_equiv.simps [simp del]

lemmas q_equiv_cases [simp] =
  q_equiv.simps [of QUndefined] q_equiv.simps [of QNull] q_equiv.simps [of "QBool b" for b] q_equiv.simps [of "QNum x" for x]
  q_equiv.simps [of "QStr w" for w] q_equiv.simps [of "QArr xs" for xs] q_equiv.simps [of "QObj p ps" for p ps]

subsection \<open>The reference\<close>

text \<open>A value with the properties of its objects in the order of their names; the prototype does not count.\<close>

fun q_canon :: "qv \<Rightarrow> qv" where
  "q_canon (QArr xs) = QArr (map q_canon xs)"
| "q_canon (QObj _ ps) = QObj True (sort_key fst (map (\<lambda>(k, v). (k, q_canon v)) ps))"
| "q_canon v = v"

text \<open>No object has a property twice, or one called \<open>constructor\<close>.\<close>

fun q_plain :: "qv \<Rightarrow> bool" where
  "q_plain (QArr xs) = list_all q_plain xs"
| "q_plain (QObj _ ps) = (distinct (map fst ps) \<and> ''constructor'' \<notin> fst ` set ps \<and> list_all (\<lambda>(_, v). q_plain v) ps)"
| "q_plain _ = True"

lemma q_sorted_eq:
  assumes ps: "distinct (map fst ps)" and qs: "distinct (map fst qs)"
  shows "sort_key fst ps = sort_key fst qs \<longleftrightarrow> set ps = set (qs :: (string \<times> qv) list)"
proof
  assume eq: "set ps = set qs"
  have d: "distinct ps" "distinct qs" and inj: "inj_on fst (set ps)" using ps qs by (simp_all add: distinct_map)
  have m: "mset ps = mset qs" using d eq by (simp add: set_eq_iff_mset_eq_distinct)
  show "sort_key fst ps = sort_key fst qs"
    by (rule sort_key_inj_key_eq) (simp_all add: m inj)
next
  assume "sort_key fst ps = sort_key fst qs"
  then show "set ps = set qs" by (metis set_sort)
qed

lemma q_get_mem: "distinct (map fst ps) \<Longrightarrow> (k, v) \<in> set ps \<Longrightarrow> q_get ps k = v"
  by (simp add: q_get_def)

lemma q_get_notin: "k \<notin> fst ` set ps \<Longrightarrow> q_get ps k = QUndefined"
  by (metis map_of_eq_None_iff option.simps(4) q_get_def)

lemma q_canon_props:
  assumes ps: "distinct (map fst ps)" and qs: "distinct (map fst qs)"
  shows "q_canon (QObj p ps) = q_canon (QObj q qs) \<longleftrightarrow>
           fst ` set ps = fst ` set qs \<and> (\<forall>k \<in> fst ` set ps. q_canon (q_get ps k) = q_canon (q_get qs k))"
proof -
  define f where "f = (\<lambda>(k :: string, v). (k, q_canon v))"
  have keys: "map fst (map f xs) = map fst xs" "fst ` set (map f xs) = fst ` set xs" for xs
    by (auto simp: f_def image_image split_beta)
  have d: "distinct (map fst (map f ps))" "distinct (map fst (map f qs))" by (simp_all only: keys ps qs)
  have "q_canon (QObj p ps) = q_canon (QObj q qs) \<longleftrightarrow> set (map f ps) = set (map f qs)"
    using q_sorted_eq [OF d] by (simp add: f_def [symmetric])
  also have "\<dots> \<longleftrightarrow> map_of (map f ps) = map_of (map f qs)"
    using map_of_inject_set [OF d] by simp
  also have "\<dots> \<longleftrightarrow> (\<forall>k. map_option q_canon (map_of ps k) = map_option q_canon (map_of qs k))"
  proof -
    have "map_of (map f xs) k = map_option q_canon (map_of xs k)" for xs k
      by (induction xs) (auto simp: f_def)
    then show ?thesis by (simp add: fun_eq_iff)
  qed
  also have "\<dots> \<longleftrightarrow> fst ` set ps = fst ` set qs \<and> (\<forall>k \<in> fst ` set ps. q_canon (q_get ps k) = q_canon (q_get qs k))"
  proof -
    have dom: "k \<in> fst ` set xs \<longleftrightarrow> map_of xs k \<noteq> None" for k and xs :: "(string \<times> qv) list"
      by (metis map_of_eq_None_iff)
    have point: "map_option q_canon (map_of ps k) = map_option q_canon (map_of qs k) \<longleftrightarrow>
        (map_of ps k \<noteq> None) = (map_of qs k \<noteq> None) \<and> (map_of ps k \<noteq> None \<longrightarrow> q_canon (q_get ps k) = q_canon (q_get qs k))" for k
      by (cases "map_of ps k"; cases "map_of qs k") (simp_all add: q_get_def)
    show ?thesis unfolding set_eq_iff Ball_def dom point by blast
  qed
  finally show ?thesis .
qed

lemma q_equiv_props_all: "q_equiv_props ps qs \<longleftrightarrow> (\<forall>(k, v) \<in> set ps. q_equiv v (q_get qs k))"
  by (induction ps) auto

lemma q_plain_get: "q_plain (QObj p ps) \<Longrightarrow> q_plain (q_get ps k)"
  by (auto simp: q_get_def list_all_iff split: option.splits dest!: map_of_SomeD)

lemma q_sort_keys:
  "distinct xs \<Longrightarrow> distinct ys \<Longrightarrow> sort xs = sort ys \<longleftrightarrow> set xs = set (ys :: string list)"
  by (metis set_sort sorted_distinct_set_unique sorted_sort distinct_sort)

lemma q_constructor_plain:
  "q_plain (QObj p ps) \<Longrightarrow> q_plain (QObj q qs) \<Longrightarrow> q_same_constructor (q_constructor p ps) (q_constructor q qs) \<or> p \<noteq> q"
proof -
  assume "q_plain (QObj p ps)" "q_plain (QObj q qs)"
  then have "map_of ps ''constructor'' = None" "map_of qs ''constructor'' = None" by (simp_all add: map_of_eq_None_iff)
  then show ?thesis by (simp add: q_constructor_def q_same_constructor_def)
qed

lemma q_equiv_primitive: "(\<And>xs. a \<noteq> QArr xs) \<Longrightarrow> (\<And>p ps. a \<noteq> QObj p ps) \<Longrightarrow> q_equiv a b \<longleftrightarrow> q_canon a = q_canon b"
  by (cases a; cases b) auto

lemma q_equiv_array_canon:
  "length xs = length ys \<Longrightarrow> (\<And>x y. x \<in> set xs \<Longrightarrow> y \<in> set ys \<Longrightarrow> q_equiv x y = (q_canon x = q_canon y)) \<Longrightarrow>
   q_equiv_array xs ys \<longleftrightarrow> map q_canon xs = map q_canon ys"
proof (induction xs ys rule: list_induct2)
  case (Cons x xs y ys)
  then have "q_equiv x y = (q_canon x = q_canon y)" "q_equiv_array xs ys \<longleftrightarrow> map q_canon xs = map q_canon ys" by simp_all
  then show ?case by simp
qed simp

lemma q_equiv_props_canon:
  assumes "q_plain (QObj p ps)" "q_plain (QObj q qs)"
    and eq: "\<And>k v w. (k, v) \<in> set ps \<Longrightarrow> q_plain v \<Longrightarrow> q_plain w \<Longrightarrow> q_equiv v w = (q_canon v = q_canon w)"
  shows "q_equiv_props ps qs \<longleftrightarrow> (\<forall>k \<in> fst ` set ps. q_canon (q_get ps k) = q_canon (q_get qs k))"
proof -
  have d: "distinct (map fst ps)" using assms(1) by simp
  have "q_equiv v (q_get qs k) = (q_canon (q_get ps k) = q_canon (q_get qs k))" if "(k, v) \<in> set ps" for k v
    using eq [OF that, of "q_get qs k"] q_plain_get [OF assms(1), of k] q_plain_get [OF assms(2), of k] q_get_mem [OF d that] by simp
  then show ?thesis by (auto simp: q_equiv_props_all)
qed

text \<open>C32: On plain data \<open>QUnit.equiv\<close> holds exactly between equal values, not-a-number included, where the order of an object's
  properties and its lack of a prototype do not count; so it is an equivalence.\<close>

theorem qunit_equiv_is_equality:
  assumes "q_plain a" "q_plain b"
  shows "q_equiv a b \<longleftrightarrow> q_canon a = q_canon b"
  using assms
proof (induction a arbitrary: b)
  case (QArr xs)
  show ?case
  proof (cases b)
    case (QArr ys)
    have "q_equiv_array xs ys \<longleftrightarrow> map q_canon xs = map q_canon ys" if "length xs = length ys"
      by (rule q_equiv_array_canon [OF that]) (use QArr.IH QArr.prems QArr in \<open>auto simp: list_all_iff\<close>)
    then show ?thesis using QArr by (auto dest: map_eq_imp_length_eq)
  qed (use QArr in auto)
next
  case (QObj p ps)
  show ?case
  proof (cases b)
    case (QObj q qs)
    note prems = QObj.prems [unfolded QObj]
    have d: "distinct (map fst ps)" "distinct (map fst qs)" using prems by simp_all
    have "q_equiv_props ps qs \<longleftrightarrow> (\<forall>k \<in> fst ` set ps. q_canon (q_get ps k) = q_canon (q_get qs k))"
      by (rule q_equiv_props_canon [OF prems]) (use QObj.IH in \<open>force simp: prod_set_simps\<close>)
    then have "q_equiv (QObj p ps) b \<longleftrightarrow>
                 fst ` set ps = fst ` set qs \<and> (\<forall>k \<in> fst ` set ps. q_canon (q_get ps k) = q_canon (q_get qs k))"
      using q_constructor_plain [OF prems] q_sort_keys [OF d] by (auto simp: QObj)
    then show ?thesis using q_canon_props [OF d, of p q] QObj by simp
  qed (use QObj in auto)
qed (simp_all add: q_equiv_primitive del: q_equiv_cases)

theorem qunit_equiv_is_equality_witness:
  "q_equiv (QObj True [(''a'', QNum NaN), (''b'', QArr [QNull])]) (QObj False [(''b'', QArr [QNull]), (''a'', QNum NaN)])"
proof -
  have "q_canon (QObj True [(''a'', QNum NaN), (''b'', QArr [QNull])])
          = q_canon (QObj False [(''b'', QArr [QNull]), (''a'', QNum NaN)])"
    by code_simp
  then show ?thesis
    using qunit_equiv_is_equality [of "QObj True [(''a'', QNum NaN), (''b'', QArr [QNull])]"
        "QObj False [(''b'', QArr [QNull]), (''a'', QNum NaN)]"]
    by simp
qed

text \<open>
  An own property called \<open>constructor\<close> is taken for the constructor and compared by identity: two objects that hold equal arrays
  there are not equivalent.
\<close>

lemma qunit_equiv_constructor:
  "\<not> q_equiv (QObj True [(''constructor'', QArr [])]) (QObj True [(''constructor'', QArr [])])"
  by code_simp

subsection \<open>The helpers \<open>diff\<close> and \<open>extend\<close>\<close>

text \<open>\<open>splice\<close> takes the element at \<open>i\<close> out and the index stays; the helper serves the names of global variables.\<close>

function q_diff_loop :: "string list \<Rightarrow> string list \<Rightarrow> nat \<Rightarrow> string list" where
  "q_diff_loop b result i =
     (if i < length result
      then (if result ! i \<in> set b then q_diff_loop b (take i result @ drop (Suc i) result) i
            else q_diff_loop b result (Suc i))
      else result)"
  by pat_completeness auto
termination
  by (relation "measure (\<lambda>(b, result, i). length result - i)") auto

declare q_diff_loop.simps [simp del]

definition q_diff :: "string list \<Rightarrow> string list \<Rightarrow> string list" where
  "q_diff a b = q_diff_loop b a 0"

lemma q_diff_loop_filter:
  "i \<le> length result \<Longrightarrow> q_diff_loop b result i = take i result @ filter (\<lambda>x. x \<notin> set b) (drop i result)"
proof (induction b result i rule: q_diff_loop.induct)
  case (1 b result i)
  show ?case
  proof (cases "i < length result")
    case True
    then have d: "drop i result = result ! i # drop (Suc i) result" by (simp add: Cons_nth_drop_Suc)
    show ?thesis
    proof (cases "result ! i \<in> set b")
      case mem: True
      have "q_diff_loop b result i = q_diff_loop b (take i result @ drop (Suc i) result) i"
        using True mem by (simp add: q_diff_loop.simps [of b result i])
      also have "\<dots> = take i result @ filter (\<lambda>x. x \<notin> set b) (drop (Suc i) result)"
        using 1(1) [OF True mem] True by simp
      finally show ?thesis using d mem by simp
    next
      case no: False
      have "q_diff_loop b result i = q_diff_loop b result (Suc i)"
        using True no by (simp add: q_diff_loop.simps [of b result i])
      then show ?thesis using 1(2) [OF True no] True d no by (simp add: take_Suc_conv_app_nth)
    qed
  next
    case False
    then show ?thesis using 1 by (simp add: q_diff_loop.simps)
  qed
qed

lemma q_diff_filter: "q_diff a b = filter (\<lambda>x. x \<notin> set b) a"
  by (simp add: q_diff_def q_diff_loop_filter)

definition q_extend :: "qv obj \<Rightarrow> qv obj \<Rightarrow> qv obj" where
  "q_extend a b = fold (\<lambda>(k, v) acc. if v = QUndefined then AList.delete k acc else AList.update k v acc) b a"

lemma q_extend_get:
  "distinct (map fst b) \<Longrightarrow>
   map_of (q_extend a b) k =
     (case map_of b k of Some v \<Rightarrow> if v = QUndefined then None else Some v | None \<Rightarrow> map_of a k)"
proof (induction b arbitrary: a)
  case (Cons p b)
  obtain j v where p: "p = (j, v)" by (cases p)
  have "q_extend a (p # b) = q_extend (if v = QUndefined then AList.delete j a else AList.update j v a) b"
    by (simp add: q_extend_def p)
  moreover have "j = k \<Longrightarrow> map_of b k = None" using Cons.prems p by (auto simp: map_of_eq_None_iff)
  ultimately show ?case using Cons p by (auto simp: delete_conv' update_conv' split: option.splits)
qed (simp add: q_extend_def)

end
