(* ===== verification/Qunit_Runner.thy ===== *)
theory Qunit_Runner
  imports Js_Prelude
begin

text \<open>
  How \<open>fuelux/lib/qunit/qunit.js\<close> runs the tests of a page: the queue of steps that \<open>Test.queue\<close> fills, \<open>process\<close>, the semaphore of
  \<open>start\<close> and \<open>stop\<close>, the assertions of the current test and the totals. All tests are registered before the page has
  loaded, so nothing runs while the queue is filled. What a test's functions do is part of the test: the assertions its callback makes, its
  calls of \<open>stop\<close> and \<open>start\<close>, whether it throws. Assertions, \<open>start\<close> and \<open>stop\<close> may also come later, from code the test has
  left running. The time slice of \<open>process\<close> is a number of steps. The option \<open>requireExpects\<close> has its default,
  off. The page's display of the results, the statistics per module and the time-out of tests are not modelled.
  The lemmas show that the tests run one after the other in a fixed order, and that the totals are those of the tests.
\<close>

subsection \<open>Tests and the queue\<close>

record q_test =
  qt_id :: nat
  qt_expected :: "nat option"
  qt_async :: bool
  qt_asserts :: "bool list"
  qt_stops :: nat
  qt_starts :: nat
  qt_throws :: bool
  qt_setup_throws :: bool
  qt_teardown_throws :: bool
  qt_failed_before :: bool

datatype q_phase = PSetup | PRun | PTeardown | PFinish

datatype q_step = StInit q_test | StPhases q_test | StPhase q_phase q_test

record q_runner =
  rn_queue :: "q_step list"
  rn_blocking :: bool
  rn_semaphore :: int
  rn_timers :: nat
  rn_slices :: nat
  rn_current :: "q_test option"
  rn_asserts :: "nat \<Rightarrow> bool list"
  rn_all :: nat
  rn_bad :: nat
  rn_ran :: "(q_phase \<times> q_test) list"
  rn_results :: "(nat \<times> nat \<times> nat) list"
  rn_dones :: nat

definition q_phases :: "q_test \<Rightarrow> q_step list" where
  "q_phases t = [StPhase PSetup t, StPhase PRun t, StPhase PTeardown t, StPhase PFinish t]"

text \<open>\<open>queue\<close>: a test that failed in the last run (with \<open>reorder\<close> and a session storage) queues its phases at once, any other when its turn comes.\<close>

definition q_queue :: "bool \<Rightarrow> q_test \<Rightarrow> q_step list" where
  "q_queue reorder t = StInit t # (if reorder \<and> qt_failed_before t then q_phases t else [StPhases t])"

text \<open>The state when the page has loaded: \<open>QUnit.load\<close> has called \<open>start\<close>, whose timer is running.\<close>

definition q_loaded :: "bool \<Rightarrow> q_test list \<Rightarrow> q_runner" where
  "q_loaded reorder ts =
     \<lparr>rn_queue = concat (map (q_queue reorder) ts), rn_blocking = False, rn_semaphore = 0, rn_timers = 1, rn_slices = 0,
      rn_current = None, rn_asserts = (\<lambda>_. []), rn_all = 0, rn_bad = 0, rn_ran = [], rn_results = [], rn_dones = 0\<rparr>"

subsection \<open>Operations\<close>

text \<open>\<open>start(n)\<close> and \<open>stop(n)\<close>; a count of 0 counts as 1.\<close>

definition q_start :: "nat \<Rightarrow> q_runner \<Rightarrow> q_runner" where
  "q_start n s =
     (let m = rn_semaphore s - int (if n = 0 then 1 else n)
      in if m > 0 then s\<lparr>rn_semaphore := m\<rparr>
         else s\<lparr>rn_semaphore := (if m < 0 then 0 else m), rn_timers := Suc (rn_timers s)\<rparr>)"

definition q_stop :: "nat \<Rightarrow> q_runner \<Rightarrow> q_runner" where
  "q_stop n s = s\<lparr>rn_semaphore := rn_semaphore s + int (if n = 0 then 1 else n), rn_blocking := True\<rparr>"

text \<open>\<open>push\<close>, \<open>ok\<close> and \<open>pushFailure\<close> add to the assertions of the current test; without one they throw.\<close>

definition q_push :: "bool \<Rightarrow> q_runner \<Rightarrow> q_runner" where
  "q_push b s =
     (case rn_current s of
        None \<Rightarrow> s
      | Some t \<Rightarrow> s\<lparr>rn_asserts := (rn_asserts s)(qt_id t := rn_asserts s (qt_id t) @ [b])\<rparr>)"

definition q_run_phase :: "q_test \<Rightarrow> q_runner \<Rightarrow> q_runner" where
  "q_run_phase t s =
     (let s1 = (if qt_async t then q_stop 0 s else s);
          s2 = (q_start 0 ^^ qt_starts t) ((q_stop 0 ^^ qt_stops t) (fold q_push (qt_asserts t) s1))
      in if \<not> qt_throws t then s2
         else let s3 = q_push False s2 in if rn_blocking s3 then q_start 0 s3 else s3)"

text \<open>\<open>finish\<close>: the check of the expected number of assertions (\<open>requireExpects\<close> is off), the totals, the event \<open>testDone\<close>.\<close>

definition q_finish :: "q_test \<Rightarrow> q_runner \<Rightarrow> q_runner" where
  "q_finish t s0 =
     (let n = length (rn_asserts s0 (qt_id t));
          wrong = (case qt_expected t of Some k \<Rightarrow> k \<noteq> n | None \<Rightarrow> n = 0);
          s = (if wrong then q_push False s0 else s0);
          as = rn_asserts s (qt_id t); bad = length (filter Not as)
      in s\<lparr>rn_all := rn_all s + length as, rn_bad := rn_bad s + bad,
           rn_results := rn_results s @ [(qt_id t, bad, length as)], rn_current := None\<rparr>)"

fun q_exec :: "q_step \<Rightarrow> q_runner \<Rightarrow> q_runner" where
  "q_exec (StInit t) s = s"
| "q_exec (StPhases t) s = s\<lparr>rn_queue := rn_queue s @ q_phases t\<rparr>"
| "q_exec (StPhase p t) s0 =
     (let s = s0\<lparr>rn_current := Some t, rn_ran := rn_ran s0 @ [(p, t)]\<rparr>
      in case p of
           PSetup \<Rightarrow> if qt_setup_throws t then q_push False s else s
         | PRun \<Rightarrow> q_run_phase t s
         | PTeardown \<Rightarrow> if qt_teardown_throws t then q_push False s else s
         | PFinish \<Rightarrow> q_finish t s)"

text \<open>\<open>process(true)\<close> with a time slice of \<open>n\<close> steps, which goes on from a timer of its own.\<close>

fun q_process :: "nat \<Rightarrow> q_runner \<Rightarrow> q_runner" where
  "q_process n s =
     (case rn_queue s of
        [] \<Rightarrow> if rn_blocking s then s else s\<lparr>rn_dones := Suc (rn_dones s)\<rparr>
      | st # rest \<Rightarrow>
          if rn_blocking s then s
          else (case n of
                  0 \<Rightarrow> s\<lparr>rn_slices := Suc (rn_slices s)\<rparr>
                | Suc m \<Rightarrow> q_process m (q_exec st (s\<lparr>rn_queue := rest\<rparr>))))"

declare q_process.simps [simp del]

definition q_timer :: "nat \<Rightarrow> q_runner \<Rightarrow> q_runner" where
  "q_timer n s0 =
     (if rn_timers s0 = 0 then s0
      else let s = s0\<lparr>rn_timers := rn_timers s0 - 1\<rparr>
           in if rn_semaphore s > 0 then s else q_process n (s\<lparr>rn_blocking := False\<rparr>))"

definition q_slice :: "nat \<Rightarrow> q_runner \<Rightarrow> q_runner" where
  "q_slice n s = (if rn_slices s = 0 then s else q_process n (s\<lparr>rn_slices := rn_slices s - 1\<rparr>))"

datatype q_event = EvTimer nat | EvSlice nat | EvStart nat | EvStop nat | EvAssert bool

fun q_event_step :: "q_runner \<Rightarrow> q_event \<Rightarrow> q_runner" where
  "q_event_step s (EvTimer n) = q_timer n s"
| "q_event_step s (EvSlice n) = q_slice n s"
| "q_event_step s (EvStart n) = q_start n s"
| "q_event_step s (EvStop n) = q_stop n s"
| "q_event_step s (EvAssert b) = q_push b s"

subsection \<open>The order of the phases\<close>

text \<open>What the queue will still run: its phases in order, then those of the tests that have not queued theirs.\<close>

fun q_now :: "q_step \<Rightarrow> (q_phase \<times> q_test) list" where
  "q_now (StPhase p t) = [(p, t)]"
| "q_now _ = []"

definition q_all_phases :: "q_test \<Rightarrow> (q_phase \<times> q_test) list" where
  "q_all_phases t = [(PSetup, t), (PRun, t), (PTeardown, t), (PFinish, t)]"

fun q_later :: "q_step \<Rightarrow> (q_phase \<times> q_test) list" where
  "q_later (StPhases t) = q_all_phases t"
| "q_later _ = []"

definition q_pending :: "q_step list \<Rightarrow> (q_phase \<times> q_test) list" where
  "q_pending q = concat (map q_now q) @ concat (map q_later q)"

definition q_schedule :: "bool \<Rightarrow> q_test list \<Rightarrow> q_test list" where
  "q_schedule reorder ts =
     filter (\<lambda>t. reorder \<and> qt_failed_before t) ts @ filter (\<lambda>t. \<not> (reorder \<and> qt_failed_before t)) ts"

lemma q_start_frame [simp]:
  "rn_queue (q_start n s) = rn_queue s" "rn_ran (q_start n s) = rn_ran s" "rn_dones (q_start n s) = rn_dones s"
  "rn_all (q_start n s) = rn_all s" "rn_bad (q_start n s) = rn_bad s" "rn_results (q_start n s) = rn_results s"
  by (simp_all add: q_start_def Let_def)

lemma q_stop_frame [simp]:
  "rn_queue (q_stop n s) = rn_queue s" "rn_ran (q_stop n s) = rn_ran s" "rn_dones (q_stop n s) = rn_dones s"
  "rn_all (q_stop n s) = rn_all s" "rn_bad (q_stop n s) = rn_bad s" "rn_results (q_stop n s) = rn_results s"
  by (simp_all add: q_stop_def)

lemma q_push_frame [simp]:
  "rn_queue (q_push b s) = rn_queue s" "rn_ran (q_push b s) = rn_ran s" "rn_dones (q_push b s) = rn_dones s"
  "rn_all (q_push b s) = rn_all s" "rn_bad (q_push b s) = rn_bad s" "rn_results (q_push b s) = rn_results s"
  by (simp_all add: q_push_def split: option.splits)

lemma q_iterate_frame:
  assumes "\<And>s. g (f s) = g s"
  shows "g ((f ^^ n) s) = g s"
  using assms by (induction n) auto

lemma q_fold_push_frame [simp]:
  "rn_queue (fold q_push bs s) = rn_queue s" "rn_ran (fold q_push bs s) = rn_ran s" "rn_dones (fold q_push bs s) = rn_dones s"
  "rn_all (fold q_push bs s) = rn_all s" "rn_bad (fold q_push bs s) = rn_bad s" "rn_results (fold q_push bs s) = rn_results s"
  by (induction bs arbitrary: s) simp_all

lemma q_run_phase_frame [simp]:
  "rn_queue (q_run_phase t s) = rn_queue s" "rn_ran (q_run_phase t s) = rn_ran s" "rn_dones (q_run_phase t s) = rn_dones s"
  "rn_all (q_run_phase t s) = rn_all s" "rn_bad (q_run_phase t s) = rn_bad s" "rn_results (q_run_phase t s) = rn_results s"
  by (simp_all add: q_run_phase_def Let_def q_iterate_frame)

lemma q_finish_frame [simp]:
  "rn_queue (q_finish t s) = rn_queue s" "rn_ran (q_finish t s) = rn_ran s" "rn_dones (q_finish t s) = rn_dones s"
  by (simp_all add: q_finish_def Let_def)

lemma q_exec_order:
  "rn_ran (q_exec st s) @ q_pending (rn_queue (q_exec st s)) = rn_ran s @ q_pending (st # rn_queue s)"
  by (cases st) (auto simp: q_pending_def q_phases_def q_all_phases_def Let_def split: q_phase.splits)

lemma q_exec_dones [simp]: "rn_dones (q_exec st s) = rn_dones s"
  by (cases st) (auto simp: Let_def split: q_phase.splits)

text \<open>The totals are the sums over the tests that have finished.\<close>

definition q_totals :: "q_runner \<Rightarrow> bool" where
  "q_totals s \<longleftrightarrow>
     rn_all s = sum_list (map (\<lambda>(_, _, n). n) (rn_results s)) \<and> rn_bad s = sum_list (map (\<lambda>(_, b, _). b) (rn_results s)) \<and>
     map fst (rn_results s) = map (\<lambda>(_, t). qt_id t) (filter (\<lambda>(p, _). p = PFinish) (rn_ran s))"

lemma q_exec_totals: "q_totals s \<Longrightarrow> q_totals (q_exec st s)"
  by (cases st) (auto simp: q_totals_def q_finish_def Let_def split: q_phase.splits)

definition q_ok :: "(q_phase \<times> q_test) list \<Rightarrow> q_runner \<Rightarrow> bool" where
  "q_ok plan s \<longleftrightarrow> rn_ran s @ q_pending (rn_queue s) = plan \<and> q_totals s \<and> (0 < rn_dones s \<longrightarrow> rn_queue s = [])"

lemma q_process_ok: "q_ok plan s \<Longrightarrow> q_ok plan (q_process n s)"
proof (induction n s rule: q_process.induct)
  case (1 n s)
  show ?case
  proof (cases "rn_queue s")
    case Nil
    then show ?thesis using 1 by (subst q_process.simps) (simp add: q_ok_def q_totals_def)
  next
    case (Cons st rest)
    show ?thesis
    proof (cases "rn_blocking s \<or> n = 0")
      case True
      then show ?thesis using 1 Cons by (subst q_process.simps) (auto simp: q_ok_def q_totals_def)
    next
      case False
      then obtain m where m: "n = Suc m" "\<not> rn_blocking s" by (cases n) auto
      have "rn_dones s = 0" using 1(2) Cons by (simp add: q_ok_def)
      then have "q_ok plan (q_exec st (s\<lparr>rn_queue := rest\<rparr>))"
        using 1(2) Cons q_exec_order [of st "s\<lparr>rn_queue := rest\<rparr>"] q_exec_totals [of "s\<lparr>rn_queue := rest\<rparr>" st]
        by (simp add: q_ok_def q_totals_def)
      then show ?thesis using 1(1) [OF Cons m(2) m(1)] m Cons by (subst q_process.simps) simp
    qed
  qed
qed

lemma q_ok_fields:
  "q_ok plan s \<Longrightarrow> rn_queue t = rn_queue s \<Longrightarrow> rn_ran t = rn_ran s \<Longrightarrow> rn_dones t = rn_dones s \<Longrightarrow> rn_all t = rn_all s \<Longrightarrow>
   rn_bad t = rn_bad s \<Longrightarrow> rn_results t = rn_results s \<Longrightarrow> q_ok plan t"
  by (simp add: q_ok_def q_totals_def)

lemma q_event_ok:
  assumes "q_ok plan s"
  shows "q_ok plan (q_event_step s e)"
proof -
  have fields: "q_ok plan (s\<lparr>rn_timers := m\<rparr>)" "q_ok plan (s\<lparr>rn_timers := m, rn_blocking := b\<rparr>)" "q_ok plan (s\<lparr>rn_slices := m\<rparr>)" for m b
    by (rule q_ok_fields [OF assms]; simp)+
  show ?thesis
  proof (cases e)
    case (EvTimer n)
    then show ?thesis using assms fields q_process_ok by (simp add: q_timer_def Let_def)
  next
    case (EvSlice n)
    then show ?thesis using assms fields q_process_ok by (simp add: q_slice_def)
  qed (use q_ok_fields [OF assms] in auto)
qed

interpretation q_runs: step_system q_event_step "q_ok plan" for plan
  by unfold_locales (rule q_event_ok)

lemma q_pending_queue: "q_pending (concat (map (q_queue reorder) ts)) = concat (map q_all_phases (q_schedule reorder ts))"
proof -
  have now: "concat (map q_now (concat (map (q_queue reorder) ts)))
               = concat (map q_all_phases (filter (\<lambda>t. reorder \<and> qt_failed_before t) ts))"
    by (induction ts) (auto simp: q_queue_def q_phases_def q_all_phases_def)
  have later: "concat (map q_later (concat (map (q_queue reorder) ts)))
                 = concat (map q_all_phases (filter (\<lambda>t. \<not> (reorder \<and> qt_failed_before t)) ts))"
    by (induction ts) (auto simp: q_queue_def q_phases_def)
  show ?thesis by (simp only: q_pending_def now later q_schedule_def map_append concat_append)
qed

text \<open>C34: Whatever the tests do and whatever asynchronous code, timers and time slices do in between, the phases run so far are an
  initial part of set-up, run, tear-down and finish of one test after the other, those that failed last time first; the end is
  announced only when all have run; and the totals are the sums over the finished tests.\<close>

theorem qunit_runs_in_order:
  assumes s: "s = foldl q_event_step (q_loaded reorder ts) es"
  shows "\<exists>rest. rn_ran s @ rest = concat (map q_all_phases (q_schedule reorder ts)) \<and>
           (0 < rn_dones s \<longrightarrow> rest = []) \<and>
           rn_all s = sum_list (map (\<lambda>(_, _, n). n) (rn_results s)) \<and>
           rn_bad s = sum_list (map (\<lambda>(_, b, _). b) (rn_results s)) \<and>
           map fst (rn_results s) = map (\<lambda>(_, t). qt_id t) (filter (\<lambda>(p, _). p = PFinish) (rn_ran s))"
proof -
  have "q_ok (concat (map q_all_phases (q_schedule reorder ts))) (q_loaded reorder ts)"
    by (simp add: q_ok_def q_totals_def q_loaded_def q_pending_queue)
  from q_runs.run_ok [OF this] have "q_ok (concat (map q_all_phases (q_schedule reorder ts))) s" unfolding s .
  then show ?thesis
    by (intro exI [of _ "q_pending (rn_queue s)"]) (auto simp: q_ok_def q_totals_def q_pending_def)
qed

definition q_plain_test :: "nat \<Rightarrow> bool list \<Rightarrow> bool \<Rightarrow> q_test" where
  "q_plain_test i as bad =
     \<lparr>qt_id = i, qt_expected = None, qt_async = False, qt_asserts = as, qt_stops = 0, qt_starts = 0, qt_throws = False,
      qt_setup_throws = False, qt_teardown_throws = False, qt_failed_before = bad\<rparr>"

theorem qunit_runs_in_order_witness:
  "\<exists>rest. rn_ran (foldl q_event_step (q_loaded True [q_plain_test 0 [True] False, q_plain_test 1 [True, False] True]) [EvTimer 5, EvSlice 100]) @ rest
           = concat (map q_all_phases [q_plain_test 1 [True, False] True, q_plain_test 0 [True] False])"
proof -
  have "q_schedule True [q_plain_test 0 [True] False, q_plain_test 1 [True, False] True]
          = [q_plain_test 1 [True, False] True, q_plain_test 0 [True] False]"
    by (simp add: q_schedule_def q_plain_test_def)
  then show ?thesis
    using qunit_runs_in_order [OF refl, of True "[q_plain_test 0 [True] False, q_plain_test 1 [True, False] True]" "[EvTimer 5, EvSlice 100]"]
    by (elim exE conjE) (rule exI, simp only:)
qed

subsection \<open>Without asynchronous tests\<close>

definition q_sync :: "q_test \<Rightarrow> bool" where
  "q_sync t \<longleftrightarrow> \<not> qt_async t \<and> qt_stops t = 0"

fun q_step_test :: "q_step \<Rightarrow> q_test" where
  "q_step_test (StInit t) = t"
| "q_step_test (StPhases t) = t"
| "q_step_test (StPhase _ t) = t"

fun q_cost :: "q_step \<Rightarrow> nat" where
  "q_cost (StPhases t) = 5"
| "q_cost _ = 1"

lemma q_push_blocking [simp]: "rn_blocking (q_push b s) = rn_blocking s" "rn_blocking (fold q_push bs s) = rn_blocking s"
proof -
  show one: "rn_blocking (q_push b s) = rn_blocking s" for b s by (simp add: q_push_def split: option.splits)
  show "rn_blocking (fold q_push bs s) = rn_blocking s" by (induction bs arbitrary: s) (simp_all add: one)
qed

lemma q_start_blocking [simp]: "rn_blocking (q_start n s) = rn_blocking s"
  by (simp add: q_start_def Let_def)

lemma q_exec_sync:
  "q_sync (q_step_test st) \<Longrightarrow> rn_blocking (q_exec st s) = rn_blocking s"
  by (cases st)
    (auto simp: q_sync_def q_run_phase_def q_finish_def q_iterate_frame Let_def split: q_phase.splits)

lemma q_exec_queue: "rn_queue (q_exec st s) = rn_queue s @ (case st of StPhases t \<Rightarrow> q_phases t | _ \<Rightarrow> [])"
  by (cases st) (auto simp: Let_def split: q_phase.splits)

text \<open>A time slice long enough runs all synchronous tests and announces the end once.\<close>

lemma q_process_all:
  "\<not> rn_blocking s \<Longrightarrow> list_all (\<lambda>st. q_sync (q_step_test st)) (rn_queue s) \<Longrightarrow> sum_list (map q_cost (rn_queue s)) \<le> n \<Longrightarrow>
   rn_queue (q_process n s) = [] \<and> rn_dones (q_process n s) = Suc (rn_dones s)"
proof (induction n s rule: q_process.induct)
  case (1 n s)
  show ?case
  proof (cases "rn_queue s")
    case Nil
    then show ?thesis using 1 by (subst (1 2) q_process.simps) simp
  next
    case (Cons st rest)
    have "0 < q_cost st" by (cases st) simp_all
    then obtain m where m: "n = Suc m" using 1(4) Cons by (cases n) auto
    define u where "u = q_exec st (s\<lparr>rn_queue := rest\<rparr>)"
    have u: "\<not> rn_blocking u" "rn_dones u = rn_dones s"
      using 1(2,3) Cons q_exec_sync [of st "s\<lparr>rn_queue := rest\<rparr>"] by (simp_all add: u_def)
    have uq: "rn_queue u = rest @ (case st of StPhases t \<Rightarrow> q_phases t | _ \<Rightarrow> [])"
      by (simp add: u_def q_exec_queue)
    have all: "list_all (\<lambda>st. q_sync (q_step_test st)) (rn_queue u)"
      using 1(3) Cons by (cases st) (auto simp: uq q_phases_def)
    have cost: "sum_list (map q_cost (rn_queue u)) \<le> m"
      using 1(4) Cons m by (cases st) (auto simp: uq q_phases_def)
    have "q_process n s = q_process m u" using 1(2) Cons m by (subst q_process.simps) (simp add: u_def)
    then show ?thesis using 1(1) [OF Cons 1(2) m, folded u_def, OF u(1) all cost] u by simp
  qed
qed

text \<open>
  Every surplus call of \<open>start\<close> starts a timer of its own, and each of these announces the end: the event \<open>done\<close> is triggered
  twice.
\<close>

lemma qunit_done_twice:
  "rn_dones (foldl q_event_step (q_loaded True [q_plain_test 0 [True] False]) [EvTimer 100, EvStart 1, EvTimer 100]) = 2"
  by code_simp

end
